(* ===== verification/Prelude.thy ===== *)
theory Prelude
  imports Main "HOL-Library.Word"
begin

text \<open>
  Shared vocabulary of the development: the integer widths of the C++ code, the gRPC status
  codes, the C++ exceptions as values, byte strings with the \<open>std::string\<close> searches the
  sources use, the contract of an operation that may throw after it has changed its object,
  and the contract of a state machine with an invariant. The generic lemmas are declared for
  \<open>simp\<close> or collected in the named theorems below, so that component proofs stay short.
\<close>

named_theorems model_defs \<open>definitions a component proof unfolds\<close>
named_theorems wf_intros \<open>preservation of well-formedness invariants\<close>

section \<open>Integers of the sources\<close>

text \<open>
  Unsigned C++ integers are natural numbers; where an operation can wrap at its width, the
  wrap-around is written out with these functions.
\<close>

definition u32 :: "nat \<Rightarrow> nat" where
  "u32 n = n mod 2 ^ 32"

definition u64 :: "nat \<Rightarrow> nat" where
  "u64 n = n mod 2 ^ 64"

abbreviation uint64_max :: nat where
  "uint64_max \<equiv> 18446744073709551615"

text \<open>\<open>static_cast<uint64_t>\<close> of a signed 64-bit value.\<close>

definition u64_of_int :: "int \<Rightarrow> nat" where
  "u64_of_int i = nat (i mod 2 ^ 64)"

lemma u32_small [simp]: "n < 4294967296 \<Longrightarrow> u32 n = n"
  by (simp add: u32_def)

lemma u64_small [simp]: "n < 18446744073709551616 \<Longrightarrow> u64 n = n"
  by (simp add: u64_def)

lemma u64_of_int_nonneg [simp]:
  "0 \<le> i \<Longrightarrow> i < 18446744073709551616 \<Longrightarrow> u64_of_int i = nat i"
  by (simp add: u64_of_int_def)

text \<open>\<open>std::to_string\<close> of an unsigned value.\<close>

fun to_string :: "nat \<Rightarrow> string" where
  "to_string n = (if n < 10 then [char_of (48 + n)] else to_string (n div 10) @ [char_of (48 + n mod 10)])"

declare to_string.simps [simp del]

section \<open>Status codes and exceptions\<close>

datatype status_code =
    OK | CANCELLED | UNKNOWN | INVALID_ARGUMENT | DEADLINE_EXCEEDED | NOT_FOUND
  | ALREADY_EXISTS | PERMISSION_DENIED | RESOURCE_EXHAUSTED | FAILED_PRECONDITION
  | ABORTED | OUT_OF_RANGE | UNIMPLEMENTED | INTERNAL | UNAVAILABLE | DATA_LOSS

text \<open>A \<open>grpc::Status\<close>: its code and its message.\<close>

datatype status = Status (error_code: status_code) (error_message: string)

abbreviation status_ok :: "status \<Rightarrow> bool" where
  "status_ok s \<equiv> error_code s = OK"

text \<open>
  What a C++ call may throw: \<open>media::Failure\<close> with its gRPC code, the standard exceptions
  by the class the callers catch, and the collector's own classes.
\<close>

datatype exn =
    Failure status_code string
  | Invalid_argument string
  | Logic_error string
  | Length_error string
  | Runtime_error string
  | Out_of_range string
  | Bad_alloc
  | Cancelled string
  | Queue_timeout string
  | Decode_error string
  | Duration_cap_exceeded string
  | Tool_error string

section \<open>Results of operations that may throw\<close>

text \<open>
  \<open>'s outcome\<close> is an object after a call together with the exception that left the call, if
  any: a C++ member function that throws keeps the fields it has already assigned.
\<close>

type_synonym 's outcome = "'s \<times> exn option"

definition and_then :: "'s outcome \<Rightarrow> ('s \<Rightarrow> 's outcome) \<Rightarrow> 's outcome" where
  "and_then r k = (case snd r of None \<Rightarrow> k (fst r) | Some e \<Rightarrow> r)"

lemma and_then_simps [simp]:
  "and_then (s, None) k = k s"
  "and_then (s, Some e) k = (s, Some e)"
  by (simp_all add: and_then_def)

lemma and_then_None_iff:
  "and_then r k = (t, None) \<longleftrightarrow> (\<exists>s. r = (s, None) \<and> k s = (t, None))"
  by (cases r) (auto simp: and_then_def split: option.splits)

lemma and_then_fst_cases:
  assumes "\<And>e. snd r = Some e \<Longrightarrow> P (fst r)" "\<And>s. r = (s, None) \<Longrightarrow> P (fst (k s))"
  shows "P (fst (and_then r k))"
  using assms by (cases r) (auto simp: and_then_def split: option.splits)

section \<open>Machines with an invariant\<close>

text \<open>
  The contract of every stateful component: an operation, whatever it returns or throws,
  keeps the invariant. The clients' fact is proved once: a whole sequence of operations
  keeps it.
\<close>

locale invariant_machine =
  fixes step :: "'e \<Rightarrow> 's \<Rightarrow> 's" and inv :: "'s \<Rightarrow> bool"
  assumes step_inv: "inv s \<Longrightarrow> inv (step e s)"
begin

lemma fold_inv: "inv s \<Longrightarrow> inv (fold step es s)"
  by (induction es arbitrary: s) (auto intro: step_inv)

end

section \<open>Lists\<close>

lemma take_append_drop_slice:
  "i \<le> j \<Longrightarrow> take (j - i) (drop i xs) @ drop j xs = drop i xs"
  by (metis append_take_drop_id drop_drop le_add_diff_inverse2)

lemma take_slice_append:
  "i \<le> j \<Longrightarrow> take i xs @ take (j - i) (drop i xs) = take j xs"
  by (metis le_add_diff_inverse take_add)

lemma drop_snoc_le: "n \<le> length xs \<Longrightarrow> drop n (xs @ [x]) = drop n xs @ [x]"
  by simp

lemma take_slice_extend:
  "i + n \<le> length xs \<Longrightarrow> take n (drop i (xs @ ys)) = take n (drop i xs)"
  by simp

end
