(* ===== verification/Float32.thy ===== *)
theory Float32
  imports Prelude
begin

unbundle bit_operations_syntax

text \<open>
  PCM samples. A C++ \<open>float\<close> is modelled by its IEEE-754 single precision bit pattern, so
  that \<open>std::isnan\<close>, \<open>std::isfinite\<close>, the comparisons and \<open>std::bit_cast\<close> are
  computed exactly as the machine does; NaN payloads and the two zeros stay distinct. The
  theory holds \<open>scrub_pcm\<close> of src/src/media/pcm_scrub.h and the little-endian codec the
  streaming code uses for \<open>pcm_f32le\<close> fields.
\<close>

section \<open>Bit patterns\<close>

type_synonym f32 = "32 word"

definition f32_mag :: "f32 \<Rightarrow> int" where
  "f32_mag x = uint (take_bit 31 x)"

definition f32_neg :: "f32 \<Rightarrow> bool" where
  "f32_neg x = bit x 31"

text \<open>The exponent is all ones exactly for the infinities (mantissa 0) and the NaNs.\<close>

definition f32_isnan :: "f32 \<Rightarrow> bool" where
  "f32_isnan x \<longleftrightarrow> 0x7F800000 < f32_mag x"

definition f32_isfinite :: "f32 \<Rightarrow> bool" where
  "f32_isfinite x \<longleftrightarrow> f32_mag x < 0x7F800000"

text \<open>
  Patterns of one sign are ordered as their magnitudes; the signed magnitude orders all
  non-NaN values and identifies the two zeros.
\<close>

definition f32_key :: "f32 \<Rightarrow> int" where
  "f32_key x = (if f32_neg x then - f32_mag x else f32_mag x)"

definition f32_lt :: "f32 \<Rightarrow> f32 \<Rightarrow> bool" where
  "f32_lt x y \<longleftrightarrow> \<not> f32_isnan x \<and> \<not> f32_isnan y \<and> f32_key x < f32_key y"

abbreviation f32_zero :: f32 where "f32_zero \<equiv> 0"
abbreviation f32_one :: f32 where "f32_one \<equiv> 0x3F800000"
abbreviation f32_minus_one :: f32 where "f32_minus_one \<equiv> 0xBF800000"

text \<open>\<open>std::min\<close> and \<open>std::clamp\<close> on floats, by the comparisons the standard prescribes.\<close>

definition f32_min :: "f32 \<Rightarrow> f32 \<Rightarrow> f32" where
  "f32_min x y = (if f32_lt y x then y else x)"

definition f32_clamp :: "f32 \<Rightarrow> f32 \<Rightarrow> f32 \<Rightarrow> f32" where
  "f32_clamp x lo hi = (if f32_lt x lo then lo else if f32_lt hi x then hi else x)"

section \<open>The scrubber\<close>

text \<open>One iteration of the loop: the sample it leaves in place and whether it was changed.\<close>

definition scrub_sample :: "f32 \<Rightarrow> f32 \<times> bool" where
  "scrub_sample s =
     (if f32_isnan s then (f32_zero, True)
      else if f32_lt s f32_minus_one \<or> f32_lt f32_one s
      then (f32_clamp s f32_minus_one f32_one, True)
      else (s, False))"

fun scrub_pcm :: "f32 list \<Rightarrow> f32 list \<times> nat" where
  "scrub_pcm [] = ([], 0)"
| "scrub_pcm (s # ss) =
     (let (s', c) = scrub_sample s; (ss', n) = scrub_pcm ss
      in (s' # ss', (if c then 1 else 0) + n))"

text \<open>The model's PCM contract: a finite value in [-1, 1].\<close>

definition pcm_ok :: "f32 \<Rightarrow> bool" where
  "pcm_ok s \<longleftrightarrow> f32_isfinite s \<and> \<not> f32_lt s f32_minus_one \<and> \<not> f32_lt f32_one s"

lemma f32_mag_nonneg [simp]: "0 \<le> f32_mag x"
  by (simp add: f32_mag_def)

lemma f32_mag_numerals [simp]:
  "f32_mag 0 = 0" "f32_mag 0x3F800000 = 0x3F800000" "f32_mag 0xBF800000 = 0x3F800000"
  by (simp_all add: f32_mag_def take_bit_eq_mod)

lemma f32_neg_numerals [simp]:
  "\<not> f32_neg 0" "\<not> f32_neg 0x3F800000" "f32_neg 0xBF800000"
  by (simp_all add: f32_neg_def bit_iff_odd)

lemma f32_key_numerals [simp]:
  "f32_key 0 = 0" "f32_key 0x3F800000 = 0x3F800000" "f32_key 0xBF800000 = - 0x3F800000"
  by (simp_all add: f32_key_def)

lemmas f32_order_defs = f32_lt_def f32_isnan_def f32_isfinite_def f32_clamp_def

lemma scrub_sample_ok: "pcm_ok (fst (scrub_sample s))"
  by (auto simp: pcm_ok_def scrub_sample_def f32_order_defs f32_key_def split: if_splits)

lemma scrub_sample_changed: "snd (scrub_sample s) \<longleftrightarrow> fst (scrub_sample s) \<noteq> s"
  by (auto simp: scrub_sample_def f32_order_defs)

lemma scrub_sample_fixed: "pcm_ok s \<Longrightarrow> scrub_sample s = (s, False)"
  by (auto simp: pcm_ok_def scrub_sample_def f32_order_defs)

lemma scrub_pcm_eq:
  "scrub_pcm ss = (map (fst \<circ> scrub_sample) ss, length (filter (snd \<circ> scrub_sample) ss))"
  by (induction ss) (auto simp: Let_def split: prod.splits)

lemma scrub_pcm_length [simp]: "length (fst (scrub_pcm ss)) = length ss"
  by (simp add: scrub_pcm_eq)

text \<open>After \<open>scrub_pcm\<close> every sample is a finite value in [-1, 1], samples that
  already met the contract keep their bit pattern, and the returned count is the number of
  positions whose bit pattern changed.\<close>

theorem scrub_pcm_contract:
  "list_all pcm_ok (fst (scrub_pcm ss)) \<and>
   snd (scrub_pcm ss) = length (filter (\<lambda>(a, b). a \<noteq> b) (zip ss (fst (scrub_pcm ss)))) \<and>
   (\<forall>i < length ss. pcm_ok (ss ! i) \<longrightarrow> fst (scrub_pcm ss) ! i = ss ! i)"
proof (intro conjI)
  show "list_all pcm_ok (fst (scrub_pcm ss))"
    by (simp add: scrub_pcm_eq list_all_iff scrub_sample_ok)
  show "snd (scrub_pcm ss) =
    length (filter (\<lambda>(a, b). a \<noteq> b) (zip ss (fst (scrub_pcm ss))))"
    by (induction ss) (auto simp: scrub_pcm_eq scrub_sample_changed)
  show "\<forall>i < length ss. pcm_ok (ss ! i) \<longrightarrow> fst (scrub_pcm ss) ! i = ss ! i"
    by (simp add: scrub_pcm_eq scrub_sample_fixed)
qed

theorem scrub_pcm_contract_witness:
  "fst (scrub_pcm [0x7FC00000, 0x40000000, 0x3F000000]) ! 2 = 0x3F000000"
proof -
  have "pcm_ok ([0x7FC00000, 0x40000000, 0x3F000000] ! 2)"
    by (simp add: pcm_ok_def f32_order_defs f32_key_def f32_mag_def f32_neg_def
        take_bit_eq_mod bit_iff_odd)
  then show ?thesis
    using scrub_pcm_contract [of "[0x7FC00000, 0x40000000, 0x3F000000]"] by simp
qed

section \<open>The little-endian codec\<close>

text \<open>\<open>static_cast<char>(bits >> (b*8))\<close> and its inverse, byte by byte.\<close>

definition f32_byte :: "nat \<Rightarrow> f32 \<Rightarrow> char" where
  "f32_byte b x = char_of (unat (drop_bit (8 * b) x))"

definition f32_encode :: "f32 \<Rightarrow> string" where
  "f32_encode x = map (\<lambda>b. f32_byte b x) [0, 1, 2, 3]"

definition f32_of_bytes :: "char \<Rightarrow> char \<Rightarrow> char \<Rightarrow> char \<Rightarrow> f32" where
  "f32_of_bytes a b c d =
     push_bit 0 (of_char a) OR push_bit 8 (of_char b) OR
     push_bit 16 (of_char c) OR push_bit 24 (of_char d)"

definition pcm_encode :: "f32 list \<Rightarrow> string" where
  "pcm_encode xs = concat (map f32_encode xs)"

text \<open>
  The decoding loop steps by four and is only entered for sizes divisible by four; a
  remainder of fewer bytes cannot be read, which \<open>None\<close> records.
\<close>

fun pcm_decode :: "string \<Rightarrow> f32 list option" where
  "pcm_decode [] = Some []"
| "pcm_decode (a # b # c # d # rest) = map_option ((#) (f32_of_bytes a b c d)) (pcm_decode rest)"
| "pcm_decode _ = None"

lemma of_char_char_of_word: "(of_char (char_of n) :: f32) = take_bit 8 (of_nat n)"
proof -
  have "(of_char (char_of n) :: f32) = of_nat (of_char (char_of n))"
    by (simp only: of_nat_of_char)
  also have "(of_char (char_of n) :: nat) = take_bit 8 n"
    by (simp add: take_bit_eq_mod)
  finally show ?thesis
    by (simp only: of_nat_take_bit)
qed

lemma f32_of_bytes_f32_byte:
  "f32_of_bytes (f32_byte 0 x) (f32_byte 1 x) (f32_byte 2 x) (f32_byte 3 x) = x"
proof (rule bit_word_eqI)
  fix n
  assume "n < LENGTH(32)"
  then consider "n < 8" | "8 \<le> n" "n < 16" | "16 \<le> n" "n < 24" | "24 \<le> n" "n < 32"
    by fastforce
  then show "bit (f32_of_bytes (f32_byte 0 x) (f32_byte 1 x) (f32_byte 2 x) (f32_byte 3 x)) n =
    bit x n"
    by cases (auto simp: f32_of_bytes_def f32_byte_def of_char_char_of_word bit_or_iff
        bit_push_bit_iff bit_take_bit_iff bit_drop_bit_eq)
qed

lemma f32_encode_length [simp]: "length (f32_encode x) = 4"
  by (simp add: f32_encode_def)

lemma pcm_encode_simps [simp]:
  "pcm_encode [] = []"
  "pcm_encode (x # xs) = f32_encode x @ pcm_encode xs"
  by (simp_all add: pcm_encode_def)

lemma pcm_encode_length [simp]: "length (pcm_encode xs) = 4 * length xs"
  by (induction xs) auto

lemma pcm_decode_encode: "pcm_decode (pcm_encode xs) = Some xs"
proof (induction xs)
  case Nil
  show ?case by simp
next
  case (Cons x xs)
  then show ?case
    using f32_of_bytes_f32_byte [of x] by (simp add: f32_encode_def)
qed

text \<open>Decoding the \<open>pcm_f32le\<close> bytes a sender wrote returns exactly the samples it
  sent, bit for bit, so no sample is altered between the pipeline and the worker.\<close>

theorem pcm_roundtrip: "pcm_decode (pcm_encode xs) = Some xs"
  by (rule pcm_decode_encode)

lemma pcm_decode_some_iff: "(\<exists>xs. pcm_decode bs = Some xs) \<longleftrightarrow> 4 dvd length bs"
proof (induction bs rule: pcm_decode.induct)
  case (2 a b c d rest)
  have "4 dvd length (a # b # c # d # rest) \<longleftrightarrow> 4 dvd length rest"
    by (simp add: dvd_eq_mod_eq_0 mod_Suc)
  with "2.IH" show ?case
    by auto
qed (auto simp: dvd_eq_mod_eq_0 mod_Suc)

lemma pcm_decode_length: "pcm_decode bs = Some xs \<Longrightarrow> length bs = 4 * length xs"
  by (induction bs arbitrary: xs rule: pcm_decode.induct) auto

end
