(* ===== verification/Windowing.thy ===== *)
theory Windowing
  imports Float32
begin

text \<open>
  The bounded window cutter of the streaming pipeline (src/streaming/src/windowing.cpp):
  fixed windows with overlap, or windows cut at speech pauses with a hard length limit. The
  state of the class is the record \<open>windowing\<close>; the \<open>Emit\<close> callback is a client
  function over a client state that may throw, and an exception it throws leaves
  \<open>emit\<close> where the C++ code would be left.

  Sample counters are natural numbers: they count samples that were received one by one.
\<close>

section \<open>Policies and windows\<close>

datatype window_boundary = Fixed | Pause | Forced | End | Discontinuity

record window_policy =
  target_samples :: nat
  max_samples :: nat
  overlap_samples :: nat
  min_pause_samples :: nat
  padding_samples :: nat
  speech_aware :: bool
  fail_without_pause :: bool

record speech_window =
  win_number :: nat
  win_first_sample :: nat
  win_first_new_sample :: nat
  win_boundary :: window_boundary
  win_samples :: "f32 list"

record windowing =
  wd_policy :: window_policy
  wd_buffer :: "f32 list"
  wd_first :: nat
  wd_received :: nat
  wd_committed :: nat
  wd_number :: nat
  wd_silence_start :: nat
  wd_in_silence :: bool
  wd_finished :: bool

type_synonym 'c window_emit = "'c \<Rightarrow> speech_window \<Rightarrow> 'c outcome"

section \<open>Operations\<close>

text \<open>The two guards of the constructor, \<open>emit_set\<close> telling whether a callback was given.\<close>

definition window_policy_ok :: "bool \<Rightarrow> window_policy \<Rightarrow> bool" where
  "window_policy_ok emit_set p \<longleftrightarrow>
     \<not> (\<not> emit_set \<or> target_samples p = 0 \<or> max_samples p < target_samples p \<or>
        max_samples p > 16000 * 30 \<or> overlap_samples p \<ge> target_samples p)"

definition pause_policy_ok :: "window_policy \<Rightarrow> bool" where
  "pause_policy_ok p \<longleftrightarrow>
     \<not> (speech_aware p \<and>
        (min_pause_samples p = 0 \<or> min_pause_samples p > max_samples p \<or>
         padding_samples p * 2 \<ge> max_samples p \<or>
         (\<not> fail_without_pause p \<and> overlap_samples p = 0)))"

definition windowing_new :: "bool \<Rightarrow> window_policy \<Rightarrow> exn + windowing" where
  "windowing_new emit_set p =
     (if \<not> window_policy_ok emit_set p
      then Inl (Invalid_argument ''invalid bounded speech window policy'')
      else if \<not> pause_policy_ok p
      then Inl (Invalid_argument ''invalid pause boundary policy'')
      else Inr \<lparr>wd_policy = p, wd_buffer = [], wd_first = 0, wd_received = 0, wd_committed = 0,
                wd_number = 0, wd_silence_start = 0, wd_in_silence = False, wd_finished = False\<rparr>)"

text \<open>\<open>Windowing::emit\<close>: the callback runs before the counters move on.\<close>

definition windowing_emit ::
  "'c window_emit \<Rightarrow> nat \<Rightarrow> window_boundary \<Rightarrow> nat \<Rightarrow> windowing \<times> 'c \<Rightarrow> (windowing \<times> 'c) outcome"
where
  "windowing_emit cb count bnd overlap sc =
     (let (s, c) = sc in
      if count = 0 \<or> wd_first s + count \<le> wd_committed s then ((s, c), None)
      else
        let stop = wd_first s + count;
            w = \<lparr>win_number = Suc (wd_number s), win_first_sample = wd_first s,
                 win_first_new_sample = wd_committed s, win_boundary = bnd,
                 win_samples = take count (wd_buffer s)\<rparr>;
            s1 = s\<lparr>wd_number := Suc (wd_number s)\<rparr>;
            (c', e) = cb c w
        in case e of
             Some x \<Rightarrow> ((s1, c'), Some x)
           | None \<Rightarrow>
               let consume = count - overlap in
               ((s1\<lparr>wd_committed := stop, wd_buffer := drop consume (wd_buffer s),
                    wd_first := wd_first s + consume\<rparr>, c'), None))"

text \<open>One iteration of the loop of \<open>Windowing::append\<close>, in the order of the code.\<close>

definition windowing_track :: "bool \<Rightarrow> f32 \<Rightarrow> windowing \<Rightarrow> windowing" where
  "windowing_track speech sample s =
     (let s1 = (if speech then s\<lparr>wd_in_silence := False\<rparr>
                else if \<not> wd_in_silence s
                then s\<lparr>wd_silence_start := wd_received s, wd_in_silence := True\<rparr> else s)
      in s1\<lparr>wd_buffer := wd_buffer s @ [sample], wd_received := Suc (wd_received s)\<rparr>)"

definition windowing_pause_cut :: "windowing \<Rightarrow> nat" where
  "windowing_pause_cut s =
     max (wd_first s + target_samples (wd_policy s)) (wd_silence_start s + padding_samples (wd_policy s))"

definition windowing_pause ::
  "'c window_emit \<Rightarrow> windowing \<times> 'c \<Rightarrow> (windowing \<times> 'c) outcome" where
  "windowing_pause cb sc =
     (let (s, c) = sc; p = wd_policy s in
      if wd_in_silence s \<and> wd_received s - wd_silence_start s \<ge> min_pause_samples p
      then let cut = windowing_pause_cut s in
           if cut > wd_first s \<and> cut + padding_samples p \<le> wd_received s
           then windowing_emit cb (cut - wd_first s) Pause 0 sc
           else (sc, None)
      else (sc, None))"

definition windowing_limit ::
  "'c window_emit \<Rightarrow> windowing \<times> 'c \<Rightarrow> (windowing \<times> 'c) outcome" where
  "windowing_limit cb sc =
     (let (s, c) = sc; p = wd_policy s in
      if length (wd_buffer s) \<ge> max_samples p
      then if fail_without_pause p
           then ((s\<lparr>wd_finished := True\<rparr>, c),
                 Some (Length_error ''no speech pause before hard window limit''))
           else windowing_emit cb (length (wd_buffer s)) Forced (overlap_samples p) sc
      else (sc, None))"

definition windowing_push ::
  "'c window_emit \<Rightarrow> bool \<Rightarrow> f32 \<Rightarrow> windowing \<times> 'c \<Rightarrow> (windowing \<times> 'c) outcome" where
  "windowing_push cb speech sample sc =
     (if \<not> f32_isfinite sample then (sc, Some (Invalid_argument ''nonfinite PCM sample''))
      else
        let s = windowing_track speech sample (fst sc); c = snd sc; p = wd_policy s in
        if \<not> speech_aware p
        then (if length (wd_buffer s) = target_samples p
              then windowing_emit cb (length (wd_buffer s)) Fixed (overlap_samples p) (s, c)
              else ((s, c), None))
        else and_then (windowing_pause cb (s, c)) (windowing_limit cb))"

fun windowing_push_all ::
  "'c window_emit \<Rightarrow> bool \<Rightarrow> f32 list \<Rightarrow> windowing \<times> 'c \<Rightarrow> (windowing \<times> 'c) outcome" where
  "windowing_push_all cb speech [] sc = (sc, None)"
| "windowing_push_all cb speech (x # xs) sc =
     and_then (windowing_push cb speech x sc) (windowing_push_all cb speech xs)"

definition windowing_append ::
  "'c window_emit \<Rightarrow> f32 list \<Rightarrow> bool \<Rightarrow> windowing \<times> 'c \<Rightarrow> (windowing \<times> 'c) outcome" where
  "windowing_append cb samples speech sc =
     (if wd_finished (fst sc) then (sc, Some (Logic_error ''audio after window close''))
      else windowing_push_all cb speech samples sc)"

definition windowing_finish :: "'c window_emit \<Rightarrow> windowing \<times> 'c \<Rightarrow> (windowing \<times> 'c) outcome" where
  "windowing_finish cb sc =
     (if wd_finished (fst sc) then (sc, Some (Logic_error ''window stream already closed''))
      else and_then (windowing_emit cb (length (wd_buffer (fst sc))) End 0 sc)
             (\<lambda>(s, c). ((s\<lparr>wd_buffer := [], wd_finished := True\<rparr>, c), None)))"

definition windowing_discontinuity ::
  "'c window_emit \<Rightarrow> windowing \<times> 'c \<Rightarrow> (windowing \<times> 'c) outcome" where
  "windowing_discontinuity cb sc =
     (if wd_finished (fst sc) then (sc, Some (Logic_error ''discontinuity after close''))
      else and_then (windowing_emit cb (length (wd_buffer (fst sc))) Discontinuity 0 sc)
             (\<lambda>(s, c). ((s\<lparr>wd_buffer := [], wd_first := wd_received s, wd_in_silence := False\<rparr>, c), None)))"

definition buffered_samples :: "windowing \<Rightarrow> nat" where
  "buffered_samples s = length (wd_buffer s)"

text \<open>A caller's sequence of operations; an exception ends it, as it ends the stream.\<close>

datatype window_op = Append "f32 list" bool | Mark_discontinuity | Finish

fun windowing_op :: "'c window_emit \<Rightarrow> window_op \<Rightarrow> windowing \<times> 'c \<Rightarrow> (windowing \<times> 'c) outcome" where
  "windowing_op cb (Append xs speech) sc = windowing_append cb xs speech sc"
| "windowing_op cb Mark_discontinuity sc = windowing_discontinuity cb sc"
| "windowing_op cb Finish sc = windowing_finish cb sc"

fun windowing_run :: "'c window_emit \<Rightarrow> window_op list \<Rightarrow> windowing \<times> 'c \<Rightarrow> (windowing \<times> 'c) outcome" where
  "windowing_run cb [] sc = (sc, None)"
| "windowing_run cb (a # ops) sc = and_then (windowing_op cb a sc) (windowing_run cb ops)"

text \<open>All samples a sequence of operations hands in.\<close>

fun op_samples :: "window_op \<Rightarrow> f32 list" where
  "op_samples (Append xs speech) = xs"
| "op_samples Mark_discontinuity = []"
| "op_samples Finish = []"

section \<open>What a client of the cutter is promised\<close>

definition window_end :: "speech_window \<Rightarrow> nat" where
  "window_end w = win_first_sample w + length (win_samples w)"

definition window_new :: "speech_window \<Rightarrow> f32 list" where
  "window_new w = drop (win_first_new_sample w - win_first_sample w) (win_samples w)"

text \<open>
  \<open>w\<close> is the window that may follow \<open>n\<close> windows whose audio ended at sample \<open>e\<close>, the
  last of them cut at boundary \<open>pv\<close>: it carries the next number, its samples are a slice of
  the input, it brings new audio that starts exactly at \<open>e\<close>, it repeats at most the
  configured overlap, and nothing is repeated across a pause or a discontinuity.
\<close>

definition next_window ::
  "window_policy \<Rightarrow> f32 list \<Rightarrow> nat \<Rightarrow> nat \<Rightarrow> window_boundary option \<Rightarrow> speech_window \<Rightarrow> bool" where
  "next_window p inp n e pv w \<longleftrightarrow>
     win_number w = Suc n \<and>
     win_first_new_sample w = e \<and>
     win_first_sample w \<le> e \<and> e < window_end w \<and>
     e - win_first_sample w \<le> overlap_samples p \<and>
     length (win_samples w) \<le> max_samples p \<and>
     window_end w \<le> length inp \<and>
     win_samples w = take (length (win_samples w)) (drop (win_first_sample w) inp) \<and>
     (pv = None \<or> pv = Some Pause \<or> pv = Some Discontinuity \<longrightarrow> win_first_sample w = e) \<and>
     pv \<noteq> Some End \<and>
     (win_boundary w = Fixed \<or> win_boundary w = Forced \<longrightarrow>
        overlap_samples p < length (win_samples w))"

fun window_chain ::
  "window_policy \<Rightarrow> f32 list \<Rightarrow> nat \<Rightarrow> nat \<Rightarrow> window_boundary option \<Rightarrow> speech_window list \<Rightarrow> bool" where
  "window_chain p inp n e pv [] = True"
| "window_chain p inp n e pv (w # ws) =
     (next_window p inp n e pv w \<and>
      window_chain p inp (Suc n) (window_end w) (Some (win_boundary w)) ws)"

definition chain_end :: "nat \<Rightarrow> speech_window list \<Rightarrow> nat" where
  "chain_end e ws = (if ws = [] then e else window_end (last ws))"

definition chain_prev ::
  "window_boundary option \<Rightarrow> speech_window list \<Rightarrow> window_boundary option" where
  "chain_prev pv ws = (if ws = [] then pv else Some (win_boundary (last ws)))"

lemma window_chain_snoc:
  "window_chain p inp n e pv (ws @ [w]) \<longleftrightarrow>
     window_chain p inp n e pv ws \<and>
     next_window p inp (n + length ws) (chain_end e ws) (chain_prev pv ws) w"
  by (induction ws arbitrary: n e pv) (auto simp: chain_end_def chain_prev_def)

lemma next_window_extend: "next_window p inp n e pv w \<Longrightarrow> next_window p (inp @ ys) n e pv w"
  by (auto simp: next_window_def window_end_def)

lemma window_chain_extend:
  "window_chain p inp n e pv ws \<Longrightarrow> window_chain p (inp @ ys) n e pv ws"
  by (induction ws arbitrary: n e pv) (auto intro: next_window_extend)

lemma window_new_slice:
  assumes "next_window p inp n e pv w"
  shows "window_new w = take (window_end w - e) (drop e inp)"
proof -
  let ?f = "win_first_sample w" and ?l = "length (win_samples w)"
  from assms have slice: "win_samples w = take ?l (drop ?f inp)"
    and start: "win_first_new_sample w = e" and le: "?f \<le> e"
    by (simp_all add: next_window_def)
  have "window_new w = drop (e - ?f) (take ?l (drop ?f inp))"
    unfolding window_new_def start by (subst slice) simp
  also have "\<dots> = take (?l - (e - ?f)) (drop e inp)"
    using le by (simp only: drop_take drop_drop le_add_diff_inverse2)
  also have "?l - (e - ?f) = window_end w - e"
    using le by (simp add: window_end_def)
  finally show ?thesis .
qed

lemma window_chain_covers:
  "window_chain p inp n e pv ws \<Longrightarrow> e \<le> length inp \<Longrightarrow>
   e \<le> chain_end e ws \<and> chain_end e ws \<le> length inp \<and>
   concat (map window_new ws) = take (chain_end e ws - e) (drop e inp)"
proof (induction ws arbitrary: n e pv)
  case Nil
  then show ?case by (simp add: chain_end_def)
next
  case (Cons w ws)
  from Cons.prems have w: "next_window p inp n e pv w"
    and ch: "window_chain p inp (Suc n) (window_end w) (Some (win_boundary w)) ws"
    by auto
  let ?m = "window_end w" and ?z = "chain_end e (w # ws)"
  have z: "?z = chain_end ?m ws" by (simp add: chain_end_def)
  have m: "e \<le> ?m" "?m \<le> length inp" using w by (auto simp: next_window_def)
  from Cons.IH [OF ch m(2)] have ih: "?m \<le> ?z" "?z \<le> length inp"
    "concat (map window_new ws) = take (?z - ?m) (drop ?m inp)"
    by (auto simp: z)
  have "take (?m - e) (drop e inp) @ take (?z - ?m) (drop (?m - e) (drop e inp)) =
        take (?m - e + (?z - ?m)) (drop e inp)"
    by (rule take_add [symmetric])
  with ih m w show ?case
    by (simp add: window_new_slice)
qed

section \<open>The invariant\<close>

definition window_limit :: "window_policy \<Rightarrow> nat" where
  "window_limit p = (if speech_aware p then max_samples p else target_samples p)"

text \<open>
  \<open>windowing_wf inp pv s\<close>: after the samples \<open>inp\<close> the buffer is the tail of the input
  from \<open>first\<close>, the committed mark lies inside it by at most the overlap, and no overlap is
  kept after a pause, a discontinuity or at the start.
\<close>

definition windowing_wf ::
  "window_policy \<Rightarrow> f32 list \<Rightarrow> window_boundary option \<Rightarrow> windowing \<Rightarrow> bool" where
  "windowing_wf p inp pv s \<longleftrightarrow>
     wd_policy s = p \<and> window_policy_ok True p \<and> pause_policy_ok p \<and>
     wd_received s = length inp \<and>
     wd_first s \<le> wd_committed s \<and> wd_committed s \<le> wd_received s \<and>
     wd_committed s - wd_first s \<le> overlap_samples p \<and>
     (\<not> wd_finished s \<longrightarrow> wd_buffer s = drop (wd_first s) inp) \<and>
     (pv = None \<or> pv = Some Pause \<or> pv = Some Discontinuity \<longrightarrow> wd_first s = wd_committed s) \<and>
     (pv = Some End \<longrightarrow> wd_finished s)"

lemma windowing_wf_buffer:
  "windowing_wf p inp pv s \<Longrightarrow> \<not> wd_finished s \<Longrightarrow>
   length (wd_buffer s) = wd_received s - wd_first s"
  by (auto simp: windowing_wf_def)

lemma window_limit_bounds:
  "window_policy_ok True p \<Longrightarrow>
   0 < window_limit p \<and> window_limit p \<le> max_samples p \<and> overlap_samples p < window_limit p"
  by (auto simp: window_limit_def window_policy_ok_def)

lemma windowing_wf_policy:
  "windowing_wf p inp pv s \<Longrightarrow> wd_policy s = p \<and> window_policy_ok True p \<and> pause_policy_ok p"
  by (simp add: windowing_wf_def)

lemmas policy_ok_defs = window_policy_ok_def pause_policy_ok_def

lemma windowing_new_wf:
  "windowing_new True p = Inr s \<Longrightarrow>
   windowing_wf p [] None s \<and> wd_number s = 0 \<and> wd_committed s = 0 \<and> \<not> wd_finished s \<and>
   length (wd_buffer s) < window_limit p"
  by (auto simp: windowing_new_def windowing_wf_def window_limit_def policy_ok_defs split: if_splits)

lemma windowing_track_wf:
  assumes "windowing_wf p inp pv s" "\<not> wd_finished s"
  shows "windowing_wf p (inp @ [x]) pv (windowing_track speech x s)"
  using assms by (auto simp: windowing_wf_def windowing_track_def Let_def)

lemma windowing_track_frame [simp]:
  "wd_policy (windowing_track speech x s) = wd_policy s"
  "wd_number (windowing_track speech x s) = wd_number s"
  "wd_committed (windowing_track speech x s) = wd_committed s"
  "wd_finished (windowing_track speech x s) = wd_finished s"
  "wd_first (windowing_track speech x s) = wd_first s"
  "wd_received (windowing_track speech x s) = Suc (wd_received s)"
  "length (wd_buffer (windowing_track speech x s)) = Suc (length (wd_buffer s))"
  by (simp_all add: windowing_track_def Let_def)

text \<open>\<open>emit\<close> either has nothing new to say, or hands the client the next window.\<close>

lemma windowing_emit_cases:
  assumes wf: "windowing_wf p inp pv s" and open_: "\<not> wd_finished s"
    and fits: "count \<le> length (wd_buffer s)" "count \<le> max_samples p"
    and ov: "ov \<le> overlap_samples p" "bnd \<noteq> Fixed \<and> bnd \<noteq> Forced \<longrightarrow> ov = 0"
      "bnd = Fixed \<or> bnd = Forced \<longrightarrow> overlap_samples p < count"
    and bnd: "bnd \<noteq> End"
    and run: "windowing_emit cb count bnd ov (s, c) = ((s', c'), None)"
  obtains (quiet) "s' = s" "c' = c" "count = 0 \<or> wd_first s + count \<le> wd_committed s"
  | (window) w where "next_window p inp (wd_number s) (wd_committed s) pv w"
      "win_boundary w = bnd" "cb c w = (c', None)" "window_end w = wd_first s + count"
      "windowing_wf p inp (Some bnd) s'" "wd_number s' = Suc (wd_number s)"
      "wd_committed s' = wd_first s + count" "\<not> wd_finished s'"
      "wd_received s' = wd_received s"
      "length (wd_buffer s') = length (wd_buffer s) - (count - ov)"
proof (cases "count = 0 \<or> wd_first s + count \<le> wd_committed s")
  case True
  with run show ?thesis by (auto simp: windowing_emit_def intro: quiet)
next
  case False
  define w where "w = \<lparr>win_number = Suc (wd_number s), win_first_sample = wd_first s,
      win_first_new_sample = wd_committed s, win_boundary = bnd,
      win_samples = take count (wd_buffer s)\<rparr>"
  let ?t = "s\<lparr>wd_number := Suc (wd_number s), wd_committed := wd_first s + count,
      wd_buffer := drop (count - ov) (wd_buffer s), wd_first := wd_first s + (count - ov)\<rparr>"
  from run False have cb: "cb c w = (c', None)" and s': "s' = ?t"
    by (auto simp: windowing_emit_def w_def Let_def split: prod.splits option.splits)
  from wf open_ have buf: "wd_buffer s = drop (wd_first s) inp"
    and mark: "wd_first s \<le> wd_committed s" "wd_committed s \<le> length inp"
      "wd_committed s - wd_first s \<le> overlap_samples p"
    and kept: "pv = None \<or> pv = Some Pause \<or> pv = Some Discontinuity \<longrightarrow> wd_first s = wd_committed s"
      "pv \<noteq> Some End"
    by (auto simp: windowing_wf_def)
  have fits': "wd_first s + count \<le> length inp"
    using fits(1) mark by (simp add: buf)
  have nw: "next_window p inp (wd_number s) (wd_committed s) pv w"
    using mark kept ov(3) False fits' fits(2)
    by (simp add: next_window_def w_def window_end_def buf min_absorb2)
  have end_w: "window_end w = wd_first s + count"
    using fits by (simp add: w_def window_end_def)
  have wf': "windowing_wf p inp (Some bnd) s'"
    using wf open_ ov(1,2) bnd False fits'
    by (simp add: windowing_wf_def s' buf add.commute)
  show ?thesis
    by (rule window [OF nw _ cb end_w wf'])
      (use fits open_ in \<open>simp_all add: w_def s'\<close>)
qed

section \<open>The contract between the cutter and its client\<close>

text \<open>
  A client keeps a relation \<open>ready\<close> between the input seen so far, its own state, the number
  of windows and the sample it has been given, and the last boundary; it must accept every
  next window without losing the relation. Everything the cutter does then keeps it: the
  client never sees a window out of order, a gap, or an overlap where there must be none.
\<close>

locale window_client =
  fixes cb :: "'c window_emit"
    and ready :: "window_policy \<Rightarrow> f32 list \<Rightarrow> 'c \<Rightarrow> nat \<Rightarrow> nat \<Rightarrow> window_boundary option \<Rightarrow> bool"
  assumes ready_extend: "ready p inp c n e pv \<Longrightarrow> ready p (inp @ ys) c n e pv"
    and ready_next: "ready p inp c n e pv \<Longrightarrow> next_window p inp n e pv w \<Longrightarrow>
      cb c w = (c', None) \<Longrightarrow> ready p inp c' (Suc n) (window_end w) (Some (win_boundary w))"
begin

definition linked ::
  "window_policy \<Rightarrow> f32 list \<Rightarrow> window_boundary option \<Rightarrow> windowing \<times> 'c \<Rightarrow> bool" where
  "linked p inp pv sc \<longleftrightarrow>
     windowing_wf p inp pv (fst sc) \<and>
     ready p inp (snd sc) (wd_number (fst sc)) (wd_committed (fst sc)) pv"

lemma linked_emit:
  assumes "linked p inp pv (s, c)" "\<not> wd_finished s"
    "count \<le> length (wd_buffer s)" "count \<le> max_samples p"
    "ov \<le> overlap_samples p" "bnd \<noteq> Fixed \<and> bnd \<noteq> Forced \<longrightarrow> ov = 0"
    "bnd = Fixed \<or> bnd = Forced \<longrightarrow> overlap_samples p < count" "bnd \<noteq> End"
    "windowing_emit cb count bnd ov (s, c) = ((s', c'), None)"
  shows "\<exists>pv'. linked p inp pv' (s', c') \<and> \<not> wd_finished s' \<and>
    wd_received s' = wd_received s \<and>
    (s' = s \<and> (count = 0 \<or> wd_first s + count \<le> wd_committed s) \<or>
     length (wd_buffer s') = length (wd_buffer s) - (count - ov) \<and>
     wd_committed s' = wd_first s + count \<and> pv' = Some bnd)"
proof -
  have wf: "windowing_wf p inp pv s" and rd: "ready p inp c (wd_number s) (wd_committed s) pv"
    using assms(1) by (simp_all add: linked_def)
  from wf assms(2-9) show ?thesis
  proof (cases rule: windowing_emit_cases)
    case quiet
    with assms(1,2) show ?thesis by blast
  next
    case (window w)
    have "ready p inp c' (Suc (wd_number s)) (window_end w) (Some (win_boundary w))"
      by (rule ready_next [OF rd window(1) window(3)])
    with window have "linked p inp (Some bnd) (s', c')"
      by (simp add: linked_def)
    with window show ?thesis by blast
  qed
qed

lemma linked_track:
  assumes "linked p inp pv (s, c)" "\<not> wd_finished s"
  shows "linked p (inp @ [x]) pv (windowing_track speech x s, c)"
  using assms by (simp add: linked_def windowing_track_wf ready_extend)

lemma linked_pause:
  assumes lk: "linked p inp pv (s, c)" and open_: "\<not> wd_finished s"
    and len: "length (wd_buffer s) \<le> max_samples p"
    and run: "windowing_pause cb (s, c) = ((s', c'), None)"
  shows "\<exists>pv'. linked p inp pv' (s', c') \<and> \<not> wd_finished s' \<and>
    length (wd_buffer s') \<le> length (wd_buffer s)"
proof (cases "windowing_pause cb (s, c) =
    windowing_emit cb (windowing_pause_cut s - wd_first s) Pause 0 (s, c) \<and>
    wd_first s < windowing_pause_cut s \<and> windowing_pause_cut s \<le> wd_received s")
  case True
  let ?n = "windowing_pause_cut s - wd_first s"
  have buf: "length (wd_buffer s) = wd_received s - wd_first s"
    using lk open_ by (auto simp: linked_def dest: windowing_wf_buffer)
  have "?n \<le> length (wd_buffer s)" "?n \<le> max_samples p"
    using True len unfolding buf by linarith+
  from linked_emit [OF lk open_ this, of 0 Pause s' c'] True run show ?thesis
    by auto
next
  case False
  with run lk open_ show ?thesis
    by (auto simp: windowing_pause_def Let_def split: if_splits)
qed

lemma linked_limit:
  assumes lk: "linked p inp pv (s, c)" and open_: "\<not> wd_finished s" and aware: "speech_aware p"
    and len: "length (wd_buffer s) \<le> max_samples p"
    and run: "windowing_limit cb (s, c) = ((s', c'), None)"
  shows "\<exists>pv'. linked p inp pv' (s', c') \<and> \<not> wd_finished s' \<and>
    length (wd_buffer s') < max_samples p"
proof (cases "length (wd_buffer s) < max_samples p")
  case True
  with run lk open_ show ?thesis
    by (auto simp: windowing_limit_def Let_def linked_def windowing_wf_def)
next
  case False
  have pol: "wd_policy s = p" and ok: "window_policy_ok True p"
    and wf: "windowing_wf p inp pv s"
    using lk by (auto simp: linked_def windowing_wf_def)
  from False run pol have
    em: "windowing_emit cb (length (wd_buffer s)) Forced (overlap_samples p) (s, c) = ((s', c'), None)"
    by (auto simp: windowing_limit_def Let_def split: if_splits)
  have size: "overlap_samples p < max_samples p" "max_samples p = length (wd_buffer s)" "0 < max_samples p"
    using ok False len by (auto simp: window_policy_ok_def)
  have "\<not> wd_first s + length (wd_buffer s) \<le> wd_committed s"
    using size wf by (auto simp: windowing_wf_def)
  with linked_emit [OF lk open_ _ _ _ _ _ _ em] size len ok show ?thesis
    by (fastforce simp: window_policy_ok_def)
qed

lemma linked_push:
  assumes lk: "linked p inp pv (s, c)" and open_: "\<not> wd_finished s"
    and len: "length (wd_buffer s) < window_limit p"
    and run: "windowing_push cb speech x (s, c) = ((s', c'), None)"
  shows "\<exists>pv'. linked p (inp @ [x]) pv' (s', c') \<and> \<not> wd_finished s' \<and>
    length (wd_buffer s') < window_limit p"
proof -
  let ?t = "windowing_track speech x s"
  have t: "linked p (inp @ [x]) pv (?t, c)" "\<not> wd_finished ?t" "wd_policy ?t = p"
    using linked_track [OF lk open_] open_ lk by (auto simp: linked_def windowing_wf_def)
  have ok: "window_policy_ok True p"
    using lk by (simp add: linked_def windowing_wf_def)
  show ?thesis
  proof (cases "speech_aware p")
    case True
    from run True t obtain s1 c1 where
      pause: "windowing_pause cb (?t, c) = ((s1, c1), None)" and
      limit: "windowing_limit cb (s1, c1) = ((s', c'), None)"
      by (auto simp: windowing_push_def Let_def and_then_None_iff split: if_splits)
    have "length (wd_buffer ?t) \<le> max_samples p"
      using len True by (simp add: window_limit_def)
    from linked_pause [OF t(1,2) this pause] this obtain pv1 where
      one: "linked p (inp @ [x]) pv1 (s1, c1)" "\<not> wd_finished s1" "length (wd_buffer s1) \<le> max_samples p"
      by auto
    from linked_limit [OF one(1,2) True one(3) limit] True show ?thesis
      by (simp add: window_limit_def)
  next
    case False
    show ?thesis
    proof (cases "length (wd_buffer ?t) = target_samples p")
      case True
      with run False t have
        em: "windowing_emit cb (length (wd_buffer ?t)) Fixed (overlap_samples p) (?t, c) = ((s', c'), None)"
        by (auto simp: windowing_push_def Let_def split: if_splits)
      have "\<not> wd_first ?t + length (wd_buffer ?t) \<le> wd_committed ?t"
        using t(1) True ok by (auto simp: linked_def windowing_wf_def window_policy_ok_def)
      with linked_emit [OF t(1,2) _ _ _ _ _ _ em] True ok False show ?thesis
        by (fastforce simp: window_policy_ok_def window_limit_def)
    next
      case unfull: False
      with run False t len show ?thesis
        by (auto simp: windowing_push_def Let_def window_limit_def split: if_splits)
    qed
  qed
qed

lemma linked_push_all:
  "linked p inp pv (s, c) \<Longrightarrow> \<not> wd_finished s \<Longrightarrow> length (wd_buffer s) < window_limit p \<Longrightarrow>
   windowing_push_all cb speech xs (s, c) = ((s', c'), None) \<Longrightarrow>
   \<exists>pv'. linked p (inp @ xs) pv' (s', c') \<and> \<not> wd_finished s' \<and>
     length (wd_buffer s') < window_limit p"
proof (induction xs arbitrary: inp pv s c)
  case Nil
  then show ?case by auto
next
  case (Cons x xs)
  from Cons.prems(4) obtain s1 c1 where
    hd: "windowing_push cb speech x (s, c) = ((s1, c1), None)" and
    tl: "windowing_push_all cb speech xs (s1, c1) = ((s', c'), None)"
    by (auto simp: and_then_None_iff)
  from linked_push [OF Cons.prems(1-3) hd] obtain pv1 where
    "linked p (inp @ [x]) pv1 (s1, c1)" "\<not> wd_finished s1" "length (wd_buffer s1) < window_limit p"
    by blast
  from Cons.IH [OF this tl] show ?case by simp
qed

lemma linked_discontinuity:
  assumes lk: "linked p inp pv (s, c)" and len: "length (wd_buffer s) < window_limit p"
    and run: "windowing_discontinuity cb (s, c) = ((s', c'), None)"
  shows "\<exists>pv'. linked p inp pv' (s', c') \<and> \<not> wd_finished s' \<and>
    length (wd_buffer s') < window_limit p"
proof -
  from run have open_: "\<not> wd_finished s"
    by (auto simp: windowing_discontinuity_def split: if_splits)
  from run open_ obtain s1 where
    em: "windowing_emit cb (length (wd_buffer s)) Discontinuity 0 (s, c) = ((s1, c'), None)" and
    s': "s' = s1\<lparr>wd_buffer := [], wd_first := wd_received s1, wd_in_silence := False\<rparr>"
    by (auto simp: windowing_discontinuity_def and_then_None_iff)
  have lim: "length (wd_buffer s) \<le> max_samples p" "0 < window_limit p"
    using lk len window_limit_bounds [of p] by (auto simp: linked_def dest!: windowing_wf_policy)
  from linked_emit [OF lk open_ _ lim(1) _ _ _ _ em] obtain pv' where
    out: "linked p inp pv' (s1, c')" "\<not> wd_finished s1" "wd_received s1 = wd_received s"
    "s1 = s \<and> (length (wd_buffer s) = 0 \<or> wd_first s + length (wd_buffer s) \<le> wd_committed s) \<or>
     wd_committed s1 = wd_first s + length (wd_buffer s) \<and> pv' = Some Discontinuity"
    by auto
  have "wd_first s + length (wd_buffer s) = wd_received s"
    using lk open_ by (auto simp: linked_def windowing_wf_def)
  with out lk have "wd_committed s1 = wd_received s1"
    by (auto simp: linked_def windowing_wf_def)
  with out(1,2) lim show ?thesis
    by (intro exI [of _ pv']) (auto simp: s' linked_def windowing_wf_def)
qed

text \<open>
  \<open>finish\<close> publishes what is left, so that afterwards every received sample has been given
  to the client.
\<close>

lemma linked_finish:
  assumes lk: "linked p inp pv (s, c)" and len: "length (wd_buffer s) < window_limit p"
    and run: "windowing_finish cb (s, c) = ((s', c'), None)"
  shows "wd_finished s' \<and> wd_buffer s' = [] \<and> wd_committed s' = length inp \<and>
    (\<exists>pv'. ready p inp c' (wd_number s') (length inp) pv')"
proof -
  have wf: "windowing_wf p inp pv s" and rd: "ready p inp c (wd_number s) (wd_committed s) pv"
    using lk by (auto simp: linked_def)
  from run have open_: "\<not> wd_finished s"
    by (auto simp: windowing_finish_def split: if_splits)
  let ?n = "length (wd_buffer s)"
  define w where "w = \<lparr>win_number = Suc (wd_number s), win_first_sample = wd_first s,
      win_first_new_sample = wd_committed s, win_boundary = End,
      win_samples = take ?n (wd_buffer s)\<rparr>"
  have pos: "wd_first s + ?n = length inp" "wd_committed s \<le> length inp" "wd_first s \<le> wd_committed s"
    "?n \<le> max_samples p"
    using wf open_ len window_limit_bounds [of p] by (auto simp: windowing_wf_def)
  show ?thesis
  proof (cases "?n = 0 \<or> wd_first s + ?n \<le> wd_committed s")
    case True
    with run open_ pos rd show ?thesis
      by (auto simp: windowing_finish_def windowing_emit_def and_then_None_iff)
  next
    case False
    with run open_ have cb: "cb c w = (c', None)" and
      s': "wd_finished s'" "wd_buffer s' = []" "wd_committed s' = wd_first s + ?n"
        "wd_number s' = Suc (wd_number s)"
      by (auto simp: windowing_finish_def windowing_emit_def and_then_None_iff w_def Let_def
          split: prod.splits option.splits)
    have nw: "next_window p inp (wd_number s) (wd_committed s) pv w"
      using wf open_ False pos by (auto simp: next_window_def w_def window_end_def windowing_wf_def)
    have "window_end w = length inp"
      using pos by (simp add: window_end_def w_def)
    with ready_next [OF rd nw cb] s' pos show ?thesis
      by (auto simp: w_def)
  qed
qed

lemma linked_ops:
  "linked p inp pv (s, c) \<Longrightarrow> \<not> wd_finished s \<Longrightarrow> length (wd_buffer s) < window_limit p \<Longrightarrow>
   Finish \<notin> set ops \<Longrightarrow> windowing_run cb ops (s, c) = ((s', c'), None) \<Longrightarrow>
   \<exists>pv'. linked p (inp @ concat (map op_samples ops)) pv' (s', c') \<and> \<not> wd_finished s' \<and>
     length (wd_buffer s') < window_limit p"
proof (induction ops arbitrary: inp pv s c)
  case Nil
  then show ?case by auto
next
  case (Cons a ops)
  from Cons.prems(5) obtain s1 c1 where
    hd: "windowing_op cb a (s, c) = ((s1, c1), None)" and
    tl: "windowing_run cb ops (s1, c1) = ((s', c'), None)"
    by (auto simp: and_then_None_iff)
  have "\<exists>pv1. linked p (inp @ op_samples a) pv1 (s1, c1) \<and> \<not> wd_finished s1 \<and>
    length (wd_buffer s1) < window_limit p"
  proof (cases a)
    case (Append xs speech)
    with hd Cons.prems(2) have "windowing_push_all cb speech xs (s, c) = ((s1, c1), None)"
      by (simp add: windowing_append_def)
    from linked_push_all [OF Cons.prems(1-3) this] Append show ?thesis by simp
  next
    case Mark_discontinuity
    with hd linked_discontinuity [OF Cons.prems(1,3)] show ?thesis by simp
  next
    case Finish
    with Cons.prems(4) show ?thesis by simp
  qed
  then obtain pv1 where "linked p (inp @ op_samples a) pv1 (s1, c1)" "\<not> wd_finished s1"
    "length (wd_buffer s1) < window_limit p" by blast
  from Cons.IH [OF this _ tl] Cons.prems(4) show ?case by simp
qed

end

lemma windowing_run_append:
  "windowing_run cb (as @ bs) sc = and_then (windowing_run cb as sc) (windowing_run cb bs)"
  by (induction as arbitrary: sc) (auto simp: and_then_def split: option.splits)

section \<open>A client that records the windows\<close>

definition collect_window :: "speech_window list window_emit" where
  [simp]: "collect_window ws w = (ws @ [w], None)"

definition collected ::
  "window_policy \<Rightarrow> f32 list \<Rightarrow> speech_window list \<Rightarrow> nat \<Rightarrow> nat \<Rightarrow> window_boundary option \<Rightarrow> bool" where
  "collected p inp ws n e pv \<longleftrightarrow>
     window_chain p inp 0 0 None ws \<and> n = length ws \<and> e = chain_end 0 ws \<and> pv = chain_prev None ws"

interpretation collector: window_client collect_window collected
proof unfold_locales
  fix p inp ws n e pv ys
  assume "collected p inp ws n e pv"
  then show "collected p (inp @ ys) ws n e pv"
    by (auto simp: collected_def intro: window_chain_extend)
next
  fix p inp ws n e pv w ws'
  assume "collected p inp ws n e pv" "next_window p inp n e pv w" "collect_window ws w = (ws', None)"
  then show "collected p inp ws' (Suc n) (window_end w) (Some (win_boundary w))"
    by (auto simp: collected_def collect_window_def window_chain_snoc chain_end_def chain_prev_def)
qed

lemma collector_start:
  "windowing_new True p = Inr s \<Longrightarrow> collector.linked p [] None (s, [])"
  using windowing_new_wf [of p s]
  by (simp add: collector.linked_def collected_def chain_end_def chain_prev_def)

text \<open>For every sequence of appends and discontinuities that the cutter completes, the
  windows it published form a contiguous chain over the input: numbers 1, 2, 3, \<dots>; each
  window is a slice of the input no longer than the policy's maximum, starts its new audio
  where the previous window ended, and repeats at most the configured overlap, none after a
  pause or a discontinuity. The buffered remainder stays below the window limit.\<close>

theorem windowing_chain:
  assumes "windowing_new True p = Inr s0" "Finish \<notin> set ops"
    and "windowing_run collect_window ops (s0, []) = ((s, ws), None)"
  shows "window_chain p (concat (map op_samples ops)) 0 0 None ws \<and>
    wd_number s = length ws \<and> wd_committed s = chain_end 0 ws \<and>
    buffered_samples s < window_limit p"
proof -
  have "\<not> wd_finished s0" "length (wd_buffer s0) < window_limit p"
    using windowing_new_wf [OF assms(1)] by auto
  from collector.linked_ops [OF collector_start [OF assms(1)] this assms(2,3)]
  show ?thesis
    by (auto simp: collector.linked_def collected_def buffered_samples_def)
qed

definition fixed_demo :: window_policy where
  "fixed_demo = \<lparr>target_samples = 3, max_samples = 3, overlap_samples = 1, min_pause_samples = 0,
     padding_samples = 0, speech_aware = False, fail_without_pause = False\<rparr>"

text \<open>A run from a fresh cutter, as a test of its outcome.\<close>

definition windowing_demo :: "window_policy \<Rightarrow> window_op list \<Rightarrow> (windowing \<times> speech_window list) option" where
  "windowing_demo p ops =
     (case windowing_new True p of
        Inl x \<Rightarrow> None
      | Inr s0 \<Rightarrow> (case windowing_run collect_window ops (s0, []) of
                     (sc, None) \<Rightarrow> Some sc | (sc, Some x) \<Rightarrow> None))"

lemma small_finite: "f32_isfinite 1" "f32_isfinite 2" "f32_isfinite 3" "f32_isfinite 4" "f32_isfinite 5"
  by code_simp+

lemmas windowing_evals = windowing_demo_def windowing_new_def policy_ok_defs windowing_append_def
  windowing_finish_def windowing_discontinuity_def windowing_push_def windowing_pause_def
  windowing_limit_def windowing_track_def windowing_emit_def windowing_pause_cut_def small_finite

lemma windowing_demoE:
  assumes "windowing_demo p ops = Some (s, ws)"
  obtains s0 where "windowing_new True p = Inr s0"
    "windowing_run collect_window ops (s0, []) = ((s, ws), None)"
  using assms by (auto simp: windowing_demo_def split: sum.splits prod.splits option.splits)

theorem windowing_chain_witness:
  "\<exists>s ws. windowing_demo fixed_demo
       [Append [1, 2, 3, 4] True, Mark_discontinuity, Append [5] True] = Some (s, ws) \<and>
     map win_samples ws = [[1, 2, 3], [3, 4]] \<and> window_chain fixed_demo [1, 2, 3, 4, 5] 0 0 None ws"
proof -
  let ?ops = "[Append [1, 2, 3, 4] True, Mark_discontinuity, Append [5] True]"
  have "map_option (map win_samples \<circ> snd) (windowing_demo fixed_demo ?ops) = Some [[1, 2, 3], [3, 4]]"
    by (simp add: windowing_evals fixed_demo_def Let_def)
  then obtain s ws where
    demo: "windowing_demo fixed_demo ?ops = Some (s, ws)" "map win_samples ws = [[1, 2, 3], [3, 4]]"
    by auto
  from demo(1) obtain s0 where new: "windowing_new True fixed_demo = Inr s0"
    and run: "windowing_run collect_window ?ops (s0, []) = ((s, ws), None)"
    by (rule windowing_demoE)
  from windowing_chain [OF new _ run] demo show ?thesis by auto
qed

text \<open>C6: a stream that is finished without an error loses and repeats nothing: the new audio
  of the published windows, concatenated, is exactly the audio that was appended.\<close>

theorem windowing_lossless:
  assumes "windowing_new True p = Inr s0" "Finish \<notin> set ops"
    and "windowing_run collect_window (ops @ [Finish]) (s0, []) = ((s, ws), None)"
  shows "concat (map window_new ws) = concat (map op_samples ops) \<and> wd_buffer s = []"
proof -
  let ?inp = "concat (map op_samples ops)"
  from assms(3) obtain s1 ws1 where
    run: "windowing_run collect_window ops (s0, []) = ((s1, ws1), None)" and
    fin: "windowing_finish collect_window (s1, ws1) = ((s, ws), None)"
    by (auto simp: windowing_run_append and_then_None_iff)
  have "\<not> wd_finished s0" "length (wd_buffer s0) < window_limit p"
    using windowing_new_wf [OF assms(1)] by auto
  from collector.linked_ops [OF collector_start [OF assms(1)] this assms(2) run]
  obtain pv where "collector.linked p ?inp pv (s1, ws1)" "length (wd_buffer s1) < window_limit p"
    by auto
  from collector.linked_finish [OF this fin]
  have "window_chain p ?inp 0 0 None ws" "chain_end 0 ws = length ?inp" "wd_buffer s = []"
    by (auto simp: collected_def)
  with window_chain_covers [of p ?inp 0 0 None ws] show ?thesis by simp
qed

theorem windowing_lossless_witness:
  "\<exists>s ws. windowing_demo fixed_demo ([Append [1, 2, 3, 4] True] @ [Finish]) = Some (s, ws) \<and>
     concat (map window_new ws) = [1, 2, 3, 4]"
proof -
  let ?ops = "[Append [1, 2, 3, 4] True] @ [Finish]"
  have "map_option (map win_samples \<circ> snd) (windowing_demo fixed_demo ?ops) = Some [[1, 2, 3], [3, 4]]"
    by (simp add: windowing_evals fixed_demo_def Let_def)
  then obtain s ws where demo: "windowing_demo fixed_demo ?ops = Some (s, ws)"
    by auto
  then obtain s0 where new: "windowing_new True fixed_demo = Inr s0"
    and run: "windowing_run collect_window ?ops (s0, []) = ((s, ws), None)"
    by (rule windowing_demoE)
  from windowing_lossless [OF new _ run] demo show ?thesis by auto
qed

section \<open>Bounded memory\<close>

lemma windowing_emit_shrinks:
  "length (wd_buffer (fst (fst (windowing_emit cb n bnd ov sc)))) \<le> length (wd_buffer (fst sc))"
  by (auto simp: windowing_emit_def Let_def split: prod.splits option.splits)

lemma windowing_pause_shrinks:
  "length (wd_buffer (fst (fst (windowing_pause cb sc)))) \<le> length (wd_buffer (fst sc))"
  using windowing_emit_shrinks [of cb _ Pause 0 sc]
  by (auto simp: windowing_pause_def Let_def split: prod.splits)

lemma windowing_limit_shrinks:
  "length (wd_buffer (fst (fst (windowing_limit cb sc)))) \<le> length (wd_buffer (fst sc))"
  using windowing_emit_shrinks [of cb _ Forced _ sc]
  by (auto simp: windowing_limit_def Let_def split: prod.splits)

lemma windowing_push_grows_by_one:
  "length (wd_buffer (fst (fst (windowing_push cb speech x sc)))) \<le> Suc (length (wd_buffer (fst sc)))"
proof -
  let ?t = "windowing_track speech x (fst sc)"
  have "length (wd_buffer (fst (fst (and_then (windowing_pause cb (?t, snd sc)) (windowing_limit cb)))))
    \<le> length (wd_buffer ?t)"
    using windowing_pause_shrinks [of cb "(?t, snd sc)"]
    by (intro and_then_fst_cases [where P = "\<lambda>r. length (wd_buffer (fst r)) \<le> length (wd_buffer ?t)"])
      (auto intro: order_trans [OF windowing_limit_shrinks])
  moreover have "length (wd_buffer (fst (fst (windowing_emit cb n Fixed ov (?t, snd sc)))))
    \<le> length (wd_buffer ?t)" for n ov
    using windowing_emit_shrinks [of cb n Fixed ov "(?t, snd sc)"] by simp
  ultimately show ?thesis
    by (auto simp: windowing_push_def Let_def)
qed

lemma any_client: "window_client cb (\<lambda>p inp c n e pv. True)"
  by unfold_locales auto

lemma any_linked: "window_client.linked (\<lambda>p inp c n e pv. True) p inp pv sc \<longleftrightarrow>
   windowing_wf p inp pv (fst sc)"
  by (simp add: window_client.linked_def [OF any_client])

text \<open>
  Between two calls: an open cutter holds less than a window, a closed one never grows again.
\<close>

definition windowing_within :: "window_policy \<Rightarrow> windowing \<Rightarrow> bool" where
  "windowing_within p s \<longleftrightarrow>
     window_policy_ok True p \<and>
     (if wd_finished s then length (wd_buffer s) \<le> max_samples p
      else (\<exists>inp pv. windowing_wf p inp pv s) \<and> length (wd_buffer s) < window_limit p)"

lemma windowing_within_max: "windowing_within p s \<Longrightarrow> length (wd_buffer s) \<le> max_samples p"
  using window_limit_bounds [of p] by (auto simp: windowing_within_def split: if_splits)

lemma windowing_push_within:
  assumes "windowing_within p s" "\<not> wd_finished s"
  shows "length (wd_buffer (fst (fst (windowing_push cb speech x (s, c))))) \<le> max_samples p \<and>
    (snd (windowing_push cb speech x (s, c)) = None \<longrightarrow>
       windowing_within p (fst (fst (windowing_push cb speech x (s, c)))) \<and>
       \<not> wd_finished (fst (fst (windowing_push cb speech x (s, c)))))"
proof -
  have ok: "window_policy_ok True p" "window_limit p \<le> max_samples p"
    using assms window_limit_bounds [of p] by (auto simp: windowing_within_def)
  obtain s' c' r where run: "windowing_push cb speech x (s, c) = ((s', c'), r)"
    by (metis prod.collapse)
  have "windowing_within p s' \<and> \<not> wd_finished s'" if "r = None"
    using window_client.linked_push [OF any_client, of _ _ _ s c cb speech x s' c'] assms run that
    by (fastforce simp: any_linked windowing_within_def)
  with windowing_push_grows_by_one [of cb speech x "(s, c)"] assms ok run show ?thesis
    by (auto simp: windowing_within_def)
qed

lemma windowing_push_all_within:
  "windowing_within p s \<Longrightarrow> \<not> wd_finished s \<Longrightarrow>
   length (wd_buffer (fst (fst (windowing_push_all cb speech xs (s, c))))) \<le> max_samples p \<and>
   (snd (windowing_push_all cb speech xs (s, c)) = None \<longrightarrow>
      windowing_within p (fst (fst (windowing_push_all cb speech xs (s, c)))))"
proof (induction xs arbitrary: s c)
  case Nil
  then show ?case
    by (simp add: windowing_within_max)
next
  case (Cons x xs)
  obtain s' c' r where run: "windowing_push cb speech x (s, c) = ((s', c'), r)"
    by (metis prod.collapse)
  with windowing_push_within [OF Cons.prems, of cb speech x c] Cons.IH [of s' c'] show ?case
    by (cases r) auto
qed

lemma windowing_discontinuity_within:
  assumes "windowing_within p s"
  shows "length (wd_buffer (fst (fst (windowing_discontinuity cb (s, c))))) \<le> max_samples p \<and>
    (snd (windowing_discontinuity cb (s, c)) = None \<longrightarrow> windowing_within p (fst (fst (windowing_discontinuity cb (s, c)))))"
proof (cases "wd_finished s")
  case False
  obtain s' c' r where run: "windowing_discontinuity cb (s, c) = ((s', c'), r)"
    by (metis prod.collapse)
  have "length (wd_buffer s') \<le> length (wd_buffer s)"
    using run False windowing_emit_shrinks [of cb "length (wd_buffer s)" Discontinuity 0 "(s, c)"]
    by (auto simp: windowing_discontinuity_def and_then_def split: option.splits prod.splits)
  moreover have "windowing_within p s'" if "r = None"
    using window_client.linked_discontinuity [OF any_client, of _ _ _ s c cb s' c'] assms False run that
    by (fastforce simp: any_linked windowing_within_def)
  ultimately show ?thesis
    using windowing_within_max [OF assms] run by simp
qed (use assms in \<open>simp add: windowing_discontinuity_def windowing_within_max\<close>)

lemma windowing_finish_within:
  assumes "windowing_within p s"
  shows "length (wd_buffer (fst (fst (windowing_finish cb (s, c))))) \<le> max_samples p \<and>
    (snd (windowing_finish cb (s, c)) = None \<longrightarrow> windowing_within p (fst (fst (windowing_finish cb (s, c)))))"
proof (cases "wd_finished s")
  case False
  with windowing_emit_shrinks [of cb "length (wd_buffer s)" End 0 "(s, c)"] windowing_within_max [OF assms] assms show ?thesis
    by (auto simp: windowing_finish_def and_then_def windowing_within_def split: option.splits prod.splits)
qed (use assms in \<open>simp add: windowing_finish_def windowing_within_max\<close>)

lemma windowing_op_within:
  assumes "windowing_within p s"
  shows "length (wd_buffer (fst (fst (windowing_op cb a (s, c))))) \<le> max_samples p \<and>
    (snd (windowing_op cb a (s, c)) = None \<longrightarrow> windowing_within p (fst (fst (windowing_op cb a (s, c)))))"
proof (cases a)
  case (Append xs speech)
  then show ?thesis
    using windowing_push_all_within [OF assms, of cb speech xs c] windowing_within_max [OF assms]
    by (simp add: windowing_append_def)
qed (simp_all add: windowing_discontinuity_within [OF assms] windowing_finish_within [OF assms])

lemma windowing_run_within:
  "windowing_within p s \<Longrightarrow> length (wd_buffer (fst (fst (windowing_run cb ops (s, c))))) \<le> max_samples p"
proof (induction ops arbitrary: s c)
  case (Cons a ops)
  obtain s' c' r where run: "windowing_op cb a (s, c) = ((s', c'), r)"
    by (metis prod.collapse)
  with windowing_op_within [OF Cons.prems, of cb a c] Cons.IH [of s' c'] show ?case
    by (cases r) auto
qed (simp add: windowing_within_max)

text \<open>C24: from construction to the end of the stream or the first exception, whatever operations are
  called in whatever order and whatever the client's callback does, the cutter never holds more than
  the policy's maximum window, at most 30 seconds of 16 kHz audio. The exception itself, from the
  callback or the cutter, leaves it within the bound too; the callers end the stream there. (A caller
  that went on appending after its callback threw would not be bounded:
  \<open>windowing_unbounded_after_throw\<close>.)\<close>

theorem windowing_bounded_memory:
  assumes "windowing_new True p = Inr s0"
  shows "buffered_samples (fst (fst (windowing_run cb ops (s0, c)))) \<le> max_samples p \<and> max_samples p \<le> 480000"
proof -
  have "windowing_within p s0" "max_samples p \<le> 480000"
    using windowing_new_wf [OF assms] by (auto simp: windowing_within_def windowing_wf_def window_policy_ok_def)
  then show ?thesis
    using windowing_run_within [of p s0 cb ops c] by (simp add: buffered_samples_def)
qed

theorem windowing_bounded_memory_witness:
  "\<exists>s0. windowing_new True fixed_demo = Inr s0 \<and>
     snd (windowing_run (\<lambda>c w. (c, Some Bad_alloc)) [Append [1, 2] True, Append [3, 4] True] (s0, ())) = Some Bad_alloc \<and>
     buffered_samples (fst (fst (windowing_run (\<lambda>c w. (c, Some Bad_alloc)) [Append [1, 2] True, Append [3, 4] True] (s0, ())))) \<le> 3"
proof -
  let ?cb = "\<lambda>c w. (c, Some Bad_alloc)" and ?ops = "[Append [1, 2] True, Append [3, 4] True]"
  obtain s0 where new: "windowing_new True fixed_demo = Inr s0"
    by (simp add: windowing_new_def policy_ok_defs fixed_demo_def)
  then have "snd (windowing_run ?cb ?ops (s0, ())) = Some Bad_alloc"
    by (auto simp: windowing_evals fixed_demo_def Let_def split: if_splits)
  with windowing_bounded_memory [OF new, of ?cb ?ops "()"] new show ?thesis
    by (auto simp: fixed_demo_def)
qed

text \<open>
  The bound needs the callers' discipline. A fixed-size cutter compares the buffer with the target
  by \<open>==\<close>; when the callback threw on a full buffer, \<open>finished_\<close> is not set, and every later append
  is accepted, publishes nothing and keeps its samples.
\<close>

lemma windowing_push_all_past_target:
  "\<not> speech_aware (wd_policy s) \<Longrightarrow> target_samples (wd_policy s) \<le> length (wd_buffer s) \<Longrightarrow> \<forall>x \<in> set xs. f32_isfinite x \<Longrightarrow>
   \<exists>s'. windowing_push_all cb speech xs (s, c) = ((s', c), None) \<and> wd_buffer s' = wd_buffer s @ xs \<and> wd_finished s' = wd_finished s"
proof (induction xs arbitrary: s)
  case (Cons x xs)
  have "wd_buffer (windowing_track speech x s) = wd_buffer s @ [x]"
    by (simp add: windowing_track_def Let_def)
  moreover have "windowing_push cb speech x (s, c) = ((windowing_track speech x s, c), None)"
    using Cons.prems by (simp add: windowing_push_def Let_def)
  ultimately show ?case
    using Cons.IH [of "windowing_track speech x s"] Cons.prems by simp
qed simp

theorem windowing_unbounded_after_throw:
  "\<exists>s0. windowing_new True fixed_demo = Inr s0 \<and>
     (\<exists>s1. windowing_append (\<lambda>c w. (c, Some Bad_alloc)) [1, 2, 3] True (s0, ()) = ((s1, ()), Some Bad_alloc) \<and>
       (\<forall>n. \<exists>s2. windowing_append (\<lambda>c w. (c, Some Bad_alloc)) (replicate n 1) True (s1, ()) = ((s2, ()), None) \<and>
          buffered_samples s2 = 3 + n))"
proof -
  let ?cb = "\<lambda>c w. (c, Some Bad_alloc)"
  obtain s0 where new: "windowing_new True fixed_demo = Inr s0"
    by (simp add: windowing_new_def policy_ok_defs fixed_demo_def)
  then obtain s1 where thrown: "windowing_append ?cb [1, 2, 3] True (s0, ()) = ((s1, ()), Some Bad_alloc)"
    and s1: "\<not> wd_finished s1" "length (wd_buffer s1) = 3" "wd_policy s1 = fixed_demo"
    by (auto simp: windowing_evals fixed_demo_def Let_def split: if_splits)
  have "\<exists>s2. windowing_append ?cb (replicate n 1) True (s1, ()) = ((s2, ()), None) \<and> buffered_samples s2 = 3 + n" for n
    using windowing_push_all_past_target [of s1 "replicate n 1" ?cb True "()"] s1 small_finite
    by (auto simp: windowing_append_def buffered_samples_def fixed_demo_def)
  with new thrown show ?thesis
    by blast
qed

end
