(* ===== verification/Window_Cut.thy ===== *)
theory Window_Cut
  imports Prelude
begin

text \<open>
  The rule by which the collector's transcriber ends a decoded window
  (src/src/engine/window_cut.h).
\<close>

record window_cut =
  finalize :: int
  resume_ms :: nat

definition cut_window :: "int \<Rightarrow> bool \<Rightarrow> nat \<Rightarrow> nat \<Rightarrow> window_cut" where
  "cut_window segments last_window window_ms last_start_ms =
     (if segments \<le> 0 then \<lparr>finalize = 0, resume_ms = window_ms\<rparr>
      else if \<not> last_window \<and> segments \<ge> 2 \<and> last_start_ms > 0 \<and> last_start_ms < window_ms
      then \<lparr>finalize = segments - 1, resume_ms = last_start_ms\<rparr>
      else \<lparr>finalize = segments, resume_ms = window_ms\<rparr>)"

lemma cut_window_finalize_bounds:
  "0 \<le> finalize (cut_window n l w t) \<and> finalize (cut_window n l w t) \<le> max 0 n"
  by (auto simp: cut_window_def)

lemma cut_window_resume_bounds:
  "0 < w \<Longrightarrow> 0 < resume_ms (cut_window n l w t) \<and> resume_ms (cut_window n l w t) \<le> w"
  by (auto simp: cut_window_def)

lemma cut_window_last:
  "finalize (cut_window n True w t) = max 0 n \<and> resume_ms (cut_window n True w t) = w"
  by (auto simp: cut_window_def)

lemma cut_window_held_back:
  "finalize (cut_window n l w t) < n \<Longrightarrow>
   finalize (cut_window n l w t) = n - 1 \<and> resume_ms (cut_window n l w t) = t \<and> 0 < t \<and> t < w"
  by (auto simp: cut_window_def split: if_splits)

text \<open>The cut always makes progress inside the window and never finalizes a segment that
  does not exist: for a non-empty window the next one starts strictly later and at most at its
  end, a last window finalizes every segment, and a segment is held back only as the single
  last one, whose own start is then the resume point.\<close>

theorem cut_window_progress:
  assumes "0 < window_ms"
  shows "0 < resume_ms (cut_window n l window_ms t) \<and> resume_ms (cut_window n l window_ms t) \<le> window_ms \<and>
    0 \<le> finalize (cut_window n l window_ms t) \<and> finalize (cut_window n l window_ms t) \<le> max 0 n \<and>
    (l \<longrightarrow> finalize (cut_window n l window_ms t) = max 0 n) \<and>
    (finalize (cut_window n l window_ms t) < n \<longrightarrow>
       finalize (cut_window n l window_ms t) = n - 1 \<and> resume_ms (cut_window n l window_ms t) = t)"
  using cut_window_resume_bounds [OF assms, of n l t] cut_window_finalize_bounds [of n l window_ms t]
    cut_window_last [of n window_ms t] cut_window_held_back [of n l window_ms t]
  by auto

theorem cut_window_progress_witness:
  "resume_ms (cut_window 3 False 480000 470000) = 470000 \<and>
   finalize (cut_window 3 False 480000 470000) = 2"
  using cut_window_progress [of 480000 3 False 470000] by (simp add: cut_window_def)

end
