(* ===== verification/Transcriber.thy ===== *)
theory Transcriber
  imports Float32 Window_Cut
begin

text \<open>
  The collector's window loop over whisper (src/src/engine/transcriber.h, transcriber.cpp):
  \<open>read_segment\<close>, the two whisper callbacks and \<open>Transcriber::run\<close>. whisper.cpp is a
  parameter: one call of \<open>whisper_full_with_state\<close> is a finite tree of the callbacks it
  makes, whose continuation may depend on what the abort callback answers, so the theorems
  hold for every behaviour of the decoder. The PCM source, the segment sink and the stop
  token are parameters as they are in the code. Double arithmetic on log-probabilities is a
  parameter too; nothing here depends on its value.
\<close>

section \<open>Data\<close>

abbreviation kModelSampleRate :: nat where
  "kModelSampleRate \<equiv> 16000"

record engine_word =
  word_text :: string
  word_start_ms :: nat
  word_end_ms :: nat
  word_probability :: f32

record engine_segment =
  seg_index :: nat
  seg_start_ms :: nat
  seg_end_ms :: nat
  seg_text :: string
  avg_logprob :: f32
  token_count :: nat
  seg_words :: "engine_word list"
  seg_speaker :: string
  speaker_turn_next :: bool

record engine_result =
  er_language :: string
  er_duration_ms :: nat
  er_final_segments :: nat
  er_tokens :: nat
  er_aborted :: bool

record engine_options =
  eo_language :: string
  eo_translate :: bool
  eo_word_timestamps :: bool
  eo_diarize :: bool
  eo_threads :: int
  eo_window_seconds :: nat
  eo_max_duration_seconds :: nat

text \<open>The fields of \<open>whisper_full_params\<close> the loop assigns.\<close>

record whisper_params =
  wp_print_progress :: bool
  wp_print_realtime :: bool
  wp_print_special :: bool
  wp_print_timestamps :: bool
  wp_translate :: bool
  wp_language :: string
  wp_n_threads :: int
  wp_no_context :: bool
  wp_token_timestamps :: bool
  wp_tdrz_enable :: bool

text \<open>What the getters of whisper return for a token and for a segment.\<close>

record whisper_token =
  wt_id :: int
  wt_p :: f32
  wt_plog :: f32
  wt_t0 :: int
  wt_t1 :: int
  wt_text :: string

record whisper_segment =
  ws_t0 :: int
  ws_t1 :: int
  ws_text :: string
  ws_turn_next :: bool
  ws_tokens :: "whisper_token list"

text \<open>
  A run of \<open>whisper_full_with_state\<close>: it commits segments (all segments so far and how many
  are new), polls the abort callback and continues by its answer, and returns a code with
  the segments, the language id and the decoder state it leaves.
\<close>

datatype 'w whisper_run =
    Commit "whisper_segment list" nat "'w whisper_run"
  | Poll "'w whisper_run" "'w whisper_run"
  | Return int "whisper_segment list" int 'w

record run_state =
  window_base_ms :: nat
  window_base_index :: nat
  window_base_speaker :: nat
  run_abort :: bool
  run_polls :: nat

text \<open>
  The arguments of \<open>run\<close>: the options, the PCM source and the sink as functions on their own
  state, the stop token as a schedule (its answer to the n-th question), whisper's entry
  points and the double arithmetic of the mean log-probability.
\<close>

record ('c, 'r, 'w, 'd) engine =
  e_options :: engine_options
  e_read :: "'r \<Rightarrow> nat \<Rightarrow> 'r \<times> (exn + f32 list)"
  e_sink :: "'c \<Rightarrow> engine_segment \<Rightarrow> bool \<Rightarrow> 'c \<times> bool"
  e_stop :: "nat \<Rightarrow> bool"
  e_whisper_full :: "'w \<Rightarrow> whisper_params \<Rightarrow> f32 list \<Rightarrow> 'w whisper_run"
  e_token_eot :: int
  e_lang_str :: "int \<Rightarrow> string"
  e_double_zero :: 'd
  e_double_add :: "'d \<Rightarrow> f32 \<Rightarrow> 'd"
  e_double_mean :: "'d \<Rightarrow> nat \<Rightarrow> f32"

section \<open>Reading a committed segment\<close>

text \<open>The cast to unsigned and the product wrap at 64 bits.\<close>

definition centisec_to_ms :: "int \<Rightarrow> nat" where
  "centisec_to_ms t = u64 (u64_of_int t * 10)"

definition empty_word :: engine_word where
  "empty_word = \<lparr>word_text = [], word_start_ms = 0, word_end_ms = 0, word_probability = 0\<rparr>"

text \<open>One iteration of the token loop on (words, word, logprob sum, counted).\<close>

definition read_token ::
  "('c, 'r, 'w, 'd) engine \<Rightarrow> run_state \<Rightarrow> whisper_token \<Rightarrow>
   engine_word list \<times> engine_word \<times> 'd \<times> nat \<Rightarrow> engine_word list \<times> engine_word \<times> 'd \<times> nat" where
  "read_token E run data acc =
     (case acc of (words, word, logprob_sum, counted) \<Rightarrow>
        if wt_id data \<ge> e_token_eot E then acc
        else
          let logprob_sum' = e_double_add E logprob_sum (wt_plog data);
              counted' = u32 (counted + 1)
          in if \<not> eo_word_timestamps (e_options E) then (words, word, logprob_sum', counted')
          else
            let text = wt_text data;
                new_word = (text \<noteq> [] \<and> hd text = CHR '' '' \<and> word_text word \<noteq> []);
                words' = (if new_word then words @ [word] else words);
                word1 = (if new_word then empty_word else word);
                word2 = (if word_text word1 = []
                         then word1\<lparr>word_start_ms := u64 (window_base_ms run + centisec_to_ms (wt_t0 data)),
                                    word_probability := wt_p data\<rparr>
                         else word1\<lparr>word_probability := f32_min (word_probability word1) (wt_p data)\<rparr>);
                word3 = word2\<lparr>word_end_ms := u64 (window_base_ms run + centisec_to_ms (wt_t1 data)),
                              word_text := word_text word2 @ text\<rparr>
            in (words', word3, logprob_sum', counted'))"

definition speaker_at :: "run_state \<Rightarrow> whisper_segment list \<Rightarrow> nat \<Rightarrow> nat" where
  "speaker_at run segs i = u32 (window_base_speaker run + length (filter ws_turn_next (take i segs)))"

definition read_segment ::
  "('c, 'r, 'w, 'd) engine \<Rightarrow> run_state \<Rightarrow> whisper_segment list \<Rightarrow> nat \<Rightarrow> engine_segment" where
  "read_segment E run segs i =
     (let ws = segs ! i;
          diarize = eo_diarize (e_options E);
          (words, word, logprob_sum, counted) =
            fold (read_token E run) (ws_tokens ws) ([], empty_word, e_double_zero E, 0)
      in \<lparr>seg_index = u32 (window_base_index run + i),
          seg_start_ms = u64 (window_base_ms run + centisec_to_ms (ws_t0 ws)),
          seg_end_ms = u64 (window_base_ms run + centisec_to_ms (ws_t1 ws)),
          seg_text = ws_text ws,
          avg_logprob = (if counted = 0 then 0 else e_double_mean E logprob_sum counted),
          token_count = counted,
          seg_words = (if word_text word \<noteq> [] then words @ [word] else words),
          seg_speaker = (if diarize then ''S'' @ to_string (u32 (speaker_at run segs i + 1)) else []),
          speaker_turn_next = (diarize \<and> ws_turn_next ws)\<rparr>)"

section \<open>The callbacks\<close>

text \<open>\<open>RunState::stopped\<close>; each question to the stop token advances its schedule.\<close>

definition stopped :: "('c, 'r, 'w, 'd) engine \<Rightarrow> run_state \<Rightarrow> bool \<times> run_state" where
  "stopped E run =
     (if run_abort run then (True, run)
      else (e_stop E (run_polls run), run\<lparr>run_polls := run_polls run + 1\<rparr>))"

fun emit_partials ::
  "('c, 'r, 'w, 'd) engine \<Rightarrow> whisper_segment list \<Rightarrow> nat list \<Rightarrow> run_state \<times> 'c \<Rightarrow> run_state \<times> 'c" where
  "emit_partials E segs [] rc = rc"
| "emit_partials E segs (i # is) (run, c) =
     (let (c', ok) = e_sink E c (read_segment E run segs i) False
      in emit_partials E segs is (if ok then run else run\<lparr>run_abort := True\<rparr>, c'))"

definition on_new_segment ::
  "('c, 'r, 'w, 'd) engine \<Rightarrow> whisper_segment list \<Rightarrow> nat \<Rightarrow> run_state \<times> 'c \<Rightarrow> run_state \<times> 'c" where
  "on_new_segment E segs n_new rc = emit_partials E segs [length segs - n_new ..< length segs] rc"

fun whisper_callbacks ::
  "('c, 'r, 'w, 'd) engine \<Rightarrow> 'w whisper_run \<Rightarrow> run_state \<times> 'c \<Rightarrow>
   (run_state \<times> 'c) \<times> int \<times> whisper_segment list \<times> int \<times> 'w" where
  "whisper_callbacks E (Commit segs n_new k) rc = whisper_callbacks E k (on_new_segment E segs n_new rc)"
| "whisper_callbacks E (Poll go halt) (run, c) =
     (let (b, run') = stopped E run in whisper_callbacks E (if b then halt else go) (run', c))"
| "whisper_callbacks E (Return code segs lang w) rc = (rc, code, segs, lang, w)"

definition params_of :: "engine_options \<Rightarrow> whisper_params" where
  "params_of opts =
     \<lparr>wp_print_progress = False, wp_print_realtime = False, wp_print_special = False,
      wp_print_timestamps = False, wp_translate = eo_translate opts,
      wp_language = (if eo_language opts = [] then ''auto'' else eo_language opts),
      wp_n_threads = eo_threads opts, wp_no_context = True,
      wp_token_timestamps = eo_word_timestamps opts, wp_tdrz_enable = eo_diarize opts\<rparr>"

section \<open>The window loop\<close>

record ('c, 'r, 'w) transcription =
  t_run :: run_state
  t_buffer :: "f32 list"
  t_consumed :: nat
  t_source_done :: bool
  t_result :: engine_result
  t_source :: 'r
  t_sink :: 'c
  t_whisper :: 'w

text \<open>How a piece of the loop body ends: fall through, \<open>break\<close>, \<open>return\<close>, or a throw.\<close>

datatype flow = Go | Break | Returned | Threw exn

definition window_samples :: "engine_options \<Rightarrow> nat" where
  "window_samples opts = u64 (eo_window_seconds opts * kModelSampleRate)"

definition max_samples :: "engine_options \<Rightarrow> nat" where
  "max_samples opts = u64 (eo_max_duration_seconds opts * kModelSampleRate)"

definition abort_result :: "('c, 'r, 'w) transcription \<Rightarrow> ('c, 'r, 'w) transcription" where
  "abort_result s = s\<lparr>t_result := (t_result s)\<lparr>er_aborted := True\<rparr>\<rparr>"

function fill_window ::
  "('c, 'r, 'w, 'd) engine \<Rightarrow> ('c, 'r, 'w) transcription \<Rightarrow> ('c, 'r, 'w) transcription \<times> flow" where
  "fill_window E s =
     (if t_source_done s \<or> window_samples (e_options E) \<le> length (t_buffer s) then (s, Go)
      else
        let (b, run) = stopped E (t_run s); s1 = s\<lparr>t_run := run\<rparr>
        in if b then (abort_result s1, Returned)
        else case e_read E (t_source s1) (window_samples (e_options E) - length (t_buffer s1)) of
          (r, Inl ex) \<Rightarrow> (s1\<lparr>t_source := r\<rparr>, Threw ex)
        | (r, Inr got) \<Rightarrow>
            if got = [] then (s1\<lparr>t_source := r, t_source_done := True\<rparr>, Go)
            else
              let s2 = s1\<lparr>t_source := r, t_buffer := t_buffer s1 @ got,
                          t_consumed := u64 (t_consumed s1 + length got)\<rparr>
              in if t_consumed s2 > max_samples (e_options E)
                 then (s2, Threw (Duration_cap_exceeded
                        (''media exceeds GRPC_ASR_MAX_DURATION_SECONDS='' @
                         to_string (eo_max_duration_seconds (e_options E)))))
                 else fill_window E s2)"
  by auto

termination
  by (relation "measure (\<lambda>(E, s). window_samples (e_options E) - length (t_buffer s))")
    (auto intro: diff_less_mono2)

declare fill_window.simps [simp del]

definition pad_window :: "bool \<Rightarrow> f32 list \<Rightarrow> f32 list" where
  "pad_window last_window buffer =
     (if last_window \<and> length buffer < kModelSampleRate
      then buffer @ replicate (kModelSampleRate - length buffer) 0 else buffer)"

text \<open>The call of whisper with the questions to the stop state around it.\<close>

definition decode_window ::
  "('c, 'r, 'w, 'd) engine \<Rightarrow> ('c, 'r, 'w) transcription \<Rightarrow>
   ('c, 'r, 'w) transcription \<times> flow \<times> whisper_segment list \<times> int" where
  "decode_window E s =
     (let (b, run) = stopped E (t_run s); s1 = s\<lparr>t_run := run\<rparr>
      in if b then (abort_result s1, Returned, [], 0)
      else
        let ((run2, c2), code, segs, lang, w2) =
              whisper_callbacks E (e_whisper_full E (t_whisper s1) (params_of (e_options E)) (t_buffer s1))
                (t_run s1, t_sink s1);
            (b2, run3) = stopped E run2;
            s2 = s1\<lparr>t_run := run3, t_sink := c2, t_whisper := w2\<rparr>
        in if b2 then (abort_result s2, Returned, segs, lang)
           else if code \<noteq> 0
           then (s2, Threw (Runtime_error ''whisper_full failed mid-transcription''), segs, lang)
           else (s2, Go, segs, lang))"

text \<open>The loop that finalizes: the flag tells whether the sink went on accepting.\<close>

fun finalize_segments ::
  "('c, 'r, 'w, 'd) engine \<Rightarrow> run_state \<Rightarrow> whisper_segment list \<Rightarrow> nat list \<Rightarrow>
   'c \<times> engine_result \<times> nat \<Rightarrow> ('c \<times> engine_result \<times> nat) \<times> bool" where
  "finalize_segments E run segs [] acc = (acc, True)"
| "finalize_segments E run segs (i # is) (c, result, turns) =
     (let segment = read_segment E run segs i;
          result' = result\<lparr>er_tokens := u64 (er_tokens result + token_count segment),
                           er_final_segments := u32 (er_final_segments result + 1)\<rparr>;
          turns' = u32 (turns + (if speaker_turn_next segment then 1 else 0));
          (c', ok) = e_sink E c segment True
      in if ok then finalize_segments E run segs is (c', result', turns')
         else ((c', result'\<lparr>er_aborted := True\<rparr>, turns'), False))"

definition window_ms_of :: "f32 list \<Rightarrow> nat" where
  "window_ms_of buffer = u64 (length buffer * 1000) div kModelSampleRate"

definition window_cut_of :: "whisper_segment list \<Rightarrow> bool \<Rightarrow> f32 list \<Rightarrow> window_cut" where
  "window_cut_of segs last_window buffer =
     cut_window (int (length segs)) last_window (window_ms_of buffer)
       (if length segs \<ge> 2 then centisec_to_ms (ws_t0 (segs ! (length segs - 1))) else 0)"

definition note_language :: "('c, 'r, 'w, 'd) engine \<Rightarrow> int \<Rightarrow> engine_result \<Rightarrow> engine_result" where
  "note_language E lang_id result =
     (if er_language result = [] \<and> lang_id \<ge> 0
      then result\<lparr>er_language := e_lang_str E lang_id\<rparr> else result)"

definition finalize_window ::
  "('c, 'r, 'w, 'd) engine \<Rightarrow> ('c, 'r, 'w) transcription \<Rightarrow> whisper_segment list \<Rightarrow> int \<Rightarrow>
   window_cut \<Rightarrow> ('c, 'r, 'w) transcription \<times> flow" where
  "finalize_window E s segs lang wcut =
     (let ((c, result, turns), ok) =
            finalize_segments E (t_run s) segs [0 ..< nat (finalize wcut)]
              (t_sink s, note_language E lang (t_result s), 0);
          s1 = s\<lparr>t_sink := c, t_result := result\<rparr>
      in if \<not> ok then (s1, Returned)
         else (s1\<lparr>t_run := (t_run s1)\<lparr>
                   window_base_index := u32 (window_base_index (t_run s1) + nat (finalize wcut)),
                   window_base_speaker := u32 (window_base_speaker (t_run s1) + turns)\<rparr>\<rparr>, Go))"

definition carry_tail :: "('c, 'r, 'w) transcription \<Rightarrow> nat \<Rightarrow> ('c, 'r, 'w) transcription" where
  "carry_tail s resume =
     (let keep_from_sample = min (u64 (resume * kModelSampleRate) div 1000) (length (t_buffer s))
      in s\<lparr>t_buffer := drop keep_from_sample (t_buffer s),
           t_run := (t_run s)\<lparr>window_base_ms := u64 (window_base_ms (t_run s) + resume)\<rparr>\<rparr>)"

text \<open>One iteration of \<open>while (true)\<close>; \<open>Go\<close> is the next iteration.\<close>

definition process_window ::
  "('c, 'r, 'w, 'd) engine \<Rightarrow> ('c, 'r, 'w) transcription \<Rightarrow> ('c, 'r, 'w) transcription \<times> flow" where
  "process_window E s =
     (let last_window = t_source_done s;
          s1 = s\<lparr>t_buffer := pad_window last_window (t_buffer s)\<rparr>;
          (s2, f, segs, lang) = decode_window E s1
      in if f \<noteq> Go then (s2, f)
      else
        let wcut = window_cut_of segs last_window (t_buffer s2);
            (s3, f3) = finalize_window E s2 segs lang wcut
        in if f3 \<noteq> Go then (s3, f3)
           else if last_window then (s3, Break)
           else (carry_tail s3 (resume_ms wcut), Go))"

definition transcribe_window ::
  "('c, 'r, 'w, 'd) engine \<Rightarrow> ('c, 'r, 'w) transcription \<Rightarrow> ('c, 'r, 'w) transcription \<times> flow" where
  "transcribe_window E s =
     (let (s1, f) = fill_window E s
      in if f \<noteq> Go then (s1, f)
         else if t_buffer s1 = [] then (s1, Break)
         else process_window E s1)"

definition transcription_new :: "'r \<Rightarrow> 'c \<Rightarrow> 'w \<Rightarrow> ('c, 'r, 'w) transcription" where
  "transcription_new r c w =
     \<lparr>t_run = \<lparr>window_base_ms = 0, window_base_index = 0, window_base_speaker = 0,
               run_abort = False, run_polls = 0\<rparr>,
      t_buffer = [], t_consumed = 0, t_source_done = False,
      t_result = \<lparr>er_language = [], er_duration_ms = 0, er_final_segments = 0, er_tokens = 0,
                  er_aborted = False\<rparr>,
      t_source = r, t_sink = c, t_whisper = w\<rparr>"

text \<open>The loop, with fuel for its iterations, and \<open>run\<close> with the line after the loop.\<close>

fun transcribe_loop ::
  "nat \<Rightarrow> ('c, 'r, 'w, 'd) engine \<Rightarrow> ('c, 'r, 'w) transcription \<Rightarrow>
   (('c, 'r, 'w) transcription \<times> flow) option" where
  "transcribe_loop 0 E s = None"
| "transcribe_loop (Suc fuel) E s =
     (case transcribe_window E s of (s', Go) \<Rightarrow> transcribe_loop fuel E s' | (s', f) \<Rightarrow> Some (s', f))"

definition transcriber_run ::
  "nat \<Rightarrow> ('c, 'r, 'w, 'd) engine \<Rightarrow> 'r \<Rightarrow> 'c \<Rightarrow> 'w \<Rightarrow>
   (('c, 'r, 'w) transcription \<times> (exn + engine_result)) option" where
  "transcriber_run fuel E r c w =
     map_option (\<lambda>(s, f). case f of
         Threw e \<Rightarrow> (s, Inl e)
       | Returned \<Rightarrow> (s, Inr (t_result s))
       | _ \<Rightarrow> (s, Inr ((t_result s)\<lparr>er_duration_ms := u64 (t_consumed s * 1000) div kModelSampleRate\<rparr>)))
     (transcribe_loop fuel E (transcription_new r c w))"

section \<open>What the callbacks leave alone\<close>

text \<open>
  The window position in the media and in the numbering is moved only by the end of a window.
\<close>

definition same_window :: "run_state \<Rightarrow> run_state \<Rightarrow> bool" where
  "same_window run run' \<longleftrightarrow>
     window_base_ms run' = window_base_ms run \<and> window_base_index run' = window_base_index run \<and>
     window_base_speaker run' = window_base_speaker run"

lemma same_window_refl [simp]: "same_window run run"
  by (simp add: same_window_def)

lemma same_window_trans: "same_window a b \<Longrightarrow> same_window b c \<Longrightarrow> same_window a c"
  by (simp add: same_window_def)

lemma stopped_same_window: "stopped E run = (b, run') \<Longrightarrow> same_window run run'"
  by (auto simp: stopped_def same_window_def split: if_splits)

lemma read_token_same_window:
  "same_window run run' \<Longrightarrow> read_token E run' t acc = read_token E run t acc"
  by (cases acc) (simp add: read_token_def same_window_def Let_def)

lemma read_segment_same_window:
  assumes "same_window run run'"
  shows "read_segment E run' segs i = read_segment E run segs i"
proof -
  have "read_token E run' = read_token E run"
    by (intro ext) (simp add: read_token_same_window [OF assms])
  with assms show ?thesis
    by (simp add: read_segment_def speaker_at_def same_window_def Let_def)
qed

lemma emit_partials_same_window:
  "emit_partials E segs is (run, c) = (run', c') \<Longrightarrow> same_window run run'"
proof (induction "is" arbitrary: run c)
  case (Cons i "is")
  obtain c1 ok where "e_sink E c (read_segment E run segs i) False = (c1, ok)"
    by fastforce
  with Cons.prems Cons.IH [of "if ok then run else run\<lparr>run_abort := True\<rparr>" c1]
  have "same_window (if ok then run else run\<lparr>run_abort := True\<rparr>) run'"
    by simp
  then show ?case
    by (cases ok) (auto simp: same_window_def)
qed simp

lemma whisper_callbacks_same_window:
  "whisper_callbacks E tree (run, c) = ((run', c'), rest) \<Longrightarrow> same_window run run'"
proof (induction tree arbitrary: run c)
  case (Commit segs n k)
  obtain run1 c1 where p: "on_new_segment E segs n (run, c) = (run1, c1)"
    by fastforce
  then have "same_window run run1"
    by (auto simp: on_new_segment_def dest: emit_partials_same_window)
  with Commit p show ?case
    by (auto intro: same_window_trans)
next
  case (Poll go halt)
  obtain b run1 where st: "stopped E run = (b, run1)"
    by fastforce
  have "whisper_callbacks E (if b then halt else go) (run1, c) = ((run', c'), rest)"
    using Poll.prems st by simp
  then have "same_window run1 run'"
    using Poll.IH by (cases b) auto
  with stopped_same_window [OF st] show ?case
    by (rule same_window_trans)
qed simp

text \<open>Everything but the stop state, the sink and the decoder is as before a decode.\<close>

lemma decode_window_frame:
  assumes "decode_window E s = (s', f, segs, lang)"
  shows "same_window (t_run s) (t_run s') \<and> t_buffer s' = t_buffer s \<and> t_consumed s' = t_consumed s \<and>
    t_source_done s' = t_source_done s \<and> t_source s' = t_source s \<and>
    (f = Go \<longrightarrow> t_result s' = t_result s) \<and> f \<noteq> Break"
proof -
  obtain b run1 where st: "stopped E (t_run s) = (b, run1)"
    by fastforce
  obtain run2 c2 code segs2 lang2 w2 where wc:
    "whisper_callbacks E (e_whisper_full E (t_whisper s) (params_of (e_options E)) (t_buffer s)) (run1, t_sink s)
     = ((run2, c2), code, segs2, lang2, w2)"
    by (metis prod_cases5 surj_pair)
  obtain b2 run3 where st2: "stopped E run2 = (b2, run3)"
    by fastforce
  have "same_window (t_run s) run1" "same_window (t_run s) run3"
    using stopped_same_window [OF st] whisper_callbacks_same_window [OF wc] stopped_same_window [OF st2]
    by (auto intro: same_window_trans)
  with assms st wc st2 show ?thesis
    by (auto simp: decode_window_def abort_result_def Let_def split: if_splits)
qed

lemma finalize_segments_er:
  assumes "finalize_segments E run segs is (c, result, turns) = ((c', result', turns'), ok)"
  shows "er_duration_ms result' = er_duration_ms result \<and> (ok \<longrightarrow> er_aborted result' = er_aborted result)
     \<and> (\<not> ok \<longrightarrow> er_aborted result')"
  using assms
  by (induction "is" arbitrary: c result turns) (fastforce simp: Let_def split: prod.splits if_splits)+

lemma finalize_window_frame:
  assumes "finalize_window E s segs lang wcut = (s', f)"
  shows "window_base_ms (t_run s') = window_base_ms (t_run s) \<and> t_buffer s' = t_buffer s \<and>
    t_consumed s' = t_consumed s \<and> t_source_done s' = t_source_done s \<and> t_source s' = t_source s \<and>
    (f = Go \<or> f = Returned) \<and> t_whisper s' = t_whisper s \<and>
    (f = Go \<longrightarrow> er_aborted (t_result s') = er_aborted (t_result s)) \<and>
    (f = Returned \<longrightarrow> er_aborted (t_result s'))"
proof -
  obtain c result turns ok where fs:
    "finalize_segments E (t_run s) segs [0 ..< nat (finalize wcut)]
       (t_sink s, note_language E lang (t_result s), 0) = ((c, result, turns), ok)"
    by (metis surj_pair)
  have "er_aborted (note_language E lang (t_result s)) = er_aborted (t_result s)"
    by (simp add: note_language_def)
  with assms fs finalize_segments_er [OF fs] show ?thesis
    by (auto simp: finalize_window_def Let_def split: if_splits)
qed

section \<open>The PCM source\<close>

text \<open>
  The contract of \<open>PcmRead\<close>: \<open>pending\<close> is what a valid source has still to deliver, a read
  for a positive number of samples delivers a prefix of it that fits the request, and an empty
  answer is the end of the media.
\<close>

locale pcm_source =
  fixes read :: "'r \<Rightarrow> nat \<Rightarrow> 'r \<times> (exn + f32 list)"
    and pending :: "'r \<Rightarrow> f32 list" and valid :: "'r \<Rightarrow> bool"
  assumes read_prefix: "valid r \<Longrightarrow> 0 < n \<Longrightarrow> read r n = (r', Inr got) \<Longrightarrow> pending r = got @ pending r'"
    and read_bounded: "valid r \<Longrightarrow> 0 < n \<Longrightarrow> read r n = (r', Inr got) \<Longrightarrow> length got \<le> n"
    and read_eof: "valid r \<Longrightarrow> 0 < n \<Longrightarrow> read r n = (r', Inr []) \<Longrightarrow> pending r = []"
    and read_valid: "valid r \<Longrightarrow> 0 < n \<Longrightarrow> read r n = (r', Inr got) \<Longrightarrow> valid r'"

text \<open>
  Options within the range in which no product of the loop wraps at 64 bits (a window and a
  cap of ten thousand years).
\<close>

definition options_in_range :: "engine_options \<Rightarrow> bool" where
  "options_in_range opts \<longleftrightarrow>
     (eo_window_seconds opts + eo_max_duration_seconds opts) * 16000000 < 2 ^ 64"

lemma options_in_range_samples:
  assumes "options_in_range opts"
  shows "window_samples opts = eo_window_seconds opts * 16000"
    "max_samples opts = eo_max_duration_seconds opts * 16000"
    "(window_samples opts + max_samples opts) * 1000 < 18446744073709551616"
proof -
  have b: "(eo_window_seconds opts + eo_max_duration_seconds opts) * 16000000 < 18446744073709551616"
    using assms by (simp add: options_in_range_def)
  show w: "window_samples opts = eo_window_seconds opts * 16000"
    unfolding window_samples_def by (rule u64_small) (use b in \<open>simp add: add_mult_distrib\<close>)
  show m: "max_samples opts = eo_max_duration_seconds opts * 16000"
    unfolding max_samples_def by (rule u64_small) (use b in \<open>simp add: add_mult_distrib\<close>)
  show "(window_samples opts + max_samples opts) * 1000 < 18446744073709551616"
    unfolding w m using b by (simp add: add_mult_distrib)
qed

text \<open>
  The state of the loop between two iterations, for the media \<open>stream\<close>: the buffer and what
  the source still holds are the media from the window's own start on, to the sample.
\<close>

definition window_aligned ::
  "('r \<Rightarrow> f32 list) \<Rightarrow> ('r \<Rightarrow> bool) \<Rightarrow> engine_options \<Rightarrow> f32 list \<Rightarrow> ('c, 'r, 'w) transcription \<Rightarrow> bool" where
  "window_aligned pending valid opts stream s \<longleftrightarrow> valid (t_source s) \<and>
     16 * window_base_ms (t_run s) \<le> length stream \<and>
     t_buffer s @ pending (t_source s) = drop (16 * window_base_ms (t_run s)) stream \<and>
     t_consumed s = 16 * window_base_ms (t_run s) + length (t_buffer s) \<and>
     t_consumed s \<le> max_samples opts \<and> length (t_buffer s) \<le> window_samples opts \<and>
     (t_source_done s \<longrightarrow> pending (t_source s) = []) \<and> \<not> er_aborted (t_result s)"

lemma fill_window_cases:
  assumes "fill_window E s = (s', f)"
  obtains (full) "s' = s" "f = Go" "t_source_done s \<or> window_samples (e_options E) \<le> length (t_buffer s)"
  | (stop) "f = Returned" "er_aborted (t_result s')" "t_sink s' = t_sink s"
      "same_window (t_run s) (t_run s')" "t_result s' = (t_result s)\<lparr>er_aborted := True\<rparr>"
      "length (t_buffer s') = length (t_buffer s)" "t_whisper s' = t_whisper s"
  | (threw) r run ex where "s' = s\<lparr>t_run := run, t_source := r\<rparr>" "same_window (t_run s) run" "f = Threw ex"
      "length (t_buffer s) < window_samples (e_options E)"
      "e_read E (t_source s) (window_samples (e_options E) - length (t_buffer s)) = (r, Inl ex)"
  | (eof) r run where "s' = s\<lparr>t_run := run, t_source := r, t_source_done := True\<rparr>" "f = Go"
      "same_window (t_run s) run" "length (t_buffer s) < window_samples (e_options E)"
      "e_read E (t_source s) (window_samples (e_options E) - length (t_buffer s)) = (r, Inr [])"
  | (more) r run got s2 where
      "s2 = s\<lparr>t_run := run, t_source := r, t_buffer := t_buffer s @ got,
              t_consumed := u64 (t_consumed s + length got)\<rparr>"
      "same_window (t_run s) run" "got \<noteq> []" "\<not> t_source_done s" "length (t_buffer s) < window_samples (e_options E)"
      "e_read E (t_source s) (window_samples (e_options E) - length (t_buffer s)) = (r, Inr got)"
      "(t_consumed s2 > max_samples (e_options E) \<and> s' = s2 \<and>
          f = Threw (Duration_cap_exceeded (''media exceeds GRPC_ASR_MAX_DURATION_SECONDS='' @
                         to_string (eo_max_duration_seconds (e_options E))))) \<or>
       (t_consumed s2 \<le> max_samples (e_options E) \<and> fill_window E s2 = (s', f))"
proof -
  obtain b run where st: "stopped E (t_run s) = (b, run)"
    by fastforce
  obtain r x where rd: "e_read E (t_source s) (window_samples (e_options E) - length (t_buffer s)) = (r, x)"
    by fastforce
  note sw = stopped_same_window [OF st]
  show thesis
  proof (cases "t_source_done s \<or> window_samples (e_options E) \<le> length (t_buffer s)")
    case True
    with assms show thesis by (intro full) (auto simp: fill_window.simps [of E s])
  next
    case running: False
    show thesis
    proof (cases b)
      case True
      with assms running st sw show thesis
        by (intro stop) (auto simp: fill_window.simps [of E s] abort_result_def)
    next
      case b: False
      show thesis
      proof (cases x)
        case (Inl ex)
        with assms running st b rd sw show thesis
          by (intro threw [of r run ex]) (auto simp: fill_window.simps [of E s])
      next
        case (Inr got)
        show thesis
        proof (cases "got = []")
          case True
          with Inr assms running st b rd sw show thesis
            by (intro eof [of r run]) (auto simp: fill_window.simps [of E s])
        next
          case False
          with Inr assms running st b rd sw show thesis
            by (intro more [where r = r and run = run and got = got])
              (auto simp: fill_window.simps [of E s] Let_def split: if_splits)
        qed
      qed
    qed
  qed
qed

lemma fill_window_frame:
  assumes "fill_window E s = (s', f)"
  shows "f \<noteq> Break \<and> t_sink s' = t_sink s \<and> t_whisper s' = t_whisper s \<and> same_window (t_run s) (t_run s') \<and>
    t_result s' = (if f = Returned then (t_result s)\<lparr>er_aborted := True\<rparr> else t_result s)"
  using assms
proof (induction "window_samples (e_options E) - length (t_buffer s)" arbitrary: s rule: less_induct)
  case less
  from less.prems show ?case
  proof (cases rule: fill_window_cases)
    case (more r run got s2)
    have smaller: "window_samples (e_options E) - length (t_buffer s2)
        < window_samples (e_options E) - length (t_buffer s)"
      using more(1,3,5) by (cases got) auto
    from more(7) show ?thesis
    proof
      assume "max_samples (e_options E) < t_consumed s2 \<and> s' = s2 \<and>
        f = Threw (Duration_cap_exceeded (''media exceeds GRPC_ASR_MAX_DURATION_SECONDS='' @
                         to_string (eo_max_duration_seconds (e_options E))))"
      with more(1,2) show ?thesis
        by simp
    next
      assume "t_consumed s2 \<le> max_samples (e_options E) \<and> fill_window E s2 = (s', f)"
      with less.hyps [of s2] smaller have "f \<noteq> Break \<and> t_sink s' = t_sink s2 \<and> t_whisper s' = t_whisper s2 \<and> same_window (t_run s2) (t_run s') \<and>
        t_result s' = (if f = Returned then (t_result s2)\<lparr>er_aborted := True\<rparr> else t_result s2)"
        by blast
      with more(1,2) show ?thesis
        by (auto intro: same_window_trans)
    qed
  qed auto
qed

lemma carry_tail_source_done [simp]: "t_source_done (carry_tail s n) = t_source_done s"
  by (simp add: carry_tail_def Let_def)

context pcm_source
begin

lemma fill_window_aligned:
  assumes "e_read E = read" "options_in_range (e_options E)"
    and "window_aligned pending valid (e_options E) stream s" "fill_window E s = (s', Go)"
  shows "window_aligned pending valid (e_options E) stream s' \<and> same_window (t_run s) (t_run s') \<and>
    (t_source_done s' \<or> length (t_buffer s') = window_samples (e_options E))"
  using assms(3,4)
proof (induction "window_samples (e_options E) - length (t_buffer s)" arbitrary: s rule: less_induct)
  case less
  from less.prems(2) show ?case
  proof (cases rule: fill_window_cases)
    case full
    with less.prems show ?thesis
      by (auto simp: window_aligned_def)
  next
    case (eof r run)
    then have rd: "0 < window_samples (e_options E) - length (t_buffer s)"
      "read (t_source s) (window_samples (e_options E) - length (t_buffer s)) = (r, Inr [])"
      using assms(1) by simp_all
    have v: "valid (t_source s)"
      using less.prems(1) by (simp add: window_aligned_def)
    from read_eof [OF v rd] read_prefix [OF v rd] read_valid [OF v rd]
    have "pending (t_source s) = []" "pending r = []" "valid r"
      by simp_all
    with eof less.prems(1) show ?thesis
      by (auto simp: window_aligned_def same_window_def)
  next
    case (more r run got s2)
    have "valid (t_source s)" "0 < window_samples (e_options E) - length (t_buffer s)"
      "read (t_source s) (window_samples (e_options E) - length (t_buffer s)) = (r, Inr got)"
      using less.prems(1) more(5,6) assms(1) by (simp_all add: window_aligned_def)
    from read_prefix [OF this] read_bounded [OF this] read_valid [OF this]
    have rd: "pending (t_source s) = got @ pending r"
      "length got \<le> window_samples (e_options E) - length (t_buffer s)" "valid r" .
    have "t_consumed s + length got < 18446744073709551616"
      using less.prems(1) rd(2) options_in_range_samples(3) [OF assms(2)]
      by (auto simp: window_aligned_def)
    with more(1) have cons: "t_consumed s2 = t_consumed s + length got"
      by simp
    from more have rest: "t_consumed s2 \<le> max_samples (e_options E)" "fill_window E s2 = (s', Go)"
      by auto
    have "window_aligned pending valid (e_options E) stream s2"
      using less.prems(1) rd rest(1) cons more(1,2,4)
      by (auto simp: window_aligned_def same_window_def)
    moreover have "window_samples (e_options E) - length (t_buffer s2)
        < window_samples (e_options E) - length (t_buffer s)"
      using more(1,3,5) by (cases got) auto
    ultimately show ?thesis
      using less.hyps [of s2] rest(2) more(1,2) same_window_trans [of "t_run s" run] by auto
  qed simp_all
qed

text \<open>A window that is not the last one ends on a sample boundary and moves forward.\<close>

lemma carry_tail_aligned:
  assumes "options_in_range (e_options E)" "window_aligned pending valid (e_options E) stream s"
    and "length (t_buffer s) = window_samples (e_options E)"
    and "0 < resume" "resume \<le> window_ms_of (t_buffer s)"
  shows "window_aligned pending valid (e_options E) stream (carry_tail s resume) \<and>
    window_base_ms (t_run (carry_tail s resume)) = window_base_ms (t_run s) + resume"
proof -
  note rng = options_in_range_samples [OF assms(1)]
  have "length (t_buffer s) * 1000 < 18446744073709551616"
    using rng(3) assms(3) by (simp add: add_mult_distrib)
  then have le: "16 * resume \<le> length (t_buffer s)"
    using assms(5) by (simp add: window_ms_of_def)
  then have "resume * 16000 < 18446744073709551616"
    using rng(3) assms(3) by (simp add: add_mult_distrib)
  then have keep: "min (u64 (resume * kModelSampleRate) div 1000) (length (t_buffer s)) = 16 * resume"
    using le by simp
  have "window_base_ms (t_run s) + resume < 18446744073709551616"
    using assms(2) le rng(3) assms(3) by (auto simp: window_aligned_def add_mult_distrib)
  then have base: "u64 (window_base_ms (t_run s) + resume) = window_base_ms (t_run s) + resume"
    by simp
  have "drop (16 * resume) (t_buffer s) @ pending (t_source s)
    = drop (16 * resume) (t_buffer s @ pending (t_source s))"
    using le by simp
  also have "\<dots> = drop (16 * (window_base_ms (t_run s) + resume)) stream"
    using assms(2) by (simp add: window_aligned_def add.commute add_mult_distrib2)
  finally have tail: "drop (16 * resume) (t_buffer s) @ pending (t_source s)
    = drop (16 * (window_base_ms (t_run s) + resume)) stream" .
  have "length (t_buffer s @ pending (t_source s)) = length stream - 16 * window_base_ms (t_run s)"
    using assms(2) by (simp add: window_aligned_def del: length_append)
  then have "16 * (window_base_ms (t_run s) + resume) \<le> length stream"
    using le assms(2) by (auto simp: window_aligned_def)
  then show ?thesis
    using assms(2) le tail keep base by (auto simp: carry_tail_def window_aligned_def Let_def)
qed

lemma process_window_aligned:
  assumes "options_in_range (e_options E)" "window_aligned pending valid (e_options E) stream s"
    and "t_buffer s \<noteq> []" "t_source_done s \<or> length (t_buffer s) = window_samples (e_options E)"
    and "process_window E s = (s', Go)"
  shows "window_aligned pending valid (e_options E) stream s' \<and>
    window_base_ms (t_run s) < window_base_ms (t_run s') \<and> \<not> t_source_done s'"
proof -
  obtain s2 f segs lang where dw:
    "decode_window E (s\<lparr>t_buffer := pad_window (t_source_done s) (t_buffer s)\<rparr>) = (s2, f, segs, lang)"
    by (metis surj_pair)
  define wcut where "wcut = window_cut_of segs (t_source_done s) (t_buffer s2)"
  obtain s3 f3 where fw: "finalize_window E s2 segs lang wcut = (s3, f3)"
    by fastforce
  have go: "f = Go" "f3 = Go" "\<not> t_source_done s" "s' = carry_tail s3 (resume_ms wcut)"
    using assms(5) dw fw by (auto simp: process_window_def wcut_def Let_def split: if_splits)
  note fr = decode_window_frame [OF dw] finalize_window_frame [OF fw]
  have same: "t_buffer s3 = t_buffer s" "t_buffer s2 = t_buffer s" "t_source_done s3 = t_source_done s"
    "window_base_ms (t_run s3) = window_base_ms (t_run s)"
    using fr go by (simp_all add: pad_window_def same_window_def)
  have al: "window_aligned pending valid (e_options E) stream s3"
    using assms(2) fr go by (auto simp: window_aligned_def same_window_def pad_window_def)
  have full: "length (t_buffer s3) = window_samples (e_options E)"
    using assms(4) go(3) same by simp
  note rng = options_in_range_samples [OF assms(1)]
  have "length (t_buffer s3) * 1000 < 18446744073709551616"
    using rng(3) full by (simp add: add_mult_distrib)
  then have "0 < window_ms_of (t_buffer s2)"
    using full rng(1) assms(3) same by (cases "eo_window_seconds (e_options E)") (auto simp: window_ms_of_def)
  then have "0 < resume_ms wcut" "resume_ms wcut \<le> window_ms_of (t_buffer s3)"
    using cut_window_resume_bounds same by (simp_all add: wcut_def window_cut_of_def)
  from carry_tail_aligned [OF assms(1) al full this] go(3,4) same \<open>0 < resume_ms wcut\<close>
  show ?thesis
    by simp
qed

lemma transcribe_window_aligned:
  assumes "e_read E = read" "options_in_range (e_options E)"
    and "window_aligned pending valid (e_options E) stream s" "transcribe_window E s = (s', Go)"
  shows "window_aligned pending valid (e_options E) stream s' \<and>
    window_base_ms (t_run s) < window_base_ms (t_run s') \<and> \<not> t_source_done s'"
proof -
  obtain s1 f where fw: "fill_window E s = (s1, f)"
    by fastforce
  with assms(4) have go: "f = Go" "t_buffer s1 \<noteq> []" "process_window E s1 = (s', Go)"
    by (auto simp: transcribe_window_def split: if_splits)
  note fa = fill_window_aligned [OF assms(1-3) fw [unfolded go(1)]]
  with process_window_aligned [OF assms(2) _ go(2) _ go(3)] show ?thesis
    by (auto simp: same_window_def)
qed

lemma transcribe_window_break:
  assumes "e_read E = read" "options_in_range (e_options E)" "0 < eo_window_seconds (e_options E)"
    and "window_aligned pending valid (e_options E) stream s" "transcribe_window E s = (s', Break)"
  shows "t_consumed s' = length stream \<and> length stream \<le> max_samples (e_options E)"
proof -
  obtain s1 f where fw: "fill_window E s = (s1, f)"
    by fastforce
  have "f \<noteq> Break"
    using fill_window_frame [OF fw] by simp
  with assms(5) fw have go: "f = Go"
    by (auto simp: transcribe_window_def split: if_splits)
  note al = fill_window_aligned [OF assms(1,2,4) fw [unfolded go]]
  have same: "t_consumed s' = t_consumed s1 \<and> (t_buffer s1 \<noteq> [] \<longrightarrow> t_source_done s1)"
  proof (cases "t_buffer s1 = []")
    case True
    with assms(5) fw go show ?thesis
      by (simp add: transcribe_window_def)
  next
    case False
    then have pw: "process_window E s1 = (s', Break)"
      using assms(5) fw go by (simp add: transcribe_window_def)
    obtain s2 f2 segs lang where dw:
      "decode_window E (s1\<lparr>t_buffer := pad_window (t_source_done s1) (t_buffer s1)\<rparr>) = (s2, f2, segs, lang)"
      by (metis surj_pair)
    obtain s3 f3 where fz:
      "finalize_window E s2 segs lang (window_cut_of segs (t_source_done s1) (t_buffer s2)) = (s3, f3)"
      by fastforce
    show ?thesis
      using pw dw fz decode_window_frame [OF dw] finalize_window_frame [OF fz]
      by (auto simp: process_window_def Let_def split: if_splits)
  qed
  have "0 < window_samples (e_options E)"
    using options_in_range_samples(1) [OF assms(2)] assms(3) by simp
  with al same have "pending (t_source s1) = []"
    by (cases "t_buffer s1") (auto simp: window_aligned_def)
  with al have "length (t_buffer s1) = length stream - 16 * window_base_ms (t_run s1)"
    by (simp add: window_aligned_def)
  with al same show ?thesis
    by (auto simp: window_aligned_def)
qed

lemma transcribe_loop_returns:
  assumes "e_read E = read" "options_in_range (e_options E)"
    and "window_aligned pending valid (e_options E) stream s"
    and "max_samples (e_options E) div 16 - window_base_ms (t_run s) < fuel"
  shows "\<exists>s' f. transcribe_loop fuel E s = Some (s', f) \<and> f \<noteq> Go \<and>
    (f = Break \<longrightarrow> 0 < eo_window_seconds (e_options E) \<longrightarrow>
       t_consumed s' = length stream \<and> length stream \<le> max_samples (e_options E))"
  using assms(3,4)
proof (induction fuel arbitrary: s)
  case (Suc fuel)
  obtain s' f where tw: "transcribe_window E s = (s', f)"
    by fastforce
  show ?case
  proof (cases "f = Go")
    case True
    note al = transcribe_window_aligned [OF assms(1,2) Suc.prems(1) tw [unfolded True]]
    then have "window_base_ms (t_run s') \<le> max_samples (e_options E) div 16"
      by (auto simp: window_aligned_def)
    with al Suc.prems(2)
    have "max_samples (e_options E) div 16 - window_base_ms (t_run s') < fuel"
      by linarith
    from Suc.IH [OF _ this] al tw True show ?thesis
      by simp
  next
    case False
    with tw transcribe_window_break [OF assms(1,2) _ Suc.prems(1)] show ?thesis
      by (cases f) auto
  qed
qed simp

lemma window_aligned_new:
  "valid r \<Longrightarrow> window_aligned pending valid opts (pending r) (transcription_new r c w)"
  by (simp add: window_aligned_def transcription_new_def)

end

section \<open>The segment sink\<close>

text \<open>
  The contract of \<open>SegmentSink\<close>: \<open>log\<close> is what it has been handed, in order, with the
  \<open>is_final\<close> flags; its answer is its own business.
\<close>

locale segment_sink =
  fixes sink :: "'c \<Rightarrow> engine_segment \<Rightarrow> bool \<Rightarrow> 'c \<times> bool"
    and log :: "'c \<Rightarrow> (engine_segment \<times> bool) list"
  assumes sink_logs: "sink c seg fin = (c', ok) \<Longrightarrow> log c' = log c @ [(seg, fin)]"

definition n_finals :: "(engine_segment \<times> bool) list \<Rightarrow> nat" where
  "n_finals xs = length (filter snd xs)"

definition n_turns :: "(engine_segment \<times> bool) list \<Rightarrow> nat" where
  "n_turns xs = length (filter (\<lambda>(s, f). f \<and> speaker_turn_next s) xs)"

definition n_tokens :: "(engine_segment \<times> bool) list \<Rightarrow> nat" where
  "n_tokens xs = sum_list (map (\<lambda>(s, f). if f then token_count s else 0) xs)"

text \<open>
  What a client may rely on after \<open>n\<close> finals and \<open>t\<close> speaker turns: finals are numbered
  consecutively, a partial never carries the number of a segment that is already final, and
  with diarization a final's label counts the turns the finals before it predicted.
\<close>

fun log_ok :: "bool \<Rightarrow> nat \<Rightarrow> nat \<Rightarrow> (engine_segment \<times> bool) list \<Rightarrow> bool" where
  "log_ok d n t [] \<longleftrightarrow> True"
| "log_ok d n t ((seg, True) # xs) \<longleftrightarrow>
     seg_index seg = u32 n \<and> (d \<longrightarrow> seg_speaker seg = ''S'' @ to_string (u32 (t + 1))) \<and>
     log_ok d (n + 1) (t + (if speaker_turn_next seg then 1 else 0)) xs"
| "log_ok d n t ((seg, False) # xs) \<longleftrightarrow>
     (n < 2 ^ 31 \<longrightarrow> n \<le> seg_index seg) \<and> log_ok d n t xs"

lemma n_counts_simps [simp]:
  "n_finals [] = 0" "n_turns [] = 0" "n_tokens [] = 0"
  "n_finals (xs @ [(s, f)]) = n_finals xs + (if f then 1 else 0)"
  "n_turns (xs @ [(s, f)]) = n_turns xs + (if f \<and> speaker_turn_next s then 1 else 0)"
  "n_tokens (xs @ [(s, f)]) = n_tokens xs + (if f then token_count s else 0)"
  by (simp_all add: n_finals_def n_turns_def n_tokens_def)

lemma log_ok_append:
  "log_ok d n t (xs @ ys) \<longleftrightarrow> log_ok d n t xs \<and> log_ok d (n + n_finals xs) (t + n_turns xs) ys"
proof (induction xs arbitrary: n t)
  case (Cons x xs)
  then show ?case
    by (cases x; cases "snd x") (auto simp: n_finals_def n_turns_def)
qed simp

lemma u32_add_u32:
  "u32 (u32 a + b) = u32 (a + b)" "u32 (a + u32 b) = u32 (a + b)" "u32 (Suc (u32 a)) = u32 (Suc a)"
  by (simp_all add: u32_def mod_simps)

lemma u64_add_u64: "u64 (u64 a + b) = u64 (a + b)"
  by (simp add: u64_def mod_simps)

lemma read_segment_simps:
  "seg_index (read_segment E run segs i) = u32 (window_base_index run + i)"
  "speaker_turn_next (read_segment E run segs i) \<longleftrightarrow> eo_diarize (e_options E) \<and> ws_turn_next (segs ! i)"
  "seg_speaker (read_segment E run segs i) =
     (if eo_diarize (e_options E) then ''S'' @ to_string (u32 (speaker_at run segs i + 1)) else [])"
  by (simp_all add: read_segment_def Let_def split: prod.splits)

fun run_sized :: "'w whisper_run \<Rightarrow> bool" where
  "run_sized (Commit segs n k) \<longleftrightarrow> length segs < 2 ^ 31 \<and> run_sized k"
| "run_sized (Poll go halt) \<longleftrightarrow> run_sized go \<and> run_sized halt"
| "run_sized (Return code segs lang w) \<longleftrightarrow> length segs < 2 ^ 31"

text \<open>The number of segments and the number of finals so far, as the loop's counters have them.\<close>

definition books_ok :: "('c, 'r, 'w, 'd) engine \<Rightarrow> run_state \<Rightarrow> (engine_segment \<times> bool) list \<Rightarrow> bool" where
  "books_ok E run xs \<longleftrightarrow> log_ok (eo_diarize (e_options E)) 0 0 xs \<and>
     window_base_index run = u32 (n_finals xs) \<and> window_base_speaker run = u32 (n_turns xs)"

definition result_ok :: "engine_result \<Rightarrow> (engine_segment \<times> bool) list \<Rightarrow> bool" where
  "result_ok result xs \<longleftrightarrow>
     er_final_segments result = u32 (n_finals xs) \<and> er_tokens result = u64 (n_tokens xs)"

lemma books_ok_same_window: "same_window run run' \<Longrightarrow> books_ok E run' xs = books_ok E run xs"
  by (simp add: books_ok_def same_window_def)

lemma books_ok_partial:
  assumes "books_ok E run xs" "i < 2 ^ 31"
  shows "books_ok E run (xs @ [(read_segment E run segs i, False)])"
proof -
  have "n_finals xs < 2 ^ 31 \<Longrightarrow> n_finals xs \<le> u32 (window_base_index run + i)"
    using assms by (simp add: books_ok_def)
  with assms(1) show ?thesis
    by (simp add: books_ok_def log_ok_append read_segment_simps)
qed

text \<open>The turns the first \<open>i\<close> segments of a window predict, when they are asked for.\<close>

definition turns_to :: "bool \<Rightarrow> whisper_segment list \<Rightarrow> nat \<Rightarrow> nat" where
  "turns_to d segs i = (if d then length (filter ws_turn_next (take i segs)) else 0)"

lemma turns_to_Suc:
  "i < length segs \<Longrightarrow>
   turns_to d segs (Suc i) = turns_to d segs i + (if d \<and> ws_turn_next (segs ! i) then 1 else 0)"
  by (simp add: turns_to_def take_Suc_conv_app_nth)

lemma turns_to_0 [simp]: "turns_to d segs 0 = 0"
  by (simp add: turns_to_def)

context segment_sink
begin

lemma emit_partials_books:
  assumes "e_sink E = sink" "\<forall>i \<in> set is. i < 2 ^ 31" "books_ok E run (log c)"
    and "emit_partials E segs is (run, c) = (run', c')"
  shows "books_ok E run' (log c') \<and> n_finals (log c') = n_finals (log c) \<and>
    n_tokens (log c') = n_tokens (log c)"
  using assms(2-4)
proof (induction "is" arbitrary: run c)
  case (Cons i "is")
  obtain c1 ok where snk: "sink c (read_segment E run segs i) False = (c1, ok)"
    by fastforce
  let ?run1 = "if ok then run else run\<lparr>run_abort := True\<rparr>"
  have "same_window run ?run1"
    by (simp add: same_window_def)
  then have "books_ok E ?run1 (log c1)"
    using books_ok_partial [of E run "log c" i segs] Cons.prems sink_logs [OF snk]
    by (simp add: books_ok_same_window)
  with Cons.IH [of ?run1 c1] Cons.prems snk sink_logs [OF snk] assms(1) show ?case
    by simp
qed simp

lemma whisper_callbacks_books:
  assumes "e_sink E = sink" "run_sized tree" "books_ok E run (log c)"
    and "whisper_callbacks E tree (run, c) = ((run', c'), code, segs, rest)"
  shows "books_ok E run' (log c') \<and> n_finals (log c') = n_finals (log c) \<and>
    n_tokens (log c') = n_tokens (log c)"
  using assms(2-4)
proof (induction tree arbitrary: run c)
  case (Commit sg n k)
  obtain run1 c1 where ons: "on_new_segment E sg n (run, c) = (run1, c1)"
    by fastforce
  then have "books_ok E run1 (log c1) \<and> n_finals (log c1) = n_finals (log c) \<and>
    n_tokens (log c1) = n_tokens (log c)"
    using Commit.prems by (intro emit_partials_books [OF assms(1)]) (auto simp: on_new_segment_def)
  with Commit ons show ?case
    by fastforce
next
  case (Poll go halt)
  obtain b run1 where st: "stopped E run = (b, run1)"
    by fastforce
  have "books_ok E run1 (log c)"
    using Poll.prems(2) by (simp add: books_ok_same_window [OF stopped_same_window [OF st]])
  with Poll st show ?case
    by (cases b) auto
qed auto

lemma finalize_segments_books:
  assumes "e_sink E = sink" "b \<le> length segs"
    and "window_base_index run = u32 n0" "window_base_speaker run = u32 t0"
    and "a \<le> b" "n_finals (log c) = n0 + a" "n_turns (log c) = t0 + turns_to (eo_diarize (e_options E)) segs a"
    and "log_ok (eo_diarize (e_options E)) 0 0 (log c)" "result_ok result (log c)"
    and "turns = u32 (turns_to (eo_diarize (e_options E)) segs a)"
    and "finalize_segments E run segs [a ..< b] (c, result, turns) = ((c', result', turns'), ok)"
  shows "log_ok (eo_diarize (e_options E)) 0 0 (log c') \<and> result_ok result' (log c') \<and>
    (ok \<longrightarrow> n_finals (log c') = n0 + b \<and>
       n_turns (log c') = t0 + turns_to (eo_diarize (e_options E)) segs b \<and>
       turns' = u32 (turns_to (eo_diarize (e_options E)) segs b))"
  using assms(5-)
proof (induction "b - a" arbitrary: a c result turns)
  case 0
  then show ?case by auto
next
  case (Suc k)
  let ?d = "eo_diarize (e_options E)" and ?seg = "read_segment E run segs a"
  have ab: "a < b" "a < length segs" "k = b - Suc a" "[a ..< b] = a # [Suc a ..< b]"
    using Suc.hyps(2) assms(2) by (auto simp: upt_conv_Cons)
  obtain c1 ok1 where snk: "sink c ?seg True = (c1, ok1)"
    by fastforce
  note lg = sink_logs [OF snk]
  have sp: "?d \<Longrightarrow> u32 (speaker_at run segs a + 1) = u32 (n_turns (log c) + 1)"
    using assms(4) Suc.prems(3) by (simp add: speaker_at_def turns_to_def u32_add_u32)
  have ok1: "log_ok ?d 0 0 (log c1)"
    using Suc.prems(2,4) lg sp assms(3) by (simp add: log_ok_append read_segment_simps u32_add_u32)
  define result1 where "result1 = result\<lparr>er_tokens := u64 (er_tokens result + token_count ?seg),
    er_final_segments := u32 (er_final_segments result + 1)\<rparr>"
  have r1: "result_ok result1 (log c1)" "result_ok (result1\<lparr>er_aborted := True\<rparr>) (log c1)"
    using Suc.prems(5) lg by (simp_all add: result1_def result_ok_def u32_add_u32 u64_add_u64)
  have t1: "u32 (turns + (if speaker_turn_next ?seg then 1 else 0)) = u32 (turns_to ?d segs (Suc a))"
    using Suc.prems(6) ab(2) by (simp add: turns_to_Suc read_segment_simps u32_add_u32)
  show ?case
  proof (cases ok1)
    case False
    with Suc.prems(7) snk ok1 r1 assms(1) ab(4) show ?thesis
      by (auto simp: result1_def Let_def)
  next
    case True
    then have "finalize_segments E run segs [Suc a ..< b]
        (c1, result1, u32 (turns + (if speaker_turn_next ?seg then 1 else 0))) = ((c', result', turns'), ok)"
      using Suc.prems(7) snk assms(1) ab(4) by (simp add: result1_def Let_def)
    from Suc.hyps(1) [OF ab(3) _ _ _ ok1 r1(1) t1 this] Suc.prems(2,3) ab lg show ?thesis
      by (simp add: turns_to_Suc read_segment_simps)
  qed
qed

definition loop_books :: "('c, 'r, 'w, 'd) engine \<Rightarrow> ('c, 'r, 'w) transcription \<Rightarrow> bool" where
  "loop_books E s \<longleftrightarrow> books_ok E (t_run s) (log (t_sink s)) \<and> result_ok (t_result s) (log (t_sink s))"

text \<open>What is left when the iteration ends early, in the middle of the finals perhaps.\<close>

definition final_books :: "('c, 'r, 'w, 'd) engine \<Rightarrow> ('c, 'r, 'w) transcription \<Rightarrow> bool" where
  "final_books E s \<longleftrightarrow> log_ok (eo_diarize (e_options E)) 0 0 (log (t_sink s)) \<and>
     result_ok (t_result s) (log (t_sink s))"

lemma loop_books_final: "loop_books E s \<Longrightarrow> final_books E s"
  by (simp add: loop_books_def final_books_def books_ok_def)

lemma decode_window_books:
  assumes "e_sink E = sink" "\<And>w p b. run_sized (e_whisper_full E w p b)" "loop_books E s"
    and "decode_window E s = (s', f, segs, lang)"
  shows "loop_books E s'"
proof -
  obtain b run1 where st: "stopped E (t_run s) = (b, run1)"
    by fastforce
  obtain run2 c2 code segs2 lang2 w2 where wc:
    "whisper_callbacks E (e_whisper_full E (t_whisper s) (params_of (e_options E)) (t_buffer s)) (run1, t_sink s)
     = ((run2, c2), code, segs2, lang2, w2)"
    by (metis prod_cases5 surj_pair)
  obtain b2 run3 where st2: "stopped E run2 = (b2, run3)"
    by fastforce
  have b1: "books_ok E run1 (log (t_sink s))"
    using assms(3) by (simp add: loop_books_def books_ok_same_window [OF stopped_same_window [OF st]])
  note b2 = whisper_callbacks_books [OF assms(1,2) b1 wc]
  then have "books_ok E run3 (log c2)"
    by (simp add: books_ok_same_window [OF stopped_same_window [OF st2]])
  with b1 b2 assms(3,4) st wc st2 show ?thesis
    by (auto simp: decode_window_def abort_result_def Let_def loop_books_def result_ok_def split: if_splits)
qed

lemma finalize_window_books:
  assumes "e_sink E = sink" "loop_books E s" "finalize wcut \<le> int (length segs)"
    and "finalize_window E s segs lang wcut = (s', f)"
  shows "final_books E s' \<and> (f = Go \<longrightarrow> loop_books E s')"
proof -
  obtain c result turns ok where fs:
    "finalize_segments E (t_run s) segs [0 ..< nat (finalize wcut)]
       (t_sink s, note_language E lang (t_result s), 0) = ((c, result, turns), ok)"
    by (metis surj_pair)
  have "result_ok (note_language E lang (t_result s)) (log (t_sink s))"
    using assms(2) by (simp add: loop_books_def result_ok_def note_language_def)
  then have "log_ok (eo_diarize (e_options E)) 0 0 (log c) \<and> result_ok result (log c) \<and>
    (ok \<longrightarrow> n_finals (log c) = n_finals (log (t_sink s)) + nat (finalize wcut) \<and>
       n_turns (log c) = n_turns (log (t_sink s)) + turns_to (eo_diarize (e_options E)) segs (nat (finalize wcut)) \<and>
       turns = u32 (turns_to (eo_diarize (e_options E)) segs (nat (finalize wcut))))"
    using assms(1-3) by (intro finalize_segments_books [OF _ _ _ _ _ _ _ _ _ _ fs])
      (auto simp: loop_books_def books_ok_def)
  with assms(2,4) fs show ?thesis
    by (auto simp: finalize_window_def Let_def final_books_def loop_books_def books_ok_def
        result_ok_def u32_add_u32 split: if_splits)
qed

lemma process_window_books:
  assumes "e_sink E = sink" "\<And>w p b. run_sized (e_whisper_full E w p b)" "loop_books E s"
    and "process_window E s = (s', f)"
  shows "final_books E s' \<and> (f = Go \<longrightarrow> loop_books E s')"
proof -
  obtain s2 f2 segs lang where dw:
    "decode_window E (s\<lparr>t_buffer := pad_window (t_source_done s) (t_buffer s)\<rparr>) = (s2, f2, segs, lang)"
    by (metis surj_pair)
  define wcut where "wcut = window_cut_of segs (t_source_done s) (t_buffer s2)"
  obtain s3 f3 where fw: "finalize_window E s2 segs lang wcut = (s3, f3)"
    by fastforce
  have "loop_books E (s\<lparr>t_buffer := pad_window (t_source_done s) (t_buffer s)\<rparr>)"
    using assms(3) by (simp add: loop_books_def)
  from decode_window_books [OF assms(1,2) this dw] have lb: "loop_books E s2" .
  have "finalize wcut \<le> int (length segs)"
    using cut_window_finalize_bounds [of "int (length segs)"] by (simp add: wcut_def window_cut_of_def)
  note fb = finalize_window_books [OF assms(1) lb this fw]
  have carry: "loop_books E (carry_tail s3 n) = loop_books E s3" for n
    by (simp add: loop_books_def carry_tail_def Let_def books_ok_def)
  show ?thesis
    using assms(4) dw fw fb lb loop_books_final [OF lb] carry loop_books_final [of E "carry_tail s3 (resume_ms wcut)"]
    by (auto simp: process_window_def Let_def wcut_def [symmetric] split: if_splits)
qed

lemma transcribe_window_books:
  assumes "e_sink E = sink" "\<And>w p b. run_sized (e_whisper_full E w p b)" "loop_books E s"
    and "transcribe_window E s = (s', f)"
  shows "final_books E s' \<and> (f = Go \<longrightarrow> loop_books E s')"
proof -
  obtain s1 f1 where fw: "fill_window E s = (s1, f1)"
    by fastforce
  note fr = fill_window_frame [OF fw]
  then have "books_ok E (t_run s1) (log (t_sink s1))"
    using assms(3) by (simp add: loop_books_def books_ok_same_window [of "t_run s" "t_run s1"])
  with fr assms(3) have lb: "loop_books E s1"
    by (simp add: loop_books_def result_ok_def)
  with assms(4) fw process_window_books [OF assms(1,2) lb] loop_books_final [OF lb] show ?thesis
    by (auto simp: transcribe_window_def split: if_splits)
qed

lemma transcribe_loop_books:
  assumes "e_sink E = sink" "\<And>w p b. run_sized (e_whisper_full E w p b)" "loop_books E s"
    and "transcribe_loop fuel E s = Some (s', f)"
  shows "final_books E s'"
  using assms(3,4)
proof (induction fuel arbitrary: s)
  case (Suc fuel)
  obtain s1 f1 where tw: "transcribe_window E s = (s1, f1)"
    by fastforce
  note tb = transcribe_window_books [OF assms(1,2) Suc.prems(1) tw]
  with Suc tw show ?case
    by (cases f1) auto
qed simp

end

section \<open>Properties of a run\<close>

lemma transcribe_window_returned:
  assumes "transcribe_window E s = (s', Returned)"
  shows "er_aborted (t_result s')"
proof -
  obtain s1 f1 where fw: "fill_window E s = (s1, f1)"
    by fastforce
  obtain s2 f2 segs lang where dw:
    "decode_window E (s1\<lparr>t_buffer := pad_window (t_source_done s1) (t_buffer s1)\<rparr>) = (s2, f2, segs, lang)"
    by (metis surj_pair)
  obtain s3 f3 where fz:
    "finalize_window E s2 segs lang (window_cut_of segs (t_source_done s1) (t_buffer s2)) = (s3, f3)"
    by fastforce
  have "f2 = Returned \<Longrightarrow> er_aborted (t_result s2)"
    using dw by (auto simp: decode_window_def abort_result_def Let_def split: if_splits prod.splits)
  with assms fw dw fz fill_window_frame [OF fw] finalize_window_frame [OF fz] show ?thesis
    by (auto simp: transcribe_window_def process_window_def Let_def split: if_splits)
qed

lemma transcribe_loop_returned:
  "transcribe_loop fuel E s = Some (s', Returned) \<Longrightarrow> er_aborted (t_result s')"
proof (induction fuel arbitrary: s)
  case (Suc fuel)
  obtain s1 f1 where "transcribe_window E s = (s1, f1)"
    by fastforce
  with Suc show ?case
    by (cases f1) (auto dest: transcribe_window_returned)
qed simp

text \<open>A source that delivers a list, a decoder that never finds speech, for the examples.\<close>

definition list_read :: "f32 list \<Rightarrow> nat \<Rightarrow> f32 list \<times> (exn + f32 list)" where
  "list_read xs n = (drop n xs, Inr (take n xs))"

definition demo_engine :: "((engine_segment \<times> bool) list, f32 list, unit, unit) engine" where
  "demo_engine =
     \<lparr>e_options = \<lparr>eo_language = [], eo_translate = False, eo_word_timestamps = False,
                   eo_diarize = True, eo_threads = 4, eo_window_seconds = 1, eo_max_duration_seconds = 2\<rparr>,
      e_read = list_read,
      e_sink = (\<lambda>log seg fin. (log @ [(seg, fin)], True)),
      e_stop = (\<lambda>_. False),
      e_whisper_full = (\<lambda>_ _ _. Return 0 [\<lparr>ws_t0 = 0, ws_t1 = 10, ws_text = ''hi'', ws_turn_next = True, ws_tokens = []\<rparr>,
                                          \<lparr>ws_t0 = 10, ws_t1 = 20, ws_text = ''ho'', ws_turn_next = False, ws_tokens = []\<rparr>] 0 ()),
      e_token_eot = 50257, e_lang_str = (\<lambda>_. ''en''),
      e_double_zero = (), e_double_add = (\<lambda>_ _. ()), e_double_mean = (\<lambda>_ _. 0)\<rparr>"

lemma list_read_source: "pcm_source list_read (\<lambda>xs. xs) (\<lambda>_. True)"
  by unfold_locales (auto simp: list_read_def)

lemma demo_engine_simps:
  "e_read demo_engine = list_read" "options_in_range (e_options demo_engine)"
  "eo_window_seconds (e_options demo_engine) = 1" "max_samples (e_options demo_engine) = 32000"
  "window_samples (e_options demo_engine) = 16000" "eo_diarize (e_options demo_engine)"
  "e_sink demo_engine = (\<lambda>log seg fin. (log @ [(seg, fin)], True))"
  by (simp_all add: demo_engine_def options_in_range_def max_samples_def window_samples_def)

text \<open>C21: for every PCM source, decoder, sink and stop schedule the window loop ends: the
  number of windows is bounded by the duration cap. A run that is not aborted has read the
  whole media, which is within the cap, and reports exactly its duration.\<close>

theorem transcriber_run_returns:
  assumes "pcm_source (e_read E) pending valid" "valid r" "options_in_range (e_options E)"
    and "0 < eo_window_seconds (e_options E)" "max_samples (e_options E) div 16 < fuel"
  shows "\<exists>s res. transcriber_run fuel E r c w = Some (s, res) \<and>
    (\<forall>result. res = Inr result \<longrightarrow> \<not> er_aborted result \<longrightarrow>
       er_duration_ms result = length (pending r) div 16 \<and>
       length (pending r) \<le> eo_max_duration_seconds (e_options E) * 16000)"
proof -
  let ?s0 = "transcription_new r c w"
  have "max_samples (e_options E) div 16 - window_base_ms (t_run ?s0) < fuel"
    using assms(5) by linarith
  from pcm_source.transcribe_loop_returns [OF assms(1) refl assms(3)
      pcm_source.window_aligned_new [OF assms(1,2), of "e_options E" c w] this]
  obtain s f where sf: "transcribe_loop fuel E ?s0 = Some (s, f)" "f \<noteq> Go"
    "f = Break \<longrightarrow> t_consumed s = length (pending r) \<and> length (pending r) \<le> max_samples (e_options E)"
    using assms(4) by blast
  note rng = options_in_range_samples [OF assms(3)]
  have "length (pending r) \<le> max_samples (e_options E) \<Longrightarrow>
    u64 (length (pending r) * 1000) div 16000 = length (pending r) div 16"
    using rng(3) by (simp add: add_mult_distrib div_mult2_eq [of _ 1000 16, symmetric])
  with sf rng(2) transcribe_loop_returned [of fuel E ?s0 s] show ?thesis
    by (cases f) (auto simp: transcriber_run_def)
qed

text \<open>
  What whisper is given. \<open>heard\<close> reads, off the decoder's state, the buffers of the calls so far;
  \<open>run_ends\<close> says that a call leaves only states with a property, however its callbacks answer.
\<close>

fun run_ends :: "('w \<Rightarrow> bool) \<Rightarrow> 'w whisper_run \<Rightarrow> bool" where
  "run_ends P (Commit segs n_new k) = run_ends P k"
| "run_ends P (Poll go halt) = (run_ends P go \<and> run_ends P halt)"
| "run_ends P (Return code segs lang w) = P w"

definition records_audio :: "('c, 'r, 'w, 'd) engine \<Rightarrow> ('w \<Rightarrow> f32 list list) \<Rightarrow> bool" where
  "records_audio E heard \<longleftrightarrow> (\<forall>w params buffer. run_ends (\<lambda>w'. heard w' = heard w @ [buffer]) (e_whisper_full E w params buffer))"

text \<open>The window that starts at a millisecond of the media, filled up to a second with silence.\<close>

definition media_window :: "engine_options \<Rightarrow> f32 list \<Rightarrow> nat \<Rightarrow> f32 list" where
  "media_window opts media base_ms =
     (let real = take (window_samples opts) (drop (16 * base_ms) media) in real @ replicate (kModelSampleRate - length real) 0)"

text \<open>A window starts after its predecessor and not after its predecessor's end.\<close>

definition follows_window :: "engine_options \<Rightarrow> nat \<Rightarrow> nat \<Rightarrow> bool" where
  "follows_window opts b b' \<longleftrightarrow> b < b' \<and> 16 * b' \<le> 16 * b + window_samples opts"

definition heard_so_far :: "engine_options \<Rightarrow> f32 list \<Rightarrow> f32 list list \<Rightarrow> nat \<Rightarrow> bool" where
  "heard_so_far opts stream windows base \<longleftrightarrow>
     (\<exists>bases. windows = map (media_window opts stream) bases \<and> successively (follows_window opts) (bases @ [base]) \<and> hd (bases @ [base]) = 0)"

lemma transcribe_loop_not_go: "transcribe_loop fuel E s = Some (s', f) \<Longrightarrow> f \<noteq> Go"
  by (induction fuel arbitrary: s) (auto split: prod.splits flow.splits)

lemma whisper_callbacks_ends:
  "run_ends P tree \<Longrightarrow> whisper_callbacks E tree rc = (rc', code, segs, lang, w) \<Longrightarrow> P w"
proof (induction tree arbitrary: rc)
  case (Poll go halt)
  then show ?case
    by (cases rc) (auto simp: Let_def split: prod.splits if_splits)
qed auto

lemma decode_window_heard:
  assumes "records_audio E heard" "decode_window E s = (s', f, segs, lang)"
  shows "heard (t_whisper s') = heard (t_whisper s) @ [t_buffer s] \<or> (heard (t_whisper s') = heard (t_whisper s) \<and> f = Returned)"
proof -
  obtain b run1 where st: "stopped E (t_run s) = (b, run1)"
    by fastforce
  obtain run2 c2 code segs2 lang2 w2 where wc:
    "whisper_callbacks E (e_whisper_full E (t_whisper s) (params_of (e_options E)) (t_buffer s)) (run1, t_sink s)
     = ((run2, c2), code, segs2, lang2, w2)"
    by (metis prod_cases5 surj_pair)
  have "heard w2 = heard (t_whisper s) @ [t_buffer s]"
    using whisper_callbacks_ends [OF _ wc, of "\<lambda>w'. heard w' = heard (t_whisper s) @ [t_buffer s]"] assms(1)
    by (simp add: records_audio_def)
  with assms(2) st wc show ?thesis
    by (cases "stopped E run2") (auto simp: decode_window_def abort_result_def Let_def split: if_splits)
qed

lemma process_window_heard:
  assumes "records_audio E heard" "process_window E s = (s', f)"
  shows "t_consumed s' = t_consumed s \<and> (f = Break \<longrightarrow> t_source_done s) \<and>
    (heard (t_whisper s') = heard (t_whisper s) @ [pad_window (t_source_done s) (t_buffer s)] \<or>
     (heard (t_whisper s') = heard (t_whisper s) \<and> f = Returned))"
proof -
  obtain s2 f2 segs lang where dw:
    "decode_window E (s\<lparr>t_buffer := pad_window (t_source_done s) (t_buffer s)\<rparr>) = (s2, f2, segs, lang)"
    by (metis surj_pair)
  obtain s3 f3 where fz:
    "finalize_window E s2 segs lang (window_cut_of segs (t_source_done s) (t_buffer s2)) = (s3, f3)"
    by fastforce
  from assms(2) dw fz decode_window_heard [OF assms(1) dw] decode_window_frame [OF dw] finalize_window_frame [OF fz] show ?thesis
    by (auto simp: process_window_def carry_tail_def Let_def split: if_splits)
qed

context pcm_source
begin

lemma filled_window_is_media:
  assumes "options_in_range (e_options E)" "0 < eo_window_seconds (e_options E)" "window_aligned pending valid (e_options E) stream s"
    and "t_source_done s \<or> length (t_buffer s) = window_samples (e_options E)"
  shows "pad_window (t_source_done s) (t_buffer s) = media_window (e_options E) stream (window_base_ms (t_run s))"
proof -
  have eq: "drop (16 * window_base_ms (t_run s)) stream = t_buffer s @ pending (t_source s)"
    and bound: "length (t_buffer s) \<le> window_samples (e_options E)" "t_source_done s \<longrightarrow> pending (t_source s) = []"
    using assms(3) by (simp_all add: window_aligned_def)
  have "take (window_samples (e_options E)) (drop (16 * window_base_ms (t_run s)) stream) = t_buffer s"
    unfolding eq using bound assms(4) by auto
  moreover have "\<not> t_source_done s \<longrightarrow> kModelSampleRate \<le> length (t_buffer s)"
    using assms(2,4) options_in_range_samples(1) [OF assms(1)] by auto
  ultimately show ?thesis
    by (auto simp: media_window_def pad_window_def Let_def)
qed

lemma transcribe_window_heard:
  assumes "e_read E = read" "options_in_range (e_options E)" "0 < eo_window_seconds (e_options E)" "records_audio E heard"
    and "window_aligned pending valid (e_options E) stream s" "transcribe_window E s = (s', f)"
  shows "(heard (t_whisper s') = heard (t_whisper s) \<and> f \<noteq> Go \<and> (f = Break \<longrightarrow> length stream \<le> 16 * window_base_ms (t_run s))) \<or>
    (heard (t_whisper s') = heard (t_whisper s) @ [media_window (e_options E) stream (window_base_ms (t_run s))] \<and>
     (f = Go \<longrightarrow> follows_window (e_options E) (window_base_ms (t_run s)) (window_base_ms (t_run s'))) \<and>
     (f = Break \<longrightarrow> length stream \<le> 16 * window_base_ms (t_run s) + window_samples (e_options E)))"
proof -
  obtain s1 f1 where fw: "fill_window E s = (s1, f1)"
    by fastforce
  note w1 = fill_window_frame [OF fw]
  show ?thesis
  proof (cases "f1 = Go")
    case False
    with assms(6) fw w1 show ?thesis
      by (auto simp: transcribe_window_def)
  next
    case True
    note al = fill_window_aligned [OF assms(1,2,5) fw [unfolded True]]
    have base: "window_base_ms (t_run s1) = window_base_ms (t_run s)" and al1: "window_aligned pending valid (e_options E) stream s1"
      using al by (simp_all add: same_window_def)
    have len: "length stream = 16 * window_base_ms (t_run s) + length (t_buffer s1) + length (pending (t_source s1))"
      "length (t_buffer s1) \<le> window_samples (e_options E)" "t_source_done s1 \<longrightarrow> pending (t_source s1) = []"
      "t_consumed s1 = 16 * window_base_ms (t_run s) + length (t_buffer s1)"
      using al1 base by (auto simp: window_aligned_def dest: arg_cong [of _ _ length])
    show ?thesis
    proof (cases "t_buffer s1 = []")
      case empty: True
      have "0 < window_samples (e_options E)"
        using options_in_range_samples(1) [OF assms(2)] assms(3) by simp
      then have "t_source_done s1"
        using al empty by auto
      with assms(6) fw True empty w1 len show ?thesis
        by (auto simp: transcribe_window_def)
    next
      case False
      then have pw: "process_window E s1 = (s', f)"
        using assms(6) fw True by (simp add: transcribe_window_def)
      have go: "follows_window (e_options E) (window_base_ms (t_run s)) (window_base_ms (t_run s'))" if "f = Go"
      proof -
        note tw = transcribe_window_aligned [OF assms(1,2,5)] assms(6)
        with that have "window_aligned pending valid (e_options E) stream s'" "window_base_ms (t_run s) < window_base_ms (t_run s')"
          by blast+
        with process_window_heard [OF assms(4) pw] len show ?thesis
          by (auto simp: follows_window_def window_aligned_def)
      qed
      have "pad_window (t_source_done s1) (t_buffer s1) = media_window (e_options E) stream (window_base_ms (t_run s))"
        using filled_window_is_media [OF assms(2,3) al1] al base by auto
      with process_window_heard [OF assms(4) pw] go w1 len show ?thesis
        by auto
    qed
  qed
qed

lemma transcribe_loop_heard:
  assumes "e_read E = read" "options_in_range (e_options E)" "0 < eo_window_seconds (e_options E)" "records_audio E heard"
    and "window_aligned pending valid (e_options E) stream s" "heard_so_far (e_options E) stream (heard (t_whisper s)) (window_base_ms (t_run s))"
    and "transcribe_loop fuel E s = Some (s', f)"
  shows "\<exists>bases. heard (t_whisper s') = map (media_window (e_options E) stream) bases \<and> successively (follows_window (e_options E)) bases \<and>
    (bases \<noteq> [] \<longrightarrow> hd bases = 0) \<and>
    (f = Break \<longrightarrow> length stream \<le> (if bases = [] then 0 else 16 * last bases + window_samples (e_options E)))"
  using assms(5-7)
proof (induction fuel arbitrary: s)
  case (Suc fuel)
  obtain s1 f1 where tw: "transcribe_window E s = (s1, f1)"
    by fastforce
  note th = transcribe_window_heard [OF assms(1-4) Suc.prems(1) tw]
  obtain bases where b: "heard (t_whisper s) = map (media_window (e_options E) stream) bases"
    "successively (follows_window (e_options E)) (bases @ [window_base_ms (t_run s)])" "hd (bases @ [window_base_ms (t_run s)]) = 0"
    using Suc.prems(2) by (auto simp: heard_so_far_def)
  show ?case
  proof (cases "f1 = Go")
    case True
    with th have go: "heard (t_whisper s1) = map (media_window (e_options E) stream) (bases @ [window_base_ms (t_run s)])"
      "follows_window (e_options E) (window_base_ms (t_run s)) (window_base_ms (t_run s1))"
      using b(1) by auto
    have "heard_so_far (e_options E) stream (heard (t_whisper s1)) (window_base_ms (t_run s1))"
      unfolding heard_so_far_def using go b(2,3)
      by (intro exI [of _ "bases @ [window_base_ms (t_run s)]"]) (auto simp: successively_append_iff hd_append)
    with Suc.IH [of s1] transcribe_window_aligned [OF assms(1,2) Suc.prems(1)] tw True Suc.prems(3) show ?thesis
      by simp
  next
    case False
    then have end_: "s' = s1" "f = f1"
      using Suc.prems(3) tw by (cases f1; simp)+
    from th show ?thesis
    proof (elim disjE conjE)
      assume same: "heard (t_whisper s1) = heard (t_whisper s)" "f1 = Break \<longrightarrow> length stream \<le> 16 * window_base_ms (t_run s)"
      have "16 * window_base_ms (t_run s) \<le> (if bases = [] then 0 else 16 * last bases + window_samples (e_options E))"
        using b(2,3) by (auto simp: successively_append_iff follows_window_def)
      with same b end_ show ?thesis
        by (intro exI [of _ bases]) (auto simp: successively_append_iff hd_append)
    next
      assume "heard (t_whisper s1) = heard (t_whisper s) @ [media_window (e_options E) stream (window_base_ms (t_run s))]"
        "f1 = Break \<longrightarrow> length stream \<le> 16 * window_base_ms (t_run s) + window_samples (e_options E)"
      with b end_ show ?thesis
        by (intro exI [of _ "bases @ [window_base_ms (t_run s)]"]) (simp del: hd_append)
    qed
  qed
qed simp

end

text \<open>C36: what whisper hears. However a run ends, the buffers handed to whisper are the windows of the
  media at the starts \<open>bases\<close>: from a start that is a whole millisecond, 16 samples for each, one
  window of the media sample for sample, or what is left of it, and zeros only to fill a last sliver
  up to one second. The first window starts at 0, each further one strictly after its predecessor and
  not after the end of it, so no sample lies between two windows; and when the run was neither
  aborted nor ended by an exception the last window reaches the end of the media, so all of it has
  been heard. The decoder is arbitrary; that its state records the buffers is only how the
  statement reads them.\<close>

theorem transcriber_windows_aligned:
  assumes "pcm_source (e_read E) pending valid" "valid r" "options_in_range (e_options E)" "0 < eo_window_seconds (e_options E)"
    and "records_audio E heard" "heard w = []" "transcriber_run fuel E r c w = Some (s, res)"
  shows "\<exists>bases. heard (t_whisper s) = map (media_window (e_options E) (pending r)) bases \<and>
    successively (follows_window (e_options E)) bases \<and> (bases \<noteq> [] \<longrightarrow> hd bases = 0) \<and>
    (\<forall>result. res = Inr result \<and> \<not> er_aborted result \<longrightarrow>
       length (pending r) \<le> (if bases = [] then 0 else 16 * last bases + window_samples (e_options E)))"
proof -
  obtain s' f where tl': "transcribe_loop fuel E (transcription_new r c w) = Some (s', f)"
    using assms(7) by (auto simp: transcriber_run_def)
  with assms(7) have tl: "transcribe_loop fuel E (transcription_new r c w) = Some (s, f)"
    and res: "f = Returned \<longrightarrow> res = Inr (t_result s)" "\<forall>e. f = Threw e \<longrightarrow> res = Inl e"
    by (cases f; simp add: transcriber_run_def)+

  have not_go: "f \<noteq> Go"
    using tl transcribe_loop_not_go by blast
  have "heard_so_far (e_options E) (pending r) (heard (t_whisper (transcription_new r c w))) (window_base_ms (t_run (transcription_new r c w)))"
    using assms(6) by (simp add: heard_so_far_def transcription_new_def)
  from pcm_source.transcribe_loop_heard [OF assms(1) refl assms(3-5) pcm_source.window_aligned_new [OF assms(1,2)] this tl]
  obtain bases where bases: "heard (t_whisper s) = map (media_window (e_options E) (pending r)) bases"
    "successively (follows_window (e_options E)) bases" "bases \<noteq> [] \<longrightarrow> hd bases = 0"
    "f = Break \<longrightarrow> length (pending r) \<le> (if bases = [] then 0 else 16 * last bases + window_samples (e_options E))"
    by blast
  have "f = Break" if "res = Inr result" "\<not> er_aborted result" for result
    using that res not_go transcribe_loop_returned [of fuel E] tl by (cases f) auto
  with bases show ?thesis
    by blast
qed

context segment_sink
begin

lemma transcriber_run_books:
  assumes "e_sink E = sink" "log c = []" "\<And>w p b. run_sized (e_whisper_full E w p b)"
    and "transcriber_run fuel E r c w = Some (s, res)"
  shows "log_ok (eo_diarize (e_options E)) 0 0 (log (t_sink s)) \<and>
    (\<forall>result. res = Inr result \<longrightarrow>
       er_final_segments result = u32 (n_finals (log (t_sink s))) \<and>
       er_tokens result = u64 (n_tokens (log (t_sink s))))"
proof -
  have lb: "loop_books E (transcription_new r c w)"
    by (simp add: loop_books_def books_ok_def result_ok_def transcription_new_def assms(2))
  obtain s' f where tl: "transcribe_loop fuel E (transcription_new r c w) = Some (s', f)"
    using assms(4) by (auto simp: transcriber_run_def)
  with assms(4) have "s' = s"
    by (cases f) (auto simp: transcriber_run_def)
  with tl have "transcribe_loop fuel E (transcription_new r c w) = Some (s, f)"
    by simp
  from transcribe_loop_books [OF assms(1) assms(3) lb this]
  have fb: "log_ok (eo_diarize (e_options E)) 0 0 (log (t_sink s)) \<and> result_ok (t_result s) (log (t_sink s))"
    by (simp add: final_books_def)
  with assms(4) tl \<open>s' = s\<close> show ?thesis
    by (cases f) (auto simp: transcriber_run_def result_ok_def)
qed

end

text \<open>Finals are numbered 0, 1, 2 and so on across windows, a partial never carries the
  number of a segment that is already final, speaker labels continue across windows, and the
  trailer counts the finals and their tokens, whichever way the run ends.\<close>

theorem transcriber_numbering:
  assumes "segment_sink (e_sink E) log" "log c = []"
    and "\<And>w p b. run_sized (e_whisper_full E w p b)"
    and "transcriber_run fuel E r c w = Some (s, res)"
  shows "log_ok (eo_diarize (e_options E)) 0 0 (log (t_sink s)) \<and>
    (\<forall>result. res = Inr result \<longrightarrow>
       er_final_segments result = u32 (n_finals (log (t_sink s))) \<and>
       er_tokens result = u64 (n_tokens (log (t_sink s))))"
  using assms by (intro segment_sink.transcriber_run_books [OF assms(1) refl])

lemma demo_numerals:
  "u32 0 = 0" "u32 1 = 1" "u32 2 = 2" "u32 (Suc 0) = Suc 0" "to_string (Suc 0) = ''1''"
  "to_string (Suc (Suc 0)) = ''2''"
  by (simp_all add: u32_def to_string.simps char_of_def bit_0)

lemma demo_fill:
  "fill_window demo_engine (transcription_new [0, 0] [] ()) =
     ((transcription_new [] [] ())\<lparr>t_run := \<lparr>window_base_ms = 0, window_base_index = 0, window_base_speaker = 0, run_abort = False, run_polls = 2\<rparr>,
        t_buffer := [0, 0], t_consumed := 2, t_source_done := True\<rparr>, Go)"
  by (simp add: fill_window.simps demo_engine_def stopped_def transcription_new_def window_samples_def
      max_samples_def list_read_def Let_def)

lemmas demo_evals = demo_engine_def stopped_def transcription_new_def window_cut_of_def cut_window_def
  process_window_def decode_window_def finalize_window_def read_segment_def speaker_at_def
  note_language_def Let_def demo_numerals empty_word_def

lemma demo_window:
  "snd (transcribe_window demo_engine (transcription_new [0, 0] [] ())) = Break \<and>
   \<not> er_aborted (t_result (fst (transcribe_window demo_engine (transcription_new [0, 0] [] ())))) \<and>
   er_final_segments (t_result (fst (transcribe_window demo_engine (transcription_new [0, 0] [] ())))) = 2 \<and>
   map (\<lambda>(seg, fin). (seg_index seg, seg_speaker seg, fin))
     (t_sink (fst (transcribe_window demo_engine (transcription_new [0, 0] [] ()))))
   = [(0, ''S1'', True), (Suc 0, ''S2'', True)]"
proof -
  have "[0..<2] = [0, Suc 0]" by (simp add: upt_rec)
  then show ?thesis
    unfolding transcribe_window_def demo_fill by (simp add: demo_evals)
qed

lemma transcribe_loop_break:
  "transcribe_window E s = (s', Break) \<Longrightarrow> 0 < fuel \<Longrightarrow> transcribe_loop fuel E s = Some (s', Break)"
  by (cases fuel) auto

lemma demo_run:
  "\<exists>s result. transcriber_run 2001 demo_engine [0, 0] [] () = Some (s, Inr result) \<and>
     \<not> er_aborted result \<and> er_final_segments result = 2 \<and>
     map (\<lambda>(seg, fin). (seg_index seg, seg_speaker seg, fin)) (t_sink s) = [(0, ''S1'', True), (Suc 0, ''S2'', True)]"
  using demo_window
  by (cases "transcribe_window demo_engine (transcription_new [0, 0] [] ())")
    (simp add: transcriber_run_def transcribe_loop_break)

theorem transcriber_run_returns_witness:
  "\<exists>s result. transcriber_run 2001 demo_engine [0, 0] [] () = Some (s, Inr result) \<and>
     er_duration_ms result = length [0, 0 :: f32] div 16"
  using transcriber_run_returns [of demo_engine "\<lambda>xs. xs" "\<lambda>_. True" "[0, 0]" 2001 "[]" "()"] demo_run
    list_read_source
  by (auto simp: demo_engine_simps)

definition recording_engine :: "((engine_segment \<times> bool) list, f32 list, f32 list list, unit) engine" where
  "recording_engine =
     \<lparr>e_options = e_options demo_engine, e_read = list_read, e_sink = e_sink demo_engine, e_stop = (\<lambda>_. False),
      e_whisper_full = (\<lambda>windows _ buffer. Return 0 [] 0 (windows @ [buffer])),
      e_token_eot = 50257, e_lang_str = (\<lambda>_. ''en''),
      e_double_zero = (), e_double_add = (\<lambda>_ _. ()), e_double_mean = (\<lambda>_ _. 0)\<rparr>"

lemma recording_fill:
  "fill_window recording_engine (transcription_new [1, 2] [] []) =
     ((transcription_new [] [] [])\<lparr>t_run := \<lparr>window_base_ms = 0, window_base_index = 0, window_base_speaker = 0, run_abort = False, run_polls = 2\<rparr>,
        t_buffer := [1, 2], t_consumed := 2, t_source_done := True\<rparr>, Go)"
  by (simp add: fill_window.simps recording_engine_def demo_engine_def stopped_def transcription_new_def window_samples_def
      max_samples_def list_read_def Let_def)

lemma recording_run:
  "\<exists>s result. transcriber_run 2001 recording_engine [1, 2] [] [] = Some (s, Inr result) \<and> \<not> er_aborted result \<and>
     t_whisper s = [[1, 2] @ replicate 15998 0]"
proof -
  have "\<exists>s. transcribe_window recording_engine (transcription_new [1, 2] [] []) = (s, Break) \<and> \<not> er_aborted (t_result s) \<and>
    t_whisper s = [[1, 2] @ replicate 15998 0]"
    unfolding transcribe_window_def recording_fill by (simp add: demo_evals recording_engine_def pad_window_def)
  then show ?thesis
    by (auto simp: transcriber_run_def transcribe_loop_break)
qed

theorem transcriber_windows_aligned_witness:
  "\<exists>s result bases. transcriber_run 2001 recording_engine [1, 2] [] [] = Some (s, Inr result) \<and>
     t_whisper s = map (media_window (e_options recording_engine) [1, 2]) bases \<and> hd bases = 0 \<and>
     2 \<le> 16 * last bases + window_samples (e_options recording_engine)"
proof -
  obtain s result where run: "transcriber_run 2001 recording_engine [1, 2] [] [] = Some (s, Inr result)" "\<not> er_aborted result"
    "t_whisper s \<noteq> []"
    using recording_run by auto
  have E: "pcm_source (e_read recording_engine) (\<lambda>xs. xs) (\<lambda>_. True)" "options_in_range (e_options recording_engine)"
    "0 < eo_window_seconds (e_options recording_engine)" "records_audio recording_engine (\<lambda>ws. ws)"
    using list_read_source demo_engine_simps by (simp_all add: recording_engine_def records_audio_def)
  from transcriber_windows_aligned [OF E(1) _ E(2-4) refl run(1)] run show ?thesis
    by fastforce
qed

theorem transcriber_numbering_witness:
  "\<exists>s result. transcriber_run 2001 demo_engine [0, 0] [] () = Some (s, Inr result) \<and>
     log_ok True 0 0 (t_sink s) \<and> n_finals (t_sink s) = 2 \<and> er_final_segments result = 2"
proof -
  obtain s result where run: "transcriber_run 2001 demo_engine [0, 0] [] () = Some (s, Inr result)"
    "map (\<lambda>(seg, fin). (seg_index seg, seg_speaker seg, fin)) (t_sink s) = [(0, ''S1'', True), (Suc 0, ''S2'', True)]"
    "er_final_segments result = 2"
    using demo_run by (elim exE conjE) (rule that)
  have "segment_sink (e_sink demo_engine) (\<lambda>l. l)"
    by unfold_locales (simp add: demo_engine_simps)
  moreover have "run_sized (e_whisper_full demo_engine w p b)" for w p b
    by (simp add: demo_engine_def)
  ultimately have "log_ok True 0 0 (t_sink s)"
    using transcriber_numbering [of demo_engine "\<lambda>l. l" "[]", OF _ refl _ run(1)]
    by (simp add: demo_engine_simps)
  moreover have "n_finals (t_sink s) = 2"
    using run(2) by (auto simp: n_finals_def map_eq_Cons_conv)
  ultimately show ?thesis
    using run by auto
qed

end
