(* ===== verification/Sniff.thy ===== *)
theory Sniff
  imports Prelude
begin

unbundle bit_operations_syntax

text \<open>
  Container detection from magic bytes (src/src/media/sniff.h, sniff.cpp): the families, the
  decision which decoder serves a family, and the names derived from it. Bytes are characters;
  a null \<open>data\<close> pointer is the empty input.
\<close>

datatype media_family = kUnknown | kWav | kMp3 | kFlac | kOgg | kMp4 | kMkv

text \<open>\<open>memcmp\<close> of the magic at an offset, guarded by the size.\<close>

definition starts_with :: "string \<Rightarrow> string \<Rightarrow> nat \<Rightarrow> bool" where
  "starts_with data magic offset \<longleftrightarrow>
     length data \<ge> offset + length magic \<and> take (length magic) (drop offset data) = magic"

fun decodes_in_process :: "media_family \<Rightarrow> bool" where
  "decodes_in_process kWav = True"
| "decodes_in_process kMp3 = True"
| "decodes_in_process kFlac = True"
| "decodes_in_process _ = False"

definition demuxes_with_ffmpeg :: "media_family \<Rightarrow> bool" where
  "demuxes_with_ffmpeg family \<longleftrightarrow> family = kOgg \<or> family = kMp4 \<or> family = kMkv"

definition byte_at :: "string \<Rightarrow> nat \<Rightarrow> 8 word" where
  "byte_at data i = of_char (data ! i)"

definition sniff :: "string \<Rightarrow> media_family" where
  "sniff data =
     (if length data < 4 then kUnknown
      else if starts_with data ''RIFF'' 0 \<and> starts_with data ''WAVE'' 8 then kWav
      else if starts_with data ''fLaC'' 0 then kFlac
      else if starts_with data ''OggS'' 0 then kOgg
      else if starts_with data ''ftyp'' 4 then kMp4
      else if length data \<ge> 4 \<and> byte_at data 0 = 0x1A \<and> byte_at data 1 = 0x45 \<and>
              byte_at data 2 = 0xDF \<and> byte_at data 3 = 0xA3 then kMkv
      else if starts_with data ''ID3'' 0 then kMp3
      else if length data \<ge> 2 \<and> byte_at data 0 = 0xFF \<and> byte_at data 1 AND 0xE0 = 0xE0 \<and>
              byte_at data 1 AND 0x18 \<noteq> 0x08 \<and> byte_at data 1 AND 0x06 \<noteq> 0 then kMp3
      else kUnknown)"

fun family_name :: "media_family \<Rightarrow> string" where
  "family_name kWav = ''wav''"
| "family_name kMp3 = ''mp3''"
| "family_name kFlac = ''flac''"
| "family_name kOgg = ''ogg''"
| "family_name kMp4 = ''mp4''"
| "family_name kMkv = ''mkv''"
| "family_name kUnknown = ''unknown''"

fun family_mimetype :: "media_family \<Rightarrow> string" where
  "family_mimetype kWav = ''audio/wav''"
| "family_mimetype kMp3 = ''audio/mpeg''"
| "family_mimetype kFlac = ''audio/flac''"
| "family_mimetype kOgg = ''audio/ogg''"
| "family_mimetype kMp4 = ''video/mp4''"
| "family_mimetype kMkv = ''video/x-matroska''"
| "family_mimetype kUnknown = ''application/octet-stream''"

lemma starts_with_take:
  "offset + length magic \<le> n \<Longrightarrow> starts_with (take n data) magic offset = starts_with data magic offset"
  by (auto simp: starts_with_def drop_take min_def)

lemma byte_at_take: "i < n \<Longrightarrow> byte_at (take n data) i = byte_at data i"
  by (simp add: byte_at_def)

text \<open>
  A bare MPEG audio frame, as ISO 11172-3 numbers it: eleven sync bits, a version other than
  the reserved 01 and a layer other than the reserved 00.
\<close>

definition mpeg_frame_header :: "8 word \<Rightarrow> 8 word \<Rightarrow> bool" where
  "mpeg_frame_header b0 b1 \<longleftrightarrow>
     unat b0 = 255 \<and> unat b1 div 32 = 7 \<and> unat b1 div 8 mod 4 \<noteq> 1 \<and> unat b1 div 2 mod 4 \<noteq> 0"

lemma mask_tests:
  fixes b :: "8 word"
  shows "b AND 0xE0 = 0xE0 \<longleftrightarrow> unat b div 32 = 7"
    "b AND 0x18 \<noteq> 0x08 \<longleftrightarrow> unat b div 8 mod 4 \<noteq> 1"
    "b AND 0x06 \<noteq> 0 \<longleftrightarrow> unat b div 2 mod 4 \<noteq> 0"
proof -
  have all: "\<forall>n \<in> set [0..<256].
      (((word_of_nat n :: 8 word) AND 0xE0 = 0xE0) = (n div 32 = 7)) \<and>
      (((word_of_nat n :: 8 word) AND 0x18 \<noteq> 0x08) = (n div 8 mod 4 \<noteq> 1)) \<and>
      (((word_of_nat n :: 8 word) AND 0x06 \<noteq> 0) = (n div 2 mod 4 \<noteq> 0))"
    by code_simp
  have "unat b < 2 ^ LENGTH(8)"
    by (rule unsigned_less)
  then have b: "unat b \<in> set [0..<256]" "word_of_nat (unat b) = b"
    by simp_all
  note f = bspec [OF all b(1), unfolded b(2)]
  from f show "b AND 0xE0 = 0xE0 \<longleftrightarrow> unat b div 32 = 7" by (rule conjunct1)
  from f show "b AND 0x18 \<noteq> 0x08 \<longleftrightarrow> unat b div 8 mod 4 \<noteq> 1" by (elim conjE)
  from f show "b AND 0x06 \<noteq> 0 \<longleftrightarrow> unat b div 2 mod 4 \<noteq> 0" by (elim conjE)
qed

text \<open>The container is decided by the first sixteen bytes alone, so sniffing the prefix
  that has arrived gives the family of the whole upload; every family but the unknown one is
  served by exactly one of the two decoders.\<close>

theorem sniff_prefix_decides:
  assumes "16 \<le> n"
  shows "sniff (take n data) = sniff data \<and>
    (sniff data \<noteq> kUnknown \<longleftrightarrow> decodes_in_process (sniff data) \<noteq> demuxes_with_ffmpeg (sniff data))"
proof
  have len: "length (take n data) < 4 \<longleftrightarrow> length data < 4" "length (take n data) \<ge> 2 \<longleftrightarrow> length data \<ge> 2"
    "length (take n data) \<ge> 4 \<longleftrightarrow> length data \<ge> 4"
    using assms by auto
  show "sniff (take n data) = sniff data"
    unfolding sniff_def len using assms by (simp add: starts_with_take byte_at_take)
  show "sniff data \<noteq> kUnknown \<longleftrightarrow> decodes_in_process (sniff data) \<noteq> demuxes_with_ffmpeg (sniff data)"
    by (cases "sniff data") (simp_all add: demuxes_with_ffmpeg_def)
qed

theorem sniff_prefix_decides_witness:
  "sniff (take 16 (''fLaC'' @ replicate 20 CHR ''x'')) = kFlac"
  using sniff_prefix_decides [of 16 "''fLaC'' @ replicate 20 CHR ''x''"]
  by (simp add: sniff_def starts_with_def)

lemma starts_with_head: "starts_with data (c # cs) 0 \<Longrightarrow> byte_at data 0 = of_char c"
  by (cases data) (auto simp: starts_with_def byte_at_def)

lemma sync_byte_no_tag:
  assumes "byte_at data 0 = 0xFF"
  shows "\<not> starts_with data ''RIFF'' 0" "\<not> starts_with data ''fLaC'' 0" "\<not> starts_with data ''OggS'' 0"
proof -
  have "(of_char CHR ''R'' :: 8 word) \<noteq> 0xFF" "(of_char CHR ''f'' :: 8 word) \<noteq> 0xFF"
    "(of_char CHR ''O'' :: 8 word) \<noteq> 0xFF"
    by code_simp+
  with assms show "\<not> starts_with data ''RIFF'' 0" "\<not> starts_with data ''fLaC'' 0"
    "\<not> starts_with data ''OggS'' 0"
    using starts_with_head by metis+
qed

text \<open>A stream without an ID3 tag is taken for MP3 exactly when it is not ISO media and
  its first two bytes are the header of an MPEG audio frame; in particular ADTS AAC (layer 00)
  is not.\<close>

theorem sniff_bare_mp3:
  assumes "4 \<le> length data" "\<not> starts_with data ''ID3'' 0"
  shows "sniff data = kMp3 \<longleftrightarrow>
    \<not> starts_with data ''ftyp'' 4 \<and> mpeg_frame_header (byte_at data 0) (byte_at data 1)"
proof -
  have ff: "byte_at data 0 = 0xFF \<longleftrightarrow> unat (byte_at data 0) = 255"
    by (simp add: word_unat_eq_iff)
  show ?thesis
  proof (cases "byte_at data 0 = 0xFF")
    case True
    with assms show ?thesis
      using sync_byte_no_tag [OF True]
      by (simp add: sniff_def mpeg_frame_header_def mask_tests)
  next
    case False
    with assms ff show ?thesis
      by (simp add: sniff_def mpeg_frame_header_def)
  qed
qed

theorem sniff_bare_mp3_witness:
  "sniff [CHR 0xFF, CHR 0xFB, CHR ''a'', CHR ''b''] = kMp3 \<and>
   sniff [CHR 0xFF, CHR 0xF1, CHR ''a'', CHR ''b''] \<noteq> kMp3"
proof -
  have "mpeg_frame_header (byte_at [CHR 0xFF, CHR 0xFB, CHR ''a'', CHR ''b''] 0)
          (byte_at [CHR 0xFF, CHR 0xFB, CHR ''a'', CHR ''b''] 1)"
    "\<not> mpeg_frame_header (byte_at [CHR 0xFF, CHR 0xF1, CHR ''a'', CHR ''b''] 0)
          (byte_at [CHR 0xFF, CHR 0xF1, CHR ''a'', CHR ''b''] 1)"
    by code_simp+
  with sniff_bare_mp3 [of "[CHR 0xFF, CHR 0xFB, CHR ''a'', CHR ''b'']"]
    sniff_bare_mp3 [of "[CHR 0xFF, CHR 0xF1, CHR ''a'', CHR ''b'']"] show ?thesis
    by (simp add: starts_with_def)
qed

end
