(* ===== verification/Byte_Stream.thy ===== *)
theory Byte_Stream
  imports Prelude "HOL-Library.Sublist"
begin

text \<open>
  The buffer between the upload thread and the decode thread (src/src/media/byte_stream.h),
  and the cursor through which miniaudio reads it (\<open>stream_read\<close>, \<open>stream_seek\<close> of
  src/src/media/audio_decoder.cpp). Every member function holds the mutex, so it is one
  atomic step; a blocking call is enabled when the predicate of its wait holds and is
  \<open>None\<close> while it is not. The upload thread's steps may come between any two steps of the
  reader; the condition variable that parks and wakes it is a step relation of its own.
\<close>

section \<open>The stream\<close>

record byte_stream =
  bs_bytes :: string
  bs_complete :: bool
  bs_aborted :: bool

definition byte_stream_new :: byte_stream where
  "byte_stream_new = \<lparr>bs_bytes = [], bs_complete = False, bs_aborted = False\<rparr>"

definition bs_append :: "string \<Rightarrow> byte_stream \<Rightarrow> byte_stream" where
  "bs_append data s = s\<lparr>bs_bytes := bs_bytes s @ data\<rparr>"

definition bs_finish :: "byte_stream \<Rightarrow> byte_stream" where
  "bs_finish s = s\<lparr>bs_complete := True\<rparr>"

definition bs_abort :: "byte_stream \<Rightarrow> byte_stream" where
  "bs_abort s = s\<lparr>bs_aborted := True\<rparr>"

definition read_at :: "byte_stream \<Rightarrow> nat \<Rightarrow> nat \<Rightarrow> string option" where
  "read_at s offset sz =
     (if bs_aborted s \<or> bs_complete s \<or> length (bs_bytes s) > offset
      then Some (if bs_aborted s \<or> offset \<ge> length (bs_bytes s) then []
                 else let available = length (bs_bytes s) - offset;
                          count = (if sz < available then sz else available)
                      in take count (drop offset (bs_bytes s)))
      else None)"

definition wait_for_prefix :: "byte_stream \<Rightarrow> nat \<Rightarrow> nat option" where
  "wait_for_prefix s sz =
     (if bs_aborted s \<or> bs_complete s \<or> length (bs_bytes s) \<ge> sz
      then Some (if length (bs_bytes s) < sz then length (bs_bytes s) else sz) else None)"

definition wait_complete :: "byte_stream \<Rightarrow> unit option" where
  "wait_complete s = (if bs_complete s \<or> bs_aborted s then Some () else None)"

definition bs_size :: "byte_stream \<Rightarrow> nat" where
  "bs_size s = length (bs_bytes s)"

text \<open>The upload thread's steps.\<close>

datatype upload = Append string | Complete | Abort

fun upload_step :: "upload \<Rightarrow> byte_stream \<Rightarrow> byte_stream" where
  "upload_step (Append data) s = bs_append data s"
| "upload_step Complete s = bs_finish s"
| "upload_step Abort s = bs_abort s"

lemmas byte_stream_defs = bs_append_def bs_finish_def bs_abort_def read_at_def wait_for_prefix_def
  wait_complete_def bs_size_def Let_def

section \<open>The reader's cursor\<close>

datatype ma_result = MA_SUCCESS | MA_AT_END | MA_ERROR | MA_OTHER int

datatype ma_seek_origin = ma_seek_origin_start | ma_seek_origin_current | ma_seek_origin_end

text \<open>\<open>int64_t\<close> arithmetic on the cursor, cast back to unsigned.\<close>

definition s64_of :: "nat \<Rightarrow> int" where
  "s64_of n = (if n < 2 ^ 63 then int n else int n - 2 ^ 64)"

definition stream_seek :: "byte_stream \<Rightarrow> nat \<Rightarrow> int \<Rightarrow> ma_seek_origin \<Rightarrow> nat \<times> ma_result" where
  "stream_seek s position offset origin =
     (case origin of
        ma_seek_origin_start \<Rightarrow> (u64_of_int offset, MA_SUCCESS)
      | ma_seek_origin_current \<Rightarrow> (u64_of_int (s64_of position + offset), MA_SUCCESS)
      | ma_seek_origin_end \<Rightarrow>
          if \<not> bs_complete s then (position, MA_ERROR)
          else (u64_of_int (s64_of (bs_size s) + offset), MA_SUCCESS))"

text \<open>
  \<open>stream_read\<close> from a cursor, for \<open>n\<close> bytes that are still wanted: the bytes it delivers,
  the stream as it then is and the cursor it leaves. The upload may advance while it waits
  or between two calls of \<open>read_at\<close>.
\<close>

inductive stream_read :: "byte_stream \<Rightarrow> nat \<Rightarrow> nat \<Rightarrow> string \<Rightarrow> byte_stream \<Rightarrow> nat \<Rightarrow> bool" where
  full: "stream_read s position 0 [] s position"
| upload: "0 < n \<Longrightarrow> stream_read (upload_step e s) position n out s' position' \<Longrightarrow>
    stream_read s position n out s' position'"
| short: "0 < n \<Longrightarrow> read_at s position n = Some [] \<Longrightarrow> stream_read s position n [] s position"
| got: "0 < n \<Longrightarrow> read_at s position n = Some got \<Longrightarrow> got \<noteq> [] \<Longrightarrow>
    stream_read s (position + length got) (n - length got) out s' position' \<Longrightarrow>
    stream_read s position n (got @ out) s' position'"

definition stream_read_result :: "string \<Rightarrow> ma_result" where
  "stream_read_result out = (if out = [] then MA_AT_END else MA_SUCCESS)"

section \<open>Two threads and a condition variable\<close>

text \<open>
  The waits of the consumer, with the lock and the condition variable \<open>grew_\<close> made explicit. A task
  is a blocking call, or the loop of \<open>stream_read\<close> with its cursor, the bytes still wanted and the
  bytes it has; one step of it evaluates the predicate of the wait under the mutex and, when that
  holds, runs to the end of the critical section. When it does not hold the consumer parks, and only
  \<open>notify_all\<close> or a spurious wake-up lets it test the predicate again. Each producer call is two
  steps, the change under the mutex and the notification after it, and the consumer may run in between.
\<close>

datatype wait_task = Task_read nat nat string | Task_prefix nat | Task_complete

datatype wait_result = Got_bytes string nat | Got_prefix nat | Got_complete

fun task_step :: "byte_stream \<Rightarrow> wait_task \<Rightarrow> (wait_task + wait_result) option" where
  "task_step s (Task_read position n out) =
     (if n = 0 then Some (Inr (Got_bytes out position))
      else case read_at s position n of
          None \<Rightarrow> None
        | Some got \<Rightarrow> Some (if got = [] then Inr (Got_bytes out position)
            else Inl (Task_read (position + length got) (n - length got) (out @ got))))"
| "task_step s (Task_prefix k) = map_option (\<lambda>m. Inr (Got_prefix m)) (wait_for_prefix s k)"
| "task_step s Task_complete = map_option (\<lambda>_. Inr Got_complete) (wait_complete s)"

datatype consumer = Running wait_task | Parked wait_task | Returned wait_result

fun notify_all :: "consumer \<Rightarrow> consumer" where
  "notify_all (Parked t) = Running t"
| "notify_all c = c"

text \<open>\<open>uw_wakes\<close> is the number of spurious wake-ups still to come.\<close>

record upload_world =
  uw_stream :: byte_stream
  uw_uploads :: "upload list"
  uw_notify :: bool
  uw_wakes :: nat
  uw_consumer :: consumer

definition upload_world_new :: "upload list \<Rightarrow> nat \<Rightarrow> wait_task \<Rightarrow> upload_world" where
  "upload_world_new ups wakes t = \<lparr>uw_stream = byte_stream_new, uw_uploads = ups, uw_notify = False, uw_wakes = wakes, uw_consumer = Running t\<rparr>"

inductive upload_world_step :: "upload_world \<Rightarrow> upload_world \<Rightarrow> bool" where
  produce: "\<not> uw_notify w \<Longrightarrow> uw_uploads w = u # us \<Longrightarrow>
    upload_world_step w (w\<lparr>uw_stream := upload_step u (uw_stream w), uw_uploads := us, uw_notify := True\<rparr>)"
| notify: "uw_notify w \<Longrightarrow> upload_world_step w (w\<lparr>uw_notify := False, uw_consumer := notify_all (uw_consumer w)\<rparr>)"
| park: "uw_consumer w = Running t \<Longrightarrow> task_step (uw_stream w) t = None \<Longrightarrow> upload_world_step w (w\<lparr>uw_consumer := Parked t\<rparr>)"
| proceed: "uw_consumer w = Running t \<Longrightarrow> task_step (uw_stream w) t = Some (Inl t') \<Longrightarrow> upload_world_step w (w\<lparr>uw_consumer := Running t'\<rparr>)"
| return: "uw_consumer w = Running t \<Longrightarrow> task_step (uw_stream w) t = Some (Inr r) \<Longrightarrow> upload_world_step w (w\<lparr>uw_consumer := Returned r\<rparr>)"
| spurious: "uw_consumer w = Parked t \<Longrightarrow> uw_wakes w = Suc n \<Longrightarrow> upload_world_step w (w\<lparr>uw_wakes := n, uw_consumer := Running t\<rparr>)"

text \<open>What a task is to return when the whole upload is \<open>data\<close>, and when it was cut short.\<close>

fun expected :: "string \<Rightarrow> wait_task \<Rightarrow> wait_result" where
  "expected data (Task_read position n out) =
     (let bytes = take n (drop position data) in Got_bytes (out @ bytes) (position + length bytes))"
| "expected data (Task_prefix k) = Got_prefix (min k (length data))"
| "expected data Task_complete = Got_complete"

fun no_more_than :: "wait_result \<Rightarrow> wait_result \<Rightarrow> bool" where
  "no_more_than (Got_bytes out position) (Got_bytes out' position') \<longleftrightarrow>
     prefix out out' \<and> position + length out' = position' + length out"
| "no_more_than (Got_prefix m) (Got_prefix m') \<longleftrightarrow> m \<le> m'"
| "no_more_than Got_complete r \<longleftrightarrow> r = Got_complete"
| "no_more_than _ _ \<longleftrightarrow> False"

fun task_wanted :: "wait_task \<Rightarrow> nat" where
  "task_wanted (Task_read position n out) = n"
| "task_wanted _ = 0"

section \<open>Growth\<close>

text \<open>
  What a reader relies on: whatever the upload thread does, bytes that exist never change.
\<close>

interpretation upload: invariant_machine upload_step "\<lambda>s. prefix old (bs_bytes s)" for old
proof
  fix s :: byte_stream and e
  assume "prefix old (bs_bytes s)"
  then show "prefix old (bs_bytes (upload_step e s))"
    by (cases e) (auto simp: byte_stream_defs intro: prefix_order.trans)
qed

lemma read_at_some:
  assumes "read_at s position n = Some got"
  shows "got = take (length got) (drop position (bs_bytes s)) \<and> length got \<le> n \<and>
    (got = [] \<and> 0 < n \<longrightarrow> bs_aborted s \<or> (bs_complete s \<and> length (bs_bytes s) \<le> position))"
  using assms by (auto simp: read_at_def Let_def split: if_splits)

lemma stream_read_prefix:
  "stream_read s position n out s' position' \<Longrightarrow> prefix (bs_bytes s) (bs_bytes s')"
proof (induction rule: stream_read.induct)
  case (upload n e s position out s' position')
  have "prefix (bs_bytes s) (bs_bytes (upload_step e s))"
    by (rule upload.step_inv) simp
  then show ?case
    using upload.IH by (rule prefix_order.trans)
qed simp_all

lemma slice_prefix:
  assumes "prefix xs ys" "got = take (length got) (drop i xs)"
  shows "got = take (length got) (drop i ys)"
proof -
  have "length got \<le> length (drop i xs)"
    by (metis assms(2) length_take min.cobounded1)
  with assms show ?thesis
    by (auto simp: prefix_def)
qed

text \<open>Whatever the interleaving with the upload, a read of the decoder delivers the
  uploaded bytes at its cursor, in order, with none lost or repeated, and moves the cursor by
  their number; it delivers fewer than asked only at the end of a completed upload or after
  an abort, never because the upload is merely behind.\<close>

theorem stream_read_exact:
  assumes "stream_read s position n out s' position'"
  shows "out = take (length out) (drop position (bs_bytes s')) \<and> position' = position + length out \<and>
    length out \<le> n \<and>
    (length out < n \<longrightarrow> bs_aborted s' \<or> (bs_complete s' \<and> length (bs_bytes s') \<le> position'))"
  using assms
proof induction
  case (short n s position)
  then show ?case
    using read_at_some [OF short(2)] by auto
next
  case (got n s position got out s' position')
  note r = read_at_some [OF got(2)]
  have g: "got = take (length got) (drop position (bs_bytes s'))"
    by (rule slice_prefix [OF stream_read_prefix [OF got(4)]]) (use r in blast)
  have "take (length (got @ out)) (drop position (bs_bytes s')) =
    take (length got) (drop position (bs_bytes s')) @ take (length out) (drop (position + length got) (bs_bytes s'))"
    by (simp add: take_add add.commute)
  with g got.IH have slice: "got @ out = take (length (got @ out)) (drop position (bs_bytes s'))"
    by metis
  have pos: "position' = position + length (got @ out)" "length (got @ out) \<le> n"
    using got.IH r by auto
  have "length (got @ out) < n \<Longrightarrow> length out < n - length got"
    by simp
  with got.IH have "length (got @ out) < n \<longrightarrow>
      bs_aborted s' \<or> (bs_complete s' \<and> length (bs_bytes s') \<le> position')"
    by blast
  with slice pos show ?case
    by blast
qed auto

theorem stream_read_exact_witness:
  "stream_read (bs_append ''abc'' byte_stream_new) 1 4 ''bcd'' (bs_finish (bs_append ''d'' (bs_append ''abc'' byte_stream_new))) 4 \<and>
   ''bcd'' = take 3 (drop 1 ''abcd'')"
proof -
  let ?s = "bs_append ''abc'' byte_stream_new"
  let ?e = "bs_finish (bs_append ''d'' ?s)"
  have reads: "read_at ?e 4 1 = Some []" "read_at ?e 3 2 = Some ''d''" "read_at ?s 1 4 = Some ''bc''"
    by (simp_all add: byte_stream_defs byte_stream_new_def)
  have "stream_read ?e 4 1 [] ?e 4"
    by (rule stream_read.short [OF _ reads(1)]) simp
  then have "stream_read ?e 3 2 (''d'' @ []) ?e 4"
    by (intro stream_read.got [OF _ reads(2)]) simp_all
  then have "stream_read (upload_step (Append ''d'') ?s) 3 2 ''d'' ?e 4"
    using stream_read.upload [of 2 Complete "upload_step (Append ''d'') ?s"] by simp
  then have "stream_read ?s 3 2 ''d'' ?e 4"
    using stream_read.upload [of 2 "Append ''d''" ?s] by simp
  then have "stream_read ?s 1 4 (''bc'' @ ''d'') ?e 4"
    by (intro stream_read.got [OF _ reads(3)]) (simp_all add: numeral_3_eq_3 numeral_2_eq_2)
  then have rd: "stream_read ?s 1 4 ''bcd'' ?e 4"
    by simp
  have "''bcd'' = take (length ''bcd'') (drop 1 (bs_bytes ?e))"
    using stream_read_exact [OF rd] by (rule conjunct1)
  with rd show ?thesis
    by simp
qed

section \<open>No lost wake-up\<close>

lemma task_step_progress:
  assumes "task_step s t = Some (Inl t')" "prefix (bs_bytes s) data"
  shows "expected data t' = expected data t \<and> task_wanted t' < task_wanted t"
proof -
  obtain position n out got where t: "t = Task_read position n out" "0 < n" "read_at s position n = Some got" "got \<noteq> []"
    "t' = Task_read (position + length got) (n - length got) (out @ got)"
    using assms(1) by (cases t) (auto split: if_splits option.splits)
  have got: "got = take (length got) (drop position data)" "length got \<le> n"
    using read_at_some [OF t(3)] slice_prefix [OF assms(2)] by blast+
  have "take n (drop position data) = take (length got) (drop position data) @ take (n - length got) (drop (position + length got) data)"
    using got(2) by (metis add.commute drop_drop le_add_diff_inverse take_add)
  then have "take n (drop position data) = got @ take (n - length got) (drop (position + length got) data)"
    using got(1) by simp
  moreover have "n - length got < n"
    using t(2,4) by simp
  ultimately show ?thesis
    by (simp add: t(1,5) Let_def)
qed

lemma task_step_result:
  assumes "task_step s t = Some (Inr r)" "prefix (bs_bytes s) data" "bs_complete s \<Longrightarrow> bs_bytes s = data"
  shows "no_more_than r (expected data t) \<and> (\<not> bs_aborted s \<longrightarrow> r = expected data t)"
proof (cases t)
  case (Task_read position n out)
  with assms have r: "r = Got_bytes out position"
    by (auto split: if_splits option.splits)
  have "take n (drop position data) = []" if "\<not> bs_aborted s"
  proof (cases "n = 0")
    case False
    then have "read_at s position n = Some []"
      using Task_read assms(1) by (auto split: option.splits if_splits)
    from read_at_some [OF this] that False assms(3) show ?thesis
      by auto
  qed simp
  with r Task_read show ?thesis
    by (auto simp: Let_def)
next
  case (Task_prefix k)
  moreover have "length (bs_bytes s) \<le> length data"
    using assms(2) by (rule prefix_length_le)
  ultimately show ?thesis
    using assms(1,3) by (auto simp: wait_for_prefix_def split: if_splits)
next
  case Task_complete
  with assms(1) show ?thesis
    by auto
qed

lemma task_step_waits: "task_step s t = None \<Longrightarrow> \<not> bs_complete s \<and> \<not> bs_aborted s"
  by (cases t) (auto simp: byte_stream_defs split: if_splits option.splits)

text \<open>
  The state of the two threads over an upload of \<open>data\<close> that ends with \<open>e\<close>. The line about parking
  is what the order of the two producer steps buys: a consumer that sleeps on a predicate that has
  become true has a notification coming.
\<close>

definition world_bytes :: "string \<Rightarrow> upload \<Rightarrow> upload_world \<Rightarrow> bool" where
  "world_bytes data e w \<longleftrightarrow>
     (if uw_uploads w = [] then bs_bytes (uw_stream w) = data \<and> bs_complete (uw_stream w) = (e = Complete) \<and> bs_aborted (uw_stream w) = (e = Abort)
      else \<not> bs_complete (uw_stream w) \<and> \<not> bs_aborted (uw_stream w) \<and>
        (\<exists>chunks. uw_uploads w = map Append chunks @ [e] \<and> data = bs_bytes (uw_stream w) @ concat chunks))"

definition world_consumer :: "string \<Rightarrow> upload \<Rightarrow> wait_task \<Rightarrow> upload_world \<Rightarrow> bool" where
  "world_consumer data e t0 w \<longleftrightarrow>
     (case uw_consumer w of
        Running t \<Rightarrow> expected data t = expected data t0
      | Parked t \<Rightarrow> expected data t = expected data t0 \<and> (task_step (uw_stream w) t = None \<or> uw_notify w)
      | Returned r \<Rightarrow> no_more_than r (expected data t0) \<and> (e = Complete \<longrightarrow> r = expected data t0))"

lemma world_bytes_stream:
  assumes "world_bytes data e w"
  shows "prefix (bs_bytes (uw_stream w)) data" "bs_complete (uw_stream w) \<Longrightarrow> bs_bytes (uw_stream w) = data"
    "bs_aborted (uw_stream w) \<Longrightarrow> e = Abort"
  using assms by (auto simp: world_bytes_def split: if_splits)

lemma world_bytes_produce:
  assumes "world_bytes data e w" "uw_uploads w = u # us" "e = Complete \<or> e = Abort"
  shows "world_bytes data e (w\<lparr>uw_stream := upload_step u (uw_stream w), uw_uploads := us, uw_notify := True\<rparr>)"
proof -
  obtain chunks where c: "u # us = map Append chunks @ [e]" "data = bs_bytes (uw_stream w) @ concat chunks"
    "\<not> bs_complete (uw_stream w)" "\<not> bs_aborted (uw_stream w)"
    using assms(1,2) by (auto simp: world_bytes_def)
  with assms(3) show ?thesis
    by (cases chunks) (auto simp: world_bytes_def byte_stream_defs)
qed

lemma upload_world_step_inv:
  assumes "upload_world_step w w'" "world_bytes data e w" "world_consumer data e t0 w" "e = Complete \<or> e = Abort"
  shows "world_bytes data e w' \<and> world_consumer data e t0 w'"
  using assms(1)
proof cases
  case (produce u us)
  with world_bytes_produce [OF assms(2) _ assms(4)] assms(3) show ?thesis
    by (auto simp: world_consumer_def split: consumer.splits)
next
  case notify
  with assms(2,3) show ?thesis
    by (cases "uw_consumer w") (auto simp: world_bytes_def world_consumer_def)
next
  case (proceed t t')
  with assms(2,3) task_step_progress [OF proceed(3) world_bytes_stream(1) [OF assms(2)]] show ?thesis
    by (simp add: world_bytes_def world_consumer_def)
next
  case (return t r)
  with assms(2,3) task_step_result [OF return(3) world_bytes_stream(1,2) [OF assms(2)]] world_bytes_stream(3) [OF assms(2)] show ?thesis
    by (auto simp: world_bytes_def world_consumer_def)
qed (use assms in \<open>auto simp: world_bytes_def world_consumer_def\<close>)

text \<open>Every step uses up some of what is left to do.\<close>

definition world_work :: "upload_world \<Rightarrow> nat" where
  "world_work w = 6 * length (uw_uploads w) + (if uw_notify w then 3 else 0) + 2 * uw_wakes w +
     (case uw_consumer w of Running t \<Rightarrow> 2 * task_wanted t + 2 | Parked t \<Rightarrow> 2 * task_wanted t + 1 | Returned r \<Rightarrow> 0)"

lemma upload_world_step_work:
  assumes "upload_world_step w w'" "world_bytes data e w"
  shows "world_work w' < world_work w"
  using assms(1)
proof cases
  case (proceed t t')
  with task_step_progress [OF proceed(3) world_bytes_stream(1) [OF assms(2)]] show ?thesis
    by (simp add: world_work_def)
next
  case notify
  then show ?thesis
    by (cases "uw_consumer w") (simp_all add: world_work_def)
qed (simp_all add: world_work_def)

lemma upload_world_run:
  "(upload_world_step ^^ k) w w' \<Longrightarrow> world_bytes data e w \<Longrightarrow> world_consumer data e t0 w \<Longrightarrow> e = Complete \<or> e = Abort \<Longrightarrow>
   world_bytes data e w' \<and> world_consumer data e t0 w' \<and> k + world_work w' \<le> world_work w"
proof (induction k arbitrary: w')
  case (Suc k)
  then obtain v where v: "(upload_world_step ^^ k) w v" "upload_world_step v w'"
    by auto
  from Suc.IH [OF v(1) Suc.prems(2-4)] have "world_bytes data e v" "world_consumer data e t0 v" "k + world_work v \<le> world_work w"
    by simp_all
  with upload_world_step_inv [OF v(2)] upload_world_step_work [OF v(2)] Suc.prems(4) show ?case
    by fastforce
qed simp

lemma world_stuck:
  assumes "world_bytes data e w" "world_consumer data e t0 w" "e = Complete \<or> e = Abort" "\<nexists>w'. upload_world_step w w'"
  shows "\<exists>r. uw_consumer w = Returned r"
proof -
  have quiet: "uw_uploads w = []" "\<not> uw_notify w"
    using assms(4) upload_world_step.produce [of w] upload_world_step.notify [of w] by (metis neq_Nil_conv)+
  then have "bs_complete (uw_stream w) \<or> bs_aborted (uw_stream w)"
    using assms(1,3) by (auto simp: world_bytes_def)
  then have wakes: "task_step (uw_stream w) t \<noteq> None" for t
    using task_step_waits by blast
  have "uw_consumer w \<noteq> Running t" for t
    using assms(4) upload_world_step.proceed [of w t] upload_world_step.return [of w t] wakes [of t]
    by (metis not_None_eq old.sum.exhaust)
  moreover have "uw_consumer w \<noteq> Parked t" for t
    using assms(2) quiet(2) wakes [of t] by (auto simp: world_consumer_def)
  ultimately show ?thesis
    by (cases "uw_consumer w") auto
qed

text \<open>C38: no wake-up is lost and the consumer is never left waiting. Take an upload of any chunks that
  ends with \<open>complete()\<close> or \<open>abort()\<close>, and any interleaving of it with a consumer in \<open>stream_read\<close>,
  \<open>wait_for_prefix\<close> or \<open>wait_complete\<close>: every run is at most as long as the stated bound, and one that
  can go no further, spurious wake-ups apart, has the consumer returned, never parked. After
  \<open>complete()\<close> the result is exactly that of the whole upload (the bytes at the cursor, as many as
  were asked for or as there are; the size of the available prefix); after \<open>abort()\<close> it is at most a
  first part of that.\<close>

theorem byte_stream_no_deadlock:
  assumes "e = Complete \<or> e = Abort"
    and "(upload_world_step ^^ k) (upload_world_new (map Append chunks @ [e]) wakes t) w"
  shows "k \<le> 6 * length chunks + 2 * wakes + 2 * task_wanted t + 8 \<and>
    ((\<exists>w'. upload_world_step w w') \<or>
     (\<exists>r. uw_consumer w = Returned r \<and> no_more_than r (expected (concat chunks) t) \<and> (e = Complete \<longrightarrow> r = expected (concat chunks) t)))"
proof -
  let ?w = "upload_world_new (map Append chunks @ [e]) wakes t"
  have start: "world_bytes (concat chunks) e ?w" "world_consumer (concat chunks) e t ?w"
    "world_work ?w = 6 * length chunks + 2 * wakes + 2 * task_wanted t + 8"
    by (auto simp: world_bytes_def world_consumer_def world_work_def upload_world_new_def byte_stream_new_def)
  note run = upload_world_run [OF assms(2) start(1,2) assms(1)]
  show ?thesis
  proof (cases "\<exists>w'. upload_world_step w w'")
    case False
    with world_stuck run assms(1) obtain r where r: "uw_consumer w = Returned r"
      by blast
    with run start(3) show ?thesis
      by (simp add: world_consumer_def)
  qed (use run start(3) in simp)
qed

theorem byte_stream_no_deadlock_witness:
  "\<exists>w r. (upload_world_step ^^ 8) (upload_world_new (map Append [''ab''] @ [Complete]) 0 (Task_read 1 4 [])) w \<and>
     uw_consumer w = Returned r \<and> r = Got_bytes ''b'' 2"
proof -
  define w :: "nat \<Rightarrow> upload_world" where "w i = (let ab = bs_append ''ab'' byte_stream_new in
    [upload_world_new [Append ''ab'', Complete] 0 (Task_read 1 4 []),
     \<lparr>uw_stream = byte_stream_new, uw_uploads = [Append ''ab'', Complete], uw_notify = False, uw_wakes = 0, uw_consumer = Parked (Task_read 1 4 [])\<rparr>,
     \<lparr>uw_stream = ab, uw_uploads = [Complete], uw_notify = True, uw_wakes = 0, uw_consumer = Parked (Task_read 1 4 [])\<rparr>,
     \<lparr>uw_stream = ab, uw_uploads = [Complete], uw_notify = False, uw_wakes = 0, uw_consumer = Running (Task_read 1 4 [])\<rparr>,
     \<lparr>uw_stream = ab, uw_uploads = [Complete], uw_notify = False, uw_wakes = 0, uw_consumer = Running (Task_read 2 3 ''b'')\<rparr>,
     \<lparr>uw_stream = ab, uw_uploads = [Complete], uw_notify = False, uw_wakes = 0, uw_consumer = Parked (Task_read 2 3 ''b'')\<rparr>,
     \<lparr>uw_stream = bs_finish ab, uw_uploads = [], uw_notify = True, uw_wakes = 0, uw_consumer = Parked (Task_read 2 3 ''b'')\<rparr>,
     \<lparr>uw_stream = bs_finish ab, uw_uploads = [], uw_notify = False, uw_wakes = 0, uw_consumer = Running (Task_read 2 3 ''b'')\<rparr>,
     \<lparr>uw_stream = bs_finish ab, uw_uploads = [], uw_notify = False, uw_wakes = 0, uw_consumer = Returned (Got_bytes ''b'' 2)\<rparr>] ! i)" for i
  note evals = w_def upload_world_new_def byte_stream_new_def byte_stream_defs
  have "upload_world_step (w 0) (w 1)"
    using upload_world_step.park [of "w 0" "Task_read 1 4 []"] by (simp add: evals)
  moreover have "upload_world_step (w 1) (w 2)"
    using upload_world_step.produce [of "w 1" "Append ''ab''" "[Complete]"] by (simp add: evals)
  moreover have "upload_world_step (w 2) (w 3)"
    using upload_world_step.notify [of "w 2"] by (simp add: evals)
  moreover have "upload_world_step (w 3) (w 4)"
    using upload_world_step.proceed [of "w 3" "Task_read 1 4 []" "Task_read 2 3 ''b''"] by (simp add: evals)
  moreover have "upload_world_step (w 4) (w 5)"
    using upload_world_step.park [of "w 4" "Task_read 2 3 ''b''"] by (simp add: evals)
  moreover have "upload_world_step (w 5) (w 6)"
    using upload_world_step.produce [of "w 5" Complete "[]"] by (simp add: evals)
  moreover have "upload_world_step (w 6) (w 7)"
    using upload_world_step.notify [of "w 6"] by (simp add: evals)
  moreover have "upload_world_step (w 7) (w 8)"
    using upload_world_step.return [of "w 7" "Task_read 2 3 ''b''" "Got_bytes ''b'' 2"] by (simp add: evals)
  ultimately have run: "(upload_world_step ^^ 8) (w 0) (w 8)"
    by (force simp: eval_nat_numeral relcompp.simps)
  have "\<nexists>w'. upload_world_step (w 8) w'"
    by (auto simp: upload_world_step.simps evals)
  with byte_stream_no_deadlock [of Complete 8 "[''ab'']" 0 "Task_read 1 4 []" "w 8"] run show ?thesis
    by (intro exI [of _ "w 8"] exI [of _ "Got_bytes ''b'' 2"]) (simp add: w_def)
qed

end
