(* ===== verification/Audio_Decoder.thy ===== *)
theory Audio_Decoder
  imports Byte_Stream Transcriber
begin

text \<open>
  The in-process decoder (src/src/media/audio_decoder.h, audio_decoder.cpp) over miniaudio,
  whose calls are the fields of the parameter record below; the bytes it pulls come through
  \<open>stream_read\<close> and \<open>stream_seek\<close> of \<open>Byte_Stream\<close>.
\<close>

datatype ma_config = Native_format | Convert_f32 (ma_channels: nat) (ma_rate: nat)

record audio_info =
  ai_duration_ms :: nat
  ai_sample_rate_hz :: nat
  ai_channels :: nat

record 'd miniaudio =
  ma_decoder_init :: "ma_config \<Rightarrow> ma_result \<times> 'd"
  ma_get_data_format :: "'d \<Rightarrow> nat \<times> nat"
  ma_get_length :: "'d \<Rightarrow> ma_result \<times> nat"
  ma_read_pcm_frames :: "'d \<Rightarrow> nat \<Rightarrow> 'd \<times> ma_result \<times> f32 list"
  ma_result_description :: "ma_result \<Rightarrow> string"

text \<open>The constructor; \<open>complete\<close> is what \<open>stream.is_complete()\<close> answers it.\<close>

definition audio_decoder_new :: "'d miniaudio \<Rightarrow> bool \<Rightarrow> bool \<Rightarrow> exn + 'd \<times> audio_info" where
  "audio_decoder_new M header_declares_duration complete =
     (case ma_decoder_init M Native_format of (result, probe) \<Rightarrow>
        if result \<noteq> MA_SUCCESS
        then Inl (Decode_error (''cannot decode media: '' @ ma_result_description M result))
        else case ma_get_data_format M probe of (native_channels, native_rate) \<Rightarrow>
          case ma_decoder_init M (Convert_f32 1 kModelSampleRate) of (result2, decoder) \<Rightarrow>
            if result2 \<noteq> MA_SUCCESS
            then Inl (Decode_error (''cannot decode media: '' @ ma_result_description M result2))
            else Inr (decoder,
              \<lparr>ai_duration_ms =
                 (if header_declares_duration \<or> complete
                  then case ma_get_length M decoder of (result3, total_frames) \<Rightarrow>
                    (if result3 = MA_SUCCESS then u64 (total_frames * 1000) div kModelSampleRate else 0)
                  else 0),
               ai_sample_rate_hz = native_rate, ai_channels = native_channels\<rparr>))"

definition audio_decoder_read :: "'d miniaudio \<Rightarrow> 'd \<Rightarrow> nat \<Rightarrow> 'd \<times> (exn + f32 list)" where
  "audio_decoder_read M decoder want =
     (case ma_read_pcm_frames M decoder want of (decoder', result, frames) \<Rightarrow>
        if result \<noteq> MA_SUCCESS \<and> result \<noteq> MA_AT_END
        then (decoder', Inl (Decode_error (''decode failed mid-stream: '' @ ma_result_description M result)))
        else (decoder', Inr (fst (scrub_pcm frames))))"

lemma scrub_pcm_append: "fst (scrub_pcm (xs @ ys)) = fst (scrub_pcm xs) @ fst (scrub_pcm ys)"
  by (simp add: scrub_pcm_eq)

text \<open>
  What the code relies on of \<open>ma_decoder_read_pcm_frames\<close>: a successful call delivers the
  next frames, at most as many as asked, and none only at the end.
\<close>

definition miniaudio_reads :: "'d miniaudio \<Rightarrow> ('d \<Rightarrow> f32 list) \<Rightarrow> bool" where
  "miniaudio_reads M frames_left \<longleftrightarrow>
     (\<forall>d n d' result frames. ma_read_pcm_frames M d n = (d', result, frames) \<and>
        (result = MA_SUCCESS \<or> result = MA_AT_END) \<longrightarrow>
        frames_left d = frames @ frames_left d' \<and> length frames \<le> n \<and>
        (frames = [] \<and> 0 < n \<longrightarrow> frames_left d = []))"

lemma miniaudio_readsD:
  assumes "miniaudio_reads M left" "audio_decoder_read M d n = (d', Inr got)"
  obtains frames where "got = fst (scrub_pcm frames)" "left d = frames @ left d'" "length frames \<le> n"
    "frames = [] \<and> 0 < n \<longrightarrow> left d = []"
proof -
  obtain result frames where fr: "ma_read_pcm_frames M d n = (d', result, frames)"
    "result = MA_SUCCESS \<or> result = MA_AT_END" "got = fst (scrub_pcm frames)"
    using assms(2) by (auto simp: audio_decoder_read_def split: prod.splits if_splits)
  with assms(1) have "left d = frames @ left d' \<and> length frames \<le> n \<and> (frames = [] \<and> 0 < n \<longrightarrow> left d = [])"
    unfolding miniaudio_reads_def by blast
  with fr(3) show thesis
    by (intro that [of frames]) blast+
qed

lemma audio_decoder_source:
  assumes "miniaudio_reads M left"
  shows "pcm_source (audio_decoder_read M) (\<lambda>d. fst (scrub_pcm (left d))) (\<lambda>_. True)"
proof
  fix n r r' got
  assume "0 < (n :: nat)" "audio_decoder_read M r n = (r', Inr got)"
  then obtain frames where "got = fst (scrub_pcm frames)" "left r = frames @ left r'" "length frames \<le> n"
    using miniaudio_readsD [OF assms] by metis
  then show "fst (scrub_pcm (left r)) = got @ fst (scrub_pcm (left r'))" "length got \<le> n"
    by (simp_all add: scrub_pcm_append)
next
  fix n r r'
  assume "0 < (n :: nat)" "audio_decoder_read M r n = (r', Inr [])"
  then obtain frames where fr: "[] = fst (scrub_pcm frames)" "frames = [] \<and> 0 < n \<longrightarrow> left r = []"
    using miniaudio_readsD [OF assms] by metis
  have "length frames = length (fst (scrub_pcm frames))"
    by simp
  also have "\<dots> = 0"
    by (subst fr(1) [symmetric]) simp
  finally show "fst (scrub_pcm (left r)) = []"
    using fr(2) \<open>0 < n\<close> by simp
qed simp

text \<open>The decoder is a PCM source in the sense the transcriber needs, of the scrubbed
  frames, and every sample it delivers is finite and within [-1, 1].\<close>

theorem audio_decoder_pcm_source:
  assumes "miniaudio_reads M left"
  shows "pcm_source (audio_decoder_read M) (\<lambda>d. fst (scrub_pcm (left d))) (\<lambda>_. True) \<and>
    (\<forall>d n d' got. audio_decoder_read M d n = (d', Inr got) \<longrightarrow> list_all pcm_ok got)"
  using audio_decoder_source [OF assms]
  by (auto simp: audio_decoder_read_def scrub_pcm_eq list_all_iff scrub_sample_ok split: prod.splits if_splits)

text \<open>A decoder over frames in memory, for the examples.\<close>

definition memory_miniaudio :: "f32 list miniaudio" where
  "memory_miniaudio =
     \<lparr>ma_decoder_init = (\<lambda>_. (MA_SUCCESS, [])), ma_get_data_format = (\<lambda>_. (2, 44100)),
      ma_get_length = (\<lambda>d. (MA_SUCCESS, length d)),
      ma_read_pcm_frames = (\<lambda>d n. (drop n d, if d = [] then MA_AT_END else MA_SUCCESS, take n d)),
      ma_result_description = (\<lambda>_. ''error'')\<rparr>"

theorem audio_decoder_pcm_source_witness:
  "pcm_source (audio_decoder_read memory_miniaudio) (\<lambda>d. fst (scrub_pcm d)) (\<lambda>_. True) \<and>
   audio_decoder_read memory_miniaudio [0x7FC00000, 0] 1 = ([0], Inr [0])"
proof -
  have "miniaudio_reads memory_miniaudio (\<lambda>d. d)"
    by (auto simp: miniaudio_reads_def memory_miniaudio_def)
  moreover have "scrub_pcm [0x7FC00000] = ([0], 1)"
    by code_simp
  ultimately show ?thesis
    using audio_decoder_pcm_source [of memory_miniaudio "\<lambda>d. d"]
    by (simp add: audio_decoder_read_def memory_miniaudio_def)
qed

end
