(* ===== verification/Tool_Process.thy ===== *)
theory Tool_Process
  imports Prelude
begin

text \<open>
  One ffmpeg or ffprobe child (\<open>ToolProcess\<close> of src/src/media/video_demux.cpp): the
  descriptors it is given, reads of its stdout with the inactivity timeout and the stop
  token, the bounded tail of its stderr, and its reaping. The operating system is the state
  below: what the child will write, and the sequence of what the parent observes.
\<close>

section \<open>The child's descriptors\<close>

text \<open>
  A descriptor table maps numbers to open files. \<open>F_DUPFD_CLOEXEC\<close> copies to the lowest free
  number not below its argument and fails when there is none up to the limit.
\<close>

type_synonym 'f fd_table = "nat \<Rightarrow> 'f option"

abbreviation (input) kMediaFd :: nat where "kMediaFd \<equiv> 3"
abbreviation (input) kExecFailed :: int where "kExecFailed \<equiv> 127"

definition lowest_free :: "nat \<Rightarrow> nat \<Rightarrow> 'f fd_table \<Rightarrow> nat option" where
  "lowest_free limit from_fd t = List.find (\<lambda>i. t i = None) [from_fd ..< limit]"

definition lift_fd :: "nat \<Rightarrow> nat \<Rightarrow> 'f fd_table \<Rightarrow> (nat \<times> 'f fd_table) option" where
  "lift_fd limit fd t =
     (if fd \<le> kMediaFd
      then map_option (\<lambda>i. (i, t(i := t fd))) (lowest_free limit (kMediaFd + 1) t)
      else Some (fd, t))"

definition dup2 :: "nat \<Rightarrow> nat \<Rightarrow> 'f fd_table \<Rightarrow> 'f fd_table" where
  "dup2 src dst t = t(dst := t src)"

definition close_above :: "nat \<Rightarrow> 'f fd_table \<Rightarrow> 'f fd_table" where
  "close_above fd t = (\<lambda>i. if i > fd then None else t i)"

text \<open>The child between \<open>fork\<close> and \<open>execvp\<close>; \<open>None\<close> is \<open>_exit(kExecFailed)\<close>.\<close>

definition child_setup :: "nat \<Rightarrow> nat \<Rightarrow> nat \<Rightarrow> nat \<Rightarrow> 'f fd_table \<Rightarrow> 'f fd_table option" where
  "child_setup limit media_fd out_fd err_fd t =
     Option.bind (lift_fd limit media_fd t) (\<lambda>(media, t1).
     Option.bind (lift_fd limit out_fd t1) (\<lambda>(out, t2).
     Option.bind (lift_fd limit err_fd t2) (\<lambda>(err, t3).
       Some (close_above kMediaFd (dup2 err 2 (dup2 out 1 (dup2 media kMediaFd t3)))))))"

lemma lift_fd_some:
  assumes "lift_fd limit fd t = Some (fd', t')" "t fd = Some f"
  shows "kMediaFd < fd' \<and> t' fd' = Some f \<and> (\<forall>i g. t i = Some g \<longrightarrow> t' i = Some g)"
  using assms by (auto simp: lift_fd_def lowest_free_def find_Some_iff split: if_splits)

section \<open>What the parent observes\<close>

text \<open>
  One round of the read loop: the clock and the stop token at its head, then what \<open>poll\<close>
  answers. A readable stderr gives the chunks of one sweep and whether it met end of file; a
  readable stdout gives how many bytes are in the pipe, or an error of \<open>read\<close>. A round list
  that ends stands for silence from then on.
\<close>

datatype out_event = Out_bytes nat | Out_eintr | Out_error string

datatype poll_event =
    Poll_timeout
  | Poll_eintr
  | Poll_error string
  | Poll_ready "(string list \<times> bool) option" "out_event option" nat

record read_round =
  rr_stop :: bool
  rr_now :: nat
  rr_poll :: poll_event

text \<open>
  The system calls that release something of the child, in the order they are made: closing a pipe
  end, \<open>SIGKILL\<close>, a \<open>waitpid\<close> that found the child still running, and one that reaped it. The flag
  \<open>tp_reaped\<close> is the code's \<open>reaped_\<close>; what was really done to the child is the log.
\<close>

datatype child_call = Close_out | Close_err | Kill_child | Wait_running | Wait_reaped

record tool_process =
  tp_tool :: string
  tp_timeout :: nat
  tp_out :: string
  tp_rounds :: "read_round list"
  tp_now :: nat
  tp_err_open :: bool
  tp_stderr_tail :: string
  tp_reaped :: bool
  tp_calls :: "child_call list"

definition tail_limit :: nat where
  "tail_limit = 4096"

definition keep_tail :: "string \<Rightarrow> string \<Rightarrow> string" where
  "keep_tail tail buf =
     (let s = tail @ buf in if length s > tail_limit then drop (length s - tail_limit) s else s)"

text \<open>The sweep of stderr: the new state and whether it read anything.\<close>

definition drain_stderr :: "string list \<times> bool \<Rightarrow> tool_process \<Rightarrow> tool_process \<times> bool" where
  "drain_stderr sweep p =
     (if \<not> tp_err_open p then (p, False)
      else case sweep of (bufs, eof) \<Rightarrow>
        (p\<lparr>tp_stderr_tail := fold (\<lambda>buf tail. keep_tail tail buf) bufs (tp_stderr_tail p),
           tp_err_open := \<not> eof, tp_calls := tp_calls p @ (if eof then [Close_err] else [])\<rparr>, bufs \<noteq> []))"

definition tool_kill :: "tool_process \<Rightarrow> tool_process" where
  "tool_kill p = p\<lparr>tp_calls := tp_calls p @ [Kill_child]\<rparr>"

definition silent_error :: "tool_process \<Rightarrow> exn" where
  "silent_error p = Tool_error (tp_tool p @ '' produced no output for '' @ to_string (tp_timeout p) @ ''ms; killed'')"

text \<open>
  \<open>::read\<close> on the pipe: at most what is asked and what is there; nothing only when the child
  has closed its end and everything was read.
\<close>

definition pipe_read :: "nat \<Rightarrow> nat \<Rightarrow> string \<Rightarrow> string" where
  "pipe_read avail max_bytes out = take (min max_bytes (max 1 avail)) out"

fun tool_read_loop ::
  "read_round list \<Rightarrow> nat \<Rightarrow> nat \<Rightarrow> tool_process \<Rightarrow> tool_process \<times> (exn + string)" where
  "tool_read_loop [] deadline max_bytes p = (tool_kill (p\<lparr>tp_rounds := []\<rparr>), Inl (silent_error p))"
| "tool_read_loop (r # rs) deadline max_bytes p0 =
     (let p = p0\<lparr>tp_rounds := rs, tp_now := rr_now r\<rparr>
      in if rr_stop r
      then (tool_kill p, Inl (Cancelled (tp_tool p @ '' stopped: the stream is gone'')))
      else if deadline \<le> rr_now r then (tool_kill p, Inl (silent_error p))
      else case rr_poll r of
        Poll_timeout \<Rightarrow> tool_read_loop rs deadline max_bytes p
      | Poll_eintr \<Rightarrow> tool_read_loop rs deadline max_bytes p
      | Poll_error e \<Rightarrow> (p, Inl (Tool_error (tp_tool p @ '' poll failed: '' @ e)))
      | Poll_ready err out later \<Rightarrow>
          (let (p1, got) = (case err of None \<Rightarrow> (p, False) | Some sweep \<Rightarrow> drain_stderr sweep p);
               deadline' = (if got then later + tp_timeout p else deadline)
           in case out of
             None \<Rightarrow> tool_read_loop rs deadline' max_bytes p1
           | Some Out_eintr \<Rightarrow> tool_read_loop rs deadline' max_bytes p1
           | Some (Out_error e) \<Rightarrow> (p1, Inl (Tool_error (tp_tool p1 @ '' read failed: '' @ e)))
           | Some (Out_bytes avail) \<Rightarrow>
               (let bytes = pipe_read avail max_bytes (tp_out p1)
                in (p1\<lparr>tp_out := drop (length bytes) (tp_out p1)\<rparr>, Inr bytes))))"

definition tool_read :: "tool_process \<Rightarrow> nat \<Rightarrow> tool_process \<times> (exn + string)" where
  "tool_read p max_bytes = tool_read_loop (tp_rounds p) (tp_now p + tp_timeout p) max_bytes p"

text \<open>
  \<open>wait_exit\<close>: \<open>final\<close> is the last sweep, and the child's end is what \<open>waitpid\<close> reports (an exit code,
  or the negative of a signal): \<open>Exited\<close> when it ended within the reap grace, \<open>Lingered\<close> when it is
  still running then and is killed. The code after the kill is \<open>-9\<close>, or the child's own when it
  ended just before the signal.
\<close>

datatype child_exit = Exited int | Lingered int

definition wait_exit :: "string list \<times> bool \<Rightarrow> child_exit \<Rightarrow> tool_process \<Rightarrow> tool_process \<times> int" where
  "wait_exit final exited p =
     (let p1 = fst (drain_stderr final p)
      in case exited of
        Exited code \<Rightarrow> (p1\<lparr>tp_calls := tp_calls p1 @ [Wait_reaped], tp_reaped := True\<rparr>, code)
      | Lingered code \<Rightarrow>
          (let p2 = tool_kill (p1\<lparr>tp_calls := tp_calls p1 @ [Wait_running]\<rparr>)
           in (p2\<lparr>tp_calls := tp_calls p2 @ [Wait_reaped], tp_reaped := True\<rparr>, code)))"

text \<open>The destructor: the pipe ends still open are closed, a child that was not waited for is killed and reaped.\<close>

definition tool_destroy :: "tool_process \<Rightarrow> tool_process" where
  "tool_destroy p =
     (let p1 = p\<lparr>tp_calls := tp_calls p @ [Close_out]\<rparr>;
          p2 = (if tp_err_open p1 then p1\<lparr>tp_calls := tp_calls p1 @ [Close_err]\<rparr> else p1)
      in if \<not> tp_reaped p2
         then (let p3 = tool_kill p2 in p3\<lparr>tp_calls := tp_calls p3 @ [Wait_reaped]\<rparr>)
         else p2)"

text \<open>The constructor: the errors before the child runs, in the order of the code.\<close>

definition tool_start ::
  "bool \<Rightarrow> bool \<Rightarrow> bool \<Rightarrow> bool \<Rightarrow> string list \<Rightarrow> nat \<Rightarrow> string \<Rightarrow> read_round list \<Rightarrow> nat \<Rightarrow> exn + tool_process" where
  "tool_start stop out_pipe_ok err_pipe_ok fork_ok argv timeout child_out rounds now =
     (let tool = (if argv = [] then ''tool'' else hd argv)
      in if stop then Inl (Cancelled (tool @ '' not started: the stream is gone''))
         else if \<not> out_pipe_ok then Inl (Tool_error ''pipe creation failed'')
         else if \<not> err_pipe_ok then Inl (Tool_error ''pipe creation failed'')
         else if \<not> fork_ok then Inl (Tool_error ''fork failed'')
         else Inr \<lparr>tp_tool = tool, tp_timeout = timeout, tp_out = child_out, tp_rounds = rounds,
                   tp_now = now, tp_err_open = True, tp_stderr_tail = [], tp_reaped = False,
                   tp_calls = []\<rparr>)"

text \<open>\<open>collect_output\<close>, with fuel for its reads: every one but the last delivers a byte.\<close>

fun collect_output_from :: "nat \<Rightarrow> nat \<Rightarrow> string \<Rightarrow> tool_process \<Rightarrow> (tool_process \<times> (exn + string)) option" where
  "collect_output_from 0 cap out p = None"
| "collect_output_from (Suc fuel) cap out p =
     (case tool_read p 8192 of
        (p1, Inl e) \<Rightarrow> Some (p1, Inl e)
      | (p1, Inr bytes) \<Rightarrow>
          if bytes = [] then Some (p1, Inr out)
          else if length (out @ bytes) > cap
          then Some (p1, Inl (Tool_error ''tool output exceeded cap''))
          else collect_output_from fuel cap (out @ bytes) p1)"

definition collect_output :: "nat \<Rightarrow> tool_process \<Rightarrow> (tool_process \<times> (exn + string)) option" where
  "collect_output fuel p = collect_output_from fuel 1048576 [] p"

definition first_line :: "string \<Rightarrow> string" where
  "first_line text = takeWhile (\<lambda>c. c \<noteq> CHR 0x0D \<and> c \<noteq> CHR 0x0A) text"

section \<open>Properties of the child process\<close>

text \<open>Whatever numbers the media descriptor and the pipe ends have, even 1, 2 or 3
  themselves, the tool starts with the media on descriptor 3, the pipes on its stdout and
  stderr, the parent's stdin, and nothing else open: no copy overwrites a source that is still
  to be copied.\<close>

theorem child_setup_descriptors:
  assumes "t media_fd = Some media" "t out_fd = Some out" "t err_fd = Some err"
    and "child_setup limit media_fd out_fd err_fd t = Some t'"
  shows "t' 3 = Some media \<and> t' 1 = Some out \<and> t' 2 = Some err \<and> t' 0 = t 0 \<and> (\<forall>i > 3. t' i = None)"
proof -
  obtain m t1 o' t2 e t3 where lifts: "lift_fd limit media_fd t = Some (m, t1)"
    "lift_fd limit out_fd t1 = Some (o', t2)" "lift_fd limit err_fd t2 = Some (e, t3)"
    "t' = close_above kMediaFd (dup2 e 2 (dup2 o' 1 (dup2 m kMediaFd t3)))"
    using assms(4) by (auto simp: child_setup_def split: bind_splits)
  note l1 = lift_fd_some [OF lifts(1) assms(1)]
  then have "t1 out_fd = Some out" "t1 err_fd = Some err"
    using assms(2,3) by blast+
  note l2 = lift_fd_some [OF lifts(2) this(1)] and e1 = this(2)
  then have "t2 err_fd = Some err"
    by blast
  note l3 = lift_fd_some [OF lifts(3) this]
  have "t3 m = Some media" "t3 o' = Some out" "t3 e = Some err" "3 < m" "3 < o'" "3 < e"
    using l1 l2 l3 by blast+
  moreover have "t3 0 = t 0"
    using lifts(1-3) by (auto simp: lift_fd_def lowest_free_def find_Some_iff split: if_splits)
  ultimately show ?thesis
    by (simp add: lifts(4) close_above_def dup2_def)
qed

theorem child_setup_descriptors_witness:
  "\<exists>t'. child_setup 64 2 3 1 [0 \<mapsto> ''stdin'', 1 \<mapsto> ''err'', 2 \<mapsto> ''media'', 3 \<mapsto> ''out''] = Some t' \<and>
     t' 3 = Some ''media'' \<and> t' 1 = Some ''out'' \<and> t' 2 = Some ''err''"
proof -
  let ?t = "[0 \<mapsto> ''stdin'', 1 \<mapsto> ''err'', 2 \<mapsto> ''media'', 3 \<mapsto> ''out''] :: string fd_table"
  have "\<exists>t'. child_setup 64 2 3 1 ?t = Some t'"
    by (simp add: child_setup_def lift_fd_def lowest_free_def upt_rec)
  with child_setup_descriptors [of ?t 2 "''media''" 3 "''out''" 1 "''err''" 64] show ?thesis
    by auto
qed

text \<open>
  The contract of a child's output for its readers: a read delivers the next bytes, at most
  as many as asked, and none only at the end of the output.
\<close>

locale byte_pipe =
  fixes pread :: "'t \<Rightarrow> nat \<Rightarrow> 't \<times> (exn + string)" and unread :: "'t \<Rightarrow> string"
  assumes pread_next: "pread p n = (p', Inr bytes) \<Longrightarrow>
    unread p = bytes @ unread p' \<and> length bytes \<le> n \<and> (bytes = [] \<and> 0 < n \<longrightarrow> unread p = [])"

lemma drain_stderr_frame [simp]:
  "tp_out (fst (drain_stderr sweep p)) = tp_out p" "tp_rounds (fst (drain_stderr sweep p)) = tp_rounds p"
  "tp_tool (fst (drain_stderr sweep p)) = tp_tool p" "tp_timeout (fst (drain_stderr sweep p)) = tp_timeout p"
  "tp_reaped (fst (drain_stderr sweep p)) = tp_reaped p"
  by (auto simp: drain_stderr_def split: prod.splits)

definition sweep_of :: "(string list \<times> bool) option \<Rightarrow> tool_process \<Rightarrow> tool_process" where
  "sweep_of err p = (case err of None \<Rightarrow> p | Some sweep \<Rightarrow> fst (drain_stderr sweep p))"

lemma sweep_of_frame [simp]:
  "tp_out (sweep_of err p) = tp_out p" "tp_reaped (sweep_of err p) = tp_reaped p"
  by (simp_all add: sweep_of_def split: option.splits)

text \<open>The ways one round can go, for inductions over the rounds.\<close>

lemma tool_read_loop_Cons:
  obtains (stop) "tool_read_loop (r # rs) deadline n p = (tool_kill (p\<lparr>tp_rounds := rs, tp_now := rr_now r\<rparr>),
      Inl (Cancelled (tp_tool p @ '' stopped: the stream is gone'')))"
  | (idle) "tool_read_loop (r # rs) deadline n p = (tool_kill (p\<lparr>tp_rounds := rs, tp_now := rr_now r\<rparr>), Inl (silent_error p))"
  | (fail) err e where "tool_read_loop (r # rs) deadline n p = (sweep_of err (p\<lparr>tp_rounds := rs, tp_now := rr_now r\<rparr>), Inl (Tool_error e))"
  | (again) err d where "tool_read_loop (r # rs) deadline n p =
      tool_read_loop rs d n (sweep_of err (p\<lparr>tp_rounds := rs, tp_now := rr_now r\<rparr>))"
  | (bytes) err k where "tool_read_loop (r # rs) deadline n p =
      ((sweep_of err (p\<lparr>tp_rounds := rs, tp_now := rr_now r\<rparr>))\<lparr>tp_out := drop (length (pipe_read k n (tp_out p))) (tp_out p)\<rparr>,
       Inr (pipe_read k n (tp_out p)))"
proof -
  let ?p = "p\<lparr>tp_rounds := rs, tp_now := rr_now r\<rparr>"
  have sil: "silent_error ?p = silent_error p"
    by (simp add: silent_error_def)
  show thesis
  proof (cases "rr_stop r \<or> deadline \<le> rr_now r")
    case True
    then show thesis
      using stop idle by (cases "rr_stop r") (auto simp: sil)
  next
    case False
    show thesis
    proof (cases "rr_poll r")
      case Poll_timeout
      with False show thesis by (intro again [of deadline None]) (simp add: sweep_of_def)
    next
      case Poll_eintr
      with False show thesis by (intro again [of deadline None]) (simp add: sweep_of_def)
    next
      case (Poll_error e)
      with False show thesis by (intro fail [of None]) (simp add: sweep_of_def)
    next
      case (Poll_ready err out later)
      define got where "got = (case err of None \<Rightarrow> False | Some sweep \<Rightarrow> snd (drain_stderr sweep ?p))"
      have sw: "(case err of None \<Rightarrow> (?p, False) | Some sweep \<Rightarrow> drain_stderr sweep ?p) = (sweep_of err ?p, got)"
        by (cases err) (simp_all add: sweep_of_def got_def)
      show thesis
      proof (cases out)
        case None
        with False Poll_ready sw show thesis
          by (intro again [of "if got then later + tp_timeout p else deadline" err]) (simp add: Let_def)
      next
        case (Some oe)
        with False Poll_ready sw show thesis
          by (cases oe) (auto simp: Let_def intro: again fail bytes)
      qed
    qed
  qed
qed

lemma tool_read_loop_ok:
  assumes "tool_read_loop rs d n p = (p', Inr bytes)"
  shows "tp_out p = bytes @ tp_out p' \<and> length bytes \<le> n \<and> (bytes = [] \<and> 0 < n \<longrightarrow> tp_out p = [])"
  using assms
proof (induction rs arbitrary: d p)
  case (Cons r rs)
  show ?case
  proof (cases rule: tool_read_loop_Cons [of r rs d n p])
    case (again err d')
    with Cons show ?thesis by fastforce
  next
    case (bytes err k)
    with Cons.prems show ?thesis
      by (cases "tp_out p") (auto simp: pipe_read_def min_def)
  qed (use Cons.prems in auto)
qed simp

interpretation tool: byte_pipe tool_read tp_out
  by unfold_locales (unfold tool_read_def, rule tool_read_loop_ok)

text \<open>Only the end of stderr is kept, whatever the sizes of the pieces it came in.\<close>

definition last_bytes :: "string \<Rightarrow> string" where
  "last_bytes s = drop (length s - tail_limit) s"

lemma keep_tail_eq: "keep_tail tail buf = last_bytes (tail @ buf)"
  by (simp add: keep_tail_def last_bytes_def Let_def del: drop_append length_append)

lemma keep_tail_last: "keep_tail (last_bytes s) buf = last_bytes (s @ buf)"
proof (cases "length s \<le> tail_limit")
  case True
  then show ?thesis
    by (simp add: keep_tail_eq) (simp add: last_bytes_def)
next
  case False
  then have "drop (length s - tail_limit) s @ buf = drop (length s - tail_limit) (s @ buf)"
    by simp
  with False show ?thesis
    unfolding keep_tail_eq last_bytes_def by (simp add: add.commute del: drop_append)
qed

lemma fold_keep_tail:
  "fold (\<lambda>buf tail. keep_tail tail buf) bufs (last_bytes s) = last_bytes (s @ concat bufs)"
  by (induction bufs arbitrary: s) (simp_all add: keep_tail_last)

lemma last_bytes_length: "length (last_bytes s) \<le> tail_limit"
  by (simp add: last_bytes_def)

text \<open>The bound on what is retained of stderr.\<close>

definition tail_ok :: "tool_process \<Rightarrow> bool" where
  "tail_ok p \<longleftrightarrow> length (tp_stderr_tail p) \<le> tail_limit"

lemma keep_tail_bound: "length (keep_tail tail buf) \<le> tail_limit"
  by (simp add: keep_tail_eq last_bytes_length)

lemma fold_keep_tail_bound:
  "length tail \<le> tail_limit \<Longrightarrow> length (fold (\<lambda>buf tail. keep_tail tail buf) bufs tail) \<le> tail_limit"
  by (induction bufs arbitrary: tail) (simp_all add: keep_tail_bound)

lemma sweep_of_tail: "tail_ok p \<Longrightarrow> tail_ok (sweep_of err p)"
  by (auto simp: tail_ok_def sweep_of_def drain_stderr_def fold_keep_tail_bound split: option.splits prod.splits)

lemma tail_ok_update [simp]:
  "tail_ok (p\<lparr>tp_rounds := rs\<rparr>) = tail_ok p" "tail_ok (p\<lparr>tp_now := k\<rparr>) = tail_ok p"
  "tail_ok (p\<lparr>tp_out := out\<rparr>) = tail_ok p" "tail_ok (tool_kill p) = tail_ok p"
  by (simp_all add: tail_ok_def tool_kill_def)

lemma tool_read_loop_tail: "tail_ok p \<Longrightarrow> tail_ok (fst (tool_read_loop rs d n p))"
proof (induction rs arbitrary: d p)
  case (Cons r rs)
  have "tail_ok (sweep_of err (p\<lparr>tp_rounds := rs, tp_now := rr_now r\<rparr>))" for err
    using Cons.prems by (intro sweep_of_tail) simp
  then show ?case
    using Cons.prems by (cases rule: tool_read_loop_Cons [of r rs d n p]) (simp_all add: Cons.IH)
qed simp

interpretation tool_reads: invariant_machine "\<lambda>n p. fst (tool_read p n)" tail_ok
  by unfold_locales (simp add: tool_read_def tool_read_loop_tail)

text \<open>A failed read takes nothing from the child's output, and any sequence of reads keeps
  the retained stderr within 4096 bytes, so a child that writes without end cannot exhaust the
  parent; what is retained is exactly the last 4096 bytes written.\<close>

theorem tool_reads_bounded:
  assumes "tail_ok p"
  shows "tail_ok (fold (\<lambda>n p. fst (tool_read p n)) ns p) \<and>
    (\<forall>p' e. tool_read p n = (p', Inl e) \<longrightarrow> tp_out p' = tp_out p) \<and>
    (\<forall>written bufs eof. tp_err_open p \<and> tp_stderr_tail p = last_bytes written \<longrightarrow>
       tp_stderr_tail (fst (drain_stderr (bufs, eof) p)) = last_bytes (written @ concat bufs))"
proof (intro conjI)
  show "tail_ok (fold (\<lambda>n p. fst (tool_read p n)) ns p)"
    using assms by (rule tool_reads.fold_inv)
  have "tp_out p' = tp_out p" if "tool_read_loop rs d n p = (p', Inl e)" for rs d p p' e
    using that
  proof (induction rs arbitrary: d p)
    case (Cons r rs)
    show ?case
    proof (cases rule: tool_read_loop_Cons [of r rs d n p])
      case (again err d')
      with Cons show ?thesis by fastforce
    qed (use Cons.prems in \<open>auto simp: tool_kill_def\<close>)
  qed (auto simp: tool_kill_def)
  then show "\<forall>p' e. tool_read p n = (p', Inl e) \<longrightarrow> tp_out p' = tp_out p"
    unfolding tool_read_def by blast
  show "\<forall>written bufs eof. tp_err_open p \<and> tp_stderr_tail p = last_bytes written \<longrightarrow>
       tp_stderr_tail (fst (drain_stderr (bufs, eof) p)) = last_bytes (written @ concat bufs)"
    by (simp add: drain_stderr_def fold_keep_tail)
qed

text \<open>
  What has been done to a child that runs, and to one whose object is gone: reaped once, with
  nothing sent to its process id afterwards, which may then be another process; each pipe end
  closed once, since its number may then be another file.
\<close>

definition process_calls :: "tool_process \<Rightarrow> child_call list" where
  "process_calls p = filter (\<lambda>c. c \<noteq> Close_out \<and> c \<noteq> Close_err) (tp_calls p)"

definition reaped_once :: "tool_process \<Rightarrow> bool" where
  "reaped_once p \<longleftrightarrow> (\<exists>before. process_calls p = before @ [Wait_reaped] \<and> Wait_reaped \<notin> set before)"

definition pipes_held :: "tool_process \<Rightarrow> bool" where
  "pipes_held p \<longleftrightarrow> Close_out \<notin> set (tp_calls p) \<and> count_list (tp_calls p) Close_err = (if tp_err_open p then 0 else 1)"

definition child_running :: "tool_process \<Rightarrow> bool" where
  "child_running p \<longleftrightarrow> \<not> tp_reaped p \<and> Wait_reaped \<notin> set (tp_calls p) \<and> pipes_held p"

definition child_gone :: "tool_process \<Rightarrow> bool" where
  "child_gone p \<longleftrightarrow> reaped_once p \<and> count_list (tp_calls p) Close_out = 1 \<and> count_list (tp_calls p) Close_err = 1"

lemma tool_start_running: "tool_start stop a b c argv t out rounds now = Inr p \<Longrightarrow> child_running p"
  by (auto simp: tool_start_def child_running_def pipes_held_def Let_def split: if_splits)

lemma child_running_update [simp]:
  "child_running (p\<lparr>tp_rounds := rs\<rparr>) = child_running p" "child_running (p\<lparr>tp_now := k\<rparr>) = child_running p"
  "child_running (p\<lparr>tp_out := out\<rparr>) = child_running p" "child_running (tool_kill p) = child_running p"
  by (auto simp: child_running_def pipes_held_def tool_kill_def)

lemma drain_stderr_running: "child_running p \<Longrightarrow> child_running (fst (drain_stderr sweep p))"
  by (auto simp: child_running_def pipes_held_def drain_stderr_def split: prod.splits)

lemma sweep_of_running: "child_running p \<Longrightarrow> child_running (sweep_of err p)"
  by (simp add: sweep_of_def drain_stderr_running split: option.splits)

lemma tool_read_loop_running: "child_running p \<Longrightarrow> child_running (fst (tool_read_loop rs d n p))"
proof (induction rs arbitrary: d p)
  case (Cons r rs)
  have "child_running (sweep_of err (p\<lparr>tp_rounds := rs, tp_now := rr_now r\<rparr>))" for err
    using Cons.prems by (intro sweep_of_running) simp
  then show ?case
    using Cons.prems by (cases rule: tool_read_loop_Cons [of r rs d n p]) (simp_all add: Cons.IH)
qed simp

lemma tool_read_running: "child_running p \<Longrightarrow> child_running (fst (tool_read p n))"
  by (simp add: tool_read_def tool_read_loop_running)

interpretation reading: invariant_machine "\<lambda>n p. fst (tool_read p n)" child_running
  by unfold_locales (rule tool_read_running)

lemma wait_exit_reaped:
  assumes "child_running p"
  shows "tp_reaped (fst (wait_exit final exited p)) \<and> reaped_once (fst (wait_exit final exited p)) \<and> pipes_held (fst (wait_exit final exited p))"
proof -
  have "child_running (fst (drain_stderr final p))"
    by (rule drain_stderr_running [OF assms])
  then show ?thesis
    by (auto simp: wait_exit_def child_running_def pipes_held_def reaped_once_def process_calls_def tool_kill_def Let_def split: child_exit.splits)
qed

lemma tool_destroy_gone:
  assumes "child_running p \<or> tp_reaped p \<and> reaped_once p \<and> pipes_held p"
  shows "child_gone (tool_destroy p)"
  using assms
proof
  assume "child_running p"
  then show ?thesis
    by (auto simp: child_running_def pipes_held_def child_gone_def reaped_once_def process_calls_def tool_destroy_def tool_kill_def Let_def
      count_list_0_iff)
next
  assume "tp_reaped p \<and> reaped_once p \<and> pipes_held p"
  then show ?thesis
    by (auto simp: pipes_held_def child_gone_def reaped_once_def process_calls_def tool_destroy_def tool_kill_def Let_def count_list_0_iff)
qed

text \<open>
  The life of a process object on the stack, in \<open>run_query\<close> and \<open>extract_keyframes\<close>: reads, then
  \<open>wait_exit\<close> unless an exception or the sink ended them, then the destructor.
\<close>

definition scoped_tool :: "nat list \<Rightarrow> ((string list \<times> bool) \<times> child_exit) option \<Rightarrow> tool_process \<Rightarrow> tool_process" where
  "scoped_tool reads waited p =
     (let p1 = fold (\<lambda>n p. fst (tool_read p n)) reads p
      in tool_destroy (case waited of None \<Rightarrow> p1 | Some (final, exited) \<Rightarrow> fst (wait_exit final exited p1)))"

lemma scoped_tool_gone: "child_running p \<Longrightarrow> child_gone (scoped_tool reads waited p)"
  using reading.fold_inv [of p reads]
  by (auto simp: scoped_tool_def Let_def wait_exit_reaped intro!: tool_destroy_gone split: option.splits)

text \<open>\<open>collect_output\<close> ends after at most one read per byte of output, and returns the
  child's whole output or an error, never a part of it; what it returns is within the cap.\<close>

theorem collect_output_whole:
  assumes "length (tp_out p) < fuel"
  shows "\<exists>p' res. collect_output fuel p = Some (p', res) \<and>
    (\<forall>out. res = Inr out \<longrightarrow> out = tp_out p \<and> tp_out p' = [] \<and> length out \<le> 1048576)"
proof -
  have "\<exists>p' res. collect_output_from fuel cap acc p = Some (p', res) \<and>
      (\<forall>out. res = Inr out \<longrightarrow> out = acc @ tp_out p \<and> tp_out p' = [] \<and> length out \<le> cap)"
    if "length (tp_out p) < fuel" "length acc \<le> cap" for acc p and cap :: nat
    using that
  proof (induction fuel arbitrary: acc p)
    case (Suc fuel)
    obtain p1 res where rd: "tool_read p 8192 = (p1, res)"
      by fastforce
    show ?case
    proof (cases res)
      case (Inl e)
      with rd show ?thesis by simp
    next
      case (Inr bytes)
      note next_bytes = tool.pread_next [OF rd [unfolded Inr]]
      show ?thesis
      proof (cases "bytes = [] \<or> cap < length (acc @ bytes)")
        case True
        with rd Inr next_bytes Suc.prems show ?thesis
          by (cases "bytes = []") auto
      next
        case False
        with next_bytes Suc.prems have "length (tp_out p1) < fuel" "length (acc @ bytes) \<le> cap"
          by (cases bytes; simp)+
        from Suc.IH [OF this] rd Inr False next_bytes show ?thesis
          by (auto simp: not_less)
      qed
    qed
  qed simp
  from this [of p "[]" 1048576] assms show ?thesis
    by (simp add: collect_output_def)
qed

text \<open>A child that prints one line, for the examples.\<close>

definition demo_tool :: tool_process where
  "demo_tool = \<lparr>tp_tool = ''ffprobe'', tp_timeout = 1000, tp_out = ''12.5'',
     tp_rounds = [\<lparr>rr_stop = False, rr_now = 5, rr_poll = Poll_ready (Some ([''warning''], True)) (Some (Out_bytes 4)) 6\<rparr>,
                  \<lparr>rr_stop = False, rr_now = 9, rr_poll = Poll_ready None (Some (Out_bytes 0)) 9\<rparr>],
     tp_now = 0, tp_err_open = True, tp_stderr_tail = [], tp_reaped = False, tp_calls = []\<rparr>"

lemmas demo_tool_evals = demo_tool_def tool_read_def drain_stderr_def keep_tail_def tail_limit_def
  pipe_read_def Let_def

theorem tool_reads_bounded_witness:
  "tail_ok (fold (\<lambda>n p. fst (tool_read p n)) [8, 8, 8] demo_tool) \<and> tp_stderr_tail (fst (tool_read demo_tool 8)) = ''warning''"
proof -
  have "tail_ok demo_tool"
    by (simp add: tail_ok_def demo_tool_def)
  with tool_reads_bounded [of demo_tool "[8, 8, 8]"] show ?thesis
    by (simp add: demo_tool_evals)
qed

theorem collect_output_whole_witness:
  "\<exists>p'. collect_output (Suc (Suc (Suc (Suc (Suc 0))))) demo_tool = Some (p', Inr ''12.5'') \<and> tp_out p' = []"
proof -
  have "\<exists>p' out. collect_output (Suc (Suc (Suc (Suc (Suc 0))))) demo_tool = Some (p', Inr out)"
    by (simp add: collect_output_def demo_tool_evals)
  with collect_output_whole [of demo_tool "Suc (Suc (Suc (Suc (Suc 0))))"] show ?thesis
    by (auto simp: demo_tool_def)
qed

end
