(* ===== verification/Video_Demux.thy ===== *)
theory Video_Demux
  imports Tool_Process Audio_Decoder
begin

text \<open>
  Demuxing through ffmpeg (src/src/media/video_demux.h, video_demux.cpp): the probe, the PCM
  of the audio stream, and the keyframe stills cut out of a PNG stream. The child is a
  \<open>tool_process\<close>; \<open>std::stod\<close> and the double arithmetic of the probed duration are one
  parameter.
\<close>

section \<open>PNG data\<close>

definition byte_nat :: "char \<Rightarrow> nat" where
  "byte_nat c = of_char c"

definition read_be32 :: "string \<Rightarrow> nat \<Rightarrow> nat" where
  "read_be32 s i =
     byte_nat (s ! i) * 2 ^ 24 + byte_nat (s ! (i + 1)) * 2 ^ 16 +
     byte_nat (s ! (i + 2)) * 2 ^ 8 + byte_nat (s ! (i + 3))"

definition compare_at :: "string \<Rightarrow> nat \<Rightarrow> string \<Rightarrow> bool" where
  "compare_at s i tag \<longleftrightarrow> take (length tag) (drop i s) = tag"

definition png_dimensions :: "string \<Rightarrow> exn + nat \<times> nat" where
  "png_dimensions png =
     (if length png < 24 \<or> \<not> compare_at png 12 ''IHDR''
      then Inl (Decode_error ''malformed PNG from keyframe extraction'')
      else Inr (read_be32 png 16, read_be32 png 20))"

section \<open>The demuxer's audio\<close>

text \<open>
  \<open>VideoDemux::Impl\<close> as far as the audio is concerned: the child and the bytes that did not
  fill a whole sample.
\<close>

record 't demux_audio =
  da_tool :: 't
  da_partial :: string

text \<open>The float array \<open>out\<close> seen as samples: whole little-endian words of a byte string.\<close>

fun pcm_floats :: "string \<Rightarrow> f32 list" where
  "pcm_floats (a # b # c # d # rest) = f32_of_bytes a b c d # pcm_floats rest"
| "pcm_floats _ = []"

text \<open>
  The loop that collects at least one sample, on the bytes already in \<open>out\<close>. A buffer of
  \<open>max_samples\<close> floats exists, so the number of its bytes does not wrap.
\<close>

function read_sample_bytes ::
  "('t \<Rightarrow> nat \<Rightarrow> 't \<times> (exn + string)) \<Rightarrow> nat \<Rightarrow> string \<Rightarrow> 't \<Rightarrow> 't \<times> (exn + string)" where
  "read_sample_bytes pread want_bytes bytes t =
     (if length bytes < 4
      then case pread t (want_bytes - length bytes) of
          (t1, Inl e) \<Rightarrow> (t1, Inl e)
        | (t1, Inr got) \<Rightarrow>
            if got = []
            then (if bytes \<noteq> [] then (t1, Inl (Decode_error ''audio stream ended mid-sample''))
                  else (t1, Inr []))
            else read_sample_bytes pread want_bytes (bytes @ got) t1
      else (t, Inr bytes))"
  by auto

termination
  by (relation "measure (\<lambda>(pread, want, bytes, t). 4 - length bytes)")
    (auto intro!: diff_less_mono2)

declare read_sample_bytes.simps [simp del]

definition read_audio ::
  "('t \<Rightarrow> nat \<Rightarrow> 't \<times> (exn + string)) \<Rightarrow> 't demux_audio \<Rightarrow> nat \<Rightarrow> 't demux_audio \<times> (exn + f32 list)" where
  "read_audio pread d want =
     (case read_sample_bytes pread (want * 4) (da_partial d) (da_tool d) of
        (t, Inl e) \<Rightarrow> (\<lparr>da_tool = t, da_partial = []\<rparr>, Inl e)
      | (t, Inr bytes) \<Rightarrow>
          let whole = length bytes div 4;
              leftover = length bytes - whole * 4
          in (\<lparr>da_tool = t, da_partial = (if leftover \<noteq> 0 then drop (whole * 4) bytes else [])\<rparr>,
              Inr (fst (scrub_pcm (pcm_floats (take (whole * 4) bytes))))))"

definition video_read_audio :: "tool_process demux_audio \<Rightarrow> nat \<Rightarrow> tool_process demux_audio \<times> (exn + f32 list)" where
  "video_read_audio = read_audio tool_read"

text \<open>\<open>close_audio\<close>; \<open>None\<close> is the null pointer before \<open>open_audio\<close> and after a close.\<close>

definition close_audio ::
  "string \<Rightarrow> string list \<times> bool \<Rightarrow> child_exit \<Rightarrow> tool_process demux_audio option \<Rightarrow> exn option" where
  "close_audio ffmpeg final exited audio =
     (case audio of None \<Rightarrow> None
      | Some d \<Rightarrow>
          (case wait_exit final exited (da_tool d) of (p, code) \<Rightarrow>
             let tail = first_line (tp_stderr_tail p)
             in if code = kExecFailed then Some (Tool_error (ffmpeg @ '' could not be executed''))
                else if code \<noteq> 0 then Some (Decode_error (''ffmpeg audio demux failed: '' @ tail))
                else None))"

definition audio_argv :: "string \<Rightarrow> string list" where
  "audio_argv ffmpeg =
     [ffmpeg, ''-v'', ''error'', ''-i'', ''/dev/fd/3'', ''-map'', ''a:0'', ''-f'', ''f32le'',
      ''-ac'', ''1'', ''-ar'', to_string kModelSampleRate, ''pipe:1'']"

definition keyframe_argv :: "string \<Rightarrow> nat \<Rightarrow> string list" where
  "keyframe_argv ffmpeg interval_seconds =
     [ffmpeg, ''-v'', ''error'', ''-i'', ''/dev/fd/3'', ''-map'', ''v:0'', ''-vf'',
      ''fps=1/'' @ to_string interval_seconds, ''-f'', ''image2pipe'', ''-c:v'', ''png'', ''pipe:1'']"

section \<open>The probe\<close>

record probe_info =
  pi_duration_ms :: nat
  pi_has_audio :: bool
  pi_audio_codec :: string
  pi_sample_rate_hz :: nat
  pi_channels :: nat
  pi_has_video :: bool
  pi_video_codec :: string

text \<open>The end of \<open>run_query\<close>: the output of a child and its exit code.\<close>

definition query_result :: "string \<Rightarrow> string \<Rightarrow> int \<Rightarrow> string \<Rightarrow> exn + string" where
  "query_result ffprobe out code stderr_tail =
     (if code = kExecFailed then Inl (Tool_error (ffprobe @ '' could not be executed''))
      else if code \<noteq> 0
      then Inl (Decode_error (''ffprobe rejected the media: '' @ first_line stderr_tail))
      else Inr out)"

definition find_char :: "char \<Rightarrow> nat \<Rightarrow> string \<Rightarrow> nat option" where
  "find_char c i s = List.find (\<lambda>j. s ! j = c) [i ..< length s]"

text \<open>
  The three answers turned into a \<open>ProbeInfo\<close>; \<open>duration_ms_of\<close> is
  \<open>static_cast<uint64_t>(std::stod(s) * 1000.0)\<close> and \<open>stoul\<close> the library's, both may throw.
\<close>

definition probe_audio :: "(string \<Rightarrow> exn + nat) \<Rightarrow> string \<Rightarrow> probe_info \<Rightarrow> exn + probe_info" where
  "probe_audio stoul audio info =
     (if audio = [] then Inr info
      else case find_char (CHR '','') 0 audio of
        None \<Rightarrow> Inl (Tool_error (''unexpected ffprobe audio output: '' @ audio))
      | Some first_comma \<Rightarrow>
          case find_char (CHR '','') (first_comma + 1) audio of
            None \<Rightarrow> Inl (Tool_error (''unexpected ffprobe audio output: '' @ audio))
          | Some second_comma \<Rightarrow>
              case stoul (take (second_comma - first_comma - 1) (drop (first_comma + 1) audio)) of
                Inl e \<Rightarrow> Inl e
              | Inr rate \<Rightarrow>
                  (case stoul (drop (second_comma + 1) audio) of
                     Inl e \<Rightarrow> Inl e
                   | Inr chans \<Rightarrow>
                       Inr (info\<lparr>pi_has_audio := True, pi_audio_codec := take first_comma audio,
                                 pi_sample_rate_hz := u32 rate, pi_channels := u32 chans\<rparr>)))"

definition probe ::
  "(string \<Rightarrow> exn + nat) \<Rightarrow> (string \<Rightarrow> exn + nat) \<Rightarrow> (string list \<Rightarrow> exn + string) \<Rightarrow> string \<Rightarrow> exn + probe_info" where
  "probe duration_ms_of stoul run_query ffprobe =
     (case run_query [ffprobe, ''-v'', ''error'', ''-show_entries'', ''format=duration'', ''-of'', ''csv=p=0'', ''/dev/fd/3''] of
        Inl e \<Rightarrow> Inl e
      | Inr out \<Rightarrow>
          (let duration = first_line out;
               info0 = \<lparr>pi_duration_ms = 0, pi_has_audio = False, pi_audio_codec = [], pi_sample_rate_hz = 0,
                        pi_channels = 0, pi_has_video = False, pi_video_codec = []\<rparr>
           in case (if duration \<noteq> [] \<and> duration \<noteq> ''N/A'' then duration_ms_of duration else Inr 0) of
             Inl e \<Rightarrow> Inl e
           | Inr ms \<Rightarrow>
               (case run_query [ffprobe, ''-v'', ''error'', ''-select_streams'', ''a:0'', ''-show_entries'',
                                ''stream=codec_name,sample_rate,channels'', ''-of'', ''csv=p=0'', ''/dev/fd/3''] of
                  Inl e \<Rightarrow> Inl e
                | Inr out2 \<Rightarrow>
                    (case probe_audio stoul (first_line out2) (info0\<lparr>pi_duration_ms := ms\<rparr>) of
                       Inl e \<Rightarrow> Inl e
                     | Inr info \<Rightarrow>
                         (case run_query [ffprobe, ''-v'', ''error'', ''-select_streams'', ''v:0'', ''-show_entries'',
                                          ''stream=codec_name'', ''-of'', ''csv=p=0'', ''/dev/fd/3''] of
                            Inl e \<Rightarrow> Inl e
                          | Inr out3 \<Rightarrow>
                              let video = first_line out3
                              in Inr (if video \<noteq> [] then info\<lparr>pi_has_video := True, pi_video_codec := video\<rparr> else info))))))"

section \<open>Keyframes\<close>

definition png_signature :: string where
  "png_signature = [CHR 0x89, CHR ''P'', CHR ''N'', CHR ''G'', CHR 0x0D, CHR 0x0A, CHR 0x1A, CHR 0x0A]"

text \<open>The inner loop: where the image that starts at 0 ends, \<open>None\<close> while bytes are missing.\<close>

function png_end :: "string \<Rightarrow> nat \<Rightarrow> nat option" where
  "png_end buffer offset =
     (if length buffer < offset + 8 then None
      else
        let chunk_total = 8 + read_be32 buffer offset + 4;
            is_end = compare_at buffer (offset + 4) ''IEND''
        in if length buffer < offset + chunk_total then None
           else if is_end then Some (offset + chunk_total)
           else png_end buffer (offset + chunk_total))"
  by auto

termination
  by (relation "measure (\<lambda>(buffer, offset). length buffer - offset)") auto

declare png_end.simps [simp del]

text \<open>
  \<open>emit_complete\<close> on the buffer, the frame index and the sink's state; the flag is its return
  value, \<open>Inl\<close> an exception.
\<close>

lemma png_end_bounds: "png_end buffer offset = Some e \<Longrightarrow> offset < e \<and> e \<le> length buffer"
proof (induction buffer offset rule: png_end.induct)
  case (1 buffer offset)
  then show ?case
    by (subst (asm) (2) png_end.simps) (fastforce simp: Let_def split: if_splits)
qed

function emit_complete ::
  "('c \<Rightarrow> nat \<Rightarrow> nat \<Rightarrow> nat \<Rightarrow> string \<Rightarrow> 'c \<times> bool) \<Rightarrow> nat \<Rightarrow> string \<Rightarrow> nat \<Rightarrow> 'c \<Rightarrow>
   (string \<times> nat \<times> 'c) \<times> (exn + bool)" where
  "emit_complete sink interval buffer frame_index c =
     (if length buffer < 8 then ((buffer, frame_index, c), Inr True)
      else if take 8 buffer \<noteq> png_signature
      then ((buffer, frame_index, c), Inl (Decode_error ''keyframe stream lost PNG framing''))
      else case png_end buffer 8 of
        None \<Rightarrow> ((buffer, frame_index, c), Inr True)
      | Some offset \<Rightarrow>
          (let png = take offset buffer; rest = drop offset buffer
           in case png_dimensions png of
             Inl e \<Rightarrow> ((rest, frame_index, c), Inl e)
           | Inr (width, height) \<Rightarrow>
               (case sink c (u64 (frame_index * interval * 1000)) width height png of
                  (c', ok) \<Rightarrow>
                    if ok then emit_complete sink interval rest (u64 (frame_index + 1)) c'
                    else ((rest, frame_index, c'), Inr False))))"
  by auto

termination
  by (relation "measure (\<lambda>(sink, interval, buffer, frame_index, c). length buffer)")
    (auto dest!: png_end_bounds)

declare emit_complete.simps [simp del]

text \<open>The read loop over the chunks the child delivers.\<close>

fun keyframe_loop ::
  "('c \<Rightarrow> nat \<Rightarrow> nat \<Rightarrow> nat \<Rightarrow> string \<Rightarrow> 'c \<times> bool) \<Rightarrow> nat \<Rightarrow> string list \<Rightarrow> string \<times> nat \<times> 'c \<Rightarrow>
   (string \<times> nat \<times> 'c) \<times> (exn + bool)" where
  "keyframe_loop sink interval [] s = (s, Inr True)"
| "keyframe_loop sink interval (chunk # chunks) (buffer, frame_index, c) =
     (case emit_complete sink interval (buffer @ chunk) frame_index c of
        (s, Inr True) \<Rightarrow> keyframe_loop sink interval chunks s
      | r \<Rightarrow> r)"

definition extract_keyframes ::
  "('c \<Rightarrow> nat \<Rightarrow> nat \<Rightarrow> nat \<Rightarrow> string \<Rightarrow> 'c \<times> bool) \<Rightarrow> string \<Rightarrow> nat \<Rightarrow> string list \<Rightarrow> int \<Rightarrow> string \<Rightarrow> 'c \<Rightarrow>
   'c \<times> exn option" where
  "extract_keyframes sink ffmpeg interval chunks code stderr_tail c =
     (case keyframe_loop sink interval chunks ([], 0, c) of
        ((buffer, frame_index, c'), Inl e) \<Rightarrow> (c', Some e)
      | ((buffer, frame_index, c'), Inr False) \<Rightarrow> (c', None)
      | ((buffer, frame_index, c'), Inr True) \<Rightarrow>
          (c', if code = kExecFailed then Some (Tool_error (ffmpeg @ '' could not be executed''))
               else if code \<noteq> 0
               then Some (Decode_error (''ffmpeg keyframe extraction failed: '' @ first_line stderr_tail))
               else if buffer \<noteq> [] then Some (Decode_error ''keyframe stream ended mid-frame'')
               else None))"

section \<open>The audio as a PCM source\<close>

lemma pcm_floats_append: "4 dvd length xs \<Longrightarrow> pcm_floats (xs @ ys) = pcm_floats xs @ pcm_floats ys"
proof (induction xs rule: pcm_floats.induct)
  case (1 a b c d rest)
  have "4 dvd length rest"
    using "1.prems" by simp presburger
  with "1.IH" show ?case by simp
qed (auto simp: dvd_eq_mod_eq_0 mod_Suc)

lemma pcm_floats_short: "length xs < 4 \<Longrightarrow> pcm_floats xs = []"
  by (cases xs rule: pcm_floats.cases) auto

lemma pcm_floats_length: "length (pcm_floats xs) = length xs div 4"
  by (induction xs rule: pcm_floats.induct) auto

lemma pcm_floats_encode: "pcm_floats (pcm_encode xs) = xs"
proof (induction xs)
  case (Cons x xs)
  then show ?case
    using f32_of_bytes_f32_byte [of x] by (simp add: f32_encode_def)
qed simp

context byte_pipe
begin

lemma read_sample_bytes_next:
  assumes "4 \<le> want"
  shows "length bytes \<le> want \<Longrightarrow> read_sample_bytes pread want bytes t = (t', Inr out) \<Longrightarrow>
    bytes @ unread t = out @ unread t' \<and> length out \<le> want \<and>
    (length out < 4 \<longrightarrow> out = [] \<and> bytes = [] \<and> unread t = [])"
proof (induction "4 - length bytes" arbitrary: bytes t rule: less_induct)
  case less
  show ?case
  proof (cases "length bytes < 4")
    case False
    with less.prems show ?thesis
      by (subst (asm) read_sample_bytes.simps) auto
  next
    case True
    obtain t1 res where pr: "pread t (want - length bytes) = (t1, res)"
      by fastforce
    with True less.prems(2) obtain got where res: "res = Inr got"
      by (subst (asm) read_sample_bytes.simps) (cases res; auto)
    note nx = pread_next [OF pr [unfolded res]]
    show ?thesis
    proof (cases "got = []")
      case True': True
      with True pr res less.prems(2) have "bytes = []" "t' = t1" "out = []"
        by (subst (asm) read_sample_bytes.simps; auto split: if_splits)+
      with nx True' assms show ?thesis
        by auto
    next
      case False
      with True pr res less.prems(2) have "read_sample_bytes pread want (bytes @ got) t1 = (t', Inr out)"
        by (subst (asm) read_sample_bytes.simps) auto
      moreover have "4 - length (bytes @ got) < 4 - length bytes"
        using True False by (cases got) auto
      moreover have "length (bytes @ got) \<le> want"
        using conjunct1 [OF conjunct2 [OF nx]] less.prems(1) by (simp add: le_diff_conv2 add.commute)
      ultimately have "(bytes @ got) @ unread t1 = out @ unread t' \<and> length out \<le> want \<and>
          (length out < 4 \<longrightarrow> out = [] \<and> bytes @ got = [] \<and> unread t1 = [])"
        by (intro less.hyps)
      with nx False show ?thesis
        by auto
    qed
  qed
qed

end

sublocale byte_pipe \<subseteq> audio: pcm_source "read_audio pread"
  "\<lambda>d. fst (scrub_pcm (pcm_floats (da_partial d @ unread (da_tool d))))" "\<lambda>d. length (da_partial d) < 4"
proof -
  have main: "fst (scrub_pcm (pcm_floats (da_partial r @ unread (da_tool r)))) =
        got @ fst (scrub_pcm (pcm_floats (da_partial r' @ unread (da_tool r')))) \<and>
      length got \<le> n \<and> length (da_partial r') < 4 \<and>
      (got = [] \<longrightarrow> fst (scrub_pcm (pcm_floats (da_partial r @ unread (da_tool r)))) = [])"
    if v: "length (da_partial r) < 4" and n: "0 < n" and rd: "read_audio pread r n = (r', Inr got)" for r n r' got
  proof -
    obtain t bytes where rb: "read_sample_bytes pread (n * 4) (da_partial r) (da_tool r) = (t, Inr bytes)"
      using rd by (auto simp: read_audio_def split: prod.splits sum.splits)
    let ?w = "length bytes div 4 * 4"
    have r': "da_tool r' = t" "da_partial r' = drop ?w bytes" "got = fst (scrub_pcm (pcm_floats (take ?w bytes)))"
      using rd rb by (auto simp: read_audio_def Let_def)
    have nx: "da_partial r @ unread (da_tool r) = bytes @ unread t \<and> length bytes \<le> n * 4 \<and>
        (length bytes < 4 \<longrightarrow> bytes = [] \<and> da_partial r = [] \<and> unread (da_tool r) = [])"
      by (rule read_sample_bytes_next [OF _ _ rb]) (use v n in auto)
    have "bytes @ unread t = take ?w bytes @ (drop ?w bytes @ unread t)"
      by simp
    moreover have "length (take ?w bytes) = ?w"
      by simp
    then have "4 dvd length (take ?w bytes)"
      by simp
    ultimately have split: "pcm_floats (bytes @ unread t) =
        pcm_floats (take ?w bytes) @ pcm_floats (drop ?w bytes @ unread t)"
      by (metis pcm_floats_append)
    have len: "length got = length bytes div 4"
      by (simp add: r'(3) pcm_floats_length min_def)
    have "fst (scrub_pcm (pcm_floats (da_partial r @ unread (da_tool r)))) =
        got @ fst (scrub_pcm (pcm_floats (da_partial r' @ unread (da_tool r'))))"
      unfolding conjunct1 [OF nx] split scrub_pcm_append r' ..
    moreover have "length (da_partial r') < 4" "length got \<le> n"
      using r'(2) len nx div_le_mono [of "length bytes" "n * 4" 4] by simp_all
    moreover have "length bytes < 4" if "got = []"
    proof -
      have "length bytes div 4 = 0"
        using len that by simp
      then show ?thesis by simp
    qed
    ultimately show ?thesis
      using nx by (metis append_Nil pcm_floats.simps(2) fst_conv scrub_pcm.simps(1))
  qed
  show "pcm_source (read_audio pread) (\<lambda>d. fst (scrub_pcm (pcm_floats (da_partial d @ unread (da_tool d)))))
      (\<lambda>d. length (da_partial d) < 4)"
    by unfold_locales (use main in blast)+
qed

text \<open>The audio of a container is a PCM source in the sense the transcriber needs,
  whatever pieces the child's output arrives in and wherever they cut a sample: the samples
  delivered are, in order, the little-endian floats the child writes, scrubbed.\<close>

theorem video_audio_pcm_source:
  "pcm_source video_read_audio
     (\<lambda>d. fst (scrub_pcm (pcm_floats (da_partial d @ tp_out (da_tool d))))) (\<lambda>d. length (da_partial d) < 4)"
  unfolding video_read_audio_def by (rule tool.audio.pcm_source_axioms)

section \<open>The PNG stream\<close>

text \<open>
  A PNG file, by its chunks: the length of the data in big-endian, the type, the data and the
  checksum. The first chunk is IHDR, whose data begins with the dimensions, and only the last
  one is IEND.
\<close>

record png_chunk =
  ch_type :: string
  ch_data :: string
  ch_crc :: string

definition be32 :: "nat \<Rightarrow> string" where
  "be32 n = [char_of (n div 2 ^ 24), char_of (n div 2 ^ 16), char_of (n div 2 ^ 8), char_of n]"

definition chunk_bytes :: "png_chunk \<Rightarrow> string" where
  "chunk_bytes c = be32 (length (ch_data c)) @ ch_type c @ ch_data c @ ch_crc c"

definition chunk_ok :: "png_chunk \<Rightarrow> bool" where
  "chunk_ok c \<longleftrightarrow> length (ch_type c) = 4 \<and> length (ch_crc c) = 4 \<and> length (ch_data c) < 2 ^ 32"

fun chunks_ok :: "png_chunk list \<Rightarrow> bool" where
  "chunks_ok [] \<longleftrightarrow> False"
| "chunks_ok [c] \<longleftrightarrow> chunk_ok c \<and> ch_type c = ''IEND''"
| "chunks_ok (c # cs) \<longleftrightarrow> chunk_ok c \<and> ch_type c \<noteq> ''IEND'' \<and> chunks_ok cs"

record png_image =
  im_width :: nat
  im_height :: nat
  im_rest :: string
  im_crc :: string
  im_chunks :: "png_chunk list"

definition image_chunks :: "png_image \<Rightarrow> png_chunk list" where
  "image_chunks im = \<lparr>ch_type = ''IHDR'', ch_data = be32 (im_width im) @ be32 (im_height im) @ im_rest im,
     ch_crc = im_crc im\<rparr> # im_chunks im"

definition image_ok :: "png_image \<Rightarrow> bool" where
  "image_ok im \<longleftrightarrow> chunks_ok (image_chunks im) \<and> im_width im < 2 ^ 32 \<and> im_height im < 2 ^ 32"

definition png_bytes :: "png_image \<Rightarrow> string" where
  "png_bytes im = png_signature @ concat (map chunk_bytes (image_chunks im))"

lemma byte_nat_char_of: "byte_nat (char_of n) = n mod 256"
  by (simp add: byte_nat_def)

lemma be32_length [simp]: "length (be32 n) = 4"
  by (simp add: be32_def)

lemma read_be32_be32:
  assumes "n < 2 ^ 32"
  shows "read_be32 (pre @ be32 n @ post) (length pre) = n"
proof -
  have split: "k = c * 16777216 + r2 * 65536 + r1 * 256 + r0"
    if "k = a * 256 + r0" "a = b * 256 + r1" "b = c * 256 + r2" for k a b c r0 r1 r2 :: nat
    using that by simp
  have "n div 65536 div 256 < 256"
    using assms by (simp add: div_mult2_eq [symmetric])
  then have top: "n div 16777216 mod 256 = n div 65536 div 256"
    by (simp add: div_mult2_eq [symmetric])
  have "n = n div 65536 div 256 * 16777216 + n div 65536 mod 256 * 65536 + n div 256 mod 256 * 256 + n mod 256"
  proof (rule split [of _ "n div 256" _ "n div 65536"])
    have "n div 65536 = n div 256 div 256"
      by (simp add: div_mult2_eq [symmetric])
    then show "n div 256 = n div 65536 * 256 + n div 256 mod 256"
      by (simp only: div_mult_mod_eq)
  qed (simp_all only: div_mult_mod_eq)
  then have sum: "n div 16777216 mod 256 * 16777216 + n div 65536 mod 256 * 65536 + n div 256 mod 256 * 256 + n mod 256 = n"
    unfolding top by (rule sym)
  have idx: "(pre @ be32 n @ post) ! (length pre + i) = be32 n ! i" if "i < 4" for i
    using that by (simp add: nth_append)
  have at: "be32 n ! 0 = char_of (n div 16777216)" "be32 n ! 1 = char_of (n div 65536)"
    "be32 n ! 2 = char_of (n div 256)" "be32 n ! 3 = char_of n"
    by (simp_all add: be32_def)
  have "read_be32 (pre @ be32 n @ post) (length pre) =
    n div 16777216 mod 256 * 2 ^ 24 + n div 65536 mod 256 * 2 ^ 16 + n div 256 mod 256 * 2 ^ 8 + n mod 256"
    unfolding read_be32_def using idx [of 0] idx [of 1] idx [of 2] idx [of 3]
    by (simp only: at byte_nat_char_of add_0_right)
  also have "\<dots> = n"
  proof -
    have "(2 :: nat) ^ 24 = 16777216" "(2 :: nat) ^ 16 = 65536" "(2 :: nat) ^ 8 = 256"
      by simp_all
    with sum show ?thesis by (simp only:)
  qed
  finally show ?thesis .
qed

lemma chunk_bytes_length: "chunk_ok c \<Longrightarrow> length (chunk_bytes c) = 12 + length (ch_data c)"
  by (simp add: chunk_bytes_def chunk_ok_def)

text \<open>Looking at a chunk whose first eight bytes are in the buffer, cut short or not.\<close>

lemma chunk_header:
  assumes "chunk_ok c" "length pre + 8 \<le> k"
  shows "read_be32 (take k (pre @ chunk_bytes c @ post)) (length pre) = length (ch_data c)"
    "compare_at (take k (pre @ chunk_bytes c @ post)) (length pre + 4) tag \<longleftrightarrow>
       tag = take (length tag) (take (k - length pre - 4) (ch_type c @ ch_data c @ ch_crc c @ post))"
proof -
  have "take k (pre @ chunk_bytes c @ post) =
      pre @ be32 (length (ch_data c)) @ take (k - length pre - 4) (ch_type c @ ch_data c @ ch_crc c @ post)"
    using assms by (simp add: chunk_bytes_def take_append)
  note eq = this
  show "read_be32 (take k (pre @ chunk_bytes c @ post)) (length pre) = length (ch_data c)"
    unfolding eq using assms(1) by (intro read_be32_be32) (simp add: chunk_ok_def)
  show "compare_at (take k (pre @ chunk_bytes c @ post)) (length pre + 4) tag \<longleftrightarrow>
       tag = take (length tag) (take (k - length pre - 4) (ch_type c @ ch_data c @ ch_crc c @ post))"
    unfolding eq by (auto simp: compare_at_def)
qed

lemma png_end_step:
  assumes "chunk_ok c" "k \<le> length (pre @ chunk_bytes c @ post)"
  shows "png_end (take k (pre @ chunk_bytes c @ post)) (length pre) =
    (if k < length pre + length (chunk_bytes c) then None
     else if ch_type c = ''IEND'' then Some (length pre + length (chunk_bytes c))
     else png_end (take k (pre @ chunk_bytes c @ post)) (length (pre @ chunk_bytes c)))"
proof (cases "k < length pre + 8")
  case True
  moreover have "length (take k (pre @ chunk_bytes c @ post)) = k"
    using assms(2) by simp
  ultimately show ?thesis
    using chunk_bytes_length [OF assms(1)] by (subst png_end.simps) simp
next
  case False
  then have k: "length pre + 8 \<le> k" by simp
  let ?b = "take k (pre @ chunk_bytes c @ post)"
  have len: "length ?b = k"
    using assms(2) by simp
  have "take (length ''IEND'') (take (k - length pre - 4) (ch_type c @ ch_data c @ ch_crc c @ post)) = ch_type c"
    using assms(1) k by (simp add: chunk_ok_def)
  then have iend: "compare_at ?b (length pre + 4) ''IEND'' \<longleftrightarrow> ch_type c = ''IEND''"
    unfolding chunk_header(2) [OF assms(1) k] by auto
  have tot: "8 + read_be32 ?b (length pre) + 4 = length (chunk_bytes c)"
    unfolding chunk_header(1) [OF assms(1) k] chunk_bytes_length [OF assms(1)] by simp
  show ?thesis
    by (subst png_end.simps) (use k in \<open>simp only: Let_def tot iend len length_append not_less if_False\<close>, simp)
qed

lemma png_end_chunks:
  assumes "chunks_ok cs" "k \<le> length (pre @ concat (map chunk_bytes cs) @ post)"
  shows "png_end (take k (pre @ concat (map chunk_bytes cs) @ post)) (length pre) =
    (if length pre + length (concat (map chunk_bytes cs)) \<le> k
     then Some (length pre + length (concat (map chunk_bytes cs))) else None)"
  using assms
proof (induction cs arbitrary: pre rule: chunks_ok.induct)
  case (2 c)
  then show ?case
    using png_end_step [of c k pre post] by auto
next
  case (3 c c' cs)
  let ?post = "concat (map chunk_bytes (c' # cs)) @ post"
  have ok: "chunk_ok c" "ch_type c \<noteq> ''IEND''" "chunks_ok (c' # cs)"
    using "3.prems"(1) by simp_all
  have "png_end (take k (pre @ chunk_bytes c @ ?post)) (length (pre @ chunk_bytes c)) =
    (if length (pre @ chunk_bytes c) + length (concat (map chunk_bytes (c' # cs))) \<le> k
     then Some (length (pre @ chunk_bytes c) + length (concat (map chunk_bytes (c' # cs)))) else None)"
    using "3.IH" [OF ok(3), of "pre @ chunk_bytes c"] "3.prems"(2) by simp
  with png_end_step [OF ok(1), of k pre ?post] "3.prems"(2) ok(2) show ?case
    by auto
qed simp

lemma png_bytes_split:
  "png_bytes im = png_signature @ concat (map chunk_bytes (image_chunks im))" "length png_signature = 8"
  by (simp_all add: png_bytes_def png_signature_def)

lemma png_end_image:
  assumes "image_ok im" "k \<le> length (png_bytes im @ post)"
  shows "png_end (take k (png_bytes im @ post)) 8 =
    (if length (png_bytes im) \<le> k then Some (length (png_bytes im)) else None)"
  using png_end_chunks [of "image_chunks im" k png_signature post] assms
  by (simp add: image_ok_def png_bytes_split)

lemma png_dimensions_image:
  assumes "image_ok im"
  shows "png_dimensions (png_bytes im) = Inr (im_width im, im_height im)"
proof -
  let ?h = "be32 (length (be32 (im_width im) @ be32 (im_height im) @ im_rest im))"
  obtain post where eq: "png_bytes im =
      (png_signature @ ?h @ ''IHDR'') @ be32 (im_width im) @ be32 (im_height im) @ post"
    by (simp add: png_bytes_def image_chunks_def chunk_bytes_def)
  have "read_be32 (png_bytes im) 16 = im_width im"
    unfolding eq using assms read_be32_be32 [of "im_width im" "png_signature @ ?h @ ''IHDR''"]
    by (simp add: image_ok_def png_bytes_split)
  moreover have "read_be32 (png_bytes im) 20 = im_height im"
    unfolding eq using assms read_be32_be32 [of "im_height im" "(png_signature @ ?h @ ''IHDR'') @ be32 (im_width im)" post]
    by (simp add: image_ok_def png_bytes_split)
  moreover have "\<not> length (png_bytes im) < 24" "compare_at (png_bytes im) 12 ''IHDR''"
    unfolding eq compare_at_def by (simp_all add: png_bytes_split)
  ultimately show ?thesis
    by (simp add: png_dimensions_def)
qed

text \<open>What the sink is handed for the \<open>i\<close>-th still, and a sink that records it.\<close>

definition still_of :: "nat \<Rightarrow> nat \<Rightarrow> png_image \<Rightarrow> nat \<times> nat \<times> nat \<times> string" where
  "still_of interval i im = (u64 (i * interval * 1000), im_width im, im_height im, png_bytes im)"

fun stills_from :: "nat \<Rightarrow> nat \<Rightarrow> png_image list \<Rightarrow> (nat \<times> nat \<times> nat \<times> string) list" where
  "stills_from interval i [] = []"
| "stills_from interval i (im # ims) = still_of interval i im # stills_from interval (i + 1) ims"

definition record_still ::
  "(nat \<times> nat \<times> nat \<times> string) list \<Rightarrow> nat \<Rightarrow> nat \<Rightarrow> nat \<Rightarrow> string \<Rightarrow> (nat \<times> nat \<times> nat \<times> string) list \<times> bool" where
  "record_still log ts w h png = (log @ [(ts, w, h, png)], True)"

definition incomplete :: "string \<Rightarrow> png_image list \<Rightarrow> bool" where
  "incomplete b ims \<longleftrightarrow> ims = [] \<or> length b < length (png_bytes (hd ims))"

text \<open>One call of \<open>emit_complete\<close> takes out exactly the images that are complete.\<close>

lemma emit_complete_images:
  assumes "list_all image_ok ims" "b @ rest = concat (map png_bytes ims)" "i + length ims < 2 ^ 64"
  shows "\<exists>k b'. k \<le> length ims \<and> b' @ rest = concat (map png_bytes (drop k ims)) \<and> incomplete b' (drop k ims) \<and>
    emit_complete record_still interval b i log = ((b', i + k, log @ stills_from interval i (take k ims)), Inr True)"
  using assms
proof (induction ims arbitrary: b i log)
  case Nil
  then show ?case
    by (subst emit_complete.simps) (simp add: incomplete_def)
next
  case (Cons im ims)
  have ok: "image_ok im"
    using Cons.prems(1) by simp
  let ?all = "png_bytes im @ concat (map png_bytes ims)"
  have b: "b = take (length b) ?all" "length b \<le> length ?all"
    using Cons.prems(2) by (metis append_eq_conv_conj concat.simps(2) list.simps(9), metis concat.simps(2) length_append le_add1 list.simps(9))
  have pe: "png_end b 8 = (if length (png_bytes im) \<le> length b then Some (length (png_bytes im)) else None)"
    by (subst b(1)) (rule png_end_image [OF ok b(2)])
  have sig: "8 \<le> length b \<Longrightarrow> take 8 b = png_signature"
    by (subst b(1)) (simp add: png_bytes_split min_def)
  show ?case
  proof (cases "length (png_bytes im) \<le> length b")
    case False
    then have "emit_complete record_still interval b i log = ((b, i, log), Inr True)"
      using sig pe by (subst emit_complete.simps) simp
    with False Cons.prems(2) show ?thesis
      by (intro exI [of _ 0] exI [of _ b]) (simp add: incomplete_def)
  next
    case True
    define b2 where "b2 = drop (length (png_bytes im)) b"
    have tk: "take (length (png_bytes im)) b = png_bytes im"
      by (subst b(1)) (use True in \<open>simp add: min_absorb1\<close>)
    then have b2: "b = png_bytes im @ b2" "b2 @ rest = concat (map png_bytes ims)"
      using Cons.prems(2) append_take_drop_id [of "length (png_bytes im)" b] by (simp_all add: b2_def) (metis append.assoc same_append_eq)
    have "8 \<le> length b"
      using True png_bytes_split(2) by (simp add: png_bytes_split(1))
    moreover have "u64 (i + 1) = i + 1"
      using Cons.prems(3) by simp
    ultimately have step: "emit_complete record_still interval b i log =
        emit_complete record_still interval b2 (i + 1) (log @ [still_of interval i im])"
      using sig pe True tk png_dimensions_image [OF ok]
      by (subst emit_complete.simps) (simp add: Let_def record_still_def still_of_def b2_def)
    have "list_all image_ok ims" "i + 1 + length ims < 2 ^ 64"
      using Cons.prems by simp_all
    from Cons.IH [OF this(1) b2(2) this(2), of "log @ [still_of interval i im]"]
    obtain k b' where "k \<le> length ims" "b' @ rest = concat (map png_bytes (drop k ims))" "incomplete b' (drop k ims)"
      "emit_complete record_still interval b2 (i + 1) (log @ [still_of interval i im]) =
        ((b', i + 1 + k, (log @ [still_of interval i im]) @ stills_from interval (i + 1) (take k ims)), Inr True)"
      by blast
    with step show ?thesis
      by (intro exI [of _ "Suc k"] exI [of _ b']) simp
  qed
qed

lemma keyframe_loop_images:
  assumes "list_all image_ok ims" "b @ concat chunks = concat (map png_bytes ims)" "incomplete b ims"
    and "i + length ims < 2 ^ 64"
  shows "keyframe_loop record_still interval chunks (b, i, log) =
    (([], i + length ims, log @ stills_from interval i ims), Inr True)"
  using assms
proof (induction chunks arbitrary: b i log ims)
  case Nil
  then have "ims = []"
    by (cases ims) (auto simp: incomplete_def)
  with Nil show ?case by simp
next
  case (Cons chunk chunks)
  have "(b @ chunk) @ concat chunks = concat (map png_bytes ims)"
    using Cons.prems(2) by simp
  from emit_complete_images [OF Cons.prems(1) this Cons.prems(4), of interval log]
  obtain k b' where k: "k \<le> length ims" "b' @ concat chunks = concat (map png_bytes (drop k ims))"
    "incomplete b' (drop k ims)"
    "emit_complete record_still interval (b @ chunk) i log = ((b', i + k, log @ stills_from interval i (take k ims)), Inr True)"
    by blast
  have app: "stills_from interval i (xs @ ys) = stills_from interval i xs @ stills_from interval (i + length xs) ys" for xs ys i
    by (induction xs arbitrary: i) simp_all
  have "list_all image_ok (drop k ims)"
    using Cons.prems(1) by (auto simp: list_all_iff dest: in_set_dropD)
  from Cons.IH [OF this k(2,3), of "i + k" "log @ stills_from interval i (take k ims)"] k(1,4) Cons.prems(4)
    app [of i "take k ims" "drop k ims"]
  show ?case by (simp add: min_absorb2)
qed

text \<open>C27: keyframe extraction is independent of how the PNG stream is cut into reads: for a
  child that writes a sequence of PNG files and exits cleanly, the sink receives every file,
  byte for byte and in order, with its own dimensions and the time of its place on the
  sampling grid, and the call ends without an error.\<close>

theorem extract_keyframes_lossless:
  assumes "list_all image_ok ims" "concat chunks = concat (map png_bytes ims)" "length ims < 2 ^ 64"
  shows "extract_keyframes record_still ffmpeg interval chunks 0 tail [] = (stills_from interval 0 ims, None)"
proof -
  have "incomplete [] ims"
    by (cases ims) (simp_all add: incomplete_def png_bytes_def png_signature_def)
  with keyframe_loop_images [of ims "[]" chunks 0 interval "[]"] assms show ?thesis
    by (simp add: extract_keyframes_def)
qed

definition demo_image :: png_image where
  "demo_image = \<lparr>im_width = 2, im_height = 3, im_rest = ''xxxxx'', im_crc = ''abcd'',
     im_chunks = [\<lparr>ch_type = ''IDAT'', ch_data = ''data'', ch_crc = ''wxyz''\<rparr>, \<lparr>ch_type = ''IEND'', ch_data = [], ch_crc = ''end!''\<rparr>]\<rparr>"

theorem extract_keyframes_lossless_witness:
  "extract_keyframes record_still ''ffmpeg'' 5
     [take 11 (png_bytes demo_image), drop 11 (png_bytes demo_image) @ png_bytes demo_image] 0 [] []
   = ([(0, 2, 3, png_bytes demo_image), (5000, 2, 3, png_bytes demo_image)], None)"
proof -
  have "image_ok demo_image"
    by (simp add: image_ok_def demo_image_def image_chunks_def chunk_ok_def)
  then show ?thesis
    using extract_keyframes_lossless [of "[demo_image, demo_image]"
        "[take 11 (png_bytes demo_image), drop 11 (png_bytes demo_image) @ png_bytes demo_image]" "''ffmpeg''" 5 "[]"]
    by (simp add: still_of_def) (simp add: demo_image_def)
qed

end
