(* ===== verification/Config.thy ===== *)
theory Config
  imports Prelude "HOL-Library.Char_ord"
begin

text \<open>
  The configuration read from the environment (src/src/config.h, config.cpp). The environment
  is a map from names to values; \<open>std::strtoull\<close> is the C library's for base 10: leading
  white space, a sign (a minus negates modulo the width), digits, saturation on overflow.
\<close>

section \<open>Reading one variable\<close>

type_synonym environment = "string \<rightharpoonup> string"

definition is_digit :: "char \<Rightarrow> bool" where
  "is_digit c \<longleftrightarrow> CHR ''0'' \<le> c \<and> c \<le> CHR ''9''"

definition digit_value :: "char \<Rightarrow> nat" where
  "digit_value c = of_char c - 48"

definition digits_value :: "string \<Rightarrow> nat" where
  "digits_value ds = foldl (\<lambda>n c. n * 10 + digit_value c) 0 ds"

definition is_space :: "char \<Rightarrow> bool" where
  "is_space c \<longleftrightarrow> c = CHR '' '' \<or> (9 \<le> (of_char c :: nat) \<and> (of_char c :: nat) \<le> 13)"

text \<open>The value and the unparsed rest; \<open>None\<close> when no conversion is done (\<open>end == raw\<close>).\<close>

definition strtoull :: "string \<Rightarrow> (nat \<times> string) option" where
  "strtoull raw =
     (let s = dropWhile is_space raw;
          neg = (s \<noteq> [] \<and> hd s = CHR ''-'');
          t = (if s \<noteq> [] \<and> (hd s = CHR ''-'' \<or> hd s = CHR ''+'') then tl s else s);
          ds = takeWhile is_digit t;
          n = digits_value ds
      in if ds = [] then None
         else Some (if n > uint64_max then uint64_max
                    else if neg then u64 (2 ^ 64 - n) else n, dropWhile is_digit t))"

definition env_set :: "environment \<Rightarrow> string \<Rightarrow> string option" where
  "env_set env name = (case env name of Some raw \<Rightarrow> if raw = [] then None else Some raw | None \<Rightarrow> None)"

definition configured_size :: "environment \<Rightarrow> string \<Rightarrow> nat \<Rightarrow> nat \<Rightarrow> nat \<Rightarrow> exn + nat" where
  "configured_size env name fallback minimum maximum =
     (case env_set env name of
        None \<Rightarrow> Inr fallback
      | Some raw \<Rightarrow>
          (let err = Inl (Invalid_argument (name @ '' must be an integer between '' @ to_string minimum @
                                            '' and '' @ to_string maximum))
           in case strtoull raw of
             None \<Rightarrow> err
           | Some (v, rest) \<Rightarrow> if rest \<noteq> [] \<or> v < minimum \<or> v > maximum then err else Inr v))"

definition configured_string :: "environment \<Rightarrow> string \<Rightarrow> string \<Rightarrow> string" where
  "configured_string env name fallback = (case env_set env name of None \<Rightarrow> fallback | Some raw \<Rightarrow> raw)"

definition lower :: "char \<Rightarrow> char" where
  "lower c = (if CHR ''A'' \<le> c \<and> c \<le> CHR ''Z'' then char_of (of_char c + (32 :: nat)) else c)"

definition configured_bool :: "environment \<Rightarrow> string \<Rightarrow> bool \<Rightarrow> exn + bool" where
  "configured_bool env name fallback =
     (case env_set env name of
        None \<Rightarrow> Inr fallback
      | Some raw \<Rightarrow>
          (let v = map lower raw
           in if v = ''1'' \<or> v = ''true'' then Inr True
              else if v = ''0'' \<or> v = ''false'' then Inr False
              else Inl (Invalid_argument (name @ '' must be 0, 1, true, or false''))))"

text \<open>The items between commas, and the trimming of one item.\<close>

fun split_commas :: "string \<Rightarrow> string list" where
  "split_commas [] = [[]]"
| "split_commas (c # cs) =
     (if c = CHR '','' then [] # split_commas cs
      else case split_commas cs of item # items \<Rightarrow> (c # item) # items | [] \<Rightarrow> [[c]])"

definition is_blank :: "char \<Rightarrow> bool" where
  "is_blank c \<longleftrightarrow> c = CHR '' '' \<or> c = CHR 0x09"

definition trim :: "string \<Rightarrow> string" where
  "trim s = rev (dropWhile is_blank (rev (dropWhile is_blank s)))"

definition configured_list :: "environment \<Rightarrow> string \<Rightarrow> exn + string list" where
  "configured_list env name =
     (case env name of
        None \<Rightarrow> Inr []
      | Some raw \<Rightarrow>
          (let values = filter (\<lambda>s. s \<noteq> []) (map trim (split_commas raw))
           in if values = [] then Inl (Invalid_argument (name @ '' is set but names no models''))
              else Inr values))"

section \<open>The configuration\<close>

record config =
  listen_address :: string
  cfg_backend :: string
  cuda_device :: nat
  openvino_device :: string
  models_dir :: string
  models :: "string list"
  concurrency :: nat
  queue_timeout_seconds :: nat
  max_media_bytes :: nat
  max_duration_seconds :: nat
  window_seconds :: nat
  threads :: nat
  keyframe_interval_seconds :: nat
  document_word_provenance :: bool
  metrics_interval_seconds :: nat
  tool_inactivity_seconds :: nat
  cfg_ffmpeg :: string
  cfg_ffprobe :: string

abbreviation err_bind :: "exn + 'a \<Rightarrow> ('a \<Rightarrow> exn + 'b) \<Rightarrow> exn + 'b" where
  "err_bind r k \<equiv> (case r of Inl e \<Rightarrow> Inl e | Inr x \<Rightarrow> k x)"

text \<open>\<open>hw\<close> is what \<open>std::thread::hardware_concurrency\<close> answers.\<close>

definition load_config_from_env :: "nat \<Rightarrow> environment \<Rightarrow> exn + config" where
  "load_config_from_env hw env =
     (let backend = configured_string env ''GRPC_ASR_BACKEND'' ''cuda''
      in if backend \<noteq> ''cuda'' \<and> backend \<noteq> ''openvino'' \<and> backend \<noteq> ''cpu''
      then Inl (Invalid_argument ''GRPC_ASR_BACKEND must be cuda, openvino, or cpu'')
      else
        err_bind (configured_size env ''GRPC_ASR_CUDA_DEVICE'' 0 0 63) (\<lambda>cuda.
        err_bind (configured_list env ''GRPC_ASR_MODELS'') (\<lambda>names.
        err_bind (configured_size env ''GRPC_ASR_CONCURRENCY'' 2 1 64) (\<lambda>conc.
        err_bind (configured_size env ''GRPC_ASR_QUEUE_TIMEOUT_SECONDS'' 1800 0 604800) (\<lambda>queue.
        err_bind (configured_size env ''GRPC_ASR_MAX_MEDIA_BYTES'' 268435456 1024 4294967296) (\<lambda>media.
        err_bind (configured_size env ''GRPC_ASR_MAX_DURATION_SECONDS'' 14400 1 604800) (\<lambda>duration.
        err_bind (configured_size env ''GRPC_ASR_WINDOW_SECONDS'' 480 10 3600) (\<lambda>win.
        err_bind (configured_size env ''GRPC_ASR_THREADS'' (min 4 (max 1 hw)) 1 256) (\<lambda>thr.
        err_bind (configured_size env ''GRPC_ASR_KEYFRAME_INTERVAL_SECONDS'' 10 1 3600) (\<lambda>interval.
        err_bind (configured_bool env ''GRPC_ASR_DOCUMENT_WORD_PROVENANCE'' True) (\<lambda>prov.
        err_bind (configured_size env ''GRPC_ASR_METRICS_INTERVAL_SECONDS'' 60 0 86400) (\<lambda>metrics.
        err_bind (configured_size env ''GRPC_ASR_TOOL_INACTIVITY_SECONDS'' 120 1 3600) (\<lambda>idle.
          Inr \<lparr>listen_address = configured_string env ''GRPC_ASR_LISTEN_ADDRESS'' ''0.0.0.0:50055'',
               cfg_backend = backend, cuda_device = cuda,
               openvino_device = configured_string env ''GRPC_ASR_OPENVINO_DEVICE'' ''GPU'',
               models_dir = configured_string env ''GRPC_ASR_MODELS_DIR'' ''/models'',
               models = names, concurrency = conc, queue_timeout_seconds = queue,
               max_media_bytes = media, max_duration_seconds = duration, window_seconds = win,
               threads = thr, keyframe_interval_seconds = interval, document_word_provenance = prov,
               metrics_interval_seconds = metrics, tool_inactivity_seconds = idle,
               cfg_ffmpeg = configured_string env ''GRPC_ASR_FFMPEG'' ''ffmpeg'',
               cfg_ffprobe = configured_string env ''GRPC_ASR_FFPROBE'' ''ffprobe''\<rparr>)))))))))))))"

section \<open>Decimal numbers\<close>

lemma digit_char:
  assumes "n < 10"
  shows "is_digit (char_of (48 + n))" "digit_value (char_of (48 + n)) = n"
proof -
  have "\<forall>n \<in> set [0..<10 :: nat]. is_digit (char_of (48 + n)) \<and> digit_value (char_of (48 + n)) = n"
    by code_simp
  with assms show "is_digit (char_of (48 + n))" "digit_value (char_of (48 + n)) = n"
    by auto
qed

lemma to_string_digits: "list_all is_digit (to_string n) \<and> digits_value (to_string n) = n \<and> to_string n \<noteq> []"
proof (induction n rule: less_induct)
  case (less n)
  show ?case
  proof (cases "n < 10")
    case True
    then show ?thesis
      by (subst (1 2 3) to_string.simps) (simp add: digit_char digits_value_def)
  next
    case False
    then have ih: "list_all is_digit (to_string (n div 10))" "digits_value (to_string (n div 10)) = n div 10"
      using less.IH [of "n div 10"] by simp_all
    have "n mod 10 < 10" by simp
    with False ih show ?thesis
      by (subst (1 2 3) to_string.simps) (simp add: digit_char digits_value_def)
  qed
qed

lemma is_digit_iff: "is_digit c \<longleftrightarrow> 48 \<le> (of_char c :: nat) \<and> (of_char c :: nat) \<le> 57"
  by (simp add: is_digit_def less_eq_char_def)

lemma is_digit_not_space: "is_digit c \<Longrightarrow> \<not> is_space c \<and> c \<noteq> CHR ''-'' \<and> c \<noteq> CHR ''+''"
  by (auto simp: is_digit_iff is_space_def)

lemma strtoull_digits:
  assumes "list_all is_digit ds" "ds \<noteq> []" "digits_value ds \<le> uint64_max"
  shows "strtoull ds = Some (digits_value ds, [])"
proof -
  have hd: "is_digit (hd ds)"
    using assms by (cases ds) auto
  have "dropWhile is_space ds = ds"
    using is_digit_not_space [OF hd] assms(2) by (cases ds) auto
  moreover have "takeWhile is_digit ds = ds" "dropWhile is_digit ds = []"
    using assms(1) by (auto simp: list_all_iff)
  ultimately show ?thesis
    using assms(2,3) is_digit_not_space [OF hd]
    by (simp add: strtoull_def Let_def del: takeWhile_eq_all_conv dropWhile_eq_Nil_conv)
qed

section \<open>Properties\<close>

text \<open>An operator's decimal number is honoured exactly when it is in the accepted range,
  and refused with an error that names the variable otherwise; nothing is silently replaced by
  a default.\<close>

theorem configured_size_decimal:
  assumes "env name = Some (to_string n)" "n \<le> uint64_max"
  shows "configured_size env name fallback lo hi =
    (if lo \<le> n \<and> n \<le> hi then Inr n
     else Inl (Invalid_argument (name @ '' must be an integer between '' @ to_string lo @ '' and '' @ to_string hi)))"
  using assms to_string_digits [of n] strtoull_digits [of "to_string n"]
  by (auto simp: configured_size_def env_set_def Let_def)

theorem configured_size_decimal_witness:
  "configured_size [''GRPC_ASR_CONCURRENCY'' \<mapsto> to_string 7] ''GRPC_ASR_CONCURRENCY'' 2 1 64 = Inr 7"
  using configured_size_decimal [of "[''GRPC_ASR_CONCURRENCY'' \<mapsto> to_string 7]" "''GRPC_ASR_CONCURRENCY''" 7 2 1 64]
  by simp

lemma configured_size_range:
  assumes "configured_size env name fallback lo hi = Inr n" "lo \<le> fallback" "fallback \<le> hi"
  shows "lo \<le> n \<and> n \<le> hi"
  using assms by (auto simp: configured_size_def Let_def split: option.splits if_splits prod.splits)

text \<open>What the rest of the collector may assume of a configuration.\<close>

definition config_ok :: "config \<Rightarrow> bool" where
  "config_ok c \<longleftrightarrow> cfg_backend c \<in> {''cuda'', ''openvino'', ''cpu''} \<and> cuda_device c \<le> 63 \<and>
     1 \<le> concurrency c \<and> concurrency c \<le> 64 \<and> queue_timeout_seconds c \<le> 604800 \<and>
     1024 \<le> max_media_bytes c \<and> max_media_bytes c \<le> 4294967296 \<and>
     1 \<le> max_duration_seconds c \<and> max_duration_seconds c \<le> 604800 \<and>
     10 \<le> window_seconds c \<and> window_seconds c \<le> 3600 \<and> 1 \<le> threads c \<and> threads c \<le> 256 \<and>
     1 \<le> keyframe_interval_seconds c \<and> keyframe_interval_seconds c \<le> 3600 \<and>
     metrics_interval_seconds c \<le> 86400 \<and> 1 \<le> tool_inactivity_seconds c \<and> tool_inactivity_seconds c \<le> 3600"

lemma err_bind_Inr: "err_bind r k = Inr y \<longleftrightarrow> (\<exists>x. r = Inr x \<and> k x = Inr y)"
  by (cases r) auto

text \<open>Whatever the environment holds, a configuration that loads is within every documented
  range, on every machine; in particular the window and the cap keep the transcriber's sample
  arithmetic far from its width.\<close>

theorem load_config_ok:
  assumes "load_config_from_env hw env = Inr c"
  shows "config_ok c"
proof -
  let ?backend = "configured_string env ''GRPC_ASR_BACKEND'' ''cuda''"
  have backend: "?backend \<in> {''cuda'', ''openvino'', ''cpu''}"
    using assms by (auto simp: load_config_from_env_def Let_def split: if_splits)
  note ld = assms [unfolded load_config_from_env_def Let_def]
  obtain cuda names conc queue media duration win thr interval prov metrics idle where
    sizes: "configured_size env ''GRPC_ASR_CUDA_DEVICE'' 0 0 63 = Inr cuda"
      "configured_size env ''GRPC_ASR_CONCURRENCY'' 2 1 64 = Inr conc"
      "configured_size env ''GRPC_ASR_QUEUE_TIMEOUT_SECONDS'' 1800 0 604800 = Inr queue"
      "configured_size env ''GRPC_ASR_MAX_MEDIA_BYTES'' 268435456 1024 4294967296 = Inr media"
      "configured_size env ''GRPC_ASR_MAX_DURATION_SECONDS'' 14400 1 604800 = Inr duration"
      "configured_size env ''GRPC_ASR_WINDOW_SECONDS'' 480 10 3600 = Inr win"
      "configured_size env ''GRPC_ASR_THREADS'' (min 4 (max 1 hw)) 1 256 = Inr thr"
      "configured_size env ''GRPC_ASR_KEYFRAME_INTERVAL_SECONDS'' 10 1 3600 = Inr interval"
      "configured_size env ''GRPC_ASR_METRICS_INTERVAL_SECONDS'' 60 0 86400 = Inr metrics"
      "configured_size env ''GRPC_ASR_TOOL_INACTIVITY_SECONDS'' 120 1 3600 = Inr idle"
    and fields: "cfg_backend c = ?backend" "cuda_device c = cuda" "concurrency c = conc" "queue_timeout_seconds c = queue"
      "max_media_bytes c = media" "max_duration_seconds c = duration" "window_seconds c = win" "threads c = thr"
      "keyframe_interval_seconds c = interval" "metrics_interval_seconds c = metrics" "tool_inactivity_seconds c = idle"
    using ld by (auto simp: err_bind_Inr split: if_splits)
  have "cuda \<le> 63" "1 \<le> conc \<and> conc \<le> 64" "queue \<le> 604800" "1024 \<le> media \<and> media \<le> 4294967296"
    "1 \<le> duration \<and> duration \<le> 604800" "10 \<le> win \<and> win \<le> 3600" "1 \<le> thr \<and> thr \<le> 256"
    "1 \<le> interval \<and> interval \<le> 3600" "metrics \<le> 86400" "1 \<le> idle \<and> idle \<le> 3600"
    using sizes [THEN configured_size_range] by simp_all
  then show ?thesis
    using backend by (simp add: config_ok_def fields)
qed

theorem load_config_ok_witness:
  "\<exists>c. load_config_from_env 8 Map.empty = Inr c \<and> config_ok c"
proof -
  have "\<exists>c. load_config_from_env 8 Map.empty = Inr c"
    by (simp add: load_config_from_env_def configured_size_def configured_string_def configured_bool_def
        configured_list_def env_set_def)
  then show ?thesis
    using load_config_ok by blast
qed

text \<open>A minus sign is not refused as such: \<open>strtoull\<close> negates modulo the width, so the
  text -18446744073709551611 is accepted as 5.\<close>

theorem configured_size_negative_text:
  "configured_size [''GRPC_ASR_CONCURRENCY'' \<mapsto> ''-18446744073709551611''] ''GRPC_ASR_CONCURRENCY'' 2 1 64 = Inr 5"
proof -
  have "takeWhile is_digit ''18446744073709551611'' = ''18446744073709551611''"
    "dropWhile is_digit ''18446744073709551611'' = []" "\<not> is_space (CHR ''-'')"
    by code_simp+
  moreover have "digits_value ''18446744073709551611'' = 18446744073709551611"
    by (simp add: digits_value_def digit_value_def)
  ultimately have "strtoull ''-18446744073709551611'' = Some (5, [])"
    by (simp add: strtoull_def Let_def)
  then show ?thesis
    by (simp add: configured_size_def env_set_def)
qed

end
