(* ===== verification/Remote_Options.thy ===== *)
theory Remote_Options
  imports Config "HOL-Library.List_Lexorder"
begin

text \<open>
  The options of remote transcription (src/src/engine/remote_options.h, remote_options.cpp):
  their validation and the form fields they become. A protobuf map is the association list in
  the order it is iterated; a double is its bit pattern, and \<open>std::to_chars\<close> in scientific
  format is a parameter.
\<close>

section \<open>Doubles\<close>

type_synonym f64 = "64 word"

definition f64_mag :: "f64 \<Rightarrow> int" where
  "f64_mag x = uint (take_bit 63 x)"

definition f64_isfinite :: "f64 \<Rightarrow> bool" where
  "f64_isfinite x \<longleftrightarrow> f64_mag x < 0x7FF0000000000000"

definition f64_isnan :: "f64 \<Rightarrow> bool" where
  "f64_isnan x \<longleftrightarrow> 0x7FF0000000000000 < f64_mag x"

definition f64_neg :: "f64 \<Rightarrow> bool" where
  "f64_neg x = bit x 63"

definition f64_key :: "f64 \<Rightarrow> int" where
  "f64_key x = (if f64_neg x then - f64_mag x else f64_mag x)"

definition f64_le :: "f64 \<Rightarrow> f64 \<Rightarrow> bool" where
  "f64_le x y \<longleftrightarrow> \<not> f64_isnan x \<and> \<not> f64_isnan y \<and> f64_key x \<le> f64_key y"

definition f64_lt :: "f64 \<Rightarrow> f64 \<Rightarrow> bool" where
  "f64_lt x y \<longleftrightarrow> \<not> f64_isnan x \<and> \<not> f64_isnan y \<and> f64_key x < f64_key y"

text \<open>The bit patterns of 600.0 and 3600.0.\<close>

definition kDefaultRemoteTimeoutSeconds :: f64 where
  "kDefaultRemoteTimeoutSeconds = 0x4082C00000000000"

definition kMaxRemoteTimeoutSeconds :: f64 where
  "kMaxRemoteTimeoutSeconds = 0x40AC200000000000"

section \<open>Data\<close>

datatype scalar_value =
    String_value string | Int_value int | Double_value f64 | Bool_value bool | Uint_value nat | Kind_not_set

record remote_options =
  ro_url :: string
  ro_headers :: "(string \<times> string) list"
  ro_model :: string
  ro_language :: string
  ro_initial_prompt :: string
  ro_word_timestamps :: bool
  ro_params :: "(string \<times> scalar_value) list"
  ro_timeout_seconds :: "f64 option"

section \<open>Validation\<close>

definition invalid :: "string \<Rightarrow> status" where
  "invalid message = Status INVALID_ARGUMENT message"

definition starts_with_ci :: "string \<Rightarrow> string \<Rightarrow> bool" where
  "starts_with_ci text prefix \<longleftrightarrow>
     length text \<ge> length prefix \<and> map lower (take (length prefix) text) = prefix"

definition is_alnum :: "char \<Rightarrow> bool" where
  "is_alnum c \<longleftrightarrow> (CHR ''a'' \<le> c \<and> c \<le> CHR ''z'') \<or> (CHR ''A'' \<le> c \<and> c \<le> CHR ''Z'') \<or> is_digit c"

definition token_char :: "char \<Rightarrow> bool" where
  "token_char c \<longleftrightarrow> is_alnum c \<or> c \<in> set (''!#$%&'' @ [CHR 0x27] @ ''*+-.^_`|~'')"

definition is_token :: "string \<Rightarrow> bool" where
  "is_token name \<longleftrightarrow> name \<noteq> [] \<and> list_all token_char name"

text \<open>The text before the first character of \<open>cs\<close>, and what follows it (\<open>None\<close>: no such).\<close>

definition cut_at :: "string \<Rightarrow> string \<Rightarrow> string \<times> string option" where
  "cut_at cs s =
     (case dropWhile (\<lambda>c. c \<notin> set cs) s of
        [] \<Rightarrow> (s, None)
      | _ # rest \<Rightarrow> (takeWhile (\<lambda>c. c \<notin> set cs) s, Some rest))"

text \<open>Host and port of an authority, or the message of the refusal.\<close>

definition split_authority :: "string \<Rightarrow> string + string \<times> string" where
  "split_authority authority =
     (if authority \<noteq> [] \<and> hd authority = CHR ''[''
      then case cut_at '']'' authority of
          (_, None) \<Rightarrow> Inl ''RemoteTranscriptionOptions.url has an unterminated IPv6 host''
        | (before, Some after) \<Rightarrow>
            if after = [] then Inr (tl before, [])
            else if hd after \<noteq> CHR '':'' then Inl ''RemoteTranscriptionOptions.url has a malformed host''
            else if tl after = [] then Inl ''RemoteTranscriptionOptions.url has an empty port''
            else Inr (tl before, tl after)
      else case cut_at '':'' authority of
          (host, None) \<Rightarrow> Inr (host, [])
        | (host, Some port) \<Rightarrow>
            if port = [] then Inl ''RemoteTranscriptionOptions.url has an empty port'' else Inr (host, port))"

definition authority_of :: "string \<Rightarrow> string" where
  "authority_of url = fst (cut_at ''/?#'' (drop (if starts_with_ci url ''http://'' then 7 else 8) url))"

definition port_ok :: "string \<Rightarrow> bool" where
  "port_ok port \<longleftrightarrow> length port \<le> 5 \<and> list_all is_digit port \<and> digits_value port \<noteq> 0 \<and> digits_value port \<le> 65535"

definition validate_url :: "string \<Rightarrow> string option" where
  "validate_url url =
     (if \<not> starts_with_ci url ''http://'' \<and> \<not> starts_with_ci url ''https://''
      then Some ''RemoteTranscriptionOptions.url must be an http or https URL''
      else if \<exists>c \<in> set url. c \<in> set [CHR '' '', CHR 0x0D, CHR 0x0A, CHR 0x09]
      then Some ''RemoteTranscriptionOptions.url must not contain whitespace''
      else if CHR ''@'' \<in> set (authority_of url)
      then Some ''RemoteTranscriptionOptions.url must not carry userinfo; send credentials in headers''
      else case split_authority (authority_of url) of
        Inl message \<Rightarrow> Some message
      | Inr (host, port) \<Rightarrow>
          if host = [] then Some ''RemoteTranscriptionOptions.url has no host''
          else if port \<noteq> [] \<and> \<not> port_ok port
          then Some ''RemoteTranscriptionOptions.url port must be a number in 1-65535''
          else None)"

fun validate_headers :: "string set \<Rightarrow> (string \<times> string) list \<Rightarrow> string option" where
  "validate_headers seen [] = None"
| "validate_headers seen ((name, v) # rest) =
     (if \<not> is_token name
      then Some (''RemoteTranscriptionOptions.headers key '' @ [CHR 0x27] @ name @ [CHR 0x27] @ '' is not an HTTP token'')
      else if map lower name \<in> seen
      then Some (''RemoteTranscriptionOptions.headers key '' @ [CHR 0x27] @ name @ [CHR 0x27] @
                 '' repeats another header name (names are case-insensitive)'')
      else if CHR 0x0D \<in> set v \<or> CHR 0x0A \<in> set v
      then Some (''RemoteTranscriptionOptions.headers['' @ [CHR 0x27] @ name @ [CHR 0x27] @ ''] contains CR or LF'')
      else validate_headers (insert (map lower name) seen) rest)"

fun validate_params :: "(string \<times> scalar_value) list \<Rightarrow> string option" where
  "validate_params [] = None"
| "validate_params ((key, v) # rest) =
     (if key = [] then Some ''RemoteTranscriptionOptions.params has an empty key''
      else if v = Kind_not_set
      then Some (''RemoteTranscriptionOptions.params['' @ [CHR 0x27] @ key @ [CHR 0x27] @ ''] has no value'')
      else validate_params rest)"

definition timeout_ok :: "f64 \<Rightarrow> bool" where
  "timeout_ok t \<longleftrightarrow> f64_isfinite t \<and> \<not> f64_le t 0 \<and> \<not> f64_lt kMaxRemoteTimeoutSeconds t"

definition validate_remote_options :: "remote_options \<Rightarrow> status" where
  "validate_remote_options opts =
     (case validate_url (ro_url opts) of
        Some message \<Rightarrow> invalid message
      | None \<Rightarrow>
          (case validate_headers {} (ro_headers opts) of
             Some message \<Rightarrow> invalid message
           | None \<Rightarrow>
               (case validate_params (ro_params opts) of
                  Some message \<Rightarrow> invalid message
                | None \<Rightarrow>
                    (case ro_timeout_seconds opts of
                       None \<Rightarrow> Status OK []
                     | Some t \<Rightarrow>
                         if \<not> timeout_ok t
                         then invalid ''RemoteTranscriptionOptions.timeout_seconds must be > 0 and at most 3600''
                         else Status OK []))))"

section \<open>Form fields\<close>

text \<open>
  The layout of \<open>python_float\<close> from the digits and the exponent of the scientific form, and
  the reading of that form (sign, digits without the point, exponent after the e).
\<close>

definition zeros :: "nat \<Rightarrow> string" where
  "zeros n = replicate n CHR ''0''"

definition float_layout :: "string \<Rightarrow> string \<Rightarrow> int \<Rightarrow> string" where
  "float_layout sign digits exponent =
     (if - 4 \<le> exponent \<and> exponent < 16
      then
        let point = exponent + 1; count = int (length digits)
        in if point \<le> 0 then sign @ ''0.'' @ zeros (nat (- point)) @ digits
           else if point \<ge> count then sign @ digits @ zeros (nat (point - count)) @ ''.0''
           else sign @ take (nat point) digits @ ''.'' @ drop (nat point) digits
      else
        let magnitude = nat \<bar>exponent\<bar>
        in sign @ take 1 digits @ (if length digits > 1 then ''.'' @ drop 1 digits else []) @
           (if exponent < 0 then ''e-'' else ''e+'') @ (if magnitude < 10 then ''0'' else []) @
           to_string magnitude)"

definition read_exponent :: "string \<Rightarrow> int" where
  "read_exponent s =
     (if s \<noteq> [] \<and> hd s = CHR ''-'' then - int (digits_value (tl s))
      else if s \<noteq> [] \<and> hd s = CHR ''+'' then int (digits_value (tl s)) else int (digits_value s))"

definition python_float :: "(f64 \<Rightarrow> string) \<Rightarrow> f64 \<Rightarrow> string" where
  "python_float to_chars v =
     (if f64_isnan v then ''nan''
      else if \<not> f64_isfinite v then (if f64_lt 0 v then ''inf'' else ''-inf'')
      else
        let text = to_chars v;
            mantissa = takeWhile (\<lambda>c. c \<noteq> CHR ''e'') text;
            exponent = read_exponent (drop (length mantissa + 1) text);
            negative = (mantissa \<noteq> [] \<and> hd mantissa = CHR ''-'');
            digits = filter (\<lambda>c. c \<noteq> CHR ''.'') (if negative then tl mantissa else mantissa)
        in float_layout (if negative then ''-'' else []) digits exponent)"

definition int_to_string :: "int \<Rightarrow> string" where
  "int_to_string i = (if i < 0 then CHR ''-'' # to_string (nat (- i)) else to_string (nat i))"

fun scalar_form_value :: "(f64 \<Rightarrow> string) \<Rightarrow> scalar_value \<Rightarrow> string" where
  "scalar_form_value to_chars (String_value s) = s"
| "scalar_form_value to_chars (Int_value i) = int_to_string i"
| "scalar_form_value to_chars (Uint_value n) = to_string n"
| "scalar_form_value to_chars (Double_value v) = python_float to_chars v"
| "scalar_form_value to_chars (Bool_value b) = (if b then ''true'' else ''false'')"
| "scalar_form_value to_chars Kind_not_set = []"

definition fixed_fields :: "remote_options \<Rightarrow> (string \<times> string) list" where
  "fixed_fields opts =
     [(''response_format'', ''verbose_json'')] @
     (if ro_model opts \<noteq> [] then [(''model'', ro_model opts)] else []) @
     (if ro_language opts \<noteq> [] then [(''language'', ro_language opts)] else []) @
     (if ro_initial_prompt opts \<noteq> [] then [(''prompt'', ro_initial_prompt opts)] else []) @
     (if ro_word_timestamps opts
      then [(''timestamp_granularities[]'', ''segment''), (''timestamp_granularities[]'', ''word'')] else [])"

definition param_fields :: "(f64 \<Rightarrow> string) \<Rightarrow> remote_options \<Rightarrow> (string \<times> string) list" where
  "param_fields to_chars opts =
     map (\<lambda>key. (key, scalar_form_value to_chars (the (map_of (ro_params opts) key))))
       (filter (\<lambda>key. key \<noteq> ''response_format'') (sort (map fst (ro_params opts))))"

definition remote_form_fields :: "(f64 \<Rightarrow> string) \<Rightarrow> remote_options \<Rightarrow> (string \<times> string) list" where
  "remote_form_fields to_chars opts = fixed_fields opts @ param_fields to_chars opts"

definition remote_timeout_seconds :: "remote_options \<Rightarrow> f64" where
  "remote_timeout_seconds opts =
     (case ro_timeout_seconds opts of Some t \<Rightarrow> t | None \<Rightarrow> kDefaultRemoteTimeoutSeconds)"

section \<open>Accepted options\<close>

lemma cut_at_eq:
  "cut_at cs s = (a, Some b) \<Longrightarrow> \<exists>c \<in> set cs. s = a @ c # b"
  "cut_at cs s = (a, None) \<Longrightarrow> s = a"
proof -
  assume "cut_at cs s = (a, Some b)"
  then obtain c where c: "dropWhile (\<lambda>c. c \<notin> set cs) s = c # b" "a = takeWhile (\<lambda>c. c \<notin> set cs) s"
    by (auto simp: cut_at_def split: list.splits)
  moreover from c(1) have "c \<in> set cs"
    by (metis (no_types, lifting) dropWhile_eq_Cons_conv)
  ultimately show "\<exists>c \<in> set cs. s = a @ c # b"
    by (metis takeWhile_dropWhile_id)
qed (auto simp: cut_at_def split: list.splits)

text \<open>The forms of an authority.\<close>

definition authority_form :: "string \<Rightarrow> string \<Rightarrow> string \<Rightarrow> bool" where
  "authority_form authority host port \<longleftrightarrow>
     (if port = [] then authority = host \<or> authority = ''['' @ host @ '']''
      else authority = host @ '':'' @ port \<or> authority = ''['' @ host @ '']:'' @ port)"

lemma split_authority_form:
  assumes "split_authority authority = Inr (host, port)"
  shows "authority_form authority host port"
proof (cases "authority \<noteq> [] \<and> hd authority = CHR ''[''")
  case True
  then obtain before after where cut: "cut_at '']'' authority = (before, Some after)"
    using assms by (auto simp: split_authority_def split: prod.splits option.splits)
  from cut_at_eq(1) [OF cut] have au: "authority = before @ CHR '']'' # after"
    by simp
  have ht: "host = tl before" "(after = [] \<and> port = []) \<or> (after \<noteq> [] \<and> hd after = CHR '':'' \<and> port = tl after \<and> port \<noteq> [])"
    using assms True cut by (auto simp: split_authority_def split: if_splits)
  have "before \<noteq> []"
    using True au by auto
  with True au have "before = CHR ''['' # tl before"
    by (cases before) auto
  with au ht show ?thesis
    by (cases after) (auto simp: authority_form_def)
next
  case False
  with assms show ?thesis
    by (auto simp: split_authority_def authority_form_def split: prod.splits option.splits if_splits dest!: cut_at_eq)
qed

lemma validate_headers_none:
  "validate_headers seen hs = None \<Longrightarrow>
   (\<forall>(name, v) \<in> set hs. is_token name \<and> CHR 0x0D \<notin> set v \<and> CHR 0x0A \<notin> set v) \<and>
   distinct (map (map lower \<circ> fst) hs) \<and> (map lower \<circ> fst) ` set hs \<inter> seen = {}"
  by (induction seen hs rule: validate_headers.induct) (auto split: if_splits)

lemma validate_params_none:
  "validate_params ps = None \<Longrightarrow> \<forall>(key, v) \<in> set ps. key \<noteq> [] \<and> v \<noteq> Kind_not_set"
  by (induction ps rule: validate_params.induct) (auto split: if_splits)

lemma token_no_line_break:
  assumes "is_token name"
  shows "CHR 0x0D \<notin> set name \<and> CHR 0x0A \<notin> set name \<and> CHR '':'' \<notin> set name"
proof -
  have "\<not> token_char (CHR 0x0D)" "\<not> token_char (CHR 0x0A)" "\<not> token_char (CHR '':'')"
    by code_simp+
  with assms show ?thesis
    by (auto simp: is_token_def list_all_iff)
qed

definition remote_ok :: "remote_options \<Rightarrow> bool" where
  "remote_ok opts \<longleftrightarrow>
     (starts_with_ci (ro_url opts) ''http://'' \<or> starts_with_ci (ro_url opts) ''https://'') \<and>
     CHR ''@'' \<notin> set (authority_of (ro_url opts)) \<and>
     (\<exists>host port. authority_form (authority_of (ro_url opts)) host port \<and> host \<noteq> [] \<and>
        (port \<noteq> [] \<longrightarrow> list_all is_digit port \<and> 1 \<le> digits_value port \<and> digits_value port \<le> 65535)) \<and>
     (\<forall>(name, v) \<in> set (ro_headers opts).
        is_token name \<and> set (name @ v) \<inter> {CHR 0x0D, CHR 0x0A} = {}) \<and>
     distinct (map (map lower \<circ> fst) (ro_headers opts)) \<and>
     (\<forall>(key, v) \<in> set (ro_params opts). key \<noteq> [] \<and> v \<noteq> Kind_not_set) \<and>
     f64_lt 0 (remote_timeout_seconds opts) \<and> f64_le (remote_timeout_seconds opts) kMaxRemoteTimeoutSeconds"

lemma timeout_ok_bounds: "timeout_ok t \<Longrightarrow> f64_lt 0 t \<and> f64_le t kMaxRemoteTimeoutSeconds"
proof -
  have "f64_mag 0 = 0" "\<not> f64_neg 0" "f64_mag kMaxRemoteTimeoutSeconds = 0x40AC200000000000"
    by (simp_all add: f64_mag_def f64_neg_def kMaxRemoteTimeoutSeconds_def take_bit_eq_mod)
  then show "timeout_ok t \<Longrightarrow> ?thesis"
    by (auto simp: timeout_ok_def f64_lt_def f64_le_def f64_isnan_def f64_isfinite_def)
qed

text \<open>Options that validate are safe to build a request from: an http or https URL whose
  authority is a host and at most a port in range, without credentials; header names that are
  distinct HTTP tokens and no line break in any name or value, so no header can be injected; a
  value for every parameter; and a positive timeout of at most one hour, also when it is
  defaulted.\<close>

theorem validate_remote_options_ok:
  assumes "status_ok (validate_remote_options opts)"
  shows "remote_ok opts"
proof -
  have v: "validate_url (ro_url opts) = None" "validate_headers {} (ro_headers opts) = None"
    "validate_params (ro_params opts) = None" "\<forall>t. ro_timeout_seconds opts = Some t \<longrightarrow> timeout_ok t"
    using assms by (auto simp: validate_remote_options_def invalid_def split: option.splits if_splits)
  obtain host port where sp: "split_authority (authority_of (ro_url opts)) = Inr (host, port)"
    "host \<noteq> []" "port = [] \<or> port_ok port"
    using v(1) by (auto simp: validate_url_def split: if_splits sum.splits)
  have url: "starts_with_ci (ro_url opts) ''http://'' \<or> starts_with_ci (ro_url opts) ''https://''"
    "CHR ''@'' \<notin> set (authority_of (ro_url opts))"
    using v(1) by (auto simp: validate_url_def split: if_splits)
  have "timeout_ok kDefaultRemoteTimeoutSeconds"
    by code_simp
  then have "timeout_ok (remote_timeout_seconds opts)"
    using v(4) by (simp add: remote_timeout_seconds_def split: option.splits)
  moreover have "\<exists>host port. authority_form (authority_of (ro_url opts)) host port \<and> host \<noteq> [] \<and>
        (port \<noteq> [] \<longrightarrow> list_all is_digit port \<and> 1 \<le> digits_value port \<and> digits_value port \<le> 65535)"
    using split_authority_form [OF sp(1)] sp(2,3)
    by (intro exI [of _ host] exI [of _ port]) (auto simp: port_ok_def)
  ultimately show ?thesis
    using url validate_headers_none [OF v(2)] validate_params_none [OF v(3)] timeout_ok_bounds
    unfolding remote_ok_def by (auto dest: token_no_line_break)
qed

definition demo_remote :: remote_options where
  "demo_remote = \<lparr>ro_url = ''https://[::1]/v1'', ro_headers = [(''Authorization'', ''Bearer x'')], ro_model = ''whisper-1'',
     ro_language = [], ro_initial_prompt = [], ro_word_timestamps = True,
     ro_params = [(''temperature'', Uint_value 0), (''response_format'', String_value ''text'')], ro_timeout_seconds = None\<rparr>"

theorem validate_remote_options_ok_witness: "remote_ok demo_remote"
proof -
  have "status_ok (validate_remote_options demo_remote)"
    by code_simp
  then show ?thesis
    by (rule validate_remote_options_ok)
qed

text \<open>The form carries \<open>response_format\<close> exactly once and with the format the caller
  parses, whatever the parameters say; every other parameter is sent once, and in the order of
  the keys, so the request does not depend on the iteration order of the map.\<close>

theorem remote_form_fields_params:
  assumes "distinct (map fst (ro_params opts))"
  shows "filter (\<lambda>(k, v). k = ''response_format'') (remote_form_fields to_chars opts) = [(''response_format'', ''verbose_json'')] \<and>
    (\<exists>fixed sent. remote_form_fields to_chars opts = fixed @ sent \<and> sorted (map fst sent) \<and> distinct (map fst sent) \<and>
       set sent = {(k, scalar_form_value to_chars v) | k v. (k, v) \<in> set (ro_params opts) \<and> k \<noteq> ''response_format''} \<and>
       set (map fst fixed) \<subseteq> {''response_format'', ''model'', ''language'', ''prompt'', ''timestamp_granularities[]''})"
proof
  let ?keys = "filter (\<lambda>key. key \<noteq> ''response_format'') (sort (map fst (ro_params opts)))"
  have keys: "map fst (param_fields to_chars opts) = ?keys"
    by (simp add: param_fields_def comp_def)
  have "filter (\<lambda>(k, v). k = ''response_format'') (param_fields to_chars opts) = []"
    by (auto simp: filter_empty_conv param_fields_def)
  then show "filter (\<lambda>(k, v). k = ''response_format'') (remote_form_fields to_chars opts) = [(''response_format'', ''verbose_json'')]"
    by (simp add: remote_form_fields_def fixed_fields_def)
  have mo: "(k, v) \<in> set (ro_params opts) \<longleftrightarrow> map_of (ro_params opts) k = Some v" for k v
    using assms by simp
  have "set (param_fields to_chars opts) =
      {(k, scalar_form_value to_chars v) | k v. (k, v) \<in> set (ro_params opts) \<and> k \<noteq> ''response_format''}"
  proof (intro set_eqI iffI)
    fix x
    assume "x \<in> set (param_fields to_chars opts)"
    then obtain k v where kv: "k \<noteq> ''response_format''" "(k, v) \<in> set (ro_params opts)"
      "x = (k, scalar_form_value to_chars (the (map_of (ro_params opts) k)))"
      by (auto simp: param_fields_def)
    then have "x = (k, scalar_form_value to_chars v)"
      by (simp add: mo)
    with kv show "x \<in> {(k, scalar_form_value to_chars v) | k v. (k, v) \<in> set (ro_params opts) \<and> k \<noteq> ''response_format''}"
      by blast
  next
    fix x
    assume "x \<in> {(k, scalar_form_value to_chars v) | k v. (k, v) \<in> set (ro_params opts) \<and> k \<noteq> ''response_format''}"
    then obtain k v where kv: "(k, v) \<in> set (ro_params opts)" "k \<noteq> ''response_format''" "x = (k, scalar_form_value to_chars v)"
      by blast
    then have "k \<in> set (filter (\<lambda>key. key \<noteq> ''response_format'') (sort (map fst (ro_params opts))))"
      by force
    moreover have "x = (k, scalar_form_value to_chars (the (map_of (ro_params opts) k)))"
      using kv mo by simp
    ultimately show "x \<in> set (param_fields to_chars opts)"
      unfolding param_fields_def set_map by blast
  qed
  moreover have "sorted ?keys" "distinct ?keys"
    using assms sorted_sort [of "map fst (ro_params opts)"] by (simp_all add: sorted_wrt_filter)
  moreover have "set (map fst (fixed_fields opts)) \<subseteq>
      {''response_format'', ''model'', ''language'', ''prompt'', ''timestamp_granularities[]''}"
    by (auto simp: fixed_fields_def)
  ultimately show "\<exists>fixed sent. remote_form_fields to_chars opts = fixed @ sent \<and> sorted (map fst sent) \<and> distinct (map fst sent) \<and>
       set sent = {(k, scalar_form_value to_chars v) | k v. (k, v) \<in> set (ro_params opts) \<and> k \<noteq> ''response_format''} \<and>
       set (map fst fixed) \<subseteq> {''response_format'', ''model'', ''language'', ''prompt'', ''timestamp_granularities[]''}"
    unfolding remote_form_fields_def keys [symmetric] by blast
qed

theorem remote_form_fields_params_witness:
  "filter (\<lambda>(k, v). k = ''response_format'') (remote_form_fields (\<lambda>_. []) demo_remote) = [(''response_format'', ''verbose_json'')]"
  using remote_form_fields_params [of demo_remote "\<lambda>_. []"] by (simp add: demo_remote_def)

section \<open>Decimal layout of doubles\<close>

lemma digits_value_append: "digits_value (xs @ ys) = digits_value xs * 10 ^ length ys + digits_value ys"
proof (induction ys rule: rev_induct)
  case (snoc y ys)
  then show ?case
    by (simp add: digits_value_def algebra_simps)
qed (simp add: digits_value_def)

lemma digits_value_zeros [simp]: "digits_value (zeros n) = 0"
  by (induction n) (simp_all add: zeros_def digits_value_def digit_value_def)

lemma zeros_digits: "list_all is_digit (zeros n)" "length (zeros n) = n"
  by (auto simp: zeros_def list_all_iff is_digit_iff)

text \<open>Within the range Python prints in fixed notation, the layout changes no digit of the
  value: the text is the sign, an integer part and a fraction, both non-empty digit strings, and
  the number they denote is the one the shortest digits and the exponent denote.\<close>

theorem float_layout_value:
  assumes "list_all is_digit digits" "digits \<noteq> []" "- 4 \<le> exponent" "exponent < 16"
  shows "\<exists>whole fraction. float_layout sign digits exponent = sign @ whole @ ''.'' @ fraction \<and>
    list_all is_digit whole \<and> whole \<noteq> [] \<and> list_all is_digit fraction \<and> fraction \<noteq> [] \<and>
    digits_value (whole @ fraction) * 10 ^ (length digits - 1) * 10 ^ nat (- exponent) =
      digits_value digits * 10 ^ nat exponent * 10 ^ length fraction"
proof -
  let ?n = "length digits"
  have n: "0 < ?n" using assms(2) by simp
  consider (small) "exponent + 1 \<le> 0" | (large) "0 < exponent + 1" "int ?n \<le> exponent + 1"
    | (mid) "0 < exponent + 1" "exponent + 1 < int ?n"
    by linarith
  then show ?thesis
  proof cases
    case small
    let ?z = "nat (- (exponent + 1))"
    have "float_layout sign digits exponent = sign @ ''0'' @ ''.'' @ (zeros ?z @ digits)"
      using small assms by (simp add: float_layout_def Let_def)
    moreover have "digits_value (''0'' @ zeros ?z @ digits) * 10 ^ (?n - 1) * 10 ^ nat (- exponent) =
        digits_value digits * 10 ^ nat exponent * 10 ^ length (zeros ?z @ digits)"
    proof -
      have "nat (- exponent) = Suc ?z" "nat exponent = 0"
        using small by linarith+
      moreover have "digits_value ''0'' = 0"
        by (simp add: digits_value_def digit_value_def)
      then have "digits_value (''0'' @ zeros ?z @ digits) = digits_value digits"
        by (simp add: digits_value_append del: append_Cons)
      moreover have "?n - 1 + Suc ?z = length (zeros ?z @ digits)"
        using n by (simp add: zeros_digits)
      ultimately show ?thesis
        by (simp only: mult.assoc power_add [symmetric] power_0 mult_1_right mult_1)
    qed
    moreover have "list_all is_digit ''0''"
      by (simp add: is_digit_iff)
    ultimately show ?thesis
      using assms(1,2) zeros_digits(1) by (intro exI [of _ "''0''"] exI [of _ "zeros ?z @ digits"]) simp
  next
    case large
    let ?z = "nat (exponent + 1 - int ?n)"
    have "float_layout sign digits exponent = sign @ (digits @ zeros ?z) @ ''.'' @ ''0''"
      using large assms by (simp add: float_layout_def Let_def)
    moreover have "digits_value ((digits @ zeros ?z) @ ''0'') * 10 ^ (?n - 1) * 10 ^ nat (- exponent) =
        digits_value digits * 10 ^ nat exponent * 10 ^ length ''0''"
    proof -
      have z: "nat (- exponent) = 0" "nat exponent = ?z + (?n - 1)"
        using large n by linarith+
      have e: "(10 :: nat) ^ nat exponent = 10 ^ ?z * 10 ^ (?n - 1)"
        by (simp only: z(2) power_add)
      have "digits_value ''0'' = 0"
        by (simp add: digits_value_def digit_value_def)
      then have "digits_value ((digits @ zeros ?z) @ ''0'') = digits_value digits * 10 ^ ?z * 10"
        by (simp add: digits_value_append zeros_digits)
      then show ?thesis
        unfolding e z(1) by simp
    qed
    moreover have "list_all is_digit ''0''"
      by (simp add: is_digit_iff)
    ultimately show ?thesis
      using assms(1,2) zeros_digits(1) by (intro exI [of _ "digits @ zeros ?z"] exI [of _ "''0''"]) simp
  next
    case mid
    let ?p = "nat (exponent + 1)"
    have p: "0 < ?p" "?p < ?n" using mid by linarith+
    have "float_layout sign digits exponent = sign @ take ?p digits @ ''.'' @ drop ?p digits"
      using mid assms by (simp add: float_layout_def Let_def)
    moreover have "digits_value (take ?p digits @ drop ?p digits) * 10 ^ (?n - 1) * 10 ^ nat (- exponent) =
        digits_value digits * 10 ^ nat exponent * 10 ^ length (drop ?p digits)"
    proof -
      have "nat (- exponent) = 0" "?n - 1 = nat exponent + (?n - ?p)"
        using mid by linarith+
      then show ?thesis
        by (simp add: power_add)
    qed
    moreover have "list_all is_digit (take ?p digits)" "list_all is_digit (drop ?p digits)"
      using assms(1) by (auto simp: list_all_iff dest: in_set_takeD in_set_dropD)
    ultimately show ?thesis
      using p by (intro exI [of _ "take ?p digits"] exI [of _ "drop ?p digits"]) auto
  qed
qed

theorem float_layout_value_witness:
  "float_layout ''-'' ''125'' 1 = ''-12.5'' \<and>
   (\<exists>whole fraction. ''-12.5'' = ''-'' @ whole @ ''.'' @ fraction \<and> list_all is_digit whole \<and> list_all is_digit fraction)"
proof -
  have eq: "float_layout ''-'' ''125'' 1 = ''-12.5''" and "list_all is_digit ''125''"
    by (simp_all add: float_layout_def is_digit_iff numeral_2_eq_2)
  with float_layout_value [of "''125''" 1 "''-''"] show ?thesis
    unfolding eq by auto
qed

end
