(* ===== verification/Docling_Options.thy ===== *)
theory Docling_Options
  imports Remote_Options
begin

text \<open>
  The request options and the typed engine selection (src/src/engine/docling_asr_options.cpp
  over \<open>TranscribeOptions\<close> of asr_service.proto). An open enum is its number; an optional
  message the code only asks the presence of is a flag.
\<close>

section \<open>Data\<close>

record transcribe_options =
  to_model :: string
  to_language :: string
  to_task :: int
  to_word_timestamps :: bool
  to_diarize :: bool
  to_emit_keyframes :: bool
  to_keyframe_interval_seconds :: nat
  to_emit_document :: bool
  to_filename :: string
  to_remote :: "remote_options option"
  to_model_type :: "int option"
  to_model_type_raw :: "string option"
  to_engine :: "int option"
  to_transformers :: bool
  to_mlx_whisper :: bool
  to_native_whisper :: bool

abbreviation (input) ASR_ENGINE_KIND_UNSPECIFIED :: int where "ASR_ENGINE_KIND_UNSPECIFIED \<equiv> 0"
abbreviation (input) ASR_ENGINE_KIND_WHISPER_CPP :: int where "ASR_ENGINE_KIND_WHISPER_CPP \<equiv> 1"
abbreviation (input) ASR_ENGINE_KIND_TRANSFORMERS :: int where "ASR_ENGINE_KIND_TRANSFORMERS \<equiv> 2"
abbreviation (input) ASR_ENGINE_KIND_MLX_WHISPER :: int where "ASR_ENGINE_KIND_MLX_WHISPER \<equiv> 3"
abbreviation (input) ASR_ENGINE_KIND_NATIVE_WHISPER :: int where "ASR_ENGINE_KIND_NATIVE_WHISPER \<equiv> 4"
abbreviation (input) ASR_ENGINE_KIND_REMOTE :: int where "ASR_ENGINE_KIND_REMOTE \<equiv> 5"
abbreviation (input) ASR_MODEL_TYPE_UNSPECIFIED :: int where "ASR_MODEL_TYPE_UNSPECIFIED \<equiv> 0"

text \<open>\<open>AsrModelType_IsValid\<close> and \<open>AsrEngineKind_IsValid\<close>: the declared numbers.\<close>

definition AsrModelType_IsValid :: "int \<Rightarrow> bool" where
  "AsrModelType_IsValid t \<longleftrightarrow> 0 \<le> t \<and> t \<le> 29"

definition AsrEngineKind_IsValid :: "int \<Rightarrow> bool" where
  "AsrEngineKind_IsValid k \<longleftrightarrow> 0 \<le> k \<and> k \<le> 5"

section \<open>Operations\<close>

definition whisper_cpp_model_for :: "int \<Rightarrow> string option" where
  "whisper_cpp_model_for t =
     (if t = 1 then Some ''tiny'' else if t = 4 then Some ''base'' else if t = 2 then Some ''small''
      else if t = 3 then Some ''medium'' else if t = 5 then Some ''large-v3''
      else if t = 6 then Some ''large-v3-turbo'' else None)"

definition has_unsupported_inline :: "transcribe_options \<Rightarrow> bool" where
  "has_unsupported_inline opts \<longleftrightarrow> to_transformers opts \<or> to_mlx_whisper opts \<or> to_native_whisper opts"

definition arms :: "transcribe_options \<Rightarrow> nat" where
  "arms opts = of_bool (to_remote opts \<noteq> None) + of_bool (to_transformers opts) +
     of_bool (to_mlx_whisper opts) + of_bool (to_native_whisper opts)"

definition selected_engine :: "transcribe_options \<Rightarrow> int" where
  "selected_engine opts =
     (if to_remote opts \<noteq> None then ASR_ENGINE_KIND_REMOTE
      else if to_transformers opts then ASR_ENGINE_KIND_TRANSFORMERS
      else if to_mlx_whisper opts then ASR_ENGINE_KIND_MLX_WHISPER
      else ASR_ENGINE_KIND_NATIVE_WHISPER)"

text \<open>The switch on the engine; \<open>None\<close> is \<open>break\<close>.\<close>

definition engine_status :: "transcribe_options \<Rightarrow> int \<Rightarrow> status option" where
  "engine_status opts k =
     (if k = ASR_ENGINE_KIND_UNSPECIFIED \<or> k = ASR_ENGINE_KIND_WHISPER_CPP then None
      else if k = ASR_ENGINE_KIND_REMOTE
      then (if to_remote opts = None
            then Some (Status INVALID_ARGUMENT ''TranscribeOptions.engine=REMOTE requires TranscribeOptions.remote'')
            else None)
      else if k = ASR_ENGINE_KIND_TRANSFORMERS
      then Some (Status UNIMPLEMENTED ''TranscribeOptions.engine=TRANSFORMERS is not served by this build (whisper.cpp only); omit engine or set WHISPER_CPP'')
      else if k = ASR_ENGINE_KIND_MLX_WHISPER
      then Some (Status UNIMPLEMENTED ''TranscribeOptions.engine=MLX_WHISPER is not served by this build (whisper.cpp only); omit engine or set WHISPER_CPP'')
      else if k = ASR_ENGINE_KIND_NATIVE_WHISPER
      then Some (Status UNIMPLEMENTED ''TranscribeOptions.engine=NATIVE_WHISPER is not served by this build (whisper.cpp only); omit engine or set WHISPER_CPP'')
      else Some (Status INVALID_ARGUMENT ''TranscribeOptions.engine has an unknown value''))"

definition validate_docling_asr_options :: "transcribe_options \<Rightarrow> status" where
  "validate_docling_asr_options opts =
     (if (case to_model_type opts of Some t \<Rightarrow> \<not> AsrModelType_IsValid t | None \<Rightarrow> False)
      then Status INVALID_ARGUMENT ''TranscribeOptions.model_type has an unknown value''
      else if (case to_engine opts of Some k \<Rightarrow> \<not> AsrEngineKind_IsValid k | None \<Rightarrow> False)
      then Status INVALID_ARGUMENT ''TranscribeOptions.engine has an unknown value''
      else if arms opts > 1
      then Status INVALID_ARGUMENT ''TranscribeOptions engine options are mutually exclusive''
      else if arms opts \<noteq> 0 \<and>
              (case to_engine opts of Some k \<Rightarrow> k \<noteq> ASR_ENGINE_KIND_UNSPECIFIED \<and> k \<noteq> selected_engine opts | None \<Rightarrow> False)
      then Status INVALID_ARGUMENT ''TranscribeOptions.engine conflicts with its options''
      else case (case to_engine opts of Some k \<Rightarrow> engine_status opts k | None \<Rightarrow> None) of
        Some st \<Rightarrow> st
      | None \<Rightarrow>
          if has_unsupported_inline opts
          then (if to_transformers opts then Status UNIMPLEMENTED ''TranscribeOptions.transformers is not served by this build''
                else if to_mlx_whisper opts then Status UNIMPLEMENTED ''TranscribeOptions.mlx_whisper is not served by this build''
                else Status UNIMPLEMENTED ''TranscribeOptions.native_whisper is not served by this build'')
          else if (case to_model_type opts of Some t \<Rightarrow> t \<noteq> ASR_MODEL_TYPE_UNSPECIFIED \<and> whisper_cpp_model_for t = None | None \<Rightarrow> False)
          then Status UNIMPLEMENTED ''TranscribeOptions.model_type preset is not mapped to a whisper.cpp model in this build''
          else if (case to_model_type_raw opts of Some raw \<Rightarrow> raw \<noteq> [] | None \<Rightarrow> False) \<and>
                  (to_model_type opts = None \<or> to_model_type opts = Some ASR_MODEL_TYPE_UNSPECIFIED)
          then Status UNIMPLEMENTED ''TranscribeOptions.model_type_raw has no closed-enum match in this build''
          else Status OK [])"

definition apply_model_type_default :: "transcribe_options \<Rightarrow> transcribe_options" where
  "apply_model_type_default opts =
     (if to_model opts \<noteq> [] then opts
      else case to_model_type opts of
        None \<Rightarrow> opts
      | Some t \<Rightarrow> (case whisper_cpp_model_for t of Some m \<Rightarrow> opts\<lparr>to_model := m\<rparr> | None \<Rightarrow> opts))"

section \<open>Properties\<close>

text \<open>
  What the local pool may assume of options that pass: no arm of an engine this build does not
  have, at most the remote arm, and a preset it can serve.
\<close>

definition served_locally :: "transcribe_options \<Rightarrow> bool" where
  "served_locally opts \<longleftrightarrow>
     \<not> to_transformers opts \<and> \<not> to_mlx_whisper opts \<and> \<not> to_native_whisper opts \<and>
     (to_engine opts = None \<or> to_engine opts = Some ASR_ENGINE_KIND_UNSPECIFIED \<or>
      (to_engine opts = Some ASR_ENGINE_KIND_WHISPER_CPP \<and> to_remote opts = None) \<or>
      (to_engine opts = Some ASR_ENGINE_KIND_REMOTE \<and> to_remote opts \<noteq> None)) \<and>
     (\<forall>t. to_model_type opts = Some t \<longrightarrow> t = ASR_MODEL_TYPE_UNSPECIFIED \<or> whisper_cpp_model_for t \<noteq> None) \<and>
     (\<forall>raw. to_model_type_raw opts = Some raw \<and> raw \<noteq> [] \<longrightarrow> (\<exists>t. to_model_type opts = Some t \<and> whisper_cpp_model_for t \<noteq> None))"

text \<open>The options pass exactly when this build serves them: every engine or preset it does
  not have is refused, even when a model is named too, and nothing it has is refused.\<close>

theorem validate_docling_iff:
  "status_ok (validate_docling_asr_options opts) \<longleftrightarrow> served_locally opts"
proof -
  have valid: "whisper_cpp_model_for t \<noteq> None \<Longrightarrow> AsrModelType_IsValid t" for t
    by (auto simp: whisper_cpp_model_for_def AsrModelType_IsValid_def split: if_splits)
  have zero: "AsrModelType_IsValid 0" "whisper_cpp_model_for 0 = None"
    by (simp_all add: AsrModelType_IsValid_def whisper_cpp_model_for_def)
  show ?thesis
  proof (cases "to_transformers opts \<or> to_mlx_whisper opts \<or> to_native_whisper opts")
    case True
    then show ?thesis
      by (simp add: validate_docling_asr_options_def served_locally_def has_unsupported_inline_def engine_status_def
          split: option.splits) blast
  next
    case False
    then have a: "arms opts = of_bool (to_remote opts \<noteq> None)" "\<not> has_unsupported_inline opts"
      by (simp_all add: arms_def has_unsupported_inline_def)
    show ?thesis
      using False valid zero
      by (cases "to_engine opts"; cases "to_model_type opts"; cases "to_model_type_raw opts"; cases "to_remote opts")
        (auto simp: validate_docling_asr_options_def served_locally_def a engine_status_def selected_engine_def
          AsrEngineKind_IsValid_def)
  qed
qed

text \<open>After the preset default a served request names a model unless it named neither a
  model nor a preset, and an explicit model is never replaced.\<close>

theorem apply_model_type_default_model:
  assumes "status_ok (validate_docling_asr_options opts)"
  shows "(to_model opts \<noteq> [] \<longrightarrow> apply_model_type_default opts = opts) \<and>
    (to_model (apply_model_type_default opts) = [] \<longleftrightarrow>
       to_model opts = [] \<and> (to_model_type opts = None \<or> to_model_type opts = Some 0))"
proof -
  have s: "served_locally opts"
    using assms by (simp add: validate_docling_iff)
  have ne: "whisper_cpp_model_for t = Some m \<Longrightarrow> m \<noteq> []" for t m
    by (auto simp: whisper_cpp_model_for_def split: if_splits)
  have "whisper_cpp_model_for 0 = None"
    by (simp add: whisper_cpp_model_for_def)
  with s ne show ?thesis
    by (auto simp: apply_model_type_default_def served_locally_def split: option.splits)
qed

definition demo_options :: transcribe_options where
  "demo_options = \<lparr>to_model = [], to_language = [], to_task = 0, to_word_timestamps = True, to_diarize = False,
     to_emit_keyframes = False, to_keyframe_interval_seconds = 0, to_emit_document = True, to_filename = ''a/talk.wav'',
     to_remote = None, to_model_type = Some 6, to_model_type_raw = None, to_engine = Some 1,
     to_transformers = False, to_mlx_whisper = False, to_native_whisper = False\<rparr>"

theorem apply_model_type_default_model_witness:
  "to_model (apply_model_type_default demo_options) \<noteq> [] \<and> to_model (apply_model_type_default demo_options) = ''large-v3-turbo''"
proof -
  have "status_ok (validate_docling_asr_options demo_options)"
    by (simp add: demo_options_def validate_docling_asr_options_def AsrModelType_IsValid_def AsrEngineKind_IsValid_def
        arms_def engine_status_def has_unsupported_inline_def whisper_cpp_model_for_def)
  with apply_model_type_default_model [of demo_options] show ?thesis
    by (simp add: demo_options_def apply_model_type_default_def whisper_cpp_model_for_def)
qed

end
