(* ===== verification/Model_Pool.thy ===== *)
theory Model_Pool
  imports Config "HOL-Library.Multiset" "HOL-Library.Sublist" "HOL-Library.List_Lexorder"
begin

text \<open>
  The pool of whisper states (src/src/engine/model_pool.h, model_pool.cpp): discovery of the
  weight files, the loading of the models, and the bounded free list from which concurrent
  streams lease states. whisper, the file system and SHA-256 are the fields of a parameter
  record; a whisper state is the number under which it was allocated. Every operation on a free
  list holds its entry's mutex, so it is one step.
\<close>

section \<open>Discovery\<close>

definition kOpenvinoEncoderSuffix :: string where
  "kOpenvinoEncoderSuffix = ''-encoder-openvino.bin''"

definition path_join :: "string \<Rightarrow> string \<Rightarrow> string" where
  "path_join dir f = (if dir = [] \<or> last dir = CHR ''/'' then dir @ f else dir @ ''/'' @ f)"

definition model_path :: "string \<Rightarrow> string \<Rightarrow> string" where
  "model_path dir name = path_join dir (''ggml-'' @ name @ ''.bin'')"

text \<open>\<open>path::extension\<close> of a file name that does not begin with a dot.\<close>

definition extension :: "string \<Rightarrow> string" where
  "extension f =
     (if CHR ''.'' \<in> set f then CHR ''.'' # rev (takeWhile (\<lambda>c. c \<noteq> CHR ''.'') (rev f)) else [])"

definition is_weight_file :: "string \<Rightarrow> bool" where
  "is_weight_file f \<longleftrightarrow> prefix ''ggml-'' f \<and> extension f = ''.bin'' \<and> \<not> suffix kOpenvinoEncoderSuffix f"

text \<open>\<open>listing\<close> is the directory's file names, or the error of listing it.\<close>

definition discover_models :: "string \<Rightarrow> string + string list \<Rightarrow> exn + string list" where
  "discover_models dir listing =
     (case listing of
        Inl message \<Rightarrow> Inl (Invalid_argument (''GRPC_ASR_MODELS_DIR='' @ dir @ '' cannot be listed: '' @ message))
      | Inr files \<Rightarrow>
          (let names = map (\<lambda>f. take (length f - 5 - 4) (drop 5 f)) (filter is_weight_file files)
           in if names = []
              then Inl (Invalid_argument (''no ggml-*.bin model files in '' @ dir @ '' and GRPC_ASR_MODELS is unset''))
              else Inr names))"

section \<open>Loading\<close>

record 'c pool_entry =
  pe_hash :: string
  pe_ctx :: 'c
  pe_free :: "nat list"
  pe_all :: "nat list"

record 'c model_pool =
  mp_backend :: string
  mp_entries :: "string \<rightharpoonup> 'c pool_entry"

record 'c pool_env =
  en_listing :: "string \<Rightarrow> string + string list"
  en_exists :: "string \<Rightarrow> bool"
  en_size :: "string \<Rightarrow> int option"
  en_read :: "string \<Rightarrow> string option"
  en_sha256 :: "string \<Rightarrow> string"
  en_has_cuda :: bool
  en_backends :: string
  en_init_context :: "string \<Rightarrow> bool \<Rightarrow> nat \<Rightarrow> 'c option"
  en_init_state :: "'c \<Rightarrow> nat \<Rightarrow> bool"
  en_init_openvino :: "'c \<Rightarrow> nat \<Rightarrow> string \<Rightarrow> string \<Rightarrow> bool"

text \<open>A name as the messages show it.\<close>

definition quoted :: "string \<Rightarrow> string" where
  "quoted name = CHR 0x27 # name @ [CHR 0x27]"

text \<open>The states of one model, numbered from \<open>fresh\<close> on; \<open>i\<close> counts the loop.\<close>

fun init_states ::
  "'c pool_env \<Rightarrow> config \<Rightarrow> string \<Rightarrow> string \<Rightarrow> 'c \<Rightarrow> nat \<Rightarrow> nat \<Rightarrow> nat \<Rightarrow> exn + nat list" where
  "init_states E cfg name path ctx fresh i 0 = Inr []"
| "init_states E cfg name path ctx fresh i (Suc n) =
     (if \<not> en_init_state E ctx fresh
      then Inl (Runtime_error (''allocating state '' @ to_string i @ '' for model '' @ quoted name @ '' failed''))
      else if cfg_backend cfg = ''openvino'' \<and> \<not> en_init_openvino E ctx fresh path (openvino_device cfg)
      then Inl (Runtime_error (''GRPC_ASR_BACKEND=openvino: OpenVINO encoder init failed for model '' @ quoted name @
             '' on device '' @ quoted (openvino_device cfg) @ '' (GRPC_ASR_OPENVINO_DEVICE); use an image built with '' @
             ''-DGRPC_ASR_OPENVINO=ON, a converted encoder model next to the weights, and a device this host has''))
      else err_bind (init_states E cfg name path ctx (fresh + 1) (i + 1) n) (\<lambda>states. Inr (fresh # states)))"

definition load_model :: "'c pool_env \<Rightarrow> config \<Rightarrow> string \<Rightarrow> nat \<Rightarrow> exn + 'c pool_entry" where
  "load_model E cfg name fresh =
     (let path = model_path (models_dir cfg) name
      in if \<not> en_exists E path
      then Inl (Invalid_argument (''model '' @ quoted name @ '' has no weight file at '' @ path))
      else case en_size E path of
        None \<Rightarrow> Inl (Runtime_error ''invalid model file size'')
      | Some sz \<Rightarrow>
          if sz \<le> 0 \<or> sz > 8589934592 then Inl (Runtime_error ''invalid model file size'')
          else case en_read E path of
            None \<Rightarrow> Inl (Runtime_error ''cannot read model weights'')
          | Some bytes \<Rightarrow>
              (case en_init_context E bytes (cfg_backend cfg = ''cuda'') (cuda_device cfg) of
                 None \<Rightarrow> Inl (Runtime_error (''loading model '' @ quoted name @ '' from '' @ path @ '' failed''))
               | Some ctx \<Rightarrow>
                   err_bind (init_states E cfg name path ctx fresh 0 (concurrency cfg)) (\<lambda>states.
                     Inr \<lparr>pe_hash = en_sha256 E bytes, pe_ctx = ctx, pe_free = states, pe_all = states\<rparr>)))"

fun load_models ::
  "'c pool_env \<Rightarrow> config \<Rightarrow> string list \<Rightarrow> nat \<Rightarrow> (string \<rightharpoonup> 'c pool_entry) \<Rightarrow> exn + (string \<rightharpoonup> 'c pool_entry)" where
  "load_models E cfg [] fresh entries = Inr entries"
| "load_models E cfg (name # names) fresh entries =
     err_bind (load_model E cfg name fresh) (\<lambda>entry.
       load_models E cfg names (fresh + concurrency cfg) (entries(name \<mapsto> entry)))"

definition model_pool_new :: "'c pool_env \<Rightarrow> config \<Rightarrow> exn + 'c model_pool" where
  "model_pool_new E cfg =
     (if cfg_backend cfg = ''cuda'' \<and> \<not> en_has_cuda E
      then Inl (Invalid_argument (''GRPC_ASR_BACKEND=cuda: this build has no CUDA backend (available: '' @
             en_backends E @ ''); build with -DGRPC_ASR_CUDA=ON on a CUDA host''))
      else
        err_bind (if models cfg = [] then discover_models (models_dir cfg) (en_listing E (models_dir cfg))
                  else Inr (models cfg)) (\<lambda>names.
        err_bind (load_models E cfg names 0 Map.empty) (\<lambda>entries.
          Inr \<lparr>mp_backend = cfg_backend cfg, mp_entries = entries\<rparr>)))"

section \<open>Leases\<close>

record 'c lease =
  le_model :: string
  le_ctx :: 'c
  le_state :: nat

definition has_model :: "'c model_pool \<Rightarrow> string \<Rightarrow> bool" where
  "has_model pool m \<longleftrightarrow> m \<in> dom (mp_entries pool)"

definition model_names :: "'c model_pool \<Rightarrow> string list" where
  "model_names pool = sorted_list_of_set (dom (mp_entries pool))"

definition model_hash :: "'c model_pool \<Rightarrow> string \<Rightarrow> exn + string" where
  "model_hash pool m = (case mp_entries pool m of Some e \<Rightarrow> Inr (pe_hash e) | None \<Rightarrow> Inl (Out_of_range ''map::at''))"

text \<open>
  \<open>acquire\<close> at a moment when the stop token and the clock answer as given; \<open>None\<close> while it
  waits.
\<close>

definition acquire ::
  "bool \<Rightarrow> bool \<Rightarrow> string \<Rightarrow> 'c model_pool \<Rightarrow> ('c model_pool \<times> (exn + 'c lease)) option" where
  "acquire stop timed_out m pool =
     (case mp_entries pool m of
        None \<Rightarrow> Some (pool, Inl (Invalid_argument (''model '' @ quoted m @ '' is not loaded'')))
      | Some entry \<Rightarrow>
          (case pe_free entry of
             state # rest \<Rightarrow>
               Some (pool\<lparr>mp_entries := (mp_entries pool)(m \<mapsto> entry\<lparr>pe_free := rest\<rparr>)\<rparr>,
                     Inr \<lparr>le_model = m, le_ctx = pe_ctx entry, le_state = state\<rparr>)
           | [] \<Rightarrow>
               if stop then Some (pool, Inl (Cancelled (''the stream went away while waiting for a '' @ quoted m @ '' state'')))
               else if timed_out then Some (pool, Inl (Queue_timeout (''every '' @ quoted m @ '' state stayed busy'')))
               else None))"

text \<open>The lease's destructor.\<close>

definition release :: "'c lease \<Rightarrow> 'c model_pool \<Rightarrow> 'c model_pool" where
  "release l pool =
     (case mp_entries pool (le_model l) of
        None \<Rightarrow> pool
      | Some entry \<Rightarrow>
          pool\<lparr>mp_entries := (mp_entries pool)(le_model l \<mapsto> entry\<lparr>pe_free := pe_free entry @ [le_state l]\<rparr>)\<rparr>)"

text \<open>The pool and the leases that are out, and the steps of the streams.\<close>

inductive pool_step :: "'c model_pool \<times> 'c lease list \<Rightarrow> 'c model_pool \<times> 'c lease list \<Rightarrow> bool" where
  lease: "acquire stop timed_out m pool = Some (pool', Inr l) \<Longrightarrow> pool_step (pool, held) (pool', l # held)"
| refused: "acquire stop timed_out m pool = Some (pool', Inl e) \<Longrightarrow> pool_step (pool, held) (pool', held)"
| give_back: "l \<in> set held \<Longrightarrow> pool_step (pool, held) (release l pool, remove1 l held)"

inductive_cases pool_stepE: "pool_step s s'"

definition held_states :: "string \<Rightarrow> 'c lease list \<Rightarrow> nat list" where
  "held_states m held = map le_state (filter (\<lambda>l. le_model l = m) held)"

definition pool_wf :: "nat \<Rightarrow> 'c model_pool \<times> 'c lease list \<Rightarrow> bool" where
  "pool_wf n s \<longleftrightarrow>
     (\<forall>m e. mp_entries (fst s) m = Some e \<longrightarrow>
        length (pe_all e) = n \<and> distinct (pe_all e) \<and>
        mset (pe_free e) + mset (held_states m (snd s)) = mset (pe_all e)) \<and>
     (\<forall>m m' e e'. mp_entries (fst s) m = Some e \<and> mp_entries (fst s) m' = Some e' \<and> m \<noteq> m' \<longrightarrow>
        set (pe_all e) \<inter> set (pe_all e') = {}) \<and>
     (\<forall>l \<in> set (snd s). mp_entries (fst s) (le_model l) \<noteq> None)"

lemma held_states_simps [simp]:
  "held_states m [] = []"
  "held_states m (l # held) = (if le_model l = m then le_state l # held_states m held else held_states m held)"
  by (simp_all add: held_states_def)

lemma held_states_remove1:
  "l \<in> set held \<Longrightarrow> mset (held_states (le_model l) held) = add_mset (le_state l) (mset (held_states (le_model l) (remove1 l held)))"
  "m \<noteq> le_model l \<Longrightarrow> held_states m (remove1 l held) = held_states m held"
  by (induction held) auto

lemma acquire_lease_entry:
  assumes "acquire stop timed_out m pool = Some (pool', Inr l)"
  obtains e rest where "mp_entries pool m = Some e" "pe_free e = le_state l # rest" "le_model l = m"
    "pool' = pool\<lparr>mp_entries := (mp_entries pool)(m \<mapsto> e\<lparr>pe_free := rest\<rparr>)\<rparr>"
  using assms by (auto simp: acquire_def split: option.splits list.splits if_splits)

lemma acquire_refused_pool: "acquire stop timed_out m pool = Some (pool', Inl e) \<Longrightarrow> pool' = pool"
  by (auto simp: acquire_def split: option.splits list.splits if_splits)

text \<open>Replacing the free list of one entry and the leases, when their sum stays.\<close>

lemma pool_wf_update:
  assumes wf: "pool_wf n (pool, held)" and e: "mp_entries pool m = Some e"
    and sum: "mset free' + mset (held_states m held') = mset (pe_free e) + mset (held_states m held)"
    and others: "\<And>m'. m' \<noteq> m \<Longrightarrow> held_states m' held' = held_states m' held"
    and loaded: "\<forall>l \<in> set held'. mp_entries pool (le_model l) \<noteq> None"
  shows "pool_wf n (pool\<lparr>mp_entries := (mp_entries pool)(m \<mapsto> e\<lparr>pe_free := free'\<rparr>)\<rparr>, held')"
proof -
  let ?es = "(mp_entries pool)(m \<mapsto> e\<lparr>pe_free := free'\<rparr>)"
  have each: "length (pe_all x) = n \<and> distinct (pe_all x) \<and> mset (pe_free x) + mset (held_states k held') = mset (pe_all x)"
    if "?es k = Some x" for k x
  proof (cases "k = m")
    case True
    with that e wf sum show ?thesis
      by (auto simp: pool_wf_def)
  next
    case False
    with that wf others [OF False] show ?thesis
      by (simp add: pool_wf_def)
  qed
  have all: "?es k = Some x \<Longrightarrow> \<exists>y. mp_entries pool k = Some y \<and> pe_all y = pe_all x" for k x
    using e by (auto split: if_splits)
  have disj: "set (pe_all x) \<inter> set (pe_all x') = {}" if k: "?es k = Some x" "?es k' = Some x'" "k \<noteq> k'" for k k' x x'
  proof -
    obtain y where y: "mp_entries pool k = Some y" "pe_all y = pe_all x"
      using all [OF k(1)] by (elim exE conjE) (rule that)
    obtain y' where y': "mp_entries pool k' = Some y'" "pe_all y' = pe_all x'"
      using all [OF k(2)] by (elim exE conjE) (rule that)
    from wf have "\<forall>m m' e e'. mp_entries pool m = Some e \<and> mp_entries pool m' = Some e' \<and> m \<noteq> m' \<longrightarrow>
        set (pe_all e) \<inter> set (pe_all e') = {}"
      by (simp add: pool_wf_def)
    then have "set (pe_all y) \<inter> set (pe_all y') = {}"
      using y(1) y'(1) k(3) by blast
    with y(2) y'(2) show ?thesis
      by simp
  qed
  have out: "\<forall>l \<in> set held'. ?es (le_model l) \<noteq> None"
    using loaded by simp
  have es: "mp_entries (pool\<lparr>mp_entries := ?es\<rparr>) = ?es"
    by simp
  show ?thesis
    unfolding pool_wf_def fst_conv snd_conv es
    by (intro conjI allI impI out) (use each disj in blast)+
qed

lemma pool_step_wf:
  assumes "pool_step s s'" "pool_wf n s"
  shows "pool_wf n s'"
  using assms(1)
proof (cases rule: pool_step.cases)
  case (lease stop timed_out m pool pool' l held)
  obtain e rest where e: "mp_entries pool m = Some e" "pe_free e = le_state l # rest" "le_model l = m"
    "pool' = pool\<lparr>mp_entries := (mp_entries pool)(m \<mapsto> e\<lparr>pe_free := rest\<rparr>)\<rparr>"
    using lease(3) by (rule acquire_lease_entry)
  show ?thesis
    unfolding lease(2) e(4)
  proof (rule pool_wf_update [OF _ e(1)])
    show "pool_wf n (pool, held)"
      using assms(2) lease(1) by simp
    then show "\<forall>l' \<in> set (l # held). mp_entries pool (le_model l') \<noteq> None"
      using e(1,3) by (auto simp: pool_wf_def)
  qed (use e in auto)
next
  case (refused stop timed_out m pool pool' ex held)
  with assms(2) acquire_refused_pool show ?thesis
    by metis
next
  case (give_back l held pool)
  then obtain e where e: "mp_entries pool (le_model l) = Some e"
    using assms(2) by (auto simp: pool_wf_def)
  have "pool_wf n (pool\<lparr>mp_entries := (mp_entries pool)(le_model l \<mapsto> e\<lparr>pe_free := pe_free e @ [le_state l]\<rparr>)\<rparr>, remove1 l held)"
  proof (rule pool_wf_update [OF _ e])
    show "pool_wf n (pool, held)"
      using assms(2) give_back(1) by simp
    then show "\<forall>l' \<in> set (remove1 l held). mp_entries pool (le_model l') \<noteq> None"
      by (auto simp: pool_wf_def dest: notin_set_remove1)
  qed (use give_back in \<open>simp_all add: held_states_remove1\<close>)
  with e give_back show ?thesis
    by (simp add: release_def)
qed

interpretation pool: invariant_machine "\<lambda>s' s. if pool_step s s' then s' else s" "pool_wf n" for n
  by unfold_locales (simp add: pool_step_wf)

section \<open>Properties\<close>

lemma init_states_range:
  "init_states E cfg name path ctx fresh i n = Inr states \<Longrightarrow> states = [fresh ..< fresh + n]"
proof (induction n arbitrary: fresh i states)
  case (Suc n)
  then obtain rest where "init_states E cfg name path ctx (fresh + 1) (i + 1) n = Inr rest" "states = fresh # rest"
    by (auto split: if_splits sum.splits)
  with Suc.IH [of "fresh + 1" "i + 1" rest] show ?case
    by (simp add: upt_conv_Cons)
qed simp

lemma load_model_entry:
  "load_model E cfg name fresh = Inr e \<Longrightarrow>
   pe_free e = pe_all e \<and> pe_all e = [fresh ..< fresh + concurrency cfg] \<and>
   (\<exists>bytes. en_read E (model_path (models_dir cfg) name) = Some bytes \<and> pe_hash e = en_sha256 E bytes)"
  by (auto simp: load_model_def Let_def dest!: init_states_range split: if_splits option.splits sum.splits)

definition entries_below :: "nat \<Rightarrow> nat \<Rightarrow> (string \<rightharpoonup> 'c pool_entry) \<Rightarrow> bool" where
  "entries_below n fresh es \<longleftrightarrow>
     (\<forall>m e. es m = Some e \<longrightarrow> pe_free e = pe_all e \<and> length (pe_all e) = n \<and> distinct (pe_all e) \<and> (\<forall>i \<in> set (pe_all e). i < fresh)) \<and>
     (\<forall>m m' e e'. es m = Some e \<and> es m' = Some e' \<and> m \<noteq> m' \<longrightarrow> set (pe_all e) \<inter> set (pe_all e') = {})"

lemma entries_below_insert:
  assumes "entries_below n fresh es" "pe_free e = pe_all e" "pe_all e = [fresh ..< fresh + n]"
  shows "entries_below n (fresh + n) (es(m \<mapsto> e))"
proof -
  have old: "set (pe_all x) \<inter> set (pe_all e) = {}" if "es k = Some x" for k x
  proof -
    have "\<forall>i \<in> set (pe_all x). i < fresh"
      using assms(1) that by (auto simp: entries_below_def)
    then show ?thesis
      using assms(3) by fastforce
  qed
  have one: "pe_free x = pe_all x \<and> length (pe_all x) = n \<and> distinct (pe_all x) \<and> (\<forall>i \<in> set (pe_all x). i < fresh + n)"
    if "(es(m \<mapsto> e)) k = Some x" for k x
    using that assms by (cases "k = m") (fastforce simp: entries_below_def)+
  have "set (pe_all x) \<inter> set (pe_all x') = {}" if "(es(m \<mapsto> e)) k = Some x" "(es(m \<mapsto> e)) k' = Some x'" "k \<noteq> k'" for k k' x x'
  proof (cases "k = m \<or> k' = m")
    case True
    with that old show ?thesis
      by (cases "k = m") (auto simp: Int_commute)
  next
    case False
    with that have "es k = Some x" "es k' = Some x'"
      by auto
    with assms(1) that(3) show ?thesis
      unfolding entries_below_def by blast
  qed
  with one show ?thesis
    unfolding entries_below_def by blast
qed

lemma load_models_entries:
  assumes "load_models E cfg names fresh es = Inr es'" "entries_below (concurrency cfg) fresh es"
  shows "(\<exists>top. entries_below (concurrency cfg) top es') \<and> dom es' = dom es \<union> set names"
  using assms
proof (induction names arbitrary: fresh es)
  case (Cons name names)
  obtain e where e: "load_model E cfg name fresh = Inr e"
    "load_models E cfg names (fresh + concurrency cfg) (es(name \<mapsto> e)) = Inr es'"
    using Cons.prems(1) by (auto split: sum.splits)
  have "entries_below (concurrency cfg) (fresh + concurrency cfg) (es(name \<mapsto> e))"
    using load_model_entry [OF e(1)] Cons.prems(2) by (intro entries_below_insert) simp_all
  from Cons.IH [OF e(2) this] show ?case
    by auto
qed auto

text \<open>A pool that loads is well formed: all its states are free.\<close>

lemma model_pool_new_wf:
  assumes "model_pool_new E cfg = Inr pool"
  shows "pool_wf (concurrency cfg) (pool, [])"
proof -
  obtain names es where ld: "load_models E cfg names 0 Map.empty = Inr es" "mp_entries pool = es"
    using assms by (auto simp: model_pool_new_def split: if_splits sum.splits)
  have "entries_below (concurrency cfg) 0 Map.empty"
    by (simp add: entries_below_def)
  from load_models_entries [OF ld(1) this] obtain top where "entries_below (concurrency cfg) top es"
    by blast
  then show ?thesis
    using ld(2) unfolding pool_wf_def entries_below_def by simp
qed

text \<open>C14: whatever streams acquire, release, time out or are cancelled, in whatever order, no
  whisper state is ever leased to two streams at once, none is lost, no model has more leases
  out than its configured concurrency, and a free state exists exactly when fewer are out.\<close>

theorem pool_exclusive_leases:
  assumes "model_pool_new E cfg = Inr pool" "pool_step\<^sup>*\<^sup>* (pool, []) (pool', held)" "mp_entries pool' m = Some e"
  shows "distinct (held_states m held) \<and> set (held_states m held) \<inter> set (pe_free e) = {} \<and>
    length (held_states m held) + length (pe_free e) = concurrency cfg \<and>
    (\<forall>m' e'. m' \<noteq> m \<and> mp_entries pool' m' = Some e' \<longrightarrow> set (held_states m held) \<inter> set (held_states m' held) = {})"
proof -
  have "pool_wf (concurrency cfg) (pool, [])"
    using assms(1) by (rule model_pool_new_wf)
  with assms(2) have wf: "pool_wf (concurrency cfg) (pool', held)"
    by (induction rule: rtranclp_induct) (auto intro: pool_step_wf)
  have part: "length (pe_all x) = concurrency cfg \<and> distinct (pe_all x) \<and> mset (pe_free x) + mset (held_states k held) = mset (pe_all x)"
    if "mp_entries pool' k = Some x" for k x
    using wf that by (simp add: pool_wf_def)
  have sub: "set (held_states k held) \<subseteq> set (pe_all x)" if "mp_entries pool' k = Some x" for k x
    using part [OF that] by (metis mset_subset_eq_add_right set_mset_mono set_mset_mset)
  have "mset (pe_free e @ held_states m held) = mset (pe_all e)"
    using part [OF assms(3)] by simp
  then have "distinct (pe_free e @ held_states m held)" "length (pe_free e @ held_states m held) = concurrency cfg"
    using part [OF assms(3)] mset_eq_imp_distinct_iff mset_eq_length by metis+
  moreover have "set (held_states m held) \<inter> set (held_states m' held) = {}" if "m' \<noteq> m" "mp_entries pool' m' = Some e'" for m' e'
  proof -
    have "\<forall>m m' e e'. mp_entries pool' m = Some e \<and> mp_entries pool' m' = Some e' \<and> m \<noteq> m' \<longrightarrow>
        set (pe_all e) \<inter> set (pe_all e') = {}"
      using wf by (simp add: pool_wf_def)
    then have "set (pe_all e) \<inter> set (pe_all e') = {}"
      using that assms(3) by blast
    with sub [OF assms(3)] sub [OF that(2)] show ?thesis
      by blast
  qed
  ultimately show ?thesis
    by auto
qed

text \<open>A stream that waits is not stuck: a request is served at once when a state is free,
  and otherwise ends with the error that says why as soon as its stop fires or its deadline
  passes, leaving the pool as it was; a lease that ends makes the model available again.\<close>

theorem acquire_outcome:
  assumes "mp_entries pool m = Some e"
  shows "(acquire stop timed_out m pool = None \<longleftrightarrow> pe_free e = [] \<and> \<not> stop \<and> \<not> timed_out) \<and>
    (pe_free e \<noteq> [] \<longrightarrow> (\<exists>pool' l. acquire stop timed_out m pool = Some (pool', Inr l) \<and> le_state l = hd (pe_free e))) \<and>
    (\<forall>pool' ex. acquire stop timed_out m pool = Some (pool', Inl ex) \<longrightarrow> pool' = pool) \<and>
    (\<forall>l. le_model l = m \<longrightarrow> acquire stop' timed_out' m (release l pool) \<noteq> None)"
  using assms by (auto simp: acquire_def release_def split: list.splits if_splits)

section \<open>Discovery finds the weight files\<close>

lemma extension_bin:
  "extension f = ''.bin'' \<longleftrightarrow> suffix ''.bin'' f"
proof
  assume "extension f = ''.bin''"
  then have t: "takeWhile (\<lambda>c. c \<noteq> CHR ''.'') (rev f) = ''nib''" "CHR ''.'' \<in> set f"
    by (auto simp: extension_def rev_swap split: if_splits)
  then obtain c rest where d: "dropWhile (\<lambda>c. c \<noteq> CHR ''.'') (rev f) = c # rest"
    by (cases "dropWhile (\<lambda>c. c \<noteq> CHR ''.'') (rev f)") auto
  then have "c = CHR ''.''"
    by (simp add: dropWhile_eq_Cons_conv)
  with d t(1) have "rev f = ''nib'' @ CHR ''.'' # rest"
    by (metis takeWhile_dropWhile_id)
  then have "f = rev rest @ ''.bin''"
    by (simp add: rev_swap)
  then show "suffix ''.bin'' f"
    by (auto simp: suffix_def)
next
  assume "suffix ''.bin'' f"
  then obtain g where "f = g @ ''.bin''"
    by (auto simp: suffix_def)
  then show "extension f = ''.bin''"
    by (simp add: extension_def)
qed

text \<open>Discovery lists exactly the models whose weight file is there: a name is found if and
  only if the directory holds ggml-<name>.bin and that file is not an OpenVINO encoder payload,
  so the path the pool opens for a discovered name is the file it was discovered from.\<close>

theorem discover_models_iff:
  assumes "discover_models dir (Inr files) = Inr names"
  shows "name \<in> set names \<longleftrightarrow>
    (\<exists>f \<in> set files. model_path dir name = path_join dir f \<and> f = ''ggml-'' @ name @ ''.bin'' \<and> \<not> suffix kOpenvinoEncoderSuffix f)"
proof -
  have names: "names = map (\<lambda>f. take (length f - 5 - 4) (drop 5 f)) (filter is_weight_file files)"
    using assms by (auto simp: discover_models_def Let_def split: if_splits)
  have weight: "is_weight_file f \<longleftrightarrow> (\<exists>n. f = ''ggml-'' @ n @ ''.bin'') \<and> \<not> suffix kOpenvinoEncoderSuffix f" for f
  proof -
    have "prefix ''ggml-'' f \<and> suffix ''.bin'' f \<longleftrightarrow> (\<exists>n. f = ''ggml-'' @ n @ ''.bin'')"
    proof
      assume a: "prefix ''ggml-'' f \<and> suffix ''.bin'' f"
      obtain g where g: "f = ''ggml-'' @ g"
        using a unfolding prefix_def by blast
      obtain h where h: "f = h @ ''.bin''"
        using a unfolding suffix_def by blast
      have "h @ ''.bin'' = ''ggml-'' @ g"
        by (rule trans [OF h [symmetric] g])
      then consider us where "h = ''ggml-'' @ us" | us where "h @ us = ''ggml-''" "''.bin'' = us @ g"
        unfolding append_eq_append_conv2 by blast
      then show "\<exists>n. f = ''ggml-'' @ n @ ''.bin''"
      proof cases
        case (1 us)
        with h show ?thesis by simp
      next
        case (2 us)
        have "us = []"
        proof (rule ccontr)
          assume "us \<noteq> []"
          with 2(2) have "CHR ''.'' \<in> set us"
            by (cases us) auto
          then have "CHR ''.'' \<in> set (h @ us)" by simp
          then show False
            unfolding 2(1) by simp
        qed
        with 2 h show ?thesis
          by (intro exI [of _ "[]"]) simp
      qed
    qed (auto simp: prefix_def suffix_def)
    then show ?thesis
      by (auto simp: is_weight_file_def extension_bin)
  qed
  have cut: "take (length f - 5 - 4) (drop 5 f) = n" if "f = ''ggml-'' @ n @ ''.bin''" for f n
    using that by simp
  show ?thesis
    by (auto simp: names weight cut model_path_def image_iff intro!: bexI)
qed

section \<open>Examples\<close>

definition demo_pool_env :: "unit pool_env" where
  "demo_pool_env = \<lparr>en_listing = (\<lambda>_. Inr [''ggml-tiny.bin'', ''ggml-tiny-encoder-openvino.bin'', ''notes.txt'']),
     en_exists = (\<lambda>_. True), en_size = (\<lambda>_. Some 3), en_read = (\<lambda>_. Some ''abc''), en_sha256 = (\<lambda>_. ''digest''),
     en_has_cuda = True, en_backends = ''CPU'', en_init_context = (\<lambda>_ _ _. Some ()), en_init_state = (\<lambda>_ _. True),
     en_init_openvino = (\<lambda>_ _ _ _. True)\<rparr>"

definition demo_config :: config where
  "demo_config = (case load_config_from_env 8 [''GRPC_ASR_MODELS'' \<mapsto> ''tiny''] of Inr c \<Rightarrow> c)"

definition demo_pool :: "unit model_pool" where
  "demo_pool = \<lparr>mp_backend = ''cuda'',
     mp_entries = [''tiny'' \<mapsto> \<lparr>pe_hash = ''digest'', pe_ctx = (), pe_free = [0, 1], pe_all = [0, 1]\<rparr>]\<rparr>"

definition demo_lease :: "unit lease" where
  "demo_lease = \<lparr>le_model = ''tiny'', le_ctx = (), le_state = 0\<rparr>"

lemma demo_config_simps:
  "cfg_backend demo_config = ''cuda''" "models demo_config = [''tiny'']" "concurrency demo_config = 2"
  by (simp_all add: demo_config_def load_config_from_env_def configured_size_def configured_string_def configured_bool_def
      configured_list_def env_set_def trim_def is_blank_def)

lemma demo_pool_new: "model_pool_new demo_pool_env demo_config = Inr demo_pool"
  by (simp add: model_pool_new_def demo_config_simps demo_pool_env_def load_model_def numeral_2_eq_2 demo_pool_def)

theorem pool_exclusive_leases_witness:
  "\<exists>pool'. pool_step\<^sup>*\<^sup>* (demo_pool, []) (pool', [demo_lease]) \<and>
     length (held_states ''tiny'' [demo_lease]) + 1 = concurrency demo_config"
proof -
  obtain pool' where acq: "acquire False False ''tiny'' demo_pool = Some (pool', Inr demo_lease)"
    "mp_entries pool' ''tiny'' = Some \<lparr>pe_hash = ''digest'', pe_ctx = (), pe_free = [1], pe_all = [0, 1]\<rparr>"
    by (simp add: acquire_def demo_pool_def demo_lease_def)
  have steps: "pool_step\<^sup>*\<^sup>* (demo_pool, []) (pool', [demo_lease])"
    using pool_step.lease [OF acq(1), of "[]"] by (rule r_into_rtranclp)
  from pool_exclusive_leases [OF demo_pool_new steps acq(2)] show ?thesis
    using steps by auto
qed

theorem acquire_outcome_witness:
  "\<exists>pool' l. acquire False True ''tiny'' demo_pool = Some (pool', Inr l) \<and> le_state l = 0"
  using acquire_outcome [of demo_pool "''tiny''" "\<lparr>pe_hash = ''digest'', pe_ctx = (), pe_free = [0, 1], pe_all = [0, 1]\<rparr>" False True]
  by (simp add: demo_pool_def)

theorem discover_models_iff_witness:
  "''tiny'' \<in> set [''tiny''] \<longleftrightarrow> (\<exists>f \<in> set [''ggml-tiny.bin'', ''ggml-tiny-encoder-openvino.bin'', ''notes.txt''].
     model_path ''/models'' ''tiny'' = path_join ''/models'' f \<and> f = ''ggml-tiny.bin'')"
proof -
  have "discover_models ''/models'' (Inr [''ggml-tiny.bin'', ''ggml-tiny-encoder-openvino.bin'', ''notes.txt'']) = Inr [''tiny'']"
    by code_simp
  from discover_models_iff [OF this, of "''tiny''"] show ?thesis
    by (auto simp: kOpenvinoEncoderSuffix_def)
qed

end
