(* ===== verification/Media_Types.thy ===== *)
theory Media_Types
  imports Prelude "HOL-Library.Char_ord"
begin

text \<open>
  The messages of media.proto as far as the streaming code reads or writes them
  (src/proto/ai/pipestream/media/v1/media.proto), and the identifiers of registry.cpp. A
  sub-message the code only copies is its serialized string. An optional field is an option.
\<close>

section \<open>Identifiers\<close>

definition hex_digit :: "nat \<Rightarrow> char" where
  "hex_digit n = ''0123456789abcdef'' ! n"

definition hex_byte :: "nat \<Rightarrow> string" where
  "hex_byte b = [hex_digit (b div 16), hex_digit (b mod 16)]"

text \<open>\<open>uuid\<close> from the sixteen random bytes \<open>RAND_bytes\<close> delivers.\<close>

definition uuid_of :: "nat list \<Rightarrow> string" where
  "uuid_of bytes =
     (let data = bytes[6 := bytes ! 6 mod 16 + 64, 8 := bytes ! 8 mod 64 + 128]
      in concat (map (\<lambda>i. (if i = 4 \<or> i = 6 \<or> i = 8 \<or> i = 10 then ''-'' else []) @ hex_byte (data ! i)) [0..<16]))"

definition is_hex :: "char \<Rightarrow> bool" where
  "is_hex c \<longleftrightarrow> (CHR ''0'' \<le> c \<and> c \<le> CHR ''9'') \<or> (CHR ''a'' \<le> c \<and> c \<le> CHR ''f'')"

definition valid_uuid :: "string \<Rightarrow> bool" where
  "valid_uuid v \<longleftrightarrow> length v = 36 \<and>
     (\<forall>i < 36. if i \<in> {8, 13, 18, 23} then v ! i = CHR ''-'' else is_hex (v ! i)) \<and>
     (\<exists>i < 36. i \<notin> {8, 13, 18, 23} \<and> v ! i \<noteq> CHR ''0'')"

section \<open>Messages\<close>

record producer =
  pr_machine_id :: string
  pr_service :: string
  pr_app_version :: string
  pr_build_id :: string
  pr_library_version :: string
  pr_execution_backend :: string
  pr_model_id :: string
  pr_model_sha256 :: string
  pr_configuration_sha256 :: string

datatype token_kind = TK_UNSPECIFIED | TK_TEXT | TK_CONTROL

text \<open>A token: the whisper log-probability and the parakeet word start when they are there.\<close>

record speech_token =
  tk_text :: string
  tk_start_us :: "int option"
  tk_end_us :: "int option"
  tk_kind :: token_kind
  tk_whisper :: "32 word option"
  tk_rendered :: "string option"
  tk_parakeet :: "bool option"

datatype speech_task = SPEECH_TASK_UNSPECIFIED | SPEECH_TASK_TRANSCRIBE | SPEECH_TASK_TRANSLATE_TO_ENGLISH | SPEECH_TASK_OTHER int

datatype reconciliation_status = RS_UNSPECIFIED | RS_DIRECT | RS_ALIGNED | RS_UNRESOLVED | RS_PENDING

record transcript_segment =
  ts_segment_id :: string
  ts_revision :: nat
  ts_final :: bool
  ts_track_id :: nat
  ts_start_us :: int
  ts_end_us :: int
  ts_text :: string
  ts_source_language :: string
  ts_output_language :: string
  ts_task :: speech_task
  ts_average_log_probability :: "64 word option"
  ts_tokens :: "speech_token list"
  ts_reconciliation :: reconciliation_status
  ts_producer :: producer
  ts_contributors :: "producer list"

record speech_hypothesis =
  sh_window_number :: nat
  sh_track_id :: nat
  sh_segments :: "transcript_segment list"
  sh_first_sample :: nat
  sh_first_new_sample :: nat
  sh_sample_count :: nat
  sh_boundary :: nat
  sh_producer :: producer
  sh_contributors :: "producer list"
  sh_presentation_time_us :: "int option"
  sh_encoder_context :: "string option"

record cursor =
  cu_server_epoch :: string
  cu_stream_id :: string
  cu_event_sequence :: nat
  cu_stream_incarnation :: string

record source_chunk =
  sc_chunk_number :: nat
  sc_byte_offset :: nat
  sc_data :: string
  sc_sha256 :: string

record stream_closed =
  cl_status_code :: status_code
  cl_message :: string
  cl_source_chunk_count :: nat
  cl_source_byte_count :: nat
  cl_source_sha256 :: string

record audio_chunk =
  ac_chunk_number :: nat
  ac_track_id :: nat
  ac_first_sample :: nat
  ac_sample_rate :: nat
  ac_channels :: nat
  ac_pcm_f32le :: string
  ac_presentation_time_us :: "int option"
  ac_discontinuity :: bool

record decode_options =
  do_emit_audio :: bool
  do_emit_packets :: bool
  do_audio_track_ids :: "nat list"

datatype chunking_strategy = CHUNKING_UNSPECIFIED | CHUNKING_FIXED | CHUNKING_SPEECH_AWARE | CHUNKING_OTHER int

datatype no_pause_policy = NO_PAUSE_UNSPECIFIED | NO_PAUSE_SPLIT_WITH_OVERLAP | NO_PAUSE_FAIL | NO_PAUSE_OTHER int

record speech_boundary =
  sb_vad_model_id :: string
  sb_min_pause_ms :: nat
  sb_speech_padding_ms :: nat
  sb_max_window_ms :: nat
  sb_no_pause_policy :: no_pause_policy

record speech_windowing =
  sw_window_ms :: "nat option"
  sw_overlap_ms :: "nat option"
  sw_strategy :: chunking_strategy
  sw_speech_boundary :: "speech_boundary option"

record speech_options =
  so_model_id :: string
  so_language :: string
  so_task :: speech_task
  so_word_timestamps :: bool
  so_windowing :: "speech_windowing option"
  so_reconcile_transcript :: "bool option"

datatype media_source = Source_not_set | Direct_source string string | Http_source string string

record open_stream =
  os_stream_id :: string
  os_source :: media_source
  os_speech :: "speech_options list"
  os_decode :: "decode_options option"

record stream_opened =
  op_source :: "string \<times> string"
  op_max_chunk_bytes :: nat
  op_retention_bytes :: nat
  op_speech :: "speech_options list"
  op_decode :: "decode_options option"

datatype payload =
    Payload_not_set
  | Opened stream_opened
  | Source source_chunk
  | Audio audio_chunk
  | Transcript transcript_segment
  | Closed stream_closed
  | Media_info string
  | Packet string
  | Hypothesis speech_hypothesis
  | Http_info string

record stream_event =
  ev_cursor :: cursor
  ev_producer :: "producer option"
  ev_emitted_at :: "int \<times> int"
  ev_payload :: payload

section \<open>Identifiers are valid\<close>

lemma all_less_36: "(\<forall>i < (36 :: nat). P i) \<longleftrightarrow> (\<forall>i \<in> set [0..<36]. P i)"
  by auto

text \<open>The text of sixteen bytes: their hex pairs with the four dashes, bytes six and eight with
  the version and variant bits.\<close>

lemma uuid_of_layout:
  assumes "bytes = [b0, b1, b2, b3, b4, b5, b6, b7, b8, b9, b10, b11, b12, b13, b14, b15]"
  shows "uuid_of bytes =
    hex_byte b0 @ hex_byte b1 @ hex_byte b2 @ hex_byte b3 @ ''-'' @ hex_byte b4 @ hex_byte b5 @ ''-'' @
    hex_byte (b6 mod 16 + 64) @ hex_byte b7 @ ''-'' @ hex_byte (b8 mod 64 + 128) @ hex_byte b9 @ ''-'' @
    hex_byte b10 @ hex_byte b11 @ hex_byte b12 @ hex_byte b13 @ hex_byte b14 @ hex_byte b15"
  unfolding assms uuid_of_def Let_def by (simp add: upt_rec numeral_2_eq_2)

lemma hex_digit_ok: "n < 16 \<Longrightarrow> is_hex (hex_digit n)"
proof -
  have "\<forall>n \<in> set [0..<16 :: nat]. is_hex (hex_digit n)"
    by code_simp
  then show "n < 16 \<Longrightarrow> is_hex (hex_digit n)"
    by simp
qed

lemma variant_digit: "n < 64 \<Longrightarrow> hex_digit ((n + 128) div 16) \<in> set ''89ab''"
proof -
  have "\<forall>n \<in> set [0..<64 :: nat]. hex_digit ((n + 128) div 16) \<in> set ''89ab''"
    by code_simp
  then show "n < 64 \<Longrightarrow> hex_digit ((n + 128) div 16) \<in> set ''89ab''"
    by (simp del: set_simps)
qed

lemma version_digit: "n < 16 \<Longrightarrow> hex_digit ((n + 64) div 16) = CHR ''4''"
proof -
  assume "n < 16"
  then have "(n + 64) div 16 = 4"
    by simp
  then show ?thesis
    by (simp add: hex_digit_def)
qed

text \<open>Every identifier the server makes is one it accepts: for any sixteen random bytes
  the text is a lowercase UUID that is not nil, with the version and variant of a random UUID.\<close>

theorem uuid_of_valid:
  assumes "length bytes = 16" "\<forall>b \<in> set bytes. b < 256"
  shows "valid_uuid (uuid_of bytes) \<and> uuid_of bytes ! 14 = CHR ''4'' \<and> uuid_of bytes ! 19 \<in> set ''89ab''"
proof -
  obtain b0 b1 b2 b3 b4 b5 b6 b7 b8 b9 b10 b11 b12 b13 b14 b15 where
    bytes: "bytes = [b0, b1, b2, b3, b4, b5, b6, b7, b8, b9, b10, b11, b12, b13, b14, b15]"
    using assms(1) by (auto simp: numeral_eq_Suc length_Suc_conv)
  note layout = uuid_of_layout [OF bytes, unfolded hex_byte_def append_Cons append_Nil]
  have hex: "is_hex (hex_digit (b div 16))" "is_hex (hex_digit (b mod 16))" if "b < 256" for b
    using that by (simp_all add: hex_digit_ok)
  have small: "b6 mod 16 + 64 < 256" "b8 mod 64 + 128 < 256"
    by simp_all
  have v4: "uuid_of bytes ! 14 = CHR ''4''"
    unfolding layout by (simp add: version_digit)
  have "uuid_of bytes ! 19 = hex_digit ((b8 mod 64 + 128) div 16)"
    unfolding layout by simp
  then have v8: "uuid_of bytes ! 19 \<in> set ''89ab''"
    using variant_digit [of "b8 mod 64"] by (simp del: set_simps)
  have "length (uuid_of bytes) = 36"
    unfolding layout by simp
  moreover have "\<forall>i < 36. if i \<in> {8, 13, 18, 23} then uuid_of bytes ! i = CHR ''-'' else is_hex (uuid_of bytes ! i)"
    unfolding all_less_36 layout
    using assms(2) unfolding bytes by (simp add: upt_rec hex small)
  moreover have "\<exists>i < 36. i \<notin> {8, 13, 18, 23} \<and> uuid_of bytes ! i \<noteq> CHR ''0''"
    by (rule exI [of _ 14]) (simp add: v4)
  ultimately show ?thesis
    using v4 v8 by (simp add: valid_uuid_def)
qed

theorem uuid_of_valid_witness:
  "length (replicate 16 (0 :: nat)) = 16 \<and> valid_uuid (uuid_of (replicate 16 0))"
  using uuid_of_valid [of "replicate 16 0"] by simp

end
