(* ===== verification/Ordered_Map.thy ===== *)
theory Ordered_Map
  imports Prelude "HOL-Library.Char_ord" "HOL-Library.List_Lexorder"
begin

text \<open>
  \<open>std::map\<close>: an association list in increasing key order, which is the order a range-for
  visits. Byte strings compare by unsigned characters, as \<open>std::string\<close> does.
\<close>

definition keys_sorted :: "('k :: linorder \<times> 'v) list \<Rightarrow> bool" where
  "keys_sorted m \<longleftrightarrow> sorted_wrt (<) (map fst m)"

text \<open>\<open>m[k] = v\<close>.\<close>

fun map_insert :: "'k :: linorder \<Rightarrow> 'v \<Rightarrow> ('k \<times> 'v) list \<Rightarrow> ('k \<times> 'v) list" where
  "map_insert k v [] = [(k, v)]"
| "map_insert k v ((k', v') # m) =
     (if k < k' then (k, v) # (k', v') # m
      else if k = k' then (k, v) # m
      else (k', v') # map_insert k v m)"

text \<open>\<open>m.erase(k)\<close>.\<close>

definition map_erase :: "'k \<Rightarrow> ('k \<times> 'v) list \<Rightarrow> ('k \<times> 'v) list" where
  "map_erase k m = filter (\<lambda>p. fst p \<noteq> k) m"

lemma keys_sorted_Nil [simp]: "keys_sorted []"
  by (simp add: keys_sorted_def)

lemma keys_sorted_Cons: "keys_sorted (p # m) \<longleftrightarrow> (\<forall>q \<in> set m. fst p < fst q) \<and> keys_sorted m"
  by (simp add: keys_sorted_def)

lemma keys_sorted_distinct: "keys_sorted m \<Longrightarrow> distinct (map fst m)"
  by (induction m) (auto simp: keys_sorted_Cons)

lemma set_map_insert: "set (map fst (map_insert k v m)) = insert k (set (map fst m))"
  by (induction k v m rule: map_insert.induct) auto

lemma keys_sorted_insert [wf_intros]: "keys_sorted m \<Longrightarrow> keys_sorted (map_insert k v m)"
proof (induction k v m rule: map_insert.induct)
  case (2 k v k' v' m)
  have "fst q = k \<or> fst q \<in> fst ` set m" if "q \<in> set (map_insert k v m)" for q
    using that set_map_insert [of k v m] by (metis (no_types) image_eqI insert_iff list.set_map)
  with 2 show ?case
    by (fastforce simp: keys_sorted_Cons)
qed (simp add: keys_sorted_def)

lemma keys_sorted_filter [wf_intros]: "keys_sorted m \<Longrightarrow> keys_sorted (filter P m)"
  by (induction m) (auto simp: keys_sorted_Cons)

lemma keys_sorted_erase [wf_intros]: "keys_sorted m \<Longrightarrow> keys_sorted (map_erase k m)"
  by (simp add: map_erase_def keys_sorted_filter)

lemma map_of_insert [simp]: "keys_sorted m \<Longrightarrow> map_of (map_insert k v m) = (map_of m)(k \<mapsto> v)"
proof (induction k v m rule: map_insert.induct)
  case (2 k v k' v' m)
  then show ?case
    by (auto simp: keys_sorted_Cons fun_eq_iff)
qed simp

lemma map_of_erase [simp]: "map_of (map_erase k m) = (map_of m)(k := None)"
  by (induction m) (auto simp: map_erase_def fun_eq_iff)

lemma length_map_insert:
  "keys_sorted m \<Longrightarrow> length (map_insert k v m) = (if k \<in> fst ` set m then length m else Suc (length m))"
proof (induction k v m rule: map_insert.induct)
  case (2 k v k' v' m)
  then show ?case
    by (auto simp: keys_sorted_Cons)
qed simp

lemma set_map_insert_cases: "p \<in> set (map_insert k v m) \<Longrightarrow> p = (k, v) \<or> p \<in> set m"
  by (induction k v m rule: map_insert.induct) (auto split: if_splits)

lemma length_map_erase:
  "keys_sorted m \<Longrightarrow> k \<in> fst ` set m \<Longrightarrow> Suc (length (map_erase k m)) = length m"
proof (induction m)
  case (Cons p m)
  show ?case
  proof (cases "fst p = k")
    case True
    then have "\<forall>q \<in> set m. fst q \<noteq> k"
      using Cons.prems(1) by (auto simp: keys_sorted_Cons)
    then have "filter (\<lambda>p. fst p \<noteq> k) m = m"
      by simp
    with True show ?thesis
      by (simp add: map_erase_def)
  next
    case False
    with Cons show ?thesis
      by (auto simp: map_erase_def keys_sorted_Cons)
  qed
qed simp

lemma keys_sorted_map_of: "keys_sorted m \<Longrightarrow> p \<in> set m \<Longrightarrow> map_of m (fst p) = Some (snd p)"
  by (simp add: keys_sorted_distinct)

end
