(* ===== verification/Registry.thy ===== *)
theory Registry
  imports Ordered_Map Media_Types
begin

text \<open>
  The in-memory registry of streams and listeners (src/streaming/src/registry.cpp). The mutex
  makes every member function one atomic step on the state. A listener object is shared with
  the RPC that reads it: it is stored once, in the registry, with the key the RPC holds, and the
  weak pointer has expired once the RPC has released it. Protobuf sizes, SHA-256 and the
  serialization of a request are the record \<open>wire\<close>; random identifiers and the clocks are
  arguments. A serialized \<open>Producer\<close> compares equal exactly when its fields do. Event numbers
  are 64-bit counters that start at one and count events, modelled without their wrap.
\<close>

section \<open>State\<close>

record stream_snapshot =
  ss_through :: cursor
  ss_first_retained_sequence :: nat
  ss_opened :: "stream_opened option"
  ss_closed :: "stream_closed option"
  ss_producers :: "producer list"
  ss_transcripts :: "transcript_segment list"
  ss_result_state_truncated :: bool
  ss_media_info :: "string option"
  ss_hypotheses :: "speech_hypothesis list"
  ss_http_info :: "string option"

datatype subscribe_response =
    Snapshot_begin string "cursor list"
  | Snapshot stream_snapshot
  | Event stream_event
  | Snapshot_end string

record hydration =
  hy_metadata :: bool
  hy_retained_events :: bool
  hy_after :: "cursor list"

record subscribe_request =
  sr_stream_ids :: "string list"
  sr_hydration :: hydration
  sr_payload_kinds :: "int list"

record limits =
  max_chunk_bytes :: nat
  retention_bytes :: nat
  subscriber_bytes :: nat
  max_streams :: nat
  max_subscribers :: nat

record wire =
  event_size :: "stream_event \<Rightarrow> nat"
  response_size :: "subscribe_response \<Rightarrow> nat"
  snapshot_size :: "stream_snapshot \<Rightarrow> nat"
  sha256 :: "string \<Rightarrow> string"
  serialize_processing :: "decode_options option \<Rightarrow> speech_options list \<Rightarrow> string"

record subscription =
  sub_key :: nat
  sub_ids :: "string list"
  sub_kinds :: "int list"
  sub_limit :: nat
  sub_pending :: "subscribe_response list"
  sub_bytes :: nat
  sub_stopped :: bool
  sub_status :: status
  sub_released :: bool

record stream =
  st_producer :: producer
  st_snapshot :: stream_snapshot
  st_history :: "stream_event list"
  st_history_bytes :: nat
  st_sequence :: nat
  st_closed :: bool
  st_incarnation :: string
  st_closed_at :: nat

record registry =
  rg_limits :: limits
  rg_epoch :: string
  rg_producer :: producer
  rg_streams :: "(string \<times> stream) list"
  rg_subscribers :: "subscription list"
  rg_next_key :: nat

section \<open>The mailbox of a listener\<close>

definition event_charge :: "wire \<Rightarrow> stream_event \<Rightarrow> nat" where
  "event_charge W e = event_size W e + 512"

definition response_charge :: "wire \<Rightarrow> subscribe_response \<Rightarrow> nat" where
  "response_charge W r = response_size W r + 512"

definition subscription_new :: "nat \<Rightarrow> subscribe_request \<Rightarrow> nat \<Rightarrow> subscription" where
  "subscription_new key request limit =
     \<lparr>sub_key = key, sub_ids = sr_stream_ids request, sub_kinds = sr_payload_kinds request, sub_limit = limit,
      sub_pending = [], sub_bytes = 0, sub_stopped = False, sub_status = Status OK '''', sub_released = False\<rparr>"

definition accepts_id :: "subscription \<Rightarrow> string \<Rightarrow> bool" where
  "accepts_id s i \<longleftrightarrow> sub_ids s = [] \<or> i \<in> set (sub_ids s)"

text \<open>The kind an event's payload is selected by; opening and closing are always sent.\<close>

fun payload_kind :: "payload \<Rightarrow> int option" where
  "payload_kind (Source _) = Some 1"
| "payload_kind (Audio _) = Some 2"
| "payload_kind (Transcript _) = Some 3"
| "payload_kind (Media_info _) = Some 4"
| "payload_kind (Packet _) = Some 5"
| "payload_kind (Hypothesis _) = Some 6"
| "payload_kind (Http_info _) = Some 7"
| "payload_kind _ = None"

definition accepts_event :: "subscription \<Rightarrow> stream_event \<Rightarrow> bool" where
  "accepts_event s e \<longleftrightarrow> accepts_id s (cu_stream_id (ev_cursor e)) \<and>
     (sub_kinds s = [] \<or>
      (case ev_payload e of Opened _ \<Rightarrow> True | Closed _ \<Rightarrow> True
       | p \<Rightarrow> (case payload_kind p of Some k \<Rightarrow> k \<in> set (sub_kinds s) | None \<Rightarrow> False)))"

definition sub_push :: "wire \<Rightarrow> subscribe_response \<Rightarrow> subscription \<Rightarrow> bool \<times> subscription" where
  "sub_push W response s =
     (if sub_stopped s then (False, s)
      else let need = response_charge W response in
        if need > sub_limit s \<or> sub_bytes s > sub_limit s - need
        then (False, s\<lparr>sub_stopped := True,
                sub_status := Status RESOURCE_EXHAUSTED ''subscriber queue exhausted; resume using last delivered cursor'',
                sub_pending := [], sub_bytes := 0\<rparr>)
        else (True, s\<lparr>sub_bytes := sub_bytes s + need, sub_pending := sub_pending s @ [response]\<rparr>))"

text \<open>\<open>next\<close> after its wait: nothing when the mailbox is empty (time passed, or stopped).\<close>

definition sub_next :: "wire \<Rightarrow> subscription \<Rightarrow> subscribe_response option \<times> subscription" where
  "sub_next W s = (case sub_pending s of [] \<Rightarrow> (None, s)
     | response # rest \<Rightarrow> (Some response, s\<lparr>sub_bytes := sub_bytes s - response_charge W response, sub_pending := rest\<rparr>))"

definition sub_cancel :: "subscription \<Rightarrow> subscription" where
  "sub_cancel s = s\<lparr>sub_stopped := True, sub_pending := [], sub_bytes := 0\<rparr>"

section \<open>Construction and publication\<close>

definition valid_limits :: "limits \<Rightarrow> bool" where
  "valid_limits l \<longleftrightarrow> 0 < max_chunk_bytes l \<and> 0 < retention_bytes l \<and> 0 < subscriber_bytes l \<and>
     0 < max_streams l \<and> 0 < max_subscribers l"

definition limits_text :: "limits \<Rightarrow> string" where
  "limits_text l = ''max_chunk_bytes='' @ to_string (max_chunk_bytes l) @
     '';retention_bytes='' @ to_string (retention_bytes l) @
     '';subscriber_bytes='' @ to_string (subscriber_bytes l) @
     '';max_streams='' @ to_string (max_streams l) @
     '';max_subscribers='' @ to_string (max_subscribers l)"

text \<open>The build identity and the gRPC version are arguments.\<close>

definition registry_new ::
  "wire \<Rightarrow> string \<Rightarrow> string \<Rightarrow> string \<Rightarrow> string \<Rightarrow> string \<Rightarrow> limits \<Rightarrow> string \<Rightarrow> exn + registry" where
  "registry_new W epoch fresh app_version build_id grpc_version l machine_id =
     (if \<not> valid_limits l then Inl (Invalid_argument ''registry limits must be positive'')
      else if machine_id \<noteq> [] \<and> \<not> valid_uuid machine_id then Inl (Invalid_argument ''invalid machine UUID'')
      else Inr \<lparr>rg_limits = l, rg_epoch = epoch,
        rg_producer = \<lparr>pr_machine_id = (if machine_id = [] then fresh else machine_id), pr_service = ''grpc-asr'',
          pr_app_version = app_version, pr_build_id = build_id, pr_library_version = ''grpc/'' @ grpc_version,
          pr_execution_backend = ''cpu'', pr_model_id = [], pr_model_sha256 = [],
          pr_configuration_sha256 = sha256 W (limits_text l)\<rparr>,
        rg_streams = [], rg_subscribers = [], rg_next_key = 0\<rparr>)"

text \<open>The loop that makes room in the history for an event of the given size.\<close>

fun evict :: "wire \<Rightarrow> nat \<Rightarrow> nat \<Rightarrow> stream_event list \<Rightarrow> nat \<Rightarrow> stream_event list \<times> nat" where
  "evict W retention need [] bytes = ([], bytes)"
| "evict W retention need (e # history) bytes =
     (if need > retention \<or> bytes > retention - need
      then evict W retention need history (bytes - event_charge W e)
      else (e # history, bytes))"

definition offer :: "wire \<Rightarrow> stream_event \<Rightarrow> subscription \<Rightarrow> subscription" where
  "offer W e s = (if accepts_event s e then snd (sub_push W (Event e) s) else s)"

definition alive :: "subscription list \<Rightarrow> subscription list" where
  "alive subs = filter (\<lambda>s. \<not> sub_released s) subs"

text \<open>The event as it is stored and sent: its cursor, its producer when it has none, its time.\<close>

definition stamp :: "int \<times> int \<Rightarrow> string \<Rightarrow> string \<Rightarrow> stream \<Rightarrow> stream_event \<Rightarrow> stream_event" where
  "stamp now epoch i s e = e\<lparr>
     ev_cursor := \<lparr>cu_server_epoch = epoch, cu_stream_id = i, cu_event_sequence = Suc (st_sequence s),
                   cu_stream_incarnation = st_incarnation s\<rparr>,
     ev_producer := (case ev_producer e of None \<Rightarrow> Some (st_producer s) | p \<Rightarrow> p),
     ev_emitted_at := now\<rparr>"

definition retain :: "wire \<Rightarrow> nat \<Rightarrow> stream_event \<Rightarrow> stream \<Rightarrow> stream" where
  "retain W retention e s =
     (let need = event_charge W e;
          (kept, bytes) = evict W retention need (st_history s) (st_history_bytes s);
          (history, bytes') = (if need \<le> retention then (kept @ [e], bytes + need) else (kept, bytes));
          sequence = Suc (st_sequence s)
      in s\<lparr>st_sequence := sequence, st_history := history, st_history_bytes := bytes',
           st_snapshot := (st_snapshot s)\<lparr>ss_through := ev_cursor e,
             ss_first_retained_sequence :=
               (case history of [] \<Rightarrow> Suc sequence | front # _ \<Rightarrow> cu_event_sequence (ev_cursor front))\<rparr>\<rparr>)"

definition publish :: "wire \<Rightarrow> int \<times> int \<Rightarrow> string \<Rightarrow> stream \<Rightarrow> stream_event \<Rightarrow> registry \<Rightarrow> stream_event \<times> registry" where
  "publish W now i s event r =
     (let e = stamp now (rg_epoch r) i s event
      in (e, r\<lparr>rg_streams := map_insert i (retain W (retention_bytes (rg_limits r)) e s) (rg_streams r),
               rg_subscribers := map (offer W e) (alive (rg_subscribers r))\<rparr>))"

section \<open>Opening, source bytes, closing\<close>

definition audio_tracks :: "open_stream \<Rightarrow> nat list" where
  "audio_tracks q = (case os_decode q of Some d \<Rightarrow> do_audio_track_ids d | None \<Rightarrow> [])"

definition emits_audio :: "open_stream \<Rightarrow> bool" where
  "emits_audio q = (case os_decode q of Some d \<Rightarrow> do_emit_audio d | None \<Rightarrow> False)"

definition direct_of :: "open_stream \<Rightarrow> string \<times> string" where
  "direct_of q = (case os_source q of Direct_source name type \<Rightarrow> (name, type) | _ \<Rightarrow> ([], []))"

definition is_http :: "open_stream \<Rightarrow> bool" where
  "is_http q = (case os_source q of Http_source _ _ \<Rightarrow> True | _ \<Rightarrow> False)"

definition is_direct :: "open_stream \<Rightarrow> bool" where
  "is_direct q = (case os_source q of Direct_source _ _ \<Rightarrow> True | _ \<Rightarrow> False)"

definition open_refusal :: "open_stream \<Rightarrow> bool \<Rightarrow> bool \<Rightarrow> string \<Rightarrow> exn option" where
  "open_refusal q speech_enabled http_enabled i =
     (if os_source q = Source_not_set then Some (Failure INVALID_ARGUMENT ''source is required'')
      else if \<not> (is_direct q \<or> http_enabled \<and> is_http q)
        then Some (Failure UNIMPLEMENTED ''HTTP input requires the Pull RPC'')
      else if \<not> (os_speech q = [] \<or> speech_enabled)
        then Some (Failure UNIMPLEMENTED ''speech worker is not connected in this build'')
      else if length (audio_tracks q) > 64
        then Some (Failure RESOURCE_EXHAUSTED ''too many selected audio tracks'')
      else if \<not> (audio_tracks q = [] \<or> emits_audio q \<or> os_speech q \<noteq> [])
        then Some (Failure INVALID_ARGUMENT ''audio track selection requires emit_audio'')
      else if \<not> (length (fst (direct_of q)) \<le> 1024 \<and> length (snd (direct_of q)) \<le> 256)
        then Some (Failure INVALID_ARGUMENT ''source description too long'')
      else if \<not> valid_uuid i
        then Some (Failure INVALID_ARGUMENT ''stream_id must be a non-nil lowercase UUID'')
      else None)"

text \<open>The closed stream with the earliest closing time, the first one on a tie.\<close>

fun oldest_closed :: "(string \<times> stream) list \<Rightarrow> (string \<times> stream) option \<Rightarrow> (string \<times> stream) option" where
  "oldest_closed [] oldest = oldest"
| "oldest_closed (c # cs) oldest =
     oldest_closed cs
       (if st_closed (snd c) \<and>
           (case oldest of None \<Rightarrow> True | Some old \<Rightarrow> st_closed_at (snd c) < st_closed_at (snd old))
        then Some c else oldest)"

definition make_room :: "registry \<Rightarrow> registry" where
  "make_room r =
     (if length (rg_streams r) \<ge> max_streams (rg_limits r)
      then (case oldest_closed (rg_streams r) None of
              Some old \<Rightarrow> r\<lparr>rg_streams := map_erase (fst old) (rg_streams r)\<rparr> | None \<Rightarrow> r)
      else r)"

definition empty_cursor :: cursor where
  "empty_cursor = \<lparr>cu_server_epoch = [], cu_stream_id = [], cu_event_sequence = 0, cu_stream_incarnation = []\<rparr>"

definition blank_event :: "payload \<Rightarrow> stream_event" where
  "blank_event p = \<lparr>ev_cursor = empty_cursor, ev_producer = None, ev_emitted_at = (0, 0), ev_payload = p\<rparr>"

definition opened_of :: "limits \<Rightarrow> open_stream \<Rightarrow> stream_opened" where
  "opened_of l q = \<lparr>op_source = (if is_http q then (''HTTP response entity'', snd (direct_of q)) else direct_of q),
     op_max_chunk_bytes = max_chunk_bytes l, op_retention_bytes = retention_bytes l,
     op_speech = os_speech q, op_decode = os_decode q\<rparr>"

definition stream_new :: "wire \<Rightarrow> registry \<Rightarrow> string \<Rightarrow> open_stream \<Rightarrow> stream" where
  "stream_new W r incarnation q =
     (let producer = (rg_producer r)\<lparr>pr_configuration_sha256 :=
            sha256 W (pr_configuration_sha256 (rg_producer r) @ serialize_processing W (os_decode q) (os_speech q))\<rparr>
      in \<lparr>st_producer = producer,
          st_snapshot = \<lparr>ss_through = empty_cursor, ss_first_retained_sequence = 0,
            ss_opened = Some (opened_of (rg_limits r) q), ss_closed = None, ss_producers = [producer],
            ss_transcripts = [], ss_result_state_truncated = False, ss_media_info = None,
            ss_hypotheses = [], ss_http_info = None\<rparr>,
          st_history = [], st_history_bytes = 0, st_sequence = 0, st_closed = False,
          st_incarnation = incarnation, st_closed_at = 0\<rparr>)"

type_synonym reply = "(exn + stream_event) \<times> registry"

definition answer :: "stream_event \<times> registry \<Rightarrow> reply" where
  "answer p = (Inr (fst p), snd p)"

definition open_op ::
  "wire \<Rightarrow> int \<times> int \<Rightarrow> string \<Rightarrow> string \<Rightarrow> open_stream \<Rightarrow> bool \<Rightarrow> bool \<Rightarrow> registry \<Rightarrow> reply" where
  "open_op W now fresh incarnation q speech_enabled http_enabled r =
     (let i = (if os_stream_id q = [] then fresh else os_stream_id q) in
      case open_refusal q speech_enabled http_enabled i of Some e \<Rightarrow> (Inl e, r)
      | None \<Rightarrow>
        if map_of (rg_streams r) i \<noteq> None
        then (Inl (Failure ALREADY_EXISTS ''stream UUID is active or retained''), r)
        else let r' = make_room r in
          if length (rg_streams r') \<ge> max_streams (rg_limits r')
          then (Inl (Failure RESOURCE_EXHAUSTED ''registry stream limit reached''), r')
          else answer (publish W now i (stream_new W r' incarnation q)
                 (blank_event (Opened (opened_of (rg_limits r') q))) r'))"

definition find_open :: "string \<Rightarrow> string \<Rightarrow> registry \<Rightarrow> exn + stream" where
  "find_open closed_message i r =
     (case map_of (rg_streams r) i of None \<Rightarrow> Inl (Failure NOT_FOUND ''unknown stream'')
      | Some s \<Rightarrow> if st_closed s then Inl (Failure FAILED_PRECONDITION closed_message) else Inr s)"

definition source_op :: "wire \<Rightarrow> int \<times> int \<Rightarrow> string \<Rightarrow> source_chunk \<Rightarrow> registry \<Rightarrow> reply" where
  "source_op W now i chunk r =
     (case find_open ''stream is closed'' i r of Inl e \<Rightarrow> (Inl e, r)
      | Inr s \<Rightarrow> answer (publish W now i s (blank_event (Source chunk)) r))"

definition close_op :: "wire \<Rightarrow> int \<times> int \<Rightarrow> nat \<Rightarrow> string \<Rightarrow> stream_closed \<Rightarrow> registry \<Rightarrow> reply" where
  "close_op W now steady i closed r =
     (case find_open ''stream is already closed'' i r of Inl e \<Rightarrow> (Inl e, r)
      | Inr s \<Rightarrow> answer (publish W now i
          (s\<lparr>st_closed := True, st_closed_at := steady, st_snapshot := (st_snapshot s)\<lparr>ss_closed := Some closed\<rparr>\<rparr>)
          (blank_event (Closed closed)) r))"

section \<open>Derived results\<close>

definition derived_payload :: "payload \<Rightarrow> bool" where
  "derived_payload p = (case p of Media_info _ \<Rightarrow> True | Audio _ \<Rightarrow> True | Packet _ \<Rightarrow> True
     | Hypothesis _ \<Rightarrow> True | Transcript _ \<Rightarrow> True | Http_info _ \<Rightarrow> True | _ \<Rightarrow> False)"

text \<open>\<open>event.producer()\<close>: the default message when the field is absent.\<close>

definition producer_default :: producer where
  "producer_default = \<lparr>pr_machine_id = [], pr_service = [], pr_app_version = [], pr_build_id = [],
     pr_library_version = [], pr_execution_backend = [], pr_model_id = [], pr_model_sha256 = [],
     pr_configuration_sha256 = []\<rparr>"

definition event_producer :: "stream_event \<Rightarrow> producer" where
  "event_producer e = (case ev_producer e of Some p \<Rightarrow> p | None \<Rightarrow> producer_default)"

definition with_provenance :: "stream \<Rightarrow> string \<Rightarrow> stream_event \<Rightarrow> exn + stream_event" where
  "with_provenance s library e =
     (case ev_payload e of
        Transcript _ \<Rightarrow> Inr e
      | Hypothesis h \<Rightarrow>
          if ev_producer e \<noteq> None \<and> length (pr_model_sha256 (event_producer e)) = 32
          then Inr (e\<lparr>ev_payload := Hypothesis (h\<lparr>sh_producer := event_producer e\<rparr>)\<rparr>)
          else Inl (Failure INVALID_ARGUMENT ''speech event requires native model provenance'')
      | _ \<Rightarrow> Inr (e\<lparr>ev_producer := Some ((st_producer s)\<lparr>pr_library_version := library\<rparr>)\<rparr>))"

definition revision_ok :: "transcript_segment list \<Rightarrow> transcript_segment \<Rightarrow> bool" where
  "revision_ok priors t \<longleftrightarrow> (\<forall>prior \<in> set priors. ts_segment_id prior = ts_segment_id t \<longrightarrow>
     \<not> ts_final prior \<and> ts_revision t = ts_revision prior + 1 \<and> ts_track_id t = ts_track_id prior)"

definition transcript_refusal :: "stream \<Rightarrow> stream_event \<Rightarrow> exn option" where
  "transcript_refusal s e =
     (case ev_payload e of Transcript t \<Rightarrow>
        if \<not> (valid_uuid (ts_segment_id t) \<and> ts_revision t > 0 \<and> ev_producer e \<noteq> None \<and>
              ts_producer t = event_producer e \<and> valid_uuid (pr_machine_id (ts_producer t)) \<and>
              length (pr_configuration_sha256 (ts_producer t)) = 32 \<and>
              (case ts_contributors t of [] \<Rightarrow> False | c # _ \<Rightarrow> length (pr_model_sha256 c) = 32))
        then Some (Failure INVALID_ARGUMENT ''transcript requires identity and processing provenance'')
        else if \<not> revision_ok (ss_transcripts (st_snapshot s)) t
        then Some (Failure INVALID_ARGUMENT ''invalid transcript revision'')
        else None
      | _ \<Rightarrow> None)"

text \<open>The latest revision replaces the one the snapshot holds and goes to the end.\<close>

fun remove_segment :: "string \<Rightarrow> transcript_segment list \<Rightarrow> transcript_segment list" where
  "remove_segment i [] = []"
| "remove_segment i (t # ts) = (if ts_segment_id t = i then ts else t # remove_segment i ts)"

definition record_result :: "payload \<Rightarrow> stream_snapshot \<Rightarrow> stream_snapshot" where
  "record_result p n = (case p of
      Media_info m \<Rightarrow> n\<lparr>ss_media_info := Some m\<rparr>
    | Http_info h \<Rightarrow> n\<lparr>ss_http_info := Some h\<rparr>
    | Hypothesis h \<Rightarrow> n\<lparr>ss_hypotheses := ss_hypotheses n @ [h]\<rparr>
    | Transcript t \<Rightarrow> n\<lparr>ss_transcripts := remove_segment (ts_segment_id t) (ss_transcripts n) @ [t]\<rparr>
    | _ \<Rightarrow> n)"

definition drop_front :: "nat \<Rightarrow> 'a list \<Rightarrow> 'a list" where
  "drop_front most xs = drop (length xs - most) xs"

definition cap_counts :: "stream_snapshot \<Rightarrow> stream_snapshot" where
  "cap_counts n = n\<lparr>ss_hypotheses := drop_front 16 (ss_hypotheses n),
     ss_transcripts := drop_front 64 (ss_transcripts n),
     ss_result_state_truncated := ss_result_state_truncated n \<or> length (ss_hypotheses n) > 16 \<or>
        length (ss_transcripts n) > 64\<rparr>"

text \<open>The loop that drops results, hypotheses first, until the snapshot fits the budget.\<close>

function cap_bytes :: "wire \<Rightarrow> nat \<Rightarrow> stream_snapshot \<Rightarrow> stream_snapshot" where
  "cap_bytes W retention n =
     (if snapshot_size W n > retention \<and> (ss_hypotheses n \<noteq> [] \<or> ss_transcripts n \<noteq> [])
      then cap_bytes W retention
        (if ss_hypotheses n \<noteq> [] then n\<lparr>ss_hypotheses := tl (ss_hypotheses n), ss_result_state_truncated := True\<rparr>
         else n\<lparr>ss_transcripts := tl (ss_transcripts n), ss_result_state_truncated := True\<rparr>)
      else n)"
  by pat_completeness auto
termination
  by (relation "measure (\<lambda>(W, retention, n). length (ss_hypotheses n) + length (ss_transcripts n))")
    (auto simp: neq_Nil_conv)

declare cap_bytes.simps [simp del]

definition derived_op :: "wire \<Rightarrow> int \<times> int \<Rightarrow> string \<Rightarrow> stream_event \<Rightarrow> string \<Rightarrow> registry \<Rightarrow> reply" where
  "derived_op W now i event library r =
     (if \<not> derived_payload (ev_payload event)
      then (Inl (Failure INVALID_ARGUMENT ''unsupported derived payload''), r)
      else if event_size W event > 512 * 1024
      then (Inl (Failure RESOURCE_EXHAUSTED ''derived event exceeds limit''), r)
      else case find_open ''stream is closed'' i r of Inl e \<Rightarrow> (Inl e, r)
      | Inr s \<Rightarrow> (case with_provenance s library event of Inl e \<Rightarrow> (Inl e, r)
        | Inr e \<Rightarrow> (case transcript_refusal s e of Some x \<Rightarrow> (Inl x, r)
          | None \<Rightarrow>
            let n = st_snapshot s; known = event_producer e \<in> set (ss_producers n) in
            if \<not> known \<and> length (ss_producers n) \<ge> 16
            then (Inl (Failure RESOURCE_EXHAUSTED ''too many producers''), r)
            else let n1 = (if known then n else n\<lparr>ss_producers := ss_producers n @ [event_producer e]\<rparr>);
                     n2 = cap_bytes W (retention_bytes (rg_limits r)) (cap_counts (record_result (ev_payload e) n1))
                 in answer (publish W now i (s\<lparr>st_snapshot := n2\<rparr>) e r))))"

section \<open>Subscribing\<close>

text \<open>\<open>static_cast<int>\<close> of a size.\<close>

definition int_cast :: "nat \<Rightarrow> int" where
  "int_cast n = (int n + 2 ^ 31) mod 2 ^ 32 - 2 ^ 31"

definition subscribe_refusal :: "limits \<Rightarrow> subscribe_request \<Rightarrow> exn option" where
  "subscribe_refusal l q =
     (if int (length (sr_stream_ids q)) > int_cast (max_streams l)
      then Some (Failure RESOURCE_EXHAUSTED ''too many selected streams'')
      else if int (length (hy_after (sr_hydration q))) > int_cast (max_streams l)
      then Some (Failure RESOURCE_EXHAUSTED ''too many replay cursors'')
      else if \<not> list_all valid_uuid (sr_stream_ids q)
      then Some (Failure INVALID_ARGUMENT ''invalid stream UUID'')
      else if \<not> list_all (\<lambda>k. 1 \<le> k \<and> k \<le> 7) (sr_payload_kinds q)
      then Some (Failure INVALID_ARGUMENT ''invalid payload kind'')
      else if hy_after (sr_hydration q) \<noteq> [] \<and> \<not> hy_retained_events (sr_hydration q)
      then Some (Failure INVALID_ARGUMENT ''replay cursors require retained_events'')
      else None)"

text \<open>One replay cursor: the first failed requirement, or nothing.\<close>

definition cursor_refusal :: "registry \<Rightarrow> subscription \<Rightarrow> (string \<times> nat) list \<Rightarrow> cursor \<Rightarrow> exn option" where
  "cursor_refusal r sub after c =
     (if cu_server_epoch c \<noteq> rg_epoch r then Some (Failure OUT_OF_RANGE ''replay epoch unavailable'')
      else if \<not> accepts_id sub (cu_stream_id c)
      then Some (Failure INVALID_ARGUMENT ''cursor outside stream selection'')
      else case map_of (rg_streams r) (cu_stream_id c) of
        None \<Rightarrow> Some (Failure OUT_OF_RANGE ''replay stream unavailable'')
      | Some s \<Rightarrow>
        if cu_stream_incarnation c \<noteq> st_incarnation s
        then Some (Failure OUT_OF_RANGE ''replay stream incarnation unavailable or missing'')
        else if cu_event_sequence c > st_sequence s
        then Some (Failure OUT_OF_RANGE ''cursor ahead of stream'')
        else if cu_event_sequence c < ss_first_retained_sequence (st_snapshot s) - 1
        then Some (Failure OUT_OF_RANGE ''requested history evicted'')
        else if cu_stream_id c \<in> fst ` set after
        then Some (Failure INVALID_ARGUMENT ''duplicate replay cursor'')
        else None)"

fun read_cursors :: "registry \<Rightarrow> subscription \<Rightarrow> (string \<times> nat) list \<Rightarrow> cursor list \<Rightarrow> exn + (string \<times> nat) list" where
  "read_cursors r sub after [] = Inr after"
| "read_cursors r sub after (c # cs) = (case cursor_refusal r sub after c of Some e \<Rightarrow> Inl e
     | None \<Rightarrow> read_cursors r sub (after @ [(cu_stream_id c, cu_event_sequence c)]) cs)"

text \<open>Is the event newer than the replay cursor of its stream?\<close>

definition newer :: "(string \<times> nat) list \<Rightarrow> string \<Rightarrow> stream_event \<Rightarrow> bool" where
  "newer after i e = (case map_of after i of None \<Rightarrow> True | Some n \<Rightarrow> cu_event_sequence (ev_cursor e) > n)"

definition hydrate_stream :: "hydration \<Rightarrow> subscription \<Rightarrow> (string \<times> nat) list \<Rightarrow> string \<times> stream \<Rightarrow> subscribe_response list" where
  "hydrate_stream h sub after p =
     (if accepts_id sub (fst p)
      then (if hy_metadata h then [Snapshot (st_snapshot (snd p))] else []) @
           (if hy_retained_events h
            then map Event (filter (\<lambda>e. newer after (fst p) e \<and> accepts_event sub e) (st_history (snd p)))
            else [])
      else [])"

definition hydration_responses :: "string \<Rightarrow> hydration \<Rightarrow> subscription \<Rightarrow> (string \<times> nat) list \<Rightarrow> registry \<Rightarrow> subscribe_response list" where
  "hydration_responses snapshot_id h sub after r =
     (if hy_metadata h \<or> hy_retained_events h
      then Snapshot_begin snapshot_id (map (\<lambda>p. ss_through (st_snapshot (snd p)))
             (filter (\<lambda>p. accepts_id sub (fst p)) (rg_streams r)))
           # concat (map (hydrate_stream h sub after) (rg_streams r)) @ [Snapshot_end snapshot_id]
      else [])"

text \<open>\<open>enqueue\<close>: the first response the mailbox refuses ends the subscription.\<close>

fun enqueue_all :: "wire \<Rightarrow> subscribe_response list \<Rightarrow> subscription \<Rightarrow> subscription option" where
  "enqueue_all W [] sub = Some sub"
| "enqueue_all W (x # xs) sub = (case sub_push W x sub of (True, sub') \<Rightarrow> enqueue_all W xs sub' | (False, _) \<Rightarrow> None)"

definition subscribe :: "wire \<Rightarrow> string \<Rightarrow> subscribe_request \<Rightarrow> registry \<Rightarrow> (exn + subscription) \<times> registry" where
  "subscribe W snapshot_id q r =
     (case subscribe_refusal (rg_limits r) q of Some e \<Rightarrow> (Inl e, r)
      | None \<Rightarrow>
        let sub = subscription_new (rg_next_key r) q (subscriber_bytes (rg_limits r));
            r1 = r\<lparr>rg_subscribers := alive (rg_subscribers r)\<rparr> in
        if length (rg_subscribers r1) \<ge> max_subscribers (rg_limits r1)
        then (Inl (Failure RESOURCE_EXHAUSTED ''subscriber limit reached''), r1)
        else case read_cursors r1 sub [] (hy_after (sr_hydration q)) of Inl e \<Rightarrow> (Inl e, r1)
        | Inr after \<Rightarrow>
          (case enqueue_all W (hydration_responses snapshot_id (sr_hydration q) sub after r1) sub of
             None \<Rightarrow> (Inl (Failure RESOURCE_EXHAUSTED
               ''hydration exceeds subscriber budget; narrow selection or resume later''), r1)
           | Some sub' \<Rightarrow> (Inr sub', r1\<lparr>rg_subscribers := rg_subscribers r1 @ [sub'], rg_next_key := Suc (rg_next_key r1)\<rparr>)))"

section \<open>The registry as a machine\<close>

text \<open>The calls the RPCs make, with the clock readings and the identifiers each one draws.\<close>

datatype registry_call =
    Call_open "int \<times> int" string string open_stream bool bool
  | Call_source "int \<times> int" string source_chunk
  | Call_close "int \<times> int" nat string stream_closed
  | Call_derived "int \<times> int" string stream_event string
  | Call_subscribe string subscribe_request
  | Call_next nat
  | Call_cancel nat
  | Call_release nat

definition on_sub :: "nat \<Rightarrow> (subscription \<Rightarrow> subscription) \<Rightarrow> registry \<Rightarrow> registry" where
  "on_sub k f r = r\<lparr>rg_subscribers := map (\<lambda>s. if sub_key s = k then f s else s) (rg_subscribers r)\<rparr>"

fun registry_step :: "wire \<Rightarrow> registry_call \<Rightarrow> registry \<Rightarrow> registry" where
  "registry_step W (Call_open now fresh incarnation q sp ht) r = snd (open_op W now fresh incarnation q sp ht r)"
| "registry_step W (Call_source now i chunk) r = snd (source_op W now i chunk r)"
| "registry_step W (Call_close now steady i closed) r = snd (close_op W now steady i closed r)"
| "registry_step W (Call_derived now i e library) r = snd (derived_op W now i e library r)"
| "registry_step W (Call_subscribe sid q) r = snd (subscribe W sid q r)"
| "registry_step W (Call_next k) r = on_sub k (\<lambda>s. snd (sub_next W s)) r"
| "registry_step W (Call_cancel k) r = on_sub k sub_cancel r"
| "registry_step W (Call_release k) r = on_sub k (\<lambda>s. s\<lparr>sub_released := True\<rparr>) r"

section \<open>The invariant\<close>

abbreviation sequence_of :: "stream_event \<Rightarrow> nat" where
  "sequence_of e \<equiv> cu_event_sequence (ev_cursor e)"

definition sub_ok :: "wire \<Rightarrow> subscription \<Rightarrow> bool" where
  "sub_ok W s \<longleftrightarrow> sub_bytes s = sum_list (map (response_charge W) (sub_pending s)) \<and>
     sub_bytes s \<le> sub_limit s \<and> (sub_stopped s \<longrightarrow> sub_pending s = [])"

text \<open>The retained events are the last ones, without a gap, and fit the budget.\<close>

definition history_ok :: "wire \<Rightarrow> string \<Rightarrow> nat \<Rightarrow> string \<Rightarrow> stream \<Rightarrow> bool" where
  "history_ok W epoch retention i s \<longleftrightarrow>
     length (st_history s) \<le> st_sequence s \<and>
     map sequence_of (st_history s) = [Suc (st_sequence s) - length (st_history s)..<Suc (st_sequence s)] \<and>
     (\<forall>e \<in> set (st_history s). cu_server_epoch (ev_cursor e) = epoch \<and> cu_stream_id (ev_cursor e) = i \<and>
        cu_stream_incarnation (ev_cursor e) = st_incarnation s) \<and>
     st_history_bytes s = sum_list (map (event_charge W) (st_history s)) \<and>
     st_history_bytes s \<le> retention"

definition results_ok :: "stream_snapshot \<Rightarrow> bool" where
  "results_ok n \<longleftrightarrow> 0 < length (ss_producers n) \<and> length (ss_producers n) \<le> 16 \<and> distinct (ss_producers n) \<and>
     length (ss_hypotheses n) \<le> 16 \<and> length (ss_transcripts n) \<le> 64 \<and>
     distinct (map ts_segment_id (ss_transcripts n))"

definition snapshot_ok :: "string \<Rightarrow> string \<Rightarrow> stream \<Rightarrow> bool" where
  "snapshot_ok epoch i s \<longleftrightarrow>
     ss_through (st_snapshot s) = \<lparr>cu_server_epoch = epoch, cu_stream_id = i,
        cu_event_sequence = st_sequence s, cu_stream_incarnation = st_incarnation s\<rparr> \<and>
     ss_first_retained_sequence (st_snapshot s) = Suc (st_sequence s) - length (st_history s) \<and>
     0 < st_sequence s \<and> (st_closed s \<longleftrightarrow> ss_closed (st_snapshot s) \<noteq> None)"

definition stream_ok :: "wire \<Rightarrow> string \<Rightarrow> nat \<Rightarrow> string \<Rightarrow> stream \<Rightarrow> bool" where
  "stream_ok W epoch retention i s \<longleftrightarrow>
     history_ok W epoch retention i s \<and> results_ok (st_snapshot s) \<and> snapshot_ok epoch i s"

definition subscribers_ok :: "wire \<Rightarrow> registry \<Rightarrow> bool" where
  "subscribers_ok W r \<longleftrightarrow> length (rg_subscribers r) \<le> max_subscribers (rg_limits r) \<and>
     (\<forall>s \<in> set (rg_subscribers r). sub_ok W s \<and> sub_key s < rg_next_key r \<and>
        sub_limit s = subscriber_bytes (rg_limits r)) \<and>
     distinct (map sub_key (rg_subscribers r))"

definition streams_ok :: "wire \<Rightarrow> registry \<Rightarrow> bool" where
  "streams_ok W r \<longleftrightarrow> keys_sorted (rg_streams r) \<and> length (rg_streams r) \<le> max_streams (rg_limits r) \<and>
     (\<forall>p \<in> set (rg_streams r). stream_ok W (rg_epoch r) (retention_bytes (rg_limits r)) (fst p) (snd p))"

definition registry_ok :: "wire \<Rightarrow> registry \<Rightarrow> bool" where
  "registry_ok W r \<longleftrightarrow> streams_ok W r \<and> subscribers_ok W r"

subsection \<open>Mailboxes\<close>

lemma sub_push_ok [wf_intros]: "sub_ok W s \<Longrightarrow> sub_ok W (snd (sub_push W x s))"
  by (auto simp: sub_ok_def sub_push_def Let_def)

lemma sub_next_ok [wf_intros]: "sub_ok W s \<Longrightarrow> sub_ok W (snd (sub_next W s))"
  by (auto simp: sub_ok_def sub_next_def split: list.splits)

lemma sub_cancel_ok [wf_intros]: "sub_ok W s \<Longrightarrow> sub_ok W (sub_cancel s)"
  by (auto simp: sub_ok_def sub_cancel_def)

lemma sub_push_frame [simp]:
  "sub_key (snd (sub_push W x s)) = sub_key s" "sub_limit (snd (sub_push W x s)) = sub_limit s"
  "sub_ids (snd (sub_push W x s)) = sub_ids s" "sub_kinds (snd (sub_push W x s)) = sub_kinds s"
  by (simp_all add: sub_push_def Let_def)

lemma offer_frame [simp]:
  "sub_key (offer W e s) = sub_key s" "sub_limit (offer W e s) = sub_limit s"
  "sub_ids (offer W e s) = sub_ids s" "sub_kinds (offer W e s) = sub_kinds s"
  by (simp_all add: offer_def)

lemma offer_ok [wf_intros]: "sub_ok W s \<Longrightarrow> sub_ok W (offer W e s)"
  by (simp add: offer_def sub_push_ok)

lemma sub_next_frame [simp]:
  "sub_key (snd (sub_next W s)) = sub_key s" "sub_limit (snd (sub_next W s)) = sub_limit s"
  "sub_ids (snd (sub_next W s)) = sub_ids s" "sub_kinds (snd (sub_next W s)) = sub_kinds s"
  "sub_stopped (snd (sub_next W s)) = sub_stopped s"
  by (simp_all add: sub_next_def split: list.splits)

lemma sub_cancel_frame [simp]:
  "sub_key (sub_cancel s) = sub_key s" "sub_limit (sub_cancel s) = sub_limit s" "sub_stopped (sub_cancel s)"
  by (simp_all add: sub_cancel_def)

subsection \<open>History\<close>

lemma evict_drop: "\<exists>n \<le> length h. fst (evict W retention need h b) = drop n h"
proof (induction W retention need h b rule: evict.induct)
  case (2 W retention need e h b)
  show ?case
  proof (cases "need > retention \<or> b > retention - need")
    case True
    with 2 obtain n where "n \<le> length h" "fst (evict W retention need h (b - event_charge W e)) = drop n h"
      by blast
    with True show ?thesis
      by (intro exI [of _ "Suc n"]) simp
  next
    case False
    then show ?thesis
      by (intro exI [of _ 0]) simp
  qed
qed simp

lemma evict_bytes:
  assumes "b = sum_list (map (event_charge W) h)"
  shows "snd (evict W retention need h b) = sum_list (map (event_charge W) (fst (evict W retention need h b)))"
  using assms by (induction W retention need h b rule: evict.induct) auto

lemma evict_fits:
  assumes "b = sum_list (map (event_charge W) h)" "need \<le> retention"
  shows "snd (evict W retention need h b) + need \<le> retention"
  using assms by (induction W retention need h b rule: evict.induct) auto

lemma evict_empty: "need > retention \<Longrightarrow> fst (evict W retention need h b) = []"
  by (induction W retention need h b rule: evict.induct) auto

lemma evict_le: "b \<le> retention \<Longrightarrow> snd (evict W retention need h b) \<le> retention"
  by (induction W retention need h b rule: evict.induct) auto

lemma retain_fields:
  fixes W retention e s
  defines "kept \<equiv> evict W retention (event_charge W e) (st_history s) (st_history_bytes s)"
  shows "st_history (retain W retention e s) = (if event_charge W e \<le> retention then fst kept @ [e] else fst kept)"
    "st_history_bytes (retain W retention e s) =
       (if event_charge W e \<le> retention then snd kept + event_charge W e else snd kept)"
    "ss_first_retained_sequence (st_snapshot (retain W retention e s)) =
       (case st_history (retain W retention e s) of [] \<Rightarrow> Suc (Suc (st_sequence s)) | front # _ \<Rightarrow> sequence_of front)"
  by (simp_all add: retain_def Let_def case_prod_beta kept_def)

lemma retain_frame [simp]:
  "st_sequence (retain W retention e s) = Suc (st_sequence s)"
  "st_incarnation (retain W retention e s) = st_incarnation s"
  "st_closed (retain W retention e s) = st_closed s"
  "ss_through (st_snapshot (retain W retention e s)) = ev_cursor e"
  "ss_closed (st_snapshot (retain W retention e s)) = ss_closed (st_snapshot s)"
  "results_ok (st_snapshot (retain W retention e s)) = results_ok (st_snapshot s)"
  by (simp_all add: retain_def Let_def case_prod_beta results_ok_def)

text \<open>The history after an event: a suffix of what it was, with the event at the end if it fits.\<close>

lemma retain_history:
  obtains n where "n \<le> length (st_history s)"
    "st_history (retain W retention e s) =
      (if event_charge W e \<le> retention then drop n (st_history s) @ [e] else [])"
proof -
  obtain n where n: "n \<le> length (st_history s)"
    "fst (evict W retention (event_charge W e) (st_history s) (st_history_bytes s)) = drop n (st_history s)"
    using evict_drop by blast
  then have "st_history (retain W retention e s) =
      (if event_charge W e \<le> retention then drop n (st_history s) @ [e] else [])"
    using evict_empty [of retention "event_charge W e" W "st_history s" "st_history_bytes s"]
    by (simp add: retain_fields)
  with n(1) show ?thesis
    by (rule that)
qed

lemma stamp_simps [simp]:
  "cu_event_sequence (ev_cursor (stamp now epoch i s e)) = Suc (st_sequence s)"
  "cu_stream_id (ev_cursor (stamp now epoch i s e)) = i"
  "cu_server_epoch (ev_cursor (stamp now epoch i s e)) = epoch"
  "cu_stream_incarnation (ev_cursor (stamp now epoch i s e)) = st_incarnation s"
  "ev_payload (stamp now epoch i s e) = ev_payload e"
  by (simp_all add: stamp_def)

lemma stamp_cursor:
  "ev_cursor (stamp now epoch i s e) = \<lparr>cu_server_epoch = epoch, cu_stream_id = i,
     cu_event_sequence = Suc (st_sequence s), cu_stream_incarnation = st_incarnation s\<rparr>"
  by (simp add: stamp_def)

lemma retain_bytes:
  assumes "history_ok W epoch retention i s"
  shows "st_history_bytes (retain W retention e s) =
      sum_list (map (event_charge W) (st_history (retain W retention e s)))"
    "st_history_bytes (retain W retention e s) \<le> retention"
proof -
  have b: "st_history_bytes s = sum_list (map (event_charge W) (st_history s))" "st_history_bytes s \<le> retention"
    using assms by (simp_all add: history_ok_def)
  show "st_history_bytes (retain W retention e s) =
      sum_list (map (event_charge W) (st_history (retain W retention e s)))"
    using evict_bytes [OF b(1)] by (simp add: retain_fields)
  show "st_history_bytes (retain W retention e s) \<le> retention"
    using evict_fits [OF b(1)] evict_le [OF b(2)] by (simp add: retain_fields)
qed

lemma retain_history_ok:
  assumes ok: "history_ok W epoch retention i s"
  shows "history_ok W epoch retention i (retain W retention (stamp now epoch i s e) s)"
proof -
  let ?e = "stamp now epoch i s e" and ?h = "st_history s" and ?q = "st_sequence s"
  have len: "length ?h \<le> ?q" and seqs: "map sequence_of ?h = [Suc ?q - length ?h..<Suc ?q]"
    and ids: "\<forall>e \<in> set ?h. cu_server_epoch (ev_cursor e) = epoch \<and> cu_stream_id (ev_cursor e) = i \<and>
        cu_stream_incarnation (ev_cursor e) = st_incarnation s"
    using ok by (simp_all add: history_ok_def)
  obtain n where n: "n \<le> length ?h"
    and h: "st_history (retain W retention ?e s) = (if event_charge W ?e \<le> retention then drop n ?h @ [?e] else [])"
    by (rule retain_history)
  have "map sequence_of (drop n ?h) = drop n [Suc ?q - length ?h..<Suc ?q]"
    unfolding seqs [symmetric] by (simp add: drop_map)
  also have "\<dots> = [Suc ?q - length (drop n ?h)..<Suc ?q]"
    using n len by (simp del: upt_Suc)
  finally have "map sequence_of (drop n ?h @ [?e]) = [Suc (Suc ?q) - length (drop n ?h @ [?e])..<Suc (Suc ?q)]"
    using len by (simp add: upt_Suc_append del: upt_Suc)
  moreover have "\<forall>x \<in> set (drop n ?h). x \<in> set ?h"
    using set_drop_subset by fast
  ultimately show ?thesis
    using ids len n h retain_bytes [OF ok, of ?e] by (auto simp: history_ok_def)
qed

lemma retain_snapshot_ok:
  assumes ok: "history_ok W epoch retention i s" and closed: "st_closed s \<longleftrightarrow> ss_closed (st_snapshot s) \<noteq> None"
  shows "snapshot_ok epoch i (retain W retention (stamp now epoch i s e) s)"
proof -
  let ?s = "retain W retention (stamp now epoch i s e) s"
  have h: "map sequence_of (st_history ?s) = [Suc (st_sequence ?s) - length (st_history ?s)..<Suc (st_sequence ?s)]"
    using retain_history_ok [OF ok] by (simp add: history_ok_def del: upt_Suc)
  have "ss_first_retained_sequence (st_snapshot ?s) = Suc (st_sequence ?s) - length (st_history ?s)"
  proof (cases "st_history ?s")
    case Nil
    then show ?thesis
      by (simp add: retain_fields(3))
  next
    case (Cons x xs)
    then have "sequence_of x = hd [Suc (st_sequence ?s) - length (st_history ?s)..<Suc (st_sequence ?s)]"
      using h by (metis list.sel(1) list.simps(9))
    with Cons show ?thesis
      by (simp add: retain_fields(3) del: upt_Suc)
  qed
  then show ?thesis
    using closed by (simp add: snapshot_ok_def stamp_cursor)
qed

subsection \<open>Publication\<close>

text \<open>What a stream has to satisfy when an event is published on it.\<close>

definition publishable :: "wire \<Rightarrow> registry \<Rightarrow> string \<Rightarrow> stream \<Rightarrow> bool" where
  "publishable W r i s \<longleftrightarrow> history_ok W (rg_epoch r) (retention_bytes (rg_limits r)) i s \<and>
     results_ok (st_snapshot s) \<and> (st_closed s \<longleftrightarrow> ss_closed (st_snapshot s) \<noteq> None)"

lemma publish_frame [simp]:
  "rg_limits (snd (publish W now i s e r)) = rg_limits r"
  "rg_epoch (snd (publish W now i s e r)) = rg_epoch r"
  "rg_producer (snd (publish W now i s e r)) = rg_producer r"
  "rg_next_key (snd (publish W now i s e r)) = rg_next_key r"
  by (simp_all add: publish_def Let_def)

lemma publish_streams:
  "rg_streams (snd (publish W now i s e r)) =
     map_insert i (retain W (retention_bytes (rg_limits r)) (stamp now (rg_epoch r) i s e) s) (rg_streams r)"
  by (simp add: publish_def Let_def)

lemma publish_subscribers:
  "rg_subscribers (snd (publish W now i s e r)) =
     map (offer W (stamp now (rg_epoch r) i s e)) (alive (rg_subscribers r))"
  by (simp add: publish_def Let_def)

lemma distinct_keys_alive:
  "distinct (map sub_key subs) \<Longrightarrow> distinct (map sub_key (alive subs))"
  unfolding alive_def by (rule distinct_map_filter)

lemma publish_subscribers_ok:
  assumes "subscribers_ok W r"
  shows "subscribers_ok W (snd (publish W now i s e r))"
proof -
  have "map sub_key (map (offer W x) subs) = map sub_key subs" for x subs
    by simp
  then show ?thesis
    using assms distinct_keys_alive [of "rg_subscribers r"]
    by (auto simp: subscribers_ok_def publish_subscribers offer_ok alive_def comp_def
        intro: le_trans [OF length_filter_le])
qed

lemma publish_streams_ok:
  assumes "streams_ok W r" "publishable W r i s"
    "i \<in> fst ` set (rg_streams r) \<or> length (rg_streams r) < max_streams (rg_limits r)"
  shows "streams_ok W (snd (publish W now i s e r))"
proof -
  let ?s = "retain W (retention_bytes (rg_limits r)) (stamp now (rg_epoch r) i s e) s"
  have "stream_ok W (rg_epoch r) (retention_bytes (rg_limits r)) i ?s"
    using assms(2) by (simp add: publishable_def stream_ok_def retain_history_ok retain_snapshot_ok)
  moreover have "length (map_insert i ?s (rg_streams r)) \<le> max_streams (rg_limits r)"
    using assms(1,3) by (auto simp: streams_ok_def length_map_insert)
  ultimately show ?thesis
    using assms(1) by (auto simp: streams_ok_def publish_streams keys_sorted_insert dest!: set_map_insert_cases)
qed

lemma publish_ok [wf_intros]:
  assumes "registry_ok W r" "publishable W r i s"
    "i \<in> fst ` set (rg_streams r) \<or> length (rg_streams r) < max_streams (rg_limits r)"
  shows "registry_ok W (snd (publish W now i s e r))"
  using assms by (simp add: registry_ok_def publish_subscribers_ok publish_streams_ok)

subsection \<open>The operations keep the invariant\<close>

lemma find_open_Inr:
  assumes "find_open m i r = Inr s"
  shows "map_of (rg_streams r) i = Some s" "\<not> st_closed s"
  using assms by (simp_all add: find_open_def split: option.splits if_splits)

lemma registered_stream_ok:
  assumes "registry_ok W r" "map_of (rg_streams r) i = Some s"
  shows "stream_ok W (rg_epoch r) (retention_bytes (rg_limits r)) i s" "i \<in> fst ` set (rg_streams r)"
proof -
  have "(i, s) \<in> set (rg_streams r)"
    using assms(2) by (rule map_of_SomeD)
  with assms(1) show "stream_ok W (rg_epoch r) (retention_bytes (rg_limits r)) i s" "i \<in> fst ` set (rg_streams r)"
    by (force simp: registry_ok_def streams_ok_def)+
qed

lemma registered_publishable:
  assumes "registry_ok W r" "map_of (rg_streams r) i = Some s"
  shows "publishable W r i s"
  using registered_stream_ok [OF assms] by (simp add: publishable_def stream_ok_def snapshot_ok_def)

lemma source_op_ok [wf_intros]: "registry_ok W r \<Longrightarrow> registry_ok W (snd (source_op W now i chunk r))"
  by (auto simp: source_op_def answer_def split: sum.splits
      intro!: publish_ok registered_publishable dest!: find_open_Inr(1) dest: registered_stream_ok(2))

lemma close_op_ok [wf_intros]:
  assumes "registry_ok W r"
  shows "registry_ok W (snd (close_op W now steady i closed r))"
proof (cases "find_open ''stream is already closed'' i r")
  case (Inr s)
  note s = find_open_Inr(1) [OF Inr]
  have "publishable W r i (s\<lparr>st_closed := True, st_closed_at := steady,
      st_snapshot := (st_snapshot s)\<lparr>ss_closed := Some closed\<rparr>\<rparr>)"
    using registered_publishable [OF assms s] by (simp add: publishable_def history_ok_def results_ok_def)
  with Inr show ?thesis
    using publish_ok [OF assms] registered_stream_ok(2) [OF assms s] by (simp add: close_op_def answer_def)
qed (simp add: close_op_def assms)

lemma make_room_frame [simp]:
  "rg_limits (make_room r) = rg_limits r" "rg_epoch (make_room r) = rg_epoch r"
  "rg_subscribers (make_room r) = rg_subscribers r" "rg_next_key (make_room r) = rg_next_key r"
  "rg_producer (make_room r) = rg_producer r"
  by (simp_all add: make_room_def split: option.splits)

lemma make_room_ok [wf_intros]: "registry_ok W r \<Longrightarrow> registry_ok W (make_room r)"
proof -
  assume ok: "registry_ok W r"
  have "streams_ok W (r\<lparr>rg_streams := map_erase k (rg_streams r)\<rparr>)" for k
    using ok by (auto simp: registry_ok_def streams_ok_def map_erase_def keys_sorted_filter
        intro: le_trans [OF length_filter_le])
  then show ?thesis
    using ok by (auto simp: make_room_def registry_ok_def subscribers_ok_def split: option.splits)
qed

lemma stream_new_publishable: "publishable W r i (stream_new W r' incarnation q)"
  by (simp add: publishable_def stream_new_def Let_def history_ok_def results_ok_def)

lemma open_op_ok [wf_intros]:
  "registry_ok W r \<Longrightarrow> registry_ok W (snd (open_op W now fresh incarnation q sp ht r))"
  by (auto simp: open_op_def answer_def Let_def make_room_ok stream_new_publishable split: option.splits
      intro!: publish_ok)

lemma cap_bytes_fields:
  "\<exists>a b. ss_hypotheses (cap_bytes W m n) = drop a (ss_hypotheses n) \<and>
     ss_transcripts (cap_bytes W m n) = drop b (ss_transcripts n) \<and>
     ss_producers (cap_bytes W m n) = ss_producers n \<and> ss_closed (cap_bytes W m n) = ss_closed n"
proof (induction W m n rule: cap_bytes.induct)
  case (1 W m n)
  show ?case
  proof (cases "snapshot_size W n > m \<and> (ss_hypotheses n \<noteq> [] \<or> ss_transcripts n \<noteq> [])")
    case True
    let ?n = "if ss_hypotheses n \<noteq> [] then n\<lparr>ss_hypotheses := tl (ss_hypotheses n), ss_result_state_truncated := True\<rparr>
      else n\<lparr>ss_transcripts := tl (ss_transcripts n), ss_result_state_truncated := True\<rparr>"
    have step: "cap_bytes W m n = cap_bytes W m ?n"
      using True by (simp add: cap_bytes.simps [of W m n])
    obtain a b where ab: "ss_hypotheses (cap_bytes W m ?n) = drop a (ss_hypotheses ?n)"
      "ss_transcripts (cap_bytes W m ?n) = drop b (ss_transcripts ?n)"
      "ss_producers (cap_bytes W m ?n) = ss_producers ?n" "ss_closed (cap_bytes W m ?n) = ss_closed ?n"
      using 1 True by blast
    show ?thesis
    proof (cases "ss_hypotheses n = []")
      case True
      then show ?thesis
        unfolding step using ab by (intro exI [of _ a] exI [of _ "Suc b"]) (simp add: drop_Suc)
    next
      case False
      then show ?thesis
        unfolding step using ab by (intro exI [of _ "Suc a"] exI [of _ b]) (simp add: drop_Suc)
    qed
  next
    case False
    then have "cap_bytes W m n = n"
      by (subst cap_bytes.simps) (rule if_not_P)
    then show ?thesis
      by (intro exI [of _ 0]) simp
  qed
qed

lemma remove_segment_ids:
  "distinct (map ts_segment_id ts) \<Longrightarrow>
   map ts_segment_id (remove_segment i ts) = filter (\<lambda>j. j \<noteq> i) (map ts_segment_id ts)"
proof (induction ts)
  case (Cons t ts)
  then have "ts_segment_id t \<notin> set (map ts_segment_id ts)"
    by simp
  then have "filter (\<lambda>j. j \<noteq> ts_segment_id t) (map ts_segment_id ts) = map ts_segment_id ts"
    by (intro filter_True) blast
  with Cons show ?case
    by auto
qed simp

text \<open>Whatever result an event carries, the snapshot stays within its caps.\<close>

lemma record_result_ok:
  assumes "results_ok n"
  shows "results_ok (cap_bytes W m (cap_counts (record_result p n)))"
    "ss_closed (cap_bytes W m (cap_counts (record_result p n))) = ss_closed n"
proof -
  let ?n = "cap_counts (record_result p n)"
  have "distinct (map ts_segment_id (ss_transcripts (record_result p n)))"
    using assms by (auto simp: record_result_def results_ok_def remove_segment_ids split: payload.splits)
  then have n: "distinct (map ts_segment_id (ss_transcripts ?n))" "length (ss_hypotheses ?n) \<le> 16"
    "length (ss_transcripts ?n) \<le> 64"
    by (simp_all add: cap_counts_def drop_front_def drop_map [symmetric] distinct_drop)
  have same: "ss_producers ?n = ss_producers n" "ss_closed ?n = ss_closed n"
    by (simp_all add: cap_counts_def record_result_def split: payload.splits)
  obtain a b where ab: "ss_hypotheses (cap_bytes W m ?n) = drop a (ss_hypotheses ?n)"
    "ss_transcripts (cap_bytes W m ?n) = drop b (ss_transcripts ?n)"
    "ss_producers (cap_bytes W m ?n) = ss_producers ?n" "ss_closed (cap_bytes W m ?n) = ss_closed ?n"
    using cap_bytes_fields by blast
  show "results_ok (cap_bytes W m ?n)"
    using assms n by (auto simp: results_ok_def ab same drop_map [symmetric] distinct_drop)
  show "ss_closed (cap_bytes W m ?n) = ss_closed n"
    by (simp add: ab same)
qed

text \<open>A derived event that is accepted is published on its stream with the new snapshot.\<close>

lemma derived_op_cases:
  obtains (refused) x where "derived_op W now i event library r = (Inl x, r)"
  | (accepted) s e n where "map_of (rg_streams r) i = Some s" "\<not> st_closed s"
      "with_provenance s library event = Inr e" "transcript_refusal s e = None"
      "n = (if event_producer e \<in> set (ss_producers (st_snapshot s)) then st_snapshot s
            else (st_snapshot s)\<lparr>ss_producers := ss_producers (st_snapshot s) @ [event_producer e]\<rparr>)"
      "event_producer e \<in> set (ss_producers (st_snapshot s)) \<or> length (ss_producers (st_snapshot s)) < 16"
      "derived_op W now i event library r = answer (publish W now i
         (s\<lparr>st_snapshot := cap_bytes W (retention_bytes (rg_limits r)) (cap_counts (record_result (ev_payload e) n))\<rparr>) e r)"
proof -
  show ?thesis
  proof (cases "derived_payload (ev_payload event) \<and> event_size W event \<le> 512 * 1024")
    case False
    then show ?thesis
      by (cases "derived_payload (ev_payload event)")
        (auto simp: derived_op_def intro: refused)
  next
    case fine: True
    show ?thesis
    proof (cases "find_open ''stream is closed'' i r")
      case (Inl x)
      with fine show ?thesis
        by (intro refused [of x]) (simp add: derived_op_def)
    next
      case s: (Inr s)
      show ?thesis
      proof (cases "with_provenance s library event")
        case (Inl x)
        with fine s show ?thesis
          by (intro refused [of x]) (simp add: derived_op_def)
      next
        case e: (Inr e)
        let ?known = "event_producer e \<in> set (ss_producers (st_snapshot s))"
        show ?thesis
        proof (cases "transcript_refusal s e = None \<and> (?known \<or> length (ss_producers (st_snapshot s)) < 16)")
          case True
          with fine s e show ?thesis
            by (intro accepted [OF find_open_Inr [OF s] e _ refl]) (auto simp: derived_op_def Let_def)
        next
          case False
          with fine s e have "\<exists>x. derived_op W now i event library r = (Inl x, r)"
            by (cases "transcript_refusal s e") (auto simp: derived_op_def Let_def)
          then show ?thesis
            using refused by blast
        qed
      qed
    qed
  qed
qed

lemma derived_publishable:
  assumes "registry_ok W r" "map_of (rg_streams r) i = Some s"
    "n = (if p \<in> set (ss_producers (st_snapshot s)) then st_snapshot s
          else (st_snapshot s)\<lparr>ss_producers := ss_producers (st_snapshot s) @ [p]\<rparr>)"
    "p \<in> set (ss_producers (st_snapshot s)) \<or> length (ss_producers (st_snapshot s)) < 16"
  shows "publishable W r i (s\<lparr>st_snapshot := cap_bytes W (retention_bytes (rg_limits r)) (cap_counts (record_result pl n))\<rparr>)"
proof -
  have "results_ok n"
    using registered_stream_ok(1) [OF assms(1,2)] assms(4) by (auto simp: assms(3) stream_ok_def results_ok_def)
  moreover have "ss_closed n = ss_closed (st_snapshot s)"
    by (simp add: assms(3))
  ultimately show ?thesis
    using registered_publishable [OF assms(1,2)] record_result_ok [of n] by (simp add: publishable_def history_ok_def)
qed

lemma derived_op_ok [wf_intros]:
  assumes "registry_ok W r"
  shows "registry_ok W (snd (derived_op W now i event library r))"
proof (cases rule: derived_op_cases [of W now i event library r])
  case (accepted s e n)
  from derived_publishable [OF assms accepted(1,5,6)] show ?thesis
    using registered_stream_ok(2) [OF assms accepted(1)] publish_ok [OF assms]
    by (simp add: accepted(7) answer_def)
qed (use assms in simp)

lemma enqueue_all_ok:
  "enqueue_all W xs s = Some s' \<Longrightarrow> sub_ok W s \<Longrightarrow>
   sub_ok W s' \<and> sub_key s' = sub_key s \<and> sub_limit s' = sub_limit s \<and> sub_ids s' = sub_ids s \<and>
   sub_kinds s' = sub_kinds s \<and> (\<not> sub_stopped s \<longrightarrow> \<not> sub_stopped s')"
proof (induction xs arbitrary: s)
  case (Cons x xs)
  obtain s1 where push: "sub_push W x s = (True, s1)" and rest: "enqueue_all W xs s1 = Some s'"
    using Cons.prems(1) by (auto split: prod.splits bool.splits)
  have "\<not> sub_stopped s1"
    using push by (auto simp: sub_push_def Let_def split: if_splits)
  with Cons.IH [OF rest] sub_push_ok [OF Cons.prems(2), of x] sub_push_frame [of W x s] show ?case
    by (simp add: push)
qed simp

lemma subscribe_cases:
  obtains (refused) x where "fst (subscribe W sid q r) = Inl x"
      "snd (subscribe W sid q r) = r \<or> snd (subscribe W sid q r) = r\<lparr>rg_subscribers := alive (rg_subscribers r)\<rparr>"
  | (accepted) sub after sub' r1 where
      "sub = subscription_new (rg_next_key r) q (subscriber_bytes (rg_limits r))"
      "r1 = r\<lparr>rg_subscribers := alive (rg_subscribers r)\<rparr>"
      "length (rg_subscribers r1) < max_subscribers (rg_limits r)"
      "read_cursors r1 sub [] (hy_after (sr_hydration q)) = Inr after"
      "enqueue_all W (hydration_responses sid (sr_hydration q) sub after r1) sub = Some sub'"
      "subscribe_refusal (rg_limits r) q = None"
      "subscribe W sid q r =
         (Inr sub', r1\<lparr>rg_subscribers := rg_subscribers r1 @ [sub'], rg_next_key := Suc (rg_next_key r)\<rparr>)"
proof -
  let ?sub = "subscription_new (rg_next_key r) q (subscriber_bytes (rg_limits r))"
  let ?r = "r\<lparr>rg_subscribers := alive (rg_subscribers r)\<rparr>"
  show ?thesis
  proof (cases "subscribe_refusal (rg_limits r) q = None \<and> length (rg_subscribers ?r) < max_subscribers (rg_limits r)")
    case False
    then have "\<exists>x. fst (subscribe W sid q r) = Inl x"
      "snd (subscribe W sid q r) = r \<or> snd (subscribe W sid q r) = ?r"
      by (auto simp: subscribe_def Let_def split: option.splits)
    then show ?thesis
      using refused by blast
  next
    case True
    show ?thesis
    proof (cases "read_cursors ?r ?sub [] (hy_after (sr_hydration q))")
      case (Inl e)
      with True show ?thesis
        by (intro refused [of e]) (simp_all add: subscribe_def Let_def)
    next
      case (Inr after)
      show ?thesis
      proof (cases "enqueue_all W (hydration_responses sid (sr_hydration q) ?sub after ?r) ?sub")
        case None
        with True Inr show ?thesis
          by (intro refused) (simp_all add: subscribe_def Let_def)
      next
        case (Some sub')
        with True Inr show ?thesis
          by (intro accepted [OF refl refl _ Inr Some]) (simp_all add: subscribe_def Let_def)
      qed
    qed
  qed
qed

lemma subscription_new_ok [simp]: "sub_ok W (subscription_new k q m)"
  by (simp add: sub_ok_def subscription_new_def)

lemma alive_ok: "registry_ok W r \<Longrightarrow> registry_ok W (r\<lparr>rg_subscribers := alive (rg_subscribers r)\<rparr>)"
  using distinct_keys_alive [of "rg_subscribers r"]
  by (auto simp: registry_ok_def streams_ok_def subscribers_ok_def alive_def intro: le_trans [OF length_filter_le])

lemma subscribe_ok [wf_intros]:
  assumes "registry_ok W r"
  shows "registry_ok W (snd (subscribe W sid q r))"
proof (cases rule: subscribe_cases [of W sid q r])
  case refused
  with assms alive_ok [OF assms] show ?thesis
    by metis
next
  case (accepted sub after sub' r1)
  have "sub_ok W sub'" "sub_key sub' = rg_next_key r" "sub_limit sub' = subscriber_bytes (rg_limits r)"
    using enqueue_all_ok [OF accepted(5)] by (simp_all add: accepted(1) subscription_new_def sub_ok_def)
  moreover have "registry_ok W r1" "rg_next_key r1 = rg_next_key r" "rg_limits r1 = rg_limits r"
    using alive_ok [OF assms] by (simp_all add: accepted(2))
  ultimately show ?thesis
    using accepted(3) unfolding accepted(7)
    by (fastforce simp: registry_ok_def streams_ok_def subscribers_ok_def less_Suc_eq)
qed

lemma on_sub_ok:
  assumes "registry_ok W r" "\<And>s. sub_ok W s \<Longrightarrow> sub_ok W (f s)"
    "\<And>s. sub_key (f s) = sub_key s" "\<And>s. sub_limit (f s) = sub_limit s"
  shows "registry_ok W (on_sub k f r)"
proof -
  have "sub_key \<circ> (\<lambda>s. if sub_key s = k then f s else s) = sub_key"
    by (auto simp: fun_eq_iff assms(3))
  then show ?thesis
    using assms by (auto simp: registry_ok_def streams_ok_def subscribers_ok_def on_sub_def)
qed

interpretation registry_calls: invariant_machine "registry_step W" "registry_ok W" for W
proof
  fix r :: registry and c :: registry_call
  assume ok: "registry_ok W r"
  then show "registry_ok W (registry_step W c r)"
    by (cases c) (auto intro!: wf_intros on_sub_ok simp: sub_ok_def)
qed

lemma registry_new_ok: "registry_new W epoch fresh app build grpc l machine = Inr r \<Longrightarrow> registry_ok W r"
  by (auto simp: registry_new_def registry_ok_def streams_ok_def subscribers_ok_def split: if_splits)

text \<open>C13: bounded state. From construction on, whatever calls arrive in whatever order: the
  streams and listeners stay within their limits, each history holds exactly the latest events
  without a gap and within the retention budget, each snapshot names the stream's latest event
  and the first one retained and caps its results, and each mailbox accounts for every byte it
  holds and stays within its budget.\<close>

theorem registry_bounded:
  assumes "registry_new W epoch fresh app build grpc l machine = Inr r"
  shows "registry_ok W (fold (registry_step W) calls r)"
proof -
  have "registry_ok W r"
    using assms by (rule registry_new_ok)
  then show ?thesis
    by (rule registry_calls.fold_inv)
qed

section \<open>A small registry\<close>

definition demo_wire :: wire where
  "demo_wire = \<lparr>event_size = \<lambda>_. 0, response_size = \<lambda>_. 0, snapshot_size = \<lambda>_. 0, sha256 = \<lambda>_. [],
     serialize_processing = \<lambda>_ _. []\<rparr>"

definition demo_limits :: limits where
  "demo_limits = \<lparr>max_chunk_bytes = 1, retention_bytes = 1024, subscriber_bytes = 4096, max_streams = 1, max_subscribers = 1\<rparr>"

definition demo_id :: string where
  "demo_id = ''00000000-0000-4000-8000-000000000001''"

definition demo_open :: open_stream where
  "demo_open = \<lparr>os_stream_id = demo_id, os_source = Direct_source ''a'' ''b'', os_speech = [], os_decode = None\<rparr>"

definition demo_registry :: registry where
  "demo_registry = \<lparr>rg_limits = demo_limits, rg_epoch = ''e'', rg_producer = producer_default,
     rg_streams = [], rg_subscribers = [], rg_next_key = 0\<rparr>"

lemma demo_id_valid: "valid_uuid demo_id"
  by code_simp

lemma demo_registry_ok: "registry_ok demo_wire demo_registry"
  by (simp add: registry_ok_def streams_ok_def subscribers_ok_def demo_registry_def)

theorem registry_bounded_witness:
  "\<exists>r. registry_new demo_wire ''e'' ''f'' [] [] [] demo_limits [] = Inr r \<and>
     registry_ok demo_wire (fold (registry_step demo_wire) [Call_open (0, 0) [] ''i'' demo_open False False] r)"
proof -
  obtain r where r: "registry_new demo_wire ''e'' ''f'' [] [] [] demo_limits [] = Inr r"
    by (simp add: registry_new_def valid_limits_def demo_limits_def)
  then show ?thesis
    using registry_bounded [OF r] by blast
qed

end
