(* ===== verification/Registry_Delivery.thy ===== *)
theory Registry_Delivery
  imports Registry
begin

text \<open>
  What a listener of the registry receives: the events of a stream from its replay position on,
  in order and without a gap, across the switch from hydration to live delivery; and that no
  listener can affect what a producer publishes.
\<close>

section \<open>Replay and live delivery have no gap\<close>

text \<open>The events of one opening of a stream among what a listener has been sent.\<close>

fun stream_events :: "string \<Rightarrow> string \<Rightarrow> subscribe_response list \<Rightarrow> nat list" where
  "stream_events i incarnation [] = []"
| "stream_events i incarnation (Event e # xs) =
     (if cu_stream_id (ev_cursor e) = i \<and> cu_stream_incarnation (ev_cursor e) = incarnation
      then sequence_of e # stream_events i incarnation xs else stream_events i incarnation xs)"
| "stream_events i incarnation (x # xs) = stream_events i incarnation xs"

lemma stream_events_append [simp]:
  "stream_events i c (xs @ ys) = stream_events i c xs @ stream_events i c ys"
  by (induction i c xs rule: stream_events.induct) auto

text \<open>What a call hands to the RPC of the listener with key \<open>k\<close>, and a whole run of calls.\<close>

definition handed :: "wire \<Rightarrow> nat \<Rightarrow> registry_call \<Rightarrow> registry \<Rightarrow> subscribe_response list" where
  "handed W k c r = (case c of Call_next k' \<Rightarrow>
       (if k' = k then (case find (\<lambda>s. sub_key s = k) (rg_subscribers r) of None \<Rightarrow> []
          | Some s \<Rightarrow> (case fst (sub_next W s) of None \<Rightarrow> [] | Some x \<Rightarrow> [x])) else [])
     | _ \<Rightarrow> [])"

fun registry_run :: "wire \<Rightarrow> nat \<Rightarrow> registry_call list \<Rightarrow> registry \<Rightarrow> subscribe_response list \<times> registry" where
  "registry_run W k [] r = ([], r)"
| "registry_run W k (c # cs) r =
     (let (xs, r') = registry_run W k cs (registry_step W c r) in (handed W k c r @ xs, r'))"

text \<open>Does the call open a stream under this incarnation? The server draws a random one each time.\<close>

definition opens_as :: "string \<Rightarrow> registry_call \<Rightarrow> bool" where
  "opens_as incarnation c = (case c of Call_open _ _ c' _ _ _ \<Rightarrow> c' = incarnation | _ \<Rightarrow> False)"

text \<open>
  The listener \<open>k\<close> has been handed \<open>D\<close>: with what waits in its mailbox these are the events
  \<open>a ..< b\<close> of the stream, and \<open>b\<close> is where the stream stands.
\<close>

definition follows :: "string \<Rightarrow> string \<Rightarrow> nat \<Rightarrow> nat \<Rightarrow> nat \<Rightarrow> subscribe_response list \<Rightarrow> registry \<Rightarrow> bool" where
  "follows i incarnation k a b D r \<longleftrightarrow> a \<le> b \<and> k < rg_next_key r \<and>
     (\<forall>s. map_of (rg_streams r) i = Some s \<and> st_incarnation s = incarnation \<longrightarrow> b = Suc (st_sequence s)) \<and>
     (\<forall>sub \<in> set (rg_subscribers r). sub_key sub = k \<longrightarrow> \<not> sub_stopped sub \<longrightarrow>
        sub_kinds sub = [] \<and> accepts_id sub i \<and> stream_events i incarnation (D @ sub_pending sub) = [a..<b])"

lemma followsD:
  assumes "follows i c k a b D r"
  shows "a \<le> b" "k < rg_next_key r"
    "\<And>s. map_of (rg_streams r) i = Some s \<Longrightarrow> st_incarnation s = c \<Longrightarrow> b = Suc (st_sequence s)"
    "\<And>sub. sub \<in> set (rg_subscribers r) \<Longrightarrow> sub_key sub = k \<Longrightarrow> \<not> sub_stopped sub \<Longrightarrow>
       sub_kinds sub = [] \<and> accepts_id sub i \<and> stream_events i c (D @ sub_pending sub) = [a..<b]"
  using assms unfolding follows_def by blast+

lemma offer_cases:
  assumes "\<not> sub_stopped (offer W e s)"
  shows "\<not> sub_stopped s"
    "sub_pending (offer W e s) = sub_pending s @ (if accepts_event s e then [Event e] else [])"
  using assms by (auto simp: offer_def sub_push_def Let_def split: if_splits)

lemma publish_follows_other:
  assumes f: "follows i c k a b D r" and sorted: "keys_sorted (rg_streams r)"
    and other: "j \<noteq> i \<or> st_incarnation s \<noteq> c"
  shows "follows i c k a b D (snd (publish W now j s e r))"
proof -
  have "stream_events i c [Event (stamp now (rg_epoch r) j s e)] = []"
    using other by auto
  moreover have "b = Suc (st_sequence t)"
    if "map_of (rg_streams (snd (publish W now j s e r))) i = Some t" "st_incarnation t = c" for t
    using that other followsD(3) [OF f] sorted by (auto simp: publish_streams split: if_splits)
  moreover have "sub_kinds u = [] \<and> accepts_id u i \<and> stream_events i c (D @ sub_pending u) = [a..<b]"
    if u: "u \<in> set (rg_subscribers (snd (publish W now j s e r)))" "sub_key u = k" "\<not> sub_stopped u" for u
  proof -
    obtain v where v: "v \<in> set (rg_subscribers r)" "u = offer W (stamp now (rg_epoch r) j s e) v"
      using u(1) by (auto simp: publish_subscribers alive_def)
    note cases = offer_cases [OF u(3) [unfolded v(2)]]
    show ?thesis
      using followsD(4) [OF f v(1)] u(2) cases calculation(1) by (simp add: v(2) accepts_id_def)
  qed
  ultimately show ?thesis
    using followsD(1,2) [OF f] by (auto simp: follows_def)
qed

lemma publish_follows_same:
  assumes f: "follows i c k a (Suc (st_sequence s)) D r" and sorted: "keys_sorted (rg_streams r)"
    and inc: "st_incarnation s = c"
  shows "follows i c k a (Suc (Suc (st_sequence s))) D (snd (publish W now i s e r))"
proof -
  have "sub_kinds u = [] \<and> accepts_id u i \<and>
      stream_events i c (D @ sub_pending u) = [a..<Suc (Suc (st_sequence s))]"
    if u: "u \<in> set (rg_subscribers (snd (publish W now i s e r)))" "sub_key u = k" "\<not> sub_stopped u" for u
  proof -
    obtain v where v: "v \<in> set (rg_subscribers r)" "u = offer W (stamp now (rg_epoch r) i s e) v"
      using u(1) by (auto simp: publish_subscribers alive_def)
    note cases = offer_cases [OF u(3) [unfolded v(2)]]
    have v': "sub_kinds v = []" "accepts_id v i" "stream_events i c (D @ sub_pending v) = [a..<Suc (st_sequence s)]"
      using followsD(4) [OF f v(1)] u(2) cases(1) by (simp_all add: v(2))
    then have "accepts_event v (stamp now (rg_epoch r) i s e)"
      by (simp add: accepts_event_def)
    then show ?thesis
      using v' cases(2) followsD(1) [OF f] by (simp add: v(2) inc accepts_id_def)
  qed
  moreover have "st_sequence t = Suc (st_sequence s)"
    if "map_of (rg_streams (snd (publish W now i s e r))) i = Some t" for t
    using that sorted by (auto simp: publish_streams)
  ultimately show ?thesis
    using followsD(1,2) [OF f] by (auto simp: follows_def)
qed

text \<open>Publishing on a registered stream, whichever it is, moves the end of the interval at most.\<close>

lemma publish_follows:
  assumes f: "follows i c k a b D r" and sorted: "keys_sorted (rg_streams r)"
    and s: "map_of (rg_streams r) j = Some s" and s': "st_incarnation s' = st_incarnation s" "st_sequence s' = st_sequence s"
  shows "\<exists>b'. follows i c k a b' D (snd (publish W now j s' e r))"
proof (cases "j = i \<and> st_incarnation s = c")
  case True
  then have "b = Suc (st_sequence s')"
    using followsD(3) [OF f] s s' by simp
  then show ?thesis
    using True publish_follows_same [OF _ sorted, of i c k a s'] f s'(1) by blast
next
  case False
  then have "j \<noteq> i \<or> st_incarnation s' \<noteq> c"
    by (simp add: s'(1))
  then show ?thesis
    using publish_follows_other [OF f sorted] by blast
qed

lemma follows_streams_subset:
  assumes "follows i c k a b D r" "\<And>s. map_of ss i = Some s \<Longrightarrow> map_of (rg_streams r) i = Some s"
  shows "follows i c k a b D (r\<lparr>rg_streams := ss\<rparr>)"
  using assms(2) followsD [OF assms(1)] by (auto simp: follows_def)

lemma make_room_follows: "follows i c k a b D r \<Longrightarrow> follows i c k a b D (make_room r)"
  unfolding make_room_def
  by (auto split: option.splits if_splits intro!: follows_streams_subset)

lemma follows_subscribers_subset:
  assumes "follows i c k a b D r" "\<And>u. u \<in> set us \<Longrightarrow> sub_key u = k \<Longrightarrow> u \<in> set (rg_subscribers r)"
    "rg_next_key r \<le> n"
  shows "follows i c k a b D (r\<lparr>rg_subscribers := us, rg_next_key := n\<rparr>)"
  using assms(2,3) followsD [OF assms(1)] by (auto simp: follows_def)

lemma registry_ok_keys: "registry_ok W r \<Longrightarrow> keys_sorted (rg_streams r)"
  by (simp add: registry_ok_def streams_ok_def)

lemma open_follows:
  assumes f: "follows i c k a b D r" and ok: "registry_ok W r" and new: "incarnation \<noteq> c"
  shows "follows i c k a b D (snd (open_op W now fresh incarnation q sp ht r))"
proof -
  have room: "follows i c k a b D (make_room r)"
    by (rule make_room_follows [OF f])
  have sorted: "keys_sorted (rg_streams (make_room r))"
    by (rule registry_ok_keys [OF make_room_ok [OF ok]])
  have "st_incarnation (stream_new W (make_room r) incarnation q) \<noteq> c"
    by (simp add: stream_new_def Let_def new)
  then have "follows i c k a b D (snd (publish W now j (stream_new W (make_room r) incarnation q) e (make_room r)))" for j e
    by (intro publish_follows_other [OF room sorted]) simp
  then show ?thesis
    using f room by (simp add: open_op_def answer_def Let_def split: option.splits if_splits)
qed

lemma subscribe_follows:
  assumes f: "follows i c k a b D r"
  shows "follows i c k a b D (snd (subscribe W sid q r))"
proof -
  have alive: "follows i c k a b D (r\<lparr>rg_subscribers := alive (rg_subscribers r)\<rparr>)"
    using follows_subscribers_subset [OF f, of "alive (rg_subscribers r)" "rg_next_key r"] by (simp add: alive_def)
  show ?thesis
  proof (cases rule: subscribe_cases [of W sid q r])
    case refused
    with f alive show ?thesis
      by metis
  next
    case (accepted sub after sub' r1)
    have "sub_key sub' = rg_next_key r"
      using enqueue_all_ok [OF accepted(5)] by (simp add: accepted(1) subscription_new_def sub_ok_def)
    moreover have "k < rg_next_key r"
      by (rule followsD(2) [OF f])
    ultimately have "follows i c k a b D
        (r1\<lparr>rg_subscribers := rg_subscribers r1 @ [sub'], rg_next_key := Suc (rg_next_key r)\<rparr>)"
      unfolding accepted(2) by (intro follows_subscribers_subset [OF alive]) auto
    then show ?thesis
      by (simp add: accepted(7))
  qed
qed

lemma find_key:
  "distinct (map sub_key us) \<Longrightarrow> v \<in> set us \<Longrightarrow> sub_key v = k \<Longrightarrow> find (\<lambda>s. sub_key s = k) us = Some v"
  by (induction us) (auto simp: rev_image_eqI)

lemma next_follows:
  assumes f: "follows i c k a b D r" and ok: "registry_ok W r"
  shows "follows i c k a b (D @ handed W k (Call_next k') r) (registry_step W (Call_next k') r)"
proof -
  have "stream_events i c ((D @ handed W k (Call_next k') r) @ sub_pending u) = [a..<b] \<and> sub_kinds u = [] \<and> accepts_id u i"
    if u: "u \<in> set (rg_subscribers (registry_step W (Call_next k') r))" "sub_key u = k" "\<not> sub_stopped u" for u
  proof -
    obtain v where v: "v \<in> set (rg_subscribers r)" "u = (if sub_key v = k' then snd (sub_next W v) else v)"
      using u(1) by (auto simp: on_sub_def)
    have key: "sub_key v = k" "\<not> sub_stopped v"
      using v(2) u(2,3) by (auto split: if_splits)
    have "find (\<lambda>s. sub_key s = k) (rg_subscribers r) = Some v"
      using ok by (intro find_key [OF _ v(1) key(1)]) (simp add: registry_ok_def subscribers_ok_def)
    then have "handed W k (Call_next k') r @ sub_pending u = sub_pending v"
      using v(2) key(1) by (auto simp: handed_def sub_next_def split: list.splits)
    then show ?thesis
      using followsD(4) [OF f v(1) key] v(2) by (auto simp: accepts_id_def)
  qed
  then show ?thesis
    using followsD(1,2,3) [OF f] by (auto simp: follows_def on_sub_def)
qed

lemma on_sub_follows:
  assumes f: "follows i c k a b D r"
    and g: "\<And>s. \<not> sub_stopped (g s) \<Longrightarrow> \<not> sub_stopped s \<and> sub_pending (g s) = sub_pending s \<and>
      sub_kinds (g s) = sub_kinds s \<and> sub_ids (g s) = sub_ids s" "\<And>s. sub_key (g s) = sub_key s"
  shows "follows i c k a b D (on_sub k' g r)"
proof -
  have "sub_kinds u = [] \<and> accepts_id u i \<and> stream_events i c (D @ sub_pending u) = [a..<b]"
    if u: "u \<in> set (rg_subscribers (on_sub k' g r))" "sub_key u = k" "\<not> sub_stopped u" for u
  proof -
    obtain v where v: "v \<in> set (rg_subscribers r)" "u = (if sub_key v = k' then g v else v)"
      using u(1) by (auto simp: on_sub_def)
    then have "sub_key v = k" "\<not> sub_stopped v" "sub_pending u = sub_pending v" "sub_kinds u = sub_kinds v" "sub_ids u = sub_ids v"
      using u(2,3) g(1) [of v] g(2) [of v] by (auto split: if_splits)
    then show ?thesis
      using followsD(4) [OF f v(1)] by (simp add: accepts_id_def)
  qed
  then show ?thesis
    using followsD(1,2,3) [OF f] by (auto simp: follows_def on_sub_def)
qed

lemma registry_step_follows:
  assumes f: "follows i c k a b D r" and ok: "registry_ok W r" and new: "\<not> opens_as c call"
  shows "\<exists>b'. follows i c k a b' (D @ handed W k call r) (registry_step W call r)"
proof (cases call)
  case (Call_open now fresh c' q sp ht)
  then have "follows i c k a b D (snd (open_op W now fresh c' q sp ht r))"
    using new by (intro open_follows [OF f ok]) (simp add: opens_as_def)
  then show ?thesis
    by (auto simp: Call_open handed_def)
next
  case (Call_source now j chunk)
  then show ?thesis
    using f publish_follows [OF f registry_ok_keys [OF ok] find_open_Inr(1) refl refl]
    by (cases "find_open ''stream is closed'' j r") (auto simp: handed_def source_op_def answer_def)
next
  case (Call_close now steady j closed)
  show ?thesis
  proof (cases "find_open ''stream is already closed'' j r")
    case (Inr s)
    show ?thesis
      unfolding Call_close using publish_follows [OF f registry_ok_keys [OF ok] find_open_Inr(1) [OF Inr]] Inr
      by (simp add: handed_def close_op_def answer_def)
  qed (use f in \<open>auto simp: Call_close handed_def close_op_def\<close>)
next
  case (Call_derived now j event library)
  show ?thesis
  proof (cases rule: derived_op_cases [of W now j event library r])
    case (accepted s e n)
    show ?thesis
      unfolding Call_derived using publish_follows [OF f registry_ok_keys [OF ok] accepted(1)]
      by (simp add: handed_def accepted(7) answer_def)
  qed (use f in \<open>auto simp: Call_derived handed_def\<close>)
next
  case (Call_subscribe sid q)
  then show ?thesis
    using subscribe_follows [OF f] by (auto simp: handed_def)
next
  case (Call_next k')
  then show ?thesis
    using next_follows [OF f ok] by blast
next
  case (Call_cancel k')
  have "follows i c k a b D (on_sub k' sub_cancel r)"
    by (rule on_sub_follows [OF f]) simp_all
  then show ?thesis
    by (auto simp: Call_cancel handed_def)
next
  case (Call_release k')
  have "follows i c k a b D (on_sub k' (\<lambda>s. s\<lparr>sub_released := True\<rparr>) r)"
    by (rule on_sub_follows [OF f]) simp_all
  then show ?thesis
    by (auto simp: Call_release handed_def)
qed

lemma registry_run_follows:
  assumes "follows i c k a b D r" "registry_ok W r" "\<forall>call \<in> set cs. \<not> opens_as c call"
    "registry_run W k cs r = (xs, r')"
  shows "\<exists>b'. follows i c k a b' (D @ xs) r'"
  using assms
proof (induction cs arbitrary: D b r xs)
  case (Cons call cs)
  obtain ys where ys: "registry_run W k cs (registry_step W call r) = (ys, r')" "xs = handed W k call r @ ys"
    using Cons.prems(4) by (auto split: prod.splits)
  obtain b' where "follows i c k a b' (D @ handed W k call r) (registry_step W call r)"
    using registry_step_follows [OF Cons.prems(1,2)] Cons.prems(3) by auto
  then show ?case
    using Cons.IH [OF _ registry_calls.step_inv [OF Cons.prems(2)] _ ys(1)] Cons.prems(3) by (fastforce simp: ys(2))
qed auto

text \<open>
  What has been handed over needs no open mailbox: it is a first part of the interval, also after the
  listener overflowed, was cancelled or left.
\<close>

lemma upt_first_part: "xs @ ys = [a..<b] \<Longrightarrow> \<exists>d. xs = [a..<d]"
proof -
  assume "xs @ ys = [a..<b]"
  then have "xs = take (length xs) [a..<b]"
    by (metis append_eq_conv_conj)
  also have "\<dots> = [a..<min b (a + length xs)]"
    by (cases "a + length xs \<le> b") (auto simp: take_upt min_def)
  finally show ?thesis
    by blast
qed

lemma handed_first_part:
  assumes f: "follows i c k a b D r" and ok: "registry_ok W r" and D: "\<exists>d. stream_events i c D = [a..<d]"
  shows "\<exists>d. stream_events i c (D @ handed W k call r) = [a..<d]"
proof (cases "handed W k call r")
  case (Cons x xs)
  obtain v where v: "find (\<lambda>s. sub_key s = k) (rg_subscribers r) = Some v" "fst (sub_next W v) = Some x" "xs = []"
    using Cons by (auto simp: handed_def split: registry_call.splits if_splits option.splits)
  then obtain rest where pending: "sub_pending v = x # rest"
    by (auto simp: sub_next_def split: list.splits)
  have mem: "v \<in> set (rg_subscribers r)" "sub_key v = k"
    using v(1) by (auto simp: find_Some_iff)
  then have "\<not> sub_stopped v"
    using ok pending by (auto simp: registry_ok_def subscribers_ok_def sub_ok_def)
  from followsD(4) [OF f mem this] have "stream_events i c ((D @ [x]) @ rest) = [a..<b]"
    by (simp add: pending del: stream_events_append)
  then show ?thesis
    unfolding Cons v(3) stream_events_append by (intro upt_first_part) simp
qed (use D in simp)

lemma registry_run_handed:
  assumes "follows i c k a b D r" "registry_ok W r" "\<forall>call \<in> set cs. \<not> opens_as c call"
    "registry_run W k cs r = (xs, r')" "\<exists>d. stream_events i c D = [a..<d]"
  shows "\<exists>d. stream_events i c (D @ xs) = [a..<d]"
  using assms
proof (induction cs arbitrary: D b r xs)
  case (Cons call cs)
  obtain ys where ys: "registry_run W k cs (registry_step W call r) = (ys, r')" "xs = handed W k call r @ ys"
    using Cons.prems(4) by (auto split: prod.splits)
  obtain b' where "follows i c k a b' (D @ handed W k call r) (registry_step W call r)"
    using registry_step_follows [OF Cons.prems(1,2)] Cons.prems(3) by auto
  from Cons.IH [OF this registry_calls.step_inv [OF Cons.prems(2)] _ ys(1) handed_first_part [OF Cons.prems(1,2,5)]] Cons.prems(3)
  show ?case
    by (simp add: ys(2))
qed auto

text \<open>The events a mailbox starts with: from the cursor, or all that is retained, or none.\<close>

definition replay_start :: "subscribe_request \<Rightarrow> (string \<times> nat) list \<Rightarrow> string \<Rightarrow> stream \<Rightarrow> nat" where
  "replay_start q after i s =
     (if \<not> hy_retained_events (sr_hydration q) then Suc (st_sequence s)
      else case map_of after i of Some n \<Rightarrow> Suc n | None \<Rightarrow> ss_first_retained_sequence (st_snapshot s))"

abbreviation cursor_positions :: "cursor list \<Rightarrow> (string \<times> nat) list" where
  "cursor_positions cs \<equiv> map (\<lambda>c. (cu_stream_id c, cu_event_sequence c)) cs"

lemma read_cursors_Inr:
  "read_cursors r sub acc cs = Inr after \<Longrightarrow> after = acc @ cursor_positions cs \<and>
   (\<forall>c \<in> set cs. \<exists>s. map_of (rg_streams r) (cu_stream_id c) = Some s \<and> cu_event_sequence c \<le> st_sequence s \<and>
      ss_first_retained_sequence (st_snapshot s) \<le> Suc (cu_event_sequence c))"
proof (induction cs arbitrary: acc)
  case (Cons c cs)
  then have ok: "cursor_refusal r sub acc c = None"
    and rest: "read_cursors r sub (acc @ [(cu_stream_id c, cu_event_sequence c)]) cs = Inr after"
    by (auto split: option.splits)
  from ok have "\<exists>s. map_of (rg_streams r) (cu_stream_id c) = Some s \<and> cu_event_sequence c \<le> st_sequence s \<and>
      ss_first_retained_sequence (st_snapshot s) \<le> Suc (cu_event_sequence c)"
    by (auto simp: cursor_refusal_def split: if_splits option.splits)
  with Cons.IH [OF rest] show ?case
    by simp
qed simp

lemma enqueue_all_pending: "enqueue_all W xs s = Some s' \<Longrightarrow> sub_pending s' = sub_pending s @ xs"
proof (induction xs arbitrary: s)
  case (Cons x xs)
  then obtain s1 where "sub_push W x s = (True, s1)" "enqueue_all W xs s1 = Some s'"
    by (auto split: prod.splits bool.splits)
  moreover from this(1) have "sub_pending s1 = sub_pending s @ [x]"
    by (auto simp: sub_push_def Let_def split: if_splits)
  ultimately show ?case
    using Cons.IH by simp
qed simp

lemma stream_events_other:
  assumes "\<forall>e \<in> set es. cu_stream_id (ev_cursor e) \<noteq> i \<or> cu_stream_incarnation (ev_cursor e) \<noteq> c"
  shows "stream_events i c (map Event es) = []"
  using assms by (induction es) auto

lemma stream_events_same:
  assumes "\<forall>e \<in> set es. cu_stream_id (ev_cursor e) = i \<and> cu_stream_incarnation (ev_cursor e) = c"
  shows "stream_events i c (map Event es) = map sequence_of es"
  using assms by (induction es) auto

lemma filter_upt_newer: "m \<le> Suc n \<Longrightarrow> filter (\<lambda>x. n < x) [m..<b] = [Suc n..<b]"
proof (induction b)
  case (Suc b)
  show ?case
  proof (cases "m \<le> b")
    case True
    with Suc show ?thesis
      by (simp add: upt_Suc_append)
  next
    case False
    with Suc.prems show ?thesis
      by simp
  qed
qed simp

lemma hydrate_stream_events:
  assumes ok: "stream_ok W epoch retention i s" and sub: "sub_kinds sub = []" "accepts_id sub i"
    and start: "\<And>n. map_of after i = Some n \<Longrightarrow> ss_first_retained_sequence (st_snapshot s) \<le> Suc n"
  shows "stream_events i (st_incarnation s) (hydrate_stream (sr_hydration q) sub after (i, s)) =
     [replay_start q after i s..<Suc (st_sequence s)]"
proof -
  let ?h = "filter (\<lambda>e. newer after i e \<and> accepts_event sub e) (st_history s)"
  have h: "map sequence_of (st_history s) = [ss_first_retained_sequence (st_snapshot s)..<Suc (st_sequence s)]"
    and ids: "\<forall>e \<in> set (st_history s). cu_stream_id (ev_cursor e) = i \<and> cu_stream_incarnation (ev_cursor e) = st_incarnation s"
    using ok by (simp_all add: stream_ok_def history_ok_def snapshot_ok_def)
  have "?h = filter (newer after i) (st_history s)"
    using ids sub by (intro filter_cong) (auto simp: accepts_event_def)
  moreover have "map sequence_of (filter (newer after i) (st_history s)) =
      filter (\<lambda>x. case map_of after i of None \<Rightarrow> True | Some n \<Rightarrow> x > n) (map sequence_of (st_history s))"
    by (simp add: filter_map comp_def newer_def [abs_def])
  ultimately have "map sequence_of ?h = (case map_of after i of
      None \<Rightarrow> [ss_first_retained_sequence (st_snapshot s)..<Suc (st_sequence s)] | Some n \<Rightarrow> [Suc n..<Suc (st_sequence s)])"
    using start by (simp add: h filter_upt_newer split: option.splits del: upt_Suc)
  moreover have "stream_events i (st_incarnation s) (map Event ?h) = map sequence_of ?h"
    using ids by (intro stream_events_same) auto
  ultimately show ?thesis
    using sub(2) by (simp add: hydrate_stream_def replay_start_def split: option.splits del: upt_Suc)
qed

lemma hydrate_other_events:
  assumes "stream_ok W epoch retention j s" "j \<noteq> i"
  shows "stream_events i c (hydrate_stream h sub after (j, s)) = []"
proof -
  have "\<forall>e \<in> set (st_history s). cu_stream_id (ev_cursor e) = j"
    using assms(1) by (simp add: stream_ok_def history_ok_def)
  then have "stream_events i c (map Event (filter P (st_history s))) = []" for P
    using assms(2) by (intro stream_events_other) auto
  then show ?thesis
    by (simp add: hydrate_stream_def)
qed

lemma concat_single:
  assumes "keys_sorted m" "(i, s) \<in> set m" "\<And>j t. (j, t) \<in> set m \<Longrightarrow> j \<noteq> i \<Longrightarrow> f (j, t) = []"
  shows "concat (map f m) = f (i, s)"
  using assms
proof (induction m)
  case (Cons p m)
  show ?case
  proof (cases "p = (i, s)")
    case True
    have "f (j, t) = []" if "(j, t) \<in> set m" for j t
      using Cons.prems(1) that True by (intro Cons.prems(3)) (auto simp: keys_sorted_Cons)
    then have "concat (map f m) = []"
      by (auto simp: concat_eq_Nil_conv)
    with True show ?thesis
      by simp
  next
    case False
    then have "(i, s) \<in> set m" "fst p \<noteq> i"
      using Cons.prems(1,2) by (auto simp: keys_sorted_Cons)
    moreover from this(2) have "f p = []"
      using Cons.prems(3) [of "fst p" "snd p"] by simp
    moreover note Cons.prems(3)
    ultimately have "concat (map f m) = f (i, s)" "f p = []"
      using Cons.IH Cons.prems(1) by (auto simp: keys_sorted_Cons)
    then show ?thesis
      by simp
  qed
qed simp

lemma stream_events_concat: "stream_events i c (concat xss) = concat (map (stream_events i c) xss)"
  by (induction xss) auto

lemma subscribe_starts:
  assumes ok: "registry_ok W r" and sub: "subscribe W sid q r = (Inr sub, r')"
    and kinds: "sr_payload_kinds q = []" and ids: "sr_stream_ids q = [] \<or> i \<in> set (sr_stream_ids q)"
    and s: "map_of (rg_streams r) i = Some s"
  shows "follows i (st_incarnation s) (sub_key sub)
    (replay_start q (cursor_positions (hy_after (sr_hydration q))) i s) (Suc (st_sequence s)) [] r'"
proof (cases rule: subscribe_cases [of W sid q r])
  case (accepted new after sub' r1)
  let ?h = "sr_hydration q"
  have r1: "rg_streams r1 = rg_streams r" "rg_next_key r1 = rg_next_key r"
    by (simp_all add: accepted(2))
  have res: "sub = sub'" "r' = r1\<lparr>rg_subscribers := rg_subscribers r1 @ [sub'], rg_next_key := Suc (rg_next_key r)\<rparr>"
    using sub accepted(7) by auto
  have new: "sub_key sub' = rg_next_key r" "sub_kinds sub' = []" "accepts_id sub' i" "\<not> sub_stopped sub'"
    using enqueue_all_ok [OF accepted(5)] kinds ids
    by (simp_all add: accepted(1) subscription_new_def sub_ok_def accepts_id_def)
  have "after = cursor_positions (hy_after ?h)" and
    start: "\<And>c. c \<in> set (hy_after ?h) \<Longrightarrow> \<exists>s. map_of (rg_streams r) (cu_stream_id c) = Some s \<and>
      cu_event_sequence c \<le> st_sequence s \<and> ss_first_retained_sequence (st_snapshot s) \<le> Suc (cu_event_sequence c)"
    using read_cursors_Inr [OF accepted(4)] r1 by simp_all
  then have pos: "n \<le> st_sequence s \<and> ss_first_retained_sequence (st_snapshot s) \<le> Suc n" if "map_of after i = Some n" for n
    using map_of_SomeD [OF that] s by force
  have sok: "stream_ok W (rg_epoch r) (retention_bytes (rg_limits r)) i s"
    by (rule registered_stream_ok(1) [OF ok s])
  have others: "stream_events i (st_incarnation s) (hydrate_stream ?h new after (j, t)) = []"
    if "(j, t) \<in> set (rg_streams r)" "j \<noteq> i" for j t
    using ok that by (intro hydrate_other_events [of W "rg_epoch r" "retention_bytes (rg_limits r)"])
      (force simp: registry_ok_def streams_ok_def)+
  have "concat (map (\<lambda>p. stream_events i (st_incarnation s) (hydrate_stream ?h new after p)) (rg_streams r)) =
      stream_events i (st_incarnation s) (hydrate_stream ?h new after (i, s))"
    by (intro concat_single [OF registry_ok_keys [OF ok] map_of_SomeD [OF s]] others)
  also have "\<dots> = [replay_start q after i s..<Suc (st_sequence s)]"
    using ids kinds pos by (intro hydrate_stream_events [OF sok])
      (auto simp: accepted(1) subscription_new_def accepts_id_def)
  finally have "stream_events i (st_incarnation s) (hydration_responses sid ?h new after r1) =
      (if hy_metadata ?h \<or> hy_retained_events ?h then [replay_start q after i s..<Suc (st_sequence s)] else [])"
    by (simp add: hydration_responses_def stream_events_concat comp_def r1 del: upt_Suc)
  then have "stream_events i (st_incarnation s) (sub_pending sub') = [replay_start q after i s..<Suc (st_sequence s)]"
    using enqueue_all_pending [OF accepted(5)]
    by (auto simp: accepted(1) subscription_new_def replay_start_def)
  moreover have "replay_start q after i s \<le> Suc (st_sequence s)"
    using pos sok by (auto simp: replay_start_def stream_ok_def snapshot_ok_def split: option.splits)
  moreover have "sub_key u \<noteq> rg_next_key r" if "u \<in> set (rg_subscribers r1)" for u
    using that ok by (auto simp: accepted(2) alive_def registry_ok_def subscribers_ok_def)
  ultimately show ?thesis
    using new s r1 \<open>after = cursor_positions (hy_after ?h)\<close> by (auto simp: follows_def res)
qed (use sub in simp)

lemma listener_streams: "rg_streams (snd (subscribe W sid q r)) = rg_streams r"
  by (cases rule: subscribe_cases [of W sid q r]) auto

text \<open>C3: a listener is handed no event out of order and none after a gap. When a subscription without
  a payload filter is accepted on a stream, then whatever calls follow from any RPC, the events of
  that stream handed to the listener are consecutive, starting right after its replay cursor, or at
  the first retained event, or at the next event when it asked for none; so also when its mailbox
  overflowed, it was cancelled or it left, where they end early. And as long as it is registered and
  its mailbox is open (neither overflowed nor cancelled) it misses nothing: what it was handed and
  what waits in the mailbox together reach the stream's latest event, while the stream is registered.
  The hypothesis on openings is that a random incarnation is never drawn twice.\<close>

theorem registry_delivery_gap_free:
  assumes "registry_ok W r" "subscribe W sid q r = (Inr sub, r1)" "sr_payload_kinds q = []"
    "sr_stream_ids q = [] \<or> i \<in> set (sr_stream_ids q)" "map_of (rg_streams r) i = Some s"
    "\<forall>call \<in> set calls. \<not> opens_as (st_incarnation s) call"
    "registry_run W (sub_key sub) calls r1 = (received, r2)"
  shows "(\<exists>d. stream_events i (st_incarnation s) received = [replay_start q (cursor_positions (hy_after (sr_hydration q))) i s..<d]) \<and>
    (\<forall>sub2 \<in> set (rg_subscribers r2). sub_key sub2 = sub_key sub \<and> \<not> sub_stopped sub2 \<longrightarrow>
      (\<exists>b. stream_events i (st_incarnation s) (received @ sub_pending sub2) =
          [replay_start q (cursor_positions (hy_after (sr_hydration q))) i s..<b] \<and>
        (\<forall>t. map_of (rg_streams r2) i = Some t \<and> st_incarnation t = st_incarnation s \<longrightarrow> b = Suc (st_sequence t))))"
proof -
  let ?a = "replay_start q (cursor_positions (hy_after (sr_hydration q))) i s"
  have ok: "registry_ok W r1"
    using subscribe_ok [OF assms(1), of sid q] assms(2) by simp
  note start = subscribe_starts [OF assms(1-5)]
  have "\<exists>d. stream_events i (st_incarnation s) [] = [?a..<d]"
    by (intro exI [of _ 0]) simp
  from registry_run_handed [OF start ok assms(6,7) this] have first: "\<exists>d. stream_events i (st_incarnation s) received = [?a..<d]"
    by simp
  obtain b where "follows i (st_incarnation s) (sub_key sub) ?a b ([] @ received) r2"
    using registry_run_follows [OF start ok assms(6,7)] by blast
  from followsD(3,4) [OF this] first show ?thesis
    by auto
qed

definition demo_request :: subscribe_request where
  "demo_request = \<lparr>sr_stream_ids = [], sr_hydration = \<lparr>hy_metadata = False, hy_retained_events = True, hy_after = []\<rparr>,
     sr_payload_kinds = []\<rparr>"

definition demo_opened :: registry where
  "demo_opened = registry_step demo_wire (Call_open (0, 0) [] ''i'' demo_open False False) demo_registry"

lemma demo_open_refusal: "open_refusal demo_open False False demo_id = None"
  by (simp add: open_refusal_def demo_open_def is_direct_def audio_tracks_def direct_of_def demo_id_valid)

lemma demo_opened_ok: "registry_ok demo_wire demo_opened"
  unfolding demo_opened_def by (rule registry_calls.step_inv [OF demo_registry_ok])

lemma demo_opened_streams:
  "\<exists>s. rg_streams demo_opened = [(demo_id, s)] \<and> st_sequence s = 1 \<and> st_incarnation s = ''i'' \<and> \<not> st_closed s \<and>
    length (st_history s) = 1 \<and> ss_first_retained_sequence (st_snapshot s) = 1"
  "rg_subscribers demo_opened = []" "rg_next_key demo_opened = 0" "rg_limits demo_opened = demo_limits"
proof -
  have i: "os_stream_id demo_open = demo_id" "demo_id \<noteq> []"
    and rg: "rg_limits demo_registry = demo_limits" "rg_streams demo_registry = []" "max_streams demo_limits = 1"
    by (simp_all add: demo_open_def demo_id_def demo_registry_def demo_limits_def)
  have room: "make_room demo_registry = demo_registry"
    by (simp add: make_room_def demo_registry_def demo_limits_def)
  have opened: "demo_opened = snd (publish demo_wire (0, 0) demo_id (stream_new demo_wire demo_registry ''i'' demo_open)
      (blank_event (Opened (opened_of demo_limits demo_open))) demo_registry)"
    by (simp add: demo_opened_def open_op_def i room demo_open_refusal answer_def rg)
  show "\<exists>s. rg_streams demo_opened = [(demo_id, s)] \<and> st_sequence s = 1 \<and> st_incarnation s = ''i'' \<and> \<not> st_closed s \<and>
    length (st_history s) = 1 \<and> ss_first_retained_sequence (st_snapshot s) = 1"
    by (simp add: opened publish_streams retain_fields stream_new_def Let_def demo_registry_def demo_limits_def
        event_charge_def demo_wire_def)
  show "rg_subscribers demo_opened = []" "rg_next_key demo_opened = 0" "rg_limits demo_opened = demo_limits"
    by (simp_all add: opened publish_subscribers alive_def) (simp_all add: demo_registry_def alive_def)
qed

lemma demo_subscribe:
  obtains sub r where "subscribe demo_wire ''s'' demo_request demo_opened = (Inr sub, r)" "rg_subscribers r = [sub]"
    "\<not> sub_stopped sub"
proof -
  obtain s where s: "rg_streams demo_opened = [(demo_id, s)]" "length (st_history s) = 1"
    using demo_opened_streams(1) by blast
  then obtain e where e: "st_history s = [e]"
    by (auto simp: length_Suc_conv)
  have "\<exists>sub r. subscribe demo_wire ''s'' demo_request demo_opened = (Inr sub, r) \<and> rg_subscribers r = [sub] \<and> \<not> sub_stopped sub"
    by (simp add: subscribe_def subscribe_refusal_def demo_request_def demo_opened_streams demo_limits_def int_cast_def
        Let_def alive_def hydration_responses_def s hydrate_stream_def e accepts_id_def subscription_new_def newer_def
        accepts_event_def sub_push_def response_charge_def demo_wire_def)
  then show ?thesis
    using that by blast
qed

theorem registry_delivery_gap_free_witness:
  "\<exists>sub r s. subscribe demo_wire ''s'' demo_request demo_opened = (Inr sub, r) \<and>
     map_of (rg_streams demo_opened) demo_id = Some s \<and>
     stream_events demo_id (st_incarnation s) (sub_pending sub) = [1..<2] \<and>
     fst (registry_run demo_wire (sub_key sub) [Call_next (sub_key sub), Call_cancel (sub_key sub)] r) \<noteq> [] \<and>
     (\<exists>d. stream_events demo_id (st_incarnation s)
        (fst (registry_run demo_wire (sub_key sub) [Call_next (sub_key sub), Call_cancel (sub_key sub)] r)) = [1..<d])"
proof -
  obtain sub r where sub: "subscribe demo_wire ''s'' demo_request demo_opened = (Inr sub, r)" "rg_subscribers r = [sub]"
    "\<not> sub_stopped sub"
    by (rule demo_subscribe)
  let ?calls = "[Call_next (sub_key sub), Call_cancel (sub_key sub)]"
  obtain s where s: "rg_streams demo_opened = [(demo_id, s)]" "st_sequence s = 1" "st_incarnation s = ''i''"
    "ss_first_retained_sequence (st_snapshot s) = 1"
    using demo_opened_streams(1) by blast
  have r: "rg_streams r = rg_streams demo_opened"
    using listener_streams [of demo_wire "''s''" demo_request demo_opened] sub(1) by simp
  have m: "map_of (rg_streams demo_opened) demo_id = Some s"
    by (simp add: s(1))
  have whole: "sr_payload_kinds demo_request = []" "sr_stream_ids demo_request = []"
    by (simp_all add: demo_request_def)
  have start: "replay_start demo_request (cursor_positions (hy_after (sr_hydration demo_request))) demo_id s = 1"
    using s(4) by (simp add: replay_start_def demo_request_def)
  obtain b where "stream_events demo_id (st_incarnation s) ([] @ sub_pending sub) = [1..<b]"
    "\<forall>t. map_of (rg_streams r) demo_id = Some t \<and> st_incarnation t = st_incarnation s \<longrightarrow> b = Suc (st_sequence t)"
    using registry_delivery_gap_free [OF demo_opened_ok sub(1) _ _ m, of "[]" "[]" r] sub(2,3) whole
    by (auto simp: start)
  then have pending: "stream_events demo_id (st_incarnation s) (sub_pending sub) = [1..<2]"
    using m s(2) by (auto simp: r numeral_2_eq_2)
  obtain received r2 where run: "registry_run demo_wire (sub_key sub) ?calls r = (received, r2)"
    by fastforce
  have "\<exists>d. stream_events demo_id (st_incarnation s) received = [1..<d]"
    using registry_delivery_gap_free [OF demo_opened_ok sub(1) whole(1) _ m _ run] whole
    by (simp add: opens_as_def start)
  moreover have "sub_pending sub \<noteq> []"
    using pending by (auto simp: upt_rec)
  then have "received \<noteq> []"
    using run sub(2) by (auto simp: handed_def sub_next_def neq_Nil_conv)
  ultimately show ?thesis
    using sub(1) m pending run by auto
qed

section \<open>Listeners do not affect producers\<close>

definition listener_call :: "registry_call \<Rightarrow> bool" where
  "listener_call c = (case c of Call_subscribe _ _ \<Rightarrow> True | Call_next _ \<Rightarrow> True | Call_cancel _ \<Rightarrow> True
     | Call_release _ \<Rightarrow> True | _ \<Rightarrow> False)"

text \<open>The replies to the calls of the producers, in order.\<close>

fun producer_reply :: "wire \<Rightarrow> registry_call \<Rightarrow> registry \<Rightarrow> (exn + stream_event) list" where
  "producer_reply W (Call_open now fresh c q sp ht) r = [fst (open_op W now fresh c q sp ht r)]"
| "producer_reply W (Call_source now i chunk) r = [fst (source_op W now i chunk r)]"
| "producer_reply W (Call_close now steady i closed) r = [fst (close_op W now steady i closed r)]"
| "producer_reply W (Call_derived now i e library) r = [fst (derived_op W now i e library r)]"
| "producer_reply W _ r = []"

fun producer_replies :: "wire \<Rightarrow> registry_call list \<Rightarrow> registry \<Rightarrow> (exn + stream_event) list" where
  "producer_replies W [] r = []"
| "producer_replies W (c # cs) r = producer_reply W c r @ producer_replies W cs (registry_step W c r)"

text \<open>Everything of the registry but its listeners.\<close>

definition producer_view :: "registry \<Rightarrow> limits \<times> string \<times> producer \<times> (string \<times> stream) list" where
  "producer_view r = (rg_limits r, rg_epoch r, rg_producer r, rg_streams r)"

lemma publish_view:
  assumes "producer_view r = producer_view r'"
  shows "fst (publish W now i s e r) = fst (publish W now i s e r')"
    "producer_view (snd (publish W now i s e r)) = producer_view (snd (publish W now i s e r'))"
  using assms by (simp_all add: producer_view_def publish_def Let_def)

lemma find_open_view: "producer_view r = producer_view r' \<Longrightarrow> find_open m i r = find_open m i r'"
  by (simp add: producer_view_def find_open_def)

lemma make_room_view: "producer_view r = producer_view r' \<Longrightarrow> producer_view (make_room r) = producer_view (make_room r')"
  by (simp add: producer_view_def make_room_def split: option.splits)

lemma stream_new_view: "producer_view r = producer_view r' \<Longrightarrow> stream_new W r c q = stream_new W r' c q"
  by (simp add: producer_view_def stream_new_def)

lemma open_view:
  assumes v: "producer_view r = producer_view r'"
  shows "fst (open_op W now fresh c q sp ht r) = fst (open_op W now fresh c q sp ht r')"
    "producer_view (snd (open_op W now fresh c q sp ht r)) = producer_view (snd (open_op W now fresh c q sp ht r'))"
proof -
  note room = make_room_view [OF v]
  have same: "rg_streams (make_room r) = rg_streams (make_room r')" "rg_limits (make_room r) = rg_limits (make_room r')"
    "rg_streams r = rg_streams r'" "rg_limits r = rg_limits r'"
    using room v by (simp_all add: producer_view_def)
  define i where "i = (if os_stream_id q = [] then fresh else os_stream_id q)"
  note facts = publish_view [OF room] same stream_new_view [OF room] room v
  show "fst (open_op W now fresh c q sp ht r) = fst (open_op W now fresh c q sp ht r')"
    by (cases "open_refusal q sp ht i") (simp_all add: open_op_def Let_def answer_def facts flip: i_def)
  show "producer_view (snd (open_op W now fresh c q sp ht r)) = producer_view (snd (open_op W now fresh c q sp ht r'))"
    by (cases "open_refusal q sp ht i") (simp_all add: open_op_def Let_def answer_def facts flip: i_def)
qed

lemma registered_view:
  assumes v: "producer_view r = producer_view r'"
  shows "fst (source_op W now i chunk r) = fst (source_op W now i chunk r')"
    "producer_view (snd (source_op W now i chunk r)) = producer_view (snd (source_op W now i chunk r'))"
    "fst (close_op W now steady i closed r) = fst (close_op W now steady i closed r')"
    "producer_view (snd (close_op W now steady i closed r)) = producer_view (snd (close_op W now steady i closed r'))"
    "fst (derived_op W now i e library r) = fst (derived_op W now i e library r')"
    "producer_view (snd (derived_op W now i e library r)) = producer_view (snd (derived_op W now i e library r'))"
proof -
  have l: "rg_limits r = rg_limits r'"
    using v by (simp add: producer_view_def)
  note facts = publish_view [OF v] find_open_view [OF v] v l
  show "fst (source_op W now i chunk r) = fst (source_op W now i chunk r')"
    "producer_view (snd (source_op W now i chunk r)) = producer_view (snd (source_op W now i chunk r'))"
    by (simp_all add: source_op_def answer_def facts split: sum.splits)
  show "fst (close_op W now steady i closed r) = fst (close_op W now steady i closed r')"
    "producer_view (snd (close_op W now steady i closed r)) = producer_view (snd (close_op W now steady i closed r'))"
    by (simp_all add: close_op_def answer_def facts split: sum.splits)
  show "fst (derived_op W now i e library r) = fst (derived_op W now i e library r')"
    "producer_view (snd (derived_op W now i e library r)) = producer_view (snd (derived_op W now i e library r'))"
    by (simp_all add: derived_op_def answer_def Let_def facts split: sum.splits option.splits)
qed

lemma step_view:
  assumes "producer_view r = producer_view r'"
  shows "producer_view (registry_step W c r) = producer_view (registry_step W c r') \<or> listener_call c"
    "producer_reply W c r = producer_reply W c r'"
  by (cases c; simp add: open_view [OF assms] registered_view [OF assms] listener_call_def)+

lemma listener_step_view:
  assumes "listener_call c"
  shows "producer_view (registry_step W c r) = producer_view r" "producer_reply W c r = []"
proof -
  show "producer_view (registry_step W c r) = producer_view r"
  proof (cases c)
    case (Call_subscribe sid q)
    then show ?thesis
      by (cases rule: subscribe_cases [of W sid q r]) (auto simp: producer_view_def)
  qed (use assms in \<open>auto simp: listener_call_def producer_view_def on_sub_def\<close>)
  show "producer_reply W c r = []"
    using assms by (cases c) (simp_all add: listener_call_def)
qed

lemma view_run:
  assumes "producer_view r = producer_view r'"
  shows "producer_view (fold (registry_step W) cs r) =
      producer_view (fold (registry_step W) (filter (\<lambda>c. \<not> listener_call c) cs) r') \<and>
    producer_replies W cs r = producer_replies W (filter (\<lambda>c. \<not> listener_call c) cs) r'"
  using assms
proof (induction cs arbitrary: r r')
  case (Cons c cs)
  show ?case
  proof (cases "listener_call c")
    case True
    then have "producer_view (registry_step W c r) = producer_view r'" "producer_reply W c r = []"
      using listener_step_view [OF True] Cons.prems by simp_all
    with Cons.IH [of "registry_step W c r" r'] True show ?thesis
      by simp
  next
    case False
    then have "producer_view (registry_step W c r) = producer_view (registry_step W c r')"
      "producer_reply W c r = producer_reply W c r'"
      using step_view [OF Cons.prems] by blast+
    with Cons.IH [of "registry_step W c r" "registry_step W c r'"] False show ?thesis
      by simp
  qed
qed simp

text \<open>C39: listeners never affect producers. In any interleaving of calls, the streams with
  their histories and snapshots, and every reply to a producer, are what they would be if no
  listener had ever subscribed, read, overflowed, cancelled or left.\<close>

theorem listeners_do_not_affect_producers:
  "rg_streams (fold (registry_step W) calls r) =
     rg_streams (fold (registry_step W) (filter (\<lambda>c. \<not> listener_call c) calls) r) \<and>
   producer_replies W calls r = producer_replies W (filter (\<lambda>c. \<not> listener_call c) calls) r"
  using view_run [OF refl, of W calls r] by (simp add: producer_view_def)

section \<open>Capacity\<close>

lemma oldest_closed_Some:
  "oldest_closed cs old = Some c \<Longrightarrow> (old = Some c \<or> c \<in> set cs \<and> st_closed (snd c))"
proof (induction cs arbitrary: old)
  case (Cons x cs)
  from Cons.IH [OF Cons.prems [unfolded oldest_closed.simps]] show ?case
    by (auto split: if_splits)
qed simp

lemma oldest_closed_None: "oldest_closed cs old = None \<longleftrightarrow> old = None \<and> (\<forall>c \<in> set cs. \<not> st_closed (snd c))"
  by (induction cs arbitrary: old) (auto split: option.splits)

lemma make_room_active:
  assumes "registry_ok W r" "map_of (rg_streams r) j = Some s" "\<not> st_closed s"
  shows "map_of (rg_streams (make_room r)) j = Some s"
proof (cases "oldest_closed (rg_streams r) None")
  case (Some old)
  then have "old \<in> set (rg_streams r)" "st_closed (snd old)"
    using oldest_closed_Some by fastforce+
  then have "fst old \<noteq> j"
    using keys_sorted_map_of [OF registry_ok_keys [OF assms(1)]] assms(2,3) by fastforce
  with Some assms(2) show ?thesis
    by (simp add: make_room_def)
qed (simp add: make_room_def assms(2))

lemma make_room_length:
  assumes "registry_ok W r"
  shows "length (rg_streams (make_room r)) < max_streams (rg_limits r) \<longleftrightarrow>
    length (rg_streams r) < max_streams (rg_limits r) \<or> (\<exists>p \<in> set (rg_streams r). st_closed (snd p))"
proof (cases "oldest_closed (rg_streams r) None")
  case None
  then have "\<forall>p \<in> set (rg_streams r). \<not> st_closed (snd p)"
    by (simp add: oldest_closed_None)
  with None show ?thesis
    by (auto simp: make_room_def)
next
  case (Some old)
  then have old: "old \<in> set (rg_streams r)" "st_closed (snd old)"
    using oldest_closed_Some by fastforce+
  have "Suc (length (map_erase (fst old) (rg_streams r))) = length (rg_streams r)"
    using old(1) by (intro length_map_erase [OF registry_ok_keys [OF assms]]) simp
  moreover have "length (rg_streams r) \<le> max_streams (rg_limits r)"
    using assms by (simp add: registry_ok_def streams_ok_def)
  ultimately show ?thesis
    using old Some by (auto simp: make_room_def)
qed

text \<open>Capacity. An opening that is not refused for its content succeeds exactly when its
  identifier is free and either the registry has room or some stream is closed; then every
  stream that is still open is kept as it is.\<close>

theorem open_op_capacity:
  assumes ok: "registry_ok W r" and i: "i = (if os_stream_id q = [] then fresh else os_stream_id q)"
    and valid: "open_refusal q sp ht i = None"
  shows "((\<exists>e. fst (open_op W now fresh incarnation q sp ht r) = Inr e) \<longleftrightarrow>
      map_of (rg_streams r) i = None \<and>
      (length (rg_streams r) < max_streams (rg_limits r) \<or> (\<exists>p \<in> set (rg_streams r). st_closed (snd p)))) \<and>
    (\<forall>j s. map_of (rg_streams r) j = Some s \<longrightarrow> \<not> st_closed s \<longrightarrow>
      map_of (rg_streams (snd (open_op W now fresh incarnation q sp ht r))) j = Some s)"
proof (intro conjI allI impI)
  show "(\<exists>e. fst (open_op W now fresh incarnation q sp ht r) = Inr e) \<longleftrightarrow>
      map_of (rg_streams r) i = None \<and>
      (length (rg_streams r) < max_streams (rg_limits r) \<or> (\<exists>p \<in> set (rg_streams r). st_closed (snd p)))"
    unfolding make_room_length [OF ok, symmetric] using valid
    by (simp add: open_op_def i [symmetric] Let_def answer_def not_less [symmetric])
next
  fix j s
  assume j: "map_of (rg_streams r) j = Some s" "\<not> st_closed s"
  have "map_of (rg_streams (snd (publish W now i t e (make_room r)))) j = Some s"
    if "map_of (rg_streams r) i = None" for t e
    using that j make_room_active [OF ok j] registry_ok_keys [OF make_room_ok [OF ok]]
    by (auto simp: publish_streams)
  then show "map_of (rg_streams (snd (open_op W now fresh incarnation q sp ht r))) j = Some s"
    using make_room_active [OF ok j] valid j(1)
    by (simp add: open_op_def i [symmetric] Let_def answer_def)
qed

theorem open_op_capacity_witness:
  "\<exists>s. map_of (rg_streams demo_opened) demo_id = Some s \<and>
     (\<nexists>e. fst (open_op demo_wire (0, 0) demo_id ''j'' (demo_open\<lparr>os_stream_id := []\<rparr>) False False demo_opened) = Inr e)"
proof -
  have valid: "open_refusal (demo_open\<lparr>os_stream_id := []\<rparr>) False False demo_id = None"
    by (simp add: open_refusal_def demo_open_def is_direct_def audio_tracks_def direct_of_def demo_id_valid)
  obtain s where s: "rg_streams demo_opened = [(demo_id, s)]"
    using demo_opened_streams(1) by blast
  then show ?thesis
    using open_op_capacity [OF demo_opened_ok refl, where q = "demo_open\<lparr>os_stream_id := []\<rparr>" and fresh = demo_id
        and sp = False and ht = False and now = "(0, 0)" and incarnation = "''j''"] valid
    by simp
qed

end
