(* ===== verification/Asr_Types.thy ===== *)
theory Asr_Types
  imports Transcriber Docling_Options
begin

text \<open>
  The response messages of asr_service.proto the collector writes, and the Document messages
  the fold fills (src/src/document/document_fold.cpp reads and writes exactly these fields). A
  double is its 64-bit pattern; what the code computes with doubles goes through
  \<open>double_ops\<close>, the floating-point unit.
\<close>

type_synonym dbl = "64 word"

record double_ops =
  dbl_of_uint :: "nat \<Rightarrow> dbl"
  dbl_of_float :: "f32 \<Rightarrow> dbl"
  dbl_div_1000 :: "dbl \<Rightarrow> dbl"
  dbl_add_ms :: "dbl \<Rightarrow> dbl"
  dbl_gt :: "dbl \<Rightarrow> dbl \<Rightarrow> bool"
  dbl_exp :: "dbl \<Rightarrow> dbl"
  dbl_one :: dbl

section \<open>Responses\<close>

record media_info =
  mi_duration_ms :: nat
  mi_audio_codec :: string
  mi_sample_rate_hz :: nat
  mi_channels :: nat
  mi_has_video :: bool
  mi_video_codec :: string

record word_message =
  wm_text :: string
  wm_start_ms :: nat
  wm_end_ms :: nat
  wm_probability :: f32

record segment_message =
  sm_index :: nat
  sm_start_ms :: nat
  sm_end_ms :: nat
  sm_text :: string
  sm_words :: "word_message list"
  sm_avg_logprob :: "f32 option"
  sm_speaker_turn_next :: bool
  sm_speaker_id :: string

record keyframe =
  kf_timestamp_ms :: nat
  kf_png :: string
  kf_width :: nat
  kf_height :: nat

record transcript_complete =
  tc_language :: string
  tc_duration_ms :: nat
  tc_segment_count :: nat
  tc_token_count :: nat
  tc_keyframe_count :: nat

section \<open>Documents\<close>

datatype content_layer = CONTENT_LAYER_BODY | CONTENT_LAYER_FURNITURE

datatype field_value = Number_value dbl | String_value string | Bool_value bool

record language_field =
  lf_code :: nat
  lf_code_raw :: string
  lf_created_by :: string

record base_meta =
  bm_language :: "language_field option"
  bm_custom_fields :: "string \<rightharpoonup> field_value"

record group_item =
  gr_self_ref :: string
  gr_parent :: "string option"
  gr_children :: "string list"
  gr_content_layer :: content_layer

record time_span_message =
  sp_start_ms :: dbl
  sp_end_ms :: dbl
  sp_speaker :: string

record provenance_item =
  pv_time :: time_span_message
  pv_charspan :: "(nat \<times> nat) option"

record collector_source =
  cs_collector :: string
  cs_model :: string
  cs_version :: string
  cs_confidence :: "dbl option"
  cs_raw_score :: "dbl option"
  cs_raw_score_kind :: "string option"

datatype source_type = Track_source (start_time: dbl) (end_time: dbl) | Collector collector_source

record text_item_base =
  tb_self_ref :: string
  tb_parent :: "string option"
  tb_children :: "string list"
  tb_content_layer :: content_layer
  tb_orig :: string
  tb_text :: string
  tb_prov :: "provenance_item list"
  tb_source :: "source_type list"

record code_item =
  co_self_ref :: string
  co_parent :: "string option"
  co_children :: "string list"

datatype base_text_item =
    Title_item text_item_base
  | Section_header_item text_item_base
  | List_item text_item_base
  | Formula_item text_item_base
  | Text_item text_item_base
  | Field_heading_item text_item_base
  | Field_value_item text_item_base
  | Code_item code_item
  | Item_not_set

record image_ref =
  im_mimetype :: string
  im_width :: dbl
  im_height :: dbl
  im_uri :: string

record picture_item =
  pi_self_ref :: string
  pi_parent :: "string option"
  pi_children :: "string list"
  pi_content_layer :: content_layer
  pi_image :: image_ref
  pi_prov :: "provenance_item list"
  pi_source :: "source_type list"

record table_item =
  ta_self_ref :: string
  ta_parent :: "string option"
  ta_children :: "string list"

record document_origin =
  og_filename :: string
  og_mimetype :: string
  og_binary_hash :: nat

record media_meta =
  mm_codec :: "string option"
  mm_duration_ms :: "dbl option"
  mm_speakers :: "string list"

record document =
  dc_schema_name :: string
  dc_name :: string
  dc_origin :: "document_origin option"
  dc_body :: group_item
  dc_body_meta :: base_meta
  dc_furniture :: group_item
  dc_groups :: "group_item list"
  dc_texts :: "base_text_item list"
  dc_pictures :: "picture_item list"
  dc_tables :: "table_item list"
  dc_media :: media_meta
  dc_source_language :: "string option"

datatype transcribe_response =
    Media_info_event media_info
  | Partial_segment segment_message
  | Final_segment segment_message
  | Keyframe_event keyframe
  | Complete_event transcript_complete
  | Document_event document
  | Event_not_set

end
