(* ===== verification/Document_Fold.thy ===== *)
theory Document_Fold
  imports Asr_Types
begin

text \<open>
  The fold of a Transcribe stream into one Document (src/src/document/document_fold.cpp): the
  event handlers of \<open>AsrDocumentFold\<close> and the structural self-check
  \<open>document_integrity_errors\<close>. The table of language names is generated code and a parameter.
\<close>

section \<open>Strings\<close>

definition fold_whitespace :: "char \<Rightarrow> bool" where
  "fold_whitespace c \<longleftrightarrow> c \<in> {CHR '' '', CHR 0x09, CHR 0x0D, CHR 0x0A}"

definition trimmed :: "string \<Rightarrow> string" where
  "trimmed text = rev (dropWhile fold_whitespace (rev (dropWhile fold_whitespace text)))"

definition starts_code_point :: "char \<Rightarrow> bool" where
  "starts_code_point c \<longleftrightarrow> of_char c AND (0xC0 :: 8 word) \<noteq> 0x80"

definition code_points :: "string \<Rightarrow> nat \<Rightarrow> nat \<Rightarrow> nat" where
  "code_points text from to = length (filter starts_code_point (take (to - from) (drop from text)))"

text \<open>\<open>text.find(needle, from)\<close>.\<close>

definition find_from :: "string \<Rightarrow> string \<Rightarrow> nat \<Rightarrow> nat option" where
  "find_from text needle from =
     find (\<lambda>i. take (length needle) (drop i text) = needle) [from..<Suc (length text) - length needle]"

definition to_upper :: "char \<Rightarrow> char" where
  "to_upper c = (if CHR ''a'' \<le> c \<and> c \<le> CHR ''z'' then char_of ((of_char c :: nat) - 32) else c)"

definition language_label :: "(string \<Rightarrow> nat option) \<Rightarrow> string \<Rightarrow> nat" where
  "language_label parse code =
     (case parse (''HUMAN_LANGUAGE_LABEL_'' @ map to_upper (takeWhile (\<lambda>c. c \<noteq> CHR ''-'') code)) of
        Some label \<Rightarrow> label | None \<Rightarrow> 0)"

section \<open>The fold\<close>

record fold_env =
  fe_doubles :: double_ops
  fe_parse_label :: "string \<Rightarrow> nat option"

record document_fold =
  df_document :: document
  df_model :: string
  df_version :: string
  df_word_provenance :: bool
  df_finished :: bool

definition group_new :: "string \<Rightarrow> content_layer \<Rightarrow> group_item" where
  "group_new ref layer = \<lparr>gr_self_ref = ref, gr_parent = None, gr_children = [], gr_content_layer = layer\<rparr>"

definition document_new :: document where
  "document_new = \<lparr>dc_schema_name = ''docling_document_v2'', dc_name = [], dc_origin = None,
     dc_body = group_new ''#/body'' CONTENT_LAYER_BODY,
     dc_body_meta = \<lparr>bm_language = None, bm_custom_fields = Map.empty\<rparr>,
     dc_furniture = group_new ''#/furniture'' CONTENT_LAYER_FURNITURE, dc_groups = [], dc_texts = [],
     dc_pictures = [], dc_tables = [], dc_media = \<lparr>mm_codec = None, mm_duration_ms = None, mm_speakers = []\<rparr>,
     dc_source_language = None\<rparr>"

definition document_fold_new :: "string \<Rightarrow> string \<Rightarrow> bool \<Rightarrow> document_fold" where
  "document_fold_new model version word_provenance = \<lparr>df_document = document_new, df_model = model,
     df_version = version, df_word_provenance = word_provenance, df_finished = False\<rparr>"

definition set_source :: "string \<Rightarrow> string \<Rightarrow> nat \<Rightarrow> document_fold \<Rightarrow> document_fold" where
  "set_source filename mimetype binary_hash f = f\<lparr>df_document := (df_document f)\<lparr>dc_name := filename,
     dc_origin := Some \<lparr>og_filename = filename, og_mimetype = mimetype, og_binary_hash = binary_hash\<rparr>\<rparr>\<rparr>"

definition time_span :: "double_ops \<Rightarrow> nat \<Rightarrow> nat \<Rightarrow> string \<Rightarrow> time_span_message" where
  "time_span D start_ms end_ms speaker =
     \<lparr>sp_start_ms = dbl_of_uint D start_ms, sp_end_ms = dbl_of_uint D end_ms, sp_speaker = speaker\<rparr>"

definition stamp_sources :: "double_ops \<Rightarrow> document_fold \<Rightarrow> dbl \<Rightarrow> dbl \<Rightarrow> f32 option \<Rightarrow> source_type list" where
  "stamp_sources D f start_seconds end_seconds score =
     [Track_source start_seconds (if dbl_gt D end_seconds start_seconds then end_seconds else dbl_add_ms D start_seconds),
      Collector \<lparr>cs_collector = ''asr'', cs_model = df_model f, cs_version = df_version f,
        cs_confidence = map_option (\<lambda>p. let c = dbl_exp D (dbl_of_float D p) in if dbl_gt D c (dbl_one D) then dbl_one D else c) score,
        cs_raw_score = map_option (dbl_of_float D) score,
        cs_raw_score_kind = map_option (\<lambda>_. ''avg_logprob'') score\<rparr>]"

definition register_speaker :: "string \<Rightarrow> document \<Rightarrow> document" where
  "register_speaker speaker d =
     (if speaker \<in> set (mm_speakers (dc_media d)) then d
      else d\<lparr>dc_media := (dc_media d)\<lparr>mm_speakers := mm_speakers (dc_media d) @ [speaker]\<rparr>\<rparr>)"

definition on_media_info :: "double_ops \<Rightarrow> media_info \<Rightarrow> document \<Rightarrow> document" where
  "on_media_info D info d =
     (let m0 = bm_custom_fields (dc_body_meta d);
          m1 = m0(''asr.audio_codec'' \<mapsto> String_value (mi_audio_codec info),
                  ''asr.sample_rate_hz'' \<mapsto> Number_value (dbl_of_uint D (mi_sample_rate_hz info)),
                  ''asr.channels'' \<mapsto> Number_value (dbl_of_uint D (mi_channels info)),
                  ''asr.has_video'' \<mapsto> Bool_value (mi_has_video info));
          m2 = (if mi_has_video info then m1(''asr.video_codec'' \<mapsto> String_value (mi_video_codec info)) else m1);
          m3 = (if mi_duration_ms info \<noteq> 0
                then m2(''asr.declared_duration_ms'' \<mapsto> Number_value (dbl_of_uint D (mi_duration_ms info))) else m2);
          v1 = (if mi_audio_codec info \<noteq> [] then (dc_media d)\<lparr>mm_codec := Some (mi_audio_codec info)\<rparr> else dc_media d);
          v2 = (if mi_duration_ms info \<noteq> 0 then v1\<lparr>mm_duration_ms := Some (dbl_of_uint D (mi_duration_ms info))\<rparr> else v1)
      in d\<lparr>dc_body_meta := (dc_body_meta d)\<lparr>bm_custom_fields := m3\<rparr>, dc_media := v2\<rparr>)"

text \<open>The two cursors of \<open>add_word_provenance\<close> and one entry per word.\<close>

fun word_provenance :: "double_ops \<Rightarrow> string \<Rightarrow> string \<Rightarrow> nat \<Rightarrow> nat \<Rightarrow> word_message list \<Rightarrow> provenance_item list" where
  "word_provenance D text speaker byte_cursor point_cursor [] = []"
| "word_provenance D text speaker byte_cursor point_cursor (w # ws) =
     (let time = time_span D (wm_start_ms w) (wm_end_ms w) speaker; needle = trimmed (wm_text w);
          unplaced = \<lparr>pv_time = time, pv_charspan = None\<rparr> in
      if needle = [] then unplaced # word_provenance D text speaker byte_cursor point_cursor ws
      else case find_from text needle byte_cursor of
        None \<Rightarrow> unplaced # word_provenance D text speaker byte_cursor point_cursor ws
      | Some at \<Rightarrow>
        let start = point_cursor + code_points text byte_cursor at;
            stop = start + code_points text at (at + length needle)
        in \<lparr>pv_time = time, pv_charspan = Some (start, stop)\<rparr>
           # word_provenance D text speaker (at + length needle) stop ws)"

definition text_ref :: "nat \<Rightarrow> string" where
  "text_ref n = ''#/texts/'' @ to_string n"

definition picture_ref :: "nat \<Rightarrow> string" where
  "picture_ref n = ''#/pictures/'' @ to_string n"

definition add_child :: "string \<Rightarrow> document \<Rightarrow> document" where
  "add_child ref d = d\<lparr>dc_body := (dc_body d)\<lparr>gr_children := gr_children (dc_body d) @ [ref]\<rparr>\<rparr>"

definition segment_item :: "double_ops \<Rightarrow> document_fold \<Rightarrow> string \<Rightarrow> segment_message \<Rightarrow> text_item_base" where
  "segment_item D f ref s =
     (let text = trimmed (sm_text s) in
      \<lparr>tb_self_ref = ref, tb_parent = Some ''#/body'', tb_children = [], tb_content_layer = CONTENT_LAYER_BODY,
       tb_orig = sm_text s, tb_text = text,
       tb_prov = \<lparr>pv_time = time_span D (sm_start_ms s) (sm_end_ms s) (sm_speaker_id s),
                  pv_charspan = Some (0, code_points text 0 (length text))\<rparr>
         # (if df_word_provenance f then word_provenance D text (sm_speaker_id s) 0 0 (sm_words s) else []),
       tb_source = stamp_sources D f (dbl_div_1000 D (dbl_of_uint D (sm_start_ms s)))
         (dbl_div_1000 D (dbl_of_uint D (sm_end_ms s))) (sm_avg_logprob s)\<rparr>)"

definition on_final_segment :: "double_ops \<Rightarrow> document_fold \<Rightarrow> segment_message \<Rightarrow> document \<Rightarrow> document" where
  "on_final_segment D f s d =
     (let ref = text_ref (length (dc_texts d));
          d1 = d\<lparr>dc_texts := dc_texts d @ [Text_item (segment_item D f ref s)]\<rparr>;
          d2 = (if sm_speaker_id s \<noteq> [] then register_speaker (sm_speaker_id s) d1 else d1)
      in add_child ref d2)"

definition keyframe_item :: "double_ops \<Rightarrow> document_fold \<Rightarrow> string \<Rightarrow> keyframe \<Rightarrow> picture_item" where
  "keyframe_item D f ref k =
     (let seconds = dbl_div_1000 D (dbl_of_uint D (kf_timestamp_ms k)) in
      \<lparr>pi_self_ref = ref, pi_parent = Some ''#/body'', pi_children = [], pi_content_layer = CONTENT_LAYER_BODY,
       pi_image = \<lparr>im_mimetype = ''image/png'', im_width = dbl_of_uint D (kf_width k),
         im_height = dbl_of_uint D (kf_height k), im_uri = ''keyframe:'' @ to_string (kf_timestamp_ms k)\<rparr>,
       pi_prov = [\<lparr>pv_time = time_span D (kf_timestamp_ms k) (kf_timestamp_ms k) [], pv_charspan = None\<rparr>],
       pi_source = stamp_sources D f seconds seconds None\<rparr>)"

definition on_keyframe :: "double_ops \<Rightarrow> document_fold \<Rightarrow> keyframe \<Rightarrow> document \<Rightarrow> document" where
  "on_keyframe D f k d =
     (let ref = picture_ref (length (dc_pictures d))
      in add_child ref (d\<lparr>dc_pictures := dc_pictures d @ [keyframe_item D f ref k]\<rparr>))"

definition on_complete :: "fold_env \<Rightarrow> transcript_complete \<Rightarrow> document \<Rightarrow> document" where
  "on_complete F c d =
     (let D = fe_doubles F;
          d1 = (if tc_language c \<noteq> []
                then d\<lparr>dc_body_meta := (dc_body_meta d)\<lparr>bm_language :=
                         Some \<lparr>lf_code = language_label (fe_parse_label F) (tc_language c), lf_code_raw = tc_language c,
                               lf_created_by = ''asr''\<rparr>\<rparr>,
                       dc_source_language := Some (tc_language c)\<rparr>
                else d);
          d2 = d1\<lparr>dc_body_meta := (dc_body_meta d1)\<lparr>bm_custom_fields :=
                 (bm_custom_fields (dc_body_meta d1))(''asr.duration_ms'' \<mapsto> Number_value (dbl_of_uint D (tc_duration_ms c)),
                    ''asr.token_count'' \<mapsto> Number_value (dbl_of_uint D (tc_token_count c)))\<rparr>\<rparr>
      in if tc_duration_ms c \<noteq> 0
         then d2\<lparr>dc_media := (dc_media d2)\<lparr>mm_duration_ms := Some (dbl_of_uint D (tc_duration_ms c))\<rparr>\<rparr> else d2)"

definition fold_consume :: "fold_env \<Rightarrow> transcribe_response \<Rightarrow> document_fold \<Rightarrow> document_fold" where
  "fold_consume F event f =
     (if df_finished f then f
      else case event of
        Media_info_event info \<Rightarrow> f\<lparr>df_document := on_media_info (fe_doubles F) info (df_document f)\<rparr>
      | Final_segment s \<Rightarrow> f\<lparr>df_document := on_final_segment (fe_doubles F) f s (df_document f)\<rparr>
      | Keyframe_event k \<Rightarrow> f\<lparr>df_document := on_keyframe (fe_doubles F) f k (df_document f)\<rparr>
      | Complete_event c \<Rightarrow> f\<lparr>df_document := on_complete F c (df_document f), df_finished := True\<rparr>
      | _ \<Rightarrow> f)"

section \<open>The structural self-check\<close>

record item_view =
  iv_self_ref :: string
  iv_parent_ref :: string
  iv_children :: "string list"

definition parent_text :: "string option \<Rightarrow> string" where
  "parent_text p = (case p of Some r \<Rightarrow> r | None \<Rightarrow> [])"

definition base_view :: "text_item_base \<Rightarrow> item_view" where
  "base_view b = \<lparr>iv_self_ref = tb_self_ref b, iv_parent_ref = parent_text (tb_parent b), iv_children = tb_children b\<rparr>"

fun text_view :: "base_text_item \<Rightarrow> item_view" where
  "text_view (Title_item b) = base_view b"
| "text_view (Section_header_item b) = base_view b"
| "text_view (List_item b) = base_view b"
| "text_view (Formula_item b) = base_view b"
| "text_view (Text_item b) = base_view b"
| "text_view (Field_heading_item b) = base_view b"
| "text_view (Field_value_item b) = base_view b"
| "text_view (Code_item c) =
     \<lparr>iv_self_ref = co_self_ref c, iv_parent_ref = parent_text (co_parent c), iv_children = co_children c\<rparr>"
| "text_view Item_not_set = \<lparr>iv_self_ref = [], iv_parent_ref = [], iv_children = []\<rparr>"

definition picture_view :: "picture_item \<Rightarrow> item_view" where
  "picture_view p = \<lparr>iv_self_ref = pi_self_ref p, iv_parent_ref = parent_text (pi_parent p), iv_children = pi_children p\<rparr>"

definition document_views :: "document \<Rightarrow> item_view list" where
  "document_views d =
     [\<lparr>iv_self_ref = gr_self_ref (dc_body d), iv_parent_ref = [], iv_children = gr_children (dc_body d)\<rparr>,
      \<lparr>iv_self_ref = gr_self_ref (dc_furniture d), iv_parent_ref = [], iv_children = gr_children (dc_furniture d)\<rparr>] @
     map (\<lambda>g. \<lparr>iv_self_ref = gr_self_ref g, iv_parent_ref = parent_text (gr_parent g), iv_children = gr_children g\<rparr>) (dc_groups d) @
     map text_view (dc_texts d) @
     map picture_view (dc_pictures d) @
     map (\<lambda>t. \<lparr>iv_self_ref = ta_self_ref t, iv_parent_ref = parent_text (ta_parent t), iv_children = ta_children t\<rparr>) (dc_tables d)"

text \<open>The first loop: the references seen, and each parent with a child it lists.\<close>

fun index_views :: "item_view list \<Rightarrow> string list \<Rightarrow> (string \<times> string) list \<Rightarrow> string list \<times> string list \<times> (string \<times> string) list" where
  "index_views [] refs kids = ([], refs, kids)"
| "index_views (v # vs) refs kids =
     (if iv_self_ref v = []
      then let (errors, r) = index_views vs refs kids in (''item with empty self_ref'' # errors, r)
      else let (errors, r) = index_views vs (List.insert (iv_self_ref v) refs)
                 (kids @ map (\<lambda>c. (iv_self_ref v, c)) (iv_children v))
           in ((if iv_self_ref v \<in> set refs then [''duplicate self_ref '' @ iv_self_ref v] else []) @ errors, r))"

definition link_errors :: "string list \<Rightarrow> (string \<times> string) list \<Rightarrow> item_view \<Rightarrow> string list" where
  "link_errors refs kids v =
     concat (map (\<lambda>c. if c \<in> set refs then [] else [iv_self_ref v @ '' lists unresolvable child '' @ c]) (iv_children v)) @
     (if iv_parent_ref v = [] then []
      else if iv_parent_ref v \<notin> set refs then [iv_self_ref v @ '' has unresolvable parent '' @ iv_parent_ref v]
      else if (iv_parent_ref v, iv_self_ref v) \<notin> set kids
      then [iv_parent_ref v @ '' does not list child '' @ iv_self_ref v] else [])"

definition document_integrity_errors :: "document \<Rightarrow> string list" where
  "document_integrity_errors d =
     (let (errors, refs, kids) = index_views (document_views d) [] []
      in errors @ concat (map (link_errors refs kids) (document_views d)))"

section \<open>Every prefix of the stream folds to a sound document\<close>

text \<open>The decimal text of a number determines it.\<close>

definition decimal_value :: "string \<Rightarrow> nat" where
  "decimal_value = foldl (\<lambda>v c. 10 * v + (of_char c - 48)) 0"

lemma decimal_value_to_string: "decimal_value (to_string n) = n"
proof (induction n rule: to_string.induct)
  case (1 n)
  have digit: "of_char (char_of (48 + d) :: char) - 48 = d" if "d < 10" for d :: nat
    using that by simp
  show ?case
  proof (cases "n < 10")
    case True
    then show ?thesis
      using digit [of n] by (subst to_string.simps) (simp add: decimal_value_def)
  next
    case False
    have "decimal_value (to_string n) = 10 * decimal_value (to_string (n div 10)) + n mod 10"
      using False digit [of "n mod 10"] by (subst to_string.simps) (simp add: decimal_value_def)
    with 1 False show ?thesis
      by simp
  qed
qed

lemma to_string_inject [simp]: "to_string m = to_string n \<longleftrightarrow> m = n"
  by (metis decimal_value_to_string)

lemma ref_inject [simp]:
  "text_ref m = text_ref n \<longleftrightarrow> m = n" "picture_ref m = picture_ref n \<longleftrightarrow> m = n"
  "text_ref m \<noteq> picture_ref n" "picture_ref m \<noteq> text_ref n"
  "text_ref m \<noteq> ''#/body''" "picture_ref m \<noteq> ''#/body''" "''#/body'' \<noteq> text_ref m" "''#/body'' \<noteq> picture_ref m"
  "text_ref m \<noteq> ''#/furniture''" "picture_ref m \<noteq> ''#/furniture''"
  "''#/furniture'' \<noteq> text_ref m" "''#/furniture'' \<noteq> picture_ref m"
  "text_ref m \<noteq> []" "picture_ref m \<noteq> []"
  by (simp_all add: text_ref_def picture_ref_def)

definition body_view :: "document \<Rightarrow> item_view" where
  "body_view d = \<lparr>iv_self_ref = ''#/body'', iv_parent_ref = [], iv_children = gr_children (dc_body d)\<rparr>"

definition leaf_view :: "string \<Rightarrow> item_view" where
  "leaf_view ref = \<lparr>iv_self_ref = ref, iv_parent_ref = ''#/body'', iv_children = []\<rparr>"

definition item_refs :: "document \<Rightarrow> string list" where
  "item_refs d = map text_ref [0..<length (dc_texts d)] @ map picture_ref [0..<length (dc_pictures d)]"

text \<open>The fold's own documents: leaves in two arenas, all of them children of the body.\<close>

definition document_ok :: "document \<Rightarrow> bool" where
  "document_ok d \<longleftrightarrow> gr_self_ref (dc_body d) = ''#/body'' \<and> dc_groups d = [] \<and> dc_tables d = [] \<and>
     gr_self_ref (dc_furniture d) = ''#/furniture'' \<and> gr_children (dc_furniture d) = [] \<and>
     map text_view (dc_texts d) = map (\<lambda>i. leaf_view (text_ref i)) [0..<length (dc_texts d)] \<and>
     map picture_view (dc_pictures d) = map (\<lambda>i. leaf_view (picture_ref i)) [0..<length (dc_pictures d)] \<and>
     set (gr_children (dc_body d)) = set (item_refs d)"

definition furniture_view :: item_view where
  "furniture_view = \<lparr>iv_self_ref = ''#/furniture'', iv_parent_ref = [], iv_children = []\<rparr>"

lemma document_ok_views:
  assumes "document_ok d"
  shows "document_views d = [body_view d, furniture_view] @ map leaf_view (item_refs d)"
proof -
  have "map leaf_view (item_refs d) = map text_view (dc_texts d) @ map picture_view (dc_pictures d)"
    using assms by (simp add: document_ok_def item_refs_def comp_def)
  then show ?thesis
    using assms by (simp add: document_ok_def document_views_def body_view_def furniture_view_def)
qed

lemma index_views_ok:
  assumes "\<forall>v \<in> set vs. iv_self_ref v \<noteq> []" "distinct (map iv_self_ref vs)" "set refs \<inter> iv_self_ref ` set vs = {}"
  shows "\<exists>r k. index_views vs refs kids = ([], r, k) \<and> set r = set refs \<union> iv_self_ref ` set vs \<and>
    set k = set kids \<union> {(iv_self_ref v, c) | v c. v \<in> set vs \<and> c \<in> set (iv_children v)}"
  using assms
proof (induction vs arbitrary: refs kids)
  case (Cons v vs)
  let ?refs = "List.insert (iv_self_ref v) refs" and ?kids = "kids @ map (\<lambda>c. (iv_self_ref v, c)) (iv_children v)"
  have "set ?refs \<inter> iv_self_ref ` set vs = {}"
    using Cons.prems(2,3) by auto
  then obtain r k where rk: "index_views vs ?refs ?kids = ([], r, k)" "set r = set ?refs \<union> iv_self_ref ` set vs"
    "set k = set ?kids \<union> {(iv_self_ref v, c) | v c. v \<in> set vs \<and> c \<in> set (iv_children v)}"
    using Cons.IH [of ?refs ?kids] Cons.prems(1,2) by auto
  moreover have "iv_self_ref v \<notin> set refs" "iv_self_ref v \<noteq> []"
    using Cons.prems by auto
  ultimately have "index_views (v # vs) refs kids = ([], r, k)"
    by simp
  moreover have "set r = set refs \<union> iv_self_ref ` set (v # vs)"
    using rk(2) by auto
  moreover have "set k = set kids \<union> {(iv_self_ref u, c) | u c. u \<in> set (v # vs) \<and> c \<in> set (iv_children u)}"
    unfolding rk(3) by auto
  ultimately show ?case
    by blast
qed simp

lemma item_refs_distinct: "distinct (item_refs d)"
  by (auto simp: item_refs_def distinct_map inj_on_def)

lemma document_ok_sound:
  assumes "document_ok d"
  shows "document_integrity_errors d = []"
proof -
  let ?vs = "document_views d"
  note views = document_ok_views [OF assms]
  have kids: "set (gr_children (dc_body d)) = set (item_refs d)"
    using assms by (simp add: document_ok_def)
  have refs: "\<forall>r \<in> set (item_refs d). r \<noteq> [] \<and> r \<noteq> ''#/body'' \<and> r \<noteq> ''#/furniture''"
    by (auto simp: item_refs_def)
  have selfs: "map iv_self_ref ?vs = ''#/body'' # ''#/furniture'' # item_refs d"
    by (simp add: views body_view_def furniture_view_def leaf_view_def comp_def)
  have self_set: "iv_self_ref ` set ?vs = {''#/body'', ''#/furniture''} \<union> set (item_refs d)"
    using arg_cong [OF selfs, of set] by simp
  have "\<forall>v \<in> set ?vs. iv_self_ref v \<noteq> []"
    using refs self_set by (metis (no_types, lifting) Un_iff imageI insert_iff list.distinct(1) empty_iff)
  moreover have "distinct (map iv_self_ref ?vs)"
    using refs item_refs_distinct by (auto simp: selfs)
  ultimately obtain r k where rk: "index_views ?vs [] [] = ([], r, k)"
    "set r = iv_self_ref ` set ?vs" "set k = {(iv_self_ref v, c) | v c. v \<in> set ?vs \<and> c \<in> set (iv_children v)}"
    using index_views_ok [of ?vs "[]" "[]"] by auto
  have listed: "(''#/body'', c) \<in> set k" if "c \<in> set (item_refs d)" for c
  proof -
    have "body_view d \<in> set ?vs" "c \<in> set (iv_children (body_view d))" "iv_self_ref (body_view d) = ''#/body''"
      using that by (simp_all add: views body_view_def kids)
    then show ?thesis
      unfolding rk(3) by force
  qed
  have resolved: "set r = {''#/body'', ''#/furniture''} \<union> set (item_refs d)"
    using rk(2) self_set by simp
  have "link_errors r k v = []" if v: "v \<in> set ?vs" for v
  proof -
    from v consider "v = body_view d" | "v = furniture_view" | c where "v = leaf_view c" "c \<in> set (item_refs d)"
      unfolding views by auto
    then show ?thesis
    proof cases
      case 1
      then show ?thesis
        by (simp add: link_errors_def body_view_def resolved kids)
    next
      case 2
      then show ?thesis
        by (simp add: link_errors_def furniture_view_def)
    next
      case 3
      then show ?thesis
        using listed by (simp add: link_errors_def leaf_view_def resolved)
    qed
  qed
  then show ?thesis
    by (simp add: document_integrity_errors_def rk(1))
qed

lemma document_ok_frame:
  assumes "document_ok d" "dc_body d' = dc_body d" "dc_furniture d' = dc_furniture d" "dc_groups d' = dc_groups d"
    "dc_texts d' = dc_texts d" "dc_pictures d' = dc_pictures d" "dc_tables d' = dc_tables d"
  shows "document_ok d'"
  using assms by (simp add: document_ok_def item_refs_def)

lemma document_new_ok: "document_ok document_new"
  by (simp add: document_ok_def document_new_def item_refs_def group_new_def)

text \<open>Adding a leaf that names itself and the body keeps the document sound.\<close>

lemma add_text_ok:
  assumes "document_ok d" "text_view t = leaf_view (text_ref (length (dc_texts d)))"
  shows "document_ok (add_child (text_ref (length (dc_texts d))) (d\<lparr>dc_texts := dc_texts d @ [t]\<rparr>))"
  using assms by (auto simp: document_ok_def add_child_def item_refs_def)

lemma add_picture_ok:
  assumes "document_ok d" "picture_view p = leaf_view (picture_ref (length (dc_pictures d)))"
  shows "document_ok (add_child (picture_ref (length (dc_pictures d))) (d\<lparr>dc_pictures := dc_pictures d @ [p]\<rparr>))"
  using assms by (auto simp: document_ok_def add_child_def item_refs_def)

lemma fold_consume_ok:
  assumes "document_ok (df_document f)"
  shows "document_ok (df_document (fold_consume F e f))"
proof (cases e)
  case (Media_info_event info)
  have "document_ok (on_media_info D info d)" if "document_ok d" for D d
    by (rule document_ok_frame [OF that]) (simp_all add: on_media_info_def Let_def)
  with assms show ?thesis
    by (simp add: fold_consume_def Media_info_event)
next
  case (Final_segment sg)
  have "document_ok (on_final_segment D f sg d)" if "document_ok d" for D d
  proof -
    let ?ref = "text_ref (length (dc_texts d))"
    have "document_ok (add_child ?ref (d\<lparr>dc_texts := dc_texts d @ [Text_item (segment_item D f ?ref sg)]\<rparr>))"
      using that by (rule add_text_ok) (simp add: segment_item_def Let_def base_view_def leaf_view_def parent_text_def)
    then show ?thesis
      by (rule document_ok_frame) (simp_all add: on_final_segment_def Let_def add_child_def register_speaker_def)
  qed
  with assms show ?thesis
    by (simp add: fold_consume_def Final_segment)
next
  case (Keyframe_event k)
  have "document_ok (on_keyframe D f k d)" if "document_ok d" for D d
    unfolding on_keyframe_def Let_def
    using that by (rule add_picture_ok) (simp add: keyframe_item_def Let_def picture_view_def leaf_view_def parent_text_def)
  with assms show ?thesis
    by (simp add: fold_consume_def Keyframe_event)
next
  case (Complete_event c)
  have "document_ok (on_complete F c d)" if "document_ok d" for d
    by (rule document_ok_frame [OF that]) (simp_all add: on_complete_def Let_def)
  with assms show ?thesis
    by (simp add: fold_consume_def Complete_event)
qed (use assms in \<open>simp_all add: fold_consume_def\<close>)

interpretation document_fold: invariant_machine "fold_consume F" "\<lambda>f. document_ok (df_document f)" for F
  by unfold_locales (rule fold_consume_ok)

text \<open>C12: the Document is structurally sound after every event: whatever the stream carries and
  wherever it stops, the self-check reports nothing - references are unique and resolve, and
  every item is listed by its parent.\<close>

theorem document_fold_sound:
  "document_integrity_errors (df_document (fold (fold_consume F) events (document_fold_new model version words))) = []"
proof -
  have "document_ok (df_document (document_fold_new model version words))"
    by (simp add: document_fold_new_def document_new_ok)
  then show ?thesis
    by (intro document_ok_sound document_fold.fold_inv)
qed

section \<open>What the document holds\<close>

text \<open>The final segments and the keyframes of a stream up to its trailer.\<close>

fun final_segments :: "transcribe_response list \<Rightarrow> segment_message list" where
  "final_segments [] = []"
| "final_segments (Final_segment s # es) = s # final_segments es"
| "final_segments (Complete_event c # es) = []"
| "final_segments (_ # es) = final_segments es"

fun keyframes :: "transcribe_response list \<Rightarrow> keyframe list" where
  "keyframes [] = []"
| "keyframes (Keyframe_event k # es) = k # keyframes es"
| "keyframes (Complete_event c # es) = []"
| "keyframes (_ # es) = keyframes es"

definition text_items :: "double_ops \<Rightarrow> document_fold \<Rightarrow> segment_message list \<Rightarrow> base_text_item list" where
  "text_items D f ss = map (\<lambda>(i, s). Text_item (segment_item D f (text_ref i) s)) (enumerate 0 ss)"

definition picture_items :: "double_ops \<Rightarrow> document_fold \<Rightarrow> keyframe list \<Rightarrow> picture_item list" where
  "picture_items D f ks = map (\<lambda>(i, k). keyframe_item D f (picture_ref i) k) (enumerate 0 ks)"

definition same_identity :: "document_fold \<Rightarrow> document_fold \<Rightarrow> bool" where
  "same_identity f g \<longleftrightarrow> df_model f = df_model g \<and> df_version f = df_version g \<and> df_word_provenance f = df_word_provenance g"

lemma items_cong:
  assumes "same_identity f g"
  shows "segment_item D f = segment_item D g" "keyframe_item D f = keyframe_item D g"
  using assms by (simp_all add: fun_eq_iff same_identity_def segment_item_def keyframe_item_def stamp_sources_def)

lemma items_append:
  "text_items D f (ss @ [s]) = text_items D f ss @ [Text_item (segment_item D f (text_ref (length ss)) s)]"
  "picture_items D f (ks @ [k]) = picture_items D f ks @ [keyframe_item D f (picture_ref (length ks)) k]"
  by (simp_all add: text_items_def picture_items_def enumerate_append_eq)

lemma items_length [simp]: "length (text_items D f ss) = length ss" "length (picture_items D f ks) = length ks"
  by (simp_all add: text_items_def picture_items_def)

lemma fold_consume_simps:
  "\<not> df_finished f \<Longrightarrow> fold_consume F (Final_segment s) f = f\<lparr>df_document := on_final_segment (fe_doubles F) f s (df_document f)\<rparr>"
  "\<not> df_finished f \<Longrightarrow> fold_consume F (Keyframe_event k) f = f\<lparr>df_document := on_keyframe (fe_doubles F) f k (df_document f)\<rparr>"
  "\<not> df_finished f \<Longrightarrow> fold_consume F (Complete_event c) f = f\<lparr>df_document := on_complete F c (df_document f), df_finished := True\<rparr>"
  "\<not> df_finished f \<Longrightarrow> fold_consume F (Media_info_event i) f = f\<lparr>df_document := on_media_info (fe_doubles F) i (df_document f)\<rparr>"
  "fold_consume F (Partial_segment p) f = f" "fold_consume F (Document_event d) f = f" "fold_consume F Event_not_set f = f"
  by (simp_all add: fold_consume_def)

lemma finished_fold: "df_finished f \<Longrightarrow> fold (fold_consume F) es f = f"
  by (induction es) (simp_all add: fold_consume_def)

lemma on_simps [simp]:
  "dc_texts (on_media_info D info d) = dc_texts d" "dc_pictures (on_media_info D info d) = dc_pictures d"
  "dc_texts (on_complete F c d) = dc_texts d" "dc_pictures (on_complete F c d) = dc_pictures d"
  "dc_texts (on_final_segment D f s d) = dc_texts d @ [Text_item (segment_item D f (text_ref (length (dc_texts d))) s)]"
  "dc_pictures (on_final_segment D f s d) = dc_pictures d"
  "dc_texts (on_keyframe D f k d) = dc_texts d"
  "dc_pictures (on_keyframe D f k d) = dc_pictures d @ [keyframe_item D f (picture_ref (length (dc_pictures d))) k]"
  by (simp_all add: on_media_info_def on_complete_def on_final_segment_def on_keyframe_def add_child_def
      register_speaker_def Let_def)

lemma document_fold_items:
  assumes "same_identity f g" "\<not> df_finished f" "dc_texts (df_document f) = text_items (fe_doubles F) g ss"
    "dc_pictures (df_document f) = picture_items (fe_doubles F) g ks"
  shows "dc_texts (df_document (fold (fold_consume F) es f)) = text_items (fe_doubles F) g (ss @ final_segments es) \<and>
    dc_pictures (df_document (fold (fold_consume F) es f)) = picture_items (fe_doubles F) g (ks @ keyframes es)"
  using assms
proof (induction es arbitrary: f ss ks)
  case (Cons e es)
  note same = items_cong [OF Cons.prems(1)]
  show ?case
  proof (cases e)
    case (Final_segment s)
    with Cons.prems Cons.IH [of "fold_consume F e f" "ss @ [s]" ks] show ?thesis
      by (simp add: fold_consume_simps same_identity_def items_append same)
  next
    case (Keyframe_event k)
    with Cons.prems Cons.IH [of "fold_consume F e f" ss "ks @ [k]"] show ?thesis
      by (simp add: fold_consume_simps same_identity_def items_append same)
  next
    case (Complete_event c)
    with Cons.prems show ?thesis
      by (simp add: fold_consume_simps finished_fold)
  qed (use Cons.prems Cons.IH [of "fold_consume F e f" ss ks] in \<open>simp_all add: fold_consume_simps same_identity_def\<close>)
qed simp

text \<open>C19: the Document is complete and ordered: its texts are exactly the final segments of the
  stream up to the trailer, and its pictures exactly the keyframes, each in stream order under
  its number; partial segments, and anything after the trailer, leave no trace.\<close>

theorem document_fold_complete:
  "dc_texts (df_document (fold (fold_consume F) events (document_fold_new model version words))) =
     text_items (fe_doubles F) (document_fold_new model version words) (final_segments events) \<and>
   dc_pictures (df_document (fold (fold_consume F) events (document_fold_new model version words))) =
     picture_items (fe_doubles F) (document_fold_new model version words) (keyframes events)"
  using document_fold_items [of "document_fold_new model version words" "document_fold_new model version words" F "[]" "[]" events]
  by (simp add: same_identity_def document_fold_new_def document_new_def text_items_def picture_items_def)

section \<open>Word spans\<close>

lemma code_points_split:
  assumes "a \<le> b"
  shows "code_points t 0 a + code_points t a b = code_points t 0 b"
proof -
  have "take b t = take a t @ take (b - a) (drop a t)"
    using assms by (simp add: take_slice_append)
  then show ?thesis
    by (simp add: code_points_def)
qed

lemma find_from_Some:
  assumes "find_from text needle from = Some at"
  shows "from \<le> at" "at + length needle \<le> length text" "take (length needle) (drop at text) = needle"
  using assms by (auto simp: find_from_def find_Some_iff)

text \<open>The word an entry locates, as a piece of the text.\<close>

definition placed_at :: "string \<Rightarrow> word_message \<Rightarrow> nat \<Rightarrow> nat \<times> nat \<Rightarrow> bool" where
  "placed_at text w at span \<longleftrightarrow>
     take (length (trimmed (wm_text w))) (drop at text) = trimmed (wm_text w) \<and>
     span = (code_points text 0 at, code_points text 0 (at + length (trimmed (wm_text w))))"

lemma word_provenance_placed:
  assumes "p = code_points text 0 b"
  shows "list_all2 (\<lambda>w e. \<forall>span. pv_charspan e = Some span \<longrightarrow> (\<exists>at \<ge> b. placed_at text w at span)) ws
      (word_provenance D text speaker b p ws)"
  using assms
proof (induction ws arbitrary: b p)
  case (Cons w ws)
  let ?needle = "trimmed (wm_text w)"
  have weaken: "list_all2 (\<lambda>w e. \<forall>span. pv_charspan e = Some span \<longrightarrow> (\<exists>at \<ge> b. placed_at text w at span)) ws es"
    if "list_all2 (\<lambda>w e. \<forall>span. pv_charspan e = Some span \<longrightarrow> (\<exists>at \<ge> b'. placed_at text w at span)) ws es" "b \<le> b'" for es b'
    using that(1) by (rule list_all2_mono) (use that(2) le_trans in blast)
  show ?case
  proof (cases "?needle = [] \<or> find_from text ?needle b = None")
    case True
    with Cons show ?thesis
      by (auto simp: Let_def)
  next
    case False
    then obtain at where at: "find_from text ?needle b = Some at" and ne: "?needle \<noteq> []"
      by auto
    note f = find_from_Some [OF at]
    have start: "p + code_points text b at = code_points text 0 at"
      using code_points_split [OF f(1)] by (simp add: Cons.prems)
    have stop: "code_points text 0 at + code_points text at (at + length ?needle) = code_points text 0 (at + length ?needle)"
      by (rule code_points_split) simp
    have "placed_at text w at (code_points text 0 at, code_points text 0 (at + length ?needle))"
      using f(3) by (simp add: placed_at_def)
    moreover have "b \<le> at + length ?needle"
      using f(1) by simp
    ultimately show ?thesis
      using at ne f(1) weaken [OF Cons.IH [OF refl]] by (auto simp: Let_def start stop)
  qed
qed simp

definition charspans :: "provenance_item list \<Rightarrow> (nat \<times> nat) list" where
  "charspans es = concat (map (\<lambda>e. case pv_charspan e of Some s \<Rightarrow> [s] | None \<Rightarrow> []) es)"

lemma word_provenance_ordered:
  "sorted_wrt (\<lambda>s t. snd s \<le> fst t) (charspans (word_provenance D text speaker b p ws)) \<and>
   (\<forall>s \<in> set (charspans (word_provenance D text speaker b p ws)). p \<le> fst s \<and> fst s \<le> snd s)"
proof (induction ws arbitrary: b p)
  case (Cons w ws)
  let ?needle = "trimmed (wm_text w)"
  show ?case
  proof (cases "?needle = [] \<or> find_from text ?needle b = None")
    case True
    with Cons show ?thesis
      by (auto simp: Let_def charspans_def)
  next
    case False
    then obtain at where at: "find_from text ?needle b = Some at" "?needle \<noteq> []"
      by auto
    define start where "start = p + code_points text b at"
    define stop where "stop = start + code_points text at (at + length ?needle)"
    have "charspans (word_provenance D text speaker b p (w # ws)) =
        (start, stop) # charspans (word_provenance D text speaker (at + length ?needle) stop ws)"
      using at by (simp add: charspans_def start_def stop_def Let_def)
    moreover have "p \<le> start" "start \<le> stop"
      by (simp_all add: start_def stop_def)
    ultimately show ?thesis
      using Cons.IH [of "at + length ?needle" stop] by auto
  qed
qed (simp add: charspans_def)

text \<open>Word spans are right: of a final segment's item, every word entry that carries a span
  points at that word's own characters in the item's text, counted in code points, and the
  spans of successive words do not overlap.\<close>

theorem segment_word_spans:
  assumes "df_word_provenance f"
  shows "list_all2 (\<lambda>w e. \<forall>span. pv_charspan e = Some span \<longrightarrow> (\<exists>at. placed_at (trimmed (sm_text s)) w at span))
      (sm_words s) (tl (tb_prov (segment_item D f ref s))) \<and>
    sorted_wrt (\<lambda>s t. snd s \<le> fst t) (charspans (tl (tb_prov (segment_item D f ref s))))"
proof -
  let ?text = "trimmed (sm_text s)"
  have "list_all2 (\<lambda>w e. \<forall>span. pv_charspan e = Some span \<longrightarrow> (\<exists>at. placed_at ?text w at span)) (sm_words s)
      (word_provenance D ?text (sm_speaker_id s) 0 0 (sm_words s))"
    by (rule list_all2_mono [OF word_provenance_placed [of 0 ?text 0]]) (auto simp: code_points_def)
  then show ?thesis
    using assms word_provenance_ordered by (simp add: segment_item_def Let_def)
qed

theorem segment_word_spans_witness:
  "\<exists>D s f. df_word_provenance f \<and>
     list_all2 (\<lambda>w e. \<forall>span. pv_charspan e = Some span \<longrightarrow> (\<exists>at. placed_at (trimmed (sm_text s)) w at span))
       (sm_words s) (tl (tb_prov (segment_item D f [] s))) \<and>
     charspans (tl (tb_prov (segment_item D f [] s))) = [(0, 2)]"
proof -
  define s where "s = \<lparr>sm_index = 0, sm_start_ms = 0, sm_end_ms = 10, sm_text = '' hi'',
    sm_words = [\<lparr>wm_text = '' hi'', wm_start_ms = 0, wm_end_ms = 10, wm_probability = 0\<rparr>], sm_avg_logprob = None,
    sm_speaker_turn_next = False, sm_speaker_id = []\<rparr>"
  define D where "D = \<lparr>dbl_of_uint = \<lambda>_. 0, dbl_of_float = \<lambda>_. 0, dbl_div_1000 = \<lambda>x. x, dbl_add_ms = \<lambda>x. x,
    dbl_gt = \<lambda>_ _. False, dbl_exp = \<lambda>x. x, dbl_one = 0\<rparr>"
  let ?f = "document_fold_new [] [] True"
  have t: "trimmed '' hi'' = ''hi''" "find_from ''hi'' ''hi'' 0 = Some 0" "code_points ''hi'' 0 2 = 2" "code_points ''hi'' 0 0 = 0"
    by code_simp+
  have "charspans (tl (tb_prov (segment_item D ?f [] s))) = [(0, 2)]"
    using t by (simp add: charspans_def segment_item_def s_def document_fold_new_def numeral_2_eq_2 Let_def)
  moreover have "df_word_provenance ?f"
    by (simp add: document_fold_new_def)
  ultimately show ?thesis
    using segment_word_spans [of ?f s D "[]"] by blast
qed

end
