(* ===== verification/Locked_Writer.thy ===== *)
theory Locked_Writer
  imports Document_Fold Sniff Video_Demux
begin

text \<open>
  The response side of the collector's service (src/src/service/asr_service.cpp): the
  \<open>LockedWriter\<close> that the transcription and the keyframe thread share, the segment sink, and
  the keyframe thread. The mutex makes each write one step; the interleaving of the two threads
  is a schedule, how many stills the keyframe thread writes before each write of a segment.
  Whether a \<open>Write\<close> on the gRPC stream succeeds is up to the client: a function of its number.
\<close>

section \<open>The writer\<close>

record locked_writer =
  lw_accepts :: "nat \<Rightarrow> bool"
  lw_attempts :: nat
  lw_sent :: "transcribe_response list"
  lw_fold :: "document_fold option"
  lw_dead :: bool

definition writer_new :: "(nat \<Rightarrow> bool) \<Rightarrow> document_fold option \<Rightarrow> locked_writer" where
  "writer_new accepts f = \<lparr>lw_accepts = accepts, lw_attempts = 0, lw_sent = [], lw_fold = f, lw_dead = False\<rparr>"

definition write_locked :: "fold_env \<Rightarrow> transcribe_response \<Rightarrow> locked_writer \<Rightarrow> locked_writer \<times> bool" where
  "write_locked F response w =
     (let w1 = w\<lparr>lw_fold := map_option (fold_consume F response) (lw_fold w)\<rparr> in
      if lw_dead w1 then (w1, False)
      else if lw_accepts w1 (lw_attempts w1)
      then (w1\<lparr>lw_attempts := Suc (lw_attempts w1), lw_sent := lw_sent w1 @ [response]\<rparr>, True)
      else (w1\<lparr>lw_attempts := Suc (lw_attempts w1), lw_dead := True\<rparr>, False))"

definition folding :: "locked_writer \<Rightarrow> bool" where
  "folding w \<longleftrightarrow> lw_fold w \<noteq> None"

definition writer_set_source :: "string \<Rightarrow> string \<Rightarrow> nat \<Rightarrow> locked_writer \<Rightarrow> locked_writer" where
  "writer_set_source filename mimetype binary_hash w =
     w\<lparr>lw_fold := map_option (set_source filename mimetype binary_hash) (lw_fold w)\<rparr>"

definition writer_finish :: "fold_env \<Rightarrow> transcribe_response \<Rightarrow> locked_writer \<Rightarrow> locked_writer \<times> bool" where
  "writer_finish F trailer w =
     (case lw_fold w of
        None \<Rightarrow> write_locked F trailer w
      | Some f \<Rightarrow>
          (case write_locked F (Document_event (df_document (fold_consume F trailer f))) (w\<lparr>lw_fold := None\<rparr>) of
             (w1, False) \<Rightarrow> (w1, False)
           | (w1, True) \<Rightarrow> write_locked F trailer w1))"

section \<open>Messages\<close>

text \<open>FNV-1a over the encoded media.\<close>

definition content_hash :: "string \<Rightarrow> 64 word" where
  "content_hash bytes = foldl (\<lambda>h b. (h XOR of_char b) * 1099511628211) 14695981039346656037 bytes"

definition source_filename :: "string \<Rightarrow> media_family \<Rightarrow> string" where
  "source_filename requested family =
     (if requested = [] then ''media.'' @ family_name family
      else rev (takeWhile (\<lambda>c. c \<noteq> CHR ''/'') (rev requested)))"

definition word_message_of :: "engine_word \<Rightarrow> word_message" where
  "word_message_of w = \<lparr>wm_text = word_text w, wm_start_ms = word_start_ms w, wm_end_ms = word_end_ms w,
     wm_probability = word_probability w\<rparr>"

definition fill_segment :: "engine_segment \<Rightarrow> segment_message" where
  "fill_segment s = \<lparr>sm_index = seg_index s, sm_start_ms = seg_start_ms s, sm_end_ms = seg_end_ms s,
     sm_text = seg_text s, sm_words = map word_message_of (seg_words s),
     sm_avg_logprob = (if token_count s > 0 then Some (avg_logprob s) else None),
     sm_speaker_turn_next = speaker_turn_next s, sm_speaker_id = seg_speaker s\<rparr>"

section \<open>Two threads on one writer\<close>

text \<open>
  The shared output: the writer, what the keyframe thread has still to write with the answers
  its stop token will give, its count, and the schedule. \<open>so_segments\<close> is a history variable,
  the segments handed to the sink; no operation reads it.
\<close>

record stream_output =
  so_writer :: locked_writer
  so_frames :: "keyframe list"
  so_kf_stop :: "nat \<Rightarrow> bool"
  so_kf_polls :: nat
  so_kf_cut :: bool
  so_count :: nat
  so_schedule :: "nat list"
  so_segments :: "(engine_segment \<times> bool) list"

text \<open>One call of the keyframe callback; when it answers false the extraction ends.\<close>

definition keyframe_write :: "fold_env \<Rightarrow> stream_output \<Rightarrow> stream_output" where
  "keyframe_write F out =
     (case so_frames out of [] \<Rightarrow> out
      | k # ks \<Rightarrow>
        if so_kf_stop out (so_kf_polls out)
        then out\<lparr>so_frames := [], so_kf_polls := Suc (so_kf_polls out), so_kf_cut := True\<rparr>
        else (case write_locked F (Keyframe_event k) (so_writer out) of
            (w, True) \<Rightarrow> out\<lparr>so_writer := w, so_frames := ks, so_kf_polls := Suc (so_kf_polls out), so_count := u32 (so_count out + 1)\<rparr>
          | (w, False) \<Rightarrow> out\<lparr>so_writer := w, so_frames := [], so_kf_polls := Suc (so_kf_polls out), so_kf_cut := True\<rparr>))"

text \<open>The keyframe thread runs for the number of stills the schedule gives it.\<close>

definition keyframe_turn :: "fold_env \<Rightarrow> stream_output \<Rightarrow> stream_output" where
  "keyframe_turn F out =
     (case so_schedule out of [] \<Rightarrow> out | n # ns \<Rightarrow> (keyframe_write F ^^ n) (out\<lparr>so_schedule := ns\<rparr>))"

definition keyframe_join :: "fold_env \<Rightarrow> stream_output \<Rightarrow> stream_output" where
  "keyframe_join F out = (keyframe_write F ^^ length (so_frames out)) out"

text \<open>\<open>request_stop\<close> and the join: the stills that were already past the check still go out.\<close>

definition keyframe_abandon :: "fold_env \<Rightarrow> stream_output \<Rightarrow> stream_output" where
  "keyframe_abandon F out = (keyframe_turn F out)\<lparr>so_frames := [], so_kf_cut := True\<rparr>"

definition service_sink :: "fold_env \<Rightarrow> stream_output \<Rightarrow> engine_segment \<Rightarrow> bool \<Rightarrow> stream_output \<times> bool" where
  "service_sink F out segment is_final =
     (let out1 = keyframe_turn F out;
          (w, ok) = write_locked F (if is_final then Final_segment (fill_segment segment)
                                    else Partial_segment (fill_segment segment)) (so_writer out1)
      in (out1\<lparr>so_writer := w, so_segments := so_segments out1 @ [(segment, is_final)]\<rparr>, ok))"

section \<open>Facts about single writes\<close>

lemma write_locked_cases:
  obtains (sent) "\<not> lw_dead w"
      "write_locked F x w = (w\<lparr>lw_fold := map_option (fold_consume F x) (lw_fold w),
         lw_attempts := Suc (lw_attempts w), lw_sent := lw_sent w @ [x]\<rparr>, True)"
  | (failed) w' where "write_locked F x w = (w', False)" "lw_dead w'" "lw_sent w' = lw_sent w"
      "lw_fold w' = map_option (fold_consume F x) (lw_fold w)"
  by (cases "lw_dead w"; cases "lw_accepts w (lw_attempts w)") (auto simp: write_locked_def Let_def)

lemma keyframe_write_segments [simp]: "so_segments (keyframe_write F out) = so_segments out"
  by (auto simp: keyframe_write_def split: list.splits prod.splits bool.splits)

lemma keyframe_writes_segments [simp]: "so_segments ((keyframe_write F ^^ n) out) = so_segments out"
  by (induction n) simp_all

lemma keyframe_turn_segments [simp]: "so_segments (keyframe_turn F out) = so_segments out"
  by (simp add: keyframe_turn_def split: list.splits)

interpretation service_output: segment_sink "service_sink F" so_segments for F
  by unfold_locales (auto simp: service_sink_def Let_def split: prod.splits)

end
