(* ===== verification/Sink_Invariant.thy ===== *)
theory Sink_Invariant
  imports Transcriber
begin

text \<open>
  What the window loop keeps of its sink: the loop touches the sink's state only through the
  sink, so an invariant of the sink holds after a run, however the run ends.
\<close>

locale sink_invariant =
  fixes sink :: "'c \<Rightarrow> engine_segment \<Rightarrow> bool \<Rightarrow> 'c \<times> bool" and I :: "'c \<Rightarrow> bool"
  assumes sink_keeps: "I c \<Longrightarrow> I (fst (sink c seg fin))"
begin

lemma emit_partials_keeps:
  assumes "e_sink E = sink"
  shows "I (snd rc) \<Longrightarrow> I (snd (emit_partials E segs is rc))"
proof (induction "is" arbitrary: rc)
  case (Cons i "is")
  obtain run c where rc: "rc = (run, c)"
    by (cases rc)
  obtain c1 ok where snk: "sink c (read_segment E run segs i) False = (c1, ok)"
    by fastforce
  then have "I c1"
    using sink_keeps [of c "read_segment E run segs i" False] Cons.prems rc by simp
  then show ?case
    using Cons.IH [of "(if ok then run else run\<lparr>run_abort := True\<rparr>, c1)"] by (simp add: rc assms snk)
qed simp

lemma whisper_callbacks_keeps:
  assumes "e_sink E = sink"
  shows "I (snd rc) \<Longrightarrow> I (snd (fst (whisper_callbacks E tree rc)))"
proof (induction tree arbitrary: rc)
  case (Commit segs n k)
  then show ?case
    using emit_partials_keeps [OF assms] by (simp add: on_new_segment_def)
next
  case (Poll go halt)
  then show ?case
    by (cases rc) (auto simp: Let_def split: prod.splits)
qed simp

lemma finalize_segments_keeps:
  assumes "e_sink E = sink"
  shows "I (fst acc) \<Longrightarrow> I (fst (fst (finalize_segments E run segs is acc)))"
proof (induction "is" arbitrary: acc)
  case (Cons i "is")
  obtain c result turns where acc: "acc = (c, result, turns)"
    by (cases acc) auto
  with Cons show ?case
    using sink_keeps [of c "read_segment E run segs i" True] assms
    by (auto simp: Let_def split: prod.splits)
qed simp

lemma decode_window_keeps:
  assumes "e_sink E = sink" "I (t_sink s)"
  shows "I (t_sink (fst (decode_window E s)))"
  using whisper_callbacks_keeps [OF assms(1)] assms(2)
  by (auto simp: decode_window_def abort_result_def Let_def split: prod.splits) (metis fst_conv snd_conv)+

lemma finalize_window_keeps:
  assumes "e_sink E = sink" "I (t_sink s)"
  shows "I (t_sink (fst (finalize_window E s segs lang wcut)))"
  using finalize_segments_keeps [OF assms(1), of "(t_sink s, note_language E lang (t_result s), 0)" "t_run s" segs "[0 ..< nat (finalize wcut)]"] assms(2)
  by (auto simp: finalize_window_def Let_def split: prod.splits)

lemma process_window_keeps:
  assumes "e_sink E = sink" "I (t_sink s)"
  shows "I (t_sink (fst (process_window E s)))"
proof -
  let ?s = "s\<lparr>t_buffer := pad_window (t_source_done s) (t_buffer s)\<rparr>"
  obtain s2 f segs lang where d: "decode_window E ?s = (s2, f, segs, lang)"
    by (cases "decode_window E ?s") auto
  then have "I (t_sink s2)"
    using decode_window_keeps [OF assms(1), of ?s] assms(2) by simp
  then show ?thesis
    using finalize_window_keeps [OF assms(1), of s2 segs lang] d
    by (auto simp: process_window_def carry_tail_def Let_def split: prod.splits) (metis fst_conv)+
qed

lemma fill_window_sink: "t_sink (fst (fill_window E s)) = t_sink s"
proof (induction E s rule: fill_window.induct)
  case (1 E s)
  show ?case
    by (subst fill_window.simps)
      (use 1 in \<open>auto simp: abort_result_def Let_def split: prod.splits sum.splits\<close>)
qed

lemma transcribe_loop_keeps:
  assumes "e_sink E = sink"
  shows "I (t_sink s) \<Longrightarrow> transcribe_loop fuel E s = Some (s', f) \<Longrightarrow> I (t_sink s')"
proof (induction fuel arbitrary: s)
  case (Suc fuel)
  obtain s1 g where w: "transcribe_window E s = (s1, g)"
    by fastforce
  have "I (t_sink (fst (transcribe_window E s)))"
    using process_window_keeps [OF assms] fill_window_sink [of E s] Suc.prems(1)
    by (auto simp: transcribe_window_def Let_def split: prod.splits)
  with w have "I (t_sink s1)"
    by simp
  then show ?case
    using Suc w by (cases g) auto
qed simp

lemma transcriber_run_keeps:
  assumes "e_sink E = sink" "I c" "transcriber_run fuel E r c w = Some (s, res)"
  shows "I (t_sink s)"
proof -
  obtain s' f where loop: "transcribe_loop fuel E (transcription_new r c w) = Some (s', f)"
    using assms(3) by (auto simp: transcriber_run_def)
  then have "s' = s"
    using assms(3) by (cases f) (auto simp: transcriber_run_def)
  with transcribe_loop_keeps [OF assms(1) _ loop] assms(2) show ?thesis
    by (simp add: transcription_new_def)
qed

end

end
