(* ===== verification/Process_Stream.thy ===== *)
theory Process_Stream
  imports Locked_Writer Sink_Invariant Audio_Decoder Config Model_Pool
begin

text \<open>
  \<open>process_stream\<close> of src/src/service/asr_service.cpp, the pipeline a Transcribe call runs on its
  worker thread: sniff, probe, lease, transcribe, trailer, and the mapping of every exception to
  the status of the call. What the environment answers on the way is the record \<open>call_env\<close>:
  the upload as the worker finds it at each point, miniaudio, the media children, the lease, the
  stop token, whisper, and the schedule of the keyframe thread.
\<close>

section \<open>The environment of a call\<close>

text \<open>The places where \<open>gone()\<close> is asked.\<close>

datatype gone_point = After_upload | After_run | In_catch

record ('m, 'w, 'd) call_env =
  ce_fold_env :: fold_env
  ce_prefix_aborted :: bool
  ce_prefix :: string
  ce_complete_at_open :: bool
  ce_final_upload :: byte_stream
  ce_gone :: "gone_point \<Rightarrow> bool"
  ce_stop :: "nat \<Rightarrow> bool"
  ce_lease :: "exn + 'w"
  ce_miniaudio :: "'m miniaudio"
  ce_memfd :: "exn option"
  ce_stod_ms :: "string \<Rightarrow> exn + nat"
  ce_stoul :: "string \<Rightarrow> exn + nat"
  ce_run_query :: "string list \<Rightarrow> exn + string"
  ce_open_audio :: "exn + tool_process"
  ce_audio_exit :: "(string list \<times> bool) \<times> child_exit"
  ce_keyframe_chunks :: "string list"
  ce_keyframe_exit :: "int \<times> string"
  ce_keyframe_read_error :: "exn option"
  ce_keyframe_stop :: "nat \<Rightarrow> bool"
  ce_schedule :: "nat list"
  ce_whisper_full :: "'w \<Rightarrow> whisper_params \<Rightarrow> f32 list \<Rightarrow> 'w whisper_run"
  ce_token_eot :: int
  ce_lang_str :: "int \<Rightarrow> string"
  ce_double :: "'d \<times> ('d \<Rightarrow> f32 \<Rightarrow> 'd) \<times> ('d \<Rightarrow> nat \<Rightarrow> f32)"

section \<open>Running the transcriber\<close>

definition engine_options_of :: "config \<Rightarrow> transcribe_options \<Rightarrow> engine_options" where
  "engine_options_of cfg opts = \<lparr>eo_language = to_language opts, eo_translate = (to_task opts = 2),
     eo_word_timestamps = to_word_timestamps opts, eo_diarize = to_diarize opts, eo_threads = int (threads cfg),
     eo_window_seconds = window_seconds cfg, eo_max_duration_seconds = max_duration_seconds cfg\<rparr>"

definition service_engine ::
  "('m, 'w, 'd) call_env \<Rightarrow> config \<Rightarrow> transcribe_options \<Rightarrow> ('r \<Rightarrow> nat \<Rightarrow> 'r \<times> (exn + f32 list)) \<Rightarrow>
   (stream_output, 'r, 'w, 'd) engine" where
  "service_engine C cfg opts read = \<lparr>e_options = engine_options_of cfg opts, e_read = read,
     e_sink = service_sink (ce_fold_env C), e_stop = ce_stop C, e_whisper_full = ce_whisper_full C,
     e_token_eot = ce_token_eot C, e_lang_str = ce_lang_str C, e_double_zero = fst (ce_double C),
     e_double_add = fst (snd (ce_double C)), e_double_mean = snd (snd (ce_double C))\<rparr>"

definition output_new :: "locked_writer \<Rightarrow> keyframe list \<Rightarrow> (nat \<Rightarrow> bool) \<Rightarrow> nat list \<Rightarrow> stream_output" where
  "output_new w frames stop schedule = \<lparr>so_writer = w, so_frames = frames, so_kf_stop = stop, so_kf_polls = 0,
     so_kf_cut = False, so_count = 0, so_schedule = schedule, so_segments = []\<rparr>"

section \<open>The two paths\<close>

text \<open>
  How a path leaves the body of the try block: by an exception, by an early return, or with the
  transcription's result and the number of stills written.
\<close>

datatype path_end = Path_threw exn | Path_status status | Path_done engine_result nat

definition max_duration_ms :: "config \<Rightarrow> nat" where
  "max_duration_ms cfg = u64 (max_duration_seconds cfg * 1000)"

definition too_long :: "config \<Rightarrow> status" where
  "too_long cfg = Status RESOURCE_EXHAUSTED
     (''media duration exceeds GRPC_ASR_MAX_DURATION_SECONDS='' @ to_string (max_duration_seconds cfg))"

definition gone_status :: status where
  "gone_status = Status CANCELLED ''the stream went away mid-transcription''"

definition live_path ::
  "nat \<Rightarrow> ('m, 'w, 'd) call_env \<Rightarrow> config \<Rightarrow> transcribe_options \<Rightarrow> media_family \<Rightarrow> locked_writer \<Rightarrow>
   (stream_output \<times> path_end) option" where
  "live_path fuel C cfg opts family w =
     (let out = output_new w [] (\<lambda>_. False) [] in
      case audio_decoder_new (ce_miniaudio C) (family = kWav) (ce_complete_at_open C) of
        Inl e \<Rightarrow> Some (out, Path_threw e)
      | Inr (decoder, info) \<Rightarrow>
        if ai_duration_ms info > max_duration_ms cfg then Some (out, Path_status (too_long cfg))
        else
          (case write_locked (ce_fold_env C) (Media_info_event
              \<lparr>mi_duration_ms = ai_duration_ms info, mi_audio_codec = family_name family,
               mi_sample_rate_hz = ai_sample_rate_hz info, mi_channels = ai_channels info,
               mi_has_video = False, mi_video_codec = []\<rparr>) w of
             (w1, False) \<Rightarrow> Some (out\<lparr>so_writer := w1\<rparr>, Path_status gone_status)
           | (w1, True) \<Rightarrow>
             (case ce_lease C of
                Inl e \<Rightarrow> Some (out\<lparr>so_writer := w1\<rparr>, Path_threw e)
              | Inr state \<Rightarrow>
                map_option (\<lambda>(s, res). (t_sink s,
                    case res of Inl e \<Rightarrow> Path_threw e | Inr result \<Rightarrow> Path_done result 0))
                  (transcriber_run fuel (service_engine C cfg opts (audio_decoder_read (ce_miniaudio C)))
                     decoder (out\<lparr>so_writer := w1\<rparr>) state))))"

text \<open>The stills the extraction will offer, and the exception it ends with if none is refused;
  a read from the child may throw after the chunks it delivered.\<close>

definition record_keyframe :: "keyframe list \<Rightarrow> nat \<Rightarrow> nat \<Rightarrow> nat \<Rightarrow> string \<Rightarrow> keyframe list \<times> bool" where
  "record_keyframe ks timestamp width height png =
     (ks @ [\<lparr>kf_timestamp_ms = timestamp, kf_png = png, kf_width = width, kf_height = height\<rparr>], True)"

definition keyframe_plan ::
  "('m, 'w, 'd) call_env \<Rightarrow> config \<Rightarrow> transcribe_options \<Rightarrow> probe_info \<Rightarrow> keyframe list \<times> exn option" where
  "keyframe_plan C cfg opts info =
     (if to_emit_keyframes opts \<and> pi_has_video info
      then let interval = (if to_keyframe_interval_seconds opts \<noteq> 0 then to_keyframe_interval_seconds opts
                           else u32 (keyframe_interval_seconds cfg)) in
        (case ce_keyframe_read_error C of
           None \<Rightarrow> extract_keyframes record_keyframe (cfg_ffmpeg cfg) interval
             (ce_keyframe_chunks C) (fst (ce_keyframe_exit C)) (snd (ce_keyframe_exit C)) []
         | Some e \<Rightarrow>
           (case keyframe_loop record_keyframe interval (ce_keyframe_chunks C) ([], 0, []) of
              ((_, _, ks), Inl e') \<Rightarrow> (ks, Some e')
            | ((_, _, ks), Inr _) \<Rightarrow> (ks, Some e)))
      else ([], None))"

text \<open>After the run: the audio child, the join of the keyframe thread, its exception.\<close>

definition tool_finish ::
  "('m, 'w, 'd) call_env \<Rightarrow> config \<Rightarrow> exn option \<Rightarrow> tool_process demux_audio \<Rightarrow> stream_output \<Rightarrow> engine_result \<Rightarrow>
   stream_output \<times> path_end" where
  "tool_finish C cfg keyframe_error audio out result =
     (let F = ce_fold_env C in
      if er_aborted result
      then (let out1 = keyframe_abandon F out in (out1, Path_done result (so_count out1)))
      else
        (case close_audio (cfg_ffmpeg cfg) (fst (ce_audio_exit C)) (snd (ce_audio_exit C)) (Some audio) of
           Some e \<Rightarrow> (keyframe_abandon F out, Path_threw e)
         | None \<Rightarrow>
           (let out1 = keyframe_join F out in
            case (if so_kf_cut out1 then None else keyframe_error) of
              Some e \<Rightarrow> (out1, Path_threw e)
            | None \<Rightarrow> (out1, Path_done result (so_count out1)))))"

definition tool_path ::
  "nat \<Rightarrow> ('m, 'w, 'd) call_env \<Rightarrow> config \<Rightarrow> transcribe_options \<Rightarrow> locked_writer \<Rightarrow>
   (stream_output \<times> path_end) option" where
  "tool_path fuel C cfg opts w =
     (let F = ce_fold_env C; out = output_new w [] (\<lambda>_. False) [] in
      if ce_gone C After_upload then Some (out, Path_status (Status CANCELLED ''upload aborted''))
      else case ce_memfd C of Some e \<Rightarrow> Some (out, Path_threw e)
      | None \<Rightarrow>
        (case probe (ce_stod_ms C) (ce_stoul C) (ce_run_query C) (cfg_ffprobe cfg) of
           Inl e \<Rightarrow> Some (out, Path_threw e)
         | Inr info \<Rightarrow>
           if \<not> pi_has_audio info
           then Some (out, Path_status (Status INVALID_ARGUMENT ''the media has no audio track to transcribe''))
           else if pi_duration_ms info > max_duration_ms cfg then Some (out, Path_status (too_long cfg))
           else
             (case write_locked F (Media_info_event
                 \<lparr>mi_duration_ms = pi_duration_ms info, mi_audio_codec = pi_audio_codec info,
                  mi_sample_rate_hz = pi_sample_rate_hz info, mi_channels = pi_channels info,
                  mi_has_video = pi_has_video info, mi_video_codec = pi_video_codec info\<rparr>) w of
                (w1, False) \<Rightarrow> Some (out\<lparr>so_writer := w1\<rparr>, Path_status gone_status)
              | (w1, True) \<Rightarrow>
                (case ce_lease C of Inl e \<Rightarrow> Some (out\<lparr>so_writer := w1\<rparr>, Path_threw e)
                 | Inr state \<Rightarrow>
                   (let (frames, keyframe_error) = keyframe_plan C cfg opts info;
                        out1 = output_new w1 frames (ce_keyframe_stop C) (ce_schedule C) in
                    case ce_open_audio C of Inl e \<Rightarrow> Some (keyframe_abandon F out1, Path_threw e)
                    | Inr tool \<Rightarrow>
                      map_option (\<lambda>(s, res). case res of
                          Inl e \<Rightarrow> (keyframe_abandon F (t_sink s), Path_threw e)
                        | Inr result \<Rightarrow> tool_finish C cfg keyframe_error (t_source s) (t_sink s) result)
                        (transcriber_run fuel (service_engine C cfg opts video_read_audio)
                           \<lparr>da_tool = tool, da_partial = []\<rparr> out1 state))))))"

section \<open>The whole call\<close>

definition trailer_of :: "engine_result \<Rightarrow> nat \<Rightarrow> transcript_complete" where
  "trailer_of result stills = \<lparr>tc_language = er_language result, tc_duration_ms = er_duration_ms result,
     tc_segment_count = er_final_segments result, tc_token_count = er_tokens result, tc_keyframe_count = stills\<rparr>"

text \<open>From the result to the trailer; the number is what \<open>audio_ms\<close> grows by.\<close>

definition finish_call ::
  "('m, 'w, 'd) call_env \<Rightarrow> transcribe_options \<Rightarrow> media_family \<Rightarrow> locked_writer \<Rightarrow> engine_result \<Rightarrow> nat \<Rightarrow>
   locked_writer \<times> status \<times> nat" where
  "finish_call C opts family w result stills =
     (if er_aborted result \<or> ce_gone C After_run then (w, gone_status, 0)
      else
        let w1 = (if folding w
                  then writer_set_source (source_filename (to_filename opts) family) (family_mimetype family)
                    (if bs_complete (ce_final_upload C) then unat (content_hash (bs_bytes (ce_final_upload C))) else 0) w
                  else w)
        in case writer_finish (ce_fold_env C) (Complete_event (trailer_of result stills)) w1 of
             (w2, True) \<Rightarrow> (w2, Status OK [], er_duration_ms result)
           | (w2, False) \<Rightarrow> (w2, gone_status, 0))"

text \<open>The catch clauses, in the order of the code.\<close>

definition exn_text :: "exn \<Rightarrow> string" where
  "exn_text e = (case e of Failure _ m \<Rightarrow> m | Invalid_argument m \<Rightarrow> m | Logic_error m \<Rightarrow> m | Length_error m \<Rightarrow> m
     | Runtime_error m \<Rightarrow> m | Out_of_range m \<Rightarrow> m | Bad_alloc \<Rightarrow> ''std::bad_alloc'' | Cancelled m \<Rightarrow> m
     | Queue_timeout m \<Rightarrow> m | Decode_error m \<Rightarrow> m | Duration_cap_exceeded m \<Rightarrow> m | Tool_error m \<Rightarrow> m)"

definition status_of_exn :: "config \<Rightarrow> bool \<Rightarrow> exn \<Rightarrow> status" where
  "status_of_exn cfg gone e =
     (case e of
        Cancelled _ \<Rightarrow> gone_status
      | Queue_timeout m \<Rightarrow> Status RESOURCE_EXHAUSTED
          (m @ '' for GRPC_ASR_QUEUE_TIMEOUT_SECONDS='' @ to_string (queue_timeout_seconds cfg))
      | Decode_error m \<Rightarrow> if gone then Status CANCELLED ''upload aborted mid-decode'' else Status INVALID_ARGUMENT m
      | Duration_cap_exceeded m \<Rightarrow> Status RESOURCE_EXHAUSTED m
      | Tool_error m \<Rightarrow> if gone then gone_status else Status INTERNAL m
      | _ \<Rightarrow> if gone then gone_status else Status INTERNAL (''transcription failed: '' @ exn_text e))"

definition process_stream ::
  "nat \<Rightarrow> ('m, 'w, 'd) call_env \<Rightarrow> config \<Rightarrow> transcribe_options \<Rightarrow> locked_writer \<Rightarrow>
   (locked_writer \<times> status \<times> nat) option" where
  "process_stream fuel C cfg opts w =
     (if ce_prefix_aborted C then Some (w, Status CANCELLED ''upload aborted'', 0)
      else let family = sniff (ce_prefix C) in
        if family = kUnknown
        then Some (w, Status UNIMPLEMENTED
          ''unrecognized media container; supported: wav, mp3, flac, ogg, mp4/mov, mkv/webm'', 0)
        else map_option (\<lambda>(out, p). case p of
            Path_threw e \<Rightarrow> (so_writer out, status_of_exn cfg (ce_gone C In_catch) e, 0)
          | Path_status st \<Rightarrow> (so_writer out, st, 0)
          | Path_done result stills \<Rightarrow> finish_call C opts family (so_writer out) result stills)
          (if decodes_in_process family then live_path fuel C cfg opts family w else tool_path fuel C cfg opts w))"

end
