(* ===== verification/Stream_Protocol.thy ===== *)
theory Stream_Protocol
  imports Process_Stream
begin

text \<open>
  The protocol of a Transcribe call as its client sees it: what \<open>process_stream\<close> has written
  when it returns, on success and on failure, whatever the decoder, the media children, the
  client and the interleaving of the two threads did.
\<close>

section \<open>Progress events\<close>

definition is_segment :: "transcribe_response \<Rightarrow> bool" where
  "is_segment x = (case x of Partial_segment _ \<Rightarrow> True | Final_segment _ \<Rightarrow> True | _ \<Rightarrow> False)"

definition is_final_segment :: "transcribe_response \<Rightarrow> bool" where
  "is_final_segment x = (case x of Final_segment _ \<Rightarrow> True | _ \<Rightarrow> False)"

definition is_keyframe :: "transcribe_response \<Rightarrow> bool" where
  "is_keyframe x = (case x of Keyframe_event _ \<Rightarrow> True | _ \<Rightarrow> False)"

definition progress :: "transcribe_response \<Rightarrow> bool" where
  "progress x \<longleftrightarrow> is_segment x \<or> is_keyframe x"

definition segment_event :: "engine_segment \<times> bool \<Rightarrow> transcribe_response" where
  "segment_event p = (if snd p then Final_segment (fill_segment (fst p)) else Partial_segment (fill_segment (fst p)))"

lemma kinds_simps [simp]:
  "is_segment (Keyframe_event k) = False" "is_segment (segment_event p)" "is_keyframe (Keyframe_event k)"
  "is_keyframe (segment_event p) = False" "progress (segment_event p)" "progress (Keyframe_event k)"
  "is_final_segment (segment_event p) = snd p" "is_final_segment (Keyframe_event k) = False"
  by (simp_all add: is_segment_def is_keyframe_def is_final_segment_def progress_def segment_event_def)

text \<open>
  Since the media info: only segments and keyframes; and as long as no write has failed, all
  the segments the transcriber handed over, in order, the stills the counter says, and the
  Document folded from exactly what was sent.
\<close>

definition output_ok ::
  "fold_env \<Rightarrow> document_fold option \<Rightarrow> transcribe_response list \<Rightarrow> stream_output \<Rightarrow> bool" where
  "output_ok F f pre out \<longleftrightarrow>
     (\<exists>mids. lw_sent (so_writer out) = pre @ mids \<and> list_all progress mids \<and>
        (\<not> lw_dead (so_writer out) \<longrightarrow>
           filter is_segment mids = map segment_event (so_segments out) \<and>
           so_count out = u32 (length (filter is_keyframe mids)) \<and>
           lw_fold (so_writer out) = map_option (fold (fold_consume F) (pre @ mids)) f))"

lemma u32_Suc: "u32 (Suc (u32 n)) = u32 (Suc n)"
  by (simp add: u32_def mod_Suc_eq)

lemma keyframe_write_ok:
  assumes "output_ok F f pre out"
  shows "output_ok F f pre (keyframe_write F out)"
proof (cases "so_frames out = [] \<or> so_kf_stop out (so_kf_polls out)")
  case True
  then show ?thesis
    using assms by (auto simp: keyframe_write_def output_ok_def split: list.splits)
next
  case False
  then obtain k ks where fr: "so_frames out = k # ks" and run: "\<not> so_kf_stop out (so_kf_polls out)"
    by (auto simp: neq_Nil_conv)
  obtain mids where mids: "lw_sent (so_writer out) = pre @ mids" "list_all progress mids"
    "\<not> lw_dead (so_writer out) \<Longrightarrow> filter is_segment mids = map segment_event (so_segments out) \<and>
       so_count out = u32 (length (filter is_keyframe mids)) \<and>
       lw_fold (so_writer out) = map_option (fold (fold_consume F) (pre @ mids)) f"
    using assms by (auto simp: output_ok_def)
  show ?thesis
  proof (cases rule: write_locked_cases [of "so_writer out" F "Keyframe_event k"])
    case sent
    with mids(3) have "map_option (fold_consume F (Keyframe_event k)) (lw_fold (so_writer out)) =
        map_option (fold (fold_consume F) (pre @ mids @ [Keyframe_event k])) f"
      by (simp add: option.map_comp comp_def)
    with sent mids show ?thesis
      by (auto simp: output_ok_def keyframe_write_def fr run u32_Suc intro!: exI [of _ "mids @ [Keyframe_event k]"])
  next
    case (failed w')
    with mids show ?thesis
      by (auto simp: output_ok_def keyframe_write_def fr run)
  qed
qed

lemma keyframe_writes_ok: "output_ok F f pre out \<Longrightarrow> output_ok F f pre ((keyframe_write F ^^ n) out)"
  by (induction n) (simp_all add: keyframe_write_ok)

lemma output_ok_schedule [simp]:
  "output_ok F f pre (out\<lparr>so_schedule := ns\<rparr>) = output_ok F f pre out"
  "output_ok F f pre (out\<lparr>so_frames := ks, so_kf_cut := b\<rparr>) = output_ok F f pre out"
  by (simp_all add: output_ok_def)

lemma keyframe_thread_ok:
  assumes "output_ok F f pre out"
  shows "output_ok F f pre (keyframe_turn F out)" "output_ok F f pre (keyframe_join F out)"
    "output_ok F f pre (keyframe_abandon F out)"
  using assms by (auto simp: keyframe_turn_def keyframe_join_def keyframe_abandon_def keyframe_writes_ok split: list.splits)

lemma service_sink_ok:
  assumes "output_ok F f pre out"
  shows "output_ok F f pre (fst (service_sink F out segment is_final))"
proof -
  let ?out = "keyframe_turn F out" and ?x = "segment_event (segment, is_final)"
  have x: "(if is_final then Final_segment (fill_segment segment) else Partial_segment (fill_segment segment)) = ?x"
    by (simp add: segment_event_def)
  obtain mids where mids: "lw_sent (so_writer ?out) = pre @ mids" "list_all progress mids"
    "\<not> lw_dead (so_writer ?out) \<Longrightarrow> filter is_segment mids = map segment_event (so_segments ?out) \<and>
       so_count ?out = u32 (length (filter is_keyframe mids)) \<and>
       lw_fold (so_writer ?out) = map_option (fold (fold_consume F) (pre @ mids)) f"
    using keyframe_thread_ok(1) [OF assms] by (auto simp: output_ok_def)
  show ?thesis
  proof (cases rule: write_locked_cases [of "so_writer ?out" F ?x])
    case sent
    with mids(3) have "map_option (fold_consume F ?x) (lw_fold (so_writer ?out)) =
        map_option (fold (fold_consume F) (pre @ mids @ [?x])) f"
      by (simp add: option.map_comp comp_def)
    with sent mids show ?thesis
      by (auto simp: output_ok_def service_sink_def Let_def x intro!: exI [of _ "mids @ [?x]"])
  next
    case (failed w')
    with mids show ?thesis
      by (auto simp: output_ok_def service_sink_def Let_def x)
  qed
qed

interpretation service_sink: sink_invariant "service_sink F" "output_ok F f pre" for F f pre
  by unfold_locales (rule service_sink_ok)

lemma output_new_ok:
  assumes "lw_sent w = pre" "lw_fold w = map_option (fold (fold_consume F) pre) f" "\<not> lw_dead w"
  shows "output_ok F f pre (output_new w frames stop schedule)"
  using assms by (auto simp: output_ok_def output_new_def u32_def)

text \<open>Without a keyframe thread the counter stays at zero.\<close>

definition no_stills :: "stream_output \<Rightarrow> bool" where
  "no_stills out \<longleftrightarrow> so_frames out = [] \<and> so_count out = 0"

lemma no_stills_turn: "no_stills out \<Longrightarrow> no_stills (keyframe_turn F out)"
proof -
  have step: "no_stills o1 \<Longrightarrow> no_stills (keyframe_write F o1)" for o1
    by (simp add: no_stills_def keyframe_write_def)
  have "no_stills o1 \<Longrightarrow> no_stills ((keyframe_write F ^^ n) o1)" for n o1
    by (induction n) (simp_all add: step)
  then show "no_stills out \<Longrightarrow> no_stills (keyframe_turn F out)"
    by (auto simp: keyframe_turn_def no_stills_def split: list.splits)
qed

interpretation still_free: sink_invariant "service_sink F" no_stills for F
  by unfold_locales (use no_stills_turn in \<open>auto simp: service_sink_def no_stills_def Let_def split: prod.splits\<close>)

section \<open>The paths\<close>

definition is_media_info :: "transcribe_response \<Rightarrow> bool" where
  "is_media_info x = (case x of Media_info_event _ \<Rightarrow> True | _ \<Rightarrow> False)"

text \<open>What a path leaves: at most the media info and progress, and a result that counts it.\<close>

definition path_ok :: "fold_env \<Rightarrow> document_fold option \<Rightarrow> stream_output \<times> path_end \<Rightarrow> bool" where
  "path_ok F f op \<longleftrightarrow> (\<exists>pre. output_ok F f pre (fst op) \<and> list_all is_media_info pre \<and>
     (\<forall>result stills. snd op = Path_done result stills \<longrightarrow>
        (\<exists>info. pre = [Media_info_event info]) \<and> stills = so_count (fst op) \<and>
        er_final_segments result = u32 (n_finals (so_segments (fst op)))) \<and>
     (\<forall>st. snd op = Path_status st \<longrightarrow> \<not> status_ok st))"

lemma refusals_not_ok [simp]: "error_code (too_long cfg) = RESOURCE_EXHAUSTED" "error_code gone_status = CANCELLED"
  by (simp_all add: too_long_def gone_status_def)

lemma early_ok:
  "output_ok F f [] out \<Longrightarrow> path_ok F f (out, Path_threw e)"
  "output_ok F f [] out \<Longrightarrow> \<not> status_ok st \<Longrightarrow> path_ok F f (out, Path_status st)"
  "output_ok F f [Media_info_event info] out \<Longrightarrow> path_ok F f (out, Path_threw e)"
  by (auto simp: path_ok_def is_media_info_def intro: exI [of _ "[]"] exI [of _ "[Media_info_event info]"])

lemma service_engine_simps [simp]:
  "e_sink (service_engine C cfg opts read) = service_sink (ce_fold_env C)"
  "e_options (service_engine C cfg opts read) = engine_options_of cfg opts"
  "e_whisper_full (service_engine C cfg opts read) = ce_whisper_full C"
  "e_read (service_engine C cfg opts read) = read"
  by (simp_all add: service_engine_def)

lemma write_info_cases:
  assumes "\<not> lw_dead w" "lw_sent w = []" "lw_fold w = f"
  obtains (sent) w1 where "write_locked F (Media_info_event info) w = (w1, True)"
      "\<And>frames stop schedule. output_ok F f [Media_info_event info] (output_new w1 frames stop schedule)"
  | (failed) w1 where "write_locked F (Media_info_event info) w = (w1, False)"
      "\<And>frames stop schedule. output_ok F f [] (output_new w1 frames stop schedule)"
proof (cases rule: write_locked_cases [of w F "Media_info_event info"])
  case sent
  with assms have "output_ok F f [Media_info_event info] (output_new (fst (write_locked F (Media_info_event info) w)) frames stop schedule)"
    for frames stop schedule
    by (intro output_new_ok) simp_all
  with sent that(1) show ?thesis
    by simp
next
  case (failed w')
  then have "output_ok F f [] (output_new w' frames stop schedule)" for frames stop schedule
    using assms by (simp add: output_ok_def output_new_def)
  with failed that(2) show ?thesis
    by simp
qed

lemma fresh_output_ok:
  assumes "\<not> lw_dead w" "lw_sent w = []" "lw_fold w = f"
  shows "output_ok F f [] (output_new w frames stop schedule)"
  using assms by (intro output_new_ok) (simp_all add: option.map_id0 flip: id_def)

lemma output_new_writer [simp]: "(output_new w fr st sc)\<lparr>so_writer := w1\<rparr> = output_new w1 fr st sc"
  by (simp add: output_new_def)

lemma live_path_ok:
  assumes w: "\<not> lw_dead w" "lw_sent w = []" "lw_fold w = f"
    and sized: "\<And>w p b. run_sized (ce_whisper_full C w p b)"
    and res: "live_path fuel C cfg opts family w = Some op"
  shows "path_ok (ce_fold_env C) f op"
proof -
  let ?F = "ce_fold_env C" and ?out = "output_new w [] (\<lambda>_. False) []"
  note fresh = fresh_output_ok [OF w]
  show ?thesis
  proof (cases "audio_decoder_new (ce_miniaudio C) (family = kWav) (ce_complete_at_open C)")
    case (Inl e)
    with res fresh show ?thesis
      by (auto simp: live_path_def intro: early_ok)
  next
    case dec: (Inr p)
    obtain decoder info where p: "p = (decoder, info)"
      by (cases p)
    show ?thesis
    proof (cases "ai_duration_ms info > max_duration_ms cfg")
      case True
      with dec p res fresh show ?thesis
        by (auto simp: live_path_def intro: early_ok)
    next
      case short: False
      let ?info = "\<lparr>mi_duration_ms = ai_duration_ms info, mi_audio_codec = family_name family,
        mi_sample_rate_hz = ai_sample_rate_hz info, mi_channels = ai_channels info, mi_has_video = False, mi_video_codec = []\<rparr>"
      show ?thesis
      proof (cases rule: write_info_cases [OF w, of ?F ?info])
        case failed: (2 w1)
        with dec p short res show ?thesis
          by (auto simp: live_path_def intro: early_ok)
      next
        case sent: (1 w1)
        note one = sent(2) [of "[]" "\<lambda>_. False" "[]"]
        show ?thesis
        proof (cases "ce_lease C")
          case (Inl e)
          with dec p short sent(1) res one show ?thesis
            by (auto simp: live_path_def intro: early_ok)
        next
          case (Inr state)
          let ?E = "service_engine C cfg opts (audio_decoder_read (ce_miniaudio C))"
          let ?o = "output_new w1 [] (\<lambda>_. False) []"
          obtain s r where run: "transcriber_run fuel ?E decoder ?o state = Some (s, r)"
            and op: "op = (t_sink s, case r of Inl e \<Rightarrow> Path_threw e | Inr result \<Rightarrow> Path_done result 0)"
            using dec p short sent(1) res Inr by (auto simp: live_path_def)
          have out: "output_ok ?F f [Media_info_event ?info] (t_sink s)"
            using service_sink.transcriber_run_keeps [OF _ one run] by simp
          moreover have "no_stills (t_sink s)"
            using still_free.transcriber_run_keeps [OF _ _ run] by (simp add: no_stills_def output_new_def)
          moreover have "\<forall>result. r = Inr result \<longrightarrow> er_final_segments result = u32 (n_finals (so_segments (t_sink s)))"
            using service_output.transcriber_run_books [OF _ _ _ run] sized by (simp add: output_new_def)
          ultimately show ?thesis
            unfolding op path_ok_def
            by (intro exI [of _ "[Media_info_event ?info]"]) (auto simp: is_media_info_def no_stills_def split: sum.splits)
        qed
      qed
    qed
  qed
qed

lemma keyframe_thread_segments [simp]:
  "so_segments (keyframe_join F out) = so_segments out" "so_segments (keyframe_abandon F out) = so_segments out"
  by (simp_all add: keyframe_join_def keyframe_abandon_def)

lemma tool_finish_ok:
  assumes "output_ok (ce_fold_env C) f [Media_info_event info] out"
    "er_final_segments result = u32 (n_finals (so_segments out))"
  shows "path_ok (ce_fold_env C) f (tool_finish C cfg err audio out result)"
proof -
  let ?F = "ce_fold_env C"
  note ok = keyframe_thread_ok [OF assms(1)]
  have finished: "path_ok ?F f (o1, Path_done result (so_count o1))"
    if "output_ok ?F f [Media_info_event info] o1" "so_segments o1 = so_segments out" for o1
    using that assms(2) by (auto simp: path_ok_def is_media_info_def intro!: exI [of _ "[Media_info_event info]"])
  show ?thesis
    using finished [OF ok(2)] finished [OF ok(3)] early_ok(3) [OF ok(2)] early_ok(3) [OF ok(3)]
    by (auto simp: tool_finish_def Let_def split: option.splits)
qed

lemma tool_path_ok:
  assumes w: "\<not> lw_dead w" "lw_sent w = []" "lw_fold w = f"
    and sized: "\<And>w p b. run_sized (ce_whisper_full C w p b)"
    and res: "tool_path fuel C cfg opts w = Some op"
  shows "path_ok (ce_fold_env C) f op"
proof -
  let ?F = "ce_fold_env C"
  note fresh = fresh_output_ok [OF w]
  show ?thesis
  proof (cases "ce_gone C After_upload \<or> ce_memfd C \<noteq> None")
    case True
    with res fresh show ?thesis
      by (auto simp: tool_path_def Let_def intro: early_ok split: option.splits if_splits)
  next
    case up: False
    then have up': "\<not> ce_gone C After_upload" "ce_memfd C = None"
      by auto
    show ?thesis
    proof (cases "probe (ce_stod_ms C) (ce_stoul C) (ce_run_query C) (cfg_ffprobe cfg)")
      case (Inl e)
      with res up' fresh show ?thesis
        by (auto simp: tool_path_def Let_def intro: early_ok)
    next
      case pr: (Inr info)
      show ?thesis
      proof (cases "\<not> pi_has_audio info \<or> pi_duration_ms info > max_duration_ms cfg")
        case True
        with res up' pr fresh show ?thesis
          by (auto simp: tool_path_def Let_def intro: early_ok split: if_splits)
      next
        case False
        then have fits: "pi_has_audio info" "\<not> pi_duration_ms info > max_duration_ms cfg"
          by auto
        let ?info = "\<lparr>mi_duration_ms = pi_duration_ms info, mi_audio_codec = pi_audio_codec info,
          mi_sample_rate_hz = pi_sample_rate_hz info, mi_channels = pi_channels info,
          mi_has_video = pi_has_video info, mi_video_codec = pi_video_codec info\<rparr>"
        note known = up' pr fits
        show ?thesis
        proof (cases rule: write_info_cases [OF w, of ?F ?info])
          case failed: (2 w1)
          with known res show ?thesis
            by (auto simp: tool_path_def Let_def intro: early_ok)
        next
          case sent: (1 w1)
          show ?thesis
          proof (cases "ce_lease C")
            case (Inl e)
            with known res sent(1) sent(2) [of "[]" "\<lambda>_. False" "[]"] show ?thesis
              by (auto simp: tool_path_def Let_def intro: early_ok)
          next
            case (Inr state)
            obtain frames err where plan: "keyframe_plan C cfg opts info = (frames, err)"
              by fastforce
            let ?o = "output_new w1 frames (ce_keyframe_stop C) (ce_schedule C)"
            note one = sent(2) [of frames "ce_keyframe_stop C" "ce_schedule C"]
            show ?thesis
            proof (cases "ce_open_audio C")
              case (Inl e)
              with known res sent(1) Inr plan keyframe_thread_ok(3) [OF one] show ?thesis
                by (auto simp: tool_path_def Let_def intro: early_ok)
            next
              case tool: (Inr tool)
              let ?E = "service_engine C cfg opts video_read_audio"
              obtain s r where run: "transcriber_run fuel ?E \<lparr>da_tool = tool, da_partial = []\<rparr> ?o state = Some (s, r)"
                and op: "op = (case r of Inl e \<Rightarrow> (keyframe_abandon ?F (t_sink s), Path_threw e)
                    | Inr result \<Rightarrow> tool_finish C cfg err (t_source s) (t_sink s) result)"
                using known res sent(1) Inr plan tool by (auto simp: tool_path_def Let_def)
              have out: "output_ok ?F f [Media_info_event ?info] (t_sink s)"
                using service_sink.transcriber_run_keeps [OF _ one run] by simp
              moreover have "\<forall>result. r = Inr result \<longrightarrow> er_final_segments result = u32 (n_finals (so_segments (t_sink s)))"
                using service_output.transcriber_run_books [OF _ _ _ run] sized by (simp add: output_new_def)
              ultimately show ?thesis
                using early_ok(3) [OF keyframe_thread_ok(3) [OF out]] tool_finish_ok [OF out]
                by (auto simp: op split: sum.splits)
            qed
          qed
        qed
      qed
    qed
  qed
qed

section \<open>The call\<close>

definition is_complete :: "transcribe_response \<Rightarrow> bool" where
  "is_complete x = (case x of Complete_event _ \<Rightarrow> True | _ \<Rightarrow> False)"

lemma not_complete [simp]:
  "progress x \<Longrightarrow> \<not> is_complete x" "is_media_info x \<Longrightarrow> \<not> is_complete x" "\<not> is_complete (Document_event d)"
  "is_complete (Complete_event c)"
  by (auto simp: progress_def is_segment_def is_keyframe_def is_media_info_def is_complete_def split: transcribe_response.splits)

lemma output_ok_no_trailer:
  assumes "output_ok F f pre out" "list_all is_media_info pre"
  shows "\<forall>x \<in> set (lw_sent (so_writer out)). \<not> is_complete x"
  using assms by (auto simp: output_ok_def list_all_iff)

lemma finals_count:
  assumes "filter is_segment mids = map segment_event segs"
  shows "length (filter is_final_segment mids) = n_finals segs"
proof -
  have "filter is_final_segment mids = filter is_final_segment (filter is_segment mids)"
    by (simp add: is_final_segment_def is_segment_def split: transcribe_response.splits cong: filter_cong)
  then show ?thesis
    by (simp add: assms filter_map comp_def n_finals_def)
qed

text \<open>
  What a client has received of a call that succeeded: the media info first, then segments and
  stills in any order, then the Document if it asked for one, which is the fold of everything
  before it, and the trailer last, with the true numbers of final segments and stills.
\<close>

definition complete_stream :: "fold_env \<Rightarrow> document_fold option \<Rightarrow> transcribe_response list \<Rightarrow> bool" where
  "complete_stream F f sent \<longleftrightarrow>
     (\<exists>info mids c. list_all progress mids \<and>
        tc_segment_count c = u32 (length (filter is_final_segment mids)) \<and>
        tc_keyframe_count c = u32 (length (filter is_keyframe mids)) \<and>
        (case f of
           None \<Rightarrow> sent = Media_info_event info # mids @ [Complete_event c]
         | Some f0 \<Rightarrow> (\<exists>name mime hash. sent = Media_info_event info # mids @
             [Document_event (df_document (fold_consume F (Complete_event c)
                (set_source name mime hash (fold (fold_consume F) (Media_info_event info # mids) f0)))),
              Complete_event c])))"

lemma write_locked_True:
  "write_locked F x w = (w', True) \<longleftrightarrow> \<not> lw_dead w \<and> lw_accepts w (lw_attempts w) \<and>
     w' = w\<lparr>lw_fold := map_option (fold_consume F x) (lw_fold w), lw_attempts := Suc (lw_attempts w), lw_sent := lw_sent w @ [x]\<rparr>"
  by (auto simp: write_locked_def Let_def)

lemma writer_finish_True:
  assumes "writer_finish F x w = (w', True)"
  shows "\<not> lw_dead w" "lw_sent w' = lw_sent w @ (case lw_fold w of None \<Rightarrow> []
    | Some f \<Rightarrow> [Document_event (df_document (fold_consume F x f))]) @ [x]"
  using assms by (auto simp: writer_finish_def write_locked_True split: option.splits prod.splits bool.splits)

lemma writer_finish_False:
  assumes "writer_finish F x w = (w', False)"
  shows "\<exists>d. lw_sent w' = lw_sent w \<or> lw_sent w' = lw_sent w @ [Document_event d]"
  using assms
  by (auto simp: writer_finish_def write_locked_def Let_def split: option.splits prod.splits bool.splits if_splits)

lemma finish_call_ok:
  assumes path: "path_ok (ce_fold_env C) f (out, Path_done result stills)"
    and fin: "finish_call C opts family (so_writer out) result stills = (w, st, ms)"
  shows "if status_ok st then complete_stream (ce_fold_env C) f (lw_sent w)
    else (\<forall>x \<in> set (lw_sent w). \<not> is_complete x)"
proof -
  let ?F = "ce_fold_env C" and ?c = "trailer_of result stills"
  let ?hash = "if bs_complete (ce_final_upload C) then unat (content_hash (bs_bytes (ce_final_upload C))) else 0"
  let ?name = "source_filename (to_filename opts) family" and ?mime = "family_mimetype family"
  let ?w1 = "if folding (so_writer out) then writer_set_source ?name ?mime ?hash (so_writer out) else so_writer out"
  obtain info where out: "output_ok ?F f [Media_info_event info] out" and n: "stills = so_count out"
    "er_final_segments result = u32 (n_finals (so_segments out))"
    using path by (auto simp: path_ok_def)
  have none: "\<forall>x \<in> set (lw_sent (so_writer out)). \<not> is_complete x"
    by (rule output_ok_no_trailer [OF out]) (simp add: is_media_info_def)
  have w1: "lw_sent ?w1 = lw_sent (so_writer out)" "lw_dead ?w1 = lw_dead (so_writer out)"
    "lw_fold ?w1 = map_option (set_source ?name ?mime ?hash) (lw_fold (so_writer out))"
    by (auto simp: writer_set_source_def folding_def)
  show ?thesis
  proof (cases "er_aborted result \<or> ce_gone C After_run")
    case True
    with fin none show ?thesis
      by (auto simp: finish_call_def gone_status_def)
  next
    case False
    obtain w2 ok where wf: "writer_finish ?F (Complete_event ?c) ?w1 = (w2, ok)"
      by fastforce
    show ?thesis
    proof (cases ok)
      case False
      with wf fin \<open>\<not> (er_aborted result \<or> ce_gone C After_run)\<close> have "w = w2" "st = gone_status"
        by (auto simp: finish_call_def Let_def)
      moreover have "writer_finish ?F (Complete_event ?c) ?w1 = (w2, False)"
        using wf False by simp
      ultimately show ?thesis
        using none writer_finish_False w1(1) by (fastforce simp: gone_status_def)
    next
      case True
      with wf fin \<open>\<not> (er_aborted result \<or> ce_gone C After_run)\<close> have st: "w = w2" "st = Status OK []"
        by (auto simp: finish_call_def Let_def)
      have "writer_finish ?F (Complete_event ?c) ?w1 = (w2, True)"
        using wf True by simp
      note t = writer_finish_True [OF this]
      obtain mids where mids: "lw_sent (so_writer out) = Media_info_event info # mids" "list_all progress mids"
        "filter is_segment mids = map segment_event (so_segments out)"
        "so_count out = u32 (length (filter is_keyframe mids))"
        "lw_fold (so_writer out) = map_option (fold (fold_consume ?F) (Media_info_event info # mids)) f"
        using out t(1) w1(2) by (auto simp: output_ok_def)
      have "tc_segment_count ?c = u32 (length (filter is_final_segment mids))"
        "tc_keyframe_count ?c = u32 (length (filter is_keyframe mids))"
        using mids(4) n finals_count [OF mids(3)] by (simp_all add: trailer_of_def)
      then have "complete_stream ?F f (lw_sent w2)"
        unfolding complete_stream_def t(2) w1 mids(1) mids(5) using mids(2)
        by (intro exI [of _ info] exI [of _ mids] exI [of _ ?c]) (cases f; auto)
      with st show ?thesis
        by simp
    qed
  qed
qed

lemma process_stream_ok:
  assumes "process_stream fuel C cfg opts (writer_new accepts f) = Some (w, st, ms)"
    and "\<And>w p b. run_sized (ce_whisper_full C w p b)"
  shows "if status_ok st then complete_stream (ce_fold_env C) f (lw_sent w)
    else (\<forall>x \<in> set (lw_sent w). \<not> is_complete x)"
proof -
  let ?w = "writer_new accepts f" and ?family = "sniff (ce_prefix C)" and ?F = "ce_fold_env C"
  have fresh: "\<not> lw_dead ?w" "lw_sent ?w = []" "lw_fold ?w = f"
    by (simp_all add: writer_new_def)
  show ?thesis
  proof (cases "ce_prefix_aborted C \<or> ?family = kUnknown")
    case True
    with assms(1) fresh show ?thesis
      by (auto simp: process_stream_def Let_def split: if_splits)
  next
    case False
    let ?path = "if decodes_in_process ?family then live_path fuel C cfg opts ?family ?w else tool_path fuel C cfg opts ?w"
    obtain out p where path: "?path = Some (out, p)" and
      r: "(w, st, ms) = (case p of Path_threw e \<Rightarrow> (so_writer out, status_of_exn cfg (ce_gone C In_catch) e, 0)
          | Path_status st \<Rightarrow> (so_writer out, st, 0)
          | Path_done result stills \<Rightarrow> finish_call C opts ?family (so_writer out) result stills)"
      using assms(1) False by (auto simp: process_stream_def Let_def)
    have ok: "path_ok ?F f (out, p)"
      using live_path_ok [OF fresh assms(2)] tool_path_ok [OF fresh assms(2)] path by (auto split: if_splits)
    then have none: "\<forall>x \<in> set (lw_sent (so_writer out)). \<not> is_complete x"
      using output_ok_no_trailer by (auto simp: path_ok_def)
    show ?thesis
    proof (cases p)
      case (Path_threw e)
      have "\<not> status_ok (status_of_exn cfg gone e)" for gone
        by (simp add: status_of_exn_def split: exn.splits)
      with Path_threw r none show ?thesis
        by auto
    next
      case (Path_status st')
      with ok r none show ?thesis
        by (auto simp: path_ok_def)
    next
      case (Path_done result stills)
      with finish_call_ok [of C f out result stills opts ?family w st ms] ok r show ?thesis
        by simp
    qed
  qed
qed

text \<open>C2: the protocol of \<open>process_stream\<close>, the worker of a call. However the media, the decoder, the
  client and the other thread behave: when \<open>process_stream\<close> returns OK, it has sent the media info, then
  segments and stills, then the Document if asked for, folded from exactly what was sent before
  it, then the trailer with the true counts; when it returns anything else, it has sent no
  trailer. This is the worker's status: the call returns the reader's instead when the reader refused a
  message, which can happen after the worker has sent the trailer.\<close>

theorem process_stream_protocol:
  assumes "process_stream fuel C cfg opts (writer_new accepts f) = Some (w, st, ms)"
    and "\<And>w p b. run_sized (ce_whisper_full C w p b)"
  shows "if status_ok st then complete_stream (ce_fold_env C) f (lw_sent w)
    else (\<forall>x \<in> set (lw_sent w). \<not> is_complete x)"
  using assms by (rule process_stream_ok)

section \<open>The call returns\<close>

lemma engine_options_in_range:
  assumes "config_ok cfg"
  shows "options_in_range (engine_options_of cfg opts)" "0 < eo_window_seconds (engine_options_of cfg opts)"
    "max_samples (engine_options_of cfg opts) div 16 = max_duration_seconds cfg * 1000"
proof -
  have b: "window_seconds cfg \<le> 3600" "max_duration_seconds cfg \<le> 604800" "10 \<le> window_seconds cfg"
    using assms by (simp_all add: config_ok_def)
  then have "(window_seconds cfg + max_duration_seconds cfg) * 16000000 \<le> (3600 + 604800) * 16000000"
    by (intro mult_le_mono1 add_le_mono)
  then show r: "options_in_range (engine_options_of cfg opts)"
    by (simp add: options_in_range_def engine_options_of_def)
  show "0 < eo_window_seconds (engine_options_of cfg opts)"
    using b(3) by (simp add: engine_options_of_def)
  show "max_samples (engine_options_of cfg opts) div 16 = max_duration_seconds cfg * 1000"
    using options_in_range_samples(2) [OF r] by (simp add: engine_options_of_def)
qed

lemma service_run_returns:
  assumes "pcm_source read pending valid" "valid r" "config_ok cfg" "max_duration_seconds cfg * 1000 < fuel"
  shows "\<exists>s res. transcriber_run fuel (service_engine C cfg opts read) r out state = Some (s, res)"
proof -
  let ?E = "service_engine C cfg opts read"
  note rng = engine_options_in_range [OF assms(3), of opts]
  have "window_aligned pending valid (e_options ?E) (pending r) (transcription_new r out state)"
    by (rule pcm_source.window_aligned_new [OF assms(1,2)])
  moreover have "max_samples (e_options ?E) div 16 - window_base_ms (t_run (transcription_new r out state)) < fuel"
    using rng(3) assms(4) by (simp add: transcription_new_def)
  ultimately obtain s f where "transcribe_loop fuel ?E (transcription_new r out state) = Some (s, f)"
    using pcm_source.transcribe_loop_returns [OF assms(1), of ?E "pending r"] rng(1) by (fastforce simp del: split_paired_Ex)
  then show ?thesis
    by (cases f) (auto simp: transcriber_run_def)
qed

lemma process_stream_total:
  assumes "config_ok cfg" "max_duration_seconds cfg * 1000 < fuel" "miniaudio_reads (ce_miniaudio C) left"
  shows "\<exists>w' st ms. process_stream fuel C cfg opts w = Some (w', st, ms)"
proof -
  have live: "transcriber_run fuel (service_engine C cfg opts (audio_decoder_read (ce_miniaudio C))) d out state \<noteq> None"
    for d out state
    using service_run_returns [OF audio_decoder_source [OF assms(3)] TrueI assms(1,2)] by fastforce
  have tool: "transcriber_run fuel (service_engine C cfg opts video_read_audio) \<lparr>da_tool = t, da_partial = []\<rparr> out state \<noteq> None"
    for t out state
    unfolding video_read_audio_def
    using service_run_returns [OF tool.audio.pcm_source_axioms _ assms(1,2), of "\<lparr>da_tool = t, da_partial = []\<rparr>"]
    by (metis demux_audio.select_convs(2) list.size(3) option.distinct(1) zero_less_numeral)
  have "live_path fuel C cfg opts family w \<noteq> None" for family
    by (simp add: live_path_def Let_def live split: sum.splits prod.splits bool.splits del: not_None_eq)
  moreover have "tool_path fuel C cfg opts w \<noteq> None"
    by (simp add: tool_path_def Let_def tool split: sum.splits prod.splits bool.splits option.split del: not_None_eq)
  ultimately have "process_stream fuel C cfg opts w \<noteq> None"
    by (simp add: process_stream_def Let_def del: not_None_eq)
  then show ?thesis
    by auto
qed

text \<open>C20: every call returns. Under any configuration that loads, with one iteration of fuel per
  millisecond of the duration cap, \<open>process_stream\<close> returns a status on both paths, for every
  media, decoder, client and schedule; of miniaudio it needs that a successful read delivers the
  next frames and none only at the end.\<close>

theorem process_stream_returns:
  assumes "config_ok cfg" "max_duration_seconds cfg * 1000 < fuel" "miniaudio_reads (ce_miniaudio C) left"
  shows "\<exists>w' st ms. process_stream fuel C cfg opts w = Some (w', st, ms)"
  using assms by (rule process_stream_total)

section \<open>A small call\<close>

definition demo_doubles :: double_ops where
  "demo_doubles = \<lparr>dbl_of_uint = \<lambda>_. 0, dbl_of_float = \<lambda>_. 0, dbl_div_1000 = \<lambda>x. x, dbl_add_ms = \<lambda>x. x,
    dbl_gt = \<lambda>_ _. False, dbl_exp = \<lambda>x. x, dbl_one = 0\<rparr>"

definition demo_call :: "(f32 list, unit, unit) call_env" where
  "demo_call = \<lparr>ce_fold_env = \<lparr>fe_doubles = demo_doubles, fe_parse_label = \<lambda>_. None\<rparr>,
     ce_prefix_aborted = False, ce_prefix = ''RIFF....WAVEfmt '', ce_complete_at_open = True,
     ce_final_upload = \<lparr>bs_bytes = ''RIFF....WAVEfmt '', bs_complete = True, bs_aborted = False\<rparr>,
     ce_gone = \<lambda>_. False, ce_stop = \<lambda>_. False, ce_lease = Inr (), ce_miniaudio = memory_miniaudio, ce_memfd = None,
     ce_stod_ms = \<lambda>_. Inr 0, ce_stoul = \<lambda>_. Inr 0, ce_run_query = \<lambda>_. Inr [], ce_open_audio = Inl Bad_alloc,
     ce_audio_exit = (([], True), Lingered (-9)), ce_keyframe_chunks = [], ce_keyframe_exit = (0, []), ce_keyframe_read_error = None,
     ce_keyframe_stop = \<lambda>_. False, ce_schedule = [], ce_whisper_full = \<lambda>_ _ _. Return 0 [] 0 (), ce_token_eot = 0,
     ce_lang_str = \<lambda>_. ''en'', ce_double = ((), \<lambda>_ _. (), \<lambda>_ _. 0)\<rparr>"

lemma demo_call_simps [simp]:
  "ce_prefix_aborted demo_call = False" "ce_prefix demo_call = ''RIFF....WAVEfmt ''" "ce_gone demo_call = (\<lambda>_. False)"
  "ce_miniaudio demo_call = memory_miniaudio" "ce_lease demo_call = Inr ()" "ce_stop demo_call = (\<lambda>_. False)"
  "ce_whisper_full demo_call = (\<lambda>_ _ _. Return 0 [] 0 ())"
  by (simp_all add: demo_call_def)

lemma demo_media:
  "miniaudio_reads memory_miniaudio (\<lambda>d. d)" "sniff ''RIFF....WAVEfmt '' = kWav"
  "audio_decoder_new memory_miniaudio True b = Inr ([], \<lparr>ai_duration_ms = 0, ai_sample_rate_hz = 44100, ai_channels = 2\<rparr>)"
  "0 < n \<Longrightarrow> audio_decoder_read memory_miniaudio [] n = ([], Inr [])"
  by (auto simp: miniaudio_reads_def memory_miniaudio_def sniff_def starts_with_def audio_decoder_new_def
      audio_decoder_read_def scrub_pcm_eq u64_def)

lemma demo_run_empty:
  assumes "config_ok cfg"
  shows "\<exists>s result. transcriber_run (Suc fuel) (service_engine demo_call cfg opts (audio_decoder_read memory_miniaudio)) [] out () =
      Some (s, Inr result) \<and> t_sink s = out \<and> \<not> er_aborted result"
proof -
  let ?E = "service_engine demo_call cfg opts (audio_decoder_read memory_miniaudio)"
  have w: "0 < window_samples (engine_options_of cfg opts)"
    using options_in_range_samples(1) [OF engine_options_in_range(1) [OF assms]] engine_options_in_range(2) [OF assms] by simp
  have st: "e_stop ?E = (\<lambda>_. False)"
    by (simp add: service_engine_def)
  have "\<exists>s. fill_window ?E (transcription_new [] out ()) = (s, Go) \<and> t_buffer s = [] \<and> t_sink s = out \<and> \<not> er_aborted (t_result s)"
    by (subst fill_window.simps) (simp add: stopped_def st transcription_new_def demo_media(4) [OF w] Let_def w)
  then show ?thesis
    by (auto simp: transcriber_run_def transcribe_window_def)
qed

definition service_config :: config where
  "service_config = \<lparr>listen_address = [], cfg_backend = ''cpu'', cuda_device = 0, openvino_device = [], models_dir = [],
     models = [''tiny''], concurrency = 2, queue_timeout_seconds = 1800, max_media_bytes = 268435456,
     max_duration_seconds = 14400, window_seconds = 480, threads = 4, keyframe_interval_seconds = 10,
     document_word_provenance = True, metrics_interval_seconds = 60, tool_inactivity_seconds = 60,
     cfg_ffmpeg = ''ffmpeg'', cfg_ffprobe = ''ffprobe''\<rparr>"

lemma service_config_ok: "config_ok service_config"
  by (simp add: config_ok_def service_config_def)

lemma demo_call_returns_ok:
  "\<exists>w ms. process_stream (Suc fuel) demo_call service_config opts (writer_new (\<lambda>_. True) None) = Some (w, Status OK [], ms)"
proof -
  let ?w = "\<lparr>lw_accepts = \<lambda>_. True, lw_attempts = 1, lw_sent = [Media_info_event \<lparr>mi_duration_ms = 0,
    mi_audio_codec = ''wav'', mi_sample_rate_hz = 44100, mi_channels = 2, mi_has_video = False, mi_video_codec = []\<rparr>],
    lw_fold = None, lw_dead = False\<rparr>"
  obtain s result where run: "transcriber_run (Suc fuel)
      (service_engine demo_call service_config opts (audio_decoder_read memory_miniaudio)) []
      (output_new ?w [] (\<lambda>_. False) []) () = Some (s, Inr result)"
    "t_sink s = output_new ?w [] (\<lambda>_. False) []" "\<not> er_aborted result"
    using demo_run_empty [OF service_config_ok] by blast
  then have "live_path (Suc fuel) demo_call service_config opts kWav (writer_new (\<lambda>_. True) None) =
      Some (output_new ?w [] (\<lambda>_. False) [], Path_done result 0)"
    by (simp add: live_path_def demo_media(3) max_duration_ms_def write_locked_def writer_new_def)
  then show ?thesis
    using run(3)
    by (simp add: process_stream_def demo_media(2) finish_call_def folding_def output_new_def writer_finish_def write_locked_def)
qed

theorem process_stream_protocol_witness:
  "\<exists>w ms. process_stream 1 demo_call service_config demo_options (writer_new (\<lambda>_. True) None) = Some (w, Status OK [], ms) \<and>
     complete_stream (ce_fold_env demo_call) None (lw_sent w)"
proof -
  obtain w ms where r: "process_stream 1 demo_call service_config demo_options (writer_new (\<lambda>_. True) None) = Some (w, Status OK [], ms)"
    using demo_call_returns_ok [of 0 demo_options] by auto
  then show ?thesis
    using process_stream_protocol [OF r] by auto
qed

theorem process_stream_returns_witness:
  "\<exists>w st ms. process_stream 14400001 demo_call service_config demo_options (writer_new (\<lambda>_. False) None) = Some (w, st, ms)"
  by (rule process_stream_returns [OF service_config_ok _, of _ _ "\<lambda>d. d"])
    (simp_all add: service_config_def demo_media(1))

end
