(* ===== verification/Asr_Service.thy ===== *)
theory Asr_Service
  imports Stream_Protocol Ordered_Map
begin

text \<open>
  The Transcribe and GetServiceInfo calls of src/src/service/asr_service.cpp around
  \<open>process_stream\<close>: admission, the upload loop with its byte cap, the end of the upload, the
  status the client gets and the counters. The client's messages up to its half-close are a
  list; whether gRPC reports the call cancelled when the upload ends is an argument.
\<close>

section \<open>Admission\<close>

datatype transcribe_request = Options transcribe_options | Chunk string | Request_not_set

definition join_names :: "string list \<Rightarrow> string" where
  "join_names names = fold (\<lambda>name loaded. loaded @ (if loaded = [] then name else '', '' @ name)) names []"

text \<open>Everything before the first media byte: the refusal, or the options the worker gets.\<close>

definition admit :: "'c model_pool \<Rightarrow> transcribe_request list \<Rightarrow> status + transcribe_options" where
  "admit pool reads =
     (case reads of
        Options opts # _ \<Rightarrow>
          let st = validate_docling_asr_options opts in
          if \<not> status_ok st then Inl st
          else (case to_remote opts of
            Some remote \<Rightarrow>
              let rst = validate_remote_options remote in
              if \<not> status_ok rst then Inl rst
              else Inl (Status UNIMPLEMENTED (''TranscribeOptions.remote is not served by this build: remote transcription has '' @
                ''no HTTP engine yet; omit it to transcribe with the local whisper.cpp pool''))
          | None \<Rightarrow>
              let resolved = apply_model_type_default opts in
              if to_model resolved = [] then Inl (Status INVALID_ARGUMENT ''TranscribeOptions.model is required'')
              else if \<not> has_model pool (to_model resolved)
              then Inl (Status INVALID_ARGUMENT (''model '' @ [CHR 0x27] @ to_model resolved @ [CHR 0x27] @ '' is not loaded (loaded: '' @
                join_names (model_names pool) @ '')''))
              else Inr resolved)
      | _ \<Rightarrow> Inl (Status INVALID_ARGUMENT ''the first message must carry TranscribeOptions''))"

section \<open>The upload\<close>

text \<open>The read loop: the buffer, the reader's status and whether any byte was seen.\<close>

fun upload_loop :: "nat \<Rightarrow> transcribe_request list \<Rightarrow> byte_stream \<Rightarrow> bool \<Rightarrow> byte_stream \<times> status \<times> bool" where
  "upload_loop cap [] upload saw = (upload, Status OK [], saw)"
| "upload_loop cap (Chunk data # rs) upload saw =
     (if bs_size upload + length data > cap
      then (upload, Status RESOURCE_EXHAUSTED (''media exceeds GRPC_ASR_MAX_MEDIA_BYTES='' @ to_string cap), saw)
      else upload_loop cap rs (bs_append data upload) (saw \<or> data \<noteq> []))"
| "upload_loop cap (_ # rs) upload saw =
     (upload, Status INVALID_ARGUMENT ''only media chunks may follow TranscribeOptions'', saw)"

text \<open>The end of the upload: an abort comes with a requested stop.\<close>

definition end_upload :: "bool \<Rightarrow> byte_stream \<times> status \<times> bool \<Rightarrow> byte_stream \<times> status" where
  "end_upload cancelled r =
     (case r of (upload, st, saw) \<Rightarrow>
        if \<not> status_ok st \<or> cancelled then (bs_abort upload, st)
        else if \<not> saw then (bs_abort upload, Status INVALID_ARGUMENT ''stream ended without media bytes'')
        else (bs_finish upload, st))"

section \<open>The call\<close>

record counters =
  transcribed :: nat
  rejected :: nat
  failed :: nat
  audio_ms :: nat

definition count_status :: "status \<Rightarrow> counters \<Rightarrow> counters" where
  "count_status st n =
     (if status_ok st then n\<lparr>transcribed := Suc (transcribed n)\<rparr>
      else if error_code st = INVALID_ARGUMENT \<or> error_code st = RESOURCE_EXHAUSTED \<or> error_code st = UNIMPLEMENTED
      then n\<lparr>rejected := Suc (rejected n)\<rparr>
      else n\<lparr>failed := Suc (failed n)\<rparr>)"

text \<open>
  The worker runs beside the reader: the prefix it sniffs is that of the upload, it can see an
  abort only if there is one, and when it finishes it hashes the bytes only if it finds the
  upload complete (the decoder may be done before the client is). When it sees the stop, which
  the reader and the watch on the call request, is \<open>ce_stop\<close> and \<open>ce_gone\<close>.
\<close>

definition call_on :: "byte_stream \<Rightarrow> ('m, 'w, 'd) call_env \<Rightarrow> ('m, 'w, 'd) call_env" where
  "call_on upload C = C\<lparr>ce_prefix := take 16 (bs_bytes upload),
     ce_final_upload := upload\<lparr>bs_complete := bs_complete upload \<and> bs_complete (ce_final_upload C)\<rparr>,
     ce_prefix_aborted := bs_aborted upload \<and> ce_prefix_aborted C\<rparr>"

definition document_fold_of :: "string \<Rightarrow> config \<Rightarrow> transcribe_options \<Rightarrow> document_fold option" where
  "document_fold_of version cfg opts =
     (if to_emit_document opts then Some (document_fold_new (to_model opts) version (document_word_provenance cfg)) else None)"

definition transcribe ::
  "nat \<Rightarrow> ('m, 'w, 'd) call_env \<Rightarrow> string \<Rightarrow> (nat \<Rightarrow> bool) \<Rightarrow> bool \<Rightarrow> config \<Rightarrow> 'c model_pool \<Rightarrow>
   transcribe_request list \<Rightarrow> counters \<Rightarrow> (status \<times> counters \<times> transcribe_response list) option" where
  "transcribe fuel C version accepts cancelled cfg pool reads n =
     (case admit pool reads of
        Inl st \<Rightarrow> Some (st, n\<lparr>rejected := Suc (rejected n)\<rparr>, [])
      | Inr opts \<Rightarrow>
        let (upload, reader_status) =
              end_upload cancelled (upload_loop (max_media_bytes cfg) (tl reads) byte_stream_new False)
        in case process_stream fuel (call_on upload C) cfg opts (writer_new accepts (document_fold_of version cfg opts)) of
             None \<Rightarrow> None
           | Some (w, worker_status, ms) \<Rightarrow>
             let st = (if status_ok reader_status then worker_status else reader_status)
             in Some (st, count_status st (n\<lparr>audio_ms := audio_ms n + ms\<rparr>), lw_sent w))"

record service_info =
  si_version :: string
  si_whisper_version :: string
  si_backend :: string
  si_models :: "string list"
  si_max_media_bytes :: nat
  si_max_duration_ms :: nat
  si_ui :: "string \<times> string \<times> string"

definition get_service_info :: "string \<Rightarrow> string \<Rightarrow> config \<Rightarrow> 'c model_pool \<Rightarrow> service_info" where
  "get_service_info version whisper_version cfg pool = \<lparr>si_version = version, si_whisper_version = whisper_version,
     si_backend = mp_backend pool, si_models = model_names pool, si_max_media_bytes = max_media_bytes cfg,
     si_max_duration_ms = max_duration_ms cfg,
     si_ui = (''ASR'', ''/ui/asr'', ''Speech-to-text via embedded whisper.cpp'')\<rparr>"

section \<open>The upload is bounded and exact\<close>

text \<open>The media bytes of the chunks that are accepted before the first message that is not.\<close>

fun chunk_bytes_of :: "transcribe_request list \<Rightarrow> string option" where
  "chunk_bytes_of [] = Some []"
| "chunk_bytes_of (Chunk data # rs) = map_option ((@) data) (chunk_bytes_of rs)"
| "chunk_bytes_of _ = None"

lemma upload_loop_bound:
  assumes "length (bs_bytes upload) \<le> cap" "upload_loop cap rs upload saw = (upload', st, saw')"
  shows "length (bs_bytes upload') \<le> cap" "bs_aborted upload' = bs_aborted upload" "bs_complete upload' = bs_complete upload"
    "status_ok st \<Longrightarrow> \<exists>bytes. chunk_bytes_of rs = Some bytes \<and> bs_bytes upload' = bs_bytes upload @ bytes \<and>
       (saw' \<longleftrightarrow> saw \<or> bytes \<noteq> [])"
proof -
  have "length (bs_bytes upload') \<le> cap \<and> bs_aborted upload' = bs_aborted upload \<and> bs_complete upload' = bs_complete upload \<and>
    (status_ok st \<longrightarrow> (\<exists>bytes. chunk_bytes_of rs = Some bytes \<and> bs_bytes upload' = bs_bytes upload @ bytes \<and>
       (saw' \<longleftrightarrow> saw \<or> bytes \<noteq> [])))"
    using assms
  proof (induction cap rs upload saw rule: upload_loop.induct)
    case (2 cap data rs upload saw)
    then show ?case
      by (fastforce simp: bs_size_def bs_append_def split: if_splits)
  qed auto
  then show "length (bs_bytes upload') \<le> cap" "bs_aborted upload' = bs_aborted upload" "bs_complete upload' = bs_complete upload"
    "status_ok st \<Longrightarrow> \<exists>bytes. chunk_bytes_of rs = Some bytes \<and> bs_bytes upload' = bs_bytes upload @ bytes \<and>
       (saw' \<longleftrightarrow> saw \<or> bytes \<noteq> [])"
    by blast+
qed

text \<open>An admitted call's first message carries the options, with a loaded model.\<close>

lemma admit_Inr:
  assumes "admit pool reads = Inr opts"
  shows "\<exists>req. hd reads = Options req \<and> opts = apply_model_type_default req \<and> to_remote req = None"
    "reads \<noteq> []" "has_model pool (to_model opts)" "to_model opts \<noteq> []"
  using assms by (auto simp: admit_def Let_def split: list.splits transcribe_request.splits option.splits if_splits)

lemma admit_Inl: "admit pool reads = Inl st \<Longrightarrow> \<not> status_ok st"
  by (auto simp: admit_def Let_def split: list.splits transcribe_request.splits option.splits if_splits)

text \<open>What the reader ends with: within the cap, and complete exactly if the messages were
  chunks with at least one byte and the call was not cancelled.\<close>

lemma end_upload_bound:
  assumes "end_upload cancelled (upload_loop cap rs byte_stream_new False) = (upload, st)"
  shows "length (bs_bytes upload) \<le> cap"
    "status_ok st \<Longrightarrow> \<exists>bytes. chunk_bytes_of rs = Some bytes \<and> bs_bytes upload = bytes \<and> (bytes \<noteq> [] \<or> cancelled)"
    "status_ok st \<Longrightarrow> cancelled \<or> bs_complete upload \<and> \<not> bs_aborted upload"
proof -
  obtain u r saw where l: "upload_loop cap rs byte_stream_new False = (u, r, saw)"
    using prod_cases3 by blast
  note b = upload_loop_bound [OF _ l]
  have fresh: "bs_bytes byte_stream_new = []" "\<not> bs_aborted byte_stream_new"
    by (simp_all add: byte_stream_new_def)
  show "length (bs_bytes upload) \<le> cap"
    using assms b(1) by (auto simp: l fresh end_upload_def bs_abort_def bs_finish_def split: if_splits)
  show "status_ok st \<Longrightarrow> \<exists>bytes. chunk_bytes_of rs = Some bytes \<and> bs_bytes upload = bytes \<and> (bytes \<noteq> [] \<or> cancelled)"
    using assms b(4) by (auto simp: l fresh end_upload_def bs_abort_def bs_finish_def split: if_splits)
  show "status_ok st \<Longrightarrow> cancelled \<or> bs_complete upload \<and> \<not> bs_aborted upload"
    using assms b(2) by (auto simp: l fresh end_upload_def bs_abort_def bs_finish_def split: if_splits)
qed

section \<open>The contract of a call\<close>

lemma transcribe_cases:
  assumes "transcribe fuel C version accepts cancelled cfg pool reads n = Some (st, n', sent)"
  obtains (refused) "admit pool reads = Inl st" "n' = n\<lparr>rejected := Suc (rejected n)\<rparr>" "sent = []"
  | (run) opts upload reader w worker ms where "admit pool reads = Inr opts"
      "end_upload cancelled (upload_loop (max_media_bytes cfg) (tl reads) byte_stream_new False) = (upload, reader)"
      "process_stream fuel (call_on upload C) cfg opts (writer_new accepts (document_fold_of version cfg opts)) = Some (w, worker, ms)"
      "st = (if status_ok reader then worker else reader)" "n' = count_status st (n\<lparr>audio_ms := audio_ms n + ms\<rparr>)" "sent = lw_sent w"
proof (cases "admit pool reads")
  case (Inl r)
  with assms that(1) show thesis
    by (simp add: transcribe_def)
next
  case (Inr opts)
  moreover obtain upload reader where
    "end_upload cancelled (upload_loop (max_media_bytes cfg) (tl reads) byte_stream_new False) = (upload, reader)"
    by fastforce
  ultimately show thesis
    using assms that(2) by (auto simp: transcribe_def Let_def split: option.splits)
qed

text \<open>C1: what an OK means to a client. The call's first message carried options naming a loaded
  model and no remote engine, every other message was a media chunk, their bytes stay within the
  configured cap and there was at least one unless the call was already cancelled, and what the
  call has sent is a complete stream: the media info, segments and stills, the Document if it was
  asked for, folded from exactly those, and the trailer with the true counts.\<close>

theorem transcribe_ok_contract:
  assumes "transcribe fuel C version accepts cancelled cfg pool reads n = Some (st, n', sent)" "status_ok st"
    and "\<And>w p b. run_sized (ce_whisper_full C w p b)"
  shows "\<exists>req rest bytes. reads = Options req # rest \<and> to_remote req = None \<and>
    has_model pool (to_model (apply_model_type_default req)) \<and> chunk_bytes_of rest = Some bytes \<and>
    length bytes \<le> max_media_bytes cfg \<and> (bytes \<noteq> [] \<or> cancelled) \<and>
    complete_stream (ce_fold_env C) (document_fold_of version cfg (apply_model_type_default req)) sent"
  using assms(1)
proof (cases rule: transcribe_cases)
  case refused
  with assms(2) show ?thesis
    by (simp add: admit_Inl)
next
  case (run opts upload reader w worker ms)
  have r: "status_ok reader" "status_ok worker"
    using run(4) assms(2) by (auto split: if_splits)
  obtain req rest where reads: "reads = Options req # rest" "to_remote req = None" "opts = apply_model_type_default req"
    using admit_Inr(1,2) [OF run(1)] by (metis list.collapse)
  have "complete_stream (ce_fold_env C) (document_fold_of version cfg opts) sent"
    using process_stream_ok [OF run(3)] assms(3) r(2) run(6) by (simp add: call_on_def)
  moreover obtain bytes where "chunk_bytes_of rest = Some bytes" "bs_bytes upload = bytes" "bytes \<noteq> [] \<or> cancelled"
    using end_upload_bound(2) [OF run(2) r(1)] reads(1) by auto
  ultimately show ?thesis
    using reads end_upload_bound(1) [OF run(2)] admit_Inr(3) [OF run(1)] by auto
qed

definition client_caused :: "status \<Rightarrow> bool" where
  "client_caused st \<longleftrightarrow> error_code st \<in> {INVALID_ARGUMENT, RESOURCE_EXHAUSTED, UNIMPLEMENTED}"

definition accountable :: "status \<Rightarrow> bool" where
  "accountable st \<longleftrightarrow> status_ok st \<or> client_caused st"

lemma accountable_intros:
  "accountable (Status OK m)" "accountable (Status INVALID_ARGUMENT m)" "accountable (Status UNIMPLEMENTED m)" "accountable (invalid m)"
  "(b \<Longrightarrow> accountable s) \<Longrightarrow> (\<not> b \<Longrightarrow> accountable t) \<Longrightarrow> accountable (if b then s else t)"
  by (simp_all add: accountable_def client_caused_def invalid_def)

lemma accountable_option:
  "(x = None \<Longrightarrow> accountable s) \<Longrightarrow> (\<And>y. x = Some y \<Longrightarrow> accountable (f y)) \<Longrightarrow> accountable (case x of None \<Rightarrow> s | Some y \<Rightarrow> f y)"
  by (cases x) simp_all

lemma engine_status_accountable: "(case e of Some k \<Rightarrow> engine_status opts k | None \<Rightarrow> None) = Some st \<Longrightarrow> accountable st"
  by (auto simp: engine_status_def accountable_def client_caused_def split: option.splits if_splits)

lemma docling_refusal: "accountable (validate_docling_asr_options opts)"
  unfolding validate_docling_asr_options_def
  by (intro accountable_intros accountable_option) (erule engine_status_accountable)

lemma remote_refusal: "accountable (validate_remote_options r)"
  unfolding validate_remote_options_def by (intro accountable_intros accountable_option)

lemma admit_refusal:
  assumes "admit pool reads = Inl st"
  shows "client_caused st"
proof -
  have "accountable st"
    using assms docling_refusal remote_refusal
    by (auto simp: admit_def Let_def accountable_intros split: list.splits transcribe_request.splits option.splits if_splits)
  with admit_Inl [OF assms] show ?thesis
    by (simp add: accountable_def)
qed

lemma transcribe_total:
  assumes "config_ok cfg" "max_duration_seconds cfg * 1000 < fuel" "miniaudio_reads (ce_miniaudio C) left"
  shows "\<exists>st n' sent. transcribe fuel C version accepts cancelled cfg pool reads n = Some (st, n', sent)"
proof -
  have "\<exists>w' st ms. process_stream fuel (call_on upload C) cfg opts w = Some (w', st, ms)" for upload opts w
    using process_stream_total [OF assms(1,2), of "call_on upload C" left] assms(3) by (simp add: call_on_def)
  then have "process_stream fuel (call_on upload C) cfg opts w \<noteq> None" for upload opts w
    by (metis option.distinct(1))
  then have "transcribe fuel C version accepts cancelled cfg pool reads n \<noteq> None"
    by (simp add: transcribe_def Let_def split: sum.split prod.split option.split del: not_None_eq)
  then show ?thesis
    by auto
qed

lemma status_ok_not_client_caused: "status_ok st \<Longrightarrow> \<not> client_caused st"
  by (cases st) (auto simp: client_caused_def)

lemma transcribe_counted:
  assumes "transcribe fuel C version accepts cancelled cfg pool reads n = Some (st, n', sent)"
  shows "transcribed n' = transcribed n + (if status_ok st then 1 else 0)"
    "rejected n' = rejected n + (if client_caused st then 1 else 0)"
    "failed n' = failed n + (if status_ok st \<or> client_caused st then 0 else 1)"
proof -
  have "transcribed n' = transcribed n + (if status_ok st then 1 else 0) \<and>
    rejected n' = rejected n + (if client_caused st then 1 else 0) \<and>
    failed n' = failed n + (if status_ok st \<or> client_caused st then 0 else 1)"
    using assms
  proof (cases rule: transcribe_cases)
    case refused
    then show ?thesis
      by (simp add: admit_refusal admit_Inl)
  next
    case (run opts upload reader w worker ms)
    then show ?thesis
      using status_ok_not_client_caused by (simp add: count_status_def client_caused_def)
  qed
  then show "transcribed n' = transcribed n + (if status_ok st then 1 else 0)"
    "rejected n' = rejected n + (if client_caused st then 1 else 0)"
    "failed n' = failed n + (if status_ok st \<or> client_caused st then 0 else 1)"
    by blast+
qed

text \<open>The service's counters. Under any configuration that loads, with one iteration of fuel
  per millisecond of the duration cap, every call returns and is counted exactly once: as
  transcribed if its status is OK, as rejected if the client caused the failure, as failed
  otherwise; a refused call has sent nothing.\<close>

theorem transcribe_counts_once:
  assumes "config_ok cfg" "max_duration_seconds cfg * 1000 < fuel" "miniaudio_reads (ce_miniaudio C) left"
  shows "\<exists>st n' sent. transcribe fuel C version accepts cancelled cfg pool reads n = Some (st, n', sent) \<and>
    transcribed n' = transcribed n + (if status_ok st then 1 else 0) \<and>
    rejected n' = rejected n + (if client_caused st then 1 else 0) \<and>
    failed n' = failed n + (if status_ok st \<or> client_caused st then 0 else 1) \<and>
    ((\<exists>r. admit pool reads = Inl r) \<longrightarrow> sent = [])"
proof -
  obtain st n' sent where r: "transcribe fuel C version accepts cancelled cfg pool reads n = Some (st, n', sent)"
    using transcribe_total [OF assms] by blast
  then have "(\<exists>e. admit pool reads = Inl e) \<longrightarrow> sent = []"
    by (auto simp: transcribe_def)
  with r transcribe_counted [OF r] show ?thesis
    by blast
qed

section \<open>A small call\<close>

definition served_pool :: "unit model_pool" where
  "served_pool = \<lparr>mp_backend = ''cpu'', mp_entries = [''large-v3-turbo'' \<mapsto>
     \<lparr>pe_hash = ''00'', pe_ctx = (), pe_free = [0, 1], pe_all = [0, 1]\<rparr>]\<rparr>"

definition demo_reads :: "transcribe_request list" where
  "demo_reads = [Options (demo_options\<lparr>to_emit_document := False\<rparr>), Chunk ''RIFF....'', Chunk [], Chunk ''WAVEfmt '']"

definition counters_new :: counters where
  "counters_new = \<lparr>transcribed = 0, rejected = 0, failed = 0, audio_ms = 0\<rparr>"

lemma demo_admit:
  "admit served_pool demo_reads = Inr (demo_options\<lparr>to_model := ''large-v3-turbo'', to_emit_document := False\<rparr>)"
  by (simp add: admit_def demo_reads_def demo_options_def validate_docling_asr_options_def AsrModelType_IsValid_def
      AsrEngineKind_IsValid_def arms_def engine_status_def has_unsupported_inline_def whisper_cpp_model_for_def
      apply_model_type_default_def has_model_def served_pool_def)

lemma demo_upload:
  "end_upload False (upload_loop (max_media_bytes service_config) (tl demo_reads) byte_stream_new False) =
     (ce_final_upload demo_call, Status OK [])" "call_on (ce_final_upload demo_call) demo_call = demo_call"
  by (simp_all add: demo_reads_def service_config_def byte_stream_new_def bs_size_def bs_append_def bs_finish_def end_upload_def
      demo_call_def call_on_def)

lemma demo_transcribe_ok:
  "\<exists>n' sent. transcribe 1 demo_call version (\<lambda>_. True) False service_config served_pool demo_reads counters_new =
     Some (Status OK [], n', sent)"
proof -
  have "document_fold_of version service_config (demo_options\<lparr>to_model := ''large-v3-turbo'', to_emit_document := False\<rparr>) = None"
    by (simp add: document_fold_of_def)
  then show ?thesis
    using demo_call_returns_ok [of 0 "demo_options\<lparr>to_model := ''large-v3-turbo'', to_emit_document := False\<rparr>"]
    by (auto simp: transcribe_def demo_admit demo_upload)
qed

theorem transcribe_ok_contract_witness:
  "\<exists>n' sent. transcribe 1 demo_call ''1'' (\<lambda>_. True) False service_config served_pool demo_reads counters_new =
       Some (Status OK [], n', sent) \<and>
     (\<exists>req rest bytes. demo_reads = Options req # rest \<and> to_remote req = None \<and>
        has_model served_pool (to_model (apply_model_type_default req)) \<and> chunk_bytes_of rest = Some bytes \<and>
        length bytes \<le> max_media_bytes service_config \<and> (bytes \<noteq> [] \<or> False) \<and>
        complete_stream (ce_fold_env demo_call) (document_fold_of ''1'' service_config (apply_model_type_default req)) sent)"
proof -
  obtain n' sent where r: "transcribe 1 demo_call ''1'' (\<lambda>_. True) False service_config served_pool demo_reads counters_new =
      Some (Status OK [], n', sent)"
    using demo_transcribe_ok by blast
  show ?thesis
    by (rule exI [of _ n'], rule exI [of _ sent], rule conjI [OF r], rule transcribe_ok_contract [OF r]) simp_all
qed

theorem transcribe_counts_once_witness:
  "\<exists>st n' sent. transcribe 14400001 demo_call ''1'' (\<lambda>_. False) True service_config served_pool demo_reads counters_new =
       Some (st, n', sent) \<and>
     transcribed n' + rejected n' + failed n' = 1"
  using transcribe_counts_once [of service_config 14400001 demo_call "\<lambda>d. d" "''1''" "\<lambda>_. False" True served_pool demo_reads counters_new]
    service_config_ok demo_media(1) status_ok_not_client_caused
  by (auto simp: service_config_def counters_new_def)

end
