(* ===== verification/Utf8.thy ===== *)
theory Utf8
  imports Prelude
begin

text \<open>
  The UTF-8 check of src/streaming/src/reconcile.cpp, and its equivalence with the encoding of
  the Unicode standard: the accepted strings are exactly the encodings of sequences of scalar
  values, so overlong forms, surrogates and cut sequences are refused.
\<close>

section \<open>The check\<close>

text \<open>The bytes of a sequence after its first, folded into the value; \<open>None\<close> when one is
  missing or not a continuation byte.\<close>

fun continuation :: "nat \<Rightarrow> nat \<Rightarrow> nat list \<Rightarrow> (nat \<times> nat list) option" where
  "continuation 0 value cs = Some (value, cs)"
| "continuation (Suc n) value [] = None"
| "continuation (Suc n) value (c # cs) =
     (if c div 64 \<noteq> 2 then None else continuation n (value * 64 + c mod 64) cs)"

text \<open>Number of bytes to follow, bits of the first byte and the smallest value they may encode.\<close>

definition lead_class :: "nat \<Rightarrow> (nat \<times> nat \<times> nat) option" where
  "lead_class lead =
     (if 0xc2 \<le> lead \<and> lead \<le> 0xdf then Some (1, lead mod 32, 0x80)
      else if 0xe0 \<le> lead \<and> lead \<le> 0xef then Some (2, lead mod 16, 0x800)
      else if 0xf0 \<le> lead \<and> lead \<le> 0xf4 then Some (3, lead mod 8, 0x10000)
      else None)"

lemma continuation_length: "continuation n v cs = Some (v', cs') \<Longrightarrow> length cs' \<le> length cs"
  by (induction n v cs rule: continuation.induct) (auto split: if_splits)

function utf8_bytes :: "nat list \<Rightarrow> bool" where
  "utf8_bytes [] = True"
| "utf8_bytes (lead # cs) =
     (if lead < 128 then utf8_bytes cs
      else case lead_class lead of None \<Rightarrow> False
      | Some (n, bits, least) \<Rightarrow>
          (case continuation n bits cs of None \<Rightarrow> False
           | Some (value, rest) \<Rightarrow>
               if value < least \<or> value > 0x10ffff \<or> (0xd800 \<le> value \<and> value \<le> 0xdfff) then False
               else utf8_bytes rest))"
  by pat_completeness auto

termination
  by (relation "measure length") (auto dest: continuation_length)

definition utf8 :: "string \<Rightarrow> bool" where
  "utf8 s = utf8_bytes (map of_char s)"

section \<open>The encoding of the standard\<close>

definition scalar_value :: "nat \<Rightarrow> bool" where
  "scalar_value v \<longleftrightarrow> v \<le> 0x10ffff \<and> \<not> (0xd800 \<le> v \<and> v \<le> 0xdfff)"

definition utf8_encode :: "nat \<Rightarrow> nat list" where
  "utf8_encode v =
     (if v < 0x80 then [v]
      else if v < 0x800 then [0xc0 + v div 64, 0x80 + v mod 64]
      else if v < 0x10000 then [0xe0 + v div 4096, 0x80 + v div 64 mod 64, 0x80 + v mod 64]
      else [0xf0 + v div 262144, 0x80 + v div 4096 mod 64, 0x80 + v div 64 mod 64, 0x80 + v mod 64])"

lemma digit: "(q * k + m mod k) div k = q" "(q * k + m mod k) mod k = m mod k" if "0 < k" for q k m :: nat
  using that by simp_all

lemma continuation_byte: "(0x80 + b mod 64) div 64 = (2 :: nat)" "(0x80 + b mod 64) mod 64 = b mod (64 :: nat)"
  using digit [of 64 2 b] by simp_all

lemma digits:
  "v div 4096 = v div 64 div 64" "v div 262144 = v div 64 div 64 div 64" "v div 64 * 64 + v mod 64 = v" for v :: nat
  by (simp_all flip: div_mult2_eq)

lemma lead_bits: "b < 2 ^ n \<Longrightarrow> (a * 2 ^ n + b) mod 2 ^ n = (b :: nat)"
  by simp

lemma lead_bits_3: "b < 16 \<Longrightarrow> (0xe0 + b) mod 16 = (b :: nat)"
  by presburger

lemma lead_bits_4: "b \<le> 4 \<Longrightarrow> (0xf0 + b) mod 8 = (b :: nat)"
  by presburger

lemma two_digits: "b < k \<Longrightarrow> c < 64 \<Longrightarrow> b * 64 + c < k * (64 :: nat)"
proof -
  assume "b < k" "c < 64"
  moreover from this have "Suc b * 64 \<le> k * 64"
    by (intro mult_le_mono1) simp
  ultimately show ?thesis
    by simp
qed

lemma three_digits: "b < 16 \<Longrightarrow> c < 64 \<Longrightarrow> d < 64 \<Longrightarrow> (b * 64 + c) * 64 + d < (0x10000 :: nat)"
  using two_digits [of b 16 c] two_digits [of "b * 64 + c" "16 * 64" d] by simp

lemma utf8_encode_step:
  assumes "scalar_value v"
  shows "utf8_bytes (utf8_encode v @ rest) = utf8_bytes rest"
proof -
  consider "v < 0x80" | "0x80 \<le> v" "v < 0x800" | "0x800 \<le> v" "v < 0x10000" | "0x10000 \<le> v"
    by linarith
  then show ?thesis
  proof cases
    case 1
    then show ?thesis
      by (simp add: utf8_encode_def)
  next
    case 2
    have b: "2 \<le> v div 64" "v div 64 < 32"
      using 2 by (simp_all add: less_mult_imp_div_less less_eq_div_iff_mult_less_eq)
    then show ?thesis
      using 2 lead_bits [of "v div 64" 5 6] by (simp add: utf8_encode_def lead_class_def continuation_byte digits)
  next
    case 3
    have b: "v div 64 div 64 < 16"
      using 3 by (simp add: less_mult_imp_div_less flip: div_mult2_eq)
    then show ?thesis
      using 3 assms
      by (auto simp: lead_bits_3 utf8_encode_def lead_class_def continuation_byte numeral_2_eq_2 scalar_value_def digits
          simp del: distrib_right_numeral)
  next
    case 4
    have "v \<le> 0x10ffff"
      using assms by (simp add: scalar_value_def)
    then have b: "v div 64 div 64 div 64 \<le> 4"
      by (simp add: less_mult_imp_div_less flip: div_mult2_eq less_Suc_eq_le)
    then show ?thesis
      using 4 \<open>v \<le> 0x10ffff\<close>
      by (simp add: lead_bits_4 utf8_encode_def lead_class_def continuation_byte numeral_3_eq_3 digits del: distrib_right_numeral)
  qed
qed

lemma utf8_bytes_encoded: "\<forall>v \<in> set vs. scalar_value v \<Longrightarrow> utf8_bytes (concat (map utf8_encode vs))"
  by (induction vs) (simp_all add: utf8_encode_step)

text \<open>A sequence the check accepts is the encoding of the value it computed.\<close>

lemma continuation_encode:
  assumes "lead_class lead = Some (n, bits, least)" "continuation n bits cs = Some (v, rest)" "least \<le> v" "v \<le> 0x10ffff"
  shows "lead # cs = utf8_encode v @ rest"
proof -
  have cont: "c = 0x80 + c mod 64" if "c div 64 = 2" for c :: nat
    using that div_mult_mod_eq [of c 64] by simp
  consider "0xc2 \<le> lead" "lead \<le> 0xdf" "n = 1" "bits = lead mod 32" "least = 0x80"
    | "0xe0 \<le> lead" "lead \<le> 0xef" "n = 2" "bits = lead mod 16" "least = 0x800"
    | "0xf0 \<le> lead" "lead \<le> 0xf4" "n = 3" "bits = lead mod 8" "least = 0x10000"
    using assms(1) by (simp add: lead_class_def split: if_splits)
  then show ?thesis
  proof cases
    case 1
    then obtain c where cs: "cs = c # rest" "c div 64 = 2" "v = bits * 64 + c mod 64"
      using assms(2) by (cases cs) (auto split: if_splits)
    have "lead = 0xc0 + bits"
      using 1 lead_bits [of "lead - 0xc0" 5 6] by simp
    moreover have "v div 64 = bits" "v mod 64 = c mod 64"
      using cs(3) by simp_all
    moreover have "v < 0x800" "0x80 \<le> v"
      using 1 assms(3) mod_less_divisor [of 64 c] mod_less_divisor [of 32 lead] unfolding cs(3) by linarith+
    ultimately show ?thesis
      using cs(1) cont [OF cs(2)] by (simp add: utf8_encode_def)
  next
    case 2
    then obtain c d where cs: "cs = c # d # rest" "c div 64 = 2" "d div 64 = 2" "v = (bits * 64 + c mod 64) * 64 + d mod 64"
      using assms(2) by (cases cs; cases "tl cs") (auto simp: numeral_2_eq_2 split: if_splits)
    have "lead = 0xe0 + bits"
      using 2 lead_bits [of "lead - 0xe0" 4 14] by simp
    moreover have "v div 64 = bits * 64 + c mod 64" "v mod 64 = d mod 64"
      unfolding cs(4) by (rule digit; simp)+
    moreover have "0x800 \<le> v"
      using 2(5) assms(3) by simp
    moreover have "v < 0x10000"
      unfolding cs(4) by (rule three_digits) (simp_all add: 2(4))
    ultimately show ?thesis
      using cs(1) cont [OF cs(2)] cont [OF cs(3)] by (simp add: utf8_encode_def digits)
  next
    case 3
    then obtain c d e where cs: "cs = c # d # e # rest" "c div 64 = 2" "d div 64 = 2" "e div 64 = 2"
        "v = ((bits * 64 + c mod 64) * 64 + d mod 64) * 64 + e mod 64"
      using assms(2) by (cases cs; cases "tl cs"; cases "tl (tl cs)") (auto simp: numeral_3_eq_3 split: if_splits)
    have "lead = 0xf0 + bits"
      using 3 lead_bits [of "lead - 0xf0" 3 30] by simp
    moreover have v: "v div 64 = (bits * 64 + c mod 64) * 64 + d mod 64" "v mod 64 = e mod 64"
      unfolding cs(5) by (rule digit; simp)+
    moreover have "v div 64 div 64 = bits * 64 + c mod 64" "v div 64 mod 64 = d mod 64"
      unfolding v(1) by (rule digit; simp)+
    moreover have "0x10000 \<le> v"
      using 3 assms(3) by simp
    ultimately show ?thesis
      using cs(1) cont [OF cs(2)] cont [OF cs(3)] cont [OF cs(4)] by (simp add: utf8_encode_def digits del: distrib_right_numeral)
  qed
qed

lemma utf8_bytes_decoded: "utf8_bytes bs \<Longrightarrow> \<exists>vs. (\<forall>v \<in> set vs. scalar_value v) \<and> bs = concat (map utf8_encode vs)"
proof (induction bs rule: utf8_bytes.induct)
  case 1
  show ?case
    by (rule exI [of _ "[]"]) simp
next
  case (2 lead cs)
  show ?case
  proof (cases "lead < 128")
    case True
    with 2 obtain vs where "\<forall>v \<in> set vs. scalar_value v" "cs = concat (map utf8_encode vs)"
      by auto
    with True show ?thesis
      by (intro exI [of _ "lead # vs"]) (simp add: utf8_encode_def [of lead] scalar_value_def [of lead])
  next
    case False
    obtain n bits least v rest where l: "lead_class lead = Some (n, bits, least)" "continuation n bits cs = Some (v, rest)"
        "least \<le> v" "v \<le> 0x10ffff" "\<not> (0xd800 \<le> v \<and> v \<le> 0xdfff)" "utf8_bytes rest"
      using "2.prems" False by (force split: option.splits prod.splits if_splits)
    then obtain vs where "\<forall>v \<in> set vs. scalar_value v" "rest = concat (map utf8_encode vs)"
      using "2.IH"(2) [OF False l(1) refl refl l(2) refl] by auto
    with continuation_encode [OF l(1-4)] l(4,5) show ?thesis
      by (intro exI [of _ "v # vs"]) (simp add: scalar_value_def [of v])
  qed
qed

text \<open>The UTF-8 check is the standard: a byte string is accepted exactly if it is the
  encoding of some sequence of Unicode scalar values.\<close>

theorem utf8_standard:
  "utf8 s \<longleftrightarrow> (\<exists>vs. (\<forall>v \<in> set vs. scalar_value v) \<and> map of_char s = concat (map utf8_encode vs))"
  unfolding utf8_def using utf8_bytes_decoded utf8_bytes_encoded by metis

lemma utf8_Nil [simp]: "utf8 []"
  by (simp add: utf8_def)

theorem utf8_standard_witness: "utf8 [CHR 0xE2, CHR 0x82, CHR 0xAC] \<and> scalar_value 0x20AC \<and> \<not> utf8 [CHR 0xC0, CHR 0x80]"
proof -
  have "map of_char [CHR 0xE2, CHR 0x82, CHR 0xAC] = concat (map utf8_encode [0x20AC])" "scalar_value 0x20AC"
    by (simp_all add: utf8_encode_def scalar_value_def)
  then have "utf8 [CHR 0xE2, CHR 0x82, CHR 0xAC]"
    using utf8_standard [of "[CHR 0xE2, CHR 0x82, CHR 0xAC]"] by (metis empty_iff empty_set set_ConsD)
  moreover have "\<not> utf8 [CHR 0xC0, CHR 0x80]"
    by (simp add: utf8_def lead_class_def)
  ultimately show ?thesis
    using \<open>scalar_value 0x20AC\<close> by simp
qed

end
