(* ===== verification/Reconcile.thy ===== *)
theory Reconcile
  imports Utf8 Media_Types
begin

text \<open>
  The reconciler of src/streaming/src/reconcile.cpp: it joins the hypotheses of overlapping
  windows into one revisable transcript. The model is the whole class. \<open>uuid()\<close> is the stream
  \<open>re_uuid\<close> of identifiers, the \<open>long double\<close> arithmetic on distances and the \<open>double\<close> mean are
  parameters, and the emit callback is a function of the segments it has been given so far that
  may throw. Times are unbounded integers.
\<close>

section \<open>Environment and helpers\<close>

record 'l reconcile_env =
  re_uuid :: "nat \<Rightarrow> string"
  re_refuses :: "transcript_segment list \<Rightarrow> exn option"
  re_distance_zero :: 'l
  re_add_distance :: "'l \<Rightarrow> int \<times> int \<Rightarrow> int \<times> int \<Rightarrow> 'l"
  re_closer :: "'l \<Rightarrow> nat \<Rightarrow> 'l \<Rightarrow> nat \<Rightarrow> bool"
  re_tied :: "'l \<Rightarrow> nat \<Rightarrow> 'l \<Rightarrow> nat \<Rightarrow> bool"
  re_mean_log :: "32 word list \<Rightarrow> nat \<Rightarrow> 64 word"

definition token_limit :: nat where
  "token_limit = 2048"

definition text_limit :: nat where
  "text_limit = 131072"

definition tolerance :: int where
  "tolerance = 350000"

definition micros :: "nat \<Rightarrow> int" where
  "micros sample = int (sample div 16000 * 1000000 + sample mod 16000 * 1000000 div 16000)"

definition rendered :: "speech_token \<Rightarrow> string" where
  "rendered t = (case tk_rendered t of Some r \<Rightarrow> r | None \<Rightarrow> tk_text t)"

definition token_bytes :: "speech_token \<Rightarrow> nat" where
  "token_bytes t = length (tk_text t) + (case tk_rendered t of Some r \<Rightarrow> length r | None \<Rightarrow> 0)"

text \<open>The letters, digits and non-ASCII bytes of a text, in lower case.\<close>

definition key_byte :: "nat \<Rightarrow> nat option" where
  "key_byte c =
     (if 65 \<le> c \<and> c \<le> 90 then Some (c + 32)
      else if 97 \<le> c \<and> c \<le> 122 \<or> 48 \<le> c \<and> c \<le> 57 \<or> 128 \<le> c then Some c
      else None)"

definition token_key :: "string \<Rightarrow> nat list" where
  "token_key s = List.map_filter (\<lambda>c. key_byte (of_char c)) s"

definition start_us :: "speech_token \<Rightarrow> int" where
  "start_us t = (case tk_start_us t of Some v \<Rightarrow> v | None \<Rightarrow> 0)"

definition end_us :: "speech_token \<Rightarrow> int" where
  "end_us t = (case tk_end_us t of Some v \<Rightarrow> v | None \<Rightarrow> 0)"

definition timed_match :: "speech_token \<Rightarrow> speech_token \<Rightarrow> bool" where
  "timed_match a b \<longleftrightarrow> max (start_us a) (start_us b) - min (end_us a) (end_us b) \<le> tolerance"

section \<open>The anchor\<close>

record 'l run =
  run_score :: nat
  run_count :: nat
  run_distance :: 'l

record 'l match =
  old_start :: nat
  new_start :: nat
  match_run :: "'l run"
  ambiguous :: bool

definition run_zero :: "'l reconcile_env \<Rightarrow> 'l run" where
  "run_zero R = \<lparr>run_score = 0, run_count = 0, run_distance = re_distance_zero R\<rparr>"

definition pairs_up :: "int \<Rightarrow> speech_token \<Rightarrow> speech_token \<Rightarrow> bool" where
  "pairs_up bound a b \<longleftrightarrow> token_key (rendered a) = token_key (rendered b) \<and>
     (token_key (rendered a) = [] \<or> timed_match a b) \<and> start_us b \<le> bound + tolerance"

text \<open>A cell of the table: the run that begins at this pair, one longer than the run at the
  next pair.\<close>

definition run_extend :: "'l reconcile_env \<Rightarrow> speech_token \<Rightarrow> speech_token \<Rightarrow> 'l run \<Rightarrow> 'l run" where
  "run_extend R a b r = \<lparr>run_score = run_score r + length (token_key (rendered a)), run_count = Suc (run_count r),
     run_distance = re_add_distance R (run_distance r) (start_us a, end_us a) (start_us b, end_us b)\<rparr>"

definition consider_run :: "'l reconcile_env \<Rightarrow> nat \<Rightarrow> nat \<Rightarrow> 'l run \<Rightarrow> 'l match \<Rightarrow> 'l match" where
  "consider_run R i j candidate best =
     (let b = match_run best; taken = \<lparr>old_start = i, new_start = j, match_run = candidate, ambiguous = False\<rparr> in
      if run_score candidate > run_score b \<or> run_score candidate = run_score b \<and> run_count candidate > run_count b then taken
      else if run_score candidate = run_score b \<and> run_count candidate = run_count b \<and> run_score candidate \<noteq> 0 then
        (if re_closer R (run_distance candidate) (run_count candidate) (run_distance b) (run_count b) then taken
         else if re_tied R (run_distance candidate) (run_count candidate) (run_distance b) (run_count b)
         then best\<lparr>ambiguous := True\<rparr> else best)
      else best)"

definition anchor_cell :: "'l reconcile_env \<Rightarrow> int \<Rightarrow> speech_token \<Rightarrow> speech_token list \<Rightarrow> 'l run list \<Rightarrow> nat \<Rightarrow> 'l run" where
  "anchor_cell R bound a fresh next_row j =
     (if pairs_up bound a (fresh ! j) then run_extend R a (fresh ! j) (next_row ! Suc j) else run_zero R)"

text \<open>One row, from the last column to the first; the last cell of a row is never written.\<close>

definition anchor_row ::
  "'l reconcile_env \<Rightarrow> int \<Rightarrow> speech_token list \<Rightarrow> speech_token list \<Rightarrow> nat \<Rightarrow> 'l run list \<times> 'l match \<Rightarrow> 'l run list \<times> 'l match" where
  "anchor_row R bound old fresh i acc =
     (let row = map (anchor_cell R bound (old ! i) fresh (fst acc)) [0..<length fresh] @ [run_zero R]
      in (row, foldr (\<lambda>j best. if pairs_up bound (old ! i) (fresh ! j) then consider_run R i j (row ! j) best else best)
                 [0..<length fresh] (snd acc)))"

definition anchor :: "'l reconcile_env \<Rightarrow> speech_token list \<Rightarrow> speech_token list \<Rightarrow> int \<Rightarrow> 'l match" where
  "anchor R old fresh bound =
     snd (foldr (anchor_row R bound old fresh) [0..<length old]
       (replicate (Suc (length fresh)) (run_zero R),
        \<lparr>old_start = 0, new_start = 0, match_run = run_zero R, ambiguous = False\<rparr>))"

definition joined_key :: "speech_token list \<Rightarrow> nat list" where
  "joined_key tokens = concat (map (\<lambda>t. token_key (rendered t)) tokens)"

section \<open>State\<close>

text \<open>\<open>rc_emitted\<close> are the segments handed to the callback, \<open>rc_made\<close> counts the identifiers made.\<close>

record reconciler =
  rc_pending :: "speech_token list"
  rc_metadata :: transcript_segment
  rc_id :: string
  rc_revision :: nat
  rc_window :: nat
  rc_end_sample :: nat
  rc_end_time :: int
  rc_track :: nat
  rc_uncertain :: bool
  rc_closed :: bool
  rc_have_final_text :: bool
  rc_final_ends_space :: bool
  rc_made :: nat
  rc_emitted :: "transcript_segment list"

definition producer_empty :: producer where
  "producer_empty = \<lparr>pr_machine_id = [], pr_service = [], pr_app_version = [], pr_build_id = [], pr_library_version = [],
     pr_execution_backend = [], pr_model_id = [], pr_model_sha256 = [], pr_configuration_sha256 = []\<rparr>"

definition segment_empty :: transcript_segment where
  "segment_empty = \<lparr>ts_segment_id = [], ts_revision = 0, ts_final = False, ts_track_id = 0, ts_start_us = 0, ts_end_us = 0,
     ts_text = [], ts_source_language = [], ts_output_language = [], ts_task = SPEECH_TASK_UNSPECIFIED,
     ts_average_log_probability = None, ts_tokens = [], ts_reconciliation = RS_UNSPECIFIED,
     ts_producer = producer_empty, ts_contributors = []\<rparr>"

definition reconciler_new :: reconciler where
  "reconciler_new = \<lparr>rc_pending = [], rc_metadata = segment_empty, rc_id = [], rc_revision = 0, rc_window = 0,
     rc_end_sample = 0, rc_end_time = 0, rc_track = 0, rc_uncertain = False, rc_closed = False,
     rc_have_final_text = False, rc_final_ends_space = False, rc_made = 0, rc_emitted = []\<rparr>"

section \<open>Output\<close>

definition is_space :: "char \<Rightarrow> bool" where
  "is_space c \<longleftrightarrow> c = CHR '' '' \<or> (9 \<le> (of_char c :: nat) \<and> (of_char c :: nat) \<le> 13)"

text \<open>The token as it is emitted: a native word start gets its separator back.\<close>

definition spaced_token :: "bool \<Rightarrow> speech_token \<Rightarrow> speech_token" where
  "spaced_token needs_separator t =
     (if tk_parakeet t = Some True \<and> needs_separator \<and> rendered t \<noteq> [] \<and> \<not> is_space (hd (rendered t))
      then t\<lparr>tk_rendered := Some (CHR '' '' # rendered t)\<rparr> else t)"

text \<open>The loop over the tokens of a segment: the tokens emitted, the text and the byte count.\<close>

fun output_tokens ::
  "bool \<Rightarrow> speech_token list \<Rightarrow> speech_token list \<times> string \<times> nat \<Rightarrow> exn + speech_token list \<times> string" where
  "output_tokens joins [] (emitted, txt, bytes) = Inr (emitted, txt)"
| "output_tokens joins (t # ts) (emitted, txt, bytes) =
     (let e = spaced_token (if txt = [] then joins else \<not> is_space (last txt)) t; bytes1 = bytes + token_bytes e in
      if bytes1 > text_limit then Inl (Failure RESOURCE_EXHAUSTED ''reconciled token text limit exceeded'')
      else output_tokens joins ts (emitted @ [e], txt @ rendered e, bytes1))"

definition int64_max :: int where
  "int64_max = 2 ^ 63 - 1"

definition int64_min :: int where
  "int64_min = - (2 ^ 63)"

definition mean_log :: "'l reconcile_env \<Rightarrow> speech_token list \<Rightarrow> 64 word option" where
  "mean_log R ts = (if list_all (\<lambda>t. tk_whisper t \<noteq> None) ts
     then Some (re_mean_log R (List.map_filter tk_whisper ts) (length ts)) else None)"

definition output_segment ::
  "'l reconcile_env \<Rightarrow> reconciler \<Rightarrow> speech_token list \<Rightarrow> bool \<Rightarrow> reconciliation_status \<Rightarrow> speech_token list \<times> string \<Rightarrow>
   transcript_segment" where
  "output_segment R s ts final status body =
     (rc_metadata s)\<lparr>ts_segment_id := rc_id s, ts_revision := rc_revision s, ts_final := final, ts_reconciliation := status,
       ts_tokens := fst body, ts_text := snd body,
       ts_start_us := foldl min int64_max (map start_us ts), ts_end_us := foldl max int64_min (map end_us ts),
       ts_average_log_probability := mean_log R ts\<rparr>"

definition next_revision :: "'l reconcile_env \<Rightarrow> reconciler \<Rightarrow> reconciler" where
  "next_revision R s =
     (let s1 = (if rc_id s = [] then s\<lparr>rc_id := re_uuid R (rc_made s), rc_made := Suc (rc_made s), rc_revision := 0\<rparr> else s)
      in s1\<lparr>rc_revision := Suc (rc_revision s1)\<rparr>)"

definition emit_segment :: "'l reconcile_env \<Rightarrow> transcript_segment \<Rightarrow> reconciler \<Rightarrow> reconciler outcome" where
  "emit_segment R segment s =
     (let s1 = s\<lparr>rc_emitted := rc_emitted s @ [segment]\<rparr> in (s1, re_refuses R (rc_emitted s1)))"

definition after_final :: "nat \<Rightarrow> string \<Rightarrow> reconciler \<Rightarrow> reconciler" where
  "after_final count txt s =
     (let s1 = (if txt \<noteq> [] then s\<lparr>rc_have_final_text := True, rc_final_ends_space := is_space (last txt)\<rparr> else s)
      in s1\<lparr>rc_pending := drop count (rc_pending s1), rc_id := [], rc_revision := 0\<rparr>)"

definition reconcile_output :: "'l reconcile_env \<Rightarrow> nat \<Rightarrow> bool \<Rightarrow> reconciliation_status \<Rightarrow> reconciler \<Rightarrow> reconciler outcome" where
  "reconcile_output R count final status s =
     (if count = 0 then (s, None)
      else let s1 = next_revision R s; ts = take count (rc_pending s) in
        (case output_tokens (rc_have_final_text s \<and> \<not> rc_final_ends_space s) ts ([], [], 0) of
           Inl e \<Rightarrow> (s1, Some e)
         | Inr body \<Rightarrow>
             if \<not> utf8 (snd body) then (s1, Some (Failure DATA_LOSS ''reconciled text is not complete UTF-8''))
             else and_then (emit_segment R (output_segment R s1 ts final status body) s1)
               (\<lambda>s2. (if final then after_final count (snd body) s2 else s2, None))))"

section \<open>Accepting a hypothesis\<close>

definition clamp_token :: "int \<Rightarrow> int \<Rightarrow> speech_token \<Rightarrow> speech_token" where
  "clamp_token lo hi t = t\<lparr>tk_start_us := Some (max lo (min hi (start_us t))), tk_end_us := Some (max lo (min hi (end_us t)))\<rparr>"

text \<open>The loop over the tokens of one segment: the tokens so far, the segment's text, the byte
  count and whether a time was out of the window.\<close>

fun lexical_tokens ::
  "int \<Rightarrow> int \<Rightarrow> speech_token list \<Rightarrow> speech_token list \<times> string \<times> nat \<times> bool \<Rightarrow> exn + speech_token list \<times> string \<times> nat \<times> bool" where
  "lexical_tokens lo hi [] acc = Inr acc"
| "lexical_tokens lo hi (t # ts) (fresh, txt, bytes, bad) =
     (if tk_kind t = TK_CONTROL then lexical_tokens lo hi ts (fresh, txt, bytes, bad)
      else if tk_kind t \<noteq> TK_TEXT \<or> tk_start_us t = None \<or> tk_end_us t = None \<or> end_us t < start_us t
      then Inl (Failure FAILED_PRECONDITION ''reconciliation requires classified lexical tokens with timings'')
      else let bytes1 = bytes + token_bytes t in
        if Suc (length fresh) > token_limit \<or> bytes1 > text_limit
        then Inl (Failure RESOURCE_EXHAUSTED ''reconciliation context limit exceeded'')
        else let out = start_us t < lo \<or> end_us t > hi in
          lexical_tokens lo hi ts (fresh @ [if out then clamp_token lo hi t else t], txt @ rendered t, bytes1, bad \<or> out))"

definition same_speech :: "transcript_segment \<Rightarrow> transcript_segment \<Rightarrow> bool" where
  "same_speech a b \<longleftrightarrow> ts_task a = ts_task b \<and> ts_source_language a = ts_source_language b \<and>
     ts_output_language a = ts_output_language b"

fun lexical_segments ::
  "nat \<Rightarrow> int \<Rightarrow> int \<Rightarrow> transcript_segment list \<Rightarrow> speech_token list \<times> transcript_segment option \<times> nat \<times> bool \<Rightarrow>
   exn + speech_token list \<times> transcript_segment option \<times> nat \<times> bool" where
  "lexical_segments track lo hi [] acc = Inr acc"
| "lexical_segments track lo hi (s # ss) (fresh, metadata, bytes, bad) =
     (if ts_track_id s \<noteq> track \<or> (case metadata of Some m \<Rightarrow> \<not> same_speech s m | None \<Rightarrow> False)
      then Inl (Failure INVALID_ARGUMENT ''inconsistent hypothesis segment identity'')
      else (case lexical_tokens lo hi (ts_tokens s) (fresh, [], bytes, bad) of
          Inl e \<Rightarrow> Inl e
        | Inr (fresh1, txt, bytes1, bad1) \<Rightarrow>
            if txt \<noteq> ts_text s \<or> \<not> utf8 txt
            then Inl (Failure DATA_LOSS ''lexical tokens do not reconstruct native text'')
            else lexical_segments track lo hi ss
              (fresh1, Some (case metadata of Some m \<Rightarrow> m | None \<Rightarrow> s), bytes1, bad1)))"

text \<open>Whether the anchor gives a safe join, and the joined tokens.\<close>

definition join_is_safe ::
  "'l match \<Rightarrow> speech_token list \<Rightarrow> speech_token list \<Rightarrow> transcript_segment \<Rightarrow> transcript_segment \<Rightarrow> int \<Rightarrow> bool" where
  "join_is_safe m pending fresh metadata previous end_time \<longleftrightarrow>
     (let a_end = old_start m + run_count (match_run m); b_end = new_start m + run_count (match_run m) in
      run_score (match_run m) \<ge> 2 \<and> \<not> ambiguous m \<and> fresh \<noteq> [] \<and> same_speech metadata previous \<and>
      (old_start m \<noteq> 0 \<and> new_start m \<noteq> 0 \<longrightarrow>
         joined_key (take (old_start m) pending) = joined_key (take (new_start m) fresh)) \<and>
      (a_end < length pending \<longrightarrow>
         (let old_tail = joined_key (drop a_end pending); new_tail = joined_key (drop b_end fresh) in
          old_tail \<noteq> [] \<and> take (length old_tail) new_tail = old_tail \<and> end_us (last pending) \<ge> end_time - 500000)))"

definition join_tokens :: "'l match \<Rightarrow> speech_token list \<Rightarrow> speech_token list \<Rightarrow> speech_token list" where
  "join_tokens m pending fresh =
     take (old_start m) pending @ drop (if old_start m \<noteq> 0 then new_start m else 0) fresh"

definition flush_status :: "reconciler \<Rightarrow> reconciliation_status" where
  "flush_status s = (if rc_uncertain s then RS_UNRESOLVED else RS_DIRECT)"

text \<open>What becomes of the pending tokens: finalized, or joined with the fresh ones.\<close>

definition settle_pending ::
  "'l reconcile_env \<Rightarrow> speech_hypothesis \<Rightarrow> speech_token list \<Rightarrow> transcript_segment \<Rightarrow> bool \<Rightarrow> reconciler \<Rightarrow>
   (reconciler outcome) \<times> speech_token list \<times> reconciliation_status" where
  "settle_pending R h fresh metadata bad s =
     (if rc_pending s = [] then ((s, None), fresh, RS_DIRECT)
      else let beyond = (\<not> bad \<and> fresh \<noteq> [] \<and> list_all (\<lambda>t. start_us t > rc_end_time s + tolerance) fresh) in
        if sh_first_sample h \<ge> sh_first_new_sample h \<or> beyond \<or> fresh = []
        then (and_then (reconcile_output R (length (rc_pending s)) True (flush_status s) s)
                (\<lambda>s1. (s1\<lparr>rc_uncertain := False\<rparr>, None)), fresh, RS_DIRECT)
        else let m = anchor R (rc_pending s) fresh (rc_end_time s) in
          if join_is_safe m (rc_pending s) fresh metadata (rc_metadata s) (rc_end_time s)
          then ((s, None), join_tokens m (rc_pending s) fresh, RS_ALIGNED)
          else (reconcile_output R (length (rc_pending s)) True RS_UNRESOLVED s, fresh, RS_UNRESOLVED))"

text \<open>The loop that finds the last token that can be finalized: all tokens before the cutoff,
  the last boundary at which the text is complete UTF-8, and the start of the last native word.\<close>

fun stable_prefix :: "nat \<Rightarrow> int \<Rightarrow> speech_token list \<Rightarrow> nat \<times> nat \<times> nat \<times> string \<Rightarrow> nat \<times> nat \<times> nat" where
  "stable_prefix overlap cutoff [] (settled, safe, word_start, prefix) = (settled, safe, word_start)"
| "stable_prefix overlap cutoff (t # ts) (settled, safe, word_start, prefix) =
     (if overlap \<noteq> 0 \<and> end_us t > cutoff then (settled, safe, word_start)
      else let prefix1 = prefix @ rendered t in
        stable_prefix overlap cutoff ts
          (Suc settled, if utf8 prefix1 then Suc settled else safe,
           if tk_parakeet t = Some True then settled else word_start, prefix1))"

definition final_boundary :: "nat \<Rightarrow> int \<Rightarrow> speech_token list \<Rightarrow> nat" where
  "final_boundary overlap cutoff pending =
     (case stable_prefix overlap cutoff pending (0, 0, 0, []) of (settled, safe, word_start) \<Rightarrow>
        if settled < length pending \<and> tk_parakeet (pending ! settled) = Some False then min safe word_start else safe)"

definition window_fits :: "speech_hypothesis \<Rightarrow> nat \<Rightarrow> reconciler \<Rightarrow> bool" where
  "window_fits h overlap s \<longleftrightarrow>
     sh_window_number h = rc_window s + 1 \<and> sh_sample_count h \<noteq> 0 \<and> sh_sample_count h \<le> 480000 \<and>
     sh_first_sample h \<le> 100000000000000 \<and> overlap < sh_sample_count h \<and> sh_first_sample h \<le> sh_first_new_sample h \<and>
     sh_first_new_sample h < sh_first_sample h + sh_sample_count h \<and>
     (if rc_window s \<noteq> 0 then sh_first_new_sample h = rc_end_sample s else sh_first_new_sample h = sh_first_sample h)"

definition hypothesis_start :: "speech_hypothesis \<Rightarrow> int" where
  "hypothesis_start h = (case sh_presentation_time_us h of Some t \<Rightarrow> t | None \<Rightarrow> micros (sh_first_sample h))"

definition hypothesis_end :: "speech_hypothesis \<Rightarrow> int" where
  "hypothesis_end h = hypothesis_start h + micros (sh_sample_count h)"

text \<open>From the merged tokens to the end of \<open>accept\<close>: the stable part is finalized, the rest goes
  out as provisional.\<close>

definition output_pending :: "'l reconcile_env \<Rightarrow> reconciliation_status \<Rightarrow> reconciler \<Rightarrow> reconciler outcome" where
  "output_pending R status s =
     (let s1 = s\<lparr>rc_uncertain := rc_pending s \<noteq> [] \<and> status = RS_UNRESOLVED\<rparr>
      in if rc_pending s1 \<noteq> [] then reconcile_output R (length (rc_pending s1)) False RS_PENDING s1 else (s1, None))"

definition window_done :: "speech_hypothesis \<Rightarrow> reconciler \<Rightarrow> reconciler" where
  "window_done h s = s\<lparr>rc_track := sh_track_id h, rc_window := Suc (rc_window s),
     rc_end_sample := sh_first_sample h + sh_sample_count h, rc_end_time := hypothesis_end h\<rparr>"

definition emit_window ::
  "'l reconcile_env \<Rightarrow> speech_hypothesis \<Rightarrow> nat \<Rightarrow> bool \<Rightarrow> speech_token list \<Rightarrow> transcript_segment \<Rightarrow> reconciliation_status \<Rightarrow>
   reconciler \<Rightarrow> reconciler outcome" where
  "emit_window R h overlap bad tokens metadata status0 s0 =
     (let s = s0\<lparr>rc_pending := tokens, rc_metadata := metadata\<rparr>;
          status = (if bad \<or> rc_uncertain s then RS_UNRESOLVED else status0) in
      if length tokens > token_limit then (s, Some (Failure RESOURCE_EXHAUSTED ''reconciliation context limit exceeded''))
      else if sum_list (map token_bytes tokens) > text_limit
      then (s, Some (Failure RESOURCE_EXHAUSTED ''reconciliation text limit exceeded''))
      else and_then (reconcile_output R (final_boundary overlap (hypothesis_end h - micros overlap) tokens) True status s) (\<lambda>s1.
        and_then (output_pending R status s1) (\<lambda>s2. (window_done h s2, None))))"

definition accept_open :: "'l reconcile_env \<Rightarrow> speech_hypothesis \<Rightarrow> nat \<Rightarrow> reconciler \<Rightarrow> reconciler outcome" where
  "accept_open R h overlap s =
     (if rc_window s \<noteq> 0 \<and> sh_track_id h \<noteq> rc_track s
      then (s, Some (Failure INVALID_ARGUMENT ''reconciliation track changed''))
      else if \<not> window_fits h overlap s
      then (s, Some (Failure INVALID_ARGUMENT ''invalid reconciliation window sequence''))
      else if hypothesis_start h < - (2 ^ 62) \<or> hypothesis_start h > 2 ^ 62
      then (s, Some (Failure INVALID_ARGUMENT ''reconciliation timestamp exceeds limit''))
      else (case lexical_segments (sh_track_id h) (hypothesis_start h) (hypothesis_end h) (sh_segments h) ([], None, 0, False) of
          Inl e \<Rightarrow> (s, Some e)
        | Inr (fresh, seen, _, bad) \<Rightarrow>
            let metadata = (case seen of Some m \<Rightarrow> m | None \<Rightarrow> segment_empty) in
            (case settle_pending R h fresh metadata bad s of (r, tokens, status) \<Rightarrow>
               and_then r (emit_window R h overlap bad tokens metadata status))))"

text \<open>An exception closes the reconciler.\<close>

definition reconcile_accept :: "'l reconcile_env \<Rightarrow> speech_hypothesis \<Rightarrow> nat \<Rightarrow> reconciler \<Rightarrow> reconciler outcome" where
  "reconcile_accept R h overlap s =
     (if rc_closed s then (s, Some (Logic_error ''hypothesis after reconciliation close''))
      else case accept_open R h overlap s of
        (s1, None) \<Rightarrow> (s1, None)
      | (s1, Some e) \<Rightarrow> (s1\<lparr>rc_closed := True\<rparr>, Some e))"

definition reconcile_finish :: "'l reconcile_env \<Rightarrow> reconciler \<Rightarrow> reconciler outcome" where
  "reconcile_finish R s =
     (if rc_closed s then (s, Some (Logic_error ''reconciliation already closed''))
      else reconcile_output R (length (rc_pending s)) True (flush_status s) (s\<lparr>rc_closed := True\<rparr>))"

text \<open>A whole track: its hypotheses with the overlap each will have with the next, and the end.\<close>

fun accept_all :: "'l reconcile_env \<Rightarrow> (speech_hypothesis \<times> nat) list \<Rightarrow> reconciler \<Rightarrow> reconciler outcome" where
  "accept_all R [] s = (s, None)"
| "accept_all R ((h, overlap) # hs) s = and_then (reconcile_accept R h overlap s) (accept_all R hs)"

definition reconcile_track :: "'l reconcile_env \<Rightarrow> (speech_hypothesis \<times> nat) list \<Rightarrow> reconciler outcome" where
  "reconcile_track R hs = and_then (accept_all R hs reconciler_new) (reconcile_finish R)"

end
