(* ===== verification/Reconcile_Proofs.thy ===== *)
theory Reconcile_Proofs
  imports Reconcile "HOL-Library.Sublist" "HOL-Library.Product_Lexorder"
begin

text \<open>
  What the reconciler guarantees about words: the anchor is a longest common run, a join loses no
  recognised word, and a whole track loses and invents none.
\<close>

section \<open>The anchor is a longest common run\<close>

text \<open>The reference: the run of pairs that begins at two positions, read off the two suffixes.\<close>

fun run_from :: "'l reconcile_env \<Rightarrow> int \<Rightarrow> speech_token list \<Rightarrow> speech_token list \<Rightarrow> 'l run" where
  "run_from R bound (a # as) (b # bs) = (if pairs_up bound a b then run_extend R a b (run_from R bound as bs) else run_zero R)"
| "run_from R bound [] ys = run_zero R"
| "run_from R bound xs [] = run_zero R"

lemma run_from_Nil [simp]: "run_from R bound xs [] = run_zero R"
  by (cases xs) simp_all

lemma run_zero_simps [simp]: "run_count (run_zero R) = 0" "run_score (run_zero R) = 0"
  by (simp_all add: run_zero_def)

text \<open>A run is a stretch of pairs that cannot be continued, and its score is the size of its keys.\<close>

lemma run_from_pairs:
  "run_count (run_from R bound xs ys) \<le> length xs \<and> run_count (run_from R bound xs ys) \<le> length ys \<and>
   list_all2 (pairs_up bound) (take (run_count (run_from R bound xs ys)) xs) (take (run_count (run_from R bound xs ys)) ys) \<and>
   run_score (run_from R bound xs ys) = length (joined_key (take (run_count (run_from R bound xs ys)) xs))"
  by (induction R bound xs ys rule: run_from.induct) (auto simp: run_extend_def joined_key_def)

lemma pairs_up_joined_key:
  "list_all2 (pairs_up bound) xs ys \<Longrightarrow> joined_key xs = joined_key ys"
  by (induction rule: list_all2_induct) (auto simp: joined_key_def pairs_up_def)

lemma fst_anchor_row:
  "fst (anchor_row R bound old fresh i acc) = map (anchor_cell R bound (old ! i) fresh (fst acc)) [0..<length fresh] @ [run_zero R]"
  by (simp add: anchor_row_def Let_def)

lemma snd_anchor_row:
  "snd (anchor_row R bound old fresh i acc) =
     foldr (\<lambda>j best. if pairs_up bound (old ! i) (fresh ! j)
         then consider_run R i j (fst (anchor_row R bound old fresh i acc) ! j) best else best) [0..<length fresh] (snd acc)"
  unfolding fst_anchor_row by (simp add: anchor_row_def Let_def)

lemma anchor_row_table:
  assumes "i < length old" "length (fst acc) = Suc (length fresh)"
    and "\<forall>j \<le> length fresh. fst acc ! j = run_from R bound (drop (Suc i) old) (drop j fresh)"
  shows "length (fst (anchor_row R bound old fresh i acc)) = Suc (length fresh)"
    "\<forall>j \<le> length fresh. fst (anchor_row R bound old fresh i acc) ! j = run_from R bound (drop i old) (drop j fresh)"
proof -
  show "length (fst (anchor_row R bound old fresh i acc)) = Suc (length fresh)"
    by (simp add: fst_anchor_row)
  show "\<forall>j \<le> length fresh. fst (anchor_row R bound old fresh i acc) ! j = run_from R bound (drop i old) (drop j fresh)"
  proof (intro allI impI)
    fix j assume "j \<le> length fresh"
    then consider "j = length fresh" | "j < length fresh"
      by linarith
    then show "fst (anchor_row R bound old fresh i acc) ! j = run_from R bound (drop i old) (drop j fresh)"
    proof cases
      case 1
      then show ?thesis
        by (simp add: fst_anchor_row nth_append)
    next
      case 2
      then have "drop j fresh = fresh ! j # drop (Suc j) fresh" "drop i old = old ! i # drop (Suc i) old"
        using assms(1) by (simp_all add: Cons_nth_drop_Suc)
      with 2 assms(3) show ?thesis
        by (simp add: fst_anchor_row nth_append anchor_cell_def)
    qed
  qed
qed

text \<open>The size of a run, in the order the anchor prefers.\<close>

definition run_size :: "'l run \<Rightarrow> nat \<times> nat" where
  "run_size r = (run_score r, run_count r)"

definition match_sound :: "'l reconcile_env \<Rightarrow> int \<Rightarrow> speech_token list \<Rightarrow> speech_token list \<Rightarrow> 'l match \<Rightarrow> bool" where
  "match_sound R bound old fresh m \<longleftrightarrow> old_start m \<le> length old \<and> new_start m \<le> length fresh \<and>
     (match_run m = run_zero R \<or> match_run m = run_from R bound (drop (old_start m) old) (drop (new_start m) fresh))"

lemma consider_run_cases:
  obtains (taken) "consider_run R i j r best = \<lparr>old_start = i, new_start = j, match_run = r, ambiguous = False\<rparr>"
      "run_size (match_run best) \<le> run_size r"
  | (kept) b where "consider_run R i j r best = best\<lparr>ambiguous := b\<rparr>" "run_size r \<le> run_size (match_run best)"
proof (cases "run_size (match_run best) < run_size r")
  case True
  then have "run_score (match_run best) < run_score r \<or> run_score r = run_score (match_run best) \<and> run_count r > run_count (match_run best)"
    by (auto simp: run_size_def)
  then show thesis
    using taken True by (auto simp: consider_run_def)
next
  case False
  then have le: "run_size r \<le> run_size (match_run best)"
    by simp
  then have "\<not> (run_score (match_run best) < run_score r \<or> run_score r = run_score (match_run best) \<and> run_count r > run_count (match_run best))"
    by (auto simp: run_size_def)
  moreover define tie where "tie \<longleftrightarrow> run_score r = run_score (match_run best) \<and> run_count r = run_count (match_run best) \<and> run_score r \<noteq> 0"
  moreover define closer where "closer \<longleftrightarrow> re_closer R (run_distance r) (run_count r) (run_distance (match_run best)) (run_count (match_run best))"
  moreover define tied where "tied \<longleftrightarrow> re_tied R (run_distance r) (run_count r) (run_distance (match_run best)) (run_count (match_run best))"
  ultimately have c: "consider_run R i j r best =
      (if tie then if closer then \<lparr>old_start = i, new_start = j, match_run = r, ambiguous = False\<rparr>
       else if tied then best\<lparr>ambiguous := True\<rparr> else best else best)"
    by (auto simp: consider_run_def Let_def)
  show thesis
  proof (cases "tie \<and> closer")
    case True
    then show thesis
      using taken c by (simp add: tie_def run_size_def)
  next
    case False
    then show thesis
      using c le kept [of True] kept [of "ambiguous best"] by (cases "tie \<and> tied") auto
  qed
qed

lemma consider_row:
  assumes "i < length old" "match_sound R bound old fresh best"
    and "\<forall>j < length fresh. row ! j = run_from R bound (drop i old) (drop j fresh)"
  defines "scan \<equiv> \<lambda>k. foldr (\<lambda>j best. if pairs_up bound (old ! i) (fresh ! j) then consider_run R i j (row ! j) best else best)
     [k..<length fresh] best"
  shows "k \<le> length fresh \<Longrightarrow> match_sound R bound old fresh (scan k) \<and> run_size (match_run best) \<le> run_size (match_run (scan k)) \<and>
    (\<forall>j. k \<le> j \<and> j < length fresh \<longrightarrow> run_size (run_from R bound (drop i old) (drop j fresh)) \<le> run_size (match_run (scan k)))"
proof (induction k rule: inc_induct)
  case base
  with assms(2) show ?case
    by (auto simp: scan_def)
next
  case (step k)
  let ?r = "run_from R bound (drop i old) (drop k fresh)"
  have up: "[k..<length fresh] = k # [Suc k..<length fresh]"
    using step(2) by (rule upt_conv_Cons)
  have s: "scan k = (if pairs_up bound (old ! i) (fresh ! k) then consider_run R i k (row ! k) (scan (Suc k)) else scan (Suc k))"
    by (simp add: scan_def up)
  have better: "j = k \<or> Suc k \<le> j" if "k \<le> j" for j
    using that by linarith
  have r: "?r = run_zero R" if "\<not> pairs_up bound (old ! i) (fresh ! k)"
    using that assms(1) step(2) by (simp add: Cons_nth_drop_Suc [symmetric])
  show ?case
  proof (cases "pairs_up bound (old ! i) (fresh ! k)")
    case False
    then have "run_size ?r \<le> run_size (match_run (scan (Suc k)))"
      using r by (simp add: run_size_def less_eq_prod_def)
    with False step.IH better show ?thesis
      unfolding s by auto
  next
    case True
    show ?thesis
    proof (cases rule: consider_run_cases [of R i k ?r "scan (Suc k)"])
      case taken
      with True step assms(1,3) better show ?thesis
        unfolding s by (auto simp: match_sound_def intro: order_trans)
    next
      case (kept b)
      with True step assms(1,3) better show ?thesis
        unfolding s by (auto simp: match_sound_def)
    qed
  qed
qed

lemma anchor_rows:
  defines "rows \<equiv> \<lambda>R bound old fresh k. foldr (anchor_row R bound old fresh) [k..<length old]
       (replicate (Suc (length fresh)) (run_zero R), \<lparr>old_start = 0, new_start = 0, match_run = run_zero R, ambiguous = False\<rparr>)"
  shows "k \<le> length old \<Longrightarrow>
    length (fst (rows R bound old fresh k)) = Suc (length fresh) \<and>
    (\<forall>j \<le> length fresh. fst (rows R bound old fresh k) ! j = run_from R bound (drop k old) (drop j fresh)) \<and>
    match_sound R bound old fresh (snd (rows R bound old fresh k)) \<and>
    (\<forall>i j. k \<le> i \<and> i < length old \<and> j < length fresh \<longrightarrow>
       run_size (run_from R bound (drop i old) (drop j fresh)) \<le> run_size (match_run (snd (rows R bound old fresh k))))"
proof (induction k rule: inc_induct)
  case base
  show ?case
    by (simp add: rows_def match_sound_def nth_Cons' del: replicate_Suc)
next
  case (step k)
  let ?acc = "rows R bound old fresh (Suc k)" and ?new = "anchor_row R bound old fresh k (rows R bound old fresh (Suc k))"
  have n: "rows R bound old fresh k = ?new"
    by (simp add: rows_def upt_conv_Cons [OF step(2)])
  note table = anchor_row_table [OF step(2), of ?acc fresh R bound]
  have row: "\<forall>j < length fresh. fst ?new ! j = run_from R bound (drop k old) (drop j fresh)"
    using table step.IH by simp
  note best = consider_row [OF step(2) _ row, of "snd ?acc" 0, folded snd_anchor_row]
  have "k \<le> i \<Longrightarrow> i = k \<or> Suc k \<le> i" for i
    by linarith
  then show ?case
    unfolding n using table best step.IH by (fastforce intro: order_trans)
qed

text \<open>C25: the anchor is what a search over all pairs of positions would find: what it returns is
  a common run, position by position of equal keys and close times, and no run that begins at any
  pair has a higher score, or as high a score and more tokens.\<close>

theorem anchor_longest_run:
  "(match_run (anchor R old fresh bound) =
      run_from R bound (drop (old_start (anchor R old fresh bound)) old) (drop (new_start (anchor R old fresh bound)) fresh) \<or>
    match_run (anchor R old fresh bound) = run_zero R) \<and>
   (\<forall>i < length old. \<forall>j < length fresh. run_size (run_from R bound (drop i old) (drop j fresh)) \<le> run_size (match_run (anchor R old fresh bound)))"
  using anchor_rows [of 0 old R bound fresh] by (auto simp: anchor_def match_sound_def)

section \<open>A join loses no word\<close>

lemma joined_key_append [simp]: "joined_key (xs @ ys) = joined_key xs @ joined_key ys"
  by (simp add: joined_key_def)

lemma joined_key_Nil [simp]: "joined_key [] = []"
  by (simp add: joined_key_def)

lemma anchor_common:
  fixes R old fresh bound
  defines "m \<equiv> anchor R old fresh bound"
  defines "c \<equiv> run_count (match_run m)"
  shows "old_start m + c \<le> length old" "new_start m + c \<le> length fresh"
    "joined_key (take c (drop (old_start m) old)) = joined_key (take c (drop (new_start m) fresh))"
proof -
  have m: "match_sound R bound old fresh m"
    using anchor_rows [of 0 old R bound fresh] by (auto simp: anchor_def m_def)
  have "(old_start m + c \<le> length old \<and> new_start m + c \<le> length fresh) \<and>
    joined_key (take c (drop (old_start m) old)) = joined_key (take c (drop (new_start m) fresh))"
  proof (cases "match_run m = run_zero R")
    case True
    with m show ?thesis
      by (simp add: c_def match_sound_def)
  next
    case False
    with m have r: "match_run m = run_from R bound (drop (old_start m) old) (drop (new_start m) fresh)"
      by (simp add: match_sound_def)
    show ?thesis
      using run_from_pairs [of R bound "drop (old_start m) old" "drop (new_start m) fresh", folded r, folded c_def]
        pairs_up_joined_key m by (fastforce simp: match_sound_def)
  qed
  then show "old_start m + c \<le> length old" "new_start m + c \<le> length fresh"
    "joined_key (take c (drop (old_start m) old)) = joined_key (take c (drop (new_start m) fresh))"
    by blast+
qed

lemma split_at_run: "i + c \<le> length xs \<Longrightarrow> joined_key xs =
    joined_key (take i xs) @ joined_key (take c (drop i xs)) @ joined_key (drop (i + c) xs)"
  by (metis append_take_drop_id drop_drop add.commute joined_key_append)

lemma join_keeps_words:
  assumes "m = anchor R old fresh bound" "join_is_safe m old fresh metadata previous end_time"
  shows "suffix (joined_key fresh) (joined_key (join_tokens m old fresh)) \<and>
    sublist (joined_key old) (joined_key (join_tokens m old fresh))"
proof -
  let ?c = "run_count (match_run m)" and ?i = "old_start m" and ?j = "new_start m"
  note c = anchor_common [of R old fresh bound, folded assms(1)]
  have old: "joined_key old = joined_key (take ?i old) @ joined_key (take ?c (drop ?j fresh)) @ joined_key (drop (?i + ?c) old)"
    using split_at_run [OF c(1)] c(3) by simp
  have fresh: "joined_key fresh = joined_key (take ?j fresh) @ joined_key (drop ?j fresh)"
    by (simp flip: joined_key_append)
  have rest: "joined_key (drop ?j fresh) = joined_key (take ?c (drop ?j fresh)) @ joined_key (drop (?j + ?c) fresh)"
    by (metis append_take_drop_id drop_drop add.commute joined_key_append)
  obtain x where x: "joined_key (drop (?j + ?c) fresh) = joined_key (drop (?i + ?c) old) @ x"
  proof (cases "?i + ?c < length old")
    case True
    with assms(2) that show thesis
      by (metis append_take_drop_id join_is_safe_def)
  next
    case False
    then show thesis
      using that by simp
  qed
  show ?thesis
  proof (cases "?i = 0")
    case True
    then show ?thesis
      using old fresh rest x by (auto simp: join_tokens_def sublist_def)
  next
    case False
    have "?j \<noteq> 0 \<longrightarrow> joined_key (take ?i old) = joined_key (take ?j fresh)"
      using assms(2) False by (simp add: join_is_safe_def Let_def)
    then have "suffix (joined_key fresh) (joined_key (take ?i old) @ joined_key (drop ?j fresh))"
      using fresh by (cases "?j = 0") (simp_all add: suffix_def)
    then show ?thesis
      using False old rest x by (auto simp: join_tokens_def sublist_def)
  qed
qed

section \<open>One output\<close>

text \<open>A token as it is emitted: itself, or with its separator in front.\<close>

definition emitted_as :: "speech_token \<Rightarrow> speech_token \<Rightarrow> bool" where
  "emitted_as t e \<longleftrightarrow> e = t \<or> e = t\<lparr>tk_rendered := Some (CHR '' '' # rendered t)\<rparr>"

lemma emitted_as_spaced: "emitted_as t (spaced_token b t)"
  by (simp add: emitted_as_def spaced_token_def)

lemma token_key_Cons_space [simp]: "token_key (CHR '' '' # s) = token_key s"
  by (simp add: token_key_def List.map_filter_simps key_byte_def)

lemma rendered_with [simp]: "rendered (t\<lparr>tk_rendered := Some r\<rparr>) = r"
  by (simp add: rendered_def)

lemma list_all2_mem2:
  assumes "list_all2 P xs ys" "y \<in> set ys"
  shows "\<exists>x \<in> set xs. P x y"
  using assms by (induction rule: list_all2_induct) auto

lemma emitted_as_key: "list_all2 emitted_as ts es \<Longrightarrow> joined_key es = joined_key ts"
  by (induction rule: list_all2_induct) (auto simp: joined_key_def emitted_as_def)

lemma output_tokens_Inr:
  assumes "output_tokens joins ts (em, txt, bytes) = Inr (em', txt')" "bytes \<le> text_limit"
  shows "\<exists>es. em' = em @ es \<and> list_all2 emitted_as ts es \<and> txt' = txt @ concat (map rendered es) \<and>
    bytes + sum_list (map token_bytes es) \<le> text_limit"
  using assms
proof (induction joins ts "(em, txt, bytes)" arbitrary: em "txt" bytes rule: output_tokens.induct)
  case (2 joins t ts emitted "txt" bytes)
  let ?e = "spaced_token (if txt = [] then joins else \<not> is_space (last txt)) t"
  have small: "bytes + token_bytes ?e \<le> text_limit" and
    rest: "output_tokens joins ts (emitted @ [?e], txt @ rendered ?e, bytes + token_bytes ?e) = Inr (em', txt')"
    using "2.prems"(1) by (simp_all add: Let_def split: if_splits)
  obtain es where "em' = (emitted @ [?e]) @ es" "list_all2 emitted_as ts es" "txt' = (txt @ rendered ?e) @ concat (map rendered es)"
    "bytes + token_bytes ?e + sum_list (map token_bytes es) \<le> text_limit"
    using "2.hyps" [OF refl refl _ rest small] small by auto
  then show ?case
    by (intro exI [of _ "?e # es"]) (simp add: emitted_as_spaced)
qed simp

lemma next_revision_simps [simp]:
  "rc_emitted (next_revision R s) = rc_emitted s" "rc_pending (next_revision R s) = rc_pending s"
  "rc_metadata (next_revision R s) = rc_metadata s" "rc_closed (next_revision R s) = rc_closed s"
  "rc_window (next_revision R s) = rc_window s" "rc_track (next_revision R s) = rc_track s"
  "rc_uncertain (next_revision R s) = rc_uncertain s"
  by (simp_all add: next_revision_def Let_def)

lemma after_final_simps [simp]:
  "rc_emitted (after_final n txt s) = rc_emitted s" "rc_pending (after_final n txt s) = drop n (rc_pending s)"
  "rc_metadata (after_final n txt s) = rc_metadata s" "rc_closed (after_final n txt s) = rc_closed s"
  "rc_window (after_final n txt s) = rc_window s" "rc_track (after_final n txt s) = rc_track s"
  "rc_id (after_final n txt s) = []" "rc_made (after_final n txt s) = rc_made s"
  "rc_uncertain (after_final n txt s) = rc_uncertain s"
  by (simp_all add: after_final_def Let_def)

text \<open>What one call of \<open>output\<close> does: nothing, a failure before the callback, or one segment of
  the first pending tokens, after which the callback may still throw.\<close>

lemma reconcile_output_cases:
  obtains (none) "count = 0" "reconcile_output R count final status s = (s, None)"
  | (refused) e where "count \<noteq> 0" "reconcile_output R count final status s = (next_revision R s, Some e)"
  | (thrown) es e where "count \<noteq> 0" "list_all2 emitted_as (take count (rc_pending s)) es" "utf8 (concat (map rendered es))"
      "sum_list (map token_bytes es) \<le> text_limit"
      "reconcile_output R count final status s = ((next_revision R s)\<lparr>rc_emitted := rc_emitted s @
         [output_segment R (next_revision R s) (take count (rc_pending s)) final status (es, concat (map rendered es))]\<rparr>, Some e)"
  | (emitted) es where "count \<noteq> 0" "list_all2 emitted_as (take count (rc_pending s)) es" "utf8 (concat (map rendered es))"
      "sum_list (map token_bytes es) \<le> text_limit"
      "reconcile_output R count final status s =
         ((if final then after_final count (concat (map rendered es)) else id) ((next_revision R s)\<lparr>rc_emitted := rc_emitted s @
         [output_segment R (next_revision R s) (take count (rc_pending s)) final status (es, concat (map rendered es))]\<rparr>), None)"
proof (cases "count = 0")
  case True
  show thesis
    by (rule none [OF True]) (simp add: reconcile_output_def True)
next
  case False
  show thesis
  proof (cases "output_tokens (rc_have_final_text s \<and> \<not> rc_final_ends_space s) (take count (rc_pending s)) ([], [], 0)")
    case (Inl e)
    with False show thesis
      using refused by (simp add: reconcile_output_def)
  next
    case (Inr body)
    then obtain es where es: "body = (es, concat (map rendered es))" "list_all2 emitted_as (take count (rc_pending s)) es"
      "sum_list (map token_bytes es) \<le> text_limit"
      using output_tokens_Inr [of _ "take count (rc_pending s)" "[]" "[]" 0 "fst body" "snd body"] by (cases body) auto
    show thesis
    proof (cases "utf8 (concat (map rendered es))")
      case utf: True
      let ?seg = "output_segment R (next_revision R s) (take count (rc_pending s)) final status (es, concat (map rendered es))"
      show thesis
      proof (cases "re_refuses R (rc_emitted s @ [?seg])")
        case None
        with False Inr es utf show thesis
          by (intro emitted [of es]; cases final) (simp_all add: reconcile_output_def Let_def emit_segment_def)
      next
        case (Some e)
        with False Inr es utf show thesis
          by (intro thrown [of es e]) (simp_all add: reconcile_output_def Let_def emit_segment_def)
      qed
    next
      case bad: False
      with False Inr es(1) show thesis
        using refused by (simp add: reconcile_output_def Let_def)
    qed
  qed
qed

section \<open>No word is lost and none is invented\<close>

text \<open>The lexical tokens of a hypothesis, and the tokens of the transcript.\<close>

definition spoken :: "speech_hypothesis \<Rightarrow> speech_token list" where
  "spoken h = filter (\<lambda>t. tk_kind t \<noteq> TK_CONTROL) (concat (map ts_tokens (sh_segments h)))"

definition final_tokens :: "transcript_segment list \<Rightarrow> speech_token list" where
  "final_tokens segs = concat (map ts_tokens (filter ts_final segs))"

text \<open>A token of the transcript is a token of a hypothesis, with its time moved into the window
  and its separator restored at most.\<close>

definition comes_from :: "speech_token \<Rightarrow> speech_token \<Rightarrow> bool" where
  "comes_from t e \<longleftrightarrow> tk_text e = tk_text t \<and> (rendered e = rendered t \<or> rendered e = CHR '' '' # rendered t)"

definition renders :: "speech_token \<Rightarrow> speech_token \<Rightarrow> bool" where
  "renders t e \<longleftrightarrow> tk_text e = tk_text t \<and> rendered e = rendered t"

lemma renders_clamp: "renders t (clamp_token lo hi t)"
  by (simp add: renders_def clamp_token_def rendered_def split: option.split)

lemma renders_refl: "renders t t"
  by (simp add: renders_def)

lemma renders_emitted: "renders t u \<Longrightarrow> emitted_as u e \<Longrightarrow> comes_from t e"
  by (auto simp: renders_def emitted_as_def comes_from_def)

lemma renders_key: "list_all2 renders ts us \<Longrightarrow> joined_key us = joined_key ts"
  by (induction rule: list_all2_induct) (auto simp: joined_key_def renders_def)

lemma lexical_tokens_Inr:
  assumes "lexical_tokens lo hi ts (fresh, txt, bytes, bad) = Inr (fresh', txt', bytes', bad')"
  shows "\<exists>us. fresh' = fresh @ us \<and> list_all2 renders (filter (\<lambda>t. tk_kind t \<noteq> TK_CONTROL) ts) us"
  using assms
proof (induction lo hi ts "(fresh, txt, bytes, bad)" arbitrary: fresh "txt" bytes bad rule: lexical_tokens.induct)
  case (2 lo hi t ts fresh "txt" bytes bad)
  let ?out = "start_us t < lo \<or> end_us t > hi"
  show ?case
  proof (cases "tk_kind t = TK_CONTROL")
    case True
    with "2.prems" "2.hyps"(1) [OF True] show ?thesis
      by simp
  next
    case False
    let ?u = "if ?out then clamp_token lo hi t else t"
    have "lexical_tokens lo hi ts (fresh @ [?u], txt @ rendered t, bytes + token_bytes t, bad \<or> ?out) = Inr (fresh', txt', bytes', bad')"
      and ok: "\<not> (tk_kind t \<noteq> TK_TEXT \<or> tk_start_us t = None \<or> tk_end_us t = None \<or> end_us t < start_us t)"
        "\<not> (Suc (length fresh) > token_limit \<or> bytes + token_bytes t > text_limit)"
      using "2.prems" False by (auto simp: Let_def split: if_splits)
    from "2.hyps"(2) [OF False ok(1) refl ok(2) refl this(1)]
    obtain us where "fresh' = (fresh @ [?u]) @ us" "list_all2 renders (filter (\<lambda>t. tk_kind t \<noteq> TK_CONTROL) ts) us"
      by auto
    then show ?thesis
      using False by (intro exI [of _ "?u # us"]) (simp add: renders_clamp renders_refl)
  qed
qed simp

lemma lexical_segments_Inr:
  assumes "lexical_segments track lo hi ss (fresh, metadata, bytes, bad) = Inr (fresh', metadata', bytes', bad')"
  shows "\<exists>us. fresh' = fresh @ us \<and> list_all2 renders (filter (\<lambda>t. tk_kind t \<noteq> TK_CONTROL) (concat (map ts_tokens ss))) us"
  using assms
proof (induction track lo hi ss "(fresh, metadata, bytes, bad)" arbitrary: fresh metadata bytes bad rule: lexical_segments.induct)
  case (2 track lo hi s ss fresh metadata bytes bad)
  then obtain fresh1 txt1 bytes1 bad1 where l: "lexical_tokens lo hi (ts_tokens s) (fresh, [], bytes, bad) = Inr (fresh1, txt1, bytes1, bad1)"
    and g: "\<not> (ts_track_id s \<noteq> track \<or> (case metadata of Some m \<Rightarrow> \<not> same_speech s m | None \<Rightarrow> False))"
      "\<not> (txt1 \<noteq> ts_text s \<or> \<not> utf8 txt1)"
    and r: "lexical_segments track lo hi ss (fresh1, Some (case metadata of Some m \<Rightarrow> m | None \<Rightarrow> s), bytes1, bad1) =
      Inr (fresh', metadata', bytes', bad')"
    by (auto split: if_splits sum.splits)
  obtain us where "fresh1 = fresh @ us" "list_all2 renders (filter (\<lambda>t. tk_kind t \<noteq> TK_CONTROL) (ts_tokens s)) us"
    using lexical_tokens_Inr [OF l] by blast
  moreover obtain vs where "fresh' = fresh1 @ vs"
    "list_all2 renders (filter (\<lambda>t. tk_kind t \<noteq> TK_CONTROL) (concat (map ts_tokens ss))) vs"
    using "2.hyps" [OF g(1) l refl refl refl g(2) r] by blast
  ultimately show ?case
    by (intro exI [of _ "us @ vs"]) (simp add: list_all2_appendI)
qed simp

lemma final_tokens_snoc: "final_tokens (segs @ [seg]) = final_tokens segs @ (if ts_final seg then ts_tokens seg else [])"
  by (simp add: final_tokens_def)

lemma output_segment_simps [simp]:
  "ts_final (output_segment R s ts final status body) = final" "ts_tokens (output_segment R s ts final status body) = fst body"
  "ts_text (output_segment R s ts final status body) = snd body" "ts_segment_id (output_segment R s ts final status body) = rc_id s"
  "ts_revision (output_segment R s ts final status body) = rc_revision s"
  "ts_track_id (output_segment R s ts final status body) = ts_track_id (rc_metadata s)"
  "ts_start_us (output_segment R s ts final status body) = foldl min int64_max (map start_us ts)"
  "ts_end_us (output_segment R s ts final status body) = foldl max int64_min (map end_us ts)"
  by (simp_all add: output_segment_def)

definition transcript_key :: "reconciler \<Rightarrow> nat list" where
  "transcript_key s = joined_key (final_tokens (rc_emitted s)) @ joined_key (rc_pending s)"

definition from_tokens :: "speech_token set \<Rightarrow> reconciler \<Rightarrow> bool" where
  "from_tokens T s \<longleftrightarrow> (\<forall>u \<in> set (rc_pending s). \<exists>t \<in> T. renders t u) \<and>
     (\<forall>seg \<in> set (rc_emitted s). \<forall>e \<in> set (ts_tokens seg). \<exists>t \<in> T. comes_from t e)"

text \<open>An output moves the tokens it finalizes from the pending ones to the transcript.\<close>

lemma reconcile_output_words:
  assumes "reconcile_output R count final status s = (s', None)"
  shows "transcript_key s' = transcript_key s" "rc_pending s' = (if final then drop count (rc_pending s) else rc_pending s)"
    "from_tokens T s \<Longrightarrow> from_tokens T s'"
proof -
  have "transcript_key s' = transcript_key s \<and> rc_pending s' = (if final then drop count (rc_pending s) else rc_pending s) \<and>
    (from_tokens T s \<longrightarrow> from_tokens T s')"
  proof (cases rule: reconcile_output_cases [of count R final status s])
    case (emitted es)
    let ?take = "take count (rc_pending s)"
    have "joined_key es = joined_key ?take"
      using emitted(2) by (rule emitted_as_key)
    then have key: "joined_key es @ joined_key (drop count (rc_pending s)) = joined_key (rc_pending s)"
      by (simp flip: joined_key_append)
    have "\<exists>t \<in> T. comes_from t e" if f: "from_tokens T s" and e: "e \<in> set es" for e
    proof -
      obtain u where "u \<in> set ?take" "emitted_as u e"
        using list_all2_mem2 [OF emitted(2) e] by blast
      moreover from this(1) obtain t where "t \<in> T" "renders t u"
        using f unfolding from_tokens_def by (meson in_set_takeD)
      ultimately show ?thesis
        using renders_emitted by blast
    qed
    then have src: "from_tokens T s \<Longrightarrow> \<forall>e \<in> set es. \<exists>t \<in> T. comes_from t e"
      by blast
    show ?thesis
    proof (cases final)
      case True
      with assms emitted(5) have s': "rc_pending s' = drop count (rc_pending s)"
        "final_tokens (rc_emitted s') = final_tokens (rc_emitted s) @ es" "\<exists>seg. rc_emitted s' = rc_emitted s @ [seg] \<and> ts_tokens seg = es"
        by (auto simp: final_tokens_snoc)
      with True key src show ?thesis
        by (auto simp: transcript_key_def from_tokens_def dest: in_set_dropD)
    next
      case False
      with assms emitted(5) have s': "rc_pending s' = rc_pending s"
        "final_tokens (rc_emitted s') = final_tokens (rc_emitted s)" "\<exists>seg. rc_emitted s' = rc_emitted s @ [seg] \<and> ts_tokens seg = es"
        by (auto simp: final_tokens_snoc)
      with False src show ?thesis
        by (auto simp: transcript_key_def from_tokens_def)
    qed
  qed (use assms in auto)
  then show "transcript_key s' = transcript_key s" "rc_pending s' = (if final then drop count (rc_pending s) else rc_pending s)"
    "from_tokens T s \<Longrightarrow> from_tokens T s'"
    by blast+
qed

lemma words_update [simp]:
  "transcript_key (s\<lparr>rc_uncertain := b\<rparr>) = transcript_key s" "from_tokens T (s\<lparr>rc_uncertain := b\<rparr>) = from_tokens T s"
  "transcript_key (s\<lparr>rc_closed := b\<rparr>) = transcript_key s" "from_tokens T (s\<lparr>rc_closed := b\<rparr>) = from_tokens T s"
  by (simp_all add: transcript_key_def from_tokens_def)

lemma flush_words:
  assumes "reconcile_output R (length (rc_pending s)) True status s = (s1, None)"
  shows "joined_key (final_tokens (rc_emitted s1)) = transcript_key s"
  using reconcile_output_words(1,2) [OF assms] by (simp add: transcript_key_def)

lemma settle_words:
  assumes "settle_pending R h fresh metadata bad s = ((s1, None), tokens, status)"
  shows "subseq (transcript_key s) (joined_key (final_tokens (rc_emitted s1)) @ joined_key tokens) \<and>
    subseq (joined_key fresh) (joined_key tokens) \<and> set tokens \<subseteq> set fresh \<union> set (rc_pending s) \<and>
    (from_tokens T s \<longrightarrow> from_tokens T s1)"
proof (cases "rc_pending s = []")
  case True
  with assms show ?thesis
    by (auto simp: settle_pending_def transcript_key_def)
next
  case False
  let ?m = "anchor R (rc_pending s) fresh (rc_end_time s)"
  consider (flush) b s2 where "tokens = fresh" "s1 = s2\<lparr>rc_uncertain := b\<rparr>"
      "\<exists>st. reconcile_output R (length (rc_pending s)) True st s = (s2, None)"
    | (join) "s1 = s" "tokens = join_tokens ?m (rc_pending s) fresh"
      "join_is_safe ?m (rc_pending s) fresh metadata (rc_metadata s) (rc_end_time s)"
  proof -
    show thesis
      using assms False that(1) [of "rc_uncertain s1" s1] that(2) that(1) [of False]
      by (auto simp: settle_pending_def Let_def and_then_None_iff split: if_splits)
  qed
  then show ?thesis
  proof cases
    case flush
    then obtain st where o: "reconcile_output R (length (rc_pending s)) True st s = (s2, None)"
      by blast
    show ?thesis
      using flush(1,2) flush_words [OF o] reconcile_output_words(3) [OF o, of T] by (auto simp: transcript_key_def)
  next
    case join
    have "set tokens \<subseteq> set fresh \<union> set (rc_pending s)"
      unfolding join(2) join_tokens_def by (auto dest: in_set_takeD in_set_dropD)
    with join(1) join_keeps_words [OF refl join(3)] show ?thesis
      unfolding join(2) by (auto simp: transcript_key_def subseq_append')
  qed
qed

text \<open>The outputs of a window that goes through.\<close>

lemma emit_window_None:
  assumes "emit_window R h overlap bad tokens metadata status s = (s', None)"
  obtains s1 s2 st where "length tokens \<le> token_limit" "sum_list (map token_bytes tokens) \<le> text_limit"
    "reconcile_output R (final_boundary overlap (hypothesis_end h - micros overlap) tokens) True st
       (s\<lparr>rc_pending := tokens, rc_metadata := metadata\<rparr>) = (s1, None)"
    "output_pending R st s1 = (s2, None)" "s' = window_done h s2"
  using assms by (fastforce simp: emit_window_def Let_def and_then_None_iff split: if_splits)

lemma window_done_simps [simp]:
  "rc_emitted (window_done h s) = rc_emitted s" "rc_pending (window_done h s) = rc_pending s"
  "rc_metadata (window_done h s) = rc_metadata s" "rc_closed (window_done h s) = rc_closed s"
  "rc_window (window_done h s) = Suc (rc_window s)" "rc_track (window_done h s) = sh_track_id h"
  "rc_id (window_done h s) = rc_id s" "rc_made (window_done h s) = rc_made s" "rc_revision (window_done h s) = rc_revision s"
  by (simp_all add: window_done_def)

lemma output_pending_words:
  assumes "output_pending R status s = (s', None)"
  shows "transcript_key s' = transcript_key s \<and> (from_tokens T s \<longrightarrow> from_tokens T s')"
  using assms reconcile_output_words(1) [of R "length (rc_pending s)" False RS_PENDING _ s']
    reconcile_output_words(3) [of R "length (rc_pending s)" False RS_PENDING _ s' T]
  by (auto simp: output_pending_def Let_def split: if_splits)

lemma emit_window_words:
  assumes "emit_window R h overlap bad tokens metadata status s = (s', None)"
  shows "transcript_key s' = joined_key (final_tokens (rc_emitted s)) @ joined_key tokens \<and>
    (from_tokens T (s\<lparr>rc_pending := tokens\<rparr>) \<longrightarrow> from_tokens T s')"
  using assms
proof (cases rule: emit_window_None)
  case (1 s1 s2 st)
  let ?s = "s\<lparr>rc_pending := tokens, rc_metadata := metadata\<rparr>"
  have "transcript_key ?s = joined_key (final_tokens (rc_emitted s)) @ joined_key tokens"
    "from_tokens T ?s = from_tokens T (s\<lparr>rc_pending := tokens\<rparr>)"
    by (simp_all add: transcript_key_def from_tokens_def)
  moreover have "transcript_key s' = transcript_key s2" "from_tokens T s' = from_tokens T s2"
    by (simp_all add: 1(5) transcript_key_def from_tokens_def)
  ultimately show ?thesis
    using reconcile_output_words(1,3) [OF 1(3)] output_pending_words [OF 1(4), of T] by simp
qed

lemma accept_words:
  assumes "reconcile_accept R h overlap s = (s', None)"
  shows "subseq (transcript_key s) (transcript_key s') \<and> subseq (joined_key (spoken h)) (transcript_key s') \<and>
    (from_tokens T s \<longrightarrow> set (spoken h) \<subseteq> T \<longrightarrow> from_tokens T s')"
proof -
  have op: "accept_open R h overlap s = (s', None)"
    using assms by (auto simp: reconcile_accept_def split: if_splits prod.splits option.splits)
  then obtain fresh seen bytes bad metadata where
    l: "lexical_segments (sh_track_id h) (hypothesis_start h) (hypothesis_end h) (sh_segments h) ([], None, 0, False) = Inr (fresh, seen, bytes, bad)"
    and m: "metadata = (case seen of Some m \<Rightarrow> m | None \<Rightarrow> segment_empty)"
    and r: "(case settle_pending R h fresh metadata bad s of (r, tokens, status) \<Rightarrow>
        and_then r (emit_window R h overlap bad tokens metadata status)) = (s', None)"
    by (auto simp: accept_open_def Let_def split: if_splits sum.splits)
  from r obtain s1 tokens status where st: "settle_pending R h fresh metadata bad s = ((s1, None), tokens, status)"
    and e: "emit_window R h overlap bad tokens metadata status s1 = (s', None)"
    by (auto simp: and_then_None_iff split: prod.splits)
  have f: "list_all2 renders (spoken h) fresh"
    using lexical_segments_Inr [OF l] by (auto simp: spoken_def)
  note w = settle_words [OF st, of T] and x = emit_window_words [OF e, of T]
  have "from_tokens T (s1\<lparr>rc_pending := tokens\<rparr>)" if ft: "from_tokens T s" and sub: "set (spoken h) \<subseteq> T"
  proof -
    have "\<exists>t \<in> T. renders t u" if "u \<in> set tokens" for u
      using that w ft sub list_all2_mem2 [OF f, of u] unfolding from_tokens_def by blast
    with w ft show ?thesis
      by (auto simp: from_tokens_def)
  qed
  with w x renders_key [OF f] show ?thesis
    by (auto intro: subseq_order.order_trans subseq_drop_many)
qed

lemma accept_all_words:
  assumes "accept_all R hs s = (s', None)"
  shows "subseq (transcript_key s) (transcript_key s') \<and> (\<forall>(h, overlap) \<in> set hs. subseq (joined_key (spoken h)) (transcript_key s')) \<and>
    (from_tokens T s \<longrightarrow> (\<forall>(h, overlap) \<in> set hs. set (spoken h) \<subseteq> T) \<longrightarrow> from_tokens T s')"
  using assms
proof (induction R hs s rule: accept_all.induct)
  case (2 R h overlap hs s)
  then obtain s1 where a: "reconcile_accept R h overlap s = (s1, None)" and r: "accept_all R hs s1 = (s', None)"
    by (auto simp: and_then_None_iff)
  note w = accept_words [OF a, of T]
  have "subseq (transcript_key s1) (transcript_key s') \<and> (\<forall>(h, overlap) \<in> set hs. subseq (joined_key (spoken h)) (transcript_key s')) \<and>
    (from_tokens T s1 \<longrightarrow> (\<forall>(h, overlap) \<in> set hs. set (spoken h) \<subseteq> T) \<longrightarrow> from_tokens T s')"
    using "2.IH" a r by simp
  with w show ?case
    by (auto intro: subseq_order.order_trans)
qed simp

text \<open>C7: reconciliation loses no word and invents none. When a track's windows have all been
  accepted and the track has finished, the letters and digits every window recognised are in the
  final transcript in their order, whatever was joined or left unresolved; and every token that was
  ever emitted, final or provisional, is one of the recognised tokens.\<close>

theorem reconcile_track_words:
  assumes "reconcile_track R hs = (s, None)"
  shows "(\<forall>(h, overlap) \<in> set hs. subseq (joined_key (spoken h)) (joined_key (final_tokens (rc_emitted s)))) \<and>
    (\<forall>seg \<in> set (rc_emitted s). \<forall>e \<in> set (ts_tokens seg). \<exists>(h, overlap) \<in> set hs. \<exists>t \<in> set (spoken h). comes_from t e)"
proof -
  let ?T = "\<Union>(h, overlap) \<in> set hs. set (spoken h)"
  obtain s1 where a: "accept_all R hs reconciler_new = (s1, None)" and f: "reconcile_finish R s1 = (s, None)"
    using assms by (auto simp: reconcile_track_def and_then_None_iff)
  have o: "reconcile_output R (length (rc_pending (s1\<lparr>rc_closed := True\<rparr>))) True (flush_status s1) (s1\<lparr>rc_closed := True\<rparr>) = (s, None)"
    using f by (simp add: reconcile_finish_def split: if_splits)
  have "from_tokens ?T reconciler_new"
    by (simp add: from_tokens_def reconciler_new_def)
  with accept_all_words [OF a, of ?T] have w: "\<forall>(h, overlap) \<in> set hs. subseq (joined_key (spoken h)) (transcript_key s1)"
    "from_tokens ?T s1"
    by auto
  then have "from_tokens ?T s"
    using reconcile_output_words(3) [OF o] by simp
  then show ?thesis
    using w(1) flush_words [OF o] by (fastforce simp: from_tokens_def)
qed

section \<open>Two overlapping windows\<close>

definition demo_reconcile :: "int reconcile_env" where
  "demo_reconcile = \<lparr>re_uuid = \<lambda>n. replicate (Suc n) CHR ''a'', re_refuses = \<lambda>_. None, re_distance_zero = 0,
     re_add_distance = \<lambda>d (a, b) (c, e). d + \<bar>(a + b) - (c + e)\<bar> div 2, re_closer = \<lambda>_ _ _ _. False, re_tied = \<lambda>_ _ _ _. True,
     re_mean_log = \<lambda>_ _. 0\<rparr>"

definition demo_token :: "string \<Rightarrow> int \<Rightarrow> int \<Rightarrow> speech_token" where
  "demo_token txt lo hi = \<lparr>tk_text = txt, tk_start_us = Some lo, tk_end_us = Some hi, tk_kind = TK_TEXT, tk_whisper = None,
     tk_rendered = None, tk_parakeet = None\<rparr>"

definition demo_hypothesis :: "nat \<Rightarrow> nat \<Rightarrow> nat \<Rightarrow> speech_token list \<Rightarrow> string \<Rightarrow> speech_hypothesis" where
  "demo_hypothesis window first fresh tokens txt = \<lparr>sh_window_number = window, sh_track_id = 1,
     sh_segments = [segment_empty\<lparr>ts_track_id := 1, ts_text := txt, ts_tokens := tokens\<rparr>],
     sh_first_sample = first, sh_first_new_sample = fresh, sh_sample_count = 16000, sh_boundary = 1, sh_producer = producer_empty,
     sh_contributors = [], sh_presentation_time_us = None, sh_encoder_context = None\<rparr>"

definition demo_windows :: "(speech_hypothesis \<times> nat) list" where
  "demo_windows = [(demo_hypothesis 1 0 0 [demo_token ''We '' 0 400000, demo_token ''met'' 500000 900000] ''We met'', 8000),
     (demo_hypothesis 2 8000 16000 [demo_token ''met'' 510000 900000, demo_token '' him'' 1000000 1400000] ''met him'', 0)]"

lemmas reconcile_defs = reconcile_accept_def accept_open_def window_fits_def hypothesis_start_def hypothesis_end_def micros_def
  same_speech_def settle_pending_def reconcile_output_def next_revision_def output_segment_def emit_segment_def after_final_def
  emit_window_def output_pending_def window_done_def final_boundary_def token_limit_def text_limit_def token_bytes_def
  rendered_def start_us_def end_us_def spaced_token_def is_space_def mean_log_def segment_empty_def flush_status_def
  int64_max_def int64_min_def

lemma demo_utf8: "utf8 ''We ''" "utf8 ''met''" "utf8 ''We met''" "utf8 ''met him''" "utf8 '' him''"
  by (simp_all add: utf8_def)

lemmas anchor_defs = anchor_def anchor_row_def anchor_cell_def consider_run_def run_extend_def run_zero_def pairs_up_def timed_match_def
  tolerance_def token_key_def List.map_filter_simps key_byte_def join_is_safe_def join_tokens_def joined_key_def

lemma demo_track:
  "\<exists>s. reconcile_track demo_reconcile demo_windows = (s, None) \<and> map ts_text (filter ts_final (rc_emitted s)) = [''We '', ''met him'']"
  by (simp add: reconcile_track_def reconcile_finish_def reconcile_defs demo_windows_def demo_hypothesis_def demo_token_def reconciler_new_def
      demo_reconcile_def demo_utf8 Let_def anchor_defs)

theorem reconcile_track_words_witness:
  "\<exists>s. reconcile_track demo_reconcile demo_windows = (s, None) \<and>
     (\<forall>(h, overlap) \<in> set demo_windows. subseq (joined_key (spoken h)) (joined_key (final_tokens (rc_emitted s))))"
proof -
  obtain s where s: "reconcile_track demo_reconcile demo_windows = (s, None)"
    using demo_track by blast
  show ?thesis
    by (rule exI [of _ s], rule conjI [OF s], rule conjunct1 [OF reconcile_track_words [OF s]])
qed

theorem anchor_longest_run_witness:
  "0 < length [demo_token ''met'' 500000 900000] \<and> 0 < length [demo_token ''Met'' 510000 900000, demo_token '' him'' 1000000 1400000] \<and>
   run_size (run_from demo_reconcile 1000000 [demo_token ''met'' 500000 900000]
       [demo_token ''Met'' 510000 900000, demo_token '' him'' 1000000 1400000]) = (3, 1) \<and>
   (3, 1) \<le> run_size (match_run (anchor demo_reconcile [demo_token ''met'' 500000 900000]
       [demo_token ''Met'' 510000 900000, demo_token '' him'' 1000000 1400000] 1000000))"
proof -
  let ?old = "[demo_token ''met'' 500000 900000]" and ?new = "[demo_token ''Met'' 510000 900000, demo_token '' him'' 1000000 1400000]"
  have "run_size (run_from demo_reconcile 1000000 ?old ?new) = (3, 1)"
    by (simp add: anchor_defs reconcile_defs demo_token_def demo_reconcile_def run_size_def)
  moreover have "run_size (run_from demo_reconcile 1000000 (drop 0 ?old) (drop 0 ?new)) \<le>
      run_size (match_run (anchor demo_reconcile ?old ?new 1000000))"
    using anchor_longest_run [of demo_reconcile ?old ?new 1000000] by (metis (no_types, lifting) length_greater_0_conv list.distinct(1))
  ultimately show ?thesis
    by simp
qed

end
