(* ===== verification/Reconcile_Segments.thy ===== *)
theory Reconcile_Segments
  imports Reconcile_Proofs Registry
begin

text \<open>
  The segments the reconciler emits: each is well formed and bounded, and each passes the
  revision check of the registry it is published to.
\<close>

section \<open>Every segment is well formed and bounded\<close>

definition segment_ok :: "transcript_segment \<Rightarrow> bool" where
  "segment_ok seg \<longleftrightarrow> ts_text seg = concat (map rendered (ts_tokens seg)) \<and> utf8 (ts_text seg) \<and>
     ts_tokens seg \<noteq> [] \<and> length (ts_tokens seg) \<le> token_limit \<and> sum_list (map token_bytes (ts_tokens seg)) \<le> text_limit \<and>
     0 < ts_revision seg \<and> (\<forall>t \<in> set (ts_tokens seg). ts_start_us seg \<le> start_us t \<and> end_us t \<le> ts_end_us seg)"

definition reconciler_ok :: "reconciler \<Rightarrow> bool" where
  "reconciler_ok s \<longleftrightarrow> list_all segment_ok (rc_emitted s) \<and>
     (\<not> rc_closed s \<longrightarrow> length (rc_pending s) \<le> token_limit \<and> sum_list (map token_bytes (rc_pending s)) \<le> text_limit)"

lemma foldl_min_le: "foldl min a xs \<le> (a :: int) \<and> (\<forall>x \<in> set xs. foldl min a xs \<le> x)"
proof (induction xs arbitrary: a)
  case (Cons x xs)
  with Cons [of "min a x"] show ?case
    by simp
qed simp

lemma foldl_max_ge: "(a :: int) \<le> foldl max a xs \<and> (\<forall>x \<in> set xs. x \<le> foldl max a xs)"
proof (induction xs arbitrary: a)
  case (Cons x xs)
  have "max a x \<le> foldl max (max a x) xs" "\<forall>y \<in> set xs. y \<le> foldl max (max a x) xs"
    using Cons by blast+
  then show ?case
    by (simp add: max.bounded_iff)
qed simp

lemma emitted_as_times: "emitted_as t e \<Longrightarrow> start_us e = start_us t \<and> end_us e = end_us t"
  by (auto simp: emitted_as_def start_us_def end_us_def)

lemma output_segment_ok:
  assumes "list_all2 emitted_as ts es" "utf8 (concat (map rendered es))" "sum_list (map token_bytes es) \<le> text_limit"
    "ts \<noteq> []" "length ts \<le> token_limit" "0 < rc_revision s"
  shows "segment_ok (output_segment R s ts final status (es, concat (map rendered es)))"
proof -
  have "foldl min int64_max (map start_us ts) \<le> start_us e \<and> end_us e \<le> foldl max int64_min (map end_us ts)" if "e \<in> set es" for e
    using list_all2_mem2 [OF assms(1) that] emitted_as_times foldl_min_le [of int64_max "map start_us ts"]
      foldl_max_ge [of int64_min "map end_us ts"] by fastforce
  moreover have "length es = length ts"
    using list_all2_lengthD [OF assms(1)] by simp
  ultimately show ?thesis
    using assms by (auto simp: segment_ok_def)
qed

lemma next_revision_pos: "0 < rc_revision (next_revision R s)"
  by (simp add: next_revision_def Let_def)

text \<open>The segments after an output, whatever it throws.\<close>

lemma reconcile_output_ok:
  assumes "list_all segment_ok (rc_emitted s)" "count \<le> length (rc_pending s)" "length (rc_pending s) \<le> token_limit"
  shows "list_all segment_ok (rc_emitted (fst (reconcile_output R count final status s)))"
proof -
  have seg: "segment_ok (output_segment R (next_revision R s) (take count (rc_pending s)) final status (es, concat (map rendered es)))"
    if "count \<noteq> 0" "list_all2 emitted_as (take count (rc_pending s)) es" "utf8 (concat (map rendered es))"
      "sum_list (map token_bytes es) \<le> text_limit" for es
    by (rule output_segment_ok [OF that(2-4)]) (use that(1) assms(2,3) next_revision_pos in auto)
  show ?thesis
  proof (cases rule: reconcile_output_cases [of count R final status s])
    case (thrown es e)
    with assms(1) seg [OF thrown(1-4)] show ?thesis
      by simp
  next
    case (emitted es)
    with assms(1) seg [OF emitted(1-4)] show ?thesis
      by (cases final) simp_all
  qed (use assms(1) in auto)
qed

lemma stable_prefix_le:
  assumes "stable_prefix overlap cutoff ts (n, safe, word_start, pre) = (n', safe', word_start')" "safe \<le> n" "word_start \<le> n"
  shows "n' \<le> n + length ts \<and> safe' \<le> n' \<and> word_start' \<le> n'"
  using assms
proof (induction ts arbitrary: n safe word_start pre)
  case (Cons t ts)
  show ?case
  proof (cases "overlap \<noteq> 0 \<and> end_us t > cutoff")
    case True
    with Cons.prems show ?thesis
      by auto
  next
    case False
    with Cons.prems(1) have "stable_prefix overlap cutoff ts (Suc n, if utf8 (pre @ rendered t) then Suc n else safe,
        if tk_parakeet t = Some True then n else word_start, pre @ rendered t) = (n', safe', word_start')"
      by (auto simp: Let_def split: if_splits)
    from Cons.IH [OF this] Cons.prems(2,3) show ?thesis
      by auto
  qed
qed simp

text \<open>The boundary never leaves the pending tokens.\<close>

lemma final_boundary_le: "final_boundary overlap cutoff pending \<le> length pending"
  using stable_prefix_le [of overlap cutoff pending 0 0 0 "[]"]
  by (auto simp: final_boundary_def min_def split: prod.splits)

lemma reconcile_output_pending:
  assumes "reconcile_output R count final status s = (s', None)"
  shows "rc_pending s' = (if final then drop count (rc_pending s) else rc_pending s)" "rc_closed s' = rc_closed s"
proof -
  show "rc_pending s' = (if final then drop count (rc_pending s) else rc_pending s)"
    by (rule reconcile_output_words(2) [OF assms])
  show "rc_closed s' = rc_closed s"
    using assms by (cases rule: reconcile_output_cases [of count R final status s]) (auto split: if_splits)
qed

lemma reconcile_output_flush_ok:
  assumes "list_all segment_ok (rc_emitted s)" "length (rc_pending s) \<le> token_limit"
  shows "list_all segment_ok (rc_emitted (fst (reconcile_output R (length (rc_pending s)) final status s)))"
  using assms by (intro reconcile_output_ok) auto

lemma output_pending_ok:
  assumes "list_all segment_ok (rc_emitted s)" "length (rc_pending s) \<le> token_limit"
  shows "list_all segment_ok (rc_emitted (fst (output_pending R status s)))"
  using assms reconcile_output_flush_ok [of "s\<lparr>rc_uncertain := status = RS_UNRESOLVED\<rparr>"]
  by (cases "rc_pending s = []") (simp_all add: output_pending_def Let_def)

lemma emit_window_ok:
  assumes "list_all segment_ok (rc_emitted s)"
  shows "list_all segment_ok (rc_emitted (fst (emit_window R h overlap bad tokens metadata status s)))"
proof (cases "length tokens \<le> token_limit \<and> sum_list (map token_bytes tokens) \<le> text_limit")
  case False
  with assms show ?thesis
    by (auto simp: emit_window_def Let_def)
next
  case True
  let ?s = "s\<lparr>rc_pending := tokens, rc_metadata := metadata\<rparr>" and ?n = "final_boundary overlap (hypothesis_end h - micros overlap) tokens"
  have first: "list_all segment_ok (rc_emitted (fst (reconcile_output R ?n True st ?s)))" for st
    by (rule reconcile_output_ok) (use assms True final_boundary_le in auto)
  have second: "list_all segment_ok (rc_emitted (fst (output_pending R st s1)))" if "reconcile_output R ?n True st ?s = (s1, None)" for s1 st
    by (rule output_pending_ok) (use that first [of st] reconcile_output_pending(1) [OF that] True in auto)
  have "list_all segment_ok (rc_emitted (fst (and_then (reconcile_output R ?n True st ?s) (\<lambda>s1.
      and_then (output_pending R st s1) (\<lambda>s2. (window_done h s2, None))))))" for st
    by (intro and_then_fst_cases [where P = "\<lambda>s. list_all segment_ok (rc_emitted s)"])
      (use first [of st] second [of st] in \<open>fastforce+\<close>)
  with True show ?thesis
    by (simp add: emit_window_def Let_def)
qed

lemma settle_ok:
  assumes "list_all segment_ok (rc_emitted s)" "length (rc_pending s) \<le> token_limit"
    "settle_pending R h fresh metadata bad s = (r, tokens, status)"
  shows "list_all segment_ok (rc_emitted (fst r))"
proof -
  have "list_all segment_ok (rc_emitted (fst (and_then (reconcile_output R (length (rc_pending s)) True st s)
      (\<lambda>s1. (s1\<lparr>rc_uncertain := False\<rparr>, None)))))" for st
    using reconcile_output_flush_ok [OF assms(1,2), of R True st]
    by (cases "reconcile_output R (length (rc_pending s)) True st s") (auto simp: and_then_def split: option.splits)
  then show ?thesis
    using assms(1,3) reconcile_output_flush_ok [OF assms(1,2)]
    by (auto simp: settle_pending_def Let_def split: if_splits)
qed

lemma accept_open_ok:
  assumes "list_all segment_ok (rc_emitted s)" "length (rc_pending s) \<le> token_limit"
  shows "list_all segment_ok (rc_emitted (fst (accept_open R h overlap s)))"
proof -
  have "list_all segment_ok (rc_emitted (fst (case settle_pending R h fresh metadata bad s of (r, tokens, status) \<Rightarrow>
      and_then r (emit_window R h overlap bad tokens metadata status))))" for fresh metadata bad
  proof (cases "settle_pending R h fresh metadata bad s")
    case (fields r tokens status)
    then show ?thesis
      using settle_ok [OF assms fields] emit_window_ok by (cases r) (auto simp: and_then_def split: option.splits)
  qed
  then show ?thesis
    using assms(1) by (simp add: accept_open_def Let_def split: sum.split prod.split)
qed

text \<open>The calls a track makes, in any order.\<close>

datatype reconcile_call = Accept_hypothesis speech_hypothesis nat | Close_track

fun reconcile_step :: "'l reconcile_env \<Rightarrow> reconcile_call \<Rightarrow> reconciler \<Rightarrow> reconciler" where
  "reconcile_step R (Accept_hypothesis h overlap) s = fst (reconcile_accept R h overlap s)"
| "reconcile_step R Close_track s = fst (reconcile_finish R s)"

lemma sum_list_drop_le: "sum_list (map f (drop n xs)) \<le> sum_list (map (f :: 'a \<Rightarrow> nat) xs)"
  by (metis append_take_drop_id le_add2 map_append sum_list_append)

lemma output_pending_pending:
  "output_pending R status s = (s', None) \<Longrightarrow> rc_pending s' = rc_pending s"
  using reconcile_output_pending(1) [of R "length (rc_pending s)" False RS_PENDING _ s']
  by (fastforce simp: output_pending_def Let_def split: if_splits)

lemma accept_open_bounded:
  assumes "accept_open R h overlap s = (s', None)"
  shows "length (rc_pending s') \<le> token_limit \<and> sum_list (map token_bytes (rc_pending s')) \<le> text_limit"
proof -
  obtain bad tokens metadata status s1 where "emit_window R h overlap bad tokens metadata status s1 = (s', None)"
    using assms by (auto simp: accept_open_def Let_def and_then_None_iff split: if_splits sum.splits prod.splits)
  then show ?thesis
  proof (cases rule: emit_window_None)
    case (1 s2 s3 st)
    have "rc_pending s' = drop (final_boundary overlap (hypothesis_end h - micros overlap) tokens) tokens"
      using reconcile_output_pending(1) [OF 1(3)] output_pending_pending [OF 1(4)] 1(5) by simp
    with 1(1,2) sum_list_drop_le [of token_bytes] show ?thesis
      by (metis diff_le_self le_trans length_drop)
  qed
qed

lemma reconcile_step_ok [wf_intros]: "reconciler_ok s \<Longrightarrow> reconciler_ok (reconcile_step R call s)"
proof (cases call)
  case (Accept_hypothesis h overlap)
  assume ok: "reconciler_ok s"
  show ?thesis
  proof (cases "rc_closed s")
    case True
    with ok show ?thesis
      by (simp add: Accept_hypothesis reconcile_accept_def)
  next
    case False
    obtain s1 x where a: "accept_open R h overlap s = (s1, x)"
      by fastforce
    have "list_all segment_ok (rc_emitted s1)"
      using accept_open_ok [of s R h overlap] ok False a by (simp add: reconciler_ok_def)
    then show ?thesis
      using a False accept_open_bounded [of R h overlap s s1]
      by (cases x) (auto simp: Accept_hypothesis reconcile_accept_def reconciler_ok_def)
  qed
next
  case Close_track
  assume ok: "reconciler_ok s"
  show ?thesis
  proof (cases "rc_closed s")
    case True
    with ok show ?thesis
      by (simp add: Close_track reconcile_finish_def)
  next
    case False
    let ?s = "s\<lparr>rc_closed := True\<rparr>" and ?o = "reconcile_output R (length (rc_pending s)) True (flush_status s) (s\<lparr>rc_closed := True\<rparr>)"
    have "list_all segment_ok (rc_emitted (fst ?o))"
      using reconcile_output_flush_ok [of ?s] ok False by (simp add: reconciler_ok_def)
    moreover have "rc_closed (fst ?o)"
      by (cases rule: reconcile_output_cases [of "length (rc_pending s)" R True "flush_status s" ?s]) auto
    ultimately show ?thesis
      using False by (simp add: Close_track reconcile_finish_def reconciler_ok_def)
  qed
qed

interpretation reconcile_calls: invariant_machine "reconcile_step R" reconciler_ok for R
  by unfold_locales (rule reconcile_step_ok)

lemma reconciler_new_ok: "reconciler_ok reconciler_new"
  by (simp add: reconciler_ok_def reconciler_new_def)

text \<open>C26: every segment the reconciler hands on is well formed, whatever hypotheses arrive in
  whatever order and whatever the callback throws: its text is that of its tokens and complete
  UTF-8, it has at least one token and at most the limits of tokens and bytes, its times enclose
  those of its tokens; and what is kept for the next window stays within the same limits.\<close>

theorem reconcile_segments_ok:
  "let s = fold (reconcile_step R) calls reconciler_new in list_all segment_ok (rc_emitted s) \<and>
    (rc_closed s \<or> length (rc_pending s) \<le> token_limit \<and> sum_list (map token_bytes (rc_pending s)) \<le> text_limit)"
  using reconcile_calls.fold_inv [OF reconciler_new_ok, of R calls] unfolding Let_def reconciler_ok_def by blast

end
