(* ===== verification/Reconcile_Revisions.thy ===== *)
theory Reconcile_Revisions
  imports Reconcile_Segments
begin

text \<open>
  The reconciler against the registry: every segment it hands on passes the registry's check of
  revisions. A segment identifier is used for one run of revisions, each one higher than the
  last, that ends with its final one.
\<close>

section \<open>The revisions the registry holds\<close>

definition record_transcripts :: "stream_snapshot \<Rightarrow> transcript_segment list \<Rightarrow> stream_snapshot" where
  "record_transcripts n ts = fold (\<lambda>t. record_result (Transcript t)) ts n"

definition latest_revisions :: "transcript_segment list \<Rightarrow> transcript_segment list" where
  "latest_revisions ts = fold (\<lambda>t L. remove_segment (ts_segment_id t) L @ [t]) ts []"

lemma record_transcripts_latest: "ss_transcripts n = [] \<Longrightarrow> ss_transcripts (record_transcripts n ts) = latest_revisions ts"
proof -
  have "ss_transcripts (fold (\<lambda>t. record_result (Transcript t)) ts n) =
      fold (\<lambda>t L. remove_segment (ts_segment_id t) L @ [t]) ts (ss_transcripts n)" for n
    by (induction ts arbitrary: n) (simp_all add: record_result_def)
  then show "ss_transcripts n = [] \<Longrightarrow> ss_transcripts (record_transcripts n ts) = latest_revisions ts"
    by (simp add: record_transcripts_def latest_revisions_def)
qed

lemma latest_snoc: "latest_revisions (ts @ [t]) = remove_segment (ts_segment_id t) (latest_revisions ts) @ [t]"
  by (simp add: latest_revisions_def)

lemma latest_Nil [simp]: "latest_revisions [] = []"
  by (simp add: latest_revisions_def)

lemma remove_segment_set: "set (remove_segment i L) \<subseteq> set L"
  by (induction L) auto

lemma remove_segment_distinct:
  assumes "distinct (map ts_segment_id L)"
  shows "distinct (map ts_segment_id (remove_segment i L)) \<and> i \<notin> ts_segment_id ` set (remove_segment i L)"
  using assms
proof (induction L)
  case (Cons t L)
  have "ts_segment_id t \<notin> ts_segment_id ` set (remove_segment i L)"
    using Cons.prems remove_segment_set [of i L] by auto
  with Cons show ?case
    by (cases "ts_segment_id t = i") auto
qed simp

lemma latest_distinct: "distinct (map ts_segment_id (latest_revisions ts))"
  by (induction ts rule: rev_induct) (auto simp: latest_snoc dest: remove_segment_distinct)

lemma latest_subset: "set (latest_revisions ts) \<subseteq> set ts"
proof (induction ts rule: rev_induct)
  case (snoc t ts)
  with remove_segment_set [of "ts_segment_id t" "latest_revisions ts"] show ?case
    by (auto simp: latest_snoc)
qed simp

definition revisions_ok :: "transcript_segment list \<Rightarrow> bool" where
  "revisions_ok ts \<longleftrightarrow> (\<forall>k < length ts. revision_ok (latest_revisions (take k ts)) (ts ! k))"

lemma revisions_ok_snoc: "revisions_ok (ts @ [t]) \<longleftrightarrow> revisions_ok ts \<and> revision_ok (latest_revisions ts) t"
  by (auto simp: revisions_ok_def nth_append less_Suc_eq)

section \<open>The invariant\<close>

definition uuids_ok :: "'l reconcile_env \<Rightarrow> bool" where
  "uuids_ok R \<longleftrightarrow> inj (re_uuid R) \<and> (\<forall>n. re_uuid R n \<noteq> [])"

definition made_ids :: "'l reconcile_env \<Rightarrow> reconciler \<Rightarrow> string set" where
  "made_ids R s = re_uuid R ` {..<rc_made s}"

definition sent_ok :: "'l reconcile_env \<Rightarrow> nat \<Rightarrow> reconciler \<Rightarrow> bool" where
  "sent_ok R track s \<longleftrightarrow> revisions_ok (rc_emitted s) \<and>
     (\<forall>seg \<in> set (rc_emitted s). ts_track_id seg = track \<and> ts_segment_id seg \<in> made_ids R s)"

text \<open>While an identifier is in use, its latest revision is provisional and has the number the
  reconciler remembers.\<close>

definition revs_ok :: "'l reconcile_env \<Rightarrow> nat \<Rightarrow> reconciler \<Rightarrow> bool" where
  "revs_ok R track s \<longleftrightarrow> sent_ok R track s \<and> (rc_pending s \<noteq> [] \<longrightarrow> ts_track_id (rc_metadata s) = track) \<and>
     (rc_id s \<noteq> [] \<longrightarrow> rc_id s \<in> made_ids R s \<and>
        (\<forall>seg \<in> set (latest_revisions (rc_emitted s)). ts_segment_id seg = rc_id s \<longrightarrow>
           \<not> ts_final seg \<and> ts_revision seg = rc_revision s))"

lemma next_revision_made: "made_ids R s \<subseteq> made_ids R (next_revision R s)"
  by (auto simp: next_revision_def made_ids_def Let_def)

lemma next_revision_id:
  assumes "revs_ok R track s" "uuids_ok R"
  shows "rc_id (next_revision R s) \<noteq> []" "rc_id (next_revision R s) \<in> made_ids R (next_revision R s)"
    "\<forall>seg \<in> set (latest_revisions (rc_emitted s)). ts_segment_id seg = rc_id (next_revision R s) \<longrightarrow>
       \<not> ts_final seg \<and> rc_revision (next_revision R s) = ts_revision seg + 1"
proof -
  have fresh: "re_uuid R (rc_made s) \<notin> made_ids R s"
    using assms(2) by (auto simp: made_ids_def uuids_ok_def dest: injD)
  show "rc_id (next_revision R s) \<noteq> []"
    using assms(2) by (simp add: next_revision_def Let_def uuids_ok_def)
  show "rc_id (next_revision R s) \<in> made_ids R (next_revision R s)"
    using assms(1) by (auto simp: next_revision_def Let_def made_ids_def revs_ok_def)
  show "\<forall>seg \<in> set (latest_revisions (rc_emitted s)). ts_segment_id seg = rc_id (next_revision R s) \<longrightarrow>
       \<not> ts_final seg \<and> rc_revision (next_revision R s) = ts_revision seg + 1"
  proof (cases "rc_id s = []")
    case True
    have "ts_segment_id seg \<noteq> re_uuid R (rc_made s)" if "seg \<in> set (latest_revisions (rc_emitted s))" for seg
    proof -
      have "seg \<in> set (rc_emitted s)"
        using that latest_subset by blast
      then show ?thesis
        using assms(1) fresh by (metis revs_ok_def sent_ok_def)
    qed
    with True show ?thesis
      by (simp add: next_revision_def)
  next
    case False
    with assms(1) show ?thesis
      by (simp add: next_revision_def revs_ok_def)
  qed
qed

text \<open>The state right after a segment went out under the current identifier.\<close>

lemma emit_sent:
  fixes R track s ts final status body
  defines "seg \<equiv> output_segment R (next_revision R s) ts final status body"
  assumes "revs_ok R track s" "uuids_ok R" "rc_pending s \<noteq> []"
  shows "sent_ok R track ((next_revision R s)\<lparr>rc_emitted := rc_emitted s @ [seg]\<rparr>)"
    "\<forall>x \<in> set (latest_revisions (rc_emitted s @ [seg])). ts_segment_id x = rc_id (next_revision R s) \<longrightarrow> x = seg"
proof -
  note i = next_revision_id [OF assms(2,3)]
  have track: "ts_track_id seg = track" "\<forall>x \<in> set (rc_emitted s). ts_track_id x = track"
    using assms(2,4) by (simp_all add: seg_def revs_ok_def sent_ok_def)
  then have "revision_ok (latest_revisions (rc_emitted s)) seg"
    using i(3) latest_subset [of "rc_emitted s"] unfolding revision_ok_def by (auto simp: seg_def)
  moreover have "revisions_ok (rc_emitted s)" "\<forall>x \<in> set (rc_emitted s). ts_segment_id x \<in> made_ids R s"
    using assms(2) by (simp_all add: revs_ok_def sent_ok_def)
  moreover have "made_ids R ((next_revision R s)\<lparr>rc_emitted := rc_emitted s @ [seg]\<rparr>) = made_ids R (next_revision R s)"
    by (simp add: made_ids_def)
  ultimately show "sent_ok R track ((next_revision R s)\<lparr>rc_emitted := rc_emitted s @ [seg]\<rparr>)"
    using track i(2) next_revision_made [of R s] by (auto simp: sent_ok_def revisions_ok_snoc seg_def)
  show "\<forall>x \<in> set (latest_revisions (rc_emitted s @ [seg])). ts_segment_id x = rc_id (next_revision R s) \<longrightarrow> x = seg"
    using remove_segment_distinct [OF latest_distinct, of "ts_segment_id seg" "rc_emitted s"]
    by (auto simp: latest_snoc seg_def image_iff)
qed

text \<open>Whatever an output throws, what has gone out is in order; if it returns, so is the state.\<close>

lemma reconcile_output_revs:
  assumes "revs_ok R track s" "uuids_ok R" "count \<le> length (rc_pending s)"
  shows "sent_ok R track (fst (reconcile_output R count final status s)) \<and>
    (snd (reconcile_output R count final status s) = None \<longrightarrow> revs_ok R track (fst (reconcile_output R count final status s)))"
proof (cases rule: reconcile_output_cases [of count R final status s])
  case none
  with assms(1) show ?thesis
    by (simp add: revs_ok_def)
next
  case (refused e)
  moreover have "sent_ok R track (next_revision R s)"
    using assms(1) next_revision_made [of R s] by (auto simp: revs_ok_def sent_ok_def)
  ultimately show ?thesis
    by simp
next
  case (thrown es e)
  then have "rc_pending s \<noteq> []"
    using assms(3) by auto
  with thrown emit_sent(1) [OF assms(1,2)] show ?thesis
    by simp
next
  case (emitted es)
  let ?seg = "output_segment R (next_revision R s) (take count (rc_pending s)) final status (es, concat (map rendered es))"
  let ?s = "(next_revision R s)\<lparr>rc_emitted := rc_emitted s @ [?seg]\<rparr>"
  have ne: "rc_pending s \<noteq> []"
    using emitted(1) assms(3) by auto
  note sent = emit_sent [OF assms(1,2) ne, of "take count (rc_pending s)" final status "(es, concat (map rendered es))"]
  note i = next_revision_id [OF assms(1,2)]
  have m: "ts_track_id (rc_metadata s) = track"
    using assms(1) ne by (simp add: revs_ok_def)
  have sent': "sent_ok R track (after_final count (concat (map rendered es)) ?s)"
    using sent(1) by (simp add: sent_ok_def made_ids_def)
  show ?thesis
  proof (cases final)
    case True
    with emitted(5) sent' m show ?thesis
      by (simp add: revs_ok_def)
  next
    case False
    have "made_ids R ?s = made_ids R (next_revision R s)"
      by (simp add: made_ids_def)
    with False i(2) sent m have "revs_ok R track ?s"
      by (auto simp: revs_ok_def)
    with False emitted(5) show ?thesis
      by (simp add: revs_ok_def)
  qed
qed

section \<open>Calls\<close>

definition outcome_ok :: "'l reconcile_env \<Rightarrow> nat \<Rightarrow> reconciler outcome \<Rightarrow> bool" where
  "outcome_ok R track r \<longleftrightarrow> sent_ok R track (fst r) \<and> (snd r = None \<longrightarrow> revs_ok R track (fst r))"

lemma outcome_ok_None [simp]: "outcome_ok R track (s, None) = revs_ok R track s"
  by (auto simp: outcome_ok_def revs_ok_def)

lemma outcome_ok_and_then:
  assumes "outcome_ok R track r" "\<And>s. r = (s, None) \<Longrightarrow> revs_ok R track s \<Longrightarrow> outcome_ok R track (k s)"
  shows "outcome_ok R track (and_then r k)"
  using assms by (cases r) (auto simp: and_then_def outcome_ok_def split: option.splits)

lemma revs_ok_updates [simp]:
  "revs_ok R track (s\<lparr>rc_uncertain := b\<rparr>) = revs_ok R track s" "revs_ok R track (window_done h s) = revs_ok R track s"
  "revs_ok R track (s\<lparr>rc_closed := b\<rparr>) = revs_ok R track s" "sent_ok R track (s\<lparr>rc_closed := b\<rparr>) = sent_ok R track s"
  by (simp_all add: revs_ok_def sent_ok_def made_ids_def)

lemma output_outcome:
  "revs_ok R track s \<Longrightarrow> uuids_ok R \<Longrightarrow> count \<le> length (rc_pending s) \<Longrightarrow> outcome_ok R track (reconcile_output R count final status s)"
  unfolding outcome_ok_def by (rule reconcile_output_revs)

lemma output_pending_outcome:
  assumes "revs_ok R track s" "uuids_ok R"
  shows "outcome_ok R track (output_pending R status s)"
  using assms output_outcome [of R track "s\<lparr>rc_uncertain := status = RS_UNRESOLVED\<rparr>" "length (rc_pending s)"]
  by (cases "rc_pending s = []") (simp_all add: output_pending_def Let_def)

lemma emit_window_outcome:
  assumes "revs_ok R track s" "uuids_ok R" "tokens \<noteq> [] \<longrightarrow> ts_track_id metadata = track"
  shows "outcome_ok R track (emit_window R h overlap bad tokens metadata status s)"
proof -
  let ?s = "s\<lparr>rc_pending := tokens, rc_metadata := metadata\<rparr>"
  have s: "revs_ok R track ?s"
    using assms(1,3) by (auto simp: revs_ok_def sent_ok_def made_ids_def)
  then have "sent_ok R track ?s"
    by (simp add: revs_ok_def)
  moreover have "outcome_ok R track (and_then (reconcile_output R (final_boundary overlap c tokens) True st ?s) (\<lambda>s1.
      and_then (output_pending R st s1) (\<lambda>s2. (window_done h s2, None))))" for c st
    by (intro outcome_ok_and_then output_outcome output_pending_outcome s assms(2))
      (simp_all add: final_boundary_le assms(2))
  ultimately show ?thesis
    by (simp add: emit_window_def Let_def outcome_ok_def)
qed

lemma settle_outcome:
  assumes "revs_ok R track s" "uuids_ok R" "settle_pending R h fresh metadata bad s = (r, tokens, status)"
  shows "outcome_ok R track r" "tokens \<noteq> [] \<Longrightarrow> fresh \<noteq> []"
proof -
  have "outcome_ok R track (reconcile_output R (length (rc_pending s)) True st s)" for st
    by (rule output_outcome) (use assms in auto)
  moreover from this have "outcome_ok R track (and_then (reconcile_output R (length (rc_pending s)) True st s)
      (\<lambda>s1. (s1\<lparr>rc_uncertain := False\<rparr>, None)))" for st
    by (rule outcome_ok_and_then) simp
  ultimately show "outcome_ok R track r"
    using assms(1,3) by (auto simp: settle_pending_def Let_def split: if_splits)
  show "tokens \<noteq> [] \<Longrightarrow> fresh \<noteq> []"
    using assms(3) by (auto simp: settle_pending_def Let_def join_is_safe_def split: if_splits)
qed

lemma lexical_segments_track:
  assumes "lexical_segments track lo hi ss (fresh, metadata, bytes, bad) = Inr (fresh', metadata', bytes', bad')"
    "case metadata of None \<Rightarrow> fresh = [] | Some m \<Rightarrow> ts_track_id m = track"
  shows "case metadata' of None \<Rightarrow> fresh' = [] | Some m \<Rightarrow> ts_track_id m = track"
  using assms
proof (induction track lo hi ss "(fresh, metadata, bytes, bad)" arbitrary: fresh metadata bytes bad rule: lexical_segments.induct)
  case (2 track lo hi s ss fresh metadata bytes bad)
  then obtain fresh1 txt1 bytes1 bad1 where l: "lexical_tokens lo hi (ts_tokens s) (fresh, [], bytes, bad) = Inr (fresh1, txt1, bytes1, bad1)"
    and g: "\<not> (ts_track_id s \<noteq> track \<or> (case metadata of Some m \<Rightarrow> \<not> same_speech s m | None \<Rightarrow> False))"
      "\<not> (txt1 \<noteq> ts_text s \<or> \<not> utf8 txt1)"
    and r: "lexical_segments track lo hi ss (fresh1, Some (case metadata of Some m \<Rightarrow> m | None \<Rightarrow> s), bytes1, bad1) =
      Inr (fresh', metadata', bytes', bad')"
    by (auto split: if_splits sum.splits)
  have "ts_track_id (case metadata of Some m \<Rightarrow> m | None \<Rightarrow> s) = track"
    using "2.prems"(2) g(1) by (auto split: option.splits)
  then show ?case
    using "2.hyps" [OF g(1) l refl refl refl g(2) r] by simp
qed simp

lemma accept_open_outcome:
  assumes "revs_ok R (sh_track_id h) s" "uuids_ok R"
  shows "outcome_ok R (sh_track_id h) (accept_open R h overlap s)"
proof -
  have "sent_ok R (sh_track_id h) s"
    using assms(1) by (simp add: revs_ok_def)
  moreover have "outcome_ok R (sh_track_id h) (case settle_pending R h fresh metadata bad s of (r, tokens, status) \<Rightarrow>
        and_then r (emit_window R h overlap bad tokens metadata status))"
    if "lexical_segments (sh_track_id h) (hypothesis_start h) (hypothesis_end h) (sh_segments h) ([], None, 0, False) = Inr (fresh, seen, bytes, bad)"
      "metadata = (case seen of Some m \<Rightarrow> m | None \<Rightarrow> segment_empty)" for fresh seen bytes bad metadata
  proof (cases "settle_pending R h fresh metadata bad s")
    case (fields r tokens status)
    have "fresh \<noteq> [] \<longrightarrow> ts_track_id metadata = sh_track_id h"
      using lexical_segments_track [OF that(1)] that(2) by (auto split: option.splits)
    with fields settle_outcome [OF assms fields] show ?thesis
      by (auto intro: outcome_ok_and_then emit_window_outcome assms(2))
  qed
  ultimately show ?thesis
    by (auto simp: accept_open_def Let_def outcome_ok_def split: sum.splits)
qed

text \<open>The track is the one of the first window; before it nothing has gone out.\<close>

definition reconcile_inv :: "'l reconcile_env \<Rightarrow> reconciler \<Rightarrow> bool" where
  "reconcile_inv R s \<longleftrightarrow> (uuids_ok R \<longrightarrow> (\<exists>track. sent_ok R track s \<and>
     (\<not> rc_closed s \<longrightarrow> revs_ok R track s \<and> (rc_window s \<noteq> 0 \<longrightarrow> track = rc_track s) \<and>
        (rc_window s = 0 \<longrightarrow> rc_emitted s = [] \<and> rc_pending s = [] \<and> rc_id s = []))))"

lemma revs_ok_initial: "rc_emitted s = [] \<Longrightarrow> rc_pending s = [] \<Longrightarrow> rc_id s = [] \<Longrightarrow> revs_ok R track s"
  by (simp add: revs_ok_def sent_ok_def revisions_ok_def)

lemma accept_open_track:
  assumes "accept_open R h overlap s = (s', None)"
  shows "rc_track s' = sh_track_id h \<and> rc_window s' \<noteq> 0"
proof -
  obtain bad tokens metadata status s1 where "emit_window R h overlap bad tokens metadata status s1 = (s', None)"
    using assms by (auto simp: accept_open_def Let_def and_then_None_iff split: if_splits sum.splits prod.splits)
  then show ?thesis
    by (cases rule: emit_window_None) simp
qed

lemma reconcile_accept_inv:
  assumes "reconcile_inv R s"
  shows "reconcile_inv R (fst (reconcile_accept R h overlap s))"
proof (cases "rc_closed s \<or> \<not> uuids_ok R")
  case True
  with assms show ?thesis
    by (auto simp: reconcile_accept_def reconcile_inv_def)
next
  case False
  then obtain track where t: "sent_ok R track s" "revs_ok R track s" "rc_window s \<noteq> 0 \<longrightarrow> track = rc_track s"
    "rc_window s = 0 \<longrightarrow> rc_emitted s = [] \<and> rc_pending s = [] \<and> rc_id s = []"
    using assms by (auto simp: reconcile_inv_def)
  obtain s1 x where a: "accept_open R h overlap s = (s1, x)"
    by fastforce
  have f: "fst (reconcile_accept R h overlap s) = (if x = None then s1 else s1\<lparr>rc_closed := True\<rparr>)"
    using False a by (auto simp: reconcile_accept_def split: option.splits)
  show ?thesis
  proof (cases "rc_window s \<noteq> 0 \<and> sh_track_id h \<noteq> rc_track s")
    case True
    then have "s1 = s" "x \<noteq> None"
      using a by (auto simp: accept_open_def)
    with t(1) f show ?thesis
      by (auto simp: reconcile_inv_def)
  next
    case False
    then have "revs_ok R (sh_track_id h) s"
      using t revs_ok_initial by (cases "rc_window s = 0") auto
    then have "outcome_ok R (sh_track_id h) (s1, x)"
      using accept_open_outcome [of R h s overlap] \<open>\<not> (rc_closed s \<or> \<not> uuids_ok R)\<close> a by simp
    then show ?thesis
      using f accept_open_track [of R h overlap s s1] a
      by (cases x) (auto simp: reconcile_inv_def outcome_ok_def revs_ok_def)
  qed
qed

lemma reconcile_finish_inv:
  assumes "reconcile_inv R s"
  shows "reconcile_inv R (fst (reconcile_finish R s))"
proof (cases "rc_closed s \<or> \<not> uuids_ok R")
  case True
  with assms show ?thesis
    by (auto simp: reconcile_finish_def reconcile_inv_def)
next
  case False
  let ?o = "reconcile_output R (length (rc_pending s)) True (flush_status s) (s\<lparr>rc_closed := True\<rparr>)"
  obtain track where "revs_ok R track s"
    using assms False by (auto simp: reconcile_inv_def)
  then have "outcome_ok R track ?o"
    using False by (intro output_outcome) simp_all
  moreover have "rc_closed (fst ?o)"
    by (cases rule: reconcile_output_cases [of "length (rc_pending s)" R True "flush_status s" "s\<lparr>rc_closed := True\<rparr>"]) auto
  ultimately show ?thesis
    using False by (auto simp: reconcile_finish_def reconcile_inv_def outcome_ok_def)
qed

interpretation reconcile_revisions: invariant_machine "reconcile_step R" "reconcile_inv R" for R
proof
  show "reconcile_inv R s \<Longrightarrow> reconcile_inv R (reconcile_step R call s)" for s call
    by (cases call) (simp_all add: reconcile_accept_inv reconcile_finish_inv)
qed

lemma reconciler_new_inv: "reconcile_inv R reconciler_new"
  by (auto simp: reconcile_inv_def intro!: exI [of _ 0] revs_ok_initial) (simp_all add: reconciler_new_def sent_ok_def revisions_ok_def)

text \<open>C17: what the reconciler publishes, the registry accepts. Whatever calls a track makes and
  whatever the callback throws, when the identifiers are distinct and not empty: each segment
  passes the revision check against what the registry holds of the segments before it, whatever
  the registry has dropped of them since.\<close>

theorem reconcile_revisions_accepted:
  assumes "inj (re_uuid R)" "\<And>n. re_uuid R n \<noteq> []" "segs = rc_emitted (fold (reconcile_step R) calls reconciler_new)"
    "k < length segs" "ss_transcripts n = []" "set priors \<subseteq> set (ss_transcripts (record_transcripts n (take k segs)))"
  shows "revision_ok priors (segs ! k)"
proof -
  have "revisions_ok segs"
    using reconcile_revisions.fold_inv [OF reconciler_new_inv, of R calls] assms(1-3)
    by (auto simp: reconcile_inv_def uuids_ok_def sent_ok_def)
  then have "revision_ok (latest_revisions (take k segs)) (segs ! k)"
    using assms(4) by (simp add: revisions_ok_def)
  with assms(6) show ?thesis
    unfolding revision_ok_def record_transcripts_latest [OF assms(5)] by blast
qed

definition demo_snapshot :: stream_snapshot where
  "demo_snapshot = \<lparr>ss_through = \<lparr>cu_server_epoch = [], cu_stream_id = [], cu_event_sequence = 0, cu_stream_incarnation = []\<rparr>,
     ss_first_retained_sequence = 0, ss_opened = None, ss_closed = None, ss_producers = [], ss_transcripts = [],
     ss_result_state_truncated = False, ss_media_info = None, ss_hypotheses = [], ss_http_info = None\<rparr>"

definition demo_calls :: "reconcile_call list" where
  "demo_calls = map (\<lambda>(h, overlap). Accept_hypothesis h overlap) demo_windows @ [Close_track]"

lemma demo_calls_emit: "1 < length (rc_emitted (fold (reconcile_step demo_reconcile) demo_calls reconciler_new))"
  by (simp add: demo_calls_def reconcile_finish_def reconcile_defs demo_windows_def demo_hypothesis_def demo_token_def reconciler_new_def
      demo_reconcile_def demo_utf8 Let_def anchor_defs)

theorem reconcile_revisions_accepted_witness:
  "let segs = rc_emitted (fold (reconcile_step demo_reconcile) demo_calls reconciler_new)
   in 1 < length segs \<and> revision_ok (ss_transcripts (record_transcripts demo_snapshot (take 1 segs))) (segs ! 1)"
proof -
  have "inj (re_uuid demo_reconcile)" "\<And>n. re_uuid demo_reconcile n \<noteq> []" "ss_transcripts demo_snapshot = []"
    by (auto simp: demo_reconcile_def demo_snapshot_def inj_def dest: arg_cong [where f = length])
  from reconcile_revisions_accepted [OF this(1,2) refl demo_calls_emit this(3) subset_refl] show ?thesis
    using demo_calls_emit by (simp add: Let_def)
qed

end
