(* ===== verification/Windowing_Progress.thy ===== *)
theory Windowing_Progress
  imports Windowing
begin

text \<open>
  Progress of the window cutter: when its client takes every next window, the cutter takes every
  finite sample, so long as its policy does not ask it to fail at the length limit; a client that may
  throw certain exceptions makes the cutter throw these and no other. The safety half, that the
  client sees the right windows, is the locale \<open>window_client\<close>.
\<close>

section \<open>Outcomes that fail in certain ways only\<close>

definition only_fails :: "(exn \<Rightarrow> bool) \<Rightarrow> 's outcome \<Rightarrow> bool" where
  "only_fails P r \<longleftrightarrow> (\<forall>e. snd r = Some e \<longrightarrow> P e)"

lemma only_fails_simps [simp]: "only_fails P (s, None)" "only_fails P (s, Some e) \<longleftrightarrow> P e"
  by (simp_all add: only_fails_def)

lemma only_fails_then:
  "only_fails P r \<Longrightarrow> (\<And>s. r = (s, None) \<Longrightarrow> only_fails P (k s)) \<Longrightarrow> only_fails P (and_then r k)"
  by (cases r) (auto simp: and_then_def only_fails_def split: option.splits)

lemma only_fails_mono: "only_fails P r \<Longrightarrow> (\<And>e. P e \<Longrightarrow> Q e) \<Longrightarrow> only_fails Q r"
  by (auto simp: only_fails_def)

lemma only_fails_cases:
  assumes "only_fails P r"
  obtains (ok) s where "r = (s, None)" | (failed) s e where "r = (s, Some e)" "P e"
  using assms by (cases r; cases "snd r") (auto simp: only_fails_def)

section \<open>The cutter\<close>

lemma emit_next_window:
  assumes "windowing_wf p inp pv s" "\<not> wd_finished s" "count \<le> length (wd_buffer s)" "count \<le> max_samples p"
    "bnd = Fixed \<or> bnd = Forced \<longrightarrow> overlap_samples p < count" "\<not> (count = 0 \<or> wd_first s + count \<le> wd_committed s)"
  shows "next_window p inp (wd_number s) (wd_committed s) pv
    \<lparr>win_number = Suc (wd_number s), win_first_sample = wd_first s, win_first_new_sample = wd_committed s, win_boundary = bnd,
     win_samples = take count (wd_buffer s)\<rparr>"
proof -
  have buf: "wd_buffer s = drop (wd_first s) inp" and mark: "wd_first s \<le> wd_committed s" "wd_committed s \<le> length inp"
    "wd_committed s - wd_first s \<le> overlap_samples p"
    "pv = None \<or> pv = Some Pause \<or> pv = Some Discontinuity \<longrightarrow> wd_first s = wd_committed s" "pv \<noteq> Some End"
    using assms(1,2) by (auto simp: windowing_wf_def)
  have "wd_first s + count \<le> length inp"
    using assms(3) mark by (simp add: buf)
  with mark assms(4-6) show ?thesis
    by (simp add: next_window_def window_end_def buf min_absorb2)
qed

text \<open>\<open>limit\<close> bounds the samples for which the client answers, \<open>excused\<close> are the exceptions it may throw.\<close>

locale window_acceptor = window_client cb ready for cb :: "'c window_emit" and ready +
  fixes limit :: nat and excused :: "exn \<Rightarrow> bool"
  assumes accepts: "ready p inp c n e pv \<Longrightarrow> next_window p inp n e pv w \<Longrightarrow> length inp \<le> limit \<Longrightarrow> only_fails excused (cb c w)"
begin

lemma emit_accepted:
  assumes "linked p inp pv (s, c)" "\<not> wd_finished s" "count \<le> length (wd_buffer s)" "count \<le> max_samples p"
    "bnd = Fixed \<or> bnd = Forced \<longrightarrow> overlap_samples p < count" "length inp \<le> limit"
  shows "only_fails excused (windowing_emit cb count bnd ov (s, c))"
proof (cases "count = 0 \<or> wd_first s + count \<le> wd_committed s")
  case True
  then show ?thesis
    by (simp add: windowing_emit_def)
next
  case False
  have wf: "windowing_wf p inp pv s" and rd: "ready p inp c (wd_number s) (wd_committed s) pv"
    using assms(1) by (simp_all add: linked_def)
  from accepts [OF rd emit_next_window [OF wf assms(2-5) False] assms(6)] show ?thesis
    using False by (auto simp: windowing_emit_def only_fails_def Let_def split: prod.splits option.splits)
qed

lemma pause_accepted:
  assumes lk: "linked p inp pv (s, c)" and open_: "\<not> wd_finished s" and len: "length (wd_buffer s) \<le> max_samples p" "length inp \<le> limit"
  shows "only_fails excused (windowing_pause cb (s, c))"
proof (cases "wd_first s < windowing_pause_cut s \<and> windowing_pause_cut s \<le> wd_received s")
  case True
  let ?n = "windowing_pause_cut s - wd_first s"
  have buf: "length (wd_buffer s) = wd_received s - wd_first s"
    using lk open_ by (auto simp: linked_def dest: windowing_wf_buffer)
  have "?n \<le> length (wd_buffer s)" "?n \<le> max_samples p"
    using True len unfolding buf by linarith+
  from emit_accepted [OF lk open_ this _ len(2), of Pause 0] show ?thesis
    by (simp add: windowing_pause_def Let_def)
next
  case False
  then show ?thesis
    by (auto simp: windowing_pause_def Let_def)
qed

lemma limit_accepted:
  assumes lk: "linked p inp pv (s, c)" and open_: "\<not> wd_finished s"
    and len: "length (wd_buffer s) \<le> max_samples p" "length inp \<le> limit" and split: "\<not> fail_without_pause p"
  shows "only_fails excused (windowing_limit cb (s, c))"
proof -
  have pol: "wd_policy s = p" "overlap_samples p < max_samples p"
    using lk by (auto simp: linked_def windowing_wf_def window_policy_ok_def)
  show ?thesis
  proof (cases "length (wd_buffer s) < max_samples p")
    case True
    with pol show ?thesis
      by (simp add: windowing_limit_def)
  next
    case False
    with pol len emit_accepted [OF lk open_ _ _ _ len(2), of "length (wd_buffer s)" Forced "overlap_samples p"] split show ?thesis
      by (simp add: windowing_limit_def)
  qed
qed

lemma push_accepted:
  assumes lk: "linked p inp pv (s, c)" and open_: "\<not> wd_finished s" and len: "length (wd_buffer s) < window_limit p"
    and x: "f32_isfinite x" and split: "\<not> fail_without_pause p" and room: "length inp < limit"
  shows "only_fails excused (windowing_push cb speech x (s, c))"
proof -
  let ?t = "windowing_track speech x s"
  have t: "linked p (inp @ [x]) pv (?t, c)" "\<not> wd_finished ?t" "wd_policy ?t = p" "length (inp @ [x]) \<le> limit"
    using linked_track [OF lk open_] open_ lk room by (auto simp: linked_def windowing_wf_def)
  have ok: "window_policy_ok True p"
    using lk by (simp add: linked_def windowing_wf_def)
  show ?thesis
  proof (cases "speech_aware p")
    case True
    have len1: "length (wd_buffer ?t) \<le> max_samples p"
      using len True by (simp add: window_limit_def)
    have "only_fails excused (windowing_limit cb sc1)" if "windowing_pause cb (?t, c) = (sc1, None)" for sc1
    proof -
      obtain s1 c1 where sc1: "sc1 = (s1, c1)"
        by fastforce
      from linked_pause [OF t(1,2) len1 that [unfolded sc1]] len1 obtain pv1 where
        "linked p (inp @ [x]) pv1 (s1, c1)" "\<not> wd_finished s1" "length (wd_buffer s1) \<le> max_samples p"
        by auto
      from limit_accepted [OF this t(4) split] show ?thesis
        by (simp add: sc1)
    qed
    with pause_accepted [OF t(1,2) len1 t(4)] have "only_fails excused (and_then (windowing_pause cb (?t, c)) (windowing_limit cb))"
      by (intro only_fails_then)
    then show ?thesis
      using True x t(3) by (simp add: windowing_push_def Let_def)
  next
    case False
    have "target_samples p \<le> max_samples p" "overlap_samples p < target_samples p"
      using ok by (auto simp: window_policy_ok_def)
    with emit_accepted [OF t(1,2) _ _ _ t(4), of "length (wd_buffer ?t)" Fixed "overlap_samples p"] False x t(3) show ?thesis
      by (cases "length (wd_buffer ?t) = target_samples p") (simp_all add: windowing_push_def Let_def)
  qed
qed

lemma push_all_accepted:
  "linked p inp pv (s, c) \<Longrightarrow> \<not> wd_finished s \<Longrightarrow> length (wd_buffer s) < window_limit p \<Longrightarrow> \<forall>x \<in> set xs. f32_isfinite x \<Longrightarrow>
   \<not> fail_without_pause p \<Longrightarrow> length (inp @ xs) \<le> limit \<Longrightarrow> only_fails excused (windowing_push_all cb speech xs (s, c))"
proof (induction xs arbitrary: inp pv s c)
  case (Cons x xs)
  from Cons.prems(4,6) have x: "f32_isfinite x" and room: "length inp < limit"
    by simp_all
  have "only_fails excused (windowing_push_all cb speech xs sc1)" if "windowing_push cb speech x (s, c) = (sc1, None)" for sc1
  proof -
    obtain s1 c1 where sc1: "sc1 = (s1, c1)"
      by fastforce
    from linked_push [OF Cons.prems(1-3) that [unfolded sc1]] obtain pv1 where
      "linked p (inp @ [x]) pv1 (s1, c1)" "\<not> wd_finished s1" "length (wd_buffer s1) < window_limit p"
      by blast
    from Cons.IH [OF this] Cons.prems(4-6) show ?thesis
      by (simp add: sc1)
  qed
  then show ?case
    using push_accepted [OF Cons.prems(1-3) x Cons.prems(5) room, of speech] by (simp add: only_fails_then)
qed simp

lemma last_window_accepted:
  assumes lk: "linked p inp pv (s, c)" "\<not> wd_finished s" "length (wd_buffer s) < window_limit p" and room: "length inp \<le> limit"
    and bnd: "bnd = End \<or> bnd = Discontinuity"
  shows "only_fails excused (windowing_emit cb (length (wd_buffer s)) bnd 0 (s, c))"
proof -
  have "length (wd_buffer s) \<le> max_samples p"
    using lk window_limit_bounds [of p] by (auto simp: linked_def dest!: windowing_wf_policy)
  with emit_accepted [OF lk(1,2) _ this _ room, of bnd 0] bnd show ?thesis
    by auto
qed

lemma finish_accepted:
  assumes "linked p inp pv (s, c)" "\<not> wd_finished s" "length (wd_buffer s) < window_limit p" "length inp \<le> limit"
  shows "only_fails excused (windowing_finish cb (s, c))"
  using last_window_accepted [OF assms, of End] assms(2)
  by (auto simp: windowing_finish_def intro!: only_fails_then)

lemma discontinuity_accepted:
  assumes "linked p inp pv (s, c)" "\<not> wd_finished s" "length (wd_buffer s) < window_limit p" "length inp \<le> limit"
  shows "only_fails excused (windowing_discontinuity cb (s, c))"
  using last_window_accepted [OF assms, of Discontinuity] assms(2)
  by (auto simp: windowing_discontinuity_def intro!: only_fails_then)

end

interpretation collector_progress: window_acceptor collect_window collected limit "\<lambda>_. False" for limit
  by unfold_locales simp

end
