(* ===== verification/Reconcile_Progress.thy ===== *)
theory Reconcile_Progress
  imports Reconcile_Proofs Windowing_Progress
begin

text \<open>
  Progress of the reconciler: when the windows of a track arrive in sequence, the only exceptions of
  \<open>accept\<close> and \<open>finish\<close> (src/streaming/src/reconcile.cpp) are verdicts on the content of a hypothesis and
  those of the callback that takes the segments.
\<close>

text \<open>What the reconciler says of a hypothesis whose window is in sequence.\<close>

definition content_failure :: "exn \<Rightarrow> bool" where
  "content_failure e \<longleftrightarrow> e \<in> set
     [Failure FAILED_PRECONDITION ''reconciliation requires classified lexical tokens with timings'',
      Failure INVALID_ARGUMENT ''inconsistent hypothesis segment identity'',
      Failure INVALID_ARGUMENT ''reconciliation timestamp exceeds limit'',
      Failure DATA_LOSS ''lexical tokens do not reconstruct native text'',
      Failure DATA_LOSS ''reconciled text is not complete UTF-8'',
      Failure RESOURCE_EXHAUSTED ''reconciliation context limit exceeded'',
      Failure RESOURCE_EXHAUSTED ''reconciliation text limit exceeded'',
      Failure RESOURCE_EXHAUSTED ''reconciled token text limit exceeded'']"

definition reconcile_excuse :: "'l reconcile_env \<Rightarrow> exn \<Rightarrow> bool" where
  "reconcile_excuse R e \<longleftrightarrow> content_failure e \<or> (\<exists>segments. re_refuses R segments = Some e)"

lemma lexical_tokens_fails: "lexical_tokens lo hi ts acc = Inl e \<Longrightarrow> content_failure e"
  by (induction lo hi ts acc rule: lexical_tokens.induct) (auto simp: content_failure_def Let_def split: if_splits)

lemma lexical_segments_fails: "lexical_segments track lo hi ss acc = Inl e \<Longrightarrow> content_failure e"
proof (induction track lo hi ss acc rule: lexical_segments.induct)
  case (2 track lo hi s ss fresh metadata bytes bad)
  then show ?case
    using lexical_tokens_fails [of lo hi "ts_tokens s" "(fresh, [], bytes, bad)"]
    by (auto simp: content_failure_def split: if_splits sum.splits)
qed simp

lemma output_tokens_fails: "output_tokens joins ts acc = Inl e \<Longrightarrow> content_failure e"
  by (induction joins ts acc rule: output_tokens.induct) (auto simp: content_failure_def Let_def split: if_splits)

lemma reconcile_output_fails: "only_fails (reconcile_excuse R) (reconcile_output R count final status s)"
proof -
  have "only_fails (reconcile_excuse R) (emit_segment R segment s1)" for segment s1
    by (auto simp: emit_segment_def only_fails_def reconcile_excuse_def Let_def)
  moreover have "content_failure (Failure DATA_LOSS ''reconciled text is not complete UTF-8'')"
    by (simp add: content_failure_def)
  ultimately show ?thesis
    by (auto simp: reconcile_output_def Let_def reconcile_excuse_def dest: output_tokens_fails intro!: only_fails_then split: sum.splits)
qed

text \<open>The position of the reconciler in the sequence of windows.\<close>

definition reconciler_at :: "nat \<Rightarrow> nat \<Rightarrow> nat \<Rightarrow> reconciler \<Rightarrow> bool" where
  "reconciler_at track n e s \<longleftrightarrow> \<not> rc_closed s \<and> rc_window s = n \<and> (n \<noteq> 0 \<longrightarrow> rc_end_sample s = e \<and> rc_track s = track)"

lemma reconciler_at_fields [simp]:
  "reconciler_at track n e (s\<lparr>rc_pending := x\<rparr>) = reconciler_at track n e s" "reconciler_at track n e (s\<lparr>rc_metadata := m\<rparr>) = reconciler_at track n e s"
  "reconciler_at track n e (s\<lparr>rc_uncertain := u\<rparr>) = reconciler_at track n e s"
  by (simp_all add: reconciler_at_def)

lemma reconcile_output_at: "reconcile_output R count final status s = (s', None) \<Longrightarrow> reconciler_at track n e s' = reconciler_at track n e s"
  by (auto simp: reconcile_output_def next_revision_def emit_segment_def after_final_def reconciler_at_def Let_def and_then_None_iff split: if_splits sum.splits)

lemma settle_pending_fails:
  assumes "settle_pending R h fresh metadata bad s = (r, tokens, status)"
  shows "only_fails (reconcile_excuse R) r \<and> (\<forall>s'. r = (s', None) \<longrightarrow> reconciler_at track n e s' = reconciler_at track n e s)"
  using assms reconcile_output_fails [of R "length (rc_pending s)" True _ s] reconcile_output_at [of R "length (rc_pending s)" True _ s]
  by (auto simp: settle_pending_def Let_def and_then_None_iff intro!: only_fails_then split: if_splits)

lemma emit_window_fails: "only_fails (reconcile_excuse R) (emit_window R h overlap bad tokens metadata status s)"
  by (auto simp: emit_window_def output_pending_def Let_def reconcile_excuse_def content_failure_def reconcile_output_fails intro!: only_fails_then)

lemma emit_window_at:
  assumes "emit_window R h overlap bad tokens metadata status s = (s', None)" "reconciler_at track n e s"
  shows "reconciler_at (sh_track_id h) (Suc n) (sh_first_sample h + sh_sample_count h) s'"
proof -
  let ?s = "s\<lparr>rc_pending := tokens, rc_metadata := metadata\<rparr>"
  obtain status' s1 s2 where run: "reconcile_output R (final_boundary overlap (hypothesis_end h - micros overlap) tokens) True status' ?s = (s1, None)"
    "output_pending R status' s1 = (s2, None)" "s' = window_done h s2"
    using assms(1) by (auto simp: emit_window_def Let_def and_then_None_iff split: if_splits)
  have "reconciler_at track n e s1"
    using reconcile_output_at [OF run(1)] assms(2) by simp
  then have "reconciler_at track n e s2"
    using run(2) reconcile_output_at by (fastforce simp: output_pending_def Let_def split: if_splits)
  then show ?thesis
    by (simp add: run(3) window_done_def reconciler_at_def)
qed

lemma reconcile_accept_fails:
  assumes at: "reconciler_at (sh_track_id h) n e s" and fits: "window_fits h overlap s"
  shows "only_fails (reconcile_excuse R) (reconcile_accept R h overlap s) \<and>
    (\<forall>s'. reconcile_accept R h overlap s = (s', None) \<longrightarrow> reconciler_at (sh_track_id h) (Suc n) (sh_first_sample h + sh_sample_count h) s')"
proof -
  have late: "reconcile_excuse R (Failure INVALID_ARGUMENT ''reconciliation timestamp exceeds limit'')"
    by (simp add: reconcile_excuse_def content_failure_def)
  have ao: "accept_open R h overlap s =
      (if hypothesis_start h < - (2 ^ 62) \<or> hypothesis_start h > 2 ^ 62
       then (s, Some (Failure INVALID_ARGUMENT ''reconciliation timestamp exceeds limit''))
       else (case lexical_segments (sh_track_id h) (hypothesis_start h) (hypothesis_end h) (sh_segments h) ([], None, 0, False) of
          Inl e \<Rightarrow> (s, Some e)
        | Inr (fresh, seen, _, bad) \<Rightarrow>
            let metadata = (case seen of Some m \<Rightarrow> m | None \<Rightarrow> segment_empty) in
            (case settle_pending R h fresh metadata bad s of (r, tokens, status) \<Rightarrow>
               and_then r (emit_window R h overlap bad tokens metadata status))))"
    using at fits unfolding accept_open_def reconciler_at_def by (simp only: if_False simp_thms not_False_eq_True) (cases "rc_window s = 0"; simp)
  have opened: "only_fails (reconcile_excuse R) (accept_open R h overlap s) \<and>
      (\<forall>s'. accept_open R h overlap s = (s', None) \<longrightarrow> reconciler_at (sh_track_id h) (Suc n) (sh_first_sample h + sh_sample_count h) s')"
  proof (cases "lexical_segments (sh_track_id h) (hypothesis_start h) (hypothesis_end h) (sh_segments h) ([], None, 0, False)")
    case (Inl x)
    then show ?thesis
      unfolding ao using late lexical_segments_fails [OF Inl] by (simp add: reconcile_excuse_def)
  next
    case (Inr found)
    obtain fresh seen bytes bad where found: "found = (fresh, seen, bytes, bad)"
      by (metis prod_cases4)
    let ?metadata = "case seen of Some m \<Rightarrow> m | None \<Rightarrow> segment_empty"
    obtain r tokens status where settled: "settle_pending R h fresh ?metadata bad s = (r, tokens, status)"
      by (metis prod_cases3)
    note sp = settle_pending_fails [OF settled, of "sh_track_id h" n e]
    have "only_fails (reconcile_excuse R) (and_then r (emit_window R h overlap bad tokens ?metadata status))"
      using sp by (intro only_fails_then emit_window_fails) blast
    moreover have "reconciler_at (sh_track_id h) (Suc n) (sh_first_sample h + sh_sample_count h) s'"
      if "and_then r (emit_window R h overlap bad tokens ?metadata status) = (s', None)" for s'
      using that sp at emit_window_at by (auto simp: and_then_None_iff)
    ultimately show ?thesis
      unfolding ao using late by (simp add: Inr found settled Let_def)
  qed
  have "\<not> rc_closed s"
    using at by (simp add: reconciler_at_def)
  with opened show ?thesis
    by (cases "accept_open R h overlap s"; cases "snd (accept_open R h overlap s)") (auto simp: reconcile_accept_def)
qed

lemma reconcile_finish_fails: "\<not> rc_closed s \<Longrightarrow> only_fails (reconcile_excuse R) (reconcile_finish R s)"
  by (simp add: reconcile_finish_def reconcile_output_fails)

end
