(* ===== verification/Voice_Activity.thy ===== *)
theory Voice_Activity
  imports Float32 Media_Types
begin

text \<open>
  The framing of the voice activity detector (src/streaming/src/vad.cpp): 512-sample frames to the
  native model, the last one padded with zeros, and a callback with the real samples of each
  frame. The native model is a step on its state that returns its probability, or nothing when it
  fails; its weights are accepted by their SHA-256 only.
\<close>

record 'v vad_model =
  vm_detect :: "'v \<Rightarrow> f32 list \<Rightarrow> 'v \<times> f32 option"
  vm_reset :: "'v \<Rightarrow> 'v"
  vm_init :: "string \<Rightarrow> 'v option"
  vm_sha256 :: "string \<Rightarrow> string"

record 'v voice_activity =
  va_context :: 'v
  va_pending :: "f32 list"
  va_closed :: bool
  va_hash :: string

type_synonym 'c vad_emit = "'c \<Rightarrow> f32 list \<Rightarrow> f32 \<Rightarrow> 'c outcome"

definition vad_frame :: nat where
  "vad_frame = 512"

definition qualified_vad :: string where
  "qualified_vad = ''29940d98d42b91fbd05ce489f3ecf7c72f0a42f027e4875919a28fb4c04ea2cf''"

definition hex_text :: "string \<Rightarrow> string" where
  "hex_text bytes = concat (map (\<lambda>c. hex_byte (of_char c)) bytes)"

definition voice_activity_new :: "'v vad_model \<Rightarrow> bool \<Rightarrow> string \<Rightarrow> exn + 'v voice_activity" where
  "voice_activity_new M emit_set weights =
     (if \<not> emit_set then Inl (Invalid_argument ''VAD output callback required'')
      else if hex_text (vm_sha256 M weights) \<noteq> qualified_vad
      then Inl (Invalid_argument ''unsupported VAD weights; expected qualified Silero v5.1.2'')
      else (case vm_init M weights of
          None \<Rightarrow> Inl (Runtime_error ''native VAD model load failed'')
        | Some context \<Rightarrow> Inr \<lparr>va_context = vm_reset M context, va_pending = [], va_closed = False, va_hash = vm_sha256 M weights\<rparr>))"

definition valid_probability :: "f32 \<Rightarrow> bool" where
  "valid_probability p \<longleftrightarrow> \<not> (\<not> f32_isfinite p \<or> f32_lt p f32_zero \<or> f32_lt f32_one p)"

definition vad_flush :: "'v vad_model \<Rightarrow> 'c vad_emit \<Rightarrow> 'v voice_activity \<times> 'c \<Rightarrow> ('v voice_activity \<times> 'c) outcome" where
  "vad_flush M emit vc =
     (let (v, c) = vc in
      if va_pending v = [] then (vc, None)
      else (case vm_detect M (va_context v) (va_pending v @ replicate (vad_frame - length (va_pending v)) 0) of
          (ctx, None) \<Rightarrow> ((v\<lparr>va_context := ctx\<rparr>, c), Some (Failure INTERNAL ''native VAD inference failed''))
        | (ctx, Some probability) \<Rightarrow>
            let v1 = v\<lparr>va_context := ctx\<rparr> in
            if \<not> valid_probability probability then ((v1, c), Some (Failure INTERNAL ''invalid VAD probability''))
            else (case emit c (va_pending v) probability of
                (c1, None) \<Rightarrow> ((v1\<lparr>va_pending := []\<rparr>, c1), None)
              | (c1, Some e) \<Rightarrow> ((v1, c1), Some e))))"

fun vad_samples :: "'v vad_model \<Rightarrow> 'c vad_emit \<Rightarrow> f32 list \<Rightarrow> 'v voice_activity \<times> 'c \<Rightarrow> ('v voice_activity \<times> 'c) outcome" where
  "vad_samples M emit [] vc = (vc, None)"
| "vad_samples M emit (x # xs) vc =
     (if \<not> f32_isfinite x then (vc, Some (Invalid_argument ''nonfinite VAD sample''))
      else let vc1 = ((fst vc)\<lparr>va_pending := va_pending (fst vc) @ [x]\<rparr>, snd vc) in
        and_then (if length (va_pending (fst vc1)) = vad_frame then vad_flush M emit vc1 else (vc1, None))
          (vad_samples M emit xs))"

text \<open>\<open>catch (...) { closed = true; throw; }\<close>\<close>

definition vad_closing :: "('v voice_activity \<times> 'c) outcome \<Rightarrow> ('v voice_activity \<times> 'c) outcome" where
  "vad_closing r = (case r of (vc, None) \<Rightarrow> (vc, None) | ((v, c), Some e) \<Rightarrow> ((v\<lparr>va_closed := True\<rparr>, c), Some e))"

definition vad_append :: "'v vad_model \<Rightarrow> 'c vad_emit \<Rightarrow> f32 list \<Rightarrow> 'v voice_activity \<times> 'c \<Rightarrow> ('v voice_activity \<times> 'c) outcome" where
  "vad_append M emit xs vc =
     (if va_closed (fst vc) then (vc, Some (Logic_error ''VAD input after close or failure''))
      else vad_closing (vad_samples M emit xs vc))"

definition vad_finish :: "'v vad_model \<Rightarrow> 'c vad_emit \<Rightarrow> 'v voice_activity \<times> 'c \<Rightarrow> ('v voice_activity \<times> 'c) outcome" where
  "vad_finish M emit vc =
     (if va_closed (fst vc) then (vc, Some (Logic_error ''VAD stream already closed''))
      else vad_flush M emit ((fst vc)\<lparr>va_closed := True\<rparr>, snd vc))"

definition vad_discontinuity :: "'v vad_model \<Rightarrow> 'c vad_emit \<Rightarrow> 'v voice_activity \<times> 'c \<Rightarrow> ('v voice_activity \<times> 'c) outcome" where
  "vad_discontinuity M emit vc =
     (if va_closed (fst vc) then (vc, Some (Logic_error ''VAD discontinuity after close''))
      else vad_closing (and_then (vad_flush M emit vc) (\<lambda>(v, c). ((v\<lparr>va_context := vm_reset M (va_context v)\<rparr>, c), None))))"

text \<open>A sequence of calls on an open stream; an exception ends it.\<close>

datatype vad_call = Vad_append "f32 list" | Vad_discontinuity

fun vad_step :: "'v vad_model \<Rightarrow> 'c vad_emit \<Rightarrow> vad_call \<Rightarrow> 'v voice_activity \<times> 'c \<Rightarrow> ('v voice_activity \<times> 'c) outcome" where
  "vad_step M emit (Vad_append xs) vc = vad_append M emit xs vc"
| "vad_step M emit Vad_discontinuity vc = vad_discontinuity M emit vc"

fun vad_calls :: "'v vad_model \<Rightarrow> 'c vad_emit \<Rightarrow> vad_call list \<Rightarrow> 'v voice_activity \<times> 'c \<Rightarrow> ('v voice_activity \<times> 'c) outcome" where
  "vad_calls M emit [] vc = (vc, None)"
| "vad_calls M emit (a # calls) vc = and_then (vad_step M emit a vc) (vad_calls M emit calls)"

text \<open>
  What the framing should be, without a detector: the audio between two discontinuities is one
  stretch, however many appends brought it, and a stretch is cut every 512 samples, its last frame
  holding the rest.
\<close>

fun stretches :: "f32 list \<Rightarrow> vad_call list \<Rightarrow> f32 list list" where
  "stretches acc [] = [acc]"
| "stretches acc (Vad_append xs # calls) = stretches (acc @ xs) calls"
| "stretches acc (Vad_discontinuity # calls) = acc # stretches [] calls"

function vad_frames :: "f32 list \<Rightarrow> f32 list list" where
  "vad_frames xs = (if xs = [] then [] else take 512 xs # vad_frames (drop 512 xs))"
  by pat_completeness auto

termination by (relation "measure length") auto

declare vad_frames.simps [simp del]

section \<open>Only real samples, all of them, in frames\<close>

text \<open>
  What the callback must do: \<open>told c xs\<close> relates a client state to the samples it has been given,
  and a frame extends them. The samples given and the pending ones are then the samples received.
\<close>

locale vad_client =
  fixes emit :: "'c vad_emit" and told :: "'c \<Rightarrow> f32 list \<Rightarrow> bool"
  assumes emit_told: "emit c xs p = (c', None) \<Longrightarrow> told c inp \<Longrightarrow> xs \<noteq> [] \<Longrightarrow> length xs \<le> 512 \<Longrightarrow> told c' (inp @ xs)"
begin

definition heard :: "'v voice_activity \<times> 'c \<Rightarrow> f32 list \<Rightarrow> bool" where
  "heard vc inp \<longleftrightarrow> (\<exists>given. told (snd vc) given \<and> inp = given @ va_pending (fst vc))"

lemma flush_heard:
  assumes "vad_flush M emit vc = (vc', None)" "heard vc inp" "length (va_pending (fst vc)) \<le> 512"
  shows "told (snd vc') inp \<and> va_pending (fst vc') = [] \<and> va_closed (fst vc') = va_closed (fst vc)"
proof -
  obtain v c where vc: "vc = (v, c)"
    by fastforce
  from assms(2) obtain given where "told c given" "inp = given @ va_pending v"
    by (auto simp: vc heard_def)
  with assms(1,3) emit_told [of c "va_pending v"] show ?thesis
    unfolding vc by (auto simp: vad_flush_def Let_def split: if_splits prod.splits option.splits)
qed

lemma samples_heard:
  assumes "vad_samples M emit xs vc = (vc', None)" "heard vc inp" "length (va_pending (fst vc)) < 512"
  shows "heard vc' (inp @ xs) \<and> length (va_pending (fst vc')) < 512 \<and> va_closed (fst vc') = va_closed (fst vc)"
  using assms
proof (induction xs arbitrary: vc inp)
  case (Cons x xs)
  let ?vc = "((fst vc)\<lparr>va_pending := va_pending (fst vc) @ [x]\<rparr>, snd vc)"
  obtain vc1 where one: "(if length (va_pending (fst ?vc)) = vad_frame then vad_flush M emit ?vc else (?vc, None)) = (vc1, None)"
    and rest: "vad_samples M emit xs vc1 = (vc', None)"
    using Cons.prems(1) by (auto simp: and_then_None_iff Let_def split: if_splits)
  have h: "heard ?vc (inp @ [x])" "length (va_pending (fst ?vc)) \<le> 512"
    using Cons.prems(2,3) by (auto simp: heard_def)
  have "heard vc1 (inp @ [x]) \<and> length (va_pending (fst vc1)) < 512 \<and> va_closed (fst vc1) = va_closed (fst vc)"
  proof (cases "length (va_pending (fst ?vc)) = vad_frame")
    case True
    with one h flush_heard [of M ?vc vc1 "inp @ [x]"] show ?thesis
      by (auto simp: heard_def)
  next
    case False
    with one h show ?thesis
      by (auto simp: vad_frame_def)
  qed
  with Cons.IH [OF rest] show ?case
    by fastforce
qed simp

lemma append_heard:
  assumes "vad_append M emit xs vc = (vc', None)" "heard vc inp" "length (va_pending (fst vc)) < 512"
  shows "heard vc' (inp @ xs) \<and> length (va_pending (fst vc')) < 512"
proof -
  have "vad_samples M emit xs vc = (vc', None)"
    using assms(1) by (auto simp: vad_append_def vad_closing_def split: if_splits prod.splits option.splits)
  from samples_heard [OF this assms(2,3)] show ?thesis
    by blast
qed

lemma finish_heard:
  assumes "vad_finish M emit vc = (vc', None)" "heard vc inp" "length (va_pending (fst vc)) < 512"
  shows "told (snd vc') inp"
proof -
  have f: "vad_flush M emit ((fst vc)\<lparr>va_closed := True\<rparr>, snd vc) = (vc', None)"
    using assms(1) by (simp add: vad_finish_def split: if_splits)
  from flush_heard [OF f] assms(2,3) show ?thesis
    by (auto simp: heard_def)
qed

lemma discontinuity_heard:
  assumes "vad_discontinuity M emit vc = (vc', None)" "heard vc inp" "length (va_pending (fst vc)) < 512"
  shows "told (snd vc') inp \<and> va_pending (fst vc') = []"
proof -
  obtain v c where f: "vad_flush M emit vc = ((v, c), None)" and v: "vc' = (v\<lparr>va_context := vm_reset M (va_context v)\<rparr>, c)"
    using assms(1) by (auto simp: vad_discontinuity_def vad_closing_def and_then_None_iff split: if_splits prod.splits option.splits)
  from flush_heard [OF f assms(2)] assms(3) show ?thesis
    by (simp add: v)
qed

end

text \<open>The plainest client keeps the frames.\<close>

definition keep_frame :: "(f32 list \<times> f32) list vad_emit" where
  "keep_frame frames xs p = (frames @ [(xs, p)], None)"

interpretation frames: vad_client keep_frame
  "\<lambda>frames inp. concat (map fst frames) = inp \<and> (\<forall>f \<in> set frames. fst f \<noteq> [] \<and> length (fst f) \<le> 512)"
  by unfold_locales (auto simp: keep_frame_def)

lemma voice_activity_new_fresh:
  "voice_activity_new M emit_set weights = Inr v \<Longrightarrow> va_pending v = [] \<and> \<not> va_closed v"
  by (auto simp: voice_activity_new_def split: if_splits option.splits)

section \<open>The frames are the cuts of the stretches\<close>

lemma vad_frames_Nil [simp]: "vad_frames [] = []"
  by (simp add: vad_frames.simps)

lemma vad_frames_short: "xs \<noteq> [] \<Longrightarrow> length xs \<le> 512 \<Longrightarrow> vad_frames xs = [xs]"
  by (subst vad_frames.simps) simp

lemma vad_frames_full: "(\<forall>f \<in> set full. length f = 512) \<Longrightarrow> vad_frames (concat full @ rest) = full @ vad_frames rest"
proof (induction full)
  case (Cons f full)
  then have "f \<noteq> []" "length f = 512"
    by auto
  then show ?case
    using Cons by (subst vad_frames.simps) auto
qed simp

text \<open>
  \<open>framed before acc vc\<close>: after the frames \<open>before\<close> of earlier stretches, the callback got full
  frames of the current stretch \<open>acc\<close>, and less than a frame of it is pending.
\<close>

definition framed :: "f32 list list \<Rightarrow> f32 list \<Rightarrow> 'v voice_activity \<times> (f32 list \<times> f32) list \<Rightarrow> bool" where
  "framed before acc vc \<longleftrightarrow> length (va_pending (fst vc)) < 512 \<and>
     (\<exists>full. map fst (snd vc) = before @ full \<and> (\<forall>f \<in> set full. length f = 512) \<and> acc = concat full @ va_pending (fst vc))"

lemma vad_flush_frames:
  "vad_flush M keep_frame vc = (vc', None) \<Longrightarrow>
   map fst (snd vc') = map fst (snd vc) @ (if va_pending (fst vc) = [] then [] else [va_pending (fst vc)]) \<and> va_pending (fst vc') = []"
  by (auto simp: vad_flush_def keep_frame_def Let_def split: if_splits prod.splits option.splits)

lemma vad_samples_framed:
  "vad_samples M keep_frame xs vc = (vc', None) \<Longrightarrow> framed before acc vc \<Longrightarrow> framed before (acc @ xs) vc'"
proof (induction xs arbitrary: vc acc)
  case (Cons x xs)
  let ?vc = "((fst vc)\<lparr>va_pending := va_pending (fst vc) @ [x]\<rparr>, snd vc)"
  obtain vc1 where one: "(if length (va_pending (fst ?vc)) = vad_frame then vad_flush M keep_frame ?vc else (?vc, None)) = (vc1, None)"
    and rest: "vad_samples M keep_frame xs vc1 = (vc', None)"
    using Cons.prems(1) by (auto simp: and_then_None_iff Let_def split: if_splits)
  obtain full where full: "map fst (snd vc) = before @ full" "\<forall>f \<in> set full. length f = 512"
    "acc = concat full @ va_pending (fst vc)" "length (va_pending (fst vc)) < 512"
    using Cons.prems(2) by (auto simp: framed_def)
  have "framed before (acc @ [x]) vc1"
  proof (cases "length (va_pending (fst ?vc)) = vad_frame")
    case True
    then have "map fst (snd vc1) = map fst (snd vc) @ [va_pending (fst vc) @ [x]] \<and> va_pending (fst vc1) = []"
      using one vad_flush_frames [of M ?vc vc1] by simp
    with full True show ?thesis
      by (auto simp: framed_def vad_frame_def intro!: exI [of _ "full @ [va_pending (fst vc) @ [x]]"])
  next
    case False
    with one full show ?thesis
      by (auto simp: framed_def vad_frame_def)
  qed
  from Cons.IH [OF rest this] show ?case
    by simp
qed simp

lemma vad_frames_all_full: "(\<forall>f \<in> set full. length f = 512) \<Longrightarrow> vad_frames (concat full) = full"
  using vad_frames_full [of full "[]"] by simp

lemma framed_flushed:
  assumes "vad_flush M keep_frame vc = (vc', None)" "framed before acc vc"
  shows "map fst (snd vc') = before @ vad_frames acc \<and> va_pending (fst vc') = []"
  using vad_flush_frames [OF assms(1)] assms(2)
  by (auto simp: framed_def vad_frames_full vad_frames_short vad_frames_all_full split: if_splits)

lemma vad_append_framed:
  assumes "vad_append M keep_frame xs vc = (vc', None)" "framed before acc vc"
  shows "framed before (acc @ xs) vc'"
proof -
  have "vad_samples M keep_frame xs vc = (vc', None)"
    using assms(1) by (auto simp: vad_append_def vad_closing_def split: if_splits prod.splits option.splits)
  from vad_samples_framed [OF this assms(2)] show ?thesis .
qed

lemma vad_discontinuity_framed:
  assumes "vad_discontinuity M keep_frame vc = (vc', None)" "framed before acc vc"
  shows "framed (before @ vad_frames acc) [] vc'"
proof -
  obtain v c where "vad_flush M keep_frame vc = ((v, c), None)" "vc' = (v\<lparr>va_context := vm_reset M (va_context v)\<rparr>, c)"
    using assms(1) by (auto simp: vad_discontinuity_def vad_closing_def and_then_None_iff split: if_splits prod.splits option.splits)
  with framed_flushed [OF _ assms(2)] show ?thesis
    by (fastforce simp: framed_def)
qed

lemma vad_finish_framed:
  assumes "vad_finish M keep_frame vc = (vc', None)" "framed before acc vc"
  shows "map fst (snd vc') = before @ vad_frames acc"
proof -
  have "vad_flush M keep_frame ((fst vc)\<lparr>va_closed := True\<rparr>, snd vc) = (vc', None)"
    using assms(1) by (simp add: vad_finish_def split: if_splits)
  from framed_flushed [OF this, of before acc] assms(2) show ?thesis
    by (simp add: framed_def)
qed

lemma vad_calls_framed:
  "vad_calls M keep_frame calls vc = (vc1, None) \<Longrightarrow> vad_finish M keep_frame vc1 = (vc', None) \<Longrightarrow> framed before acc vc \<Longrightarrow>
   map fst (snd vc') = before @ concat (map vad_frames (stretches acc calls))"
proof (induction calls arbitrary: vc before acc)
  case Nil
  then show ?case
    by (simp add: vad_finish_framed)
next
  case (Cons a calls)
  then obtain vc2 where a: "vad_step M keep_frame a vc = (vc2, None)" and calls: "vad_calls M keep_frame calls vc2 = (vc1, None)"
    by (auto simp: and_then_None_iff)
  show ?case
  proof (cases a)
    case (Vad_append xs)
    with Cons.IH [OF calls Cons.prems(2) vad_append_framed [OF _ Cons.prems(3)]] a show ?thesis
      by simp
  next
    case Vad_discontinuity
    with Cons.IH [OF calls Cons.prems(2) vad_discontinuity_framed [OF _ Cons.prems(3)]] a show ?thesis
      by simp
  qed
qed

text \<open>C40: the detector adds, drops and moves nothing, whatever appends and discontinuities a stream
  is made of. When all of them and \<open>finish\<close> have returned, the frames the callback got are exactly
  the audio between discontinuities cut every 512 samples: a frame that one append left partial is
  filled by the next, a discontinuity or the end publishes the partial frame without the zeros the
  model saw, and no frame spans a discontinuity.\<close>

theorem vad_lossless:
  assumes "voice_activity_new M True weights = Inr v0" "vad_calls M keep_frame calls (v0, []) = (vc, None)"
    "vad_finish M keep_frame vc = ((v, frames), None)"
  shows "map fst frames = concat (map vad_frames (stretches [] calls))"
proof -
  have "framed [] [] (v0, [])"
    using voice_activity_new_fresh [OF assms(1)] by (simp add: framed_def)
  from vad_calls_framed [OF assms(2,3) this] show ?thesis
    by simp
qed

definition demo_vad :: "unit vad_model" where
  "demo_vad = \<lparr>vm_detect = \<lambda>_ _. ((), Some 0), vm_reset = id, vm_init = \<lambda>_. Some (),
     vm_sha256 = \<lambda>_. map char_of [0x29, 0x94, 0x0d, 0x98, 0xd4, 0x2b, 0x91, 0xfb, 0xd0, 0x5c, 0xe4, 0x89, 0xf3, 0xec, 0xf7, 0xc7,
       0x2f, 0x0a, 0x42, 0xf0, 0x27, 0xe4, 0x87, 0x59, 0x19, 0xa2, 0x8f, 0xb4, 0xc0, 0x4e, 0xa2, 0xcf :: nat]\<rparr>"

lemma demo_vad_new: "\<exists>v. voice_activity_new demo_vad True [] = Inr v"
proof -
  have "hex_text (vm_sha256 demo_vad []) = qualified_vad"
    by code_simp
  then show ?thesis
    by (simp add: voice_activity_new_def demo_vad_def)
qed

theorem vad_lossless_witness:
  "\<exists>v0 vc v frames. voice_activity_new demo_vad True [] = Inr v0 \<and>
     vad_calls demo_vad keep_frame [Vad_append [1], Vad_append [2], Vad_discontinuity, Vad_append [3]] (v0, []) = (vc, None) \<and>
     vad_finish demo_vad keep_frame vc = ((v, frames), None) \<and> map fst frames = [[1, 2], [3]]"
proof -
  let ?calls = "[Vad_append [1], Vad_append [2], Vad_discontinuity, Vad_append [3]]"
  obtain v0 where v0: "voice_activity_new demo_vad True [] = Inr v0"
    using demo_vad_new by blast
  have fin: "f32_isfinite 0" "f32_isfinite 1" "f32_isfinite 2" "f32_isfinite 3" "valid_probability 0"
    by code_simp+
  note fresh = voice_activity_new_fresh [OF v0]
  obtain vc v frames where r: "vad_calls demo_vad keep_frame ?calls (v0, []) = (vc, None)"
    "vad_finish demo_vad keep_frame vc = ((v, frames), None)"
    using fresh fin by (simp add: vad_append_def vad_closing_def vad_finish_def vad_discontinuity_def vad_flush_def vad_frame_def
      keep_frame_def demo_vad_def)
  have "map fst frames = [[1, 2], [3]]"
    using vad_lossless [OF v0 r] by (simp add: vad_frames_short)
  with v0 r show ?thesis
    by (intro exI [of _ v0] exI [of _ vc] exI [of _ v] exI [of _ frames]) simp
qed

end
