(* ===== verification/Worker.thy ===== *)
theory Worker
  imports Windowing Media_Types
begin

text \<open>
  The speech worker of src/streaming/src/worker.cpp: one Transcribe session takes the windows of
  one track and answers each with one hypothesis. The backend model, SHA-256, protobuf sizes and
  the client's connection are parameters. Sessions run side by side; they share the count of
  open streams and the inference flag, whose atomic operations are the steps of the second part.
\<close>

section \<open>Messages\<close>

record speech_worker_open =
  wo_stream_id :: string
  wo_track_id :: nat
  wo_options :: speech_options

record inference_window =
  iw_window_number :: nat
  iw_first_sample :: nat
  iw_first_new_sample :: nat
  iw_pcm_f32le :: string
  iw_boundary :: int

datatype worker_request =
    Worker_open speech_worker_open | Worker_window inference_window | Worker_finish nat | Worker_request_not_set

record worker_opened =
  wr_accepted :: speech_worker_open
  wr_producer :: producer
  wr_max_window_samples :: nat

datatype worker_response = Worker_opened worker_opened | Worker_hypothesis speech_hypothesis | Worker_closed nat

section \<open>The worker\<close>

definition max_worker_streams :: nat where
  "max_worker_streams = 32"

definition max_window_samples :: nat where
  "max_window_samples = 480000"

text \<open>
  A \<open>SpeechBackend\<close> and the rest of the environment of a session: which reads of the inference
  flag find it set and which writes reach the client, by number.
\<close>

record 'b worker_env =
  we_validate_options :: "speech_options \<Rightarrow> exn option"
  we_infer :: "'b \<Rightarrow> speech_window \<Rightarrow> nat \<Rightarrow> speech_options \<Rightarrow> 'b \<times> (exn + transcript_segment list)"
  we_encoder_context :: "nat \<Rightarrow> string option"
  we_threads :: int
  we_multilingual :: "bool option"
  we_supports_translation :: bool
  we_supports_language_hint :: bool
  we_reports_language :: bool
  we_backend_kind :: nat
  we_minimum_encoder_context_ms :: "nat option"
  we_sha256 :: "string \<Rightarrow> string"
  we_serialize_options :: "speech_options \<Rightarrow> string"
  we_int_to_string :: "int \<Rightarrow> string"
  we_byte_size :: "worker_response \<Rightarrow> nat"
  we_busy :: "nat \<Rightarrow> bool"
  we_delivers :: "nat \<Rightarrow> bool"

record speech_worker =
  wk_input_idle_timeout_ms :: int
  wk_producer :: producer

text \<open>The constructor: \<open>names\<close> are the version, build, engine, device, model and hash strings the
  producer reports, \<open>fresh\<close> the identifier \<open>uuid()\<close> would make.\<close>

definition speech_worker_new ::
  "string \<Rightarrow> producer \<Rightarrow> string \<Rightarrow> int \<Rightarrow> exn + speech_worker" where
  "speech_worker_new fresh names machine_id timeout_ms =
     (if \<not> (timeout_ms > 0 \<and> timeout_ms \<le> 3600000)
      then Inl (Failure INVALID_ARGUMENT ''invalid worker input idle timeout'')
      else let machine = (if machine_id = [] then fresh else machine_id) in
        if \<not> valid_uuid machine then Inl (Failure INVALID_ARGUMENT ''invalid worker machine UUID'')
        else Inr \<lparr>wk_input_idle_timeout_ms = timeout_ms,
               wk_producer = names\<lparr>pr_machine_id := machine, pr_service := ''grpc-asr-speech-worker'', pr_configuration_sha256 := []\<rparr>\<rparr>)"

record model_info =
  mo_producer :: producer
  mo_multilingual_known :: bool
  mo_multilingual :: bool
  mo_backend :: nat
  mo_accepts_language_hint :: bool
  mo_reports_language :: bool
  mo_minimum_encoder_context_ms :: "nat option"
  mo_tasks :: "speech_task list"
  mo_max_window_samples :: nat
  mo_sample_rate_hz :: nat
  mo_max_streams :: nat
  mo_max_concurrent_inferences :: nat
  mo_inference_threads :: int
  mo_input_idle_timeout_ms :: int

definition get_model_info :: "'b worker_env \<Rightarrow> speech_worker \<Rightarrow> model_info" where
  "get_model_info E wk = \<lparr>mo_producer = wk_producer wk, mo_multilingual_known = we_multilingual E \<noteq> None,
     mo_multilingual = (we_multilingual E = Some True), mo_backend = we_backend_kind E,
     mo_accepts_language_hint = we_supports_language_hint E, mo_reports_language = we_reports_language E,
     mo_minimum_encoder_context_ms = we_minimum_encoder_context_ms E,
     mo_tasks = SPEECH_TASK_TRANSCRIBE # (if we_supports_translation E then [SPEECH_TASK_TRANSLATE_TO_ENGLISH] else []),
     mo_max_window_samples = max_window_samples, mo_sample_rate_hz = 16000, mo_max_streams = max_worker_streams,
     mo_max_concurrent_inferences = 1, mo_inference_threads = we_threads E,
     mo_input_idle_timeout_ms = wk_input_idle_timeout_ms wk\<rparr>"

section \<open>One session\<close>

record 'b worker_session =
  ws_open :: speech_worker_open
  ws_producer :: producer
  ws_count :: nat
  ws_end :: nat
  ws_after_discontinuity :: bool
  ws_after_end :: bool
  ws_backend :: 'b
  ws_inferences :: nat
  ws_sent :: "worker_response list"
  ws_writes :: nat

text \<open>\<open>wire->Write\<close>.\<close>

definition worker_write :: "'b worker_env \<Rightarrow> worker_response \<Rightarrow> 'b worker_session \<Rightarrow> 'b worker_session \<times> bool" where
  "worker_write E response s =
     (let s1 = s\<lparr>ws_writes := Suc (ws_writes s)\<rparr> in
      if we_delivers E (ws_writes s) then (s1\<lparr>ws_sent := ws_sent s @ [response]\<rparr>, True) else (s1, False))"

text \<open>The requirements on a window, in the order of the code.\<close>

definition window_refusal :: "'b worker_session \<Rightarrow> inference_window \<Rightarrow> string option" where
  "window_refusal s w =
     (let samples = length (iw_pcm_f32le w) div 4 in
      if ws_after_end s then Some ''audio after end boundary''
      else if \<not> (ws_count s \<noteq> uint64_max \<and> iw_window_number w = ws_count s + 1) then Some ''noncontiguous worker window number''
      else if \<not> (iw_pcm_f32le w \<noteq> [] \<and> length (iw_pcm_f32le w) mod 4 = 0 \<and> length (iw_pcm_f32le w) \<le> max_window_samples * 4)
      then Some ''invalid inference PCM size''
      else if \<not> iw_first_sample w \<le> 100000000000000 then Some ''worker sample position exceeds limit''
      else if \<not> (iw_first_new_sample w \<ge> iw_first_sample w \<and> iw_first_new_sample w < iw_first_sample w + samples)
      then Some ''window contains no new audio or has invalid overlap''
      else if \<not> (if ws_count s \<noteq> 0 then iw_first_new_sample w = ws_end s else iw_first_new_sample w = iw_first_sample w)
      then Some ''worker new-audio boundary is not contiguous''
      else if \<not> (\<not> ws_after_discontinuity s \<or> iw_first_sample w = ws_end s) then Some ''overlap crossed a discontinuity''
      else if \<not> (iw_boundary w \<ge> 1 \<and> iw_boundary w \<le> 5) then Some ''invalid inference boundary''
      else None)"

definition worker_samples :: "inference_window \<Rightarrow> f32 list" where
  "worker_samples w = (case pcm_decode (iw_pcm_f32le w) of Some xs \<Rightarrow> xs | None \<Rightarrow> [])"

definition hypothesis_for ::
  "'b worker_env \<Rightarrow> 'b worker_session \<Rightarrow> inference_window \<Rightarrow> transcript_segment list \<Rightarrow> speech_hypothesis" where
  "hypothesis_for E s w segments =
     (let samples = length (iw_pcm_f32le w) div 4 in
      \<lparr>sh_window_number = iw_window_number w, sh_track_id = wo_track_id (ws_open s), sh_segments = segments,
       sh_first_sample = iw_first_sample w, sh_first_new_sample = iw_first_new_sample w, sh_sample_count = samples,
       sh_boundary = nat (iw_boundary w), sh_producer = ws_producer s, sh_contributors = [], sh_presentation_time_us = None,
       sh_encoder_context = we_encoder_context E samples\<rparr>)"

text \<open>A status that ends the call, from an exception.\<close>

definition worker_failure :: "exn \<Rightarrow> status" where
  "worker_failure e = (case e of Failure code m \<Rightarrow> Status code m | _ \<Rightarrow> Status INTERNAL ''speech worker failed'')"

text \<open>One window: the session goes on (\<open>None\<close>) or the call returns.\<close>

definition worker_window ::
  "'b worker_env \<Rightarrow> inference_window \<Rightarrow> 'b worker_session \<Rightarrow> 'b worker_session \<times> status option" where
  "worker_window E w s =
     (case window_refusal s w of
        Some reason \<Rightarrow> (s, Some (Status INVALID_ARGUMENT reason))
      | None \<Rightarrow>
        if we_busy E (ws_inferences s) then (s, Some (Status RESOURCE_EXHAUSTED ''speech inference slot is busy''))
        else
          let window = \<lparr>win_number = iw_window_number w, win_first_sample = iw_first_sample w,
                win_first_new_sample = iw_first_new_sample w, win_boundary = Fixed, win_samples = worker_samples w\<rparr>;
              (b, result) = we_infer E (ws_backend s) window (wo_track_id (ws_open s)) (wo_options (ws_open s));
              s1 = s\<lparr>ws_backend := b, ws_inferences := Suc (ws_inferences s)\<rparr>
          in (case result of
              Inl e \<Rightarrow> (s1, Some (worker_failure e))
            | Inr segments \<Rightarrow>
                let response = Worker_hypothesis (hypothesis_for E s w segments) in
                if we_byte_size E response > 4 * 1024 * 1024
                then (s1, Some (Status RESOURCE_EXHAUSTED ''speech hypothesis exceeds output limit''))
                else (case worker_write E response s1 of
                    (s2, False) \<Rightarrow> (s2, Some (Status CANCELLED ''worker hypothesis disconnected''))
                  | (s2, True) \<Rightarrow>
                      (s2\<lparr>ws_count := ws_count s + 1, ws_end := iw_first_sample w + length (iw_pcm_f32le w) div 4,
                          ws_after_discontinuity := iw_boundary w = 5, ws_after_end := iw_boundary w = 4\<rparr>, None))))"

definition worker_finish :: "'b worker_env \<Rightarrow> nat \<Rightarrow> 'b worker_session \<Rightarrow> 'b worker_session \<times> status" where
  "worker_finish E window_count s =
     (if window_count \<noteq> ws_count s then (s, Status INVALID_ARGUMENT ''worker finish count mismatch'')
      else (case worker_write E (Worker_closed (ws_count s)) s of
          (s1, False) \<Rightarrow> (s1, Status CANCELLED ''worker close disconnected'')
        | (s1, True) \<Rightarrow> (s1, Status OK [])))"

text \<open>The read loop over the client's messages; its end is the half-close or a cancelled read.\<close>

fun worker_loop :: "'b worker_env \<Rightarrow> worker_request list \<Rightarrow> 'b worker_session \<Rightarrow> 'b worker_session \<times> status" where
  "worker_loop E [] s = (s, Status CANCELLED ''worker input ended without explicit finish'')"
| "worker_loop E (Worker_finish n # rs) s = worker_finish E n s"
| "worker_loop E (Worker_window w # rs) s =
     (case worker_window E w s of (s1, Some st) \<Rightarrow> (s1, st) | (s1, None) \<Rightarrow> worker_loop E rs s1)"
| "worker_loop E (_ # rs) s = (s, Status INVALID_ARGUMENT ''expected worker window or finish'')"

definition accepted_open :: "speech_worker_open \<Rightarrow> speech_worker_open" where
  "accepted_open o1 = (if so_task (wo_options o1) = SPEECH_TASK_UNSPECIFIED
     then o1\<lparr>wo_options := (wo_options o1)\<lparr>so_task := SPEECH_TASK_TRANSCRIBE\<rparr>\<rparr> else o1)"

definition session_producer :: "'b worker_env \<Rightarrow> speech_worker \<Rightarrow> speech_worker_open \<Rightarrow> producer" where
  "session_producer E wk accepted = (wk_producer wk)\<lparr>pr_configuration_sha256 :=
     we_sha256 E (we_serialize_options E (wo_options accepted) @ '':threads='' @ we_int_to_string E (we_threads E) @
       '':input_idle_ms='' @ we_int_to_string E (wk_input_idle_timeout_ms wk))\<rparr>"

text \<open>The call of an admitted session: the responses it sent and its status.\<close>

definition session_new :: "speech_worker_open \<Rightarrow> producer \<Rightarrow> 'b \<Rightarrow> 'b worker_session" where
  "session_new accepted producer b = \<lparr>ws_open = accepted, ws_producer = producer, ws_count = 0, ws_end = 0,
     ws_after_discontinuity = False, ws_after_end = False, ws_backend = b, ws_inferences = 0, ws_sent = [], ws_writes = 0\<rparr>"

definition worker_transcribe ::
  "'b worker_env \<Rightarrow> speech_worker \<Rightarrow> 'b \<Rightarrow> worker_request list \<Rightarrow> worker_response list \<times> status" where
  "worker_transcribe E wk b reads =
     (case reads of
        Worker_open o1 # rs \<Rightarrow>
          if \<not> valid_uuid (wo_stream_id o1) then ([], Status INVALID_ARGUMENT ''invalid source stream UUID'')
          else if so_windowing (wo_options o1) \<noteq> None
          then ([], Status INVALID_ARGUMENT ''worker accepts pre-cut windows, not a windowing policy'')
          else (case we_validate_options E (wo_options o1) of
              Some e \<Rightarrow> ([], worker_failure e)
            | None \<Rightarrow>
                let accepted = accepted_open o1; producer = session_producer E wk accepted in
                (case worker_write E (Worker_opened \<lparr>wr_accepted = accepted, wr_producer = producer,
                     wr_max_window_samples = max_window_samples\<rparr>) (session_new accepted producer b) of
                   (s, False) \<Rightarrow> (ws_sent s, Status CANCELLED ''worker handshake disconnected'')
                 | (s, True) \<Rightarrow> (case worker_loop E rs s of (s1, st) \<Rightarrow> (ws_sent s1, st))))
      | _ \<Rightarrow> ([], Status INVALID_ARGUMENT ''first worker message must open a track''))"

section \<open>Sessions side by side\<close>

text \<open>
  The shared atomics: the stream counter with the sessions admitted and those that were refused
  but have not taken their increment back, the inference flag and the sessions inside \<open>infer\<close>.
\<close>

record worker_shared =
  sh_streams :: nat
  sh_admitted :: nat
  sh_refusing :: nat
  sh_flag :: bool
  sh_inferring :: nat

inductive worker_step :: "worker_shared \<Rightarrow> worker_shared \<Rightarrow> bool" where
  admit_session: "sh_streams s < max_worker_streams \<Longrightarrow>
     worker_step s (s\<lparr>sh_streams := Suc (sh_streams s), sh_admitted := Suc (sh_admitted s)\<rparr>)"
| refuse_session: "max_worker_streams \<le> sh_streams s \<Longrightarrow>
     worker_step s (s\<lparr>sh_streams := Suc (sh_streams s), sh_refusing := Suc (sh_refusing s)\<rparr>)"
| take_back: "0 < sh_refusing s \<Longrightarrow>
     worker_step s (s\<lparr>sh_streams := sh_streams s - 1, sh_refusing := sh_refusing s - 1\<rparr>)"
| release_session: "0 < sh_admitted s \<Longrightarrow> sh_inferring s < sh_admitted s \<Longrightarrow>
     worker_step s (s\<lparr>sh_streams := sh_streams s - 1, sh_admitted := sh_admitted s - 1\<rparr>)"
| start_inference: "\<not> sh_flag s \<Longrightarrow> sh_inferring s < sh_admitted s \<Longrightarrow>
     worker_step s (s\<lparr>sh_flag := True, sh_inferring := Suc (sh_inferring s)\<rparr>)"
| refuse_inference: "sh_flag s \<Longrightarrow> worker_step s s"
| end_inference: "0 < sh_inferring s \<Longrightarrow>
     worker_step s (s\<lparr>sh_flag := False, sh_inferring := sh_inferring s - 1\<rparr>)"

definition worker_shared_new :: worker_shared where
  "worker_shared_new = \<lparr>sh_streams = 0, sh_admitted = 0, sh_refusing = 0, sh_flag = False, sh_inferring = 0\<rparr>"

lemma worker_shared_invariant:
  "worker_step\<^sup>*\<^sup>* worker_shared_new s \<Longrightarrow> sh_streams s = sh_admitted s + sh_refusing s \<and> sh_admitted s \<le> max_worker_streams \<and>
     sh_inferring s = (if sh_flag s then 1 else 0)"
proof (induction rule: rtranclp_induct)
  case base
  show ?case
    by (simp add: worker_shared_new_def)
next
  case (step s t)
  from step(2,3) show ?case
    by (cases rule: worker_step.cases) (auto split: if_splits)
qed

text \<open>The limits of the worker. However the sessions' atomic operations interleave, at most 32
  sessions are admitted and at most one of them is inside the model.\<close>

theorem worker_limits:
  assumes "worker_step\<^sup>*\<^sup>* worker_shared_new s"
  shows "sh_admitted s \<le> 32 \<and> sh_inferring s \<le> 1"
  using worker_shared_invariant [OF assms] by (auto simp: max_worker_streams_def)

theorem worker_limits_witness:
  "\<exists>s. worker_step\<^sup>*\<^sup>* worker_shared_new s \<and> sh_inferring s = 1 \<and> sh_admitted s \<le> 32"
proof -
  let ?s = "worker_shared_new\<lparr>sh_streams := 1, sh_admitted := 1\<rparr>"
  have "worker_step worker_shared_new ?s" "worker_step ?s (?s\<lparr>sh_flag := True, sh_inferring := 1\<rparr>)"
    using admit_session [of worker_shared_new] start_inference [of ?s] by (simp_all add: worker_shared_new_def max_worker_streams_def)
  then have "worker_step\<^sup>*\<^sup>* worker_shared_new (?s\<lparr>sh_flag := True, sh_inferring := 1\<rparr>)"
    by (meson rtranclp.rtrancl_into_rtrancl rtranclp.rtrancl_refl)
  with worker_limits [OF this] show ?thesis
    by (intro exI [of _ "?s\<lparr>sh_flag := True, sh_inferring := 1\<rparr>"]) simp
qed

end
