(* ===== verification/Pipeline.thy ===== *)
theory Pipeline
  imports Worker Voice_Activity Reconcile Ordered_Map "HOL-Library.Product_Lexorder"
begin

text \<open>
  The speech pipeline of src/streaming/src/pipeline.cpp: a \<open>Track\<close> puts decoded audio through the
  voice activity detector and the window cutter, sends every window to a speech worker, checks
  the answer and publishes it, raw and reconciled. The connection to the worker is a
  parameter; so are the protobuf serializations, SHA-256 and the callback that publishes an event, a
  function of all events so far that may throw. Event times are unbounded integers.
\<close>

section \<open>The environment\<close>

record 'w worker_link =
  wi_write :: "'w \<Rightarrow> worker_request \<Rightarrow> 'w \<times> bool"
  wi_read :: "'w \<Rightarrow> 'w \<times> worker_response option"
  wi_writes_done :: "'w \<Rightarrow> 'w"
  wi_finish :: "'w \<Rightarrow> 'w \<times> status"
  wi_cancel :: "'w \<Rightarrow> 'w"

record ('w, 'v, 'l) track_env =
  te_wire :: "'w worker_link"
  te_connect :: 'w
  te_vad :: "'v vad_model"
  te_reconcile :: "'l reconcile_env"
  te_refuses :: "stream_event list \<Rightarrow> exn option"
  te_sha256 :: "string \<Rightarrow> string"
  te_options_bytes :: "speech_options \<Rightarrow> string"
  te_windowing_bytes :: "speech_windowing \<Rightarrow> string"
  te_producer_bytes :: "producer \<Rightarrow> string"
  te_app_version :: string
  te_build_id :: string
  te_library_version :: string

section \<open>Times and policies\<close>

definition sample_us :: "nat \<Rightarrow> exn + int" where
  "sample_us sample =
     (if sample \<le> 100000000000000
      then Inr (int ((sample div 16000) * 1000000 + (sample mod 16000) * 1000000 div 16000))
      else Inl (Failure INVALID_ARGUMENT ''speech timeline exceeds limit''))"

definition windowing_default :: speech_windowing where
  "windowing_default = \<lparr>sw_window_ms = None, sw_overlap_ms = None, sw_strategy = CHUNKING_UNSPECIFIED, sw_speech_boundary = None\<rparr>"

definition boundary_default :: speech_boundary where
  "boundary_default = \<lparr>sb_vad_model_id = [], sb_min_pause_ms = 0, sb_speech_padding_ms = 0, sb_max_window_ms = 0,
     sb_no_pause_policy = NO_PAUSE_UNSPECIFIED\<rparr>"

text \<open>Protobuf getters: an absent field reads as its default.\<close>

definition get_or :: "'a \<Rightarrow> 'a option \<Rightarrow> 'a" where
  "get_or d x = (case x of None \<Rightarrow> d | Some v \<Rightarrow> v)"

definition policy :: "speech_options \<Rightarrow> window_policy" where
  "policy options =
     (let w = get_or windowing_default (so_windowing options); b = get_or boundary_default (sw_speech_boundary w);
          window_ms = get_or 0 (sw_window_ms w); aware = (sw_strategy w = CHUNKING_SPEECH_AWARE) in
      \<lparr>target_samples = u32 (window_ms * 16), max_samples = u32 ((if aware then sb_max_window_ms b else window_ms) * 16),
       overlap_samples = u32 (get_or 0 (sw_overlap_ms w) * 16), min_pause_samples = u32 (sb_min_pause_ms b * 16),
       padding_samples = u32 (sb_speech_padding_ms b * 16), speech_aware = aware,
       fail_without_pause = (sb_no_pause_policy b = NO_PAUSE_FAIL)\<rparr>)"

section \<open>One track\<close>

text \<open>The fields \<open>infer\<close> works on, with all events that were published so far.\<close>

record 'w track =
  tr_wire :: 'w
  tr_producer :: producer
  tr_selector :: producer
  tr_reconciler :: "reconciler option"
  tr_overlap :: nat
  tr_count :: nat
  tr_done :: bool
  tr_track :: nat
  tr_time_offset :: "int option"
  tr_events :: "stream_event list"

text \<open>The whole object.\<close>

record ('w, 'v) speech_track =
  st_track :: "'w track"
  st_windows :: windowing
  st_vad :: "'v voice_activity option"
  st_samples :: nat
  st_chunks :: nat

definition require :: "bool \<Rightarrow> string \<Rightarrow> 's \<Rightarrow> 's outcome" where
  "require ok why s = (if ok then (s, None) else (s, Some (Failure INVALID_ARGUMENT why)))"

definition track_emit :: "('w, 'v, 'l) track_env \<Rightarrow> stream_event \<Rightarrow> 'w track \<Rightarrow> 'w track outcome" where
  "track_emit T ev t = (let t1 = t\<lparr>tr_events := tr_events t @ [ev]\<rparr> in (t1, te_refuses T (tr_events t1)))"

definition track_failed :: "('w, 'v, 'l) track_env \<Rightarrow> 'w track \<Rightarrow> 'w track outcome" where
  "track_failed T t =
     (case wi_finish (te_wire T) (tr_wire t) of (w, status) \<Rightarrow>
        (t\<lparr>tr_wire := w, tr_done := True\<rparr>,
         Some (Failure (if status_ok status then DATA_LOSS else error_code status) ''speech worker stream failed'')))"

text \<open>\<open>if (!wire_->Write(request) || !wire_->Read(&response)) failed();\<close> then the rest with the
  response.\<close>

definition track_exchange ::
  "('w, 'v, 'l) track_env \<Rightarrow> worker_request \<Rightarrow> (worker_response \<Rightarrow> 'w track \<Rightarrow> 'w track outcome) \<Rightarrow> 'w track \<Rightarrow> 'w track outcome" where
  "track_exchange T request k t =
     (case wi_write (te_wire T) (tr_wire t) request of
        (w, False) \<Rightarrow> track_failed T (t\<lparr>tr_wire := w\<rparr>)
      | (w, True) \<Rightarrow> (case wi_read (te_wire T) w of
            (w1, None) \<Rightarrow> track_failed T (t\<lparr>tr_wire := w1\<rparr>)
          | (w1, Some response) \<Rightarrow> k response (t\<lparr>tr_wire := w1\<rparr>)))"

definition no_cursor :: cursor where
  "no_cursor = \<lparr>cu_server_epoch = [], cu_stream_id = [], cu_event_sequence = 0, cu_stream_incarnation = []\<rparr>"

text \<open>The callback the constructor gives the reconciler.\<close>

definition reconciled_event :: "('w, 'v, 'l) track_env \<Rightarrow> 'w track \<Rightarrow> transcript_segment \<Rightarrow> stream_event" where
  "reconciled_event T t segment =
     (let producer = (tr_selector t)\<lparr>pr_service := ''grpc-asr-reconciliation'', pr_model_id := [], pr_model_sha256 := [],
            pr_configuration_sha256 := te_sha256 T ''reconciliation-v1:timing-tolerance-us=350000''\<rparr>
      in \<lparr>ev_cursor = no_cursor, ev_producer = Some producer, ev_emitted_at = (0, 0),
          ev_payload = Transcript (segment\<lparr>ts_producer := producer,
            ts_contributors := ts_contributors segment @ [tr_producer t, tr_selector t]\<rparr>)\<rparr>)"

text \<open>A call of the reconciler: what it emits is wrapped and published at once, and an exception of the
  publication leaves the call.\<close>

definition track_reconcile ::
  "('w, 'v, 'l) track_env \<Rightarrow> ('l reconcile_env \<Rightarrow> reconciler \<Rightarrow> reconciler outcome) \<Rightarrow> 'w track \<Rightarrow> 'w track outcome" where
  "track_reconcile T call t =
     (case tr_reconciler t of
        None \<Rightarrow> (t, None)
      | Some rc \<Rightarrow>
          let published = (\<lambda>segs. tr_events t @ map (reconciled_event T t) (drop (length (rc_emitted rc)) segs)) in
          (case call ((te_reconcile T)\<lparr>re_refuses := \<lambda>segs. te_refuses T (published segs)\<rparr>) rc of (rc1, e) \<Rightarrow>
             (t\<lparr>tr_reconciler := Some rc1, tr_events := published (rc_emitted rc1)\<rparr>, e)))"

definition boundary_code :: "window_boundary \<Rightarrow> int" where
  "boundary_code b = (case b of Fixed \<Rightarrow> 0 | Pause \<Rightarrow> 1 | Forced \<Rightarrow> 2 | End \<Rightarrow> 3 | Discontinuity \<Rightarrow> 4) + 1"

definition window_request :: "speech_window \<Rightarrow> inference_window" where
  "window_request w = \<lparr>iw_window_number = win_number w, iw_first_sample = win_first_sample w,
     iw_first_new_sample = win_first_new_sample w, iw_pcm_f32le = pcm_encode (win_samples w), iw_boundary = boundary_code (win_boundary w)\<rparr>"

definition answers_window :: "('w, 'v, 'l) track_env \<Rightarrow> 'w track \<Rightarrow> speech_window \<Rightarrow> worker_response \<Rightarrow> bool" where
  "answers_window T t w response =
     (case response of
        Worker_hypothesis h \<Rightarrow> sh_window_number h = win_number w \<and> sh_track_id h = tr_track t \<and>
          sh_first_sample h = win_first_sample w \<and> sh_first_new_sample h = win_first_new_sample w \<and>
          int (sh_boundary h) = boundary_code (win_boundary w) \<and>
          te_producer_bytes T (sh_producer h) = te_producer_bytes T (tr_producer t) \<and> sh_sample_count h = length (win_samples w)
      | _ \<Rightarrow> False)"

definition shift_segment :: "int \<Rightarrow> transcript_segment \<Rightarrow> transcript_segment" where
  "shift_segment offset s = s\<lparr>ts_start_us := ts_start_us s + offset, ts_end_us := ts_end_us s + offset,
     ts_tokens := map (\<lambda>k. k\<lparr>tk_start_us := map_option (\<lambda>x. x + offset) (tk_start_us k),
       tk_end_us := map_option (\<lambda>x. x + offset) (tk_end_us k)\<rparr>) (ts_tokens s)\<rparr>"

text \<open>The hypothesis in source time, with the selector as a contributor.\<close>

definition placed_hypothesis :: "'w track \<Rightarrow> speech_window \<Rightarrow> speech_hypothesis \<Rightarrow> exn + speech_hypothesis" where
  "placed_hypothesis t w h =
     (let contributed = (\<lambda>h. h\<lparr>sh_contributors := sh_contributors h @ [tr_selector t]\<rparr>) in
      case tr_time_offset t of
        None \<Rightarrow> Inr (contributed h)
      | Some offset \<Rightarrow> (case sample_us (win_first_sample w) of
            Inl e \<Rightarrow> Inl e
          | Inr us \<Rightarrow> Inr (contributed (h\<lparr>sh_presentation_time_us := Some (us + offset),
                sh_segments := map (shift_segment offset) (sh_segments h)\<rparr>))))"

definition reconcile_overlap :: "'w track \<Rightarrow> speech_window \<Rightarrow> nat" where
  "reconcile_overlap t w = (if win_boundary w = Fixed \<or> win_boundary w = Forced then tr_overlap t else 0)"

definition hypothesis_event :: "'w track \<Rightarrow> speech_hypothesis \<Rightarrow> stream_event" where
  "hypothesis_event t h = \<lparr>ev_cursor = no_cursor, ev_producer = Some (tr_producer t), ev_emitted_at = (0, 0), ev_payload = Hypothesis h\<rparr>"

text \<open>From the checked answer to the end of \<open>infer\<close>.\<close>

definition publish_hypothesis :: "('w, 'v, 'l) track_env \<Rightarrow> speech_window \<Rightarrow> worker_response \<Rightarrow> 'w track \<Rightarrow> 'w track outcome" where
  "publish_hypothesis T w response t =
     (case response of
        Worker_hypothesis answer \<Rightarrow>
          (case placed_hypothesis t w answer of
             Inl e \<Rightarrow> (t, Some e)
           | Inr h \<Rightarrow>
               and_then (track_emit T (hypothesis_event t h) t) (\<lambda>t1.
               and_then (track_reconcile T (\<lambda>R. reconcile_accept R h (reconcile_overlap t1 w)) t1) (\<lambda>t2.
                 (t2\<lparr>tr_count := tr_count t2 + 1\<rparr>, None))))
      | _ \<Rightarrow> (t, None))"

definition track_infer :: "('w, 'v, 'l) track_env \<Rightarrow> 'w track window_emit" where
  "track_infer T t w =
     track_exchange T (Worker_window (window_request w)) (\<lambda>response t1.
       and_then (require (answers_window T t1 w response) ''worker hypothesis identity mismatch'' t1)
         (publish_hypothesis T w response)) t"

section \<open>Opening a track\<close>

definition track_request :: "string \<Rightarrow> nat \<Rightarrow> speech_options \<Rightarrow> speech_worker_open" where
  "track_request stream_id track options = \<lparr>wo_stream_id = stream_id, wo_track_id = track, wo_options = options\<lparr>so_windowing := None\<rparr>\<rparr>"

definition handshake_ok :: "('w, 'v, 'l) track_env \<Rightarrow> speech_worker_open \<Rightarrow> string \<Rightarrow> worker_response \<Rightarrow> bool" where
  "handshake_ok T request model_id response =
     (case response of
        Worker_opened o1 \<Rightarrow> wo_stream_id (wr_accepted o1) = wo_stream_id request \<and> wo_track_id (wr_accepted o1) = wo_track_id request \<and>
          te_options_bytes T (wo_options (wr_accepted o1)) = te_options_bytes T (wo_options request) \<and>
          pr_model_id (wr_producer o1) = model_id \<and> length (pr_model_sha256 (wr_producer o1)) = 32 \<and>
          length (pr_configuration_sha256 (wr_producer o1)) = 32 \<and> valid_uuid (pr_machine_id (wr_producer o1))
      | _ \<Rightarrow> False)"

text \<open>The track once its worker has answered.\<close>

definition selector :: "('w, 'v, 'l) track_env \<Rightarrow> string \<Rightarrow> speech_options \<Rightarrow> producer" where
  "selector T machine options =
     producer_empty\<lparr>pr_machine_id := machine, pr_service := ''grpc-asr-windowing'', pr_app_version := te_app_version T,
       pr_build_id := te_build_id T, pr_execution_backend := ''cpu'',
       pr_configuration_sha256 := te_sha256 T (te_windowing_bytes T (get_or windowing_default (so_windowing options)) @
         '':vad_threshold=0.5;vad_frame_samples=512'')\<rparr>"

definition track_opened :: "('w, 'v, 'l) track_env \<Rightarrow> nat \<Rightarrow> speech_options \<Rightarrow> string \<Rightarrow> producer \<Rightarrow> 'w track \<Rightarrow> 'w track" where
  "track_opened T track options machine producer t =
     t\<lparr>tr_track := track, tr_overlap := overlap_samples (policy options),
       tr_reconciler := (if get_or False (so_reconcile_transcript options) then Some reconciler_new else None),
       tr_producer := producer, tr_selector := selector T machine options\<rparr>"

text \<open>The cutter and, for speech-aware windows, the detector with its part of the selector.\<close>

definition track_stages ::
  "('w, 'v, 'l) track_env \<Rightarrow> speech_options \<Rightarrow> string \<Rightarrow> 'w track \<Rightarrow> exn + ('w, 'v) speech_track" where
  "track_stages T options vad_weights t =
     (case windowing_new True (policy options) of
        Inl e \<Rightarrow> Inl e
      | Inr windows \<Rightarrow>
          let st = \<lparr>st_track = t, st_windows = windows, st_vad = None, st_samples = 0, st_chunks = 0\<rparr> in
          if sw_strategy (get_or windowing_default (so_windowing options)) = CHUNKING_SPEECH_AWARE
          then (case voice_activity_new (te_vad T) True vad_weights of
              Inl e \<Rightarrow> Inl e
            | Inr v \<Rightarrow> Inr (st\<lparr>st_vad := Some v, st_track := t\<lparr>tr_selector := (tr_selector t)\<lparr>pr_model_id := ''silero-v5.1.2'',
                pr_model_sha256 := va_hash v, pr_library_version := te_library_version T\<rparr>\<rparr>\<rparr>))
          else Inr st)"

definition track_fresh :: "('w, 'v, 'l) track_env \<Rightarrow> stream_event list \<Rightarrow> 'w track" where
  "track_fresh T events = \<lparr>tr_wire = te_connect T, tr_producer = producer_empty, tr_selector = producer_empty, tr_reconciler = None,
     tr_overlap = 0, tr_count = 0, tr_done = False, tr_track = 0, tr_time_offset = None, tr_events = events\<rparr>"

text \<open>The destructor, and the handler of the constructor: cancel, and take the status once.\<close>

definition track_destroy :: "('w, 'v, 'l) track_env \<Rightarrow> 'w track \<Rightarrow> 'w track" where
  "track_destroy T t = (if tr_done t then t else t\<lparr>tr_wire := fst (wi_finish (te_wire T) (wi_cancel (te_wire T) (tr_wire t))), tr_done := True\<rparr>)"

definition track_abandon :: "('w, 'v, 'l) track_env \<Rightarrow> 'w track \<Rightarrow> 'w track" where
  "track_abandon T t =
     (let w = wi_cancel (te_wire T) (tr_wire t) in
      t\<lparr>tr_wire := (if tr_done t then w else fst (wi_finish (te_wire T) w)), tr_done := True\<rparr>)"

definition track_new ::
  "('w, 'v, 'l) track_env \<Rightarrow> string \<Rightarrow> nat \<Rightarrow> speech_options \<Rightarrow> string \<Rightarrow> string \<Rightarrow> stream_event list \<Rightarrow>
   'w track \<times> (exn + ('w, 'v) speech_track)" where
  "track_new T stream_id track options vad_weights machine events =
     (let request = track_request stream_id track options;
          opening = track_exchange T (Worker_open request) (\<lambda>response t.
            and_then (require (handshake_ok T request (so_model_id options) response) ''invalid worker handshake'' t) (\<lambda>t1.
              case response of
                Worker_opened o1 \<Rightarrow> (track_opened T track options machine (wr_producer o1) t1, None)
              | _ \<Rightarrow> (t1, None))) (track_fresh T events) in
      case opening of
        (t, Some e) \<Rightarrow> (track_abandon T t, Inl e)
      | (t, None) \<Rightarrow> (case track_stages T options vad_weights t of
            Inl e \<Rightarrow> (track_abandon T t, Inl e)
          | Inr st \<Rightarrow> (st_track st, Inr st)))"

section \<open>Audio and the end\<close>

definition on_windows ::
  "(windowing \<times> 'w track \<Rightarrow> (windowing \<times> 'w track) outcome) \<Rightarrow> ('w, 'v) speech_track \<Rightarrow> ('w, 'v) speech_track outcome" where
  "on_windows f st = (case f (st_windows st, st_track st) of ((s, t), e) \<Rightarrow> (st\<lparr>st_windows := s, st_track := t\<rparr>, e))"

definition on_vad ::
  "('v voice_activity \<times> windowing \<times> 'w track \<Rightarrow> ('v voice_activity \<times> windowing \<times> 'w track) outcome) \<Rightarrow> 'v voice_activity \<Rightarrow>
   ('w, 'v) speech_track \<Rightarrow> ('w, 'v) speech_track outcome" where
  "on_vad f v st = (case f (v, st_windows st, st_track st) of ((v1, s, t), e) \<Rightarrow> (st\<lparr>st_vad := Some v1, st_windows := s, st_track := t\<rparr>, e))"

text \<open>The detector's callback: \<open>probability >= 0.5f\<close> is speech.\<close>

definition f32_half :: f32 where
  "f32_half = 0x3F000000"

definition vad_to_windows :: "('w, 'v, 'l) track_env \<Rightarrow> (windowing \<times> 'w track) vad_emit" where
  "vad_to_windows T sc samples probability =
     windowing_append (track_infer T) samples (\<not> f32_isnan probability \<and> \<not> f32_lt probability f32_half) sc"

definition track_discontinuity :: "('w, 'v, 'l) track_env \<Rightarrow> ('w, 'v) speech_track \<Rightarrow> ('w, 'v) speech_track outcome" where
  "track_discontinuity T st =
     and_then (case st_vad st of None \<Rightarrow> (st, None) | Some v \<Rightarrow> on_vad (vad_discontinuity (te_vad T) (vad_to_windows T)) v st) (\<lambda>st1.
     and_then (on_windows (windowing_discontinuity (track_infer T)) st1) (\<lambda>st2.
       (st2\<lparr>st_track := (st_track st2)\<lparr>tr_time_offset := None\<rparr>\<rparr>, None)))"

definition track_timestamp :: "audio_chunk \<Rightarrow> ('w, 'v) speech_track \<Rightarrow> ('w, 'v) speech_track outcome" where
  "track_timestamp audio st =
     (case (tr_time_offset (st_track st), ac_presentation_time_us audio) of
        (None, Some pts) \<Rightarrow>
          and_then (require (pts \<ge> - (2 ^ 62) \<and> pts \<le> 2 ^ 62) ''source presentation timestamp exceeds limit'' st) (\<lambda>st1.
            case sample_us (ac_first_sample audio) of
              Inl e \<Rightarrow> (st1, Some e)
            | Inr us \<Rightarrow> (st1\<lparr>st_track := (st_track st1)\<lparr>tr_time_offset := Some (pts - us)\<rparr>\<rparr>, None))
      | _ \<Rightarrow> (st, None))"

definition track_samples :: "('w, 'v, 'l) track_env \<Rightarrow> f32 list \<Rightarrow> ('w, 'v) speech_track \<Rightarrow> ('w, 'v) speech_track outcome" where
  "track_samples T samples st =
     and_then (case st_vad st of
          Some v \<Rightarrow> on_vad (vad_append (te_vad T) (vad_to_windows T) samples) v st
        | None \<Rightarrow> on_windows (windowing_append (track_infer T) samples True) st)
       (\<lambda>st1. (st1\<lparr>st_samples := st_samples st1 + length samples, st_chunks := st_chunks st1 + 1\<rparr>, None))"

text \<open>The two handlers of \<open>audio\<close>; \<open>finish\<close> has the first only.\<close>

definition no_pause_failure :: "exn \<Rightarrow> exn" where
  "no_pause_failure e = (case e of Length_error _ \<Rightarrow> Failure RESOURCE_EXHAUSTED ''no pause before speech window limit'' | _ \<Rightarrow> e)"

definition audio_failure :: "exn \<Rightarrow> exn" where
  "audio_failure e = (case e of Invalid_argument _ \<Rightarrow> Failure INVALID_ARGUMENT ''invalid decoded speech samples'' | _ \<Rightarrow> no_pause_failure e)"

definition track_audio :: "('w, 'v, 'l) track_env \<Rightarrow> audio_chunk \<Rightarrow> ('w, 'v) speech_track \<Rightarrow> ('w, 'v) speech_track outcome" where
  "track_audio T audio st =
     and_then (require (ac_sample_rate audio = 16000 \<and> ac_channels audio = 1 \<and> length (ac_pcm_f32le audio) mod 4 = 0)
       ''pipeline requires mono 16 kHz float PCM'' st) (\<lambda>st.
     and_then (require (ac_first_sample audio = st_samples st \<and> ac_chunk_number audio = st_chunks st + 1)
       ''noncontiguous decoded speech audio'' st) (\<lambda>st.
     apsnd (map_option audio_failure)
       (and_then (if ac_discontinuity audio then track_discontinuity T st else (st, None)) (\<lambda>st1.
        and_then (track_timestamp audio st1) (\<lambda>st2.
          track_samples T (get_or [] (pcm_decode (ac_pcm_f32le audio))) st2)))))"

text \<open>The trailer: \<open>Finish\<close> with the count, the worker's count back, the end of its stream, its
  status.\<close>

definition track_close :: "('w, 'v, 'l) track_env \<Rightarrow> 'w track \<Rightarrow> 'w track outcome" where
  "track_close T t =
     (case wi_write (te_wire T) (tr_wire t) (Worker_finish (tr_count t)) of
        (w, False) \<Rightarrow> track_failed T (t\<lparr>tr_wire := w\<rparr>)
      | (w, True) \<Rightarrow> (case wi_read (te_wire T) (wi_writes_done (te_wire T) w) of
            (w1, None) \<Rightarrow> track_failed T (t\<lparr>tr_wire := w1\<rparr>)
          | (w1, Some response) \<Rightarrow>
              and_then (require (response = Worker_closed (tr_count t)) ''worker close accounting mismatch'' (t\<lparr>tr_wire := w1\<rparr>)) (\<lambda>t1.
                case wi_read (te_wire T) (tr_wire t1) of
                  (w2, Some _) \<Rightarrow> (t1\<lparr>tr_wire := w2\<rparr>, Some (Failure INVALID_ARGUMENT ''unexpected worker output after close''))
                | (w2, None) \<Rightarrow> (case wi_finish (te_wire T) w2 of (w3, status) \<Rightarrow>
                    let t2 = t1\<lparr>tr_wire := w3, tr_done := True\<rparr> in
                    if \<not> status_ok status then (t2, Some (Failure (error_code status) ''speech worker failed at close''))
                    else track_reconcile T reconcile_finish t2))))"

definition track_finish :: "('w, 'v, 'l) track_env \<Rightarrow> ('w, 'v) speech_track \<Rightarrow> ('w, 'v) speech_track outcome" where
  "track_finish T st =
     and_then (apsnd (map_option no_pause_failure)
       (and_then (case st_vad st of None \<Rightarrow> (st, None) | Some v \<Rightarrow> on_vad (vad_finish (te_vad T) (vad_to_windows T)) v st)
         (on_windows (windowing_finish (track_infer T))))) (\<lambda>st1.
       case track_close T (st_track st1) of (t, e) \<Rightarrow> (st1\<lparr>st_track := t\<rparr>, e))"

section \<open>All tracks of a stream\<close>

record ('w, 'v) pipeline =
  pl_stream_id :: string
  pl_vad :: string
  pl_machine :: string
  pl_options :: "speech_options list"
  pl_tracks :: "((nat \<times> nat) \<times> ('w, 'v) speech_track) list"
  pl_events :: "stream_event list"

text \<open>A call on one track, which publishes through the common callback.\<close>

definition on_track ::
  "nat \<times> nat \<Rightarrow> ('w, 'v) speech_track \<Rightarrow> (('w, 'v) speech_track \<Rightarrow> ('w, 'v) speech_track outcome) \<Rightarrow> ('w, 'v) pipeline \<Rightarrow>
   ('w, 'v) pipeline outcome" where
  "on_track key st f p =
     (case f (st\<lparr>st_track := (st_track st)\<lparr>tr_events := pl_events p\<rparr>\<rparr>) of (st1, e) \<Rightarrow>
        (p\<lparr>pl_tracks := map_insert key st1 (pl_tracks p), pl_events := tr_events (st_track st1)\<rparr>, e))"

definition max_tracks :: nat where
  "max_tracks = 32"

definition pipeline_task ::
  "('w, 'v, 'l) track_env \<Rightarrow> audio_chunk \<Rightarrow> nat \<times> speech_options \<Rightarrow> ('w, 'v) pipeline \<Rightarrow> ('w, 'v) pipeline outcome" where
  "pipeline_task T audio task p =
     (let key = (ac_track_id audio, fst task) in
      case map_of (pl_tracks p) key of
        Some st \<Rightarrow> on_track key st (track_audio T audio) p
      | None \<Rightarrow>
          if length (pl_tracks p) \<ge> max_tracks
          then (p, Some (Failure RESOURCE_EXHAUSTED ''speech track/task limit reached''))
          else (case track_new T (pl_stream_id p) (ac_track_id audio) (snd task) (pl_vad p) (pl_machine p) (pl_events p) of
              (t, Inl e) \<Rightarrow> (p\<lparr>pl_events := tr_events t\<rparr>, Some e)
            | (t, Inr st) \<Rightarrow> on_track key st (track_audio T audio) p))"

fun pipeline_tasks ::
  "('w, 'v, 'l) track_env \<Rightarrow> audio_chunk \<Rightarrow> (nat \<times> speech_options) list \<Rightarrow> ('w, 'v) pipeline \<Rightarrow> ('w, 'v) pipeline outcome" where
  "pipeline_tasks T audio [] p = (p, None)"
| "pipeline_tasks T audio (task # tasks) p = and_then (pipeline_task T audio task p) (pipeline_tasks T audio tasks)"

definition pipeline_audio :: "('w, 'v, 'l) track_env \<Rightarrow> audio_chunk \<Rightarrow> ('w, 'v) pipeline \<Rightarrow> ('w, 'v) pipeline outcome" where
  "pipeline_audio T audio p = pipeline_tasks T audio (enumerate 0 (pl_options p)) p"

fun finish_tracks ::
  "('w, 'v, 'l) track_env \<Rightarrow> ((nat \<times> nat) \<times> ('w, 'v) speech_track) list \<Rightarrow> ('w, 'v) pipeline \<Rightarrow> ('w, 'v) pipeline outcome" where
  "finish_tracks T [] p = (p, None)"
| "finish_tracks T ((key, st) # rest) p = and_then (on_track key st (track_finish T) p) (finish_tracks T rest)"

definition pipeline_finish :: "('w, 'v, 'l) track_env \<Rightarrow> ('w, 'v) pipeline \<Rightarrow> ('w, 'v) pipeline outcome" where
  "pipeline_finish T p =
     (if pl_tracks p = [] then (p, Some (Failure FAILED_PRECONDITION ''requested speech but no audio was decoded''))
      else finish_tracks T (pl_tracks p) p)"

definition pipeline_create :: "string \<Rightarrow> open_stream \<Rightarrow> string \<Rightarrow> string \<Rightarrow> ('w, 'v) pipeline" where
  "pipeline_create stream_id request vad_weights machine = \<lparr>pl_stream_id = stream_id, pl_vad = vad_weights, pl_machine = machine,
     pl_options = os_speech request, pl_tracks = [], pl_events = []\<rparr>"

section \<open>The factory\<close>

text \<open>The two constructors, for a target address and for a channel of the same process: the weights and the
  machine identifier they keep. Weights are tried before they are accepted.\<close>

definition check_weights :: "'v vad_model \<Rightarrow> string \<Rightarrow> string \<Rightarrow> exn + string \<times> string" where
  "check_weights M vad_weights machine =
     (if vad_weights = [] then Inr (vad_weights, machine)
      else (case voice_activity_new M True vad_weights of Inl e \<Rightarrow> Inl e | Inr _ \<Rightarrow> Inr (vad_weights, machine)))"

definition factory_new :: "'v vad_model \<Rightarrow> string \<Rightarrow> string \<Rightarrow> string \<Rightarrow> string \<Rightarrow> exn + string \<times> string" where
  "factory_new M fresh target vad_weights machine =
     (let machine_id = (if machine = [] then fresh else machine) in
      if \<not> (target \<noteq> [] \<and> valid_uuid machine_id) then Inl (Failure INVALID_ARGUMENT ''invalid speech routing configuration'')
      else check_weights M vad_weights machine_id)"

definition factory_in_process :: "'v vad_model \<Rightarrow> bool \<Rightarrow> string \<Rightarrow> string \<Rightarrow> exn + string \<times> string" where
  "factory_in_process M channel_valid vad_weights machine =
     (if \<not> (channel_valid \<and> valid_uuid machine) then Inl (Failure INVALID_ARGUMENT ''invalid in-process speech routing configuration'')
      else check_weights M vad_weights machine)"

section \<open>Resolving the options of a stream\<close>

definition minimum_advance_ms :: nat where
  "minimum_advance_ms = 100"

text \<open>The defaults of one speech task.\<close>

definition resolve_windowing :: "speech_windowing option \<Rightarrow> speech_windowing" where
  "resolve_windowing w0 =
     (let w = get_or windowing_default w0 in
      w\<lparr>sw_window_ms := Some (get_or 10000 (sw_window_ms w)), sw_overlap_ms := Some (get_or 1000 (sw_overlap_ms w)),
        sw_strategy := (if sw_strategy w = CHUNKING_UNSPECIFIED then CHUNKING_FIXED else sw_strategy w)\<rparr>)"

definition resolve_defaults :: "speech_options \<Rightarrow> speech_options" where
  "resolve_defaults o1 =
     (let reconcile = get_or True (so_reconcile_transcript o1) in
      o1\<lparr>so_reconcile_transcript := Some reconcile,
         so_word_timestamps := (if reconcile then True else so_word_timestamps o1),
         so_windowing := Some (resolve_windowing (so_windowing o1)),
         so_task := (if so_task o1 = SPEECH_TASK_UNSPECIFIED then SPEECH_TASK_TRANSCRIBE else so_task o1)\<rparr>)"

definition pause_refusal :: "speech_windowing \<Rightarrow> string \<Rightarrow> exn option" where
  "pause_refusal w vad_weights =
     (let b = get_or boundary_default (sw_speech_boundary w) in
      if \<not> (sw_speech_boundary w \<noteq> None \<and> sb_vad_model_id b = ''silero-v5.1.2'')
      then Some (Failure INVALID_ARGUMENT ''qualified VAD model ID required'')
      else if vad_weights = [] then Some (Failure UNIMPLEMENTED ''VAD weights are not configured'')
      else if \<not> (sb_max_window_ms b \<ge> get_or 0 (sw_window_ms w) \<and> sb_max_window_ms b \<le> 30000 \<and> sb_min_pause_ms b \<le> 30000 \<and>
          sb_speech_padding_ms b \<le> 15000 \<and>
          (sb_no_pause_policy b = NO_PAUSE_SPLIT_WITH_OVERLAP \<or> sb_no_pause_policy b = NO_PAUSE_FAIL))
      then Some (Failure INVALID_ARGUMENT ''invalid speech pause policy'')
      else None)"

definition windowing_refusal :: "speech_windowing \<Rightarrow> string \<Rightarrow> exn option" where
  "windowing_refusal w vad_weights =
     (let window_ms = get_or 0 (sw_window_ms w); overlap_ms = get_or 0 (sw_overlap_ms w) in
      if \<not> (window_ms > 0 \<and> window_ms \<le> 30000 \<and> overlap_ms < window_ms)
      then Some (Failure INVALID_ARGUMENT ''invalid speech window durations'')
      else if \<not> window_ms - overlap_ms \<ge> minimum_advance_ms
      then Some (Failure INVALID_ARGUMENT ''configured speech windows must advance by at least 100 ms'')
      else if sw_strategy w = CHUNKING_SPEECH_AWARE then pause_refusal w vad_weights
      else if \<not> (sw_strategy w = CHUNKING_FIXED \<and> sw_speech_boundary w = None)
      then Some (Failure INVALID_ARGUMENT ''invalid chunking strategy'')
      else None)"

definition resolve_task :: "string \<Rightarrow> speech_options \<Rightarrow> exn + speech_options" where
  "resolve_task vad_weights o1 =
     (if \<not> (so_model_id o1 \<noteq> [] \<and> length (so_model_id o1) \<le> 256)
      then Inl (Failure INVALID_ARGUMENT ''speech model ID required'')
      else let o2 = resolve_defaults o1 in
        (case windowing_refusal (resolve_windowing (so_windowing o1)) vad_weights of
           Some e \<Rightarrow> Inl e
         | None \<Rightarrow> (case windowing_new True (policy o2) of
               Inl (Invalid_argument why) \<Rightarrow> Inl (Failure INVALID_ARGUMENT why)
             | Inl e \<Rightarrow> Inl e
             | Inr _ \<Rightarrow> Inr o2)))"

fun resolve_tasks :: "string \<Rightarrow> speech_options list \<Rightarrow> exn + speech_options list" where
  "resolve_tasks vad_weights [] = Inr []"
| "resolve_tasks vad_weights (o1 # os) =
     (case resolve_task vad_weights o1 of
        Inl e \<Rightarrow> Inl e
      | Inr o2 \<Rightarrow> (case resolve_tasks vad_weights os of Inl e \<Rightarrow> Inl e | Inr os2 \<Rightarrow> Inr (o2 # os2)))"

definition pipeline_resolve :: "string \<Rightarrow> open_stream \<Rightarrow> exn + open_stream" where
  "pipeline_resolve vad_weights request =
     (if \<not> (length (os_speech request) > 0 \<and> length (os_speech request) \<le> 4)
      then Inl (Failure INVALID_ARGUMENT ''one to four speech tasks are supported'')
      else (case resolve_tasks vad_weights (os_speech request) of
          Inl e \<Rightarrow> Inl e
        | Inr os \<Rightarrow> Inr (request\<lparr>os_speech := os\<rparr>)))"

end
