(* ===== verification/Pipeline_Proofs.thy ===== *)
theory Pipeline_Proofs
  imports Pipeline
begin

text \<open>
  What the speech pipeline guarantees: the options it resolves are a policy the window cutter
  accepts; whatever a worker answers, a track that finishes has published one hypothesis for
  every window of a chain that covers all the audio.
\<close>

section \<open>Resolved options\<close>

lemma get_or_simps [simp]: "get_or d None = d" "get_or d (Some v) = v"
  by (simp_all add: get_or_def)

lemma resolve_windowing_idem [simp]: "resolve_windowing (Some (resolve_windowing w)) = resolve_windowing w"
  by (simp add: resolve_windowing_def Let_def)

lemma resolve_defaults_windowing [simp]: "so_windowing (resolve_defaults o1) = Some (resolve_windowing (so_windowing o1))"
  "so_model_id (resolve_defaults o1) = so_model_id o1" "so_task (resolve_defaults o1) \<noteq> SPEECH_TASK_UNSPECIFIED"
  by (simp_all add: resolve_defaults_def Let_def)

lemma resolve_defaults_idem [simp]: "resolve_defaults (resolve_defaults o1) = resolve_defaults o1"
  by (cases o1) (simp add: resolve_defaults_def Let_def)

lemma resolve_task_cases:
  assumes "resolve_task vad o1 = Inr o2"
  shows "o2 = resolve_defaults o1 \<and> so_model_id o1 \<noteq> [] \<and> length (so_model_id o1) \<le> 256 \<and>
    windowing_refusal (resolve_windowing (so_windowing o1)) vad = None \<and> (\<exists>s. windowing_new True (policy o2) = Inr s)"
proof -
  have m: "so_model_id o1 \<noteq> [] \<and> length (so_model_id o1) \<le> 256"
    using assms by (simp add: resolve_task_def split: if_splits)
  have w: "windowing_refusal (resolve_windowing (so_windowing o1)) vad = None"
    using assms m by (simp add: resolve_task_def Let_def split: option.splits)
  show ?thesis
  proof (cases "windowing_new True (policy (resolve_defaults o1))")
    case (Inl e)
    with assms m w show ?thesis
      by (cases e) (simp_all add: resolve_task_def Let_def)
  next
    case (Inr s)
    with assms m w show ?thesis
      by (simp add: resolve_task_def Let_def)
  qed
qed

lemma resolve_task_idem: "resolve_task vad o1 = Inr o2 \<Longrightarrow> resolve_task vad o2 = Inr o2"
  by (drule resolve_task_cases, elim conjE exE) (simp add: resolve_task_def Let_def)

text \<open>The windows of resolved options, in milliseconds and in samples: nothing wraps.\<close>

definition options_sound :: "string \<Rightarrow> speech_options \<Rightarrow> bool" where
  "options_sound vad o1 \<longleftrightarrow>
     (\<exists>window_ms overlap_ms w. so_windowing o1 = Some w \<and> sw_window_ms w = Some window_ms \<and> sw_overlap_ms w = Some overlap_ms \<and>
        target_samples (policy o1) = 16 * window_ms \<and> overlap_samples (policy o1) = 16 * overlap_ms \<and>
        overlap_ms + minimum_advance_ms \<le> window_ms) \<and>
     (\<exists>s. windowing_new True (policy o1) = Inr s) \<and> max_samples (policy o1) \<le> max_window_samples \<and>
     (speech_aware (policy o1) \<longrightarrow> vad \<noteq> []) \<and> so_task o1 \<noteq> SPEECH_TASK_UNSPECIFIED \<and>
     so_model_id o1 \<noteq> [] \<and> length (so_model_id o1) \<le> 256"

lemma windowing_refusal_none:
  assumes "windowing_refusal w vad = None"
  shows "get_or 0 (sw_window_ms w) \<le> 30000 \<and> get_or 0 (sw_overlap_ms w) + minimum_advance_ms \<le> get_or 0 (sw_window_ms w) \<and>
    (sw_strategy w = CHUNKING_SPEECH_AWARE \<longrightarrow> vad \<noteq> [])"
  using assms by (auto simp: windowing_refusal_def pause_refusal_def minimum_advance_ms_def Let_def split: if_splits)

lemma resolve_task_sound:
  assumes "resolve_task vad o1 = Inr o2"
  shows "options_sound vad o2"
proof -
  let ?w = "resolve_windowing (so_windowing o1)"
  note r = resolve_task_cases [OF assms]
  then have o2: "so_windowing o2 = Some ?w" "so_task o2 \<noteq> SPEECH_TASK_UNSPECIFIED" "so_model_id o2 = so_model_id o1"
    by auto
  obtain window_ms overlap_ms where ms: "sw_window_ms ?w = Some window_ms" "sw_overlap_ms ?w = Some overlap_ms"
    by (simp add: resolve_windowing_def Let_def)
  have lim: "window_ms \<le> 30000" "overlap_ms + minimum_advance_ms \<le> window_ms" "sw_strategy ?w = CHUNKING_SPEECH_AWARE \<longrightarrow> vad \<noteq> []"
    using windowing_refusal_none [of ?w vad] r ms by auto
  have p: "target_samples (policy o2) = 16 * window_ms" "overlap_samples (policy o2) = 16 * overlap_ms"
    "speech_aware (policy o2) \<longleftrightarrow> sw_strategy ?w = CHUNKING_SPEECH_AWARE"
    using lim by (simp_all add: policy_def o2 ms Let_def minimum_advance_ms_def)
  obtain s where s: "windowing_new True (policy o2) = Inr s"
    using r by blast
  then have "max_samples (policy o2) \<le> max_window_samples"
    by (auto simp: windowing_new_def window_policy_ok_def max_window_samples_def split: if_splits)
  with s p lim o2 ms r show ?thesis
    by (simp add: options_sound_def)
qed

text \<open>Fixed windows have no pause policy.\<close>

lemma resolve_task_fixed:
  assumes "resolve_task vad o1 = Inr o2" "\<not> speech_aware (policy o2)"
  shows "\<not> fail_without_pause (policy o2)"
proof -
  let ?w = "resolve_windowing (so_windowing o1)"
  have w: "so_windowing o2 = Some ?w" "windowing_refusal ?w vad = None"
    using resolve_task_cases [OF assms(1)] by auto
  with assms(2) have "sw_speech_boundary ?w = None"
    by (auto simp: windowing_refusal_def policy_def Let_def split: if_splits)
  with w(1) show ?thesis
    by (simp add: policy_def Let_def boundary_default_def)
qed

lemma resolve_tasks_ok:
  "resolve_tasks vad os = Inr os2 \<Longrightarrow>
     resolve_tasks vad os2 = Inr os2 \<and> length os2 = length os \<and> (\<forall>o2 \<in> set os2. options_sound vad o2)"
proof (induction os arbitrary: os2)
  case (Cons o1 os)
  then obtain o2 os3 where "resolve_task vad o1 = Inr o2" "resolve_tasks vad os = Inr os3" "os2 = o2 # os3"
    by (auto split: sum.splits)
  with Cons.IH [of os3] show ?case
    by (auto simp: resolve_task_idem resolve_task_sound)
qed simp

text \<open>Options the pipeline has resolved are ready for use. They resolve to themselves; every task
  has a window policy the cutter accepts, whose sample counts are the milliseconds times sixteen,
  whose windows advance by at least 100 ms and fit the worker's limit; speech-aware cutting has
  weights to run with.\<close>

theorem resolve_contract:
  assumes "pipeline_resolve vad request = Inr accepted"
  shows "pipeline_resolve vad accepted = Inr accepted \<and> os_speech accepted \<noteq> [] \<and>
    length (os_speech accepted) = length (os_speech request) \<and> (\<forall>o1 \<in> set (os_speech accepted). options_sound vad o1)"
proof -
  obtain os where os: "resolve_tasks vad (os_speech request) = Inr os" "accepted = request\<lparr>os_speech := os\<rparr>"
    and n: "0 < length (os_speech request)" "length (os_speech request) \<le> 4"
    using assms by (auto simp: pipeline_resolve_def split: if_splits sum.splits)
  from resolve_tasks_ok [OF os(1)] n show ?thesis
    by (auto simp: pipeline_resolve_def os(2))
qed

definition demo_speech :: speech_options where
  "demo_speech = \<lparr>so_model_id = ''base.en'', so_language = ''en'', so_task = SPEECH_TASK_UNSPECIFIED, so_word_timestamps = False,
     so_windowing = None, so_reconcile_transcript = None\<rparr>"

definition demo_open_stream :: open_stream where
  "demo_open_stream = \<lparr>os_stream_id = [], os_source = Source_not_set, os_speech = [demo_speech], os_decode = None\<rparr>"

lemmas resolve_evals = pipeline_resolve_def resolve_task_def resolve_defaults_def resolve_windowing_def windowing_default_def
  windowing_refusal_def minimum_advance_ms_def policy_def windowing_new_def policy_ok_defs Let_def demo_open_stream_def demo_speech_def

theorem resolve_contract_witness:
  "\<exists>accepted. pipeline_resolve [] demo_open_stream = Inr accepted \<and> (\<forall>o1 \<in> set (os_speech accepted). options_sound [] o1)"
proof -
  obtain accepted where "pipeline_resolve [] demo_open_stream = Inr accepted"
    by (simp add: resolve_evals)
  with resolve_contract [OF this] show ?thesis
    by blast
qed

section \<open>What a track publishes\<close>

fun hypotheses :: "stream_event list \<Rightarrow> speech_hypothesis list" where
  "hypotheses [] = []"
| "hypotheses (ev # evs) = (case ev_payload ev of Hypothesis h \<Rightarrow> h # hypotheses evs | _ \<Rightarrow> hypotheses evs)"

lemma hypotheses_append [simp]: "hypotheses (as @ bs) = hypotheses as @ hypotheses bs"
  by (induction as) (auto split: payload.splits)

lemma hypotheses_reconciled [simp]: "hypotheses (map (reconciled_event T t) segs) = []"
  by (induction segs) (simp_all add: reconciled_event_def Let_def)

text \<open>A hypothesis answers a window.\<close>

definition answered :: "speech_window \<Rightarrow> speech_hypothesis \<Rightarrow> bool" where
  "answered w h \<longleftrightarrow> sh_window_number h = win_number w \<and> sh_first_sample h = win_first_sample w \<and>
     sh_first_new_sample h = win_first_new_sample w \<and> sh_sample_count h = length (win_samples w) \<and>
     int (sh_boundary h) = boundary_code (win_boundary w)"

lemma require_None [simp]: "require ok why s = (s', None) \<longleftrightarrow> ok \<and> s' = s"
  by (auto simp: require_def)

lemma track_reconcile_frame:
  assumes "track_reconcile T call t = (t', e)"
  shows "hypotheses (tr_events t') = hypotheses (tr_events t) \<and> tr_count t' = tr_count t"
  using assms by (auto simp: track_reconcile_def Let_def split: option.splits prod.splits)

lemma placed_hypothesis_keeps:
  assumes "placed_hypothesis t w h = Inr h'"
  shows "sh_window_number h' = sh_window_number h \<and> sh_first_sample h' = sh_first_sample h \<and>
    sh_first_new_sample h' = sh_first_new_sample h \<and> sh_sample_count h' = sh_sample_count h \<and> sh_boundary h' = sh_boundary h"
  using assms by (auto simp: placed_hypothesis_def Let_def split: option.splits sum.splits)

lemma publish_hypothesis_ok:
  assumes "publish_hypothesis T w response t = (t', None)" "answers_window T t w response"
  shows "tr_count t' = tr_count t + 1 \<and> (\<exists>h. answered w h \<and> hypotheses (tr_events t') = hypotheses (tr_events t) @ [h])"
proof -
  obtain answer where r: "response = Worker_hypothesis answer"
    using assms(2) by (cases response) (simp_all add: answers_window_def)
  obtain h where h: "placed_hypothesis t w answer = Inr h"
    using assms(1) by (auto simp: publish_hypothesis_def r split: sum.splits)
  obtain t1 t2 where t1: "track_emit T (hypothesis_event t h) t = (t1, None)"
    and t2: "track_reconcile T (\<lambda>R. reconcile_accept R h (reconcile_overlap t1 w)) t1 = (t2, None)"
    and t': "t' = t2\<lparr>tr_count := tr_count t2 + 1\<rparr>"
    using assms(1) by (auto simp: publish_hypothesis_def r h and_then_None_iff)
  have "answered w h"
    using placed_hypothesis_keeps [OF h] assms(2) by (auto simp: answers_window_def r answered_def)
  moreover have "hypotheses (tr_events t1) = hypotheses (tr_events t) @ [h]" "tr_count t1 = tr_count t"
    using t1 by (auto simp: track_emit_def Let_def hypothesis_event_def)
  ultimately show ?thesis
    using track_reconcile_frame [OF t2] by (auto simp: t')
qed

lemma track_exchange_ok:
  assumes "track_exchange T request k t = (t', None)"
  obtains w response where "k response (t\<lparr>tr_wire := w\<rparr>) = (t', None)"
  using assms by (auto simp: track_exchange_def track_failed_def split: prod.splits bool.splits option.splits)

lemma track_infer_ok:
  assumes "track_infer T t w = (t', None)"
  shows "tr_count t' = tr_count t + 1 \<and> (\<exists>h. answered w h \<and> hypotheses (tr_events t') = hypotheses (tr_events t) @ [h])"
proof -
  obtain x response where k: "and_then (require (answers_window T (t\<lparr>tr_wire := x\<rparr>) w response) ''worker hypothesis identity mismatch'' (t\<lparr>tr_wire := x\<rparr>))
      (publish_hypothesis T w response) = (t', None)"
    using assms unfolding track_infer_def by (rule track_exchange_ok)
  then have "answers_window T (t\<lparr>tr_wire := x\<rparr>) w response" "publish_hypothesis T w response (t\<lparr>tr_wire := x\<rparr>) = (t', None)"
    by (auto simp: and_then_None_iff)
  from publish_hypothesis_ok [OF this(2,1)] show ?thesis
    by simp
qed

section \<open>The track as a client of the cutter and of the detector\<close>

definition track_ready ::
  "window_policy \<Rightarrow> f32 list \<Rightarrow> 'w track \<Rightarrow> nat \<Rightarrow> nat \<Rightarrow> window_boundary option \<Rightarrow> bool" where
  "track_ready p inp t n e pv \<longleftrightarrow>
     (\<exists>ws. collected p inp ws n e pv \<and> tr_count t = length ws \<and> list_all2 answered ws (hypotheses (tr_events t)))"

interpretation track_windows: window_client "track_infer T" track_ready for T
proof unfold_locales
  show "track_ready p inp t n e pv \<Longrightarrow> track_ready p (inp @ ys) t n e pv" for p inp ys n e pv and t :: "'a track"
    unfolding track_ready_def by (meson collector.ready_extend)
next
  fix p inp n e pv w and t t' :: "'a track"
  assume r: "track_ready p inp t n e pv" and nw: "next_window p inp n e pv w" and run: "track_infer T t w = (t', None)"
  from r obtain ws where ws: "collected p inp ws n e pv" "tr_count t = length ws" "list_all2 answered ws (hypotheses (tr_events t))"
    by (auto simp: track_ready_def)
  have "collected p inp (ws @ [w]) (Suc n) (window_end w) (Some (win_boundary w))"
    by (rule collector.ready_next [OF ws(1) nw]) simp
  with ws track_infer_ok [OF run] show "track_ready p inp t' (Suc n) (window_end w) (Some (win_boundary w))"
    unfolding track_ready_def by (intro exI [of _ "ws @ [w]"]) (auto intro: list_all2_appendI)
qed

definition track_told :: "window_policy \<Rightarrow> windowing \<times> 'w track \<Rightarrow> f32 list \<Rightarrow> bool" where
  "track_told p sc inp \<longleftrightarrow>
     (\<exists>pv. track_windows.linked p inp pv sc \<and> \<not> wd_finished (fst sc) \<and> length (wd_buffer (fst sc)) < window_limit p)"

lemma track_told_append:
  assumes "windowing_append (track_infer T) xs speech sc = (sc', None)" "track_told p sc inp"
  shows "track_told p sc' (inp @ xs)"
proof -
  obtain pv where lk: "track_windows.linked p inp pv (fst sc, snd sc)" "\<not> wd_finished (fst sc)" "length (wd_buffer (fst sc)) < window_limit p"
    using assms(2) by (auto simp: track_told_def)
  have "windowing_push_all (track_infer T) speech xs (fst sc, snd sc) = ((fst sc', snd sc'), None)"
    using assms(1) lk(2) by (simp add: windowing_append_def)
  from track_windows.linked_push_all [OF lk this] show ?thesis
    by (simp add: track_told_def)
qed

lemma track_told_discontinuity:
  assumes "windowing_discontinuity (track_infer T) sc = (sc', None)" "track_told p sc inp"
  shows "track_told p sc' inp"
proof -
  obtain pv where lk: "track_windows.linked p inp pv (fst sc, snd sc)" "length (wd_buffer (fst sc)) < window_limit p"
    using assms(2) by (auto simp: track_told_def)
  have "windowing_discontinuity (track_infer T) (fst sc, snd sc) = ((fst sc', snd sc'), None)"
    using assms(1) by simp
  from track_windows.linked_discontinuity [OF lk this] show ?thesis
    by (simp add: track_told_def)
qed

interpretation track_frames: vad_client "vad_to_windows T" "track_told p" for T p
  by unfold_locales (auto simp: vad_to_windows_def intro: track_told_append)

section \<open>The whole track\<close>

text \<open>\<open>track_at p inp st\<close>: the track has taken the samples \<open>inp\<close>.\<close>

definition track_at :: "window_policy \<Rightarrow> f32 list \<Rightarrow> ('w, 'v) speech_track \<Rightarrow> bool" where
  "track_at p inp st \<longleftrightarrow>
     (case st_vad st of
        None \<Rightarrow> track_told p (st_windows st, st_track st) inp
      | Some v \<Rightarrow> track_frames.heard p (v, st_windows st, st_track st) inp \<and> length (va_pending v) < 512)"

lemma on_windows_ok:
  assumes "on_windows f st = (st', None)"
  shows "f (st_windows st, st_track st) = ((st_windows st', st_track st'), None) \<and> st_vad st' = st_vad st"
  using assms by (auto simp: on_windows_def split: prod.splits)

lemma on_vad_ok:
  assumes "on_vad f v st = (st', None)"
  obtains v1 where "f (v, st_windows st, st_track st) = ((v1, st_windows st', st_track st'), None)" "st_vad st' = Some v1"
  using assms by (auto simp: on_vad_def split: prod.splits)

lemma track_told_offset [simp]: "track_told p (s, t\<lparr>tr_time_offset := x\<rparr>) inp = track_told p (s, t) inp"
  by (simp add: track_told_def track_windows.linked_def track_ready_def)

lemma track_at_offset [simp]: "track_at p inp (st\<lparr>st_track := (st_track st)\<lparr>tr_time_offset := x\<rparr>\<rparr>) = track_at p inp st"
  by (simp add: track_at_def track_frames.heard_def split: option.split)

lemma track_at_counters [simp]: "track_at p inp (st\<lparr>st_samples := n, st_chunks := k\<rparr>) = track_at p inp st"
  by (simp add: track_at_def split: option.split)

text \<open>After the detector's \<open>discontinuity\<close> or \<open>finish\<close> the cutter has been told everything.\<close>

lemma track_discontinuity_at:
  assumes "track_discontinuity T st = (st', None)" "track_at p inp st"
  shows "track_at p inp st'"
proof -
  obtain st1 st2 where st1: "(case st_vad st of None \<Rightarrow> (st, None) | Some v \<Rightarrow> on_vad (vad_discontinuity (te_vad T) (vad_to_windows T)) v st) = (st1, None)"
    and st2: "on_windows (windowing_discontinuity (track_infer T)) st1 = (st2, None)"
    and st': "st' = st2\<lparr>st_track := (st_track st2)\<lparr>tr_time_offset := None\<rparr>\<rparr>"
    using assms(1) by (auto simp: track_discontinuity_def and_then_None_iff)
  have "track_told p (st_windows st1, st_track st1) inp \<and> (\<forall>v. st_vad st1 = Some v \<longrightarrow> va_pending v = [])"
  proof (cases "st_vad st")
    case None
    with st1 assms(2) show ?thesis
      by (auto simp: track_at_def)
  next
    case (Some v)
    with st1 have "on_vad (vad_discontinuity (te_vad T) (vad_to_windows T)) v st = (st1, None)"
      by simp
    then obtain v1 where "vad_discontinuity (te_vad T) (vad_to_windows T) (v, st_windows st, st_track st) = ((v1, st_windows st1, st_track st1), None)"
      and v1: "st_vad st1 = Some v1"
      by (rule on_vad_ok)
    from track_frames.discontinuity_heard [OF this(1), of p inp] assms(2) Some v1 show ?thesis
      by (simp add: track_at_def)
  qed
  moreover have "st_vad st2 = st_vad st1" "windowing_discontinuity (track_infer T) (st_windows st1, st_track st1) = ((st_windows st2, st_track st2), None)"
    using on_windows_ok [OF st2] by auto
  ultimately have "track_told p (st_windows st2, st_track st2) inp" "\<forall>v. st_vad st2 = Some v \<longrightarrow> va_pending v = []"
    by (auto intro: track_told_discontinuity)
  then have "track_at p inp st2"
    by (auto simp: track_at_def track_frames.heard_def split: option.splits)
  then show ?thesis
    by (simp add: st')
qed

lemma track_samples_at:
  assumes "track_samples T xs st = (st', None)" "track_at p inp st"
  shows "track_at p (inp @ xs) st'"
proof (cases "st_vad st")
  case None
  with assms(1) obtain st1 where st1: "on_windows (windowing_append (track_infer T) xs True) st = (st1, None)"
    and st': "st' = st1\<lparr>st_samples := st_samples st1 + length xs, st_chunks := st_chunks st1 + 1\<rparr>"
    by (auto simp: track_samples_def and_then_None_iff)
  from on_windows_ok [OF st1] assms(2) None have "track_at p (inp @ xs) st1"
    by (auto simp: track_at_def intro: track_told_append)
  then show ?thesis
    by (simp add: st')
next
  case (Some v)
  with assms(1) obtain st1 where st1: "on_vad (vad_append (te_vad T) (vad_to_windows T) xs) v st = (st1, None)"
    and st': "st' = st1\<lparr>st_samples := st_samples st1 + length xs, st_chunks := st_chunks st1 + 1\<rparr>"
    by (auto simp: track_samples_def and_then_None_iff)
  from st1 obtain v1 where "vad_append (te_vad T) (vad_to_windows T) xs (v, st_windows st, st_track st) = ((v1, st_windows st1, st_track st1), None)"
    and v1: "st_vad st1 = Some v1"
    by (rule on_vad_ok)
  from track_frames.append_heard [OF this(1), of p inp] assms(2) Some v1 have "track_at p (inp @ xs) st1"
    by (simp add: track_at_def)
  then show ?thesis
    by (simp add: st')
qed

lemma track_timestamp_at:
  assumes "track_timestamp audio st = (st', None)"
  shows "track_at p inp st' = track_at p inp st"
  using assms by (auto simp: track_timestamp_def and_then_None_iff split: option.splits sum.splits)

text \<open>The samples of a chunk.\<close>

definition chunk_samples :: "audio_chunk \<Rightarrow> f32 list" where
  "chunk_samples audio = get_or [] (pcm_decode (ac_pcm_f32le audio))"

lemma apsnd_None [simp]: "apsnd (map_option f) r = (s, None) \<longleftrightarrow> r = (s, None)"
  by (cases r) auto

lemma track_audio_at:
  assumes "track_audio T audio st = (st', None)" "track_at p inp st"
  shows "track_at p (inp @ chunk_samples audio) st'"
proof -
  obtain st1 st2 where st1: "(if ac_discontinuity audio then track_discontinuity T st else (st, None)) = (st1, None)"
    and st2: "track_timestamp audio st1 = (st2, None)" and st': "track_samples T (chunk_samples audio) st2 = (st', None)"
    using assms(1) by (auto simp: track_audio_def and_then_None_iff chunk_samples_def)
  have "track_at p inp st1"
    using st1 assms(2) by (auto split: if_splits intro: track_discontinuity_at)
  with track_timestamp_at [OF st2] track_samples_at [OF st'] show ?thesis
    by blast
qed

text \<open>Chunks one after another, then the end.\<close>

fun track_audios :: "('w, 'v, 'l) track_env \<Rightarrow> audio_chunk list \<Rightarrow> ('w, 'v) speech_track \<Rightarrow> ('w, 'v) speech_track outcome" where
  "track_audios T [] st = (st, None)"
| "track_audios T (audio # audios) st = and_then (track_audio T audio st) (track_audios T audios)"

definition track_run :: "('w, 'v, 'l) track_env \<Rightarrow> audio_chunk list \<Rightarrow> ('w, 'v) speech_track \<Rightarrow> ('w, 'v) speech_track outcome" where
  "track_run T audios st = and_then (track_audios T audios st) (track_finish T)"

lemma track_audios_at:
  "track_audios T audios st = (st', None) \<Longrightarrow> track_at p inp st \<Longrightarrow> track_at p (inp @ concat (map chunk_samples audios)) st'"
proof (induction audios arbitrary: st inp)
  case (Cons audio audios)
  then obtain st1 where "track_audio T audio st = (st1, None)" "track_audios T audios st1 = (st', None)"
    by (auto simp: and_then_None_iff)
  with Cons.IH [OF this(2) track_audio_at] Cons.prems(2) show ?case
    by simp
qed simp

lemma track_close_ok:
  assumes "track_close T t = (t', None)"
  shows "hypotheses (tr_events t') = hypotheses (tr_events t) \<and> tr_count t' = tr_count t"
proof -
  obtain w where "track_reconcile T reconcile_finish (t\<lparr>tr_wire := w, tr_done := True\<rparr>) = (t', None)"
    using assms by (auto simp: track_close_def track_failed_def and_then_None_iff Let_def
      split: prod.splits bool.splits option.splits if_splits)
  from track_reconcile_frame [OF this] show ?thesis
    by simp
qed

lemma track_finish_ok:
  assumes "track_finish T st = (st', None)" "track_at p inp st"
  shows "\<exists>ws. window_chain p inp 0 0 None ws \<and> concat (map window_new ws) = inp \<and>
    tr_count (st_track st') = length ws \<and> list_all2 answered ws (hypotheses (tr_events (st_track st')))"
proof -
  obtain st1 st2 where st1: "(case st_vad st of None \<Rightarrow> (st, None) | Some v \<Rightarrow> on_vad (vad_finish (te_vad T) (vad_to_windows T)) v st) = (st1, None)"
    and st2: "on_windows (windowing_finish (track_infer T)) st1 = (st2, None)"
    and close: "(case track_close T (st_track st2) of (t, e) \<Rightarrow> (st2\<lparr>st_track := t\<rparr>, e)) = (st', None)"
    using assms(1) by (auto simp: track_finish_def and_then_None_iff)
  have t: "track_close T (st_track st2) = (st_track st', None)"
    using close by (auto split: prod.splits)
  have "track_told p (st_windows st1, st_track st1) inp"
  proof (cases "st_vad st")
    case None
    with st1 assms(2) show ?thesis
      by (auto simp: track_at_def)
  next
    case (Some v)
    with st1 have "on_vad (vad_finish (te_vad T) (vad_to_windows T)) v st = (st1, None)"
      by simp
    then obtain v1 where "vad_finish (te_vad T) (vad_to_windows T) (v, st_windows st, st_track st) = ((v1, st_windows st1, st_track st1), None)"
      by (rule on_vad_ok)
    from track_frames.finish_heard [OF this, of p inp] assms(2) Some show ?thesis
      by (simp add: track_at_def)
  qed
  then obtain pv where lk: "track_windows.linked p inp pv (st_windows st1, st_track st1)" "length (wd_buffer (st_windows st1)) < window_limit p"
    by (auto simp: track_told_def)
  from on_windows_ok [OF st2] have "windowing_finish (track_infer T) (st_windows st1, st_track st1) = ((st_windows st2, st_track st2), None)"
    by blast
  from track_windows.linked_finish [OF lk this] obtain pv' where
    "track_ready p inp (st_track st2) (wd_number (st_windows st2)) (length inp) pv'"
    by blast
  then obtain ws where ws: "window_chain p inp 0 0 None ws" "chain_end 0 ws = length inp" "tr_count (st_track st2) = length ws"
    "list_all2 answered ws (hypotheses (tr_events (st_track st2)))"
    by (auto simp: track_ready_def collected_def)
  with window_chain_covers [OF ws(1)] track_close_ok [OF t] show ?thesis
    by (intro exI [of _ ws]) simp
qed

lemma track_stages_at:
  assumes "track_stages T options vad t = Inr st" "tr_count t = 0" "hypotheses (tr_events t) = []"
  shows "track_at (policy options) [] st"
proof -
  obtain s where s: "windowing_new True (policy options) = Inr s"
    using assms(1) by (auto simp: track_stages_def split: sum.splits)
  have told: "track_told (policy options) (s, t') []" if "tr_count t' = 0" "hypotheses (tr_events t') = []" for t' :: "'a track"
    using windowing_new_wf [OF s] that
    by (auto simp: track_told_def track_windows.linked_def track_ready_def collected_def chain_end_def chain_prev_def intro!: exI [of _ None] exI [of _ "[]"])
  show ?thesis
  proof (cases "sw_strategy (get_or windowing_default (so_windowing options)) = CHUNKING_SPEECH_AWARE")
    case False
    with assms told show ?thesis
      by (auto simp: track_stages_def s Let_def track_at_def)
  next
    case True
    with assms(1) obtain v where v: "voice_activity_new (te_vad T) True vad = Inr v"
      and st: "st_vad st = Some v" "st_windows st = s" "tr_count (st_track st) = tr_count t" "tr_events (st_track st) = tr_events t"
      by (auto simp: track_stages_def s Let_def split: sum.splits)
    with told [of "st_track st"] assms(2,3) voice_activity_new_fresh [OF v] show ?thesis
      by (simp add: track_at_def track_frames.heard_def)
  qed
qed

lemma track_new_at:
  assumes "track_new T stream_id track options vad machine [] = (t, Inr st)"
  shows "track_at (policy options) [] st"
proof -
  obtain t1 where t1: "track_stages T options vad t1 = Inr st" and shake: "track_exchange T (Worker_open (track_request stream_id track options)) (\<lambda>response t.
      and_then (require (handshake_ok T (track_request stream_id track options) (so_model_id options) response) ''invalid worker handshake'' t) (\<lambda>t1.
        case response of Worker_opened o1 \<Rightarrow> (track_opened T track options machine (wr_producer o1) t1, None) | _ \<Rightarrow> (t1, None)))
      (track_fresh T []) = (t1, None)"
    using assms by (auto simp: track_new_def Let_def split: prod.splits option.splits sum.splits)
  from shake obtain w response where
    "and_then (require (handshake_ok T (track_request stream_id track options) (so_model_id options) response) ''invalid worker handshake''
        ((track_fresh T [])\<lparr>tr_wire := w\<rparr>)) (\<lambda>t1.
        case response of Worker_opened o1 \<Rightarrow> (track_opened T track options machine (wr_producer o1) t1, None) | _ \<Rightarrow> (t1, None)) = (t1, None)"
    by (rule track_exchange_ok)
  then have "tr_count t1 = 0" "tr_events t1 = []"
    by (auto simp: and_then_None_iff track_opened_def track_fresh_def split: worker_response.splits)
  with track_stages_at [OF t1] show ?thesis
    by simp
qed

lemma track_run_covers:
  assumes "track_new T stream_id track options vad machine [] = (t, Inr st)" "track_run T audios st = (st', None)"
  shows "\<exists>ws. window_chain (policy options) (concat (map chunk_samples audios)) 0 0 None ws \<and>
    concat (map window_new ws) = concat (map chunk_samples audios) \<and> tr_count (st_track st') = length ws \<and>
    list_all2 answered ws (hypotheses (tr_events (st_track st')))"
proof -
  obtain st1 where st1: "track_audios T audios st = (st1, None)" "track_finish T st1 = (st', None)"
    using assms(2) by (auto simp: track_run_def and_then_None_iff)
  from track_audios_at [OF st1(1) track_new_at [OF assms(1)]] track_finish_ok [OF st1(2)] show ?thesis
    by simp
qed

end
