(* ===== verification/Pipeline_Worker.thy ===== *)
theory Pipeline_Worker
  imports Pipeline_Proofs Reconcile_Progress
begin

text \<open>
  The pipeline and the worker together: a track whose connection leads to the speech worker of
  this repository. Every window the cutter makes passes the worker's checks, is decoded to the
  same samples, and its answer passes the track's checks, so that a stream of contiguous audio
  is transcribed to its end, or ends with an exception that one of two parties is entitled to: who
  takes the events, and the reconciler on the content of a hypothesis.
\<close>

section \<open>A worker session takes a chain of windows\<close>

text \<open>A worker with a free inference slot, a model that answers, and a connection that holds.\<close>

definition serving :: "'b worker_env \<Rightarrow> bool" where
  "serving E \<longleftrightarrow> (\<forall>n. \<not> we_busy E n) \<and> (\<forall>n. we_delivers E n) \<and> (\<forall>response. we_byte_size E response \<le> 4 * 1024 * 1024) \<and>
     (\<forall>b w track options. \<exists>b' segments. we_infer E b w track options = (b', Inr segments))"

text \<open>The session after \<open>n\<close> windows that ended at sample \<open>e\<close>, the last at boundary \<open>pv\<close>.\<close>

definition session_at :: "'b worker_session \<Rightarrow> nat \<Rightarrow> nat \<Rightarrow> window_boundary option \<Rightarrow> bool" where
  "session_at s n e pv \<longleftrightarrow> ws_count s = n \<and> n \<le> e \<and> (n \<noteq> 0 \<longrightarrow> ws_end s = e) \<and> (n = 0 \<longrightarrow> pv = None) \<and>
     ws_after_discontinuity s = (pv = Some Discontinuity) \<and> ws_after_end s = (pv = Some End)"

lemma boundary_code_range: "1 \<le> boundary_code b" "boundary_code b \<le> 5" "boundary_code b = 5 \<longleftrightarrow> b = Discontinuity" "boundary_code b = 4 \<longleftrightarrow> b = End"
  by (simp_all add: boundary_code_def split: window_boundary.splits)

lemma window_request_simps [simp]:
  "iw_window_number (window_request w) = win_number w" "iw_first_sample (window_request w) = win_first_sample w"
  "iw_first_new_sample (window_request w) = win_first_new_sample w" "length (iw_pcm_f32le (window_request w)) = 4 * length (win_samples w)"
  "iw_boundary (window_request w) = boundary_code (win_boundary w)" "worker_samples (window_request w) = win_samples w"
  by (simp_all add: window_request_def worker_samples_def pcm_decode_encode)

lemma window_request_accepted:
  assumes "session_at s n e pv" "next_window p inp n e pv w" "max_samples p \<le> max_window_samples" "length inp \<le> 100000000000000"
  shows "window_refusal s (window_request w) = None"
proof -
  have pos: "win_first_sample w \<le> e" "e < win_first_sample w + length (win_samples w)" "win_first_sample w + length (win_samples w) \<le> length inp"
    "length (win_samples w) \<le> max_samples p" "win_number w = Suc n" "win_first_new_sample w = e" "pv \<noteq> Some End"
    "pv = None \<or> pv = Some Pause \<or> pv = Some Discontinuity \<longrightarrow> win_first_sample w = e"
    using assms(2) by (auto simp: next_window_def window_end_def)
  have nonempty: "iw_pcm_f32le (window_request w) \<noteq> []"
    using pos(1,2) window_request_simps(4) [of w] by (auto simp: length_0_conv [symmetric] simp del: length_0_conv)
  have count: "ws_count s = n" "n \<noteq> uint64_max" "n \<noteq> 0 \<longrightarrow> ws_end s = e" "n = 0 \<longrightarrow> pv = None"
    using assms(1,4) pos by (auto simp: session_at_def)
  have marks: "\<not> ws_after_end s" "ws_after_discontinuity s \<longrightarrow> n \<noteq> 0 \<and> win_first_sample w = ws_end s"
    using assms(1) pos count by (auto simp: session_at_def)
  have len: "4 * length (win_samples w) \<le> max_window_samples * 4" "win_first_sample w \<le> 100000000000000"
    using assms(3,4) pos by linarith+
  show ?thesis
    using pos nonempty count marks len boundary_code_range(1,2) [of "win_boundary w"]
    by (simp add: window_refusal_def Let_def)
qed

lemma worker_window_serves:
  assumes "serving E" "session_at s n e pv" "next_window p inp n e pv w" "max_samples p \<le> max_window_samples" "length inp \<le> 100000000000000"
  obtains s' segments where "worker_window E (window_request w) s = (s', None)" "session_at s' (Suc n) (window_end w) (Some (win_boundary w))"
    "ws_sent s' = ws_sent s @ [Worker_hypothesis (hypothesis_for E s (window_request w) segments)]"
    "ws_open s' = ws_open s" "ws_producer s' = ws_producer s"
proof -
  define window where "window = \<lparr>win_number = win_number w, win_first_sample = win_first_sample w,
    win_first_new_sample = win_first_new_sample w, win_boundary = Fixed, win_samples = win_samples w\<rparr>"
  obtain b segments where i: "we_infer E (ws_backend s) window (wo_track_id (ws_open s)) (wo_options (ws_open s)) = (b, Inr segments)"
    using assms(1) unfolding serving_def by blast
  let ?response = "Worker_hypothesis (hypothesis_for E s (window_request w) segments)"
  let ?s = "s\<lparr>ws_backend := b, ws_inferences := Suc (ws_inferences s), ws_writes := Suc (ws_writes s), ws_sent := ws_sent s @ [?response],
    ws_count := ws_count s + 1, ws_end := window_end w, ws_after_discontinuity := win_boundary w = Discontinuity, ws_after_end := win_boundary w = End\<rparr>"
  have free: "\<not> we_busy E (ws_inferences s)" "we_delivers E (ws_writes s)" "\<not> we_byte_size E ?response > 4 * 1024 * 1024"
    using assms(1) by (auto simp: serving_def not_less)
  have "worker_window E (window_request w) s = (?s, None)"
    using free i window_request_accepted [OF assms(2-5)]
    by (simp add: worker_window_def window_def Let_def worker_write_def boundary_code_range window_end_def)
  moreover have "session_at ?s (Suc n) (window_end w) (Some (win_boundary w))"
    using assms(2,3) by (auto simp: session_at_def next_window_def)
  ultimately show thesis
    using that [of ?s segments] by simp
qed

lemma hypothesis_for_answers:
  "answered w (hypothesis_for E s (window_request w) segments) \<and>
   sh_track_id (hypothesis_for E s (window_request w) segments) = wo_track_id (ws_open s) \<and>
   sh_producer (hypothesis_for E s (window_request w) segments) = ws_producer s"
  using boundary_code_range(1) [of "win_boundary w"] by (simp add: answered_def hypothesis_for_def Let_def)

abbreviation window_requests :: "speech_window list \<Rightarrow> worker_request list" where
  "window_requests ws \<equiv> map (\<lambda>w. Worker_window (window_request w)) ws"

lemma worker_loop_chain:
  assumes "serving E" "max_samples p \<le> max_window_samples" "length inp \<le> 100000000000000"
  shows "window_chain p inp n e pv ws \<Longrightarrow> session_at s n e pv \<Longrightarrow>
    \<exists>s' hs. (\<forall>rest. worker_loop E (window_requests ws @ rest) s = worker_loop E rest s') \<and>
      ws_sent s' = ws_sent s @ map Worker_hypothesis hs \<and> list_all2 answered ws hs \<and> ws_count s' = n + length ws \<and>
      (\<forall>h \<in> set hs. sh_track_id h = wo_track_id (ws_open s) \<and> sh_producer h = ws_producer s)"
proof (induction ws arbitrary: n e pv s)
  case Nil
  then show ?case
    by (intro exI [of _ s] exI [of _ "[]"]) (simp add: session_at_def)
next
  case (Cons w ws)
  from Cons.prems(1) have w: "next_window p inp n e pv w" "window_chain p inp (Suc n) (window_end w) (Some (win_boundary w)) ws"
    by simp_all
  obtain s1 segments where s1: "worker_window E (window_request w) s = (s1, None)" "session_at s1 (Suc n) (window_end w) (Some (win_boundary w))"
    "ws_sent s1 = ws_sent s @ [Worker_hypothesis (hypothesis_for E s (window_request w) segments)]"
    "ws_open s1 = ws_open s" "ws_producer s1 = ws_producer s"
    by (rule worker_window_serves [OF assms(1) Cons.prems(2) w(1) assms(2,3)])
  let ?h = "hypothesis_for E s (window_request w) segments"
  from Cons.IH [OF w(2) s1(2)] obtain s' hs where ih: "\<And>rest. worker_loop E (window_requests ws @ rest) s1 = worker_loop E rest s'"
    "ws_sent s' = ws_sent s1 @ map Worker_hypothesis hs" "list_all2 answered ws hs" "ws_count s' = Suc n + length ws"
    "\<forall>h \<in> set hs. sh_track_id h = wo_track_id (ws_open s1) \<and> sh_producer h = ws_producer s1"
    by blast
  have "\<And>rest. worker_loop E (window_requests (w # ws) @ rest) s = worker_loop E rest s'"
    by (simp add: s1(1) ih(1))
  with ih(2-5) s1(3-5) hypothesis_for_answers [of w E s segments] show ?case
    by (intro exI [of _ s'] exI [of _ "?h # hs"]) simp
qed

section \<open>The connection of a track to the worker\<close>

text \<open>What was written, and how many of the worker's responses have been read. A read delivers the next
  response the worker makes for what was written.\<close>

definition worker_wire :: "'b worker_env \<Rightarrow> speech_worker \<Rightarrow> 'b \<Rightarrow> (worker_request list \<times> nat) worker_link" where
  "worker_wire E wk b =
     \<lparr>wi_write = \<lambda>(requests, n) request. ((requests @ [request], n), True),
      wi_read = \<lambda>(requests, n).
        let responses = fst (worker_transcribe E wk b requests) in
        if n < length responses then ((requests, Suc n), Some (responses ! n)) else ((requests, n), None),
      wi_writes_done = id,
      wi_finish = \<lambda>(requests, n). ((requests, n), snd (worker_transcribe E wk b requests)),
      wi_cancel = id\<rparr>"

text \<open>The worker accepts the track's opening message.\<close>

definition open_ok :: "'b worker_env \<Rightarrow> speech_worker_open \<Rightarrow> bool" where
  "open_ok E request \<longleftrightarrow> valid_uuid (wo_stream_id request) \<and> so_windowing (wo_options request) = None \<and>
     we_validate_options E (wo_options request) = None \<and> so_task (wo_options request) \<noteq> SPEECH_TASK_UNSPECIFIED"

definition opened_response :: "'b worker_env \<Rightarrow> speech_worker \<Rightarrow> speech_worker_open \<Rightarrow> worker_response" where
  "opened_response E wk request = Worker_opened \<lparr>wr_accepted = request, wr_producer = session_producer E wk request,
     wr_max_window_samples = max_window_samples\<rparr>"

text \<open>A whole session over a chain of windows, up to the point where the rest of the input decides.\<close>

lemma worker_transcribe_chain:
  assumes "serving E" "open_ok E request" "max_samples p \<le> max_window_samples" "length inp \<le> 100000000000000" "window_chain p inp 0 0 None ws"
  shows "\<exists>hs. list_all2 answered ws hs \<and> (\<forall>h \<in> set hs. sh_track_id h = wo_track_id request \<and> sh_producer h = session_producer E wk request) \<and>
    fst (worker_transcribe E wk b (Worker_open request # window_requests ws)) = opened_response E wk request # map Worker_hypothesis hs \<and>
    worker_transcribe E wk b (Worker_open request # window_requests ws @ [Worker_finish (length ws)]) =
      (opened_response E wk request # map Worker_hypothesis hs @ [Worker_closed (length ws)], Status OK [])"
proof -
  let ?s = "(session_new request (session_producer E wk request) b)\<lparr>ws_writes := 1, ws_sent := [opened_response E wk request]\<rparr>"
  have acc: "accepted_open request = request"
    using assms(2) by (simp add: accepted_open_def open_ok_def)
  have run: "worker_transcribe E wk b (Worker_open request # rs) = (case worker_loop E rs ?s of (s1, st) \<Rightarrow> (ws_sent s1, st))" for rs
    using assms(1,2) by (simp add: worker_transcribe_def open_ok_def acc worker_write_def serving_def session_new_def opened_response_def Let_def)
  have start: "session_at ?s 0 0 None"
    by (simp add: session_at_def session_new_def)
  from worker_loop_chain [OF assms(1,3,4,5) start] obtain s' hs where s': "\<And>rest. worker_loop E (window_requests ws @ rest) ?s = worker_loop E rest s'"
    "ws_sent s' = opened_response E wk request # map Worker_hypothesis hs" "list_all2 answered ws hs" "ws_count s' = length ws"
    "\<forall>h \<in> set hs. sh_track_id h = wo_track_id request \<and> sh_producer h = session_producer E wk request"
    by (auto simp: session_new_def)
  have "worker_loop E (window_requests ws) ?s = (s', Status CANCELLED ''worker input ended without explicit finish'')"
    using s'(1) [of "[]"] by simp
  moreover have "worker_loop E (window_requests ws @ [Worker_finish (length ws)]) ?s =
      (s'\<lparr>ws_writes := Suc (ws_writes s'), ws_sent := ws_sent s' @ [Worker_closed (length ws)]\<rparr>, Status OK [])"
    using s'(1) [of "[Worker_finish (length ws)]"] s'(4) assms(1) by (simp add: worker_finish_def worker_write_def serving_def Let_def)
  ultimately show ?thesis
    using s'(2,3,5) by (intro exI [of _ hs]) (simp add: run)
qed

section \<open>The track as the worker's client\<close>

text \<open>The environment of a track whose peer is the worker.\<close>

definition peer :: "(worker_request list \<times> nat, 'v, 'l) track_env \<Rightarrow> 'b worker_env \<Rightarrow> speech_worker \<Rightarrow> 'b \<Rightarrow> bool" where
  "peer T E wk b \<longleftrightarrow> te_wire T = worker_wire E wk b \<and> te_connect T = ([], 0) \<and> serving E"

text \<open>The exceptions a track may end with: of whoever takes its events, and, when its transcript is
  reconciled, what the reconciler has to say of the content of a hypothesis.\<close>

definition track_excuse :: "('w, 'v, 'l) track_env \<Rightarrow> bool \<Rightarrow> exn \<Rightarrow> bool" where
  "track_excuse T reconciled e \<longleftrightarrow> (\<exists>events. te_refuses T events = Some e) \<or> reconciled \<and> content_failure e"

definition reconciling :: "bool \<Rightarrow> nat \<Rightarrow> nat \<Rightarrow> 'w track \<Rightarrow> bool" where
  "reconciling reconciled n e t \<longleftrightarrow>
     (case tr_reconciler t of None \<Rightarrow> True | Some rc \<Rightarrow> reconciled \<and> reconciler_at (tr_track t) n e rc)"

lemma reconciling_fields [simp]:
  "reconciling reconciled n e (t\<lparr>tr_wire := x\<rparr>) = reconciling reconciled n e t" "reconciling reconciled n e (t\<lparr>tr_done := d\<rparr>) = reconciling reconciled n e t"
  "reconciling reconciled n e (t\<lparr>tr_events := es\<rparr>) = reconciling reconciled n e t" "reconciling reconciled n e (t\<lparr>tr_count := c\<rparr>) = reconciling reconciled n e t"
  "reconciling reconciled n e (t\<lparr>tr_time_offset := o1\<rparr>) = reconciling reconciled n e t"
  by (simp_all add: reconciling_def split: option.splits)

definition served ::
  "(worker_request list \<times> nat, 'v, 'l) track_env \<Rightarrow> 'b worker_env \<Rightarrow> speech_worker \<Rightarrow> 'b \<Rightarrow> speech_worker_open \<Rightarrow> bool \<Rightarrow>
   window_policy \<Rightarrow> f32 list \<Rightarrow> (worker_request list \<times> nat) track \<Rightarrow> nat \<Rightarrow> nat \<Rightarrow> window_boundary option \<Rightarrow> bool" where
  "served T E wk b request reconciled p inp t n e pv \<longleftrightarrow>
     peer T E wk b \<and> open_ok E request \<and> max_samples p \<le> max_window_samples \<and>
     tr_track t = wo_track_id request \<and> tr_producer t = session_producer E wk request \<and>
     tr_overlap t = overlap_samples p \<and> reconciling reconciled n e t \<and>
     (\<exists>ws. collected p inp ws n e pv \<and> tr_count t = length ws \<and> tr_wire t = (Worker_open request # window_requests ws, Suc (length ws)))"

lemma placed_hypothesis_total:
  assumes "win_first_sample w \<le> 100000000000000"
  obtains h' where "placed_hypothesis t w h = Inr h'" "sh_window_number h' = sh_window_number h" "sh_sample_count h' = sh_sample_count h"
    "sh_first_sample h' = sh_first_sample h" "sh_first_new_sample h' = sh_first_new_sample h" "sh_track_id h' = sh_track_id h"
  using assms by (cases "tr_time_offset t") (simp_all add: placed_hypothesis_def sample_us_def Let_def)

lemma collected_start: "collected p inp ws n e pv \<Longrightarrow> n = 0 \<Longrightarrow> pv = None"
  by (simp add: collected_def chain_prev_def)

text \<open>A window of the chain is in sequence for the reconciler.\<close>

lemma window_in_sequence:
  assumes at: "reconciler_at track n e rc" and start: "n = 0 \<Longrightarrow> pv = None" and nw: "next_window p inp n e pv w"
    and room: "length inp \<le> 100000000000000" "max_samples p \<le> max_window_samples"
    and h: "sh_window_number h = win_number w" "sh_first_sample h = win_first_sample w" "sh_first_new_sample h = win_first_new_sample w"
      "sh_sample_count h = length (win_samples w)"
  shows "window_fits h (if win_boundary w = Fixed \<or> win_boundary w = Forced then overlap_samples p else 0) rc"
proof -
  have pos: "win_first_sample w \<le> e" "e < win_first_sample w + length (win_samples w)" "win_first_sample w + length (win_samples w) \<le> length inp"
    "length (win_samples w) \<le> max_samples p" "win_number w = Suc n" "win_first_new_sample w = e"
    "pv = None \<longrightarrow> win_first_sample w = e" "win_boundary w = Fixed \<or> win_boundary w = Forced \<longrightarrow> overlap_samples p < length (win_samples w)"
    using nw by (auto simp: next_window_def window_end_def)
  have "length (win_samples w) \<le> 480000" "win_first_sample w \<le> 100000000000000" "0 < length (win_samples w)"
    using pos room by (auto simp: max_window_samples_def)
  with pos at start show ?thesis
    by (auto simp: window_fits_def reconciler_at_def h)
qed

lemma track_reconcile_served:
  assumes call: "\<And>R rc. tr_reconciler t = Some rc \<Longrightarrow> only_fails (reconcile_excuse R) (call R rc)" and rec: "reconciling reconciled n e t"
  shows "only_fails (track_excuse T reconciled) (track_reconcile T call t)"
proof (cases "tr_reconciler t")
  case (Some rc)
  let ?R = "(te_reconcile T)\<lparr>re_refuses := \<lambda>segs. te_refuses T (tr_events t @ map (reconciled_event T t) (drop (length (rc_emitted rc)) segs))\<rparr>"
  have "reconciled"
    using rec Some by (simp add: reconciling_def)
  then have "only_fails (track_excuse T reconciled) (call ?R rc)"
    using only_fails_mono [OF call [OF Some, of ?R], of "track_excuse T reconciled"] by (auto simp: reconcile_excuse_def track_excuse_def)
  then show ?thesis
    using Some by (auto simp: track_reconcile_def only_fails_def Let_def split: prod.splits)
qed (simp add: track_reconcile_def)

text \<open>The answer to the next window is published and reconciled.\<close>

lemma publish_hypothesis_served:
  assumes rec: "reconciling reconciled n e t" and start: "n = 0 \<Longrightarrow> pv = None" and nw: "next_window p inp n e pv w"
    and room: "length inp \<le> 100000000000000" "max_samples p \<le> max_window_samples" and t: "tr_overlap t = overlap_samples p"
    and h: "answered w h" "sh_track_id h = tr_track t"
  shows "only_fails (track_excuse T reconciled) (publish_hypothesis T w (Worker_hypothesis h) t) \<and>
    (\<forall>t'. publish_hypothesis T w (Worker_hypothesis h) t = (t', None) \<longrightarrow> reconciling reconciled (Suc n) (window_end w) t')"
proof -
  have "win_first_sample w \<le> 100000000000000"
    using nw room by (simp add: next_window_def window_end_def)
  then obtain h' where placed: "placed_hypothesis t w h = Inr h'" and same: "sh_window_number h' = sh_window_number h" "sh_sample_count h' = sh_sample_count h"
    "sh_first_sample h' = sh_first_sample h" "sh_first_new_sample h' = sh_first_new_sample h" "sh_track_id h' = sh_track_id h"
    by (rule placed_hypothesis_total)
  have h': "sh_window_number h' = win_number w" "sh_sample_count h' = length (win_samples w)" "sh_first_sample h' = win_first_sample w"
    "sh_first_new_sample h' = win_first_new_sample w" "sh_track_id h' = tr_track t"
    using same h by (simp_all add: answered_def)
  let ?t = "t\<lparr>tr_events := tr_events t @ [hypothesis_event t h']\<rparr>"
  have rec1: "reconciling reconciled n e ?t" and ov: "reconcile_overlap ?t w = (if win_boundary w = Fixed \<or> win_boundary w = Forced then overlap_samples p else 0)"
    using rec t by (simp_all add: reconcile_overlap_def)
  have accept: "only_fails (reconcile_excuse R) (reconcile_accept R h' (reconcile_overlap ?t w) rc) \<and>
      (\<forall>rc'. reconcile_accept R h' (reconcile_overlap ?t w) rc = (rc', None) \<longrightarrow> reconciler_at (tr_track t) (Suc n) (window_end w) rc')"
    if "tr_reconciler t = Some rc" for R rc
  proof -
    have at: "reconciler_at (sh_track_id h') n e rc"
      using that rec h' by (simp add: reconciling_def)
    have "window_fits h' (reconcile_overlap ?t w) rc"
      unfolding ov using h' by (intro window_in_sequence [OF at start nw room]) simp_all
    from reconcile_accept_fails [OF at this, of R] show ?thesis
      by (simp add: h' window_end_def)
  qed
  have first: "only_fails (track_excuse T reconciled) (track_emit T (hypothesis_event t h') t)"
    by (auto simp: track_emit_def track_excuse_def only_fails_def Let_def)
  have second: "only_fails (track_excuse T reconciled) (track_reconcile T (\<lambda>R. reconcile_accept R h' (reconcile_overlap ?t w)) ?t)"
  proof (rule track_reconcile_served [OF _ rec1])
    fix R :: "'c reconcile_env" and rc
    assume "tr_reconciler ?t = Some rc"
    then show "only_fails (reconcile_excuse R) (reconcile_accept R h' (reconcile_overlap ?t w) rc)"
      using accept [of rc R] by simp
  qed
  have emitted: "track_emit T (hypothesis_event t h') t = (t1, None) \<Longrightarrow> t1 = ?t" for t1
    by (auto simp: track_emit_def Let_def)
  have "only_fails (track_excuse T reconciled) (publish_hypothesis T w (Worker_hypothesis h) t)"
    using second emitted by (auto simp: publish_hypothesis_def placed intro!: only_fails_then [OF first] only_fails_then)
  moreover have "reconciling reconciled (Suc n) (window_end w) t'" if run: "publish_hypothesis T w (Worker_hypothesis h) t = (t', None)" for t'
  proof -
    obtain t1 t2 where t1: "track_emit T (hypothesis_event t h') t = (t1, None)"
      "track_reconcile T (\<lambda>R. reconcile_accept R h' (reconcile_overlap t1 w)) t1 = (t2, None)" and t': "t' = t2\<lparr>tr_count := tr_count t2 + 1\<rparr>"
      using run by (auto simp: publish_hypothesis_def placed and_then_None_iff)
    note t2 = t1(2) [unfolded emitted [OF t1(1)]] t'
    show ?thesis
    proof (cases "tr_reconciler t")
      case None
      with t2 show ?thesis
        by (auto simp: track_reconcile_def reconciling_def)
    next
      case (Some rc)
      have keeps: "reconcile_accept R h' (reconcile_overlap ?t w) rc = (rc', None) \<Longrightarrow> reconciler_at (tr_track t) (Suc n) (window_end w) rc'" for R rc'
        using accept [OF Some] by blast
      from t2 rec Some show ?thesis
        by (auto simp: track_reconcile_def reconciling_def Let_def split: prod.splits dest: keeps)
    qed
  qed
  ultimately show ?thesis
    by blast
qed

text \<open>The exchange of one window.\<close>

lemma track_infer_served:
  assumes sv: "served T E wk b request reconciled p inp t n e pv" and nw: "next_window p inp n e pv w" and room: "length inp \<le> 100000000000000"
  shows "only_fails (track_excuse T reconciled) (track_infer T t w) \<and>
    (\<forall>t'. track_infer T t w = (t', None) \<longrightarrow> reconciling reconciled (Suc n) (window_end w) t')"
proof -
  obtain ws where ws: "collected p inp ws n e pv" "tr_count t = length ws" "tr_wire t = (Worker_open request # window_requests ws, Suc (length ws))"
    using sv by (auto simp: served_def)
  have chain: "window_chain p inp 0 0 None (ws @ [w])"
    using ws(1) nw by (auto simp: collected_def window_chain_snoc)
  have wire: "te_wire T = worker_wire E wk b" "serving E" "open_ok E request" "max_samples p \<le> max_window_samples"
    using sv by (auto simp: served_def peer_def)
  obtain hs where hs: "list_all2 answered (ws @ [w]) hs" "\<forall>h \<in> set hs. sh_track_id h = wo_track_id request \<and> sh_producer h = session_producer E wk request"
    "fst (worker_transcribe E wk b (Worker_open request # window_requests (ws @ [w]))) = opened_response E wk request # map Worker_hypothesis hs"
    using worker_transcribe_chain [OF wire(2-4) room chain, of wk b] by blast
  have len: "length hs = Suc (length ws)"
    using hs(1) by (simp add: list_all2_lengthD [symmetric])
  let ?h = "hs ! length ws"
  have h: "answered w ?h" "sh_track_id ?h = tr_track t" "sh_producer ?h = tr_producer t"
    using list_all2_nthD [OF hs(1), of "length ws"] hs(2) len sv by (auto simp: served_def)
  let ?wire = "(Worker_open request # window_requests (ws @ [w]), Suc (Suc (length ws)))"
  have read: "wi_read (te_wire T) (Worker_open request # window_requests (ws @ [w]), Suc (length ws)) = (?wire, Some (Worker_hypothesis ?h))"
    using hs(3) len by (simp add: wire(1) worker_wire_def Let_def)
  have sv1: "reconciling reconciled n e (t\<lparr>tr_wire := ?wire\<rparr>)" "tr_overlap (t\<lparr>tr_wire := ?wire\<rparr>) = overlap_samples p"
    using sv by (simp_all add: served_def)
  have published: "only_fails (track_excuse T reconciled) (publish_hypothesis T w (Worker_hypothesis ?h) (t\<lparr>tr_wire := ?wire\<rparr>)) \<and>
      (\<forall>t'. publish_hypothesis T w (Worker_hypothesis ?h) (t\<lparr>tr_wire := ?wire\<rparr>) = (t', None) \<longrightarrow> reconciling reconciled (Suc n) (window_end w) t')"
    using h by (intro publish_hypothesis_served [OF sv1(1) collected_start [OF ws(1)] nw room wire(4) sv1(2)]) simp_all
  have "answers_window T (t\<lparr>tr_wire := ?wire\<rparr>) w (Worker_hypothesis ?h)"
    using h by (simp add: answers_window_def answered_def)
  then have "track_infer T t w = publish_hypothesis T w (Worker_hypothesis ?h) (t\<lparr>tr_wire := ?wire\<rparr>)"
    using read by (simp add: track_infer_def track_exchange_def ws(3) wire(1) worker_wire_def require_def)
  with published show ?thesis
    by simp
qed

lemma track_infer_serves:
  assumes sv: "served T E wk b request reconciled p inp t n e pv" and nw: "next_window p inp n e pv w" and room: "length inp \<le> 100000000000000"
    and run: "track_infer T t w = (t', None)"
  shows "served T E wk b request reconciled p inp t' (Suc n) (window_end w) (Some (win_boundary w))"
proof -
  obtain ws where ws: "collected p inp ws n e pv" "tr_count t = length ws" "tr_wire t = (Worker_open request # window_requests ws, Suc (length ws))"
    and peer: "te_wire T = worker_wire E wk b"
    using sv by (auto simp: served_def peer_def)
  have "collected p inp (ws @ [w]) (Suc n) (window_end w) (Some (win_boundary w))"
    by (rule collector.ready_next [OF ws(1) nw]) simp
  moreover have "tr_wire t' = (Worker_open request # window_requests (ws @ [w]), Suc (Suc (length ws))) \<and> tr_count t' = length (ws @ [w]) \<and>
      tr_track t' = tr_track t \<and> tr_producer t' = tr_producer t \<and> tr_overlap t' = tr_overlap t"
    using run ws(2,3) peer
    by (auto simp: track_infer_def track_exchange_def track_failed_def worker_wire_def Let_def and_then_None_iff publish_hypothesis_def
      track_emit_def track_reconcile_def answers_window_def split: if_splits sum.splits worker_response.splits option.splits prod.splits)
  moreover have "reconciling reconciled (Suc n) (window_end w) t'"
    using track_infer_served [OF sv nw room] run by blast
  ultimately show ?thesis
    using sv unfolding served_def by (intro conjI exI [of _ "ws @ [w]"]) auto
qed

text \<open>The relation the cutter keeps: within the length that the worker takes, the track is served.\<close>

definition ready_to_serve ::
  "(worker_request list \<times> nat, 'v, 'l) track_env \<Rightarrow> 'b worker_env \<Rightarrow> speech_worker \<Rightarrow> 'b \<Rightarrow> speech_worker_open \<Rightarrow> bool \<Rightarrow>
   window_policy \<Rightarrow> f32 list \<Rightarrow> (worker_request list \<times> nat) track \<Rightarrow> nat \<Rightarrow> nat \<Rightarrow> window_boundary option \<Rightarrow> bool" where
  "ready_to_serve T E wk b request reconciled p inp t n e pv \<longleftrightarrow>
     (length inp \<le> 100000000000000 \<longrightarrow> served T E wk b request reconciled p inp t n e pv)"

interpretation worker_client:
  window_acceptor "track_infer T" "ready_to_serve T E wk b request reconciled" 100000000000000 "track_excuse T reconciled" for T E wk b request reconciled
proof unfold_locales
  have "served T E wk b request reconciled p inp t n e pv \<Longrightarrow> served T E wk b request reconciled p (inp @ ys) t n e pv" for p inp ys t n e pv
    unfolding served_def by (meson collector.ready_extend)
  then show "ready_to_serve T E wk b request reconciled p inp t n e pv \<Longrightarrow> ready_to_serve T E wk b request reconciled p (inp @ ys) t n e pv" for p inp ys t n e pv
    by (simp add: ready_to_serve_def)
qed (auto simp: ready_to_serve_def track_infer_serves track_infer_served)

section \<open>A stream to its end\<close>

text \<open>Decoded audio as the decoder delivers it: mono at 16 kHz, finite samples, positions and numbers
  without gaps, presentation times within the limit.\<close>

definition audio_ok :: "nat \<Rightarrow> nat \<Rightarrow> audio_chunk \<Rightarrow> bool" where
  "audio_ok first number audio \<longleftrightarrow> ac_sample_rate audio = 16000 \<and> ac_channels audio = 1 \<and> length (ac_pcm_f32le audio) mod 4 = 0 \<and>
     ac_first_sample audio = first \<and> ac_chunk_number audio = number + 1 \<and> (\<forall>x \<in> set (chunk_samples audio). f32_isfinite x) \<and>
     (case ac_presentation_time_us audio of None \<Rightarrow> True | Some pts \<Rightarrow> - (2 ^ 62) \<le> pts \<and> pts \<le> 2 ^ 62)"

fun audios_ok :: "nat \<Rightarrow> nat \<Rightarrow> audio_chunk list \<Rightarrow> bool" where
  "audios_ok first number [] = True"
| "audios_ok first number (audio # audios) =
     (audio_ok first number audio \<and> audios_ok (first + length (chunk_samples audio)) (number + 1) audios)"

definition live ::
  "(worker_request list \<times> nat, 'v, 'l) track_env \<Rightarrow> 'b worker_env \<Rightarrow> speech_worker \<Rightarrow> 'b \<Rightarrow> speech_worker_open \<Rightarrow> bool \<Rightarrow>
   window_policy \<Rightarrow> f32 list \<Rightarrow> nat \<Rightarrow> (worker_request list \<times> nat, 'v) speech_track \<Rightarrow> bool" where
  "live T E wk b request reconciled p inp number st \<longleftrightarrow> st_vad st = None \<and> st_samples st = length inp \<and> st_chunks st = number \<and> \<not> fail_without_pause p \<and>
     (\<exists>pv. window_client.linked (ready_to_serve T E wk b request reconciled) p inp pv (st_windows st, st_track st) \<and> \<not> wd_finished (st_windows st) \<and>
        length (wd_buffer (st_windows st)) < window_limit p)"

lemma liveE:
  assumes "live T E wk b request reconciled p inp number st"
  obtains pv where "window_client.linked (ready_to_serve T E wk b request reconciled) p inp pv (st_windows st, st_track st)" "\<not> wd_finished (st_windows st)"
    "length (wd_buffer (st_windows st)) < window_limit p" "st_vad st = None" "st_samples st = length inp" "st_chunks st = number" "\<not> fail_without_pause p"
  using assms by (auto simp: live_def)

lemma live_offset [simp]:
  "live T E wk b request reconciled p inp number (st\<lparr>st_track := (st_track st)\<lparr>tr_time_offset := x\<rparr>\<rparr>) = live T E wk b request reconciled p inp number st"
  by (simp add: live_def worker_client.linked_def ready_to_serve_def served_def)

text \<open>A step of the track goes on or ends with an excuse.\<close>

definition goes_on :: "(exn \<Rightarrow> bool) \<Rightarrow> ('s \<Rightarrow> bool) \<Rightarrow> 's outcome \<Rightarrow> bool" where
  "goes_on P good r \<longleftrightarrow> only_fails P r \<and> (\<forall>s. r = (s, None) \<longrightarrow> good s)"

lemma goes_on_simps [simp]: "goes_on P good (s, None) = good s" "goes_on P good (s, Some e) = P e"
  by (auto simp: goes_on_def)

lemma goes_on_then: "goes_on P good r \<Longrightarrow> (\<And>s. good s \<Longrightarrow> goes_on P good' (k s)) \<Longrightarrow> goes_on P good' (and_then r k)"
  by (cases r) (auto simp: and_then_def split: option.splits elim!: goes_on_simps [THEN iffD1, elim_format])

lemma discontinuity_live:
  assumes "live T E wk b request reconciled p inp number st" "length inp \<le> 100000000000000"
  shows "goes_on (track_excuse T reconciled) (live T E wk b request reconciled p inp number) (track_discontinuity T st)"
proof -
  from assms(1) obtain pv where lk: "window_client.linked (ready_to_serve T E wk b request reconciled) p inp pv (st_windows st, st_track st)"
    "\<not> wd_finished (st_windows st)" "length (wd_buffer (st_windows st)) < window_limit p" "st_vad st = None" "st_samples st = length inp"
    "st_chunks st = number" "\<not> fail_without_pause p"
    by (rule liveE)
  obtain s t r where d: "windowing_discontinuity (track_infer T) (st_windows st, st_track st) = ((s, t), r)"
    by (metis prod.collapse)
  have "goes_on (track_excuse T reconciled) (live T E wk b request reconciled p inp number) (on_windows (windowing_discontinuity (track_infer T)) st)"
  proof (cases r)
    case None
    from worker_client.linked_discontinuity [OF lk(1,3) d [unfolded None]] have "live T E wk b request reconciled p inp number (st\<lparr>st_windows := s, st_track := t\<rparr>)"
      using lk(4-7) by (simp add: live_def)
    then show ?thesis
      by (simp add: on_windows_def d None)
  next
    case (Some x)
    with worker_client.discontinuity_accepted [OF lk(1-3) assms(2)] show ?thesis
      by (simp add: on_windows_def d)
  qed
  then show ?thesis
    unfolding track_discontinuity_def lk(4) by (auto intro!: goes_on_then)
qed

lemma timestamp_live:
  assumes "live T E wk b request reconciled p inp number st" "audio_ok (length inp) number audio" "length inp \<le> 100000000000000"
  shows "goes_on P (live T E wk b request reconciled p inp number) (track_timestamp audio st)"
proof (cases "tr_time_offset (st_track st) = None \<and> ac_presentation_time_us audio \<noteq> None")
  case True
  then obtain pts where "ac_presentation_time_us audio = Some pts" "tr_time_offset (st_track st) = None"
    by auto
  with assms show ?thesis
    by (simp add: track_timestamp_def audio_ok_def require_def sample_us_def)
next
  case False
  with assms(1) show ?thesis
    by (auto simp: track_timestamp_def split: option.splits)
qed

lemma samples_live:
  assumes "live T E wk b request reconciled p inp number st" "\<forall>x \<in> set xs. f32_isfinite x" "length (inp @ xs) \<le> 100000000000000"
  shows "goes_on (track_excuse T reconciled) (live T E wk b request reconciled p (inp @ xs) (number + 1)) (track_samples T xs st)"
proof -
  from assms(1) obtain pv where lk: "window_client.linked (ready_to_serve T E wk b request reconciled) p inp pv (st_windows st, st_track st)"
    "\<not> wd_finished (st_windows st)" "length (wd_buffer (st_windows st)) < window_limit p" "st_vad st = None" "st_samples st = length inp"
    "st_chunks st = number" "\<not> fail_without_pause p"
    by (rule liveE)
  obtain s t r where d: "windowing_push_all (track_infer T) True xs (st_windows st, st_track st) = ((s, t), r)"
    by (metis prod.collapse)
  have samples: "track_samples T xs st =
      and_then (st\<lparr>st_windows := s, st_track := t\<rparr>, r) (\<lambda>st1. (st1\<lparr>st_samples := st_samples st1 + length xs, st_chunks := st_chunks st1 + 1\<rparr>, None))"
    by (simp add: track_samples_def lk(2,4) on_windows_def windowing_append_def d)
  show ?thesis
  proof (cases r)
    case None
    from worker_client.linked_push_all [OF lk(1-3) d [unfolded None]]
    have "live T E wk b request reconciled p (inp @ xs) (number + 1)
        (st\<lparr>st_windows := s, st_track := t, st_samples := st_samples st + length xs, st_chunks := st_chunks st + 1\<rparr>)"
      using lk(4-7) by (simp add: live_def)
    then show ?thesis
      by (simp add: samples None)
  next
    case (Some x)
    with worker_client.push_all_accepted [OF lk(1-3) assms(2) lk(7) assms(3), of True] show ?thesis
      by (simp add: samples d)
  qed
qed

text \<open>An excuse as the caller of the track sees it, after the two handlers.\<close>

definition track_failure :: "('w, 'v, 'l) track_env \<Rightarrow> bool \<Rightarrow> exn \<Rightarrow> bool" where
  "track_failure T reconciled x \<longleftrightarrow> (\<exists>e. track_excuse T reconciled e \<and> (x = e \<or> x = audio_failure e \<or> x = no_pause_failure e))"

lemma goes_on_handler:
  "goes_on P good r \<Longrightarrow> (\<And>e. P e \<Longrightarrow> Q (f e)) \<Longrightarrow> goes_on Q good (apsnd (map_option f) r)"
  by (cases r; cases "snd r") auto

lemma audio_live:
  assumes "live T E wk b request reconciled p inp number st" "audio_ok (length inp) number audio" "length (inp @ chunk_samples audio) \<le> 100000000000000"
  shows "goes_on (track_failure T reconciled) (live T E wk b request reconciled p (inp @ chunk_samples audio) (number + 1)) (track_audio T audio st)"
proof -
  have room: "length inp \<le> 100000000000000"
    using assms(3) by simp
  have finite: "\<forall>x \<in> set (chunk_samples audio). f32_isfinite x"
    using assms(2) by (simp add: audio_ok_def)
  have "goes_on (track_excuse T reconciled) (live T E wk b request reconciled p inp number) (if ac_discontinuity audio then track_discontinuity T st else (st, None))"
    using discontinuity_live [OF assms(1) room] assms(1) by simp
  then have "goes_on (track_excuse T reconciled) (live T E wk b request reconciled p (inp @ chunk_samples audio) (number + 1))
      (and_then (if ac_discontinuity audio then track_discontinuity T st else (st, None)) (\<lambda>st1.
        and_then (track_timestamp audio st1) (\<lambda>st2. track_samples T (chunk_samples audio) st2)))"
    by (elim goes_on_then) (intro goes_on_then [OF timestamp_live [OF _ assms(2) room]] samples_live [OF _ finite assms(3)])
  then have "goes_on (track_failure T reconciled) (live T E wk b request reconciled p (inp @ chunk_samples audio) (number + 1))
      (apsnd (map_option audio_failure) (and_then (if ac_discontinuity audio then track_discontinuity T st else (st, None)) (\<lambda>st1.
        and_then (track_timestamp audio st1) (\<lambda>st2. track_samples T (chunk_samples audio) st2))))"
    by (rule goes_on_handler) (auto simp: track_failure_def)
  then show ?thesis
    using assms(1,2) by (simp add: track_audio_def audio_ok_def require_def live_def chunk_samples_def)
qed

lemma audios_live:
  "live T E wk b request reconciled p inp number st \<Longrightarrow> audios_ok (length inp) number audios \<Longrightarrow>
   length (inp @ concat (map chunk_samples audios)) \<le> 100000000000000 \<Longrightarrow>
   goes_on (track_failure T reconciled) (live T E wk b request reconciled p (inp @ concat (map chunk_samples audios)) (number + length audios)) (track_audios T audios st)"
proof (induction audios arbitrary: inp number st)
  case (Cons audio audios)
  have "goes_on (track_failure T reconciled) (live T E wk b request reconciled p (inp @ chunk_samples audio) (number + 1)) (track_audio T audio st)"
    using audio_live [OF Cons.prems(1), of audio] Cons.prems(2,3) by simp
  then show ?case
    unfolding track_audios.simps
    by (rule goes_on_then) (use Cons.IH [of "inp @ chunk_samples audio" "number + 1"] Cons.prems(2,3) in simp)
qed simp

text \<open>The trailer against the worker's count.\<close>

lemma close_served:
  assumes sv: "served T E wk b request reconciled p inp t n e pv" and room: "length inp \<le> 100000000000000"
  shows "goes_on (track_excuse T reconciled) tr_done (track_close T t)"
proof -
  obtain ws where ws: "collected p inp ws n e pv" "tr_count t = length ws" "tr_wire t = (Worker_open request # window_requests ws, Suc (length ws))"
    using sv by (auto simp: served_def)
  have wire: "te_wire T = worker_wire E wk b" "serving E" "open_ok E request" "max_samples p \<le> max_window_samples" "reconciling reconciled n e t"
    using sv by (auto simp: served_def peer_def)
  have chain: "window_chain p inp 0 0 None ws"
    using ws(1) by (simp add: collected_def)
  obtain hs where hs: "list_all2 answered ws hs"
    "worker_transcribe E wk b (Worker_open request # window_requests ws @ [Worker_finish (length ws)]) =
      (opened_response E wk request # map Worker_hypothesis hs @ [Worker_closed (length ws)], Status OK [])"
    using worker_transcribe_chain [OF wire(2-4) room chain, of wk b] by blast
  have len: "length hs = length ws"
    using hs(1) by (simp add: list_all2_lengthD [symmetric])
  then obtain x where close: "track_close T t = track_reconcile T reconcile_finish (t\<lparr>tr_wire := x, tr_done := True\<rparr>)"
    using hs(2) by (simp add: track_close_def ws(2,3) wire(1) worker_wire_def require_def nth_append Let_def)
  let ?t = "t\<lparr>tr_wire := x, tr_done := True\<rparr>"
  have rec: "reconciling reconciled n e ?t"
    using wire(5) by simp
  then have "only_fails (track_excuse T reconciled) (track_reconcile T reconcile_finish ?t)"
    by (intro track_reconcile_served [OF _ rec] reconcile_finish_fails) (auto simp: reconciling_def reconciler_at_def)
  moreover have "tr_done (fst (track_reconcile T reconcile_finish ?t))"
    by (simp add: track_reconcile_def Let_def split: option.splits prod.splits)
  ultimately show ?thesis
    unfolding close goes_on_def by (metis fst_conv)
qed

lemma finish_live:
  assumes "live T E wk b request reconciled p inp number st" "length inp \<le> 100000000000000"
  shows "goes_on (track_failure T reconciled) (\<lambda>st. tr_done (st_track st)) (track_finish T st)"
proof -
  from assms(1) obtain pv where lk: "window_client.linked (ready_to_serve T E wk b request reconciled) p inp pv (st_windows st, st_track st)"
    "\<not> wd_finished (st_windows st)" "length (wd_buffer (st_windows st)) < window_limit p" "st_vad st = None" "st_samples st = length inp"
    "st_chunks st = number" "\<not> fail_without_pause p"
    by (rule liveE)
  obtain s t r where d: "windowing_finish (track_infer T) (st_windows st, st_track st) = ((s, t), r)"
    by (metis prod.collapse)
  show ?thesis
  proof (cases r)
    case None
    from worker_client.linked_finish [OF lk(1,3) d [unfolded None]] assms(2) obtain pv' where
      "served T E wk b request reconciled p inp t (wd_number s) (length inp) pv'"
      by (auto simp: ready_to_serve_def)
    from close_served [OF this assms(2)] show ?thesis
      by (cases "track_close T t"; cases "snd (track_close T t)") (auto simp: track_finish_def lk(4) on_windows_def d None track_failure_def)
  next
    case (Some x)
    with worker_client.finish_accepted [OF lk(1-3) assms(2)] have "track_excuse T reconciled x"
      by (simp add: d)
    then show ?thesis
      by (auto simp: track_finish_def lk(4) on_windows_def d Some track_failure_def)
  qed
qed

text \<open>The worker's identity passes the handshake.\<close>

definition handshake_worker :: "'b worker_env \<Rightarrow> speech_worker \<Rightarrow> string \<Rightarrow> bool" where
  "handshake_worker E wk model_id \<longleftrightarrow> pr_model_id (wk_producer wk) = model_id \<and> length (pr_model_sha256 (wk_producer wk)) = 32 \<and>
     (\<forall>x. length (we_sha256 E x) = 32) \<and> valid_uuid (pr_machine_id (wk_producer wk))"

lemma track_new_live:
  assumes "peer T E wk b" "open_ok E (track_request stream_id track options)" "handshake_worker E wk (so_model_id options)"
    "options_sound vad options" "\<not> speech_aware (policy options)" "\<not> fail_without_pause (policy options)"
  shows "\<exists>t st. track_new T stream_id track options vad machine [] = (t, Inr st) \<and>
    live T E wk b (track_request stream_id track options) (get_or False (so_reconcile_transcript options)) (policy options) [] 0 st"
proof -
  let ?req = "track_request stream_id track options"
  obtain s where s: "windowing_new True (policy options) = Inr s" and max: "max_samples (policy options) \<le> max_window_samples"
    using assms(4) by (auto simp: options_sound_def)
  have wire: "te_wire T = worker_wire E wk b" "te_connect T = ([], 0)" "serving E"
    using assms(1) by (simp_all add: peer_def)
  have "window_chain (policy options) [] 0 0 None []"
    by simp
  from worker_transcribe_chain [OF wire(3) assms(2) max _ this, of wk b]
  have first: "fst (worker_transcribe E wk b [Worker_open ?req]) = [opened_response E wk ?req]"
    by simp
  let ?t = "track_opened T track options machine (session_producer E wk ?req) ((track_fresh T [])\<lparr>tr_wire := ([Worker_open ?req], 1)\<rparr>)"
  let ?st = "\<lparr>st_track = ?t, st_windows = s, st_vad = None, st_samples = 0, st_chunks = 0\<rparr>"
  have "handshake_ok T ?req (so_model_id options) (opened_response E wk ?req)"
    using assms(3) by (simp add: handshake_ok_def opened_response_def handshake_worker_def session_producer_def)
  moreover have "track_stages T options vad ?t = Inr ?st"
    using assms(5) s by (simp add: track_stages_def policy_def Let_def)
  ultimately have "track_new T stream_id track options vad machine [] = (?t, Inr ?st)"
    using first by (simp add: track_new_def track_exchange_def track_fresh_def wire(1,2) worker_wire_def require_def opened_response_def Let_def)
  moreover have "served T E wk b ?req (get_or False (so_reconcile_transcript options)) (policy options) [] ?t 0 0 None"
    using assms(1,2) max
    by (auto simp: served_def track_opened_def track_fresh_def track_request_def collected_def chain_end_def chain_prev_def reconciling_def
      reconciler_at_def reconciler_new_def)
  then have "live T E wk b ?req (get_or False (so_reconcile_transcript options)) (policy options) [] 0 ?st"
    using windowing_new_wf [OF s] assms(6) by (auto simp: live_def worker_client.linked_def ready_to_serve_def)
  ultimately show ?thesis
    by blast
qed

lemma track_ends:
  assumes "resolve_task vad o0 = Inr options" "\<not> speech_aware (policy options)"
    "peer T E wk b" "open_ok E (track_request stream_id track options)" "handshake_worker E wk (so_model_id options)"
    "audios_ok 0 0 audios" "length (concat (map chunk_samples audios)) \<le> 100000000000000"
  shows "\<exists>t st st' r. track_new T stream_id track options vad machine [] = (t, Inr st) \<and> track_run T audios st = (st', r) \<and>
    (case r of None \<Rightarrow> tr_done (st_track st') | Some x \<Rightarrow> track_failure T (get_or False (so_reconcile_transcript options)) x)"
proof -
  let ?rec = "get_or False (so_reconcile_transcript options)"
  note sound = resolve_task_sound [OF assms(1)]
  have "\<not> fail_without_pause (policy options)"
    using resolve_task_fixed [OF assms(1,2)] .
  from track_new_live [OF assms(3-5) sound assms(2) this, of machine] obtain t st where
    new: "track_new T stream_id track options vad machine [] = (t, Inr st)"
      "live T E wk b (track_request stream_id track options) ?rec (policy options) [] 0 st"
    by blast
  from audios_live [OF new(2), of audios] assms(6,7)
  have "goes_on (track_failure T ?rec) (live T E wk b (track_request stream_id track options) ?rec (policy options) (concat (map chunk_samples audios)) (length audios))
    (track_audios T audios st)"
    by simp
  then have "goes_on (track_failure T ?rec) (\<lambda>st. tr_done (st_track st)) (track_run T audios st)"
    unfolding track_run_def by (rule goes_on_then) (rule finish_live [OF _ assms(7)])
  with new(1) show ?thesis
    by (cases "track_run T audios st"; cases "snd (track_run T audios st)") auto
qed

lemma track_completes:
  assumes "resolve_task vad o0 = Inr options" "\<not> speech_aware (policy options)" "so_reconcile_transcript options = Some False"
    "\<And>events. te_refuses T events = None"
    "peer T E wk b" "open_ok E (track_request stream_id track options)" "handshake_worker E wk (so_model_id options)"
    "audios_ok 0 0 audios" "length (concat (map chunk_samples audios)) \<le> 100000000000000"
  shows "\<exists>t st st'. track_new T stream_id track options vad machine [] = (t, Inr st) \<and> track_run T audios st = (st', None) \<and>
    tr_done (st_track st')"
proof -
  have "\<not> track_failure T (get_or False (so_reconcile_transcript options)) x" for x
    using assms(3,4) by (simp add: track_failure_def track_excuse_def get_or_def)
  with track_ends [OF assms(1,2,5-9), of machine] show ?thesis
    by (fastforce split: option.splits)
qed

text \<open>A small worker, a track and two chunks of audio.\<close>

definition demo_worker_env :: "unit worker_env" where
  "demo_worker_env = \<lparr>we_validate_options = \<lambda>_. None, we_infer = \<lambda>b w track options. (b, Inr []), we_encoder_context = \<lambda>_. None, we_threads = 1,
     we_multilingual = None, we_supports_translation = False, we_supports_language_hint = False, we_reports_language = False,
     we_backend_kind = 0, we_minimum_encoder_context_ms = None, we_sha256 = \<lambda>_. replicate 32 CHR ''h'', we_serialize_options = \<lambda>_. [],
     we_int_to_string = \<lambda>_. [], we_byte_size = \<lambda>_. 0, we_busy = \<lambda>_. False, we_delivers = \<lambda>_. True\<rparr>"

definition demo_uuid :: string where
  "demo_uuid = ''00000000-0000-4000-8000-000000000001''"

definition demo_worker :: speech_worker where
  "demo_worker = \<lparr>wk_input_idle_timeout_ms = 1000, wk_producer = producer_empty\<lparr>pr_machine_id := demo_uuid, pr_model_id := ''base.en'',
     pr_model_sha256 := replicate 32 CHR ''m''\<rparr>\<rparr>"

definition demo_track_env :: "(worker_request list \<times> nat, unit, unit) track_env" where
  "demo_track_env = \<lparr>te_wire = worker_wire demo_worker_env demo_worker (), te_connect = ([], 0), te_vad = demo_vad,
     te_reconcile = \<lparr>re_uuid = \<lambda>_. [], re_refuses = \<lambda>_. None, re_distance_zero = (), re_add_distance = \<lambda>_ _ _. (), re_closer = \<lambda>_ _ _ _. False,
       re_tied = \<lambda>_ _ _ _. False, re_mean_log = \<lambda>_ _. 0\<rparr>,
     te_refuses = \<lambda>_. None, te_sha256 = \<lambda>_. [], te_options_bytes = \<lambda>_. [], te_windowing_bytes = \<lambda>_. [], te_producer_bytes = \<lambda>_. [],
     te_app_version = [], te_build_id = [], te_library_version = []\<rparr>"

definition demo_track_options :: speech_options where
  "demo_track_options = resolve_defaults (demo_speech\<lparr>so_reconcile_transcript := Some False\<rparr>)"

definition demo_audio :: "audio_chunk list" where
  "demo_audio =
     [\<lparr>ac_chunk_number = 1, ac_track_id = 0, ac_first_sample = 0, ac_sample_rate = 16000, ac_channels = 1, ac_pcm_f32le = pcm_encode [1, 2],
       ac_presentation_time_us = Some 5, ac_discontinuity = False\<rparr>,
      \<lparr>ac_chunk_number = 2, ac_track_id = 0, ac_first_sample = 2, ac_sample_rate = 16000, ac_channels = 1, ac_pcm_f32le = pcm_encode [3],
       ac_presentation_time_us = None, ac_discontinuity = True\<rparr>]"

lemma demo_uuid_valid: "valid_uuid demo_uuid"
  by code_simp

lemma demo_track_resolved:
  "resolve_task [] (demo_speech\<lparr>so_reconcile_transcript := Some False\<rparr>) = Inr demo_track_options" "\<not> speech_aware (policy demo_track_options)"
  "so_reconcile_transcript demo_track_options = Some False"
  by (simp_all add: demo_track_options_def resolve_evals)

lemma demo_track_peer:
  "peer demo_track_env demo_worker_env demo_worker ()" "open_ok demo_worker_env (track_request demo_uuid 0 demo_track_options)"
  "handshake_worker demo_worker_env demo_worker (so_model_id demo_track_options)"
  by (simp_all add: peer_def demo_track_env_def serving_def demo_worker_env_def open_ok_def track_request_def demo_uuid_valid
    demo_track_options_def resolve_evals handshake_worker_def demo_worker_def)

lemma demo_takes_events: "te_refuses demo_track_env events = None"
  by (simp add: demo_track_env_def)

definition demo_reconciled_options :: speech_options where
  "demo_reconciled_options = resolve_defaults demo_speech"

lemma demo_reconciled:
  "resolve_task [] demo_speech = Inr demo_reconciled_options" "\<not> speech_aware (policy demo_reconciled_options)"
  "so_reconcile_transcript demo_reconciled_options = Some True"
  by (simp_all add: demo_reconciled_options_def resolve_evals)

lemma demo_reconciled_peer:
  "open_ok demo_worker_env (track_request demo_uuid 0 demo_reconciled_options)"
  "handshake_worker demo_worker_env demo_worker (so_model_id demo_reconciled_options)"
  by (simp_all add: demo_worker_env_def open_ok_def track_request_def demo_uuid_valid demo_reconciled_options_def resolve_evals
    handshake_worker_def demo_worker_def)

lemma demo_audio_ok: "audios_ok 0 0 demo_audio" "concat (map chunk_samples demo_audio) = [1, 2, 3]"
  using pcm_decode_encode [of "[1, 2]"] pcm_decode_encode [of "[3]"]
  by (simp_all add: demo_audio_def audio_ok_def chunk_samples_def small_finite)

lemma demo_audio_short: "length (concat (map chunk_samples demo_audio)) \<le> 100000000000000"
  by (simp add: demo_audio_ok(2))

text \<open>C9: the pipeline and the worker agree on their protocol. For resolved options with fixed windows,
  reconciled or not, a worker that serves the model and audio the decoder may deliver, of at most 10^14
  samples: the track opens, and then it either takes every chunk and finishes without an exception, the
  worker having closed the session with status OK, or its exception is one of two kinds: one that
  the receiver of its events threw, or, when the transcript is reconciled, one of the reconciler's eight
  verdicts on the content of a hypothesis (\<open>content_failure\<close>: unclassified tokens, text that
  the tokens do not spell, limits). No window is refused and no handshake, identity, sequence or
  accounting check fails, on either side; without reconciliation and with a receiver that takes the
  events the track completes.\<close>

theorem track_completes_with_worker:
  assumes "resolve_task vad o0 = Inr options" "\<not> speech_aware (policy options)"
    "peer T E wk b" "open_ok E (track_request stream_id track options)" "handshake_worker E wk (so_model_id options)"
    "audios_ok 0 0 audios" "length (concat (map chunk_samples audios)) \<le> 100000000000000"
  shows "\<exists>t st st' r. track_new T stream_id track options vad machine [] = (t, Inr st) \<and> track_run T audios st = (st', r) \<and>
    (case r of None \<Rightarrow> tr_done (st_track st') | Some x \<Rightarrow> track_failure T (get_or False (so_reconcile_transcript options)) x) \<and>
    (so_reconcile_transcript options = Some False \<and> (\<forall>events. te_refuses T events = None) \<longrightarrow> r = None)"
proof -
  have "\<not> track_failure T (get_or False (so_reconcile_transcript options)) x"
    if "so_reconcile_transcript options = Some False" "\<forall>events. te_refuses T events = None" for x
    using that by (simp add: track_failure_def track_excuse_def get_or_def)
  with track_ends [OF assms, of machine] show ?thesis
    by (fastforce split: option.splits)
qed

theorem track_completes_with_worker_witness:
  "(\<exists>t st st'. track_new demo_track_env demo_uuid 0 demo_track_options [] [] [] = (t, Inr st) \<and>
     track_run demo_track_env demo_audio st = (st', None) \<and> tr_done (st_track st')) \<and>
   (\<exists>t st st' r. track_new demo_track_env demo_uuid 0 demo_reconciled_options [] [] [] = (t, Inr st) \<and>
     track_run demo_track_env demo_audio st = (st', r) \<and>
     (case r of None \<Rightarrow> tr_done (st_track st') | Some x \<Rightarrow> track_failure demo_track_env True x))"
proof
  have reconciled: "get_or False (so_reconcile_transcript demo_reconciled_options) = True"
    by (simp add: demo_reconciled(3) get_or_def)
  show "\<exists>t st st'. track_new demo_track_env demo_uuid 0 demo_track_options [] [] [] = (t, Inr st) \<and>
     track_run demo_track_env demo_audio st = (st', None) \<and> tr_done (st_track st')"
    using track_completes_with_worker [OF demo_track_resolved(1,2) demo_track_peer demo_audio_ok(1) demo_audio_short, of "[]"]
      demo_track_resolved(3) demo_takes_events
    by (auto split: option.splits)
  show "\<exists>t st st' r. track_new demo_track_env demo_uuid 0 demo_reconciled_options [] [] [] = (t, Inr st) \<and>
     track_run demo_track_env demo_audio st = (st', r) \<and>
     (case r of None \<Rightarrow> tr_done (st_track st') | Some x \<Rightarrow> track_failure demo_track_env True x)"
    using track_completes_with_worker [OF demo_reconciled(1,2) demo_track_peer(1) demo_reconciled_peer demo_audio_ok(1) demo_audio_short, of "[]"]
    unfolding reconciled by blast
qed

text \<open>C10: a track loses no audio, whatever the worker and the detector do. When it opens, takes its
  chunks and finishes without an exception, there is a chain of windows that covers all the decoded samples
  exactly once, and the hypotheses it has published answer these windows one by one, in order,
  with the windows' numbers, positions and lengths.\<close>

theorem track_covers_audio:
  assumes "track_new T stream_id track options vad machine [] = (t, Inr st)" "track_run T audios st = (st', None)"
  shows "\<exists>ws. window_chain (policy options) (concat (map chunk_samples audios)) 0 0 None ws \<and>
    concat (map window_new ws) = concat (map chunk_samples audios) \<and> tr_count (st_track st') = length ws \<and>
    list_all2 answered ws (hypotheses (tr_events (st_track st')))"
  using track_run_covers [OF assms] .

theorem track_covers_audio_witness:
  "\<exists>t st st' ws. track_new demo_track_env demo_uuid 0 demo_track_options [] [] [] = (t, Inr st) \<and>
     track_run demo_track_env demo_audio st = (st', None) \<and> concat (map window_new ws) = [1, 2, 3] \<and>
     list_all2 answered ws (hypotheses (tr_events (st_track st')))"
proof -
  obtain t st st' where r: "track_new demo_track_env demo_uuid 0 demo_track_options [] [] [] = (t, Inr st)"
    "track_run demo_track_env demo_audio st = (st', None)"
    using track_completes [OF demo_track_resolved demo_takes_events demo_track_peer demo_audio_ok(1) demo_audio_short] by blast
  with track_covers_audio [OF r] show ?thesis
    unfolding demo_audio_ok(2) by blast
qed

end
