(* ===== verification/Http_Source.thy ===== *)
theory Http_Source
  imports Prelude "HOL-Library.Sublist"
begin

unbundle bit_operations_syntax

text \<open>
  The HTTP source of src/streaming/src/http.cpp: which origins and addresses it connects to, the
  bounded buffer between libcurl's callbacks and the reader, and the read loop. libcurl is a
  parameter: how it splits a URL, and for each round of the transfer the callbacks it makes with
  their data and what its calls return. Every round of callbacks is possible, so the theorems hold
  for every server.
\<close>

section \<open>Addresses\<close>

text \<open>An IPv4 address in host order, an IPv6 address as its sixteen bytes.\<close>

datatype socket_address = Inet "32 word" | Inet6 "8 word list" | Other_family

definition public_v4 :: "32 word \<Rightarrow> bool" where
  "public_v4 ip \<longleftrightarrow> (let first = drop_bit 24 ip in
     first \<noteq> 0 \<and> first \<noteq> 10 \<and> first \<noteq> 127 \<and> first < 224 \<and>
     ip AND 0xffff0000 \<noteq> 0xa9fe0000 \<and> ip AND 0xfff00000 \<noteq> 0xac100000 \<and>
     ip AND 0xffff0000 \<noteq> 0xc0a80000 \<and> ip AND 0xffc00000 \<noteq> 0x64400000 \<and>
     ip AND 0xfffe0000 \<noteq> 0xc6120000 \<and> ip AND 0xffffff00 \<noteq> 0xc0000000 \<and>
     ip AND 0xffffff00 \<noteq> 0xc0000200 \<and> ip AND 0xffffff00 \<noteq> 0xc6336400 \<and>
     ip AND 0xffffff00 \<noteq> 0xcb007100 \<and> ip AND 0xffffff00 \<noteq> 0xc0586300)"

definition public_v6 :: "8 word list \<Rightarrow> bool" where
  "public_v6 ip \<longleftrightarrow> ip ! 0 AND 0xe0 = 0x20 \<and> \<not> (ip ! 0 = 0x20 \<and> ip ! 1 = 0x02) \<and>
     \<not> (ip ! 0 = 0x20 \<and> ip ! 1 = 0x01 \<and> ip ! 2 = 0 \<and> ip ! 3 = 0) \<and>
     \<not> (ip ! 0 = 0x20 \<and> ip ! 1 = 0x01 \<and> ip ! 2 = 0x0d \<and> ip ! 3 = 0xb8)"

definition public_address :: "socket_address \<Rightarrow> bool" where
  "public_address a = (case a of Inet ip \<Rightarrow> public_v4 ip | Inet6 ip \<Rightarrow> public_v6 ip | Other_family \<Rightarrow> False)"

section \<open>Origins\<close>

text \<open>What \<open>curl_url_get\<close> finds in a URL it accepts; the port with its default.\<close>

record url_parts =
  up_scheme :: string
  up_host :: string
  up_port :: string
  up_user :: bool
  up_password :: bool
  up_fragment :: bool

text \<open>\<open>std::string::find\<close> of a string, and \<open>find_first_of\<close>, from a position.\<close>

definition find_string :: "string \<Rightarrow> string \<Rightarrow> nat \<Rightarrow> nat option" where
  "find_string needle s start = List.find (\<lambda>i. prefix needle (drop i s)) [start..<Suc (length s)]"

definition find_first_of :: "string \<Rightarrow> string \<Rightarrow> nat \<Rightarrow> nat option" where
  "find_first_of chars s start = List.find (\<lambda>i. s ! i \<in> set chars) [start..<length s]"

definition ascii_lower :: "char \<Rightarrow> char" where
  "ascii_lower c = (if of_char c \<ge> (65 :: nat) \<and> of_char c \<le> (90 :: nat) then char_of (of_char c + (32 :: nat)) else c)"

text \<open>The text of the authority holds an at sign.\<close>

definition authority_at :: "string \<Rightarrow> bool" where
  "authority_at url =
     (let start = (case find_string ''://'' url 0 of None \<Rightarrow> 0 | Some i \<Rightarrow> i + 3);
          stop = find_first_of ''/?'' url start;
          at = find_first_of ''@'' url start
      in case at of None \<Rightarrow> False | Some a \<Rightarrow> (case stop of None \<Rightarrow> True | Some e \<Rightarrow> a < e))"

definition http_origin :: "(string \<Rightarrow> url_parts option) \<Rightarrow> string \<Rightarrow> exn + string" where
  "http_origin parse url =
     (if url = [] \<or> length url > 8192 \<or> CHR 0x00 \<in> set url \<or> CHR ''#'' \<in> set url
      then Inl (Failure INVALID_ARGUMENT ''invalid HTTP URL'')
      else (case parse url of
          None \<Rightarrow> Inl (Failure INVALID_ARGUMENT ''invalid HTTP URL'')
        | Some p \<Rightarrow>
            if (up_scheme p \<noteq> ''http'' \<and> up_scheme p \<noteq> ''https'') \<or> up_host p = [] \<or> authority_at url \<or> up_user p \<or> up_password p \<or> up_fragment p
            then Inl (Failure INVALID_ARGUMENT ''HTTP URL scheme or credentials are not permitted'')
            else Inr (up_scheme p @ ''://'' @ map ascii_lower (up_host p) @ '':'' @ up_port p)))"

record http_policy =
  hp_allowed_origins :: "string set"
  hp_allow_private_addresses :: bool

section \<open>The transfer\<close>

record http_input =
  hi_policy :: http_policy
  hi_pending :: "string list"
  hi_bytes :: nat
  hi_offset :: nat
  hi_header_bytes :: nat
  hi_paused :: bool
  hi_finished :: bool
  hi_address_rejected :: bool
  hi_result_ok :: bool
  hi_error :: "exn option"

definition http_budget :: nat where
  "http_budget = 64 * 1024"

text \<open>The constructor; \<open>async_dns\<close> is the libcurl feature it needs, \<open>configured\<close> that all options and the
  handle were accepted.\<close>

definition http_input_new :: "(string \<Rightarrow> url_parts option) \<Rightarrow> string \<Rightarrow> http_policy \<Rightarrow> bool \<Rightarrow> exn option \<Rightarrow> exn + http_input" where
  "http_input_new parse url policy async_dns configured =
     (case http_origin parse url of
        Inl e \<Rightarrow> Inl e
      | Inr source_origin \<Rightarrow>
          if source_origin \<notin> hp_allowed_origins policy then Inl (Failure PERMISSION_DENIED ''HTTP source origin is not allowed'')
          else if \<not> async_dns then Inl (Runtime_error ''asynchronous libcurl DNS support is required'')
          else (case configured of
              Some e \<Rightarrow> Inl e
            | None \<Rightarrow> Inr \<lparr>hi_policy = policy, hi_pending = [], hi_bytes = 0, hi_offset = 0, hi_header_bytes = 0, hi_paused = False,
                hi_finished = False, hi_address_rejected = False, hi_result_ok = True, hi_error = None\<rparr>))"

text \<open>What a body callback returns to libcurl.\<close>

datatype body_result = Taken nat | Paused

definition http_body :: "int \<Rightarrow> string \<Rightarrow> http_input \<Rightarrow> http_input \<times> body_result" where
  "http_body status data s =
     (let n = length data in
      if n = 0 then (s, Taken 0)
      else if status < 200 \<or> status \<ge> 300
      then (s\<lparr>hi_error := Some (Failure FAILED_PRECONDITION ''HTTP source did not return a successful response'')\<rparr>, Taken 0)
      else if n > http_budget then (s\<lparr>hi_error := Some (Failure RESOURCE_EXHAUSTED ''HTTP callback exceeds buffer limit'')\<rparr>, Taken 0)
      else if n > http_budget - hi_bytes s then (s\<lparr>hi_paused := True\<rparr>, Paused)
      else (s\<lparr>hi_pending := hi_pending s @ [data], hi_bytes := hi_bytes s + n\<rparr>, Taken n))"

definition http_is_space :: "char \<Rightarrow> bool" where
  "http_is_space c \<longleftrightarrow> c = CHR '' '' \<or> (9 \<le> (of_char c :: nat) \<and> (of_char c :: nat) \<le> 13)"

definition http_header :: "string \<Rightarrow> http_input \<Rightarrow> http_input \<times> nat" where
  "http_header data s =
     (let n = length data in
      if n > http_budget - hi_header_bytes s then (s\<lparr>hi_error := Some (Failure RESOURCE_EXHAUSTED ''HTTP headers exceed limit'')\<rparr>, 0)
      else let s1 = s\<lparr>hi_header_bytes := hi_header_bytes s + n\<rparr>; line = map ascii_lower data;
             encoding = filter (\<lambda>c. \<not> http_is_space c) (drop 17 line) in
        if prefix ''content-encoding:'' line \<and> encoding \<noteq> [] \<and> encoding \<noteq> ''identity''
        then (s1\<lparr>hi_error := Some (Failure UNIMPLEMENTED ''encoded HTTP response entities are not supported'')\<rparr>, 0)
        else (s1, n))"

text \<open>May a socket be opened? \<open>ip_connection\<close>: the purpose is \<open>CURLSOCKTYPE_IPCXN\<close>.\<close>

definition http_socket :: "bool \<Rightarrow> socket_address \<Rightarrow> http_input \<Rightarrow> http_input \<times> bool" where
  "http_socket ip_connection address s =
     (if \<not> ip_connection \<or> (\<not> hp_allow_private_addresses (hi_policy s) \<and> \<not> public_address address)
      then (s\<lparr>hi_address_rejected := True\<rparr>, False) else (s, True))"

datatype http_callback = Body_callback int string | Header_callback string | Socket_callback bool socket_address

fun http_callback_step :: "http_callback \<Rightarrow> http_input \<Rightarrow> http_input" where
  "http_callback_step (Body_callback status data) s = fst (http_body status data s)"
| "http_callback_step (Header_callback data) s = fst (http_header data s)"
| "http_callback_step (Socket_callback ip address) s = fst (http_socket ip address s)"

section \<open>Reading\<close>

text \<open>
  One round of the loop as libcurl lives it: whether resuming works and the callbacks it makes then,
  the same for \<open>curl_multi_perform\<close>, the results of the transfers that are done, whether the
  poll works, and what \<open>cancelled()\<close> answers at the two checks.
\<close>

record http_round =
  rd_resume :: "http_callback list \<times> bool"
  rd_perform :: "http_callback list \<times> bool"
  rd_done :: "bool list"
  rd_poll :: bool
  rd_cancelled :: "bool \<times> bool"

definition http_check :: "bool \<Rightarrow> http_input \<Rightarrow> http_input outcome" where
  "http_check cancelled s =
     (case hi_error s of
        Some e \<Rightarrow> (s, Some e)
      | None \<Rightarrow> if cancelled then (s, Some (Failure CANCELLED ''HTTP source cancelled'')) else (s, None))"

text \<open>The branch with pending data: at most \<open>capacity\<close> bytes of the first block, then back-pressure.\<close>

definition http_take :: "nat \<Rightarrow> bool \<Rightarrow> http_input \<Rightarrow> http_input \<times> (exn + string)" where
  "http_take capacity pause_ok s =
     (let front = hd (hi_pending s); n = min capacity (length front - hi_offset s); data = take n (drop (hi_offset s) front);
          s1 = s\<lparr>hi_offset := hi_offset s + n, hi_bytes := hi_bytes s - n\<rparr>;
          s2 = (if hi_offset s1 = length front then s1\<lparr>hi_pending := tl (hi_pending s1), hi_offset := 0\<rparr> else s1) in
      if \<not> hi_finished s2 \<and> \<not> hi_paused s2
      then if pause_ok then (s2\<lparr>hi_paused := True\<rparr>, Inr data)
           else (s2, Inl (Failure UNAVAILABLE ''HTTP backpressure pause failed''))
      else (s2, Inr data))"

definition http_end :: "int \<Rightarrow> http_input \<Rightarrow> exn + string" where
  "http_end status s =
     (if \<not> hi_result_ok s
      then Inl (if hi_address_rejected s then Failure PERMISSION_DENIED ''HTTP destination address is not allowed''
                else Failure UNAVAILABLE ''HTTP source transfer failed'')
      else if status < 200 \<or> status \<ge> 300 then Inl (Failure FAILED_PRECONDITION ''HTTP source did not return a successful response'')
      else Inr [])"

definition http_resume :: "http_round \<Rightarrow> http_input \<Rightarrow> http_input outcome" where
  "http_resume r s =
     (if hi_paused s
      then let s1 = fold http_callback_step (fst (rd_resume r)) (s\<lparr>hi_paused := False\<rparr>) in
        if \<not> snd (rd_resume r) then (s1, Some (Failure UNAVAILABLE ''HTTP resume failed''))
        else http_check (fst (rd_cancelled r)) s1
      else (s, None))"

definition http_perform :: "http_round \<Rightarrow> http_input \<Rightarrow> http_input outcome" where
  "http_perform r s =
     (let s1 = fold http_callback_step (fst (rd_perform r)) s in
      if \<not> snd (rd_perform r) then (s1, Some (Failure UNAVAILABLE ''HTTP polling failed''))
      else and_then (http_check (snd (rd_cancelled r)) s1) (\<lambda>s2.
        let s3 = fold (\<lambda>ok s. s\<lparr>hi_finished := True, hi_result_ok := ok\<rparr>) (rd_done r) s2 in
        if hi_pending s3 \<noteq> [] \<or> hi_finished s3 then (s3, None)
        else if \<not> rd_poll r then (s3, Some (Failure UNAVAILABLE ''HTTP wait failed''))
        else (s3, None)))"

text \<open>
  The loop, over the rounds the transfer makes while this call lasts; \<open>None\<close> when the call still
  waits after all of them. \<open>cancelled\<close> answers the checks at the head of the loop, \<open>pause_ok\<close> whether
  \<open>curl_easy_pause\<close> works, \<open>status\<close> is the response code.
\<close>

fun http_loop :: "nat \<Rightarrow> bool \<Rightarrow> int \<Rightarrow> bool list \<Rightarrow> http_round list \<Rightarrow> http_input \<Rightarrow> http_input \<times> (exn + string) option" where
  "http_loop capacity pause_ok status cancelled rounds s =
     (case http_check (cancelled \<noteq> [] \<and> hd cancelled) s of
        (_, Some e) \<Rightarrow> (s, Some (Inl e))
      | (_, None) \<Rightarrow>
        if hi_pending s \<noteq> [] then (case http_take capacity pause_ok s of (s1, r) \<Rightarrow> (s1, Some r))
        else if hi_finished s then (s, Some (http_end status s))
        else (case rounds of
            [] \<Rightarrow> (s, None)
          | r # rest \<Rightarrow> (case and_then (http_resume r s) (http_perform r) of
                (s1, Some e) \<Rightarrow> (s1, Some (Inl e))
              | (s1, None) \<Rightarrow> http_loop capacity pause_ok status (tl cancelled) rest s1)))"

declare http_loop.simps [simp del]

definition http_read :: "nat \<Rightarrow> bool \<Rightarrow> int \<Rightarrow> bool list \<Rightarrow> http_round list \<Rightarrow> http_input \<Rightarrow> http_input \<times> (exn + string) option" where
  "http_read capacity pause_ok status cancelled rounds s =
     (if capacity = 0 then (s, Some (Inl (Invalid_argument ''HTTP output buffer required'')))
      else http_loop capacity pause_ok status cancelled rounds s)"

section \<open>Public addresses\<close>

text \<open>An address is in a block when it agrees with its base in the first \<open>n\<close> bits.\<close>

definition in_block :: "32 word \<Rightarrow> 32 word \<times> nat \<Rightarrow> bool" where
  "in_block ip b \<longleftrightarrow> drop_bit (32 - snd b) ip = drop_bit (32 - snd b) (fst b)"

text \<open>This network, private, shared, loopback, link-local, protocol assignments, documentation, 6to4 relay,
  benchmarking, multicast and reserved.\<close>

definition special_v4 :: "(32 word \<times> nat) list" where
  "special_v4 = [(0x00000000, 8), (0x0a000000, 8), (0x64400000, 10), (0x7f000000, 8), (0xa9fe0000, 16), (0xac100000, 12),
     (0xc0000000, 24), (0xc0000200, 24), (0xc0586300, 24), (0xc0a80000, 16), (0xc6120000, 15), (0xc6336400, 24), (0xcb007100, 24),
     (0xe0000000, 3)]"

lemma block_test:
  fixes ip base m :: "'a :: len word"
  assumes "m = NOT (mask k)" "base AND mask k = 0"
  shows "ip AND m = base \<longleftrightarrow> drop_bit k ip = drop_bit k base"
proof
  assume "ip AND m = base"
  then have "drop_bit k base = drop_bit k (ip AND NOT (mask k))"
    using assms(1) by simp
  also have "\<dots> = drop_bit k ip"
    by (rule bit_word_eqI) (auto simp: bit_simps dest: bit_imp_le_length)
  finally show "drop_bit k ip = drop_bit k base"
    by simp
next
  assume eq: "drop_bit k ip = drop_bit k base"
  show "ip AND m = base"
  proof (rule bit_word_eqI)
    fix n assume n: "n < LENGTH('a)"
    show "bit (ip AND m) n = bit base n"
    proof (cases "n < k")
      case True
      have "bit (base AND mask k) n = False"
        using assms(2) by simp
      with True n show ?thesis
        by (simp add: assms(1) bit_simps)
    next
      case False
      have "bit (drop_bit k ip) (n - k) = bit (drop_bit k base) (n - k)"
        using eq by simp
      with False n show ?thesis
        by (simp add: assms(1) bit_simps)
    qed
  qed
qed

lemma top_block: "\<not> drop_bit 24 ip < (224 :: 32 word) \<longleftrightarrow> drop_bit 29 ip = (7 :: 32 word)" for ip :: "32 word"
proof -
  have small: "unat ip < 4294967296"
    using unsigned_less [of ip] by simp
  have "\<not> drop_bit 24 ip < (224 :: 32 word) \<longleftrightarrow> 224 \<le> unat ip div 16777216"
    by (simp add: word_less_nat_alt drop_bit_eq_div unat_div_distrib not_less)
  also have "\<dots> \<longleftrightarrow> unat ip div 536870912 = 7"
    using small by linarith
  also have "\<dots> \<longleftrightarrow> drop_bit 29 ip = 7"
    by (simp add: word_unat_eq_iff drop_bit_eq_div unat_div_distrib)
  finally show ?thesis .
qed

lemma block_tests:
  fixes ip :: "32 word"
  shows "ip AND 0xffff0000 = 0xa9fe0000 \<longleftrightarrow> drop_bit 16 ip = 43518"
    "ip AND 0xfff00000 = 0xac100000 \<longleftrightarrow> drop_bit 20 ip = 2753"
    "ip AND 0xffff0000 = 0xc0a80000 \<longleftrightarrow> drop_bit 16 ip = 49320"
    "ip AND 0xffc00000 = 0x64400000 \<longleftrightarrow> drop_bit 22 ip = 401"
    "ip AND 0xfffe0000 = 0xc6120000 \<longleftrightarrow> drop_bit 17 ip = 25353"
    "ip AND 0xffffff00 = 0xc0000000 \<longleftrightarrow> drop_bit 8 ip = 12582912"
    "ip AND 0xffffff00 = 0xc0000200 \<longleftrightarrow> drop_bit 8 ip = 12582914"
    "ip AND 0xffffff00 = 0xc6336400 \<longleftrightarrow> drop_bit 8 ip = 12989284"
    "ip AND 0xffffff00 = 0xcb007100 \<longleftrightarrow> drop_bit 8 ip = 13303921"
    "ip AND 0xffffff00 = 0xc0586300 \<longleftrightarrow> drop_bit 8 ip = 12605539"
  using block_test [of "0xffff0000" 16 "0xa9fe0000" ip]
      block_test [of "0xfff00000" 20 "0xac100000" ip]
      block_test [of "0xffff0000" 16 "0xc0a80000" ip]
      block_test [of "0xffc00000" 22 "0x64400000" ip]
      block_test [of "0xfffe0000" 17 "0xc6120000" ip]
      block_test [of "0xffffff00" 8 "0xc0000000" ip]
      block_test [of "0xffffff00" 8 "0xc0000200" ip]
      block_test [of "0xffffff00" 8 "0xc6336400" ip]
      block_test [of "0xffffff00" 8 "0xcb007100" ip]
      block_test [of "0xffffff00" 8 "0xc0586300" ip]
  by (simp_all add: mask_eq_exp_minus_1)

text \<open>C37: which destinations the source connects to by default. An IPv4 address passes exactly when it is in
  none of the special-purpose blocks; an IPv6 address exactly when it is global unicast and neither
  6to4, Teredo nor documentation; nothing else passes.\<close>

theorem public_address_blocks:
  assumes "case a of Inet6 ip \<Rightarrow> length ip = 16 | _ \<Rightarrow> True"
  shows "public_address a \<longleftrightarrow>
     (case a of Inet ip \<Rightarrow> (\<forall>b \<in> set special_v4. \<not> in_block ip b)
      | Inet6 ip \<Rightarrow> drop_bit 5 (ip ! 0) = 1 \<and> take 2 ip \<noteq> [0x20, 0x02] \<and> take 4 ip \<noteq> [0x20, 0x01, 0, 0] \<and> take 4 ip \<noteq> [0x20, 0x01, 0x0d, 0xb8]
      | Other_family \<Rightarrow> False)"
proof (cases a)
  case (Inet ip)
  have v4: "public_v4 ip \<longleftrightarrow> (\<forall>b \<in> set special_v4. \<not> in_block ip b)"
    unfolding public_v4_def Let_def block_tests
    by (auto simp: special_v4_def in_block_def top_block [symmetric])
  with Inet show ?thesis
    by (simp add: public_address_def)
next
  case (Inet6 ip)
  with assms obtain b0 b1 b2 b3 rest where ip: "ip = b0 # b1 # b2 # b3 # rest"
    by (auto simp: numeral_eq_Suc length_Suc_conv)
  have "b0 AND 0xe0 = 0x20 \<longleftrightarrow> drop_bit 5 b0 = 1"
    using block_test [of "0xe0" 5 "0x20" b0] by (simp add: mask_eq_exp_minus_1)
  then show ?thesis
    by (simp add: Inet6 ip public_address_def public_v6_def)
next
  case Other_family
  then show ?thesis
    by (simp add: public_address_def)
qed

theorem public_address_blocks_witness:
  "\<not> public_address (Inet 0xa9fea9fe) \<and> public_address (Inet6 (0x20 # 0x01 # 0x48 # replicate 13 0))"
  using public_address_blocks [of "Inet 0xa9fea9fe"] public_address_blocks [of "Inet6 (0x20 # 0x01 # 0x48 # replicate 13 0)"]
  by (simp add: special_v4_def in_block_def)

section \<open>The buffer\<close>

definition unread :: "http_input \<Rightarrow> string" where
  "unread s = drop (hi_offset s) (concat (hi_pending s))"

definition http_ok :: "http_input \<Rightarrow> bool" where
  "http_ok s \<longleftrightarrow> (\<forall>b \<in> set (hi_pending s). b \<noteq> []) \<and> (case hi_pending s of [] \<Rightarrow> hi_offset s = 0 | b # _ \<Rightarrow> hi_offset s < length b) \<and>
     hi_bytes s = length (unread s) \<and> hi_bytes s \<le> http_budget \<and> hi_header_bytes s \<le> http_budget"

text \<open>The bytes a callback leaves in the buffer.\<close>

fun callback_bytes :: "http_callback \<Rightarrow> http_input \<Rightarrow> string" where
  "callback_bytes (Body_callback status data) s = (case snd (http_body status data s) of Taken n \<Rightarrow> take n data | Paused \<Rightarrow> [])"
| "callback_bytes _ s = []"

fun accepted_bytes :: "http_callback list \<Rightarrow> http_input \<Rightarrow> string" where
  "accepted_bytes [] s = []"
| "accepted_bytes (c # cs) s = callback_bytes c s @ accepted_bytes cs (http_callback_step c s)"

lemma http_offset_le: "http_ok s \<Longrightarrow> hi_offset s \<le> length (concat (hi_pending s))"
  by (auto simp: http_ok_def split: list.splits)

lemma http_ok_flags [simp]:
  "http_ok (s\<lparr>hi_paused := p\<rparr>) = http_ok s" "unread (s\<lparr>hi_paused := p\<rparr>) = unread s"
  "http_ok (s\<lparr>hi_error := x\<rparr>) = http_ok s" "unread (s\<lparr>hi_error := x\<rparr>) = unread s"
  "http_ok (s\<lparr>hi_address_rejected := p\<rparr>) = http_ok s" "unread (s\<lparr>hi_address_rejected := p\<rparr>) = unread s"
  "http_ok (s\<lparr>hi_finished := p, hi_result_ok := k\<rparr>) = http_ok s" "unread (s\<lparr>hi_finished := p, hi_result_ok := k\<rparr>) = unread s"
  by (simp_all add: http_ok_def unread_def split: list.split)

lemma http_body_taken:
  assumes "http_ok s" "data \<noteq> []" "\<not> length data > http_budget - hi_bytes s"
  shows "http_ok (s\<lparr>hi_pending := hi_pending s @ [data], hi_bytes := hi_bytes s + length data\<rparr>) \<and>
    unread (s\<lparr>hi_pending := hi_pending s @ [data], hi_bytes := hi_bytes s + length data\<rparr>) = unread s @ data"
proof -
  have "unread (s\<lparr>hi_pending := hi_pending s @ [data], hi_bytes := hi_bytes s + length data\<rparr>) = unread s @ data"
    using http_offset_le [OF assms(1)] by (simp add: unread_def)
  with assms show ?thesis
    by (auto simp: http_ok_def split: list.splits)
qed

lemma http_callback_keeps:
  assumes "http_ok s"
  shows "http_ok (http_callback_step c s) \<and> unread (http_callback_step c s) = unread s @ callback_bytes c s"
proof (cases c)
  case (Body_callback status data)
  with assms show ?thesis
    by (simp add: http_body_def Let_def http_body_taken)
next
  case (Header_callback data)
  have "http_ok (s\<lparr>hi_header_bytes := hi_header_bytes s + length data\<rparr>) \<and> unread (s\<lparr>hi_header_bytes := hi_header_bytes s + length data\<rparr>) = unread s"
    if "\<not> length data > http_budget - hi_header_bytes s"
    using that assms by (auto simp: http_ok_def unread_def split: list.splits)
  with Header_callback assms show ?thesis
    by (simp add: http_header_def Let_def)
next
  case (Socket_callback ip address)
  with assms show ?thesis
    by (simp add: http_socket_def)
qed

interpretation http_callbacks: invariant_machine http_callback_step http_ok
  by unfold_locales (simp add: http_callback_keeps)

lemma http_callbacks_unread: "http_ok s \<Longrightarrow> unread (fold http_callback_step cs s) = unread s @ accepted_bytes cs s"
  by (induction cs arbitrary: s) (simp_all add: http_callback_keeps)

lemma http_done_keeps:
  "http_ok (fold (\<lambda>ok s. s\<lparr>hi_finished := True, hi_result_ok := ok\<rparr>) ds s) = http_ok s \<and>
   unread (fold (\<lambda>ok s. s\<lparr>hi_finished := True, hi_result_ok := ok\<rparr>) ds s) = unread s"
  by (induction ds arbitrary: s) simp_all

lemma http_check_state: "fst (http_check c s) = s"
  by (simp add: http_check_def split: option.split)

text \<open>What a round brings.\<close>

definition round_bytes :: "http_round \<Rightarrow> http_input \<Rightarrow> string" where
  "round_bytes r s =
     (if hi_paused s then accepted_bytes (fst (rd_resume r)) (s\<lparr>hi_paused := False\<rparr>) else []) @
     (if snd (http_resume r s) = None then accepted_bytes (fst (rd_perform r)) (fst (http_resume r s)) else [])"

lemma http_resume_keeps:
  assumes "http_ok s"
  shows "http_ok (fst (http_resume r s)) \<and>
    unread (fst (http_resume r s)) = unread s @ (if hi_paused s then accepted_bytes (fst (rd_resume r)) (s\<lparr>hi_paused := False\<rparr>) else [])"
  using assms http_callbacks.fold_inv [of "s\<lparr>hi_paused := False\<rparr>"] http_callbacks_unread [of "s\<lparr>hi_paused := False\<rparr>"]
  by (simp add: http_resume_def Let_def http_check_state)

lemma http_perform_keeps:
  assumes "http_ok s"
  shows "http_ok (fst (http_perform r s)) \<and> unread (fst (http_perform r s)) = unread s @ accepted_bytes (fst (rd_perform r)) s"
proof -
  let ?s = "fold http_callback_step (fst (rd_perform r)) s"
  have s: "http_ok ?s" "unread ?s = unread s @ accepted_bytes (fst (rd_perform r)) s"
    using assms http_callbacks.fold_inv http_callbacks_unread by blast+
  obtain e where c: "http_check (snd (rd_cancelled r)) ?s = (?s, e)"
    using http_check_state by (metis prod.collapse)
  show ?thesis
    using s http_done_keeps [of "rd_done r" ?s] by (cases e) (simp_all add: http_perform_def Let_def c)
qed

lemma http_round_keeps:
  assumes "http_ok s"
  shows "http_ok (fst (and_then (http_resume r s) (http_perform r))) \<and>
    unread (fst (and_then (http_resume r s) (http_perform r))) = unread s @ round_bytes r s"
  using http_resume_keeps [OF assms, of r] http_perform_keeps [of "fst (http_resume r s)" r]
  by (cases "http_resume r s"; cases "snd (http_resume r s)") (simp_all add: round_bytes_def)

lemma http_take_keeps:
  assumes "http_ok s" "hi_pending s \<noteq> []" "0 < capacity" "http_take capacity pause_ok s = (s', r)"
  shows "http_ok s' \<and> (\<exists>data. data \<noteq> [] \<and> length data \<le> capacity \<and> data @ unread s' = unread s \<and>
    (r = Inr data \<or> r = Inl (Failure UNAVAILABLE ''HTTP backpressure pause failed'')))"
proof -
  obtain b rest where b: "hi_pending s = b # rest"
    using assms(2) by (cases "hi_pending s") auto
  let ?n = "min capacity (length b - hi_offset s)"
  define data where "data = take ?n (drop (hi_offset s) b)"
  define t where "t = (if hi_offset s + ?n = length b then s\<lparr>hi_offset := 0, hi_bytes := hi_bytes s - ?n, hi_pending := rest\<rparr>
    else s\<lparr>hi_offset := hi_offset s + ?n, hi_bytes := hi_bytes s - ?n\<rparr>)"
  have off: "hi_offset s < length b" "hi_bytes s = length (unread s)" "hi_bytes s \<le> http_budget" "hi_header_bytes s \<le> http_budget"
    "\<forall>x \<in> set rest. x \<noteq> []"
    using assms(1) by (auto simp: http_ok_def b)
  have data: "length data = ?n" "data \<noteq> []"
    using off(1) assms(3) by (auto simp: data_def)
  have split: "data @ unread t = unread s"
    using off(1) by (auto simp: t_def unread_def b data_def) (metis append_assoc append_take_drop_id drop_drop add.commute)
  moreover have "http_ok t"
  proof -
    have "length data + length (unread t) = length (unread s)"
      using split by (metis length_append)
    moreover have "hi_bytes t = hi_bytes s - ?n"
      by (simp add: t_def)
    ultimately have "hi_bytes t = length (unread t)"
      using data(1) off(2) by linarith
    moreover have "hi_bytes t \<le> http_budget"
      using off(3) \<open>hi_bytes t = hi_bytes s - ?n\<close> by linarith
    moreover have "hi_header_bytes t \<le> http_budget"
      using off(4) by (simp add: t_def)
    moreover have "(\<forall>x \<in> set (hi_pending t). x \<noteq> []) \<and> (case hi_pending t of [] \<Rightarrow> hi_offset t = 0 | x # _ \<Rightarrow> hi_offset t < length x)"
      using off(1,5) b by (cases rest) (auto simp: t_def min_def)
    ultimately show ?thesis
      by (simp add: http_ok_def)
  qed
  moreover have "s' = t \<or> s' = t\<lparr>hi_paused := True\<rparr>" "r = Inr data \<or> r = Inl (Failure UNAVAILABLE ''HTTP backpressure pause failed'')"
    using assms(4) by (auto simp: http_take_def Let_def b data_def t_def split: if_splits)
  ultimately show ?thesis
    using data by (metis http_ok_flags(1,2) min.cobounded1)
qed

text \<open>The bytes that callbacks leave in the buffer while a call of \<open>read\<close> lasts.\<close>

fun loop_bytes :: "http_round list \<Rightarrow> http_input \<Rightarrow> string" where
  "loop_bytes [] s = []"
| "loop_bytes (r # rest) s =
     (if hi_error s \<noteq> None \<or> hi_pending s \<noteq> [] \<or> hi_finished s then []
      else round_bytes r s @
        (case and_then (http_resume r s) (http_perform r) of (s1, None) \<Rightarrow> loop_bytes rest s1 | (s1, Some e) \<Rightarrow> []))"

lemma http_check_ok: "http_check c s = (t, None) \<Longrightarrow> hi_error s = None"
  by (simp add: http_check_def split: option.splits)

text \<open>A call that returns: with data, or at the end of a good response.\<close>

lemma http_loop_returns:
  assumes "http_ok s" "0 < capacity" "http_loop capacity pause_ok status cancelled rounds s = (s', Some (Inr data))"
  shows "http_ok s' \<and> length data \<le> capacity \<and> data @ unread s' = unread s @ loop_bytes rounds s \<and>
    (data = [] \<longrightarrow> unread s' = [] \<and> hi_finished s' \<and> hi_result_ok s' \<and> 200 \<le> status \<and> status < 300)"
  using assms(1,3)
proof (induction rounds arbitrary: s cancelled)
  case Nil
  note run = Nil.prems(2) [unfolded http_loop.simps [of _ _ _ _ "[]"]]
  show ?case
  proof (cases "hi_pending s = []")
    case True
    with run Nil.prems(1) show ?thesis
      by (auto simp: http_end_def unread_def http_ok_def split: prod.splits option.splits if_splits)
  next
    case False
    with run obtain r where "http_take capacity pause_ok s = (s', r)" "r = Inr data"
      by (auto split: prod.splits option.splits)
    with http_take_keeps [OF Nil.prems(1) False assms(2)] show ?thesis
      by fastforce
  qed
next
  case (Cons r rest)
  note run = Cons.prems(2) [unfolded http_loop.simps [of _ _ _ _ "r # rest"]]
  have checked: "hi_error s = None"
    using run by (auto split: prod.splits option.splits dest: http_check_ok)
  show ?case
  proof (cases "hi_pending s = []")
    case False
    with run obtain x where "http_take capacity pause_ok s = (s', x)" "x = Inr data"
      by (auto split: prod.splits option.splits)
    with http_take_keeps [OF Cons.prems(1) False assms(2)] False show ?thesis
      by fastforce
  next
    case empty: True
    show ?thesis
    proof (cases "hi_finished s")
      case True
      with run empty Cons.prems(1) show ?thesis
        by (auto simp: http_end_def unread_def http_ok_def split: prod.splits option.splits if_splits)
    next
      case False
      with run empty obtain s1 where s1: "and_then (http_resume r s) (http_perform r) = (s1, None)"
        "http_loop capacity pause_ok status (tl cancelled) rest s1 = (s', Some (Inr data))"
        by (auto split: prod.splits option.splits)
      have "http_ok s1" "unread s1 = unread s @ round_bytes r s"
        using http_round_keeps [OF Cons.prems(1), of r] s1(1) by simp_all
      with Cons.IH [OF this(1) s1(2)] empty False checked s1(1) show ?thesis
        by simp
    qed
  qed
qed

text \<open>C33: the reader gets the response entity, all of it and in order, in bounded memory. A call of \<open>read\<close>
  that returns hands out the oldest unread bytes, at most what was asked for; what it returns and what
  stays unread is what was unread and what the callbacks have taken meanwhile; at most 64 KiB stay
  unread. It returns nothing only when the transfer has ended well, with a
  successful status and nothing left to read.\<close>

theorem http_read_lossless:
  assumes "http_ok s" "http_read capacity pause_ok status cancelled rounds s = (s', Some (Inr data))"
  shows "http_ok s' \<and> length data \<le> capacity \<and> length (unread s') \<le> 65536 \<and> data @ unread s' = unread s @ loop_bytes rounds s \<and>
    (data = [] \<longrightarrow> unread s' = [] \<and> hi_finished s' \<and> hi_result_ok s' \<and> 200 \<le> status \<and> status < 300)"
proof -
  have c: "0 < capacity" and run: "http_loop capacity pause_ok status cancelled rounds s = (s', Some (Inr data))"
    using assms(2) by (auto simp: http_read_def split: if_splits)
  from http_loop_returns [OF assms(1) c run] show ?thesis
    by (auto simp: http_ok_def http_budget_def)
qed

definition demo_policy :: http_policy where
  "demo_policy = \<lparr>hp_allowed_origins = {''http://radio:80''}, hp_allow_private_addresses = False\<rparr>"

definition demo_parse :: "string \<Rightarrow> url_parts option" where
  "demo_parse url = Some \<lparr>up_scheme = ''http'', up_host = ''RADIO'', up_port = ''80'', up_user = False, up_password = False, up_fragment = False\<rparr>"

definition demo_round :: http_round where
  "demo_round = \<lparr>rd_resume = ([], True), rd_perform = ([Socket_callback True (Inet 0x08080808), Header_callback ''Content-Length: 3'',
     Body_callback 200 ''abc''], True), rd_done = [True], rd_poll = True, rd_cancelled = (False, False)\<rparr>"

lemma http_new_ok: "http_input_new parse url policy async_dns configured = Inr s \<Longrightarrow> http_ok s"
  by (auto simp: http_input_new_def http_ok_def unread_def split: sum.splits if_splits option.splits)

lemma demo_http_new: "\<exists>s. http_input_new demo_parse ''http://RADIO'' demo_policy True None = Inr s \<and>
    \<not> hi_finished s \<and> \<not> hi_paused s \<and> hi_error s = None \<and> hi_pending s = [] \<and> hi_offset s = 0 \<and> hi_bytes s = 0 \<and> hi_header_bytes s = 0 \<and> hi_policy s = demo_policy"
proof -
  have "http_origin demo_parse ''http://RADIO'' = Inr ''http://radio:80''"
    by code_simp
  then show ?thesis
    by (simp add: http_input_new_def demo_policy_def)
qed

theorem http_read_lossless_witness:
  "\<exists>s s' data. http_input_new demo_parse ''http://RADIO'' demo_policy True None = Inr s \<and>
     http_read 2 True 200 [] [demo_round] s = (s', Some (Inr data)) \<and> data @ unread s' = unread s @ loop_bytes [demo_round] s"
proof -
  obtain s where s: "http_input_new demo_parse ''http://RADIO'' demo_policy True None = Inr s"
    "\<not> hi_finished s" "\<not> hi_paused s" "hi_error s = None" "hi_pending s = []" "hi_offset s = 0" "hi_bytes s = 0" "hi_header_bytes s = 0" "hi_policy s = demo_policy"
    using demo_http_new by blast
  have pub: "public_address (Inet 0x08080808)"
    by code_simp
  obtain s' data where r: "http_read 2 True 200 [] [demo_round] s = (s', Some (Inr data))"
    using s(2-9) pub by (simp add: http_read_def http_loop.simps http_check_def http_resume_def http_perform_def demo_round_def http_body_def
      http_header_def http_socket_def http_budget_def http_take_def Let_def ascii_lower_def)
  with http_read_lossless [OF http_new_ok [OF s(1)] r] s(1) show ?thesis
    by blast
qed

end
