(* ===== verification/Media_Service.thy ===== *)
theory Media_Service
  imports Registry
begin

text \<open>
  The media service of src/streaming/src/service.cpp: \<open>Ingest\<close> and \<open>Pull\<close>, which put a source into
  the registry, decode it and run the speech pipeline over it; \<open>Subscribe\<close>; \<open>GetServiceInfo\<close>. Other
  calls work on the registry in between: before each registry operation of a call, \<open>ie_others\<close>
  gives the operations the others have done since its last. The media decoder appears as the
  sequence of callbacks it makes; the speech pipeline as the interface \<open>Processing\<close>; both
  publish through the callbacks of the call. The digest is SHA-256 of the bytes appended; each call
  into OpenSSL can fail, as \<open>ie_openssl\<close> says.
\<close>

section \<open>Messages and state\<close>

record finish_stream =
  fs_chunk_count :: nat
  fs_byte_count :: nat
  fs_sha256 :: string

datatype ingest_request = Request_open open_stream | Request_chunk source_chunk | Request_finish finish_stream | Request_not_set

text \<open>The locals of a call, with the registry it shares; \<open>in_source\<close> are those of its read function.\<close>

record 's ingest =
  in_registry :: registry
  in_calls :: nat
  in_source :: 's
  in_sent :: "stream_event list"
  in_writes :: nat
  in_id :: string
  in_count :: nat
  in_bytes :: nat
  in_data :: string
  in_finish :: "finish_stream option"
  in_buffered :: string
  in_offset :: nat

text \<open>A callback of the decoder: it wants bytes, finds itself cancelled inside a read, or has an event.\<close>

datatype decoder_call = Decoder_read nat | Decoder_cancelled | Decoder_event stream_event

text \<open>Which calls into OpenSSL succeed: starting the digest of the source, hashing and appending the n-th chunk, and
  finishing the digest.\<close>

record openssl =
  evp_init :: bool
  evp_digest :: "nat \<Rightarrow> bool"
  evp_update :: "nat \<Rightarrow> bool"
  evp_final :: bool

text \<open>\<open>ie_item\<close> is the read function of the call, on the next item of its input.\<close>

record ('r, 's) ingest_env =
  ie_wire :: wire
  ie_now :: "nat \<Rightarrow> int \<times> int"
  ie_steady :: "nat \<Rightarrow> nat"
  ie_fresh :: string
  ie_incarnation :: string
  ie_others :: "nat \<Rightarrow> registry_call list"
  ie_delivers :: "nat \<Rightarrow> bool"
  ie_item :: "'r \<Rightarrow> 's ingest \<Rightarrow> 's ingest \<times> (exn + ingest_request)"
  ie_cancelled :: bool
  ie_decoder :: "decoder_call list \<times> exn option"
  ie_library :: string
  ie_openssl :: openssl

text \<open>\<open>ProcessingFactory\<close> and the \<open>Processing\<close> objects \<open>'p\<close> it makes, with the callback they publish by.\<close>

type_synonym 's emit_processed = "stream_event \<Rightarrow> 's \<Rightarrow> 's outcome"

record ('p, 's) processing_factory =
  pf_resolve :: "open_stream \<Rightarrow> exn + open_stream"
  pf_create :: "string \<Rightarrow> open_stream \<Rightarrow> 'p"
  pf_audio :: "'s emit_processed \<Rightarrow> audio_chunk \<Rightarrow> 'p \<times> 's \<Rightarrow> ('p \<times> 's) outcome"
  pf_finish :: "'s emit_processed \<Rightarrow> 'p \<times> 's \<Rightarrow> ('p \<times> 's) outcome"
  pf_minimum_window_advance_ms :: "nat option"

section \<open>Publishing to the registry and to the client\<close>

definition registry_call ::
  "('r, 's) ingest_env \<Rightarrow> (nat \<Rightarrow> registry \<Rightarrow> reply) \<Rightarrow> 's ingest \<Rightarrow> 's ingest \<times> (exn + stream_event)" where
  "registry_call E f g =
     (case f (in_calls g) (fold (registry_step (ie_wire E)) (ie_others E (in_calls g)) (in_registry g)) of
        (result, r) \<Rightarrow> (g\<lparr>in_registry := r, in_calls := Suc (in_calls g)\<rparr>, result))"

definition ingest_write :: "('r, 's) ingest_env \<Rightarrow> stream_event \<Rightarrow> 's ingest \<Rightarrow> 's ingest \<times> bool" where
  "ingest_write E event g =
     (let g1 = g\<lparr>in_writes := Suc (in_writes g)\<rparr> in
      if ie_delivers E (in_writes g) then (g1\<lparr>in_sent := in_sent g @ [event]\<rparr>, True) else (g1, False))"

definition ingest_send :: "('r, 's) ingest_env \<Rightarrow> stream_event \<Rightarrow> 's ingest \<Rightarrow> 's ingest outcome" where
  "ingest_send E event g =
     (case ingest_write E event g of
        (g1, True) \<Rightarrow> (g1, None)
      | (g1, False) \<Rightarrow> (g1, Some (Failure CANCELLED ''ingress response disconnected'')))"

definition publish_send :: "('r, 's) ingest_env \<Rightarrow> (nat \<Rightarrow> registry \<Rightarrow> reply) \<Rightarrow> 's ingest \<Rightarrow> 's ingest outcome" where
  "publish_send E f g =
     (case registry_call E f g of (g1, Inl e) \<Rightarrow> (g1, Some e) | (g1, Inr event) \<Rightarrow> ingest_send E event g1)"

definition send_derived :: "('r, 's) ingest_env \<Rightarrow> string \<Rightarrow> 's ingest emit_processed" where
  "send_derived E library event g =
     publish_send E (\<lambda>n. derived_op (ie_wire E) (ie_now E n) (in_id g) event library) g"

section \<open>The source\<close>

text \<open>\<open>hash\<close> is what \<open>sha256\<close> gives for the data, None when it throws.\<close>

definition chunk_refusal :: "limits \<Rightarrow> nat \<Rightarrow> nat \<Rightarrow> string option \<Rightarrow> source_chunk \<Rightarrow> exn option" where
  "chunk_refusal l count bytes hash chunk =
     (if sc_data chunk = [] then Some (Failure INVALID_ARGUMENT ''empty source chunk'')
      else if length (sc_data chunk) > max_chunk_bytes l then Some (Failure RESOURCE_EXHAUSTED ''source chunk exceeds negotiated limit'')
      else if count = uint64_max \<or> sc_chunk_number chunk \<noteq> count + 1 \<or> sc_byte_offset chunk \<noteq> bytes
      then Some (Failure INVALID_ARGUMENT ''noncontiguous source chunk number or byte offset'')
      else if length (sc_data chunk) > uint64_max - bytes then Some (Failure RESOURCE_EXHAUSTED ''source byte counter overflow'')
      else if hash = None then Some (Runtime_error ''SHA-256 failed'')
      else if sc_sha256 chunk \<noteq> [] \<and> Some (sc_sha256 chunk) \<noteq> hash then Some (Failure INVALID_ARGUMENT ''source chunk checksum mismatch'')
      else None)"

definition take_chunk :: "('r, 's) ingest_env \<Rightarrow> source_chunk \<Rightarrow> 's ingest \<Rightarrow> 's ingest outcome" where
  "take_chunk E chunk g =
     (let hash = sha256 (ie_wire E) (sc_data chunk) in
      case chunk_refusal (rg_limits (in_registry g)) (in_count g) (in_bytes g)
          (if evp_digest (ie_openssl E) (in_count g) then Some hash else None) chunk of
        Some e \<Rightarrow> (g, Some e)
      | None \<Rightarrow>
          if \<not> evp_update (ie_openssl E) (in_count g) then (g, Some (Runtime_error ''digest update failed''))
          else let g1 = g\<lparr>in_data := in_data g @ sc_data chunk, in_count := in_count g + 1, in_bytes := in_bytes g + length (sc_data chunk)\<rparr> in
          and_then (publish_send E (\<lambda>n. source_op (ie_wire E) (ie_now E n) (in_id g) (chunk\<lparr>sc_sha256 := hash\<rparr>)) g1)
            (\<lambda>g2. (g2\<lparr>in_buffered := sc_data chunk, in_offset := 0\<rparr>, None)))"

text \<open>\<open>next_chunk\<close> on the rest of the input: the input left, and whether a chunk was taken.\<close>

definition next_chunk :: "('r, 's) ingest_env \<Rightarrow> 'r list \<times> 's ingest \<Rightarrow> ('r list \<times> 's ingest) \<times> (exn + bool)" where
  "next_chunk E ig =
     (case ig of (items, g) \<Rightarrow>
        if in_finish g \<noteq> None then ((items, g), Inr False)
        else (case items of
            [] \<Rightarrow> (([], g), Inl (Failure CANCELLED ''input ended without FinishStream''))
          | item # rest \<Rightarrow> (case ie_item E item g of
                (g1, Inl e) \<Rightarrow> ((rest, g1), Inl e)
              | (g1, Inr (Request_finish f)) \<Rightarrow> ((rest, g1\<lparr>in_finish := Some f\<rparr>), Inr False)
              | (g1, Inr (Request_chunk chunk)) \<Rightarrow> (case take_chunk E chunk g1 of
                    (g2, None) \<Rightarrow> ((rest, g2), Inr True)
                  | (g2, Some e) \<Rightarrow> ((rest, g2), Inl e))
              | (g1, Inr _) \<Rightarrow> ((rest, g1), Inl (Failure INVALID_ARGUMENT ''expected a source chunk or finish'')))))"

text \<open>The decoder's read callback: bytes of the current chunk, of the next one when it is used up, or none at
  the end.\<close>

definition decoder_read :: "('r, 's) ingest_env \<Rightarrow> nat \<Rightarrow> 'r list \<times> 's ingest \<Rightarrow> ('r list \<times> 's ingest) \<times> (exn + string)" where
  "decoder_read E capacity ig =
     (case (if in_offset (snd ig) = length (in_buffered (snd ig)) then next_chunk E ig else (ig, Inr True)) of
        (ig1, Inl e) \<Rightarrow> (ig1, Inl e)
      | (ig1, Inr False) \<Rightarrow> (ig1, Inr [])
      | ((items, g), Inr True) \<Rightarrow>
          let size = min (length (in_buffered g) - in_offset g) capacity in
          ((items, g\<lparr>in_offset := in_offset g + size\<rparr>), Inr (take size (drop (in_offset g) (in_buffered g)))))"

section \<open>Decoding\<close>

definition is_audio :: "stream_event \<Rightarrow> audio_chunk option" where
  "is_audio event = (case ev_payload event of Audio a \<Rightarrow> Some a | _ \<Rightarrow> None)"

definition decoder_emit ::
  "('r, 's) ingest_env \<Rightarrow> ('p, 's ingest) processing_factory option \<Rightarrow> open_stream \<Rightarrow> stream_event \<Rightarrow> 'p option \<times> 's ingest \<Rightarrow>
   ('p option \<times> 's ingest) outcome" where
  "decoder_emit E P accepted event pg =
     and_then
       (case (P, fst pg, is_audio event) of
          (Some pf, Some p, Some audio) \<Rightarrow>
            (case pf_audio pf (send_derived E []) audio (p, snd pg) of ((p1, g1), e) \<Rightarrow> ((Some p1, g1), e))
        | _ \<Rightarrow> (pg, None))
       (\<lambda>(p, g). if is_audio event = None \<or> emits_audio accepted
          then (case send_derived E (ie_library E) event g of (g1, e) \<Rightarrow> ((p, g1), e))
          else ((p, g), None))"

text \<open>
  \<open>decode_media\<close> as its callbacks see it. An exception of the read callback is kept while libavformat
  returns and thrown before the next event; an exception of the other callback leaves at once.
\<close>

fun decode_calls ::
  "('r, 's) ingest_env \<Rightarrow> ('p, 's ingest) processing_factory option \<Rightarrow> open_stream \<Rightarrow> exn option \<Rightarrow> decoder_call list \<Rightarrow> exn option \<Rightarrow>
   'r list \<times> 'p option \<times> 's ingest \<Rightarrow> ('r list \<times> 'p option \<times> 's ingest) outcome" where
  "decode_calls E P accepted ending [] pending ipg = (ipg, case pending of Some e \<Rightarrow> Some e | None \<Rightarrow> ending)"
| "decode_calls E P accepted ending (Decoder_read n # calls) pending (items, p, g) =
     (case decoder_read E n (items, g) of
        ((items1, g1), Inl e) \<Rightarrow> decode_calls E P accepted ending calls (Some e) (items1, p, g1)
      | ((items1, g1), Inr _) \<Rightarrow> decode_calls E P accepted ending calls pending (items1, p, g1))"
| "decode_calls E P accepted ending (Decoder_cancelled # calls) pending ipg =
     decode_calls E P accepted ending calls (Some (Failure CANCELLED ''media decode cancelled'')) ipg"
| "decode_calls E P accepted ending (Decoder_event event # calls) pending (items, p, g) =
     (case pending of
        Some e \<Rightarrow> ((items, p, g), Some e)
      | None \<Rightarrow> (case decoder_emit E P accepted event (p, g) of
          ((p1, g1), Some e) \<Rightarrow> ((items, p1, g1), Some e)
        | ((p1, g1), None) \<Rightarrow> decode_calls E P accepted ending calls None (items, p1, g1)))"

lemma next_chunk_shorter: "next_chunk E ig = (ig', Inr True) \<Longrightarrow> length (fst ig') < length (fst ig)"
  by (auto simp: next_chunk_def split: prod.splits if_splits list.splits sum.splits ingest_request.splits option.splits)

text \<open>\<open>while (next_chunk()) {}\<close>\<close>

function drain_source :: "('r, 's) ingest_env \<Rightarrow> 'r list \<times> 's ingest \<Rightarrow> ('r list \<times> 's ingest) outcome" where
  "drain_source E ig =
     (case next_chunk E ig of
        (ig1, Inl e) \<Rightarrow> (ig1, Some e)
      | (ig1, Inr False) \<Rightarrow> (ig1, None)
      | (ig1, Inr True) \<Rightarrow> drain_source E ig1)"
  by pat_completeness auto
termination
  by (relation "measure (\<lambda>(E, ig). length (fst ig))") (auto dest!: next_chunk_shorter [OF sym])

declare drain_source.simps [simp del]

section \<open>The call\<close>

definition ingest_new :: "'s \<Rightarrow> registry \<Rightarrow> 's ingest" where
  "ingest_new source r = \<lparr>in_registry = r, in_calls = 0, in_source = source, in_sent = [], in_writes = 0, in_id = [], in_count = 0,
     in_bytes = 0, in_data = [], in_finish = None, in_buffered = [], in_offset = 0\<rparr>"

definition resolve_open ::
  "('p, 'x) processing_factory option \<Rightarrow> open_stream \<Rightarrow> exn + open_stream" where
  "resolve_open P q =
     (if os_speech q = [] then Inr q
      else (case P of
          None \<Rightarrow> Inl (Failure UNIMPLEMENTED ''speech worker is not configured'')
        | Some pf \<Rightarrow> pf_resolve pf q))"

text \<open>From the decoder to the end of the inner \<open>try\<close>.\<close>

definition check_finish :: "'s ingest \<Rightarrow> 's ingest outcome" where
  "check_finish g =
     (case in_finish g of
        None \<Rightarrow> (g, Some (Failure CANCELLED ''input ended without FinishStream''))
      | Some f \<Rightarrow> if fs_chunk_count f \<noteq> in_count g \<or> fs_byte_count f \<noteq> in_bytes g
          then (g, Some (Failure INVALID_ARGUMENT ''finish accounting mismatch'')) else (g, None))"

definition finish_processing ::
  "('r, 's) ingest_env \<Rightarrow> ('p, 's ingest) processing_factory option \<Rightarrow> 'p option \<Rightarrow> 's ingest \<Rightarrow> 's ingest outcome" where
  "finish_processing E P p g =
     (case (P, p) of
        (Some pf, Some p) \<Rightarrow> (case pf_finish pf (send_derived E []) (p, g) of ((p1, g1), e) \<Rightarrow> (g1, e))
      | _ \<Rightarrow> (g, None))"

definition stream_body ::
  "('r, 's) ingest_env \<Rightarrow> ('p, 's ingest) processing_factory option \<Rightarrow> open_stream \<Rightarrow> 'r list \<Rightarrow> 's ingest \<Rightarrow> 's ingest outcome" where
  "stream_body E P accepted items g =
     (let p = (case P of Some pf \<Rightarrow> if os_speech accepted \<noteq> [] then Some (pf_create pf (in_id g) accepted) else None | None \<Rightarrow> None);
          decoding = (os_decode accepted \<noteq> None \<or> os_speech accepted \<noteq> []);
          decoded = (if decoding then decode_calls E P accepted (snd (ie_decoder E)) (fst (ie_decoder E)) None (items, p, g) else ((items, p, g), None)) in
      case decoded of
        ((items1, p1, g1), Some e) \<Rightarrow> (g1, Some e)
      | ((items1, p1, g1), None) \<Rightarrow> (case drain_source E (items1, g1) of
            ((items2, g2), Some e) \<Rightarrow> (g2, Some e)
          | ((items2, g2), None) \<Rightarrow> and_then (check_finish g2) (finish_processing E P p1)))"

text \<open>The inner \<open>try\<close>: open, announce, run.\<close>

definition ingest_body ::
  "('r, 's) ingest_env \<Rightarrow> ('p, 's ingest) processing_factory option \<Rightarrow> bool \<Rightarrow> 'r list \<Rightarrow> 's ingest \<Rightarrow> 's ingest outcome" where
  "ingest_body E P http items g =
     (case items of
        [] \<Rightarrow> (g, Some (Failure INVALID_ARGUMENT ''first message must open a stream''))
      | item # rest \<Rightarrow> (case ie_item E item g of
            (g1, Inl e) \<Rightarrow> (g1, Some e)
          | (g1, Inr (Request_open q)) \<Rightarrow> (case resolve_open P q of
                Inl e \<Rightarrow> (g1, Some e)
              | Inr accepted \<Rightarrow> (case registry_call E (\<lambda>n. open_op (ie_wire E) (ie_now E n) (ie_fresh E) (ie_incarnation E) accepted (P \<noteq> None) http) g1 of
                    (g2, Inl e) \<Rightarrow> (g2, Some e)
                  | (g2, Inr opened) \<Rightarrow>
                      and_then (ingest_send E opened (g2\<lparr>in_id := cu_stream_id (ev_cursor opened)\<rparr>)) (stream_body E P accepted rest)))
          | (g1, Inr _) \<Rightarrow> (g1, Some (Failure INVALID_ARGUMENT ''first message must open a stream''))))"

definition body_status :: "exn option \<Rightarrow> status" where
  "body_status e = (case e of
      None \<Rightarrow> Status OK []
    | Some (Failure code m) \<Rightarrow> Status code m
    | Some _ \<Rightarrow> Status INTERNAL ''ingress processing failed'')"

definition final_status :: "('r, 's) ingest_env \<Rightarrow> exn option \<Rightarrow> 's ingest \<Rightarrow> status" where
  "final_status E e g =
     (let hash = sha256 (ie_wire E) (in_data g);
          sha = (case in_finish g of Some f \<Rightarrow> fs_sha256 f | None \<Rightarrow> []);
          status = (if status_ok (body_status e) \<and> sha \<noteq> [] \<and> sha \<noteq> hash
            then Status INVALID_ARGUMENT ''complete source checksum mismatch'' else body_status e)
      in if ie_cancelled E then Status CANCELLED ''ingress cancelled'' else status)"

definition closed_of :: "('r, 's) ingest_env \<Rightarrow> status \<Rightarrow> 's ingest \<Rightarrow> stream_closed" where
  "closed_of E status g = \<lparr>cl_status_code = error_code status, cl_message = error_message status, cl_source_chunk_count = in_count g,
     cl_source_byte_count = in_bytes g, cl_source_sha256 = sha256 (ie_wire E) (in_data g)\<rparr>"

text \<open>The terminal state is published even when the client has left.\<close>

definition ingest_close :: "('r, 's) ingest_env \<Rightarrow> status \<Rightarrow> 's ingest \<Rightarrow> 's ingest \<times> status" where
  "ingest_close E status g =
     (case registry_call E (\<lambda>n. close_op (ie_wire E) (ie_now E n) (ie_steady E n) (in_id g) (closed_of E status g)) g of
        (g1, Inl e) \<Rightarrow> (g1, Status INTERNAL ''ingress finalization failed'')
      | (g1, Inr event) \<Rightarrow> (case ingest_write E event g1 of
            (g2, False) \<Rightarrow> (g2, if status_ok status then Status CANCELLED ''terminal response disconnected'' else status)
          | (g2, True) \<Rightarrow> (g2, status)))"

text \<open>
  The outer \<open>try\<close>: the digest of the source is started before the stream is opened and finished before it
  is closed. A digest that cannot be started ends the call at once; one that cannot be finished skips \<open>registry_.close\<close>.
\<close>

definition process ::
  "('r, 's) ingest_env \<Rightarrow> ('p, 's ingest) processing_factory option \<Rightarrow> bool \<Rightarrow> 'r list \<Rightarrow> 's ingest \<Rightarrow> 's ingest \<times> status" where
  "process E P http items g0 =
     (if \<not> evp_init (ie_openssl E) then (g0, Status INTERNAL ''ingress finalization failed'')
      else case ingest_body E P http items g0 of (g, e) \<Rightarrow>
        if in_id g = [] then (g, body_status e)
        else if \<not> evp_final (ie_openssl E) then (g, Status INTERNAL ''ingress finalization failed'')
        else ingest_close E (final_status E e g) g)"

section \<open>Ingest\<close>

text \<open>The client's messages are the input.\<close>

definition wire_item :: "ingest_request \<Rightarrow> unit ingest \<Rightarrow> unit ingest \<times> (exn + ingest_request)" where
  "wire_item request g = (g, Inr request)"

definition ingest_call ::
  "(ingest_request, unit) ingest_env \<Rightarrow> ('p, unit ingest) processing_factory option \<Rightarrow> ingest_request list \<Rightarrow> registry \<Rightarrow> unit ingest \<times> status" where
  "ingest_call E P requests r = process (E\<lparr>ie_item := wire_item\<rparr>) P False requests (ingest_new () r)"

section \<open>Pull\<close>

text \<open>The locals of \<open>Pull\<close>, and what its read function meets: the open message it makes itself, then what
  \<open>input.read\<close> gives or throws, with the status code the transfer has then.\<close>

record pull_source =
  pu_count :: nat
  pu_bytes :: nat
  pu_described :: bool

datatype pull_item = Pull_first | Pull_read "exn + string" int

record pull_env =
  pe_accepted :: open_stream
  pe_http_info :: "int \<Rightarrow> string"
  pe_library :: string

definition pull_describe :: "(pull_item, pull_source) ingest_env \<Rightarrow> pull_env \<Rightarrow> int \<Rightarrow> pull_source ingest \<Rightarrow> pull_source ingest outcome" where
  "pull_describe E A code g =
     (if pu_described (in_source g) \<or> code = 0 then (g, None)
      else (case registry_call E (\<lambda>n. derived_op (ie_wire E) (ie_now E n) (os_stream_id (pe_accepted A))
              (blank_event (Http_info (pe_http_info A code))) (pe_library A)) g of
          (g1, Inl e) \<Rightarrow> (g1, Some e)
        | (g1, Inr event) \<Rightarrow> (case ingest_write E event g1 of
              (g2, False) \<Rightarrow> (g2, Some (Failure CANCELLED ''HTTP source response disconnected''))
            | (g2, True) \<Rightarrow> (g2\<lparr>in_source := (in_source g2)\<lparr>pu_described := True\<rparr>\<rparr>, None))))"

definition pull_chunk :: "string \<Rightarrow> pull_source ingest \<Rightarrow> pull_source ingest \<times> (exn + ingest_request)" where
  "pull_chunk data g =
     (let u = in_source g in
      if pu_count u = uint64_max \<or> length data > uint64_max - pu_bytes u
      then (g, Inl (Failure RESOURCE_EXHAUSTED ''HTTP source accounting overflow''))
      else (g\<lparr>in_source := u\<lparr>pu_count := pu_count u + 1, pu_bytes := pu_bytes u + length data\<rparr>\<rparr>,
            Inr (Request_chunk \<lparr>sc_chunk_number = pu_count u + 1, sc_byte_offset = pu_bytes u, sc_data = data, sc_sha256 = []\<rparr>)))"

definition pull_item_read ::
  "(pull_item, pull_source) ingest_env \<Rightarrow> pull_env \<Rightarrow> pull_item \<Rightarrow> pull_source ingest \<Rightarrow> pull_source ingest \<times> (exn + ingest_request)" where
  "pull_item_read E A item g =
     (case item of
        Pull_first \<Rightarrow> (g, Inr (Request_open (pe_accepted A)))
      | Pull_read result code \<Rightarrow> (case pull_describe E A code g of
            (g1, Some e) \<Rightarrow> (g1, Inl e)
          | (g1, None) \<Rightarrow> (case result of
                Inl e \<Rightarrow> (g1, Inl e)
              | Inr data \<Rightarrow> if data = []
                  then (g1, Inr (Request_finish \<lparr>fs_chunk_count = pu_count (in_source g1), fs_byte_count = pu_bytes (in_source g1), fs_sha256 = []\<rparr>))
                  else pull_chunk data g1)))"

text \<open>\<open>input\<close> is the outcome of constructing the HTTP source; \<open>reads\<close> what its reads give.\<close>

definition pull_call ::
  "(pull_item, pull_source) ingest_env \<Rightarrow> pull_env \<Rightarrow> ('p, pull_source ingest) processing_factory option \<Rightarrow> open_stream option \<Rightarrow> exn option \<Rightarrow>
   string \<Rightarrow> ((exn + string) \<times> int) list \<Rightarrow> registry \<Rightarrow> pull_source ingest \<times> status" where
  "pull_call E A P request input fresh reads r =
     (let g0 = ingest_new \<lparr>pu_count = 0, pu_bytes = 0, pu_described = False\<rparr> r;
          failed = (\<lambda>e. case e of Failure code m \<Rightarrow> Status code m | _ \<Rightarrow> Status INTERNAL ''HTTP pull initialization failed'') in
      case request of
        None \<Rightarrow> (g0, Status INVALID_ARGUMENT ''Pull requires an HTTP source'')
      | Some q \<Rightarrow> (case os_source q of
            Http_source url credential_profile \<Rightarrow>
              if credential_profile \<noteq> [] then (g0, Status UNIMPLEMENTED ''HTTP credential profiles are not implemented'')
              else (case input of
                  Some e \<Rightarrow> (g0, failed e)
                | None \<Rightarrow>
                    let A1 = A\<lparr>pe_accepted := (if os_stream_id q = [] then q\<lparr>os_stream_id := fresh\<rparr> else q)\<rparr> in
                    process (E\<lparr>ie_item := pull_item_read E A1\<rparr>) P True (Pull_first # map (\<lambda>(result, code). Pull_read result code) reads) g0)
          | _ \<Rightarrow> (g0, Status INVALID_ARGUMENT ''Pull requires an HTTP source'')))"

section \<open>Subscribe and GetServiceInfo\<close>

text \<open>
  One turn of the listener's loop: whether the call is cancelled, the registry operations of the others
  before its mailbox is looked at, and whether a write reaches the client.
\<close>

record listen_turn =
  lt_cancelled :: bool
  lt_others :: "registry_call list"
  lt_delivers :: bool

definition mailbox :: "nat \<Rightarrow> registry \<Rightarrow> subscription option" where
  "mailbox key r = List.find (\<lambda>s. sub_key s = key) (rg_subscribers r)"

text \<open>The loop, over the turns it has made so far; the responses written, and the status once it has
  returned.\<close>

fun listen :: "wire \<Rightarrow> nat \<Rightarrow> listen_turn list \<Rightarrow> registry \<Rightarrow> subscribe_response list \<Rightarrow> registry \<times> subscribe_response list \<times> status option" where
  "listen W key [] r sent = (r, sent, None)"
| "listen W key (turn # turns) r sent =
     (if lt_cancelled turn
      then (registry_step W (Call_cancel key) r, sent, Some (Status CANCELLED ''subscription disconnected''))
      else let r1 = fold (registry_step W) (lt_others turn) r in
        (case mailbox key r1 of
           None \<Rightarrow> (r1, sent, None)
         | Some sub \<Rightarrow> (case fst (sub_next W sub) of
               Some response \<Rightarrow>
                 let r2 = registry_step W (Call_next key) r1 in
                 if lt_delivers turn then listen W key turns r2 (sent @ [response])
                 else (registry_step W (Call_cancel key) r2, sent, Some (Status CANCELLED ''subscription disconnected''))
             | None \<Rightarrow> if sub_stopped sub then (r1, sent, Some (sub_status sub)) else listen W key turns r1 sent)))"

definition subscribe_call :: "wire \<Rightarrow> string \<Rightarrow> subscribe_request \<Rightarrow> listen_turn list \<Rightarrow> registry \<Rightarrow> registry \<times> subscribe_response list \<times> status option" where
  "subscribe_call W snapshot_id request turns r =
     (case subscribe W snapshot_id request r of
        (Inl (Failure code m), r1) \<Rightarrow> (r1, [], Some (Status code m))
      | (Inl _, r1) \<Rightarrow> (r1, [], Some (Status INTERNAL ''subscription failed''))
      | (Inr sub, r1) \<Rightarrow> (case listen W (sub_key sub) turns r1 [] of
            (r2, sent, Some status) \<Rightarrow> (registry_step W (Call_release (sub_key sub)) r2, sent, Some status)
          | (r2, sent, None) \<Rightarrow> (r2, sent, None)))"

record media_service_info =
  mi_producer :: producer
  mi_server_epoch :: string
  mi_max_chunk_bytes :: nat
  mi_retention_bytes :: nat
  mi_subscriber_queue_bytes :: nat
  mi_max_streams :: nat
  mi_max_subscribers :: nat
  mi_http_pull_configured :: bool
  mi_speech_processing_configured :: bool
  mi_minimum_window_advance_ms :: "nat option"

definition get_media_service_info :: "('p, 's) processing_factory option \<Rightarrow> string set \<Rightarrow> registry \<Rightarrow> media_service_info" where
  "get_media_service_info P allowed_origins r =
     (let l = rg_limits r in
      \<lparr>mi_producer = rg_producer r, mi_server_epoch = rg_epoch r, mi_max_chunk_bytes = max_chunk_bytes l, mi_retention_bytes = retention_bytes l,
       mi_subscriber_queue_bytes = subscriber_bytes l, mi_max_streams = max_streams l, mi_max_subscribers = max_subscribers l,
       mi_http_pull_configured = (allowed_origins \<noteq> {}), mi_speech_processing_configured = (P \<noteq> None),
       mi_minimum_window_advance_ms = (case P of Some pf \<Rightarrow> pf_minimum_window_advance_ms pf | None \<Rightarrow> None)\<rparr>)"

end
