(* ===== verification/Media_Service_Proofs.thy ===== *)
theory Media_Service_Proofs
  imports Media_Service Registry_Delivery
begin

text \<open>
  What an ingest call guarantees, whatever the other calls do to other streams of the registry in between:
  an opened stream is closed, with true counts and hash, unless OpenSSL cannot finish the digest, and a call that returns OK has taken the
  client's whole source, published it in order and shown the client every event of the stream.
\<close>

section \<open>The stream in the registry\<close>

definition open_at :: "wire \<Rightarrow> string \<Rightarrow> registry \<Rightarrow> stream \<Rightarrow> bool" where
  "open_at W i r s \<longleftrightarrow> registry_ok W r \<and> map_of (rg_streams r) i = Some s \<and> \<not> st_closed s"

text \<open>Calls of other RPCs: they do not write to stream \<open>i\<close>. Opening it is refused while it is there.\<close>

fun spares :: "string \<Rightarrow> registry_call \<Rightarrow> bool" where
  "spares i (Call_source now j chunk) = (j \<noteq> i)"
| "spares i (Call_close now steady j closed) = (j \<noteq> i)"
| "spares i (Call_derived now j event library) = (j \<noteq> i)"
| "spares i _ = True"

lemma publish_other:
  assumes "registry_ok W r" "j \<noteq> i"
  shows "map_of (rg_streams (snd (publish W now j t e r))) i = map_of (rg_streams r) i"
  using assms registry_ok_keys [OF assms(1)] by (simp add: publish_streams)

lemma find_open_other: "find_open m j r = Inr t \<Longrightarrow> \<exists>s. map_of (rg_streams r) j = Some s"
  by (auto dest: find_open_Inr)

lemma step_spares:
  assumes "open_at W i r s" "spares i c"
  shows "open_at W i (registry_step W c r) s"
proof -
  have ok: "registry_ok W r" and s: "map_of (rg_streams r) i = Some s" "\<not> st_closed s"
    using assms(1) by (simp_all add: open_at_def)
  have "map_of (rg_streams (registry_step W c r)) i = Some s"
  proof (cases c)
    case (Call_open now fresh incarnation q sp ht)
    have room: "map_of (rg_streams (make_room r)) i = Some s" "registry_ok W (make_room r)"
      using make_room_active [OF ok s] make_room_ok [OF ok] by simp_all
    have "j \<noteq> i" if "map_of (rg_streams r) j = None" for j
      using that s(1) by auto
    with room s(1) publish_other [OF room(2)] show ?thesis
      by (auto simp: Call_open open_op_def Let_def answer_def split: option.splits)
  next
    case (Call_source now j chunk)
    with assms(2) s publish_other [OF ok] show ?thesis
      by (simp add: source_op_def answer_def split: sum.split)
  next
    case (Call_close now steady j closed)
    with assms(2) s publish_other [OF ok] show ?thesis
      by (simp add: close_op_def answer_def split: sum.split)
  next
    case (Call_derived now j event library)
    with assms(2) have j: "j \<noteq> i"
      by simp
    show ?thesis
    proof (cases rule: derived_op_cases [of W now j event library r])
      case (accepted t e n)
      with j s publish_other [OF ok j] show ?thesis
        by (simp add: Call_derived answer_def)
    qed (use s in \<open>simp add: Call_derived\<close>)
  qed (use s in \<open>simp_all add: listener_streams on_sub_def\<close>)
  with registry_calls.step_inv [OF ok] s(2) show ?thesis
    by (simp add: open_at_def)
qed

lemma others_spare: "open_at W i r s \<Longrightarrow> list_all (spares i) cs \<Longrightarrow> open_at W i (fold (registry_step W) cs r) s"
  by (induction cs arbitrary: r) (simp_all add: step_spares)

text \<open>An operation that publishes to the stream: refused without a trace, or with the next number.\<close>

definition publishes :: "wire \<Rightarrow> string \<Rightarrow> (nat \<Rightarrow> registry \<Rightarrow> reply) \<Rightarrow> (stream_event \<Rightarrow> bool) \<Rightarrow> bool" where
  "publishes W i f q \<longleftrightarrow> (\<forall>n r s. open_at W i r s \<longrightarrow>
     (case f n r of (Inl e, r') \<Rightarrow> r' = r
      | (Inr event, r') \<Rightarrow> q event \<and> sequence_of event = Suc (st_sequence s) \<and>
          (\<exists>s'. open_at W i r' s' \<and> st_sequence s' = Suc (st_sequence s))))"

lemma publish_numbered:
  assumes "open_at W i r s" "publishable W r i t" "\<not> st_closed t" "st_sequence t = st_sequence s"
  shows "sequence_of (fst (publish W now i t e r)) = Suc (st_sequence s) \<and> ev_payload (fst (publish W now i t e r)) = ev_payload e \<and>
    (\<exists>s'. open_at W i (snd (publish W now i t e r)) s' \<and> st_sequence s' = Suc (st_sequence s))"
proof -
  have ok: "registry_ok W r" and i: "i \<in> fst ` set (rg_streams r)"
    using assms(1) registered_stream_ok(2) [of W r i s] by (auto simp: open_at_def)
  have "registry_ok W (snd (publish W now i t e r))"
    by (rule publish_ok [OF ok assms(2)]) (use i in simp)
  moreover have "st_sequence (retain W (retention_bytes (rg_limits r)) (stamp now (rg_epoch r) i t e) t) = Suc (st_sequence s)"
    "\<not> st_closed (retain W (retention_bytes (rg_limits r)) (stamp now (rg_epoch r) i t e) t)"
    using assms(3,4) by simp_all
  ultimately show ?thesis
    using registry_ok_keys [OF ok] assms(4) by (simp add: open_at_def publish_streams publish_def Let_def)
qed

lemma publishesI:
  assumes "\<And>n r s. open_at W i r s \<Longrightarrow> (\<exists>e. f n r = (Inl e, r)) \<or>
    (\<exists>now t event. f n r = answer (publish W now i t event r) \<and> publishable W r i t \<and> \<not> st_closed t \<and> st_sequence t = st_sequence s \<and>
      q (ev_payload event))"
  shows "publishes W i f (\<lambda>event. q (ev_payload event))"
  unfolding publishes_def
proof (intro allI impI)
  fix n r s
  assume at: "open_at W i r s"
  from assms [OF this, of n] show "case f n r of (Inl e, r') \<Rightarrow> r' = r
      | (Inr event, r') \<Rightarrow> q (ev_payload event) \<and> sequence_of event = Suc (st_sequence s) \<and>
          (\<exists>s'. open_at W i r' s' \<and> st_sequence s' = Suc (st_sequence s))" (is ?P)
  proof (elim disjE exE conjE)
    fix e assume "f n r = (Inl e, r)"
    then show ?P by simp
  next
    fix now t event
    assume f: "f n r = answer (publish W now i t event r)" and t: "publishable W r i t" "\<not> st_closed t" "st_sequence t = st_sequence s"
      and q: "q (ev_payload event)"
    from publish_numbered [OF at t, of now event] q show ?P
      by (simp add: f answer_def)
  qed
qed

lemma source_publishes: "publishes W i (\<lambda>n. source_op W (now n) i chunk) (\<lambda>event. ev_payload event = Source chunk)"
proof (rule publishesI)
  fix n r s
  assume at: "open_at W i r s"
  then have "source_op W (now n) i chunk r = answer (publish W (now n) i s (blank_event (Source chunk)) r)"
    by (simp add: source_op_def find_open_def open_at_def)
  moreover have "publishable W r i s" "\<not> st_closed s"
    using at by (simp_all add: open_at_def registered_publishable)
  moreover have "ev_payload (blank_event (Source chunk)) = Source chunk"
    by (simp add: blank_event_def)
  ultimately show "(\<exists>e. source_op W (now n) i chunk r = (Inl e, r)) \<or> (\<exists>now' t event. source_op W (now n) i chunk r = answer (publish W now' i t event r) \<and>
      publishable W r i t \<and> \<not> st_closed t \<and> st_sequence t = st_sequence s \<and> ev_payload event = Source chunk)"
    by blast
qed

definition no_source :: "payload \<Rightarrow> bool" where
  "no_source p = (case p of Source _ \<Rightarrow> False | _ \<Rightarrow> True)"

lemma derived_publishes: "publishes W i (\<lambda>n. derived_op W (now n) i event library) (\<lambda>e. no_source (ev_payload e))"
proof (rule publishesI)
  fix n r s
  assume at: "open_at W i r s"
  show "(\<exists>e. derived_op W (now n) i event library r = (Inl e, r)) \<or>
    (\<exists>now' t ev. derived_op W (now n) i event library r = answer (publish W now' i t ev r) \<and> publishable W r i t \<and> \<not> st_closed t \<and>
      st_sequence t = st_sequence s \<and> no_source (ev_payload ev))"
  proof (cases rule: derived_op_cases [of W "now n" i event library r])
    case (refused x)
    then show ?thesis by blast
  next
    case (accepted t e m)
    have ok: "registry_ok W r" and t: "t = s"
      using at accepted(1) by (simp_all add: open_at_def)
    let ?t = "t\<lparr>st_snapshot := cap_bytes W (retention_bytes (rg_limits r)) (cap_counts (record_result (ev_payload e) m))\<rparr>"
    have pub: "publishable W r i ?t"
      by (rule derived_publishable [OF ok accepted(1,5,6)])
    have "derived_payload (ev_payload event)"
      using accepted(7) by (auto simp: derived_op_def answer_def split: if_splits)
    then have "no_source (ev_payload e)"
      using accepted(3) by (auto simp: with_provenance_def derived_payload_def no_source_def split: payload.splits if_splits)
    with accepted(7) pub accepted(2) t show ?thesis
      by (intro disjI2 exI [of _ "now n"] exI [of _ ?t] exI [of _ e]) simp
  qed
qed

section \<open>The call's invariants\<close>

text \<open>\<open>streaming\<close>: the stream is open in the registry. \<open>clean\<close>: also, no exception has happened, and the client
  has seen every event of the stream, among them the source chunks taken so far.\<close>

fun source_chunks :: "stream_event list \<Rightarrow> source_chunk list" where
  "source_chunks [] = []"
| "source_chunks (event # events) = (case ev_payload event of Source c \<Rightarrow> c # source_chunks events | _ \<Rightarrow> source_chunks events)"

lemma source_chunks_append [simp]: "source_chunks (as @ bs) = source_chunks as @ source_chunks bs"
  by (induction as) (auto split: payload.splits)

definition streaming :: "wire \<Rightarrow> string \<Rightarrow> 's ingest \<Rightarrow> bool" where
  "streaming W i g \<longleftrightarrow> in_id g = i \<and> in_bytes g = length (in_data g) \<and> (\<exists>s. open_at W i (in_registry g) s)"

definition clean :: "wire \<Rightarrow> string \<Rightarrow> 's ingest \<Rightarrow> bool" where
  "clean W i g \<longleftrightarrow> streaming W i g \<and>
     (\<exists>s. open_at W i (in_registry g) s \<and> map sequence_of (in_sent g) = [1..<Suc (st_sequence s)]) \<and>
     concat (map sc_data (source_chunks (in_sent g))) = in_data g \<and> length (source_chunks (in_sent g)) = in_count g"

definition same_account :: "'s ingest \<Rightarrow> 's ingest \<Rightarrow> bool" where
  "same_account g g' \<longleftrightarrow> in_id g' = in_id g \<and> in_count g' = in_count g \<and> in_bytes g' = in_bytes g \<and> in_data g' = in_data g \<and>
     in_finish g' = in_finish g \<and> in_buffered g' = in_buffered g \<and> in_offset g' = in_offset g"

lemma same_account_refl [simp]: "same_account g g"
  by (simp add: same_account_def)

lemma same_account_trans [trans]: "same_account a b \<Longrightarrow> same_account b c \<Longrightarrow> same_account a c"
  by (simp add: same_account_def)

lemma open_at_unique: "open_at W i r s \<Longrightarrow> open_at W i r t \<Longrightarrow> s = t"
  by (simp add: open_at_def)

lemma registry_call_publishes:
  assumes "publishes W i f q" "W = ie_wire E" "\<And>n. list_all (spares i) (ie_others E n)" "streaming W i g" "registry_call E f g = (g', x)"
  shows "streaming W i g' \<and> same_account g g' \<and> in_sent g' = in_sent g \<and> in_writes g' = in_writes g \<and>
    (\<forall>event s. x = Inr event \<longrightarrow> open_at W i (in_registry g) s \<longrightarrow> q event \<and> sequence_of event = Suc (st_sequence s) \<and>
      (\<exists>s'. open_at W i (in_registry g') s' \<and> st_sequence s' = Suc (st_sequence s)))"
proof -
  obtain s where s: "open_at W i (in_registry g) s"
    using assms(4) by (auto simp: streaming_def)
  define r where "r = fold (registry_step W) (ie_others E (in_calls g)) (in_registry g)"
  have r: "open_at W i r s"
    using others_spare [OF s assms(3)] by (simp add: r_def)
  obtain y r' where f: "f (in_calls g) r = (y, r')"
    by fastforce
  have g': "g' = g\<lparr>in_registry := r', in_calls := Suc (in_calls g)\<rparr>" "x = y"
    using assms(5) f by (simp_all add: registry_call_def assms(2) [symmetric] r_def)
  have step: "case (y, r') of (Inl e, r') \<Rightarrow> r' = r | (Inr event, r') \<Rightarrow> q event \<and> sequence_of event = Suc (st_sequence s) \<and>
      (\<exists>s'. open_at W i r' s' \<and> st_sequence s' = Suc (st_sequence s))"
    using assms(1) [unfolded publishes_def, rule_format, OF r, of "in_calls g"] unfolding f .
  have "(\<exists>s'. open_at W i r' s') \<and> (\<forall>event t. y = Inr event \<longrightarrow> open_at W i (in_registry g) t \<longrightarrow> q event \<and> sequence_of event = Suc (st_sequence t) \<and>
      (\<exists>s'. open_at W i r' s' \<and> st_sequence s' = Suc (st_sequence t)))"
  proof (cases y)
    case (Inl e)
    with step r show ?thesis
      by auto
  next
    case (Inr event)
    with step have "q event" "sequence_of event = Suc (st_sequence s)" "\<exists>s'. open_at W i r' s' \<and> st_sequence s' = Suc (st_sequence s)"
      by simp_all
    with Inr open_at_unique [OF s] show ?thesis
      by blast
  qed
  with assms(4) show ?thesis
    unfolding g' by (simp add: streaming_def same_account_def)
qed

lemma publish_send_keeps:
  assumes "publishes W i f q" "W = ie_wire E" "\<And>n. list_all (spares i) (ie_others E n)" "streaming W i g" "publish_send E f g = (g', e)"
  shows "streaming W i g' \<and> same_account g g' \<and>
    (e = None \<longrightarrow> (\<exists>event s s'. q event \<and> in_sent g' = in_sent g @ [event] \<and> open_at W i (in_registry g) s \<and>
      open_at W i (in_registry g') s' \<and> sequence_of event = Suc (st_sequence s) \<and> st_sequence s' = Suc (st_sequence s)))"
proof -
  obtain g1 x where c: "registry_call E f g = (g1, x)"
    by fastforce
  note k = registry_call_publishes [OF assms(1-4) c]
  obtain s where s: "open_at W i (in_registry g) s"
    using assms(4) by (auto simp: streaming_def)
  show ?thesis
  proof (cases x)
    case (Inl y)
    with assms(5) k show ?thesis
      by (auto simp: publish_send_def c)
  next
    case (Inr event)
    with k s obtain s' where s': "q event" "sequence_of event = Suc (st_sequence s)" "open_at W i (in_registry g1) s'" "st_sequence s' = Suc (st_sequence s)"
      by blast
    have w: "ingest_send E event g1 = (g', e)"
      using assms(5) by (simp add: publish_send_def c Inr)
    show ?thesis
    proof (cases "ie_delivers E (in_writes g1)")
      case True
      with w have "g' = g1\<lparr>in_writes := Suc (in_writes g1), in_sent := in_sent g1 @ [event]\<rparr>" "e = None"
        by (simp_all add: ingest_send_def ingest_write_def Let_def)
      with k s s' show ?thesis
        by (auto simp: streaming_def same_account_def)
    next
      case False
      with w have "g' = g1\<lparr>in_writes := Suc (in_writes g1)\<rparr>" "e \<noteq> None"
        by (auto simp: ingest_send_def ingest_write_def Let_def)
      with k show ?thesis
        by (auto simp: streaming_def same_account_def)
    qed
  qed
qed

lemma send_derived_keeps:
  assumes "W = ie_wire E" "\<And>n. list_all (spares i) (ie_others E n)" "streaming W i g" "send_derived E library event g = (g', e)"
  shows "streaming W i g' \<and> same_account g g' \<and> (e = None \<longrightarrow> clean W i g \<longrightarrow> clean W i g')"
proof -
  have i: "in_id g = i"
    using assms(3) by (simp add: streaming_def)
  have p: "publish_send E (\<lambda>n. derived_op W (ie_now E n) i event library) g = (g', e)"
    using assms(4) by (simp add: send_derived_def i assms(1))
  note k = publish_send_keeps [OF derived_publishes assms(1-3) p]
  have "clean W i g'" if "e = None" "clean W i g"
  proof -
    from k that(1) obtain ev s s' where ev: "no_source (ev_payload ev)" "in_sent g' = in_sent g @ [ev]" "open_at W i (in_registry g) s"
      "open_at W i (in_registry g') s'" "sequence_of ev = Suc (st_sequence s)" "st_sequence s' = Suc (st_sequence s)"
      by blast
    have "source_chunks [ev] = []"
      using ev(1) by (simp add: no_source_def split: payload.splits)
    moreover have "map sequence_of (in_sent g') = [1..<Suc (st_sequence s')]"
      using that(2) ev by (auto simp: clean_def dest!: open_at_unique [OF ev(3)])
    ultimately show ?thesis
      using that(2) k ev(2,4) by (auto simp: clean_def same_account_def)
  qed
  with k show ?thesis
    by blast
qed

section \<open>Opening and closing\<close>

text \<open>The identifier a request asks for, or gets.\<close>

definition requested_id :: "string \<Rightarrow> open_stream \<Rightarrow> string" where
  "requested_id fresh q = (if os_stream_id q = [] then fresh else os_stream_id q)"

lemma open_op_opens:
  assumes "registry_ok W r" "open_op W now fresh incarnation q sp ht r = (Inr event, r')"
  shows "cu_stream_id (ev_cursor event) = requested_id fresh q \<and> requested_id fresh q \<noteq> [] \<and> (\<exists>s. open_at W (requested_id fresh q) r' s \<and> st_sequence s = 1 \<and> sequence_of event = 1 \<and> no_source (ev_payload event))"
proof -
  define i where "i = requested_id fresh q"
  note i_req = i_def [unfolded requested_id_def]
  let ?r = "make_room r"
  let ?s = "stream_new W ?r incarnation q" and ?e = "blank_event (Opened (opened_of (rg_limits ?r) q))"
  have pub: "event = fst (publish W now i ?s ?e ?r)" "r' = snd (publish W now i ?s ?e ?r)"
    using assms(2) by (auto simp: open_op_def Let_def answer_def i_req [symmetric] split: option.splits if_splits)
  have "i \<noteq> []"
    using assms(2) by (auto simp: open_op_def Let_def i_req [symmetric] open_refusal_def valid_uuid_def split: option.splits if_splits)
  moreover have "registry_ok W r'"
    using open_op_ok [OF assms(1), of now fresh incarnation q sp ht] assms(2) by simp
  moreover have "keys_sorted (rg_streams ?r)"
    by (rule registry_ok_keys [OF make_room_ok [OF assms(1)]])
  ultimately show ?thesis
    by (simp add: pub open_at_def publish_streams publish_def Let_def stream_new_def no_source_def blank_event_def i_def [symmetric])
qed

lemma close_op_closes:
  assumes "open_at W i r s" "close_op W now steady i closed r = (x, r')"
  shows "\<exists>event t. x = Inr event \<and> ev_payload event = Closed closed \<and> sequence_of event = Suc (st_sequence s) \<and>
    map_of (rg_streams r') i = Some t \<and> st_closed t \<and> ss_closed (st_snapshot t) = Some closed \<and> st_sequence t = Suc (st_sequence s)"
proof -
  let ?t = "s\<lparr>st_closed := True, st_closed_at := steady, st_snapshot := (st_snapshot s)\<lparr>ss_closed := Some closed\<rparr>\<rparr>"
  have "close_op W now steady i closed r = answer (publish W now i ?t (blank_event (Closed closed)) r)"
    using assms(1) by (simp add: close_op_def find_open_def open_at_def)
  moreover have "keys_sorted (rg_streams r)"
    using assms(1) registry_ok_keys by (auto simp: open_at_def)
  ultimately show ?thesis
    using assms(2) by (auto simp: answer_def publish_streams) (simp_all add: publish_def Let_def blank_event_def)
qed

section \<open>The speech pipeline as a client\<close>

text \<open>What the call relies on: a \<open>Processing\<close> changes the call's state only through its callback, and when
  it returns, every event it published went through. Resolving the options keeps the identifier.\<close>

fun emit_all :: "'s emit_processed \<Rightarrow> stream_event list \<Rightarrow> 's \<Rightarrow> 's outcome" where
  "emit_all emit [] s = (s, None)"
| "emit_all emit (event # events) s = and_then (emit event s) (emit_all emit events)"

locale processing =
  fixes resolve :: "open_stream \<Rightarrow> exn + open_stream"
    and audio :: "'s emit_processed \<Rightarrow> audio_chunk \<Rightarrow> 'p \<times> 's \<Rightarrow> ('p \<times> 's) outcome"
    and finish :: "'s emit_processed \<Rightarrow> 'p \<times> 's \<Rightarrow> ('p \<times> 's) outcome"
  assumes resolve_id: "resolve q = Inr q' \<Longrightarrow> os_stream_id q' = os_stream_id q"
    and audio_emits: "audio emit a ps = ((p', s'), e) \<Longrightarrow> \<exists>events e'. emit_all emit events (snd ps) = (s', e') \<and> (e = None \<longrightarrow> e' = None)"
    and finish_emits: "finish emit ps = ((p', s'), e) \<Longrightarrow> \<exists>events e'. emit_all emit events (snd ps) = (s', e') \<and> (e = None \<longrightarrow> e' = None)"

definition factory_ok :: "('p, 's) processing_factory option \<Rightarrow> bool" where
  "factory_ok P \<longleftrightarrow> (\<forall>pf. P = Some pf \<longrightarrow> processing (pf_resolve pf) (pf_audio pf) (pf_finish pf))"

lemma resolve_open_id: "factory_ok P \<Longrightarrow> resolve_open P q = Inr q' \<Longrightarrow> os_stream_id q' = os_stream_id q"
  by (auto simp: resolve_open_def factory_ok_def dest: processing.resolve_id split: if_splits option.splits)

lemma emit_all_keeps:
  assumes "W = ie_wire E" "\<And>n. list_all (spares i) (ie_others E n)"
  shows "streaming W i g \<Longrightarrow> emit_all (send_derived E library) events g = (g', e) \<Longrightarrow>
    streaming W i g' \<and> same_account g g' \<and> (e = None \<longrightarrow> clean W i g \<longrightarrow> clean W i g')"
proof (induction events arbitrary: g)
  case (Cons event events)
  obtain g1 e1 where one: "send_derived E library event g = (g1, e1)"
    by fastforce
  note k = send_derived_keeps [OF assms Cons.prems(1) one]
  show ?case
  proof (cases e1)
    case None
    with Cons.prems(2) one have rest: "emit_all (send_derived E library) events g1 = (g', e)"
      by simp
    have "streaming W i g1"
      using k by blast
    from Cons.IH [OF this rest] k None show ?thesis
      using same_account_trans by blast
  next
    case (Some x)
    with Cons.prems(2) one k show ?thesis
      by auto
  qed
qed auto

section \<open>The source of a call\<close>

text \<open>The finish message agrees with what was taken.\<close>

definition finished :: "'s ingest \<Rightarrow> bool" where
  "finished g \<longleftrightarrow> (\<exists>f. in_finish g = Some f \<and> fs_chunk_count f = in_count g \<and> fs_byte_count f = in_bytes g)"

text \<open>How a call for stream \<open>i\<close> on \<open>items\<close> ends in \<open>g'\<close> with \<open>status\<close>, when its inner \<open>try\<close> ended in \<open>g\<close> with \<open>e\<close>:
  the digest was not started; no stream was opened; the digest was not finished, and the stream is still open; or
  the stream is closed.\<close>

definition call_contract ::
  "('r, 's) ingest_env \<Rightarrow> string \<Rightarrow> ('r \<Rightarrow> string) \<Rightarrow> ('r \<Rightarrow> bool) \<Rightarrow> 'r list \<Rightarrow> 's ingest \<Rightarrow> exn option \<Rightarrow> 's ingest \<Rightarrow> status \<Rightarrow> bool" where
  "call_contract E i item_data item_finish items g e g' status \<longleftrightarrow>
    (\<not> evp_init (ie_openssl E) \<and> in_id g' = [] \<and> status = Status INTERNAL ''ingress finalization failed'') \<or>
    (in_id g = [] \<and> g' = g \<and> e \<noteq> None) \<or>
    (\<not> evp_final (ie_openssl E) \<and> streaming (ie_wire E) i g' \<and> status = Status INTERNAL ''ingress finalization failed'') \<or>
    (evp_final (ie_openssl E) \<and> in_id g = i \<and> i \<noteq> [] \<and> (\<exists>event t. ev_payload event = Closed (closed_of E (final_status E e g) g) \<and> in_bytes g = length (in_data g) \<and> same_account g g' \<and>
      map_of (rg_streams (in_registry g')) i = Some t \<and> st_closed t \<and> ss_closed (st_snapshot t) = Some (closed_of E (final_status E e g) g) \<and>
      status = (if ie_delivers E (in_writes g) \<or> \<not> status_ok (final_status E e g) then final_status E e g
        else Status CANCELLED ''terminal response disconnected'') \<and>
      (e = None \<longrightarrow> ie_delivers E (in_writes g) \<longrightarrow> in_sent g' = in_sent g @ [event] \<and>
        map sequence_of (in_sent g') = [1..<Suc (st_sequence t)] \<and> clean (ie_wire E) i g \<and> finished g \<and>
        (\<exists>first used rest. items = first # used @ rest \<and> used \<noteq> [] \<and> item_finish (last used) \<and> in_data g = concat (map item_data used)))))"

text \<open>
  What the call relies on of its read function: before the stream is open it only yields the open
  message; then it may publish derived events, but leaves the accounts alone. \<open>item_data\<close> are the
  source bytes an item brings, \<open>item_finish\<close> tells the one that ends the source.
\<close>

fun request_data :: "ingest_request \<Rightarrow> string" where
  "request_data (Request_chunk chunk) = sc_data chunk"
| "request_data _ = []"

locale ingest_source =
  fixes E :: "('r, 's) ingest_env" and i :: string and item_data :: "'r \<Rightarrow> string" and item_finish :: "'r \<Rightarrow> bool"
  assumes others: "list_all (spares i) (ie_others E n)"
    and item_open: "ie_item E item g = (g', Inr (Request_open q)) \<Longrightarrow> g' = g"
    and item_id: "ie_item E item g = (g', x) \<Longrightarrow> in_id g' = in_id g"
    and item_streaming: "ie_item E item g = (g', x) \<Longrightarrow> streaming (ie_wire E) i g \<Longrightarrow> streaming (ie_wire E) i g' \<and> same_account g g'"
    and item_clean: "ie_item E item g = (g', Inr y) \<Longrightarrow> clean (ie_wire E) i g \<Longrightarrow> clean (ie_wire E) i g'"
    and item_bytes: "ie_item E item g = (g', Inr y) \<Longrightarrow> request_data y = item_data item"
    and item_last: "ie_item E item g = (g', Inr (Request_finish f)) \<Longrightarrow> item_finish item"
begin

abbreviation on :: "'s ingest \<Rightarrow> bool" where
  "on g \<equiv> streaming (ie_wire E) i g"

abbreviation good :: "'s ingest \<Rightarrow> bool" where
  "good g \<equiv> clean (ie_wire E) i g"

text \<open>The input between two states of the call: no item is read after the one that ends the source.\<close>

definition consumed :: "'r list \<Rightarrow> 'r list \<Rightarrow> 's ingest \<Rightarrow> 's ingest \<Rightarrow> bool" where
  "consumed items items' g g' \<longleftrightarrow> (\<exists>used. items = used @ items' \<and> in_data g' = in_data g @ concat (map item_data used) \<and>
     (if in_finish g = None \<and> in_finish g' \<noteq> None then used \<noteq> [] \<and> item_finish (last used) else in_finish g' = in_finish g) \<and>
     (in_finish g \<noteq> None \<longrightarrow> used = []))"

lemma consumed_same: "in_data g' = in_data g \<Longrightarrow> in_finish g' = in_finish g \<Longrightarrow> consumed items items g g'"
  by (auto simp: consumed_def)

lemma consumed_refl [simp]: "consumed items items g g"
  by (simp add: consumed_same)

lemma consumed_account: "same_account g g' \<Longrightarrow> consumed items items g g'"
  by (simp add: consumed_same same_account_def)

lemma consumed_trans:
  assumes "consumed xs ys g h" "consumed ys zs h k"
  shows "consumed xs zs g k"
proof -
  from assms(1) obtain u where u: "xs = u @ ys" "in_data h = in_data g @ concat (map item_data u)"
    "if in_finish g = None \<and> in_finish h \<noteq> None then u \<noteq> [] \<and> item_finish (last u) else in_finish h = in_finish g" "in_finish g \<noteq> None \<longrightarrow> u = []"
    unfolding consumed_def by blast
  from assms(2) obtain v where v: "ys = v @ zs" "in_data k = in_data h @ concat (map item_data v)"
    "if in_finish h = None \<and> in_finish k \<noteq> None then v \<noteq> [] \<and> item_finish (last v) else in_finish k = in_finish h" "in_finish h \<noteq> None \<longrightarrow> v = []"
    unfolding consumed_def by blast
  from u v show ?thesis
    unfolding consumed_def by (intro exI [of _ "u @ v"]) (auto split: if_splits)
qed

lemma good_on: "good g \<Longrightarrow> on g"
  by (simp add: clean_def)

lemma take_chunk_keeps:
  assumes "on g" "take_chunk E chunk g = (g', e)"
  shows "on g' \<and> in_id g' = in_id g \<and> in_finish g' = in_finish g \<and>
    (e = None \<longrightarrow> in_data g' = in_data g @ sc_data chunk \<and> (good g \<longrightarrow> good g'))"
proof -
  let ?hash = "sha256 (ie_wire E) (sc_data chunk)"
  let ?chunk = "chunk\<lparr>sc_sha256 := ?hash\<rparr>"
  let ?g = "g\<lparr>in_data := in_data g @ sc_data chunk, in_count := in_count g + 1, in_bytes := in_bytes g + length (sc_data chunk)\<rparr>"
  show ?thesis
  proof (cases "chunk_refusal (rg_limits (in_registry g)) (in_count g) (in_bytes g)
      (if evp_digest (ie_openssl E) (in_count g) then Some ?hash else None) chunk = None \<and> evp_update (ie_openssl E) (in_count g)")
    case False
    with assms show ?thesis
      by (auto simp: take_chunk_def Let_def split: option.splits if_splits)
  next
    case None: True
    have i: "in_id g = i"
      using assms(1) by (simp add: streaming_def)
    obtain g2 e2 where p: "publish_send E (\<lambda>n. source_op (ie_wire E) (ie_now E n) i ?chunk) ?g = (g2, e2)"
      by fastforce
    have on: "on ?g"
      using assms(1) by (simp add: streaming_def)
    note k = publish_send_keeps [OF source_publishes refl others on p]
    have run: "and_then (g2, e2) (\<lambda>g2. (g2\<lparr>in_buffered := sc_data chunk, in_offset := 0\<rparr>, None)) = (g', e)"
      using assms(2) None p by (simp add: take_chunk_def Let_def i)
    show ?thesis
    proof (cases e2)
      case (Some x)
      with run k show ?thesis
        by (auto simp: same_account_def)
    next
      case e2: None
      with run have g': "g' = g2\<lparr>in_buffered := sc_data chunk, in_offset := 0\<rparr>" "e = None"
        by auto
      from k e2 obtain ev s s' where ev: "ev_payload ev = Source ?chunk" "in_sent g2 = in_sent g @ [ev]" "open_at (ie_wire E) i (in_registry g) s"
        "open_at (ie_wire E) i (in_registry g2) s'" "sequence_of ev = Suc (st_sequence s)" "st_sequence s' = Suc (st_sequence s)"
        by auto
      have "good g'" if "good g"
      proof -
        have "map sequence_of (in_sent g2) = [1..<Suc (st_sequence s')]"
          using that ev by (auto simp: clean_def dest!: open_at_unique [OF ev(3)])
        with that k ev show ?thesis
          by (auto simp: g' clean_def streaming_def same_account_def)
      qed
      moreover have "on g'" "in_data g' = in_data g @ sc_data chunk" "in_id g' = in_id g" "in_finish g' = in_finish g"
        using k i by (simp_all add: g' streaming_def same_account_def)
      ultimately show ?thesis
        by (simp add: g'(2))
    qed
  qed
qed

lemma next_chunk_keeps:
  assumes "on g" "next_chunk E (items, g) = ((items', g'), x)"
  shows "on g' \<and> in_id g' = in_id g \<and>
    (\<forall>b. x = Inr b \<longrightarrow> (good g \<longrightarrow> good g') \<and> (b \<or> in_finish g' \<noteq> None) \<and>
      consumed items items' g g')"
proof (cases "in_finish g")
  case (Some f)
  with assms show ?thesis
    by (auto simp: next_chunk_def)
next
  case open_: None
  show ?thesis
  proof (cases items)
    case Nil
    with assms open_ show ?thesis
      by (auto simp: next_chunk_def)
  next
    case (Cons item rest)
    obtain g1 y where item: "ie_item E item g = (g1, y)"
      by fastforce
    note k = item_streaming [OF item assms(1)] item_id [OF item]
    show ?thesis
    proof (cases y)
      case (Inl e)
      with assms(2) open_ Cons item k show ?thesis
        by (auto simp: next_chunk_def)
    next
      case (Inr request)
      note bytes = item_bytes [OF item [unfolded Inr]] and cl = item_clean [OF item [unfolded Inr]]
      show ?thesis
      proof (cases request)
        case (Request_chunk chunk)
        obtain g2 e where t: "take_chunk E chunk g1 = (g2, e)"
          by fastforce
        from k have "on g1"
          by blast
        note tk = take_chunk_keeps [OF this t]
        show ?thesis
        proof (cases e)
          case None
          with assms(2) open_ Cons item Inr Request_chunk t have r: "items' = rest" "g' = g2" "x = Inr True"
            by (simp_all add: next_chunk_def)
          with tk None k bytes cl Request_chunk Cons open_ show ?thesis
            by (auto simp: same_account_def consumed_def intro!: exI [of _ "[item]"])
        next
          case (Some w)
          with assms(2) open_ Cons item Inr Request_chunk t tk k show ?thesis
            by (auto simp: next_chunk_def)
        qed
      next
        case (Request_finish f)
        with assms(2) open_ Cons item Inr have r: "items' = rest" "g' = g1\<lparr>in_finish := Some f\<rparr>" "x = Inr False"
          by (simp_all add: next_chunk_def)
        have "on g'" "good g \<longrightarrow> good g'"
          using k cl by (simp_all add: r streaming_def clean_def)
        with r k bytes Request_finish Cons open_ item_last [OF item [unfolded Inr Request_finish]] show ?thesis
          by (auto simp: same_account_def consumed_def intro!: exI [of _ "[item]"])
      qed (use assms(2) open_ Cons item Inr k in \<open>auto simp: next_chunk_def\<close>)
    qed
  qed
qed

lemma decoder_read_keeps:
  assumes "on g" "decoder_read E n (items, g) = ((items', g'), x)"
  shows "on g' \<and> in_id g' = in_id g \<and> (\<forall>b. x = Inr b \<longrightarrow> (good g \<longrightarrow> good g') \<and>
    consumed items items' g g')"
proof -
  obtain items1 g1 y where y: "(if in_offset g = length (in_buffered g) then next_chunk E (items, g) else ((items, g), Inr True)) = ((items1, g1), y)"
    by (metis prod.collapse)
  have k: "on g1 \<and> in_id g1 = in_id g \<and> (\<forall>b. y = Inr b \<longrightarrow> (good g \<longrightarrow> good g1) \<and>
      consumed items items1 g g1)"
  proof (cases "in_offset g = length (in_buffered g)")
    case True
    with y next_chunk_keeps [OF assms(1), of items items1 g1 y] show ?thesis
      by auto
  next
    case False
    with y assms(1) show ?thesis
      by auto
  qed
  have frame: "on (g1\<lparr>in_offset := m\<rparr>) = on g1" "good (g1\<lparr>in_offset := m\<rparr>) = good g1" for m
    by (simp_all add: streaming_def clean_def)
  have run: "(case ((items1, g1), y) of
        (ig1, Inl e) \<Rightarrow> (ig1, Inl e)
      | (ig1, Inr False) \<Rightarrow> (ig1, Inr [])
      | ((items, g), Inr True) \<Rightarrow>
          let size = min (length (in_buffered g) - in_offset g) n in
          ((items, g\<lparr>in_offset := in_offset g + size\<rparr>), Inr (take size (drop (in_offset g) (in_buffered g))))) = ((items', g'), x)"
    using assms(2) unfolding decoder_read_def snd_conv y .
  show ?thesis
  proof (cases y)
    case (Inl e)
    with run k show ?thesis
      by auto
  next
    case (Inr b)
    have k1: "on g1" "in_id g1 = in_id g" "good g \<longrightarrow> good g1" "consumed items items1 g g1"
      using k Inr by auto
    have "items' = items1 \<and> (g' = g1 \<or> (\<exists>m. g' = g1\<lparr>in_offset := m\<rparr>))"
      using run Inr by (cases b) (auto simp: Let_def)
    moreover have "consumed items items1 g (g1\<lparr>in_offset := m\<rparr>)" for m
      by (rule consumed_trans [OF k1(4)]) (simp add: consumed_same)
    ultimately show ?thesis
      using k1 frame by auto
  qed
qed

lemma send_keeps:
  assumes "on g" "send_derived E library event g = (g', e)"
  shows "on g' \<and> same_account g g' \<and> (e = None \<longrightarrow> good g \<longrightarrow> good g')"
  using send_derived_keeps [OF refl others assms] .

lemma decoder_emit_keeps:
  assumes "factory_ok P" "on g" "decoder_emit E P accepted event (p, g) = ((p', g'), e)"
  shows "on g' \<and> same_account g g' \<and> (e = None \<longrightarrow> good g \<longrightarrow> good g')"
proof -
  obtain p1 g1 e1 where one: "(case (P, p, is_audio event) of
        (Some pf, Some p, Some audio) \<Rightarrow> (case pf_audio pf (send_derived E []) audio (p, g) of ((p1, g1), e) \<Rightarrow> ((Some p1, g1), e))
      | _ \<Rightarrow> ((p, g), None)) = ((p1, g1), e1)"
    by (metis prod.collapse)
  have k: "on g1 \<and> same_account g g1 \<and> (e1 = None \<longrightarrow> good g \<longrightarrow> good g1)"
  proof (cases "\<exists>pf q audio. P = Some pf \<and> p = Some q \<and> is_audio event = Some audio")
    case True
    then obtain pf q audio where pf: "P = Some pf" "p = Some q" "is_audio event = Some audio"
      by blast
    then obtain q1 where a: "pf_audio pf (send_derived E []) audio (q, g) = ((q1, g1), e1)"
      using one by (auto split: prod.splits)
    have pr: "processing (pf_resolve pf) (pf_audio pf) (pf_finish pf)"
      using assms(1) pf(1) by (simp add: factory_ok_def)
    from processing.audio_emits [OF pr a] obtain events e' where
      "emit_all (send_derived E []) events g = (g1, e')" "e1 = None \<longrightarrow> e' = None"
      by auto
    with emit_all_keeps [OF refl others assms(2) this(1)] show ?thesis
      by blast
  next
    case False
    with one assms(2) show ?thesis
      by (auto split: option.splits)
  qed
  have run: "and_then ((p1, g1), e1) (\<lambda>(p, g). if is_audio event = None \<or> emits_audio accepted
        then (case send_derived E (ie_library E) event g of (g1, e) \<Rightarrow> ((p, g1), e)) else ((p, g), None)) = ((p', g'), e)"
    using assms(3) unfolding decoder_emit_def fst_conv snd_conv one .
  show ?thesis
  proof (cases "e1 = None \<and> (is_audio event = None \<or> emits_audio accepted)")
    case True
    then have "send_derived E (ie_library E) event g1 = (g', e)"
      using run by (auto split: prod.splits)
    with k True send_keeps [of g1 "ie_library E" event g' e] show ?thesis
      using same_account_trans by blast
  next
    case False
    with run k show ?thesis
      by (cases e1) auto
  qed
qed

lemma decode_calls_keeps:
  assumes "factory_ok P"
  shows "on g \<Longrightarrow> decode_calls E P accepted ending calls pending (items, p, g) = ((items', p', g'), e) \<Longrightarrow>
    on g' \<and> in_id g' = in_id g \<and> (e = None \<longrightarrow> pending = None \<and> (good g \<longrightarrow> good g') \<and>
      consumed items items' g g')"
proof (induction calls arbitrary: pending items p g)
  case Nil
  then show ?case
    by (auto split: option.splits)
next
  case (Cons c calls)
  show ?case
  proof (cases c)
    case (Decoder_read n)
    obtain items1 g1 x where r: "decoder_read E n (items, g) = ((items1, g1), x)"
      by (metis prod.collapse)
    note k = decoder_read_keeps [OF Cons.prems(1) r]
    from k have on1: "on g1" by blast
    show ?thesis
    proof (cases x)
      case (Inl w)
      with Cons.prems(2) Decoder_read r have "decode_calls E P accepted ending calls (Some w) (items1, p, g1) = ((items', p', g'), e)"
        by simp
      from Cons.IH [OF on1 this] k show ?thesis
        by auto
    next
      case (Inr b)
      with Cons.prems(2) Decoder_read r have "decode_calls E P accepted ending calls pending (items1, p, g1) = ((items', p', g'), e)"
        by simp
      from Cons.IH [OF on1 this] k Inr show ?thesis
        using consumed_trans [of items items1 g g1 items' g'] by auto
    qed
  next
    case Decoder_cancelled
    with Cons.prems(2) have "decode_calls E P accepted ending calls (Some (Failure CANCELLED ''media decode cancelled'')) (items, p, g) = ((items', p', g'), e)"
      by simp
    from Cons.IH [OF Cons.prems(1) this] show ?thesis
      by auto
  next
    case (Decoder_event event)
    show ?thesis
    proof (cases pending)
      case (Some w)
      with Cons.prems Decoder_event show ?thesis
        by auto
    next
      case None
      obtain p1 g1 e1 where em: "decoder_emit E P accepted event (p, g) = ((p1, g1), e1)"
        by (metis prod.collapse)
      note k = decoder_emit_keeps [OF assms Cons.prems(1) em]
      show ?thesis
      proof (cases e1)
        case e1: None
        with Cons.prems(2) Decoder_event None em have rest: "decode_calls E P accepted ending calls None (items, p1, g1) = ((items', p', g'), e)"
          by simp
        from k have "on g1" by blast
        from Cons.IH [OF this rest] k e1 None show ?thesis
          using consumed_trans [OF consumed_account, of g g1 items items' g'] by (auto simp: same_account_def)
      next
        case (Some w)
        with Cons.prems(2) Decoder_event None em k show ?thesis
          by (auto simp: same_account_def)
      qed
    qed
  qed
qed

lemma drain_source_keeps:
  "on g \<Longrightarrow> drain_source E (items, g) = ((items', g'), e) \<Longrightarrow>
    on g' \<and> in_id g' = in_id g \<and> (e = None \<longrightarrow> (good g \<longrightarrow> good g') \<and>
      consumed items items' g g')"
proof (induction "length items" arbitrary: items g rule: less_induct)
  case less
  obtain items1 g1 x where n: "next_chunk E (items, g) = ((items1, g1), x)"
    by (metis prod.collapse)
  note k = next_chunk_keeps [OF less.prems(1) n]
  note run = less.prems(2) [unfolded drain_source.simps [of E "(items, g)"] n]
  show ?case
  proof (cases x)
    case (Inl w)
    with run k show ?thesis
      by auto
  next
    case (Inr b)
    show ?thesis
    proof (cases b)
      case False
      with run Inr k show ?thesis
        by auto
    next
      case True
      with run Inr have rest: "drain_source E (items1, g1) = ((items', g'), e)"
        by simp
      have "length items1 < length items"
        using next_chunk_shorter [of E "(items, g)" "(items1, g1)"] n Inr True by simp
      from less.hyps [OF this _ rest] k Inr show ?thesis
        using consumed_trans [of items items1 g g1 items' g'] by auto
    qed
  qed
qed

lemma finish_processing_keeps:
  assumes "factory_ok P" "on g" "finish_processing E P p g = (g', e)"
  shows "on g' \<and> same_account g g' \<and> (e = None \<longrightarrow> good g \<longrightarrow> good g')"
proof (cases "\<exists>pf q. P = Some pf \<and> p = Some q")
  case True
  then obtain pf q where pf: "P = Some pf" "p = Some q"
    by blast
  then obtain q1 where a: "pf_finish pf (send_derived E []) (q, g) = ((q1, g'), e)"
    using assms(3) by (auto simp: finish_processing_def split: prod.splits)
  have pr: "processing (pf_resolve pf) (pf_audio pf) (pf_finish pf)"
    using assms(1) pf(1) by (simp add: factory_ok_def)
  from processing.finish_emits [OF pr a] obtain events e' where
    "emit_all (send_derived E []) events g = (g', e')" "e = None \<longrightarrow> e' = None"
    by auto
  with emit_all_keeps [OF refl others assms(2) this(1)] show ?thesis
    by blast
next
  case False
  with assms(2,3) show ?thesis
    by (auto simp: finish_processing_def split: option.splits)
qed

lemma stream_body_keeps:
  assumes "factory_ok P" "on g" "stream_body E P accepted items g = (g', e)"
  shows "on g' \<and> in_id g' = in_id g \<and> (e = None \<longrightarrow> (good g \<longrightarrow> good g') \<and> finished g' \<and>
    (\<exists>rest. consumed items rest g g'))"
proof -
  define p where "p = (case P of Some pf \<Rightarrow> if os_speech accepted \<noteq> [] then Some (pf_create pf (in_id g) accepted) else None | None \<Rightarrow> None)"
  obtain items1 p1 g1 e1 where d: "(if os_decode accepted \<noteq> None \<or> os_speech accepted \<noteq> []
      then decode_calls E P accepted (snd (ie_decoder E)) (fst (ie_decoder E)) None (items, p, g) else ((items, p, g), None)) = ((items1, p1, g1), e1)"
    by (metis prod.collapse)
  have k1: "on g1 \<and> in_id g1 = in_id g \<and> (e1 = None \<longrightarrow> (good g \<longrightarrow> good g1) \<and>
      consumed items items1 g g1)"
  proof (cases "os_decode accepted \<noteq> None \<or> os_speech accepted \<noteq> []")
    case True
    then have "decode_calls E P accepted (snd (ie_decoder E)) (fst (ie_decoder E)) None (items, p, g) = ((items1, p1, g1), e1)"
      using d by simp
    from decode_calls_keeps [OF assms(1,2) this] show ?thesis
      by auto
  next
    case False
    with d assms(2) show ?thesis
      by auto
  qed
  have run: "(case ((items1, p1, g1), e1) of
        ((items1, p1, g1), Some e) \<Rightarrow> (g1, Some e)
      | ((items1, p1, g1), None) \<Rightarrow> (case drain_source E (items1, g1) of
            ((items2, g2), Some e) \<Rightarrow> (g2, Some e)
          | ((items2, g2), None) \<Rightarrow> and_then (check_finish g2) (finish_processing E P p1))) = (g', e)"
    using assms(3) unfolding stream_body_def Let_def p_def [symmetric] d .
  show ?thesis
  proof (cases e1)
    case (Some x)
    with run k1 show ?thesis
      by auto
  next
    case None
    obtain items2 g2 e2 where dr: "drain_source E (items1, g1) = ((items2, g2), e2)"
      by (metis prod.collapse)
    from k1 have "on g1" by blast
    note k2 = drain_source_keeps [OF this dr]
    show ?thesis
    proof (cases e2)
      case (Some x)
      with run None dr k1 k2 show ?thesis
        by auto
    next
      case e2: None
      with run None dr have fin: "and_then (check_finish g2) (finish_processing E P p1) = (g', e)"
        by simp
      show ?thesis
      proof (cases "check_finish g2 = (g2, None)")
        case True
        with fin have fp: "finish_processing E P p1 g2 = (g', e)"
          by simp
        have "finished g2"
          using True by (auto simp: check_finish_def finished_def split: option.splits if_splits)
        moreover from k2 have "on g2" by blast
        note k3 = finish_processing_keeps [OF assms(1) this fp]
        moreover have "consumed items items2 g g'"
          using k1 None k2 e2 k3 by (blast intro: consumed_trans consumed_account)
        ultimately show ?thesis
          using k1 None k2 e2 by (auto simp: same_account_def finished_def)
      next
        case False
        then obtain x where "check_finish g2 = (g2, Some x)"
          by (auto simp: check_finish_def split: option.splits if_splits)
        with fin k1 k2 show ?thesis
          by auto
      qed
    qed
  qed
qed

text \<open>The first item, if it opens a stream, opens stream \<open>i\<close>.\<close>

definition asks_for :: "'s ingest \<Rightarrow> 'r list \<Rightarrow> bool" where
  "asks_for g items \<longleftrightarrow> (\<forall>item rest g' q. items = item # rest \<longrightarrow> ie_item E item g = (g', Inr (Request_open q)) \<longrightarrow> i = requested_id (ie_fresh E) q)"

text \<open>The inner \<open>try\<close> of a fresh call that asks for stream \<open>i\<close>.\<close>

lemma ingest_body_keeps:
  assumes "factory_ok P" "registry_ok (ie_wire E) r" "ingest_body E P http items (ingest_new source r) = (g, e)"
    "asks_for (ingest_new source r) items"
  shows "(in_id g = [] \<and> e \<noteq> None) \<or> in_id g \<noteq> [] \<and> on g \<and>
    (e = None \<longrightarrow> good g \<and> finished g \<and> (\<exists>first used rest. items = first # used @ rest \<and> used \<noteq> [] \<and> item_finish (last used) \<and> in_data g = concat (map item_data used)))"
proof (cases "in_id g = [] \<and> e \<noteq> None")
  case opened: False
  let ?g = "ingest_new source r"
  have id0: "in_id ?g = []"
    by (simp add: ingest_new_def)
  obtain item rest where items: "items = item # rest"
    using assms(3) opened id0 by (cases items) (auto simp: ingest_body_def)
  obtain g1 x where item: "ie_item E item ?g = (g1, x)"
    by fastforce
  note id1 = item_id [OF item]
  obtain q where x: "x = Inr (Request_open q)"
  proof (cases x)
    case (Inl w)
    with assms(3) opened items item id0 id1 show ?thesis
      by (auto simp: ingest_body_def)
  next
    case (Inr request)
    with assms(3) opened items item id0 id1 show ?thesis
      using that by (cases request) (auto simp: ingest_body_def)
  qed
  have g1: "g1 = ?g"
    using item_open [OF item [unfolded x]] .
  obtain accepted where acc: "resolve_open P q = Inr accepted"
    using assms(3) opened items item x g1 id0 by (cases "resolve_open P q") (auto simp: ingest_body_def)
  have i: "i = requested_id (ie_fresh E) accepted"
    using assms(4) [unfolded asks_for_def, rule_format, OF items item [unfolded x]] resolve_open_id [OF assms(1) acc] by (simp add: requested_id_def)
  define open1 where "open1 = (\<lambda>n. open_op (ie_wire E) (ie_now E n) (ie_fresh E) (ie_incarnation E) accepted (P \<noteq> None) http)"
  obtain g2 y where call: "registry_call E open1 ?g = (g2, y)"
    by fastforce
  have run0: "(case (g2, y) of (g2, Inl e) \<Rightarrow> (g2, Some e) | (g2, Inr opened) \<Rightarrow>
      and_then (ingest_send E opened (g2\<lparr>in_id := cu_stream_id (ev_cursor opened)\<rparr>)) (stream_body E P accepted rest)) = (g, e)"
    using assms(3) unfolding ingest_body_def items list.case item x prod.case sum.case ingest_request.case acc g1 open1_def [symmetric] call .
  define r1 where "r1 = fold (registry_step (ie_wire E)) (ie_others E 0) r"
  have r1: "registry_ok (ie_wire E) r1"
    using assms(2) by (simp add: r1_def registry_calls.fold_inv)
  have call': "open1 0 r1 = (y, in_registry g2)" "in_id g2 = []" "in_data g2 = []" "in_bytes g2 = 0" "in_count g2 = 0" "in_sent g2 = []" "in_finish g2 = None"
    using call by (auto simp: registry_call_def ingest_new_def r1_def split: prod.splits)
  obtain event where y: "y = Inr event"
    using run0 opened call'(2) by (cases y) auto
  obtain g3 e3 where send: "ingest_send E event (g2\<lparr>in_id := cu_stream_id (ev_cursor event)\<rparr>) = (g3, e3)"
    by fastforce
  have run: "and_then (g3, e3) (stream_body E P accepted rest) = (g, e)"
    using run0 y send by simp
  obtain s where s: "cu_stream_id (ev_cursor event) = i" "i \<noteq> []" "open_at (ie_wire E) i (in_registry g2) s" "st_sequence s = 1" "sequence_of event = 1"
    "no_source (ev_payload event)"
    using open_op_opens [OF r1, of "ie_now E 0" "ie_fresh E" "ie_incarnation E" accepted "P \<noteq> None" http event "in_registry g2"] call'(1) y i
    by (auto simp: open1_def)
  have base: "in_data g3 = []" "in_bytes g3 = 0" "in_count g3 = 0" "in_id g3 = i" "in_registry g3 = in_registry g2" "in_finish g3 = None" "e3 = None \<longrightarrow> in_sent g3 = [event]"
    using send call' s(1) by (auto simp: ingest_send_def ingest_write_def Let_def split: if_splits)
  have on3: "on g3"
    using s(3) base by (auto simp: streaming_def)
  show ?thesis
  proof (cases e3)
    case (Some w)
    with run on3 s(2) base(4) show ?thesis
      by auto
  next
    case None
    with run have body: "stream_body E P accepted rest g3 = (g, e)"
      by simp
    have "source_chunks [event] = []"
      using s(6) by (simp add: no_source_def split: payload.splits)
    with None base s on3 have "good g3"
      by (auto simp: clean_def)
    note k = stream_body_keeps [OF assms(1) on3 body]
    have "\<exists>first used rest. items = first # used @ rest \<and> used \<noteq> [] \<and> item_finish (last used) \<and> in_data g = concat (map item_data used)"
      if "e = None"
    proof -
      from k that obtain rest' where "consumed rest rest' g3 g" "finished g"
        by blast
      with base(1,6) items show ?thesis
        by (auto simp: consumed_def finished_def)
    qed
    with \<open>good g3\<close> k base(4) s(2) show ?thesis
      by auto
  qed
qed simp

text \<open>The terminal event goes out, and says what the call knows.\<close>

lemma ingest_close_closes:
  assumes "on g" "ingest_close E status g = (g', status')"
  shows "\<exists>event t. ev_payload event = Closed (closed_of E status g) \<and> map_of (rg_streams (in_registry g')) i = Some t \<and> st_closed t \<and>
    ss_closed (st_snapshot t) = Some (closed_of E status g) \<and> same_account g g' \<and>
    status' = (if ie_delivers E (in_writes g) \<or> \<not> status_ok status then status else Status CANCELLED ''terminal response disconnected'') \<and>
    (ie_delivers E (in_writes g) \<longrightarrow> in_sent g' = in_sent g @ [event] \<and>
      (good g \<longrightarrow> map sequence_of (in_sent g') = [1..<Suc (st_sequence t)]))"
proof -
  obtain s where s: "open_at (ie_wire E) i (in_registry g) s" and i: "in_id g = i"
    using assms(1) by (auto simp: streaming_def)
  define r where "r = fold (registry_step (ie_wire E)) (ie_others E (in_calls g)) (in_registry g)"
  have r: "open_at (ie_wire E) i r s"
    using others_spare [OF s others] by (simp add: r_def)
  obtain x r' where op: "close_op (ie_wire E) (ie_now E (in_calls g)) (ie_steady E (in_calls g)) i (closed_of E status g) r = (x, r')"
    by fastforce
  obtain event t where x: "x = Inr event" and ev: "ev_payload event = Closed (closed_of E status g)" "sequence_of event = Suc (st_sequence s)"
    and t: "map_of (rg_streams r') i = Some t" "st_closed t" "ss_closed (st_snapshot t) = Some (closed_of E status g)" "st_sequence t = Suc (st_sequence s)"
    using close_op_closes [OF r op] by blast
  let ?g = "g\<lparr>in_registry := r', in_calls := Suc (in_calls g)\<rparr>"
  have call: "registry_call E (\<lambda>n. close_op (ie_wire E) (ie_now E n) (ie_steady E n) (in_id g) (closed_of E status g)) g = (?g, Inr event)"
    using op by (simp add: registry_call_def r_def [symmetric] i x)
  have "map sequence_of (in_sent g) = [1..<Suc (st_sequence s)]" if "good g"
    using that by (auto simp: clean_def dest!: open_at_unique [OF s])
  with assms(2) call ev t show ?thesis
    by (intro exI [of _ event] exI [of _ t])
      (auto simp: ingest_close_def ingest_write_def Let_def same_account_def split: if_splits)
qed

lemma process_outcome:
  assumes "factory_ok P" "registry_ok (ie_wire E) r" "process E P http items (ingest_new source r) = (g', status)"
    "ingest_body E P http items (ingest_new source r) = (g, e)"
    "asks_for (ingest_new source r) items"
  shows "call_contract E i item_data item_finish items g e g' status"
proof (cases "\<not> evp_init (ie_openssl E) \<or> in_id g = [] \<and> e \<noteq> None")
  case True
  with assms(3,4) show ?thesis
    by (auto simp: process_def call_contract_def ingest_new_def split: if_splits)
next
  case False
  with ingest_body_keeps [OF assms(1,2,4,5)] have k: "in_id g \<noteq> []" "on g" "e = None \<longrightarrow> good g \<and> finished g \<and>
      (\<exists>first used rest. items = first # used @ rest \<and> used \<noteq> [] \<and> item_finish (last used) \<and> in_data g = concat (map item_data used))"
    by blast+
  show ?thesis
  proof (cases "evp_final (ie_openssl E)")
    case True
    then have "ingest_close E (final_status E e g) g = (g', status)"
      using assms(3,4) k(1) False by (simp add: process_def)
    moreover have "in_id g = i" "in_bytes g = length (in_data g)"
      using k(2) by (simp_all add: streaming_def)
    ultimately show ?thesis
      using ingest_close_closes [OF k(2)] k(1,3) True unfolding call_contract_def by blast
  next
    case unfinished: False
    then have "g' = g" "status = Status INTERNAL ''ingress finalization failed''"
      using assms(3,4) k(1) False by (simp_all add: process_def)
    with unfinished k(2) show ?thesis
      by (simp add: call_contract_def)
  qed
qed

end

end
