(* ===== verification/Ingest_Contract.thy ===== *)
theory Ingest_Contract
  imports Media_Service_Proofs
begin

text \<open>
  The contract of \<open>Ingest\<close> and \<open>Pull\<close> (src/streaming/src/service.cpp): both read functions are sources in
  the sense of the locale \<open>ingest_source\<close>, so an opened stream is closed with true counts and
  hash when the digest can be finished, and a call that returns OK has taken, published and shown everything.
\<close>

section \<open>The read functions\<close>

text \<open>An environment in which the other calls leave stream \<open>i\<close> alone.\<close>

definition sparing :: "string \<Rightarrow> ('r, 's) ingest_env \<Rightarrow> ('r, 's) ingest_env" where
  "sparing i E = E\<lparr>ie_others := \<lambda>n. filter (spares i) (ie_others E n)\<rparr>"

lemma sparing_simps [simp]:
  "ie_wire (sparing i E) = ie_wire E" "ie_fresh (sparing i E) = ie_fresh E" "ie_item (sparing i E) = ie_item E"
  "ie_openssl (sparing i E) = ie_openssl E"
  "list_all (spares i) (ie_others (sparing i E) n)"
  by (simp_all add: sparing_def list_all_iff)

lemma sparing_id: "(\<And>n. list_all (spares i) (ie_others E n)) \<Longrightarrow> sparing i E = E"
  by (simp add: sparing_def list_all_iff filter_id_conv cong: filter_cong)

fun request_ends :: "ingest_request \<Rightarrow> bool" where
  "request_ends (Request_finish f) = True"
| "request_ends _ = False"

interpretation wire_source: ingest_source "sparing i (E\<lparr>ie_item := wire_item\<rparr>)" i request_data request_ends for E :: "(ingest_request, unit) ingest_env" and i
  by unfold_locales (auto simp: wire_item_def)

text \<open>The bytes a read of \<open>HttpInput\<close> brings; no bytes mean the end.\<close>

fun pull_data :: "pull_item \<Rightarrow> string" where
  "pull_data (Pull_read (Inr data) code) = data"
| "pull_data _ = []"

fun pull_ends :: "pull_item \<Rightarrow> bool" where
  "pull_ends (Pull_read (Inr data) code) = (data = [])"
| "pull_ends _ = False"

lemma pull_describe_keeps:
  assumes "streaming (ie_wire E) i g" "i = os_stream_id (pe_accepted A)" "\<And>n. list_all (spares i) (ie_others E n)" "pull_describe E A code g = (g', e)"
  shows "streaming (ie_wire E) i g' \<and> same_account g g' \<and> (e = None \<longrightarrow> clean (ie_wire E) i g \<longrightarrow> clean (ie_wire E) i g')"
proof (cases "pu_described (in_source g) \<or> code = 0")
  case True
  with assms show ?thesis
    by (simp add: pull_describe_def)
next
  case False
  let ?event = "blank_event (Http_info (pe_http_info A code))"
  have i: "in_id g = i"
    using assms(1) by (simp add: streaming_def)
  obtain g1 e1 where send: "send_derived E (pe_library A) ?event g = (g1, e1)"
    by fastforce
  note k = send_derived_keeps [OF refl assms(3,1) send]
  have "(e = None) = (e1 = None) \<and> (g' = g1 \<or> (\<exists>u. g' = g1\<lparr>in_source := u\<rparr>))"
    using assms(4) send False
    by (auto simp: pull_describe_def send_derived_def publish_send_def ingest_send_def i assms(2) [symmetric] split: prod.splits sum.splits bool.splits)
  moreover have "streaming (ie_wire E) i (h\<lparr>in_source := u\<rparr>) = streaming (ie_wire E) i h" "clean (ie_wire E) i (h\<lparr>in_source := u\<rparr>) = clean (ie_wire E) i h"
    "same_account g (h\<lparr>in_source := u\<rparr>) = same_account g h" for u and h :: "pull_source ingest"
    by (simp_all add: streaming_def clean_def same_account_def)
  ultimately show ?thesis
    using k by auto
qed

lemma pull_describe_id: "pull_describe E A code g = (g', e) \<Longrightarrow> in_id g' = in_id g"
  by (auto simp: pull_describe_def registry_call_def ingest_write_def Let_def split: prod.splits sum.splits bool.splits if_splits)

lemma pull_chunk_source:
  assumes "pull_chunk data g = (g', x)"
  shows "\<exists>u. g' = g\<lparr>in_source := u\<rparr>" and "x = Inr y \<Longrightarrow> request_data y = data" and "x \<noteq> Inr (Request_open q)" and "x \<noteq> Inr (Request_finish f)"
  using assms by (auto simp: pull_chunk_def Let_def split: if_splits intro!: exI [of _ "in_source g'"])

text \<open>Every item but the first is described, then becomes a request.\<close>

lemma pull_item_cases:
  assumes "pull_item_read E A item g = (g', x)"
  obtains (first) "item = Pull_first" "g' = g" "x = Inr (Request_open (pe_accepted A))"
  | (read) result code h e u where "item = Pull_read result code" "pull_describe E A code g = (h, e)" "g' = h\<lparr>in_source := u\<rparr>"
      "\<And>y. x = Inr y \<Longrightarrow> e = None \<and> request_data y = pull_data item" "\<And>q. x \<noteq> Inr (Request_open q)"
      "\<And>f. x = Inr (Request_finish f) \<Longrightarrow> pull_ends item"
proof (cases item)
  case (Pull_read result code)
  obtain h e where d: "pull_describe E A code g = (h, e)"
    by fastforce
  have same: "h = h\<lparr>in_source := in_source h\<rparr>"
    by simp
  show ?thesis
  proof (cases "\<exists>data. e = None \<and> result = Inr data \<and> data \<noteq> []")
    case True
    then obtain data where data: "e = None" "result = Inr data" "data \<noteq> []"
      by blast
    then have c: "pull_chunk data h = (g', x)"
      using assms d by (simp add: pull_item_read_def Pull_read)
    from pull_chunk_source(1) [OF c] obtain u where "g' = h\<lparr>in_source := u\<rparr>" ..
    from read [OF Pull_read d this] pull_chunk_source(2-) [OF c] data show ?thesis
      by (simp add: Pull_read)
  next
    case False
    with assms d have "g' = h" "\<forall>y. x = Inr y \<longrightarrow> e = None \<and> request_data y = pull_data item" "\<forall>q. x \<noteq> Inr (Request_open q)"
      "\<forall>f. x = Inr (Request_finish f) \<longrightarrow> pull_ends item"
      by (auto simp: pull_item_read_def Pull_read split: option.splits sum.splits if_splits)
    with read [OF Pull_read d] same show ?thesis
      by blast
  qed
qed (use assms first in \<open>simp add: pull_item_read_def\<close>)

lemma source_locals [simp]:
  "streaming W i (h\<lparr>in_source := u\<rparr>) = streaming W i h" "clean W i (h\<lparr>in_source := u\<rparr>) = clean W i h"
  "same_account g (h\<lparr>in_source := u\<rparr>) = same_account g h"
  by (simp_all add: streaming_def clean_def same_account_def)

interpretation pull_source: ingest_source
  "(sparing (os_stream_id (pe_accepted A)) E)\<lparr>ie_item := pull_item_read (sparing (os_stream_id (pe_accepted A)) E) A\<rparr>"
  "os_stream_id (pe_accepted A)" pull_data pull_ends for E A
proof (unfold_locales, goal_cases)
  case (1 n)
  show ?case by (simp add: sparing_def list_all_iff)
next
  case (2 item g g' q)
  then show ?case by (auto elim: pull_item_cases)
next
  case (3 item g g' x)
  then show ?case by (auto elim!: pull_item_cases dest: pull_describe_id)
next
  case (4 item g g' x)
  then have run: "pull_item_read (sparing (os_stream_id (pe_accepted A)) E) A item g = (g', x)" and st: "streaming (ie_wire (sparing (os_stream_id (pe_accepted A)) E)) (os_stream_id (pe_accepted A)) g"
    by simp_all
  from run show ?case
  proof (cases rule: pull_item_cases)
    case (read result code h e u)
    with pull_describe_keeps [OF st refl sparing_simps(5) read(2)] show ?thesis
      by simp
  qed (use 4 in simp)
next
  case (5 item g g' y)
  then have run: "pull_item_read (sparing (os_stream_id (pe_accepted A)) E) A item g = (g', Inr y)" and cl: "clean (ie_wire (sparing (os_stream_id (pe_accepted A)) E)) (os_stream_id (pe_accepted A)) g"
    by simp_all
  then have st: "streaming (ie_wire (sparing (os_stream_id (pe_accepted A)) E)) (os_stream_id (pe_accepted A)) g"
    by (simp add: clean_def)
  from run show ?case
  proof (cases rule: pull_item_cases)
    case (read result code h e u)
    with pull_describe_keeps [OF st refl sparing_simps(5) read(2)] cl show ?thesis
      by simp
  qed (use 5 in simp)
next
  case (6 item g g' y)
  then show ?case by (auto elim!: pull_item_cases)
next
  case (7 item g g' f)
  then show ?case by (auto elim!: pull_item_cases)
qed

section \<open>Ingest\<close>

text \<open>The stream the client's first message asks for.\<close>

fun asked_id :: "string \<Rightarrow> ingest_request list \<Rightarrow> string" where
  "asked_id fresh (Request_open q # requests) = requested_id fresh q"
| "asked_id fresh _ = []"

lemma wire_asks_for: "wire_source.asks_for (asked_id (ie_fresh E) requests) E g requests"
  by (simp add: wire_source.asks_for_def wire_item_def)

lemma ingest_call_outcome:
  assumes "factory_ok P" "registry_ok (ie_wire E) r" "\<forall>n. list_all (spares (asked_id (ie_fresh E) requests)) (ie_others E n)"
    "ingest_call E P requests r = (g', status)" "ingest_body (E\<lparr>ie_item := wire_item\<rparr>) P False requests (ingest_new () r) = (g, e)"
  shows "call_contract (E\<lparr>ie_item := wire_item\<rparr>) (asked_id (ie_fresh E) requests) request_data request_ends requests g e g' status"
proof -
  let ?i = "asked_id (ie_fresh E) requests" and ?E = "E\<lparr>ie_item := wire_item\<rparr>"
  have same: "sparing ?i ?E = ?E"
    by (rule sparing_id) (use assms(3) in simp)
  have ok: "registry_ok (ie_wire (sparing ?i ?E)) r"
    using assms(2) by simp
  have run: "process (sparing ?i ?E) P False requests (ingest_new () r) = (g', status)" "ingest_body (sparing ?i ?E) P False requests (ingest_new () r) = (g, e)"
    using assms(4,5) by (simp_all add: ingest_call_def same)
  from wire_source.process_outcome [OF assms(1) ok run wire_asks_for] show ?thesis
    by (simp only: same)
qed

lemma call_contract_closed:
  assumes "call_contract E i d ends items g e g' status" "in_id g' \<noteq> []" "evp_final (ie_openssl E)"
  shows "\<exists>t c. in_id g' = i \<and> map_of (rg_streams (in_registry g')) i = Some t \<and> st_closed t \<and> ss_closed (st_snapshot t) = Some c \<and>
    cl_source_chunk_count c = in_count g' \<and> cl_source_byte_count c = length (in_data g') \<and> cl_source_sha256 c = sha256 (ie_wire E) (in_data g') \<and>
    (status = Status (cl_status_code c) (cl_message c) \<or> cl_status_code c = OK \<and> status = Status CANCELLED ''terminal response disconnected'')"
proof -
  let ?c = "closed_of E (final_status E e g) g"
  from assms obtain t where t: "in_id g = i" "map_of (rg_streams (in_registry g')) i = Some t" "st_closed t" "ss_closed (st_snapshot t) = Some ?c"
    "in_bytes g = length (in_data g)" "same_account g g'"
    "status = (if ie_delivers E (in_writes g) \<or> \<not> status_ok (final_status E e g) then final_status E e g
      else Status CANCELLED ''terminal response disconnected'')"
    unfolding call_contract_def by blast
  then show ?thesis
    by (intro exI [of _ t] exI [of _ ?c]) (cases "final_status E e g", auto simp: closed_of_def same_account_def)
qed

lemma call_contract_open:
  assumes "call_contract E i d ends items g e g' status" "in_id g' \<noteq> []" "\<not> evp_final (ie_openssl E)"
  shows "status = Status INTERNAL ''ingress finalization failed'' \<and> streaming (ie_wire E) i g'"
  using assms by (auto simp: call_contract_def)

lemma call_contract_final:
  assumes "call_contract E i d ends items g None g' status" "status_ok status"
  shows "evp_final (ie_openssl E) \<and> in_id g' = i \<and> i \<noteq> []"
  using assms by (auto simp: call_contract_def same_account_def)

lemma call_contract_ok:
  assumes "call_contract E i d ends items g None g' status" "status_ok status"
  shows "\<exists>t c events event first used rest. map_of (rg_streams (in_registry g')) i = Some t \<and> ss_closed (st_snapshot t) = Some c \<and> cl_status_code c = OK \<and>
    in_sent g' = events @ [event] \<and> ev_payload event = Closed c \<and> map sequence_of (in_sent g') = [1..<Suc (st_sequence t)] \<and>
    items = first # used @ rest \<and> used \<noteq> [] \<and> ends (last used) \<and> in_data g' = concat (map d used) \<and>
    concat (map sc_data (source_chunks (in_sent g'))) = in_data g' \<and> length (source_chunks (in_sent g')) = in_count g' \<and>
    (\<exists>f. in_finish g' = Some f \<and> fs_chunk_count f = in_count g' \<and> fs_byte_count f = length (in_data g') \<and>
      (fs_sha256 f = [] \<or> fs_sha256 f = sha256 (ie_wire E) (in_data g')))"
proof -
  let ?c = "closed_of E (final_status E None g) g"
  have live: "status \<noteq> Status INTERNAL ''ingress finalization failed''"
    using assms(2) by auto
  from assms(1) live obtain event t where t: "ev_payload event = Closed ?c" "in_bytes g = length (in_data g)" "same_account g g'"
    "map_of (rg_streams (in_registry g')) i = Some t" "ss_closed (st_snapshot t) = Some ?c"
    and st: "status = (if ie_delivers E (in_writes g) \<or> \<not> status_ok (final_status E None g) then final_status E None g
      else Status CANCELLED ''terminal response disconnected'')"
    and sent: "ie_delivers E (in_writes g) \<longrightarrow> in_sent g' = in_sent g @ [event] \<and>
        map sequence_of (in_sent g') = [1..<Suc (st_sequence t)] \<and> clean (ie_wire E) i g \<and> finished g \<and>
        (\<exists>first used rest. items = first # used @ rest \<and> used \<noteq> [] \<and> ends (last used) \<and> in_data g = concat (map d used))"
    unfolding call_contract_def by blast
  from st assms(2) have dl: "ie_delivers E (in_writes g)" and ok: "status_ok (final_status E None g)"
    by (auto split: if_splits)
  have fin: "final_status E None g = Status OK []" "\<not> ie_cancelled E"
    "fs_sha256 f = [] \<or> fs_sha256 f = sha256 (ie_wire E) (in_data g)" if "in_finish g = Some f" for f
    using ok that by (auto simp: final_status_def body_status_def Let_def split: if_splits)
  from sent dl obtain first used rest where u: "items = first # used @ rest" "used \<noteq> []" "ends (last used)" "in_data g = concat (map d used)"
    and s: "in_sent g' = in_sent g @ [event]" "map sequence_of (in_sent g') = [1..<Suc (st_sequence t)]" "clean (ie_wire E) i g" "finished g"
    by blast
  from s(4) obtain f where f: "in_finish g = Some f" "fs_chunk_count f = in_count g" "fs_byte_count f = in_bytes g"
    by (auto simp: finished_def)
  have "source_chunks (in_sent g') = source_chunks (in_sent g)"
    using s(1) t(1) by simp
  with s(3) have src: "concat (map sc_data (source_chunks (in_sent g'))) = in_data g" "length (source_chunks (in_sent g')) = in_count g"
    by (simp_all add: clean_def)
  have acc: "in_data g' = in_data g" "in_count g' = in_count g" "in_finish g' = in_finish g"
    using t(3) by (simp_all add: same_account_def)
  show ?thesis
    using t(1,2,4,5) u s(1,2) f fin(1) [OF f(1)] fin(3) [OF f(1)] src
    by (intro exI [of _ t] exI [of _ ?c] exI [of _ "in_sent g"] exI [of _ event] exI [of _ first] exI [of _ used] exI [of _ rest])
      (simp add: acc closed_of_def)
qed

section \<open>Pull\<close>

lemma pull_asks_for: "os_stream_id (pe_accepted A) \<noteq> [] \<Longrightarrow> pull_source.asks_for A E g (Pull_first # items)"
  by (auto simp: pull_source.asks_for_def pull_item_read_def requested_id_def)

lemma pull_call_outcome:
  assumes "factory_ok P" "registry_ok (ie_wire E) r" "\<forall>n. list_all (spares (requested_id fresh q)) (ie_others E n)" "fresh \<noteq> []"
    "os_source q = Http_source url []" "pull_call E A P (Some q) None fresh reads r = (g', status)"
    "items = Pull_first # map (\<lambda>(result, code). Pull_read result code) reads"
    "B = E\<lparr>ie_item := pull_item_read E (A\<lparr>pe_accepted := q\<lparr>os_stream_id := requested_id fresh q\<rparr>\<rparr>)\<rparr>"
    "ingest_body B P True items (ingest_new \<lparr>pu_count = 0, pu_bytes = 0, pu_described = False\<rparr> r) = (g, e)"
  shows "call_contract B (requested_id fresh q) pull_data pull_ends items g e g' status"
proof -
  let ?i = "requested_id fresh q" and ?A = "A\<lparr>pe_accepted := q\<lparr>os_stream_id := requested_id fresh q\<rparr>\<rparr>"
  have i: "?i \<noteq> []" "os_stream_id (pe_accepted ?A) = ?i"
    using assms(4) by (simp_all add: requested_id_def)
  have same: "sparing (os_stream_id (pe_accepted ?A)) E = E"
    using assms(3) by (intro sparing_id) simp
  have acc: "(if os_stream_id q = [] then q\<lparr>os_stream_id := fresh\<rparr> else q) = q\<lparr>os_stream_id := ?i\<rparr>"
    by (simp add: requested_id_def)
  have run: "process B P True items (ingest_new \<lparr>pu_count = 0, pu_bytes = 0, pu_described = False\<rparr> r) = (g', status)"
    using assms(6) by (simp add: pull_call_def Let_def assms(5,7,8) acc)
  let ?u = "\<lparr>pu_count = 0, pu_bytes = 0, pu_described = False\<rparr>" and ?E = "sparing (os_stream_id (pe_accepted ?A)) E"
  have B: "?E\<lparr>ie_item := pull_item_read ?E ?A\<rparr> = B"
    unfolding same assms(8) ..
  have "registry_ok (ie_wire (?E\<lparr>ie_item := pull_item_read ?E ?A\<rparr>)) r"
    using assms(2) by (simp add: sparing_def)
  moreover have "pull_source.asks_for ?A E (ingest_new ?u r) items"
    unfolding assms(7) by (rule pull_asks_for) (use i in simp)
  ultimately show ?thesis
    using pull_source.process_outcome [of P ?A E r True items ?u g' status g e] assms(1,9) run unfolding B unfolding i(2) by blast
qed

end
