(* ===== verification/Speech_Processing.thy ===== *)
theory Speech_Processing
  imports Pipeline_Proofs Reconcile_Proofs Ingest_Contract
begin

text \<open>
  The speech pipeline as the \<open>Processing\<close> of the media service: \<open>PipelineFactory::create\<close> of
  src/streaming/src/pipeline.cpp gives the pipeline the callback of the call, which publishes to
  the registry and the client. The pipeline is an instance of the locale \<open>processing\<close>, so the
  contract of \<open>Ingest\<close> holds for streams with speech.
\<close>

section \<open>What a call keeps when nothing is thrown\<close>

definition keeps :: "('s \<Rightarrow> bool) \<Rightarrow> ('s \<Rightarrow> 's outcome) \<Rightarrow> bool" where
  "keeps I f \<longleftrightarrow> (\<forall>s s'. I s \<longrightarrow> f s = (s', None) \<longrightarrow> I s')"

lemma keepsD: "keeps I f \<Longrightarrow> I s \<Longrightarrow> f s = (s', None) \<Longrightarrow> I s'"
  by (auto simp: keeps_def)

lemma keeps_then: "keeps I f \<Longrightarrow> keeps I g \<Longrightarrow> keeps I (\<lambda>s. and_then (f s) g)"
  unfolding keeps_def and_then_None_iff by blast

lemma windows_keep:
  assumes "\<And>w. keeps I (\<lambda>c. cb c w)"
  shows emit_keeps: "keeps (\<lambda>sc. I (snd sc)) (windowing_emit cb count bnd overlap)"
    and pause_keeps: "keeps (\<lambda>sc. I (snd sc)) (windowing_pause cb)"
    and limit_keeps: "keeps (\<lambda>sc. I (snd sc)) (windowing_limit cb)"
    and push_keeps: "keeps (\<lambda>sc. I (snd sc)) (windowing_push cb speech x)"
    and push_all_keeps: "keeps (\<lambda>sc. I (snd sc)) (windowing_push_all cb speech xs)"
    and append_keeps: "keeps (\<lambda>sc. I (snd sc)) (windowing_append cb xs speech)"
    and finish_keeps: "keeps (\<lambda>sc. I (snd sc)) (windowing_finish cb)"
    and discontinuity_keeps: "keeps (\<lambda>sc. I (snd sc)) (windowing_discontinuity cb)"
proof -
  have e: "keeps (\<lambda>sc. I (snd sc)) (windowing_emit cb count bnd overlap)" for count bnd overlap
    using assms by (auto simp: keeps_def windowing_emit_def Let_def split: if_splits prod.splits option.splits)
  have p: "keeps (\<lambda>sc. I (snd sc)) (windowing_pause cb)"
    using e by (auto simp: keeps_def windowing_pause_def Let_def split: if_splits)
  have l: "keeps (\<lambda>sc. I (snd sc)) (windowing_limit cb)"
    using e by (auto simp: keeps_def windowing_limit_def Let_def split: if_splits)
  have q: "keeps (\<lambda>sc. I (snd sc)) (windowing_push cb speech x)" for speech x
    unfolding keeps_def
  proof (intro allI impI)
    fix sc sc'
    assume i: "I (snd sc)" and run: "windowing_push cb speech x sc = (sc', None)"
    let ?sc = "(windowing_track speech x (fst sc), snd sc)"
    have x: "f32_isfinite x"
      using run by (cases "f32_isfinite x") (simp_all add: windowing_push_def)
    show "I (snd sc')"
    proof (cases "speech_aware (wd_policy (fst ?sc))")
      case True
      with run x have "and_then (windowing_pause cb ?sc) (windowing_limit cb) = (sc', None)"
        by (simp add: windowing_push_def Let_def)
      from keepsD [OF keeps_then [OF p l] _ this] i show ?thesis by simp
    next
      case False
      show ?thesis
      proof (cases "length (wd_buffer (fst ?sc)) = target_samples (wd_policy (fst ?sc))")
        case True
        with run x False have "windowing_emit cb (length (wd_buffer (fst ?sc))) Fixed (overlap_samples (wd_policy (fst ?sc))) ?sc = (sc', None)"
          unfolding windowing_push_def Let_def fst_conv by simp
        from keepsD [OF e _ this] i show ?thesis by simp
      next
        case neq: False
        with run x False have "?sc = sc'"
          unfolding windowing_push_def Let_def fst_conv by simp
        with i show ?thesis by auto
      qed
    qed
  qed
  have a: "keeps (\<lambda>sc. I (snd sc)) (windowing_push_all cb speech xs)" for speech xs
  proof (induction xs)
    case Nil
    then show ?case by (simp add: keeps_def)
  next
    case (Cons x xs)
    from keeps_then [OF q this] show ?case by simp
  qed
  show "keeps (\<lambda>sc. I (snd sc)) (windowing_emit cb count bnd overlap)" "keeps (\<lambda>sc. I (snd sc)) (windowing_pause cb)"
    "keeps (\<lambda>sc. I (snd sc)) (windowing_limit cb)" "keeps (\<lambda>sc. I (snd sc)) (windowing_push cb speech x)"
    "keeps (\<lambda>sc. I (snd sc)) (windowing_push_all cb speech xs)"
    by (fact e p l q a)+
  show "keeps (\<lambda>sc. I (snd sc)) (windowing_append cb xs speech)"
    using a by (auto simp: keeps_def windowing_append_def split: if_splits)
  show "keeps (\<lambda>sc. I (snd sc)) (windowing_finish cb)" "keeps (\<lambda>sc. I (snd sc)) (windowing_discontinuity cb)"
    using e by (fastforce simp: keeps_def windowing_finish_def windowing_discontinuity_def and_then_None_iff split: if_splits)+
qed

lemma vad_closing_None: "vad_closing r = (vc, None) \<longleftrightarrow> r = (vc, None)"
  by (auto simp: vad_closing_def split: prod.splits option.splits)

lemma detector_keeps:
  assumes "\<And>xs p. keeps I (\<lambda>c. emit c xs p)"
  shows vad_append_keeps: "keeps (\<lambda>vc. I (snd vc)) (vad_append M emit xs)"
    and vad_finish_keeps: "keeps (\<lambda>vc. I (snd vc)) (vad_finish M emit)"
    and vad_discontinuity_keeps: "keeps (\<lambda>vc. I (snd vc)) (vad_discontinuity M emit)"
proof -
  have f: "keeps (\<lambda>vc. I (snd vc)) (vad_flush M emit)"
    using assms by (auto simp: keeps_def vad_flush_def Let_def split: if_splits prod.splits option.splits)
  have s: "keeps (\<lambda>vc. I (snd vc)) (vad_samples M emit xs)" for xs
  proof (induction xs)
    case Nil
    then show ?case by (simp add: keeps_def)
  next
    case (Cons x xs)
    show ?case
      unfolding keeps_def
    proof (intro allI impI)
      fix vc vc'
      assume i: "I (snd vc)" and run: "vad_samples M emit (x # xs) vc = (vc', None)"
      let ?vc = "((fst vc)\<lparr>va_pending := va_pending (fst vc) @ [x]\<rparr>, snd vc)"
      from run obtain vc1 where vc1: "vc1 = ?vc \<or> vad_flush M emit ?vc = (vc1, None)" and rest: "vad_samples M emit xs vc1 = (vc', None)"
        by (auto simp: Let_def and_then_None_iff split: if_splits)
      from vc1 i keepsD [OF f, of ?vc vc1] have "I (snd vc1)"
        by auto
      from keepsD [OF Cons, of vc1, OF this rest] show "I (snd vc')" .
    qed
  qed
  show "keeps (\<lambda>vc. I (snd vc)) (vad_append M emit xs)"
    using s by (auto simp: keeps_def vad_append_def vad_closing_None split: if_splits)
  show "keeps (\<lambda>vc. I (snd vc)) (vad_finish M emit)"
    using f unfolding keeps_def vad_finish_def by (fastforce split: if_splits)
  show "keeps (\<lambda>vc. I (snd vc)) (vad_discontinuity M emit)"
    using f by (fastforce simp: keeps_def vad_discontinuity_def vad_closing_None and_then_None_iff split: if_splits)
qed

section \<open>Everything published has gone through\<close>

definition reconciler_passes :: "'l reconcile_env \<Rightarrow> reconciler \<Rightarrow> bool" where
  "reconciler_passes R s \<longleftrightarrow> re_refuses R (rc_emitted s) = None"

lemma reconciler_passes_fields [simp]:
  "reconciler_passes R (s\<lparr>rc_uncertain := b\<rparr>) = reconciler_passes R s" "reconciler_passes R (s\<lparr>rc_closed := b\<rparr>) = reconciler_passes R s"
  "reconciler_passes R (s\<lparr>rc_pending := ts\<rparr>) = reconciler_passes R s" "reconciler_passes R (s\<lparr>rc_metadata := m\<rparr>) = reconciler_passes R s"
  "reconciler_passes R (window_done h s) = reconciler_passes R s"
  by (simp_all add: reconciler_passes_def)

lemma output_passes: "keeps (reconciler_passes R) (reconcile_output R count final status)"
  unfolding keeps_def
proof (intro allI impI)
  fix s s'
  assume i: "reconciler_passes R s" and run: "reconcile_output R count final status s = (s', None)"
  then show "reconciler_passes R s'"
    by (auto simp: reconcile_output_def reconciler_passes_def Let_def emit_segment_def and_then_None_iff split: if_splits sum.splits prod.splits)
qed

lemma accept_passes: "keeps (reconciler_passes R) (reconcile_accept R h overlap)"
  unfolding keeps_def
proof (intro allI impI)
  fix s s'
  assume i: "reconciler_passes R s" and run: "reconcile_accept R h overlap s = (s', None)"
  from run have "accept_open R h overlap s = (s', None)"
    by (auto simp: reconcile_accept_def split: if_splits prod.splits option.splits)
  then obtain fresh metadata bad s1 tokens status where st: "settle_pending R h fresh metadata bad s = ((s1, None), tokens, status)"
    and e: "emit_window R h overlap bad tokens metadata status s1 = (s', None)"
    by (auto simp: accept_open_def Let_def and_then_None_iff split: if_splits sum.splits prod.splits)
  have "reconciler_passes R s1"
    using st i keepsD [OF output_passes, of R s] by (auto simp: settle_pending_def Let_def and_then_None_iff split: if_splits)
  from e show "reconciler_passes R s'"
  proof (cases rule: emit_window_None)
    case (1 s2 s3 st)
    have "reconciler_passes R s2"
      by (rule keepsD [OF output_passes _ 1(3)]) (simp add: \<open>reconciler_passes R s1\<close>)
    moreover have "s3 = s2\<lparr>rc_uncertain := rc_uncertain s3\<rparr> \<or> (\<exists>b. reconcile_output R (length (rc_pending s2)) False RS_PENDING (s2\<lparr>rc_uncertain := b\<rparr>) = (s3, None))"
      using 1(4) by (auto simp: output_pending_def Let_def split: if_splits)
    ultimately have "reconciler_passes R s3"
      using keepsD [OF output_passes] reconciler_passes_fields(1) by metis
    with 1(5) show ?thesis by simp
  qed
qed

lemma finish_passes: "keeps (reconciler_passes R) (reconcile_finish R)"
  unfolding keeps_def
proof (intro allI impI)
  fix s s'
  assume i: "reconciler_passes R s" and run: "reconcile_finish R s = (s', None)"
  from run have "reconcile_output R (length (rc_pending s)) True (flush_status s) (s\<lparr>rc_closed := True\<rparr>) = (s', None)"
    by (simp add: reconcile_finish_def split: if_splits)
  from keepsD [OF output_passes _ this] i show "reconciler_passes R s'"
    by simp
qed

definition passes :: "('w, 'v, 'l) track_env \<Rightarrow> 'w track \<Rightarrow> bool" where
  "passes T t \<longleftrightarrow> te_refuses T (tr_events t) = None"

lemma passes_fields [simp]:
  "passes T (t\<lparr>tr_wire := w\<rparr>) = passes T t" "passes T (t\<lparr>tr_count := n\<rparr>) = passes T t" "passes T (t\<lparr>tr_done := b\<rparr>) = passes T t"
  "passes T (t\<lparr>tr_time_offset := x\<rparr>) = passes T t"
  by (simp_all add: passes_def)

lemma track_reconcile_passes:
  assumes "\<And>R. keeps (reconciler_passes R) (call R)"
  shows "keeps (passes T) (track_reconcile T call)"
  unfolding keeps_def
proof (intro allI impI)
  fix t t'
  assume i: "passes T t" and run: "track_reconcile T call t = (t', None)"
  show "passes T t'"
  proof (cases "tr_reconciler t")
    case (Some rc)
    let ?R = "(te_reconcile T)\<lparr>re_refuses := \<lambda>segs. te_refuses T (tr_events t @ map (reconciled_event T t) (drop (length (rc_emitted rc)) segs))\<rparr>"
    obtain rc1 where c: "call ?R rc = (rc1, None)"
      and t': "t' = t\<lparr>tr_reconciler := Some rc1, tr_events := tr_events t @ map (reconciled_event T t) (drop (length (rc_emitted rc)) (rc_emitted rc1))\<rparr>"
      using run Some by (auto simp: track_reconcile_def Let_def split: prod.splits)
    have "reconciler_passes ?R rc1"
      by (rule keepsD [OF assms _ c]) (use i in \<open>simp add: reconciler_passes_def passes_def\<close>)
    then show ?thesis
      by (simp add: t' passes_def reconciler_passes_def)
  qed (use i run in \<open>simp add: track_reconcile_def\<close>)
qed

lemma track_emit_passes: "track_emit T ev t = (t', None) \<Longrightarrow> passes T t'"
  by (auto simp: track_emit_def passes_def Let_def)

lemma track_exchange_passes:
  assumes "\<And>response. keeps (passes T) (k response)"
  shows "keeps (passes T) (track_exchange T request k)"
  unfolding keeps_def using keepsD [OF assms]
  by (auto simp: track_exchange_def track_failed_def split: prod.splits bool.splits option.splits) (metis passes_fields(1))

lemma track_infer_passes: "keeps (passes T) (\<lambda>t. track_infer T t w)"
proof -
  have "keeps (passes T) (publish_hypothesis T w response)" for response
    unfolding keeps_def
  proof (intro allI impI)
    fix t t'
    assume i: "passes T t" and run: "publish_hypothesis T w response t = (t', None)"
    then consider "t' = t" | t1 t2 ev h n where "track_emit T ev t = (t1, None)"
        "track_reconcile T (\<lambda>R. reconcile_accept R h n) t1 = (t2, None)" "t' = t2\<lparr>tr_count := tr_count t2 + 1\<rparr>"
      by (auto simp: publish_hypothesis_def and_then_None_iff split: worker_response.splits sum.splits)
    then show "passes T t'"
    proof cases
      case 2
      from keepsD [OF track_reconcile_passes [OF accept_passes] track_emit_passes [OF 2(1)] 2(2)] 2(3) show ?thesis
        by simp
    qed (use i in simp)
  qed
  then have "keeps (passes T) (\<lambda>t. and_then (require (answers_window T t w response) why t) (publish_hypothesis T w response))" for response why
    unfolding keeps_def and_then_None_iff require_None by blast
  then show ?thesis
    unfolding track_infer_def by (rule track_exchange_passes)
qed

abbreviation track_passes :: "('w, 'v, 'l) track_env \<Rightarrow> ('w, 'v) speech_track \<Rightarrow> bool" where
  "track_passes T st \<equiv> passes T (st_track st)"

lemma on_windows_passes: "keeps (\<lambda>sc. passes T (snd sc)) f \<Longrightarrow> keeps (track_passes T) (on_windows f)"
  by (fastforce simp: keeps_def on_windows_def split: prod.splits)

lemma on_vad_passes: "keeps (\<lambda>vc. passes T (snd (snd vc))) f \<Longrightarrow> keeps (track_passes T) (on_vad f v)"
  by (fastforce simp: keeps_def on_vad_def split: prod.splits)

lemma vad_to_windows_passes: "keeps (\<lambda>sc. passes T (snd sc)) (\<lambda>sc. vad_to_windows T sc xs p)"
  unfolding vad_to_windows_def by (rule append_keeps [OF track_infer_passes])

lemma keeps_stage:
  assumes "\<And>v. keeps I (f v)" "keeps I g"
  shows "keeps I (\<lambda>st. case st_vad st of None \<Rightarrow> g st | Some v \<Rightarrow> f v st)"
  unfolding keeps_def
proof (intro allI impI)
  fix st st'
  assume "I st" "(case st_vad st of None \<Rightarrow> g st | Some v \<Rightarrow> f v st) = (st', None)"
  then show "I st'"
    by (cases "st_vad st") (simp_all, blast intro: keepsD [OF assms(2)], blast intro: keepsD [OF assms(1)])
qed

lemma keeps_skip: "keeps I (\<lambda>s. (s, None))"
  by (simp add: keeps_def)

lemmas stage_passes =
  on_vad_passes [OF vad_append_keeps [OF vad_to_windows_passes]] on_vad_passes [OF vad_finish_keeps [OF vad_to_windows_passes]]
  on_vad_passes [OF vad_discontinuity_keeps [OF vad_to_windows_passes]]
  on_windows_passes [OF append_keeps [OF track_infer_passes]] on_windows_passes [OF finish_keeps [OF track_infer_passes]]
  on_windows_passes [OF discontinuity_keeps [OF track_infer_passes]]

lemma track_discontinuity_passes: "keeps (track_passes T) (track_discontinuity T)"
  unfolding track_discontinuity_def
  by (intro keeps_then keeps_stage keeps_skip stage_passes) (simp add: keeps_def)

lemma track_timestamp_passes: "keeps (track_passes T) (track_timestamp audio)"
  by (auto simp: keeps_def track_timestamp_def and_then_None_iff split: option.splits sum.splits)

lemma track_samples_passes: "keeps (track_passes T) (track_samples T xs)"
  unfolding track_samples_def
  by (intro keeps_then keeps_stage stage_passes) (simp add: keeps_def)

lemma track_audio_passes: "keeps (track_passes T) (track_audio T audio)"
proof -
  have d: "keeps (track_passes T) (\<lambda>st. if ac_discontinuity audio then track_discontinuity T st else (st, None))"
    using track_discontinuity_passes [of T] by (simp add: keeps_def)
  have "keeps (track_passes T) (\<lambda>st. and_then (if ac_discontinuity audio then track_discontinuity T st else (st, None)) (\<lambda>st1.
      and_then (track_timestamp audio st1) (\<lambda>st2. track_samples T xs st2)))" for xs
    by (intro keeps_then d track_timestamp_passes track_samples_passes)
  then show ?thesis
    unfolding keeps_def track_audio_def and_then_None_iff require_None apsnd_None by blast
qed

lemma track_close_passes: "keeps (passes T) (track_close T)"
  unfolding keeps_def
proof (intro allI impI)
  fix t t'
  assume i: "passes T t" and run: "track_close T t = (t', None)"
  then obtain w where "track_reconcile T reconcile_finish (t\<lparr>tr_wire := w, tr_done := True\<rparr>) = (t', None)"
    by (auto simp: track_close_def track_failed_def and_then_None_iff Let_def split: prod.splits bool.splits option.splits if_splits)
  from keepsD [OF track_reconcile_passes [OF finish_passes] _ this] i show "passes T t'"
    by simp
qed

lemma track_finish_passes: "keeps (track_passes T) (track_finish T)"
proof -
  have a: "keeps (track_passes T) (\<lambda>st. and_then (case st_vad st of None \<Rightarrow> (st, None) | Some v \<Rightarrow> on_vad (vad_finish (te_vad T) (vad_to_windows T)) v st)
      (on_windows (windowing_finish (track_infer T))))"
    by (intro keeps_then keeps_stage keeps_skip stage_passes)
  have b: "keeps (track_passes T) (\<lambda>st1. case track_close T (st_track st1) of (t, e) \<Rightarrow> (st1\<lparr>st_track := t\<rparr>, e))"
    using keepsD [OF track_close_passes] by (auto simp: keeps_def split: prod.splits)
  show ?thesis
    unfolding track_finish_def
    by (rule keeps_then [OF _ b]) (use a in \<open>simp add: keeps_def\<close>)
qed

section \<open>The pipeline\<close>

definition pipeline_passes :: "('w, 'v, 'l) track_env \<Rightarrow> ('w, 'v) pipeline \<Rightarrow> bool" where
  "pipeline_passes T p \<longleftrightarrow> te_refuses T (pl_events p) = None"

lemma on_track_passes:
  assumes "keeps (track_passes T) f"
  shows "keeps (pipeline_passes T) (on_track key st f)"
  unfolding keeps_def
proof (intro allI impI)
  fix p p'
  assume i: "pipeline_passes T p" and run: "on_track key st f p = (p', None)"
  then obtain st1 where f: "f (st\<lparr>st_track := (st_track st)\<lparr>tr_events := pl_events p\<rparr>\<rparr>) = (st1, None)" and p': "pl_events p' = tr_events (st_track st1)"
    by (auto simp: on_track_def split: prod.splits)
  have "track_passes T st1"
    by (rule keepsD [OF assms _ f]) (use i in \<open>simp add: passes_def pipeline_passes_def\<close>)
  then show "pipeline_passes T p'"
    by (simp add: passes_def pipeline_passes_def p')
qed

lemma pipeline_audio_passes: "keeps (pipeline_passes T) (pipeline_audio T audio)"
proof -
  have task: "keeps (pipeline_passes T) (pipeline_task T audio task)" for task
    using keepsD [OF on_track_passes [OF track_audio_passes]]
    by (auto simp: keeps_def pipeline_task_def Let_def split: option.splits if_splits prod.splits sum.splits)
  have "keeps (pipeline_passes T) (pipeline_tasks T audio tasks)" for tasks
  proof (induction tasks)
    case (Cons task tasks)
    from keeps_then [OF task this] show ?case by simp
  qed (simp add: keeps_def)
  then show ?thesis
    by (simp add: keeps_def pipeline_audio_def)
qed

lemma pipeline_finish_passes: "keeps (pipeline_passes T) (pipeline_finish T)"
proof -
  have "keeps (pipeline_passes T) (finish_tracks T tracks)" for tracks
  proof (induction tracks)
    case (Cons track tracks)
    obtain key st where track: "track = (key, st)"
      by fastforce
    from keeps_then [OF on_track_passes [OF track_finish_passes] Cons] show ?case
      by (simp add: track)
  qed (simp add: keeps_def)
  then show ?thesis
    by (auto simp: keeps_def pipeline_finish_def split: if_splits)
qed

section \<open>The factory of the service\<close>

text \<open>A call of the pipeline with the callback \<open>emit\<close> of the media service: the pipeline's publications go to \<open>emit\<close> one by one,
  and an exception of \<open>emit\<close> is the exception of the publication.\<close>

definition piped ::
  "('w, 'v, 'l) track_env \<Rightarrow> (('w, 'v, 'l) track_env \<Rightarrow> ('w, 'v) pipeline \<Rightarrow> ('w, 'v) pipeline outcome) \<Rightarrow>
   's emit_processed \<Rightarrow> ('w, 'v) pipeline \<times> 's \<Rightarrow> (('w, 'v) pipeline \<times> 's) outcome" where
  "piped T call emit ps =
     (case ps of (p, s) \<Rightarrow>
        let published = (\<lambda>events. emit_all emit (drop (length (pl_events p)) events) s) in
        (case call (T\<lparr>te_refuses := \<lambda>events. snd (published events)\<rparr>) p of
           (p1, e) \<Rightarrow> ((p1, fst (published (pl_events p1))), e)))"

definition speech_factory :: "('w, 'v, 'l) track_env \<Rightarrow> string \<Rightarrow> string \<Rightarrow> (('w, 'v) pipeline, 's) processing_factory" where
  "speech_factory T vad_weights machine = \<lparr>pf_resolve = pipeline_resolve vad_weights,
     pf_create = \<lambda>stream_id request. pipeline_create stream_id request vad_weights machine,
     pf_audio = \<lambda>emit audio. piped T (\<lambda>T. pipeline_audio T audio) emit, pf_finish = piped T pipeline_finish,
     pf_minimum_window_advance_ms = Some minimum_advance_ms\<rparr>"

lemma piped_emits:
  assumes "\<And>T. keeps (pipeline_passes T) (call T)" "piped T call emit ps = ((p', s'), e)"
  shows "\<exists>events e'. emit_all emit events (snd ps) = (s', e') \<and> (e = None \<longrightarrow> e' = None)"
proof -
  obtain p s where ps: "ps = (p, s)"
    by fastforce
  let ?published = "\<lambda>events. emit_all emit (drop (length (pl_events p)) events) s"
  let ?T = "T\<lparr>te_refuses := \<lambda>events. snd (?published events)\<rparr>"
  have run: "call ?T p = (p', e)" "s' = fst (?published (pl_events p'))"
    using assms(2) by (auto simp: piped_def ps Let_def split: prod.splits)
  have "pipeline_passes ?T p'" if "e = None"
    by (rule keepsD [OF assms(1), of ?T p]) (use run(1) that in \<open>simp_all add: pipeline_passes_def\<close>)
  then have "e = None \<longrightarrow> snd (?published (pl_events p')) = None"
    by (simp add: pipeline_passes_def)
  then show ?thesis
    using run(2) by (intro exI [of _ "drop (length (pl_events p)) (pl_events p')"] exI [of _ "snd (?published (pl_events p'))"]) (simp add: ps)
qed

lemma pipeline_resolve_id: "pipeline_resolve vad_weights q = Inr q' \<Longrightarrow> os_stream_id q' = os_stream_id q"
  by (auto simp: pipeline_resolve_def split: if_splits sum.splits)

interpretation speech: processing "pipeline_resolve vad_weights" "\<lambda>emit audio. piped T (\<lambda>T. pipeline_audio T audio) emit" "piped T pipeline_finish"
  for T vad_weights
  by unfold_locales (blast intro: pipeline_resolve_id, rule piped_emits [OF pipeline_audio_passes], assumption,
    rule piped_emits [OF pipeline_finish_passes], assumption)

text \<open>The factory a server is started with: none, or the speech pipeline with its environment, its detector's weights and its
  machine.\<close>

definition service_factory :: "(('w, 'v, 'l) track_env \<times> string \<times> string) option \<Rightarrow> (('w, 'v) pipeline, 's) processing_factory option" where
  "service_factory routing = map_option (\<lambda>(T, vad_weights, machine). speech_factory T vad_weights machine) routing"

lemma service_factory_ok: "factory_ok (service_factory routing)"
  by (auto simp: factory_ok_def service_factory_def speech_factory_def intro: speech.processing_axioms)

section \<open>The contract of Ingest\<close>

text \<open>C5: What \<open>Ingest\<close> leaves of a stream it opened, whatever the client, the decoder, the pipeline and the network did, when no other
  call wrote to this stream (the hypothesis \<open>spares\<close>: a call writes only to the stream it opened, and the registry refuses
  a second one of the same name). When OpenSSL can finish the digest, the stream is closed: the registry's terminal record has the number of
  chunks taken, their total length, the SHA-256 of exactly these bytes, and the code and message the call returns, unless only
  the terminal response was lost. When it cannot, \<open>registry_.close\<close> is skipped: the call returns INTERNAL and the stream stays
  open in the registry.\<close>

theorem ingest_closes_stream:
  assumes "registry_ok (ie_wire E) r" "\<forall>n. list_all (spares (asked_id (ie_fresh E) requests)) (ie_others E n)"
    "ingest_call E (service_factory routing) requests r = (g, status)" "in_id g \<noteq> []"
  shows "in_id g = asked_id (ie_fresh E) requests \<and>
    (if evp_final (ie_openssl E)
     then \<exists>t c. map_of (rg_streams (in_registry g)) (in_id g) = Some t \<and> st_closed t \<and>
       ss_closed (st_snapshot t) = Some c \<and> cl_source_chunk_count c = in_count g \<and> cl_source_byte_count c = length (in_data g) \<and>
       cl_source_sha256 c = sha256 (ie_wire E) (in_data g) \<and>
       (status = Status (cl_status_code c) (cl_message c) \<or> cl_status_code c = OK \<and> status = Status CANCELLED ''terminal response disconnected'')
     else status = Status INTERNAL ''ingress finalization failed'' \<and>
       (\<exists>t. map_of (rg_streams (in_registry g)) (in_id g) = Some t \<and> \<not> st_closed t))"
proof -
  obtain g1 e where body: "ingest_body (E\<lparr>ie_item := wire_item\<rparr>) (service_factory routing) False requests (ingest_new () r) = (g1, e)"
    by fastforce
  note k = ingest_call_outcome [OF service_factory_ok assms(1-3) body]
  have i: "in_id g = asked_id (ie_fresh E) requests"
    using k assms(4) by (auto simp: call_contract_def streaming_def same_account_def)
  show ?thesis
  proof (cases "evp_final (ie_openssl E)")
    case True
    with call_contract_closed [OF k assms(4)] i show ?thesis
      by auto
  next
    case False
    with call_contract_open [OF k assms(4)] i show ?thesis
      by (auto simp: streaming_def open_at_def)
  qed
qed

text \<open>C4: When \<open>Ingest\<close> returns OK and nothing was thrown, the client's whole source was taken: every message from the first
  up to \<open>FinishStream\<close>, whose counts and hash agree. The client got every event of the stream, numbered 1 to the last
  without a gap, among them one source event per chunk, which together carry exactly the client's bytes; the last is
  the terminal event with OK, which the registry keeps.\<close>

theorem ingest_ok_complete:
  assumes "registry_ok (ie_wire E) r" "\<forall>n. list_all (spares (asked_id (ie_fresh E) requests)) (ie_others E n)"
    "ingest_call E (service_factory routing) requests r = (g, status)" "status_ok status"
    "snd (ingest_body (E\<lparr>ie_item := wire_item\<rparr>) (service_factory routing) False requests (ingest_new () r)) = None"
  shows "\<exists>t c events event first used rest. map_of (rg_streams (in_registry g)) (asked_id (ie_fresh E) requests) = Some t \<and>
    ss_closed (st_snapshot t) = Some c \<and> cl_status_code c = OK \<and>
    in_sent g = events @ [event] \<and> ev_payload event = Closed c \<and> map sequence_of (in_sent g) = [1..<Suc (st_sequence t)] \<and>
    requests = first # used @ rest \<and> used \<noteq> [] \<and> request_ends (last used) \<and> in_data g = concat (map request_data used) \<and>
    concat (map sc_data (source_chunks (in_sent g))) = in_data g \<and> length (source_chunks (in_sent g)) = in_count g \<and>
    (\<exists>f. in_finish g = Some f \<and> fs_chunk_count f = in_count g \<and> fs_byte_count f = length (in_data g) \<and>
      (fs_sha256 f = [] \<or> fs_sha256 f = sha256 (ie_wire E) (in_data g)))"
proof -
  obtain g1 where "ingest_body (E\<lparr>ie_item := wire_item\<rparr>) (service_factory routing) False requests (ingest_new () r) = (g1, None)"
    using assms(5) by (metis prod.collapse)
  from call_contract_ok [OF ingest_call_outcome [OF service_factory_ok assms(1-3) this] assms(4)] show ?thesis
    by simp
qed

definition demo_openssl :: openssl where
  "demo_openssl = \<lparr>evp_init = True, evp_digest = \<lambda>_. True, evp_update = \<lambda>_. True, evp_final = True\<rparr>"

definition demo_ingest :: "(ingest_request, unit) ingest_env" where
  "demo_ingest = \<lparr>ie_wire = demo_wire, ie_now = \<lambda>_. (0, 0), ie_steady = \<lambda>n. n, ie_fresh = [], ie_incarnation = ''i'', ie_others = \<lambda>_. [],
     ie_delivers = \<lambda>_. True, ie_item = wire_item, ie_cancelled = False, ie_decoder = ([], None), ie_library = [],
     ie_openssl = demo_openssl\<rparr>"

text \<open>A server without a speech worker.\<close>

definition demo_factory :: "((unit, unit) pipeline, unit ingest) processing_factory option" where
  "demo_factory = service_factory (None :: ((unit, unit, unit) track_env \<times> string \<times> string) option)"

definition demo_requests :: "ingest_request list" where
  "demo_requests = [Request_open demo_open, Request_chunk \<lparr>sc_chunk_number = 1, sc_byte_offset = 0, sc_data = ''a'', sc_sha256 = []\<rparr>,
     Request_finish \<lparr>fs_chunk_count = 1, fs_byte_count = 1, fs_sha256 = []\<rparr>]"

lemma demo_id_set [simp]: "demo_id \<noteq> []"
  by (simp add: demo_id_def)

lemmas demo_ingest_defs = ingest_call_def process_def ingest_body_def ingest_new_def wire_item_def registry_call_def resolve_open_def
  open_op_def make_room_def open_refusal_def is_direct_def audio_tracks_def direct_of_def demo_id_valid answer_def publish_def stamp_def
  ingest_send_def ingest_write_def stream_body_def drain_source.simps [of E "(x # xs, g)" for E x xs g] next_chunk_def take_chunk_def chunk_refusal_def publish_send_def
  source_op_def find_open_def check_finish_def finish_processing_def final_status_def body_status_def ingest_close_def close_op_def Let_def
  demo_open_def demo_registry_def demo_limits_def map_insert.simps stream_new_def blank_event_def alive_def demo_openssl_def

lemma demo_ingest_runs:
  "\<exists>g. ingest_call demo_ingest demo_factory demo_requests demo_registry = (g, Status OK []) \<and> in_id g = demo_id \<and>
    (\<exists>g. ingest_body (demo_ingest\<lparr>ie_item := wire_item\<rparr>) demo_factory False demo_requests
      (ingest_new () demo_registry) = (g, None))"
  by (simp add: demo_ingest_def demo_factory_def service_factory_def demo_requests_def demo_ingest_defs)

lemma demo_ingest_env: "ie_wire demo_ingest = demo_wire" "\<forall>n. list_all (spares i) (ie_others demo_ingest n)"
  by (simp_all add: demo_ingest_def)

text \<open>The same call when the digest cannot be finished.\<close>

definition demo_unfinished :: "(ingest_request, unit) ingest_env" where
  "demo_unfinished = demo_ingest\<lparr>ie_openssl := demo_openssl\<lparr>evp_final := False\<rparr>\<rparr>"

lemma demo_unfinished_runs:
  "\<exists>g. ingest_call demo_unfinished demo_factory demo_requests demo_registry = (g, Status INTERNAL ''ingress finalization failed'') \<and>
    in_id g = demo_id"
  by (simp add: demo_unfinished_def demo_ingest_def demo_factory_def service_factory_def demo_requests_def demo_ingest_defs)

lemma demo_unfinished_env: "ie_wire demo_unfinished = demo_wire" "\<forall>n. list_all (spares i) (ie_others demo_unfinished n)"
  by (simp_all add: demo_unfinished_def demo_ingest_def)

theorem ingest_closes_stream_witness:
  "(\<exists>g t c. ingest_call demo_ingest demo_factory demo_requests demo_registry = (g, Status OK []) \<and>
    map_of (rg_streams (in_registry g)) demo_id = Some t \<and> st_closed t \<and> ss_closed (st_snapshot t) = Some c \<and>
    cl_source_chunk_count c = in_count g) \<and>
   (\<exists>g t. ingest_call demo_unfinished demo_factory demo_requests demo_registry = (g, Status INTERNAL ''ingress finalization failed'') \<and>
    map_of (rg_streams (in_registry g)) demo_id = Some t \<and> \<not> st_closed t)"
proof
  obtain g where run: "ingest_call demo_ingest demo_factory demo_requests demo_registry = (g, Status OK [])"
    and i: "in_id g = demo_id"
    using demo_ingest_runs by blast
  have env: "registry_ok (ie_wire demo_ingest) demo_registry" "evp_final (ie_openssl demo_ingest)"
    by (simp_all add: demo_ingest_env demo_registry_ok) (simp add: demo_ingest_def demo_openssl_def)
  from ingest_closes_stream [OF env(1) demo_ingest_env(2) run [unfolded demo_factory_def]] i run env(2)
  show "\<exists>g t c. ingest_call demo_ingest demo_factory demo_requests demo_registry = (g, Status OK []) \<and>
      map_of (rg_streams (in_registry g)) demo_id = Some t \<and> st_closed t \<and> ss_closed (st_snapshot t) = Some c \<and> cl_source_chunk_count c = in_count g"
    by auto
next
  obtain g where run: "ingest_call demo_unfinished demo_factory demo_requests demo_registry = (g, Status INTERNAL ''ingress finalization failed'')"
    and i: "in_id g = demo_id"
    using demo_unfinished_runs by blast
  have env: "registry_ok (ie_wire demo_unfinished) demo_registry" "\<not> evp_final (ie_openssl demo_unfinished)"
    by (simp_all add: demo_unfinished_env demo_registry_ok) (simp add: demo_unfinished_def)
  from ingest_closes_stream [OF env(1) demo_unfinished_env(2) run [unfolded demo_factory_def]] i run env(2)
  show "\<exists>g t. ingest_call demo_unfinished demo_factory demo_requests demo_registry = (g, Status INTERNAL ''ingress finalization failed'') \<and>
      map_of (rg_streams (in_registry g)) demo_id = Some t \<and> \<not> st_closed t"
    by auto
qed

theorem ingest_ok_complete_witness:
  "\<exists>g. ingest_call demo_ingest demo_factory demo_requests demo_registry = (g, Status OK []) \<and>
    concat (map sc_data (source_chunks (in_sent g))) = in_data g \<and> length (source_chunks (in_sent g)) = in_count g"
proof -
  obtain g where run: "ingest_call demo_ingest demo_factory demo_requests demo_registry = (g, Status OK [])"
    and body: "snd (ingest_body (demo_ingest\<lparr>ie_item := wire_item\<rparr>) demo_factory False demo_requests
      (ingest_new () demo_registry)) = None"
    using demo_ingest_runs by fastforce
  have ok: "registry_ok (ie_wire demo_ingest) demo_registry"
    by (simp add: demo_ingest_env demo_registry_ok)
  from ingest_ok_complete [OF ok demo_ingest_env(2) run [unfolded demo_factory_def] _ body [unfolded demo_factory_def]] run show ?thesis
    by auto
qed

section \<open>The contract of Pull\<close>

definition read_bytes :: "(exn + string) \<times> int \<Rightarrow> string" where
  "read_bytes read = (case fst read of Inr data \<Rightarrow> data | Inl e \<Rightarrow> [])"

lemma pull_items_used:
  assumes "Pull_first # map (\<lambda>(result, code). Pull_read result code) reads = first # used @ rest" "used \<noteq> []" "pull_ends (last used)"
  shows "\<exists>n < length reads. fst (reads ! n) = Inr [] \<and> concat (map pull_data used) = concat (map read_bytes (take n reads))"
proof -
  let ?item = "\<lambda>(result, code). Pull_read result code"
  obtain xs y where used: "used = xs @ [y]"
    using assms(2) by (cases used rule: rev_cases) auto
  have m: "map ?item reads = (xs @ [y]) @ rest"
    using assms(1) by (simp add: used)
  have n: "length xs < length reads"
    using arg_cong [OF m, of length] by simp
  have y: "y = ?item (reads ! length xs)"
    using arg_cong [OF m, of "\<lambda>l. l ! length xs"] n by simp
  have xs: "xs = map ?item (take (length xs) reads)"
    using arg_cong [OF m, of "take (length xs)"] by (simp add: take_map)
  have bytes: "pull_data (?item r) = read_bytes r" for r
    by (cases r; cases "fst r") (auto simp: read_bytes_def)
  have "fst (reads ! length xs) = Inr []"
    using assms(3) y by (cases "reads ! length xs"; cases "fst (reads ! length xs)") (auto simp: used)
  moreover have "concat (map pull_data xs) = concat (map read_bytes (take (length xs) reads))"
    by (subst xs) (simp add: bytes comp_def)
  moreover have "pull_data y = []"
    using \<open>fst (reads ! length xs) = Inr []\<close> y bytes by (simp add: read_bytes_def)
  ultimately show ?thesis
    using n by (intro exI [of _ "length xs"]) (simp add: used)
qed

text \<open>C34: When \<open>Pull\<close> returns OK and nothing was thrown, the source was read up to its end: the bytes of all reads before the empty
  one, in order, are the bytes of the source events, which the client got among all events of the stream, numbered without
  a gap; the counts of the terminal record are those of these bytes.\<close>

theorem pull_ok_complete:
  assumes "registry_ok (ie_wire E) r" "\<forall>n. list_all (spares (requested_id fresh q)) (ie_others E n)" "fresh \<noteq> []" "os_source q = Http_source url []"
    "pull_call E A (service_factory routing) (Some q) None fresh reads r = (g, status)" "status_ok status"
    "snd (ingest_body (E\<lparr>ie_item := pull_item_read E (A\<lparr>pe_accepted := q\<lparr>os_stream_id := requested_id fresh q\<rparr>\<rparr>)\<rparr>) (service_factory routing) True
      (Pull_first # map (\<lambda>(result, code). Pull_read result code) reads)
      (ingest_new \<lparr>pu_count = 0, pu_bytes = 0, pu_described = False\<rparr> r)) = None"
  shows "\<exists>t c events event n. map_of (rg_streams (in_registry g)) (requested_id fresh q) = Some t \<and> ss_closed (st_snapshot t) = Some c \<and>
    cl_status_code c = OK \<and> cl_source_byte_count c = length (in_data g) \<and> cl_source_chunk_count c = length (source_chunks (in_sent g)) \<and>
    in_sent g = events @ [event] \<and> ev_payload event = Closed c \<and> map sequence_of (in_sent g) = [1..<Suc (st_sequence t)] \<and>
    n < length reads \<and> fst (reads ! n) = Inr [] \<and> in_data g = concat (map read_bytes (take n reads)) \<and>
    concat (map sc_data (source_chunks (in_sent g))) = in_data g"
proof -
  let ?B = "E\<lparr>ie_item := pull_item_read E (A\<lparr>pe_accepted := q\<lparr>os_stream_id := requested_id fresh q\<rparr>\<rparr>)\<rparr>"
  let ?items = "Pull_first # map (\<lambda>(result, code). Pull_read result code) reads"
  obtain g1 where body: "ingest_body ?B (service_factory routing) True ?items (ingest_new \<lparr>pu_count = 0, pu_bytes = 0, pu_described = False\<rparr> r) = (g1, None)"
    using assms(7) by (metis prod.collapse)
  note k = pull_call_outcome [OF service_factory_ok assms(1-5) refl refl body]
  from call_contract_ok [OF k assms(6)] obtain t c events event first used rest where
    t: "map_of (rg_streams (in_registry g)) (requested_id fresh q) = Some t" "ss_closed (st_snapshot t) = Some c" "cl_status_code c = OK"
    "in_sent g = events @ [event]" "ev_payload event = Closed c" "map sequence_of (in_sent g) = [1..<Suc (st_sequence t)]"
    and u: "?items = first # used @ rest" "used \<noteq> []" "pull_ends (last used)" "in_data g = concat (map pull_data used)"
    and src: "concat (map sc_data (source_chunks (in_sent g))) = in_data g" "length (source_chunks (in_sent g)) = in_count g"
    by blast
  from pull_items_used [OF u(1-3)] obtain n where n: "n < length reads" "fst (reads ! n) = Inr []" "in_data g = concat (map read_bytes (take n reads))"
    using u(4) by auto
  have "in_id g \<noteq> []"
    using call_contract_final [OF k assms(6)] by simp
  from call_contract_closed [OF k this] call_contract_final [OF k assms(6)] t(1,2) have "cl_source_chunk_count c = in_count g" "cl_source_byte_count c = length (in_data g)"
    by auto
  with t n src show ?thesis
    by (intro exI [of _ t] exI [of _ c] exI [of _ events] exI [of _ event] exI [of _ n]) simp
qed

definition demo_pull :: "(pull_item, pull_source) ingest_env" where
  "demo_pull = \<lparr>ie_wire = demo_wire, ie_now = \<lambda>_. (0, 0), ie_steady = \<lambda>n. n, ie_fresh = [], ie_incarnation = ''i'', ie_others = \<lambda>_. [],
     ie_delivers = \<lambda>_. True, ie_item = \<lambda>item g. (g, Inr Request_not_set), ie_cancelled = False, ie_decoder = ([], None), ie_library = [],
     ie_openssl = demo_openssl\<rparr>"

definition demo_pull_env :: pull_env where
  "demo_pull_env = \<lparr>pe_accepted = demo_open, pe_http_info = \<lambda>_. [], pe_library = []\<rparr>"

definition demo_http :: open_stream where
  "demo_http = \<lparr>os_stream_id = [], os_source = Http_source ''u'' [], os_speech = [], os_decode = None\<rparr>"

definition demo_reads :: "((exn + string) \<times> int) list" where
  "demo_reads = [(Inr ''a'', 0), (Inr ''b'', 0), (Inr [], 0)]"

definition demo_pull_factory :: "((unit, unit) pipeline, pull_source ingest) processing_factory option" where
  "demo_pull_factory = service_factory (None :: ((unit, unit, unit) track_env \<times> string \<times> string) option)"

lemma demo_pull_runs:
  "\<exists>g. pull_call demo_pull demo_pull_env demo_pull_factory (Some demo_http) None demo_id demo_reads demo_registry = (g, Status OK [])"
  "snd (ingest_body (demo_pull\<lparr>ie_item := pull_item_read demo_pull (demo_pull_env\<lparr>pe_accepted := demo_http\<lparr>os_stream_id := requested_id demo_id demo_http\<rparr>\<rparr>)\<rparr>)
    demo_pull_factory True (Pull_first # map (\<lambda>(result, code). Pull_read result code) demo_reads)
    (ingest_new \<lparr>pu_count = 0, pu_bytes = 0, pu_described = False\<rparr> demo_registry)) = None"
  by (simp_all add: demo_pull_def demo_pull_env_def demo_http_def demo_reads_def demo_pull_factory_def service_factory_def pull_call_def requested_id_def
    pull_item_read_def pull_describe_def pull_chunk_def is_http_def demo_ingest_defs)

theorem pull_ok_complete_witness:
  "\<exists>g. pull_call demo_pull demo_pull_env demo_pull_factory (Some demo_http) None demo_id demo_reads demo_registry = (g, Status OK []) \<and>
    concat (map sc_data (source_chunks (in_sent g))) = in_data g"
proof -
  obtain g where run: "pull_call demo_pull demo_pull_env demo_pull_factory (Some demo_http) None demo_id demo_reads demo_registry = (g, Status OK [])"
    using demo_pull_runs(1) by blast
  have env: "registry_ok (ie_wire demo_pull) demo_registry" "\<forall>n. list_all (spares (requested_id demo_id demo_http)) (ie_others demo_pull n)"
    by (simp_all add: demo_pull_def demo_registry_ok)
  have http: "os_source demo_http = Http_source ''u'' []"
    by (simp add: demo_http_def)
  from pull_ok_complete [OF env demo_id_set http run [unfolded demo_pull_factory_def] _ demo_pull_runs(2) [unfolded demo_pull_factory_def]] run
  show ?thesis
    by auto
qed

end
