(* ===== verification/Media_Decoder.thy ===== *)
theory Media_Decoder
  imports Media_Types Float32 Ordered_Map
begin

text \<open>
  The media decoder of the streaming service, src/streaming/src/decoder.cpp. The FFmpeg libraries are a
  parameter: what they answer, in the order the code asks, is data (\<open>native_run\<close>), among it the source reads
  they make through the callback. The protobuf sizes and serializations, the time arithmetic of
  libavutil, the error texts, the cancellation flag and the callback that takes the events, a function of all
  events so far that may throw, are parameters too. Every definition here is used: the answers are finite.
\<close>

section \<open>What the libraries answer\<close>

datatype av_media_type = AV_AUDIO | AV_VIDEO | AV_SUBTITLE | AV_DATA | AV_ATTACHMENT | AV_OTHER int

record native_side =
  nd_type :: int
  nd_name :: "string option"
  nd_data :: string

record native_track =
  nt_id :: int
  nt_type :: av_media_type
  nt_type_code :: int
  nt_codec_id :: int
  nt_codec_name :: string
  nt_codec_tag :: nat
  nt_extradata :: string
  nt_time_base :: "int \<times> int"
  nt_start :: "int option"
  nt_duration :: "int option"
  nt_metadata :: "(string \<times> string) list"
  nt_sample_rate :: int
  nt_channels :: int
  nt_width :: int
  nt_height :: int
  nt_disposition :: int
  nt_bit_rate :: int
  nt_profile :: int
  nt_level :: int
  nt_side_data :: "native_side list"

record native_format =
  nf_name :: string
  nf_long_name :: "string option"
  nf_start_time :: "int option"
  nf_duration :: "int option"
  nf_metadata :: "(string \<times> string) list"
  nf_tracks :: "native_track list"

record native_frame =
  fr_rate :: int
  fr_channels :: int
  fr_count :: int
  fr_format :: int
  fr_timestamp :: "int option"

text \<open>\<open>swr_convert\<close>: a negative code, or samples.\<close>

type_synonym resampled = "int + f32 list"

text \<open>A call of \<open>avcodec_receive_frame\<close> with all that \<open>convert\<close> asks for its frame: the layout copy, the allocation and the start
  of the resampler, the comparison of layouts, the outputs of a flush and the restart, the output size and the output.\<close>

record native_receive =
  rv_result :: int
  rv_frame :: native_frame
  rv_layout_copy :: int
  rv_allocate :: int
  rv_initialize :: int
  rv_same_layout :: bool
  rv_flush :: "resampled list"
  rv_reset :: int
  rv_capacity :: int
  rv_output :: resampled

record native_packet =
  pk_stream_index :: int
  pk_data :: string
  pk_pts :: "int option"
  pk_dts :: "int option"
  pk_duration :: int
  pk_flags :: int
  pk_key :: bool
  pk_corrupt :: bool
  pk_position :: int
  pk_side_data :: "native_side list"

text \<open>Opening a codec: whether it is there, whether its context can be allocated, copying the parameters, opening.\<close>

record native_codec =
  nc_found :: bool
  nc_allocated :: bool
  nc_parameters :: int
  nc_opened :: int

text \<open>A source read: the size asked for, and what the source's function gave or threw.\<close>

type_synonym native_callback = "nat \<times> (exn + int)"

record native_read =
  rd_callbacks :: "native_callback list"
  rd_result :: int
  rd_format :: native_format
  rd_packet :: native_packet
  rd_codec :: native_codec
  rd_sent :: int
  rd_before :: "native_receive list"
  rd_sent_again :: int
  rd_frames :: "native_receive list"

record native_drain =
  dr_sent :: int
  dr_frames :: "native_receive list"
  dr_flush :: "resampled list"

record native_run =
  nr_io_allocated :: bool
  nr_format_allocated :: bool
  nr_open_callbacks :: "native_callback list"
  nr_opened :: int
  nr_format :: native_format
  nr_wav_option :: int
  nr_frame_allocated :: bool
  nr_reads :: "native_read list"
  nr_eof_callbacks :: "native_callback list"
  nr_drains :: "nat \<Rightarrow> native_drain"
  nr_final_format :: native_format

section \<open>Messages\<close>

datatype track_kind = TRACK_KIND_UNSPECIFIED | TRACK_KIND_AUDIO | TRACK_KIND_VIDEO | TRACK_KIND_SUBTITLE | TRACK_KIND_DATA | TRACK_KIND_ATTACHMENT

record side_data =
  sd_native_type :: int
  sd_type_name :: "string option"
  sd_data :: string

record track_info =
  ti_track_id :: nat
  ti_native_id :: int
  ti_kind :: track_kind
  ti_native_type :: int
  ti_codec_id :: int
  ti_codec_name :: string
  ti_codec_tag :: nat
  ti_codec_extradata :: string
  ti_time_base :: "int \<times> int"
  ti_start_time :: "int option"
  ti_duration :: "int option"
  ti_metadata :: "(string \<times> string) list"
  ti_sample_rate :: nat
  ti_channels :: nat
  ti_width :: nat
  ti_height :: nat
  ti_disposition_flags :: int
  ti_bit_rate :: int
  ti_profile :: int
  ti_level :: int
  ti_side_data :: "side_data list"

record stream_media_info =
  mf_container_name :: string
  mf_container_description :: "string option"
  mf_start_time_us :: "int option"
  mf_duration_us :: "int option"
  mf_metadata :: "(string \<times> string) list"
  mf_tracks :: "track_info list"

record media_packet =
  mp_packet_number :: nat
  mp_track_id :: nat
  mp_fragment_offset :: nat
  mp_packet_bytes :: nat
  mp_pts :: "int option"
  mp_dts :: "int option"
  mp_duration :: int
  mp_time_base :: "int \<times> int"
  mp_native_flags :: int
  mp_keyframe :: bool
  mp_source_byte_position :: "int option"
  mp_side_data :: "side_data list"
  mp_data :: string

datatype media_event = Described stream_media_info | Fragment media_packet | Decoded audio_chunk

section \<open>State\<close>

record audio_state =
  as_resampler :: bool
  as_input_rate :: int
  as_input_format :: int
  as_samples :: nat
  as_input_samples :: nat
  as_chunks :: nat
  as_origin_sample :: nat
  as_origin_us :: "int option"
  as_next_input_us :: "int option"
  as_discontinuity :: bool

definition audio_state_new :: audio_state where
  "audio_state_new = \<lparr>as_resampler = False, as_input_rate = 0, as_input_format = -1, as_samples = 0, as_input_samples = 0, as_chunks = 0,
     as_origin_sample = 0, as_origin_us = None, as_next_input_us = None, as_discontinuity = False\<rparr>"

text \<open>The members of \<open>Decoder\<close>, with all events it has given to the callback. Two fields are histories that no operation reads:
  \<open>de_resampled\<close>, what the resampler of each track has delivered so far, and \<open>de_thrown\<close>, the exceptions that were thrown inside the
  read callback, each with the number of events published by then.\<close>

record decoder =
  de_events :: "media_event list"
  de_polls :: nat
  de_reader_error :: "exn option"
  de_audio :: "(nat \<times> audio_state) list"
  de_packets :: nat
  de_last_description :: string
  de_resampled :: "(nat \<times> f32 list) list"
  de_thrown :: "(exn \<times> nat) list"

definition decoder_new :: decoder where
  "decoder_new = \<lparr>de_events = [], de_polls = 0, de_reader_error = None, de_audio = [], de_packets = 0, de_last_description = [], de_resampled = [],
     de_thrown = []\<rparr>"

record decoder_env =
  dv_options :: decode_options
  dv_cancelled :: "nat \<Rightarrow> bool"
  dv_refuses :: "media_event list \<Rightarrow> exn option"
  dv_info_size :: "stream_media_info \<Rightarrow> nat"
  dv_info_bytes :: "stream_media_info \<Rightarrow> string"
  dv_packet_size :: "media_packet \<Rightarrow> nat"
  dv_rescale :: "int \<Rightarrow> int \<times> int \<Rightarrow> int \<times> int \<Rightarrow> int"
  dv_sat_add :: "int \<Rightarrow> int \<Rightarrow> int"
  dv_strerror :: "int \<Rightarrow> string"
  dv_eof :: int
  dv_eagain :: int
  dv_enomem :: int
  dv_external :: int

section \<open>Errors\<close>

definition event_bytes :: nat where
  "event_bytes = 256 * 1024"

definition packet_limit :: nat where
  "packet_limit = 16 * 1024 * 1024"

definition output_rate :: int where
  "output_rate = 16000"

definition limit_to :: "bool \<Rightarrow> string \<Rightarrow> 's \<Rightarrow> 's outcome" where
  "limit_to ok message s = (if ok then (s, None) else (s, Some (Failure RESOURCE_EXHAUSTED message)))"

definition check_cancelled :: "decoder_env \<Rightarrow> decoder \<Rightarrow> decoder outcome" where
  "check_cancelled V d =
     (let d1 = d\<lparr>de_polls := Suc (de_polls d)\<rparr> in
      (d1, if dv_cancelled V (de_polls d) then Some (Failure CANCELLED ''media decode cancelled'') else None))"

definition check_result :: "decoder_env \<Rightarrow> int \<Rightarrow> string \<Rightarrow> decoder \<Rightarrow> decoder outcome" where
  "check_result V result operation d =
     (case de_reader_error d of
        Some e \<Rightarrow> (d, Some e)
      | None \<Rightarrow> and_then (check_cancelled V d) (\<lambda>d1.
          if result \<ge> 0 then (d1, None)
          else (d1, Some (Failure (if result = dv_enomem V then RESOURCE_EXHAUSTED else INVALID_ARGUMENT) (operation @ '': '' @ dv_strerror V result)))))"

text \<open>The \<open>try\<close> block of \<open>read_callback\<close>: the cancellation, the source's own exception, a byte count out of range.\<close>

definition callback_body :: "decoder_env \<Rightarrow> native_callback \<Rightarrow> decoder \<Rightarrow> decoder \<times> (exn + int)" where
  "callback_body V callback d =
     (case check_cancelled V d of
        (d1, Some e) \<Rightarrow> (d1, Inl e)
      | (d1, None) \<Rightarrow> (d1, case snd callback of
            Inl e \<Rightarrow> Inl e
          | Inr n \<Rightarrow> if n < 0 \<or> n > int (fst callback) then Inl (Logic_error ''invalid source callback byte count'') else Inr n))"

text \<open>\<open>read_callback\<close>: an exception is kept for later, and the library sees an error code.\<close>

definition read_callback :: "decoder_env \<Rightarrow> native_callback \<Rightarrow> decoder \<Rightarrow> decoder \<times> int" where
  "read_callback V callback d =
     (case callback_body V callback d of
        (d1, Inl e) \<Rightarrow> (d1\<lparr>de_reader_error := Some e\<rparr>, dv_external V)
      | (d1, Inr n) \<Rightarrow> (d1, if n = 0 then dv_eof V else n))"

text \<open>The reads the library makes inside one of its calls, the failed ones noted in the history.\<close>

definition note_thrown :: "decoder_env \<Rightarrow> native_callback \<Rightarrow> decoder \<Rightarrow> decoder \<Rightarrow> decoder" where
  "note_thrown V callback before d =
     (case snd (callback_body V callback before) of
        Inl e \<Rightarrow> d\<lparr>de_thrown := de_thrown d @ [(e, length (de_events before))]\<rparr>
      | Inr n \<Rightarrow> d)"

definition native_callbacks :: "decoder_env \<Rightarrow> native_callback list \<Rightarrow> decoder \<Rightarrow> decoder" where
  "native_callbacks V callbacks d = fold (\<lambda>callback d. note_thrown V callback d (fst (read_callback V callback d))) callbacks d"

definition decoder_emit_event :: "decoder_env \<Rightarrow> media_event \<Rightarrow> decoder \<Rightarrow> decoder outcome" where
  "decoder_emit_event V event d = (let d1 = d\<lparr>de_events := de_events d @ [event]\<rparr> in (d1, dv_refuses V (de_events d1)))"

section \<open>Describing the container\<close>

fun copy_metadata :: "(string \<times> string) list \<Rightarrow> nat \<Rightarrow> (string \<times> string) list \<Rightarrow> exn + (string \<times> string) list" where
  "copy_metadata [] used out = Inr out"
| "copy_metadata ((k, v) # entries) used out =
     (let key = take (event_bytes + 1) k; entry = take (event_bytes + 1) v; used1 = used + length key + length entry in
      if used1 \<le> event_bytes \<and> length out < 256 then copy_metadata entries used1 (out @ [(key, entry)])
      else Inl (Failure RESOURCE_EXHAUSTED ''native metadata exceeds limit''))"

definition side_data_of :: "native_side \<Rightarrow> side_data" where
  "side_data_of side = \<lparr>sd_native_type = nd_type side, sd_type_name = nd_name side, sd_data = nd_data side\<rparr>"

fun copy_side_data :: "native_side list \<Rightarrow> nat \<Rightarrow> side_data list \<Rightarrow> exn + side_data list" where
  "copy_side_data [] used out = Inr out"
| "copy_side_data (side # sides) used out =
     (if length (nd_data side) \<le> event_bytes div 2 - used
      then copy_side_data sides (used + length (nd_data side)) (out @ [side_data_of side])
      else Inl (Failure RESOURCE_EXHAUSTED ''track side data exceeds limit''))"

definition track_side_data :: "native_track \<Rightarrow> exn + side_data list" where
  "track_side_data track =
     (if length (nt_side_data track) \<le> 128 then copy_side_data (nt_side_data track) 0 []
      else Inl (Failure RESOURCE_EXHAUSTED ''too many track side-data entries''))"

definition kind_of :: "av_media_type \<Rightarrow> track_kind" where
  "kind_of type = (case type of AV_AUDIO \<Rightarrow> TRACK_KIND_AUDIO | AV_VIDEO \<Rightarrow> TRACK_KIND_VIDEO | AV_SUBTITLE \<Rightarrow> TRACK_KIND_SUBTITLE
     | AV_DATA \<Rightarrow> TRACK_KIND_DATA | AV_ATTACHMENT \<Rightarrow> TRACK_KIND_ATTACHMENT | AV_OTHER code \<Rightarrow> TRACK_KIND_UNSPECIFIED)"

definition describe_track :: "nat \<Rightarrow> native_track \<Rightarrow> exn + track_info" where
  "describe_track i track =
     (if length (nt_extradata track) > event_bytes then Inl (Failure RESOURCE_EXHAUSTED ''codec initialization exceeds limit'')
      else (case copy_metadata (nt_metadata track) 0 [] of
          Inl e \<Rightarrow> Inl e
        | Inr metadata \<Rightarrow> (case track_side_data track of
              Inl e \<Rightarrow> Inl e
            | Inr sides \<Rightarrow> Inr \<lparr>ti_track_id = i, ti_native_id = nt_id track, ti_kind = kind_of (nt_type track), ti_native_type = nt_type_code track,
                ti_codec_id = nt_codec_id track, ti_codec_name = nt_codec_name track, ti_codec_tag = nt_codec_tag track,
                ti_codec_extradata = nt_extradata track, ti_time_base = nt_time_base track, ti_start_time = nt_start track,
                ti_duration = nt_duration track, ti_metadata = metadata, ti_sample_rate = nat (max 0 (nt_sample_rate track)),
                ti_channels = nat (max 0 (nt_channels track)), ti_width = nat (max 0 (nt_width track)), ti_height = nat (max 0 (nt_height track)),
                ti_disposition_flags = nt_disposition track, ti_bit_rate = nt_bit_rate track, ti_profile = nt_profile track,
                ti_level = nt_level track, ti_side_data = sides\<rparr>)))"

fun describe_tracks :: "decoder_env \<Rightarrow> nat \<Rightarrow> native_track list \<Rightarrow> stream_media_info \<Rightarrow> exn + stream_media_info" where
  "describe_tracks V i [] info = Inr info"
| "describe_tracks V i (track # tracks) info =
     (case describe_track i track of
        Inl e \<Rightarrow> Inl e
      | Inr out \<Rightarrow>
          let info1 = info\<lparr>mf_tracks := mf_tracks info @ [out]\<rparr> in
          if dv_info_size V info1 \<le> event_bytes then describe_tracks V (Suc i) tracks info1
          else Inl (Failure RESOURCE_EXHAUSTED ''media description exceeds limit''))"

definition media_info_of :: "decoder_env \<Rightarrow> native_format \<Rightarrow> exn + stream_media_info" where
  "media_info_of V format =
     (case copy_metadata (nf_metadata format) 0 [] of
        Inl e \<Rightarrow> Inl e
      | Inr metadata \<Rightarrow>
          if length (nf_tracks format) > 64 then Inl (Failure RESOURCE_EXHAUSTED ''too many media tracks'')
          else describe_tracks V 0 (nf_tracks format) \<lparr>mf_container_name = nf_name format, mf_container_description = nf_long_name format,
            mf_start_time_us = nf_start_time format, mf_duration_us = nf_duration format, mf_metadata = metadata, mf_tracks = []\<rparr>)"

definition describe :: "decoder_env \<Rightarrow> native_format \<Rightarrow> decoder \<Rightarrow> decoder outcome" where
  "describe V format d =
     (case media_info_of V format of
        Inl e \<Rightarrow> (d, Some e)
      | Inr info \<Rightarrow>
          if dv_info_bytes V info \<noteq> de_last_description d
          then decoder_emit_event V (Described info) (d\<lparr>de_last_description := dv_info_bytes V info\<rparr>)
          else (d, None))"

section \<open>Native packets\<close>

fun packet_side_data :: "decoder_env \<Rightarrow> native_side list \<Rightarrow> media_packet \<Rightarrow> exn + media_packet" where
  "packet_side_data V [] out = Inr out"
| "packet_side_data V (side # sides) out =
     (if length (nd_data side) > event_bytes div 2 then Inl (Failure RESOURCE_EXHAUSTED ''packet side data exceeds limit'')
      else let out1 = out\<lparr>mp_side_data := mp_side_data out @ [side_data_of side]\<rparr> in
        if dv_packet_size V out1 < event_bytes div 2 then packet_side_data V sides out1
        else Inl (Failure RESOURCE_EXHAUSTED ''packet side data exceeds limit''))"

text \<open>One pass of the loop: the message at \<open>offset\<close>.\<close>

definition packet_fragment :: "decoder_env \<Rightarrow> nat \<Rightarrow> int \<times> int \<Rightarrow> native_packet \<Rightarrow> nat \<Rightarrow> exn + media_packet" where
  "packet_fragment V number time_base p offset =
     (let out = \<lparr>mp_packet_number = number, mp_track_id = nat (pk_stream_index p), mp_fragment_offset = offset, mp_packet_bytes = length (pk_data p),
            mp_pts = pk_pts p, mp_dts = pk_dts p, mp_duration = pk_duration p, mp_time_base = time_base, mp_native_flags = pk_flags p,
            mp_keyframe = pk_key p, mp_source_byte_position = (if pk_position p \<ge> 0 then Some (pk_position p) else None), mp_side_data = [], mp_data = []\<rparr>;
          checked = (if offset \<noteq> 0 then Inr out
            else if length (pk_side_data p) > 128 then Inl (Failure RESOURCE_EXHAUSTED ''too many side-data entries'')
            else packet_side_data V (pk_side_data p) out);
          count = min (length (pk_data p) - offset) (event_bytes div 2) in
      case checked of Inl e \<Rightarrow> Inl e | Inr out1 \<Rightarrow> Inr (out1\<lparr>mp_data := take count (drop offset (pk_data p))\<rparr>))"

function emit_fragments :: "decoder_env \<Rightarrow> nat \<Rightarrow> int \<times> int \<Rightarrow> native_packet \<Rightarrow> nat \<Rightarrow> decoder \<Rightarrow> decoder outcome" where
  "emit_fragments V number time_base p offset d =
     (case packet_fragment V number time_base p offset of
        Inl e \<Rightarrow> (d, Some e)
      | Inr out \<Rightarrow> and_then (decoder_emit_event V (Fragment out) d) (\<lambda>d1.
          let offset1 = offset + min (length (pk_data p) - offset) (event_bytes div 2) in
          if offset1 < length (pk_data p) then emit_fragments V number time_base p offset1 d1 else (d1, None)))"
  by pat_completeness auto
termination
  by (relation "measure (\<lambda>(V, number, time_base, p, offset, d). length (pk_data p) - offset)") (auto simp: event_bytes_def)

declare emit_fragments.simps [simp del]

definition emit_packet :: "decoder_env \<Rightarrow> int \<times> int \<Rightarrow> native_packet \<Rightarrow> decoder \<Rightarrow> decoder outcome" where
  "emit_packet V time_base p d =
     (if de_packets d = uint64_max then (d, Some (Failure RESOURCE_EXHAUSTED ''packet counter exhausted''))
      else let d1 = d\<lparr>de_packets := Suc (de_packets d)\<rparr> in emit_fragments V (de_packets d1) time_base p 0 d1)"

section \<open>Decoded audio\<close>

definition audio_of :: "decoder \<Rightarrow> nat \<Rightarrow> audio_state" where
  "audio_of d track = (case map_of (de_audio d) track of Some s \<Rightarrow> s | None \<Rightarrow> audio_state_new)"

definition set_audio :: "nat \<Rightarrow> audio_state \<Rightarrow> decoder \<Rightarrow> decoder" where
  "set_audio track s d = d\<lparr>de_audio := map_insert track s (de_audio d)\<rparr>"

definition microseconds :: "int \<times> int" where
  "microseconds = (1, 1000000)"

definition audio_message :: "decoder_env \<Rightarrow> nat \<Rightarrow> audio_state \<Rightarrow> f32 list \<Rightarrow> audio_chunk" where
  "audio_message V track s samples = \<lparr>ac_chunk_number = as_chunks s + 1, ac_track_id = track, ac_first_sample = as_samples s, ac_sample_rate = nat output_rate,
     ac_channels = 1, ac_pcm_f32le = pcm_encode samples,
     ac_presentation_time_us = map_option (\<lambda>origin. dv_sat_add V origin (dv_rescale V (int (as_samples s - as_origin_sample s)) (1, output_rate) microseconds)) (as_origin_us s),
     ac_discontinuity = as_discontinuity s\<rparr>"

function emit_audio :: "decoder_env \<Rightarrow> nat \<Rightarrow> f32 list \<Rightarrow> decoder \<Rightarrow> decoder outcome" where
  "emit_audio V track samples d =
     (if samples = [] then (d, None)
      else let s = audio_of d track; part = take 4096 samples in
        if as_samples s \<le> 9223372036854775807 - length part \<and> as_chunks s < uint64_max
        then and_then (decoder_emit_event V (Decoded (audio_message V track s part))
            (set_audio track (s\<lparr>as_chunks := as_chunks s + 1, as_discontinuity := False, as_samples := as_samples s + length part\<rparr>) d))
          (emit_audio V track (drop 4096 samples))
        else (d, Some (Failure RESOURCE_EXHAUSTED ''audio timeline exhausted'')))"
  by pat_completeness auto
termination
  by (relation "measure (\<lambda>(V, track, samples, d). length samples)") auto

declare emit_audio.simps [simp del]

definition resampled_count :: "resampled \<Rightarrow> int" where
  "resampled_count r = (case r of Inl code \<Rightarrow> code | Inr samples \<Rightarrow> int (length samples))"

definition resampled_samples :: "resampled \<Rightarrow> f32 list" where
  "resampled_samples r = (case r of Inl code \<Rightarrow> [] | Inr samples \<Rightarrow> samples)"

definition note_resampled :: "nat \<Rightarrow> resampled \<Rightarrow> decoder \<Rightarrow> decoder" where
  "note_resampled track r d = d\<lparr>de_resampled := de_resampled d @ [(track, resampled_samples r)]\<rparr>"

text \<open>The loop of \<open>flush_resampler\<close>; after its outputs the resampler has no more.\<close>

fun flush_outputs :: "decoder_env \<Rightarrow> nat \<Rightarrow> resampled list \<Rightarrow> decoder \<Rightarrow> decoder outcome" where
  "flush_outputs V track [] d = check_result V 0 ''flush audio resampler'' d"
| "flush_outputs V track (r # rs) d =
     and_then (check_result V (resampled_count r) ''flush audio resampler'' (note_resampled track r d)) (\<lambda>d1.
       if resampled_count r = 0 then (d1, None)
       else and_then (emit_audio V track (resampled_samples r) d1) (flush_outputs V track rs))"

definition flush_resampler :: "decoder_env \<Rightarrow> nat \<Rightarrow> resampled list \<Rightarrow> decoder \<Rightarrow> decoder outcome" where
  "flush_resampler V track outputs d = (if as_resampler (audio_of d track) then flush_outputs V track outputs d else (d, None))"

section \<open>Converting a frame\<close>

text \<open>The first frame of a track starts its resampler; the others must have its format.\<close>

definition start_resampler :: "decoder_env \<Rightarrow> nat \<Rightarrow> native_receive \<Rightarrow> decoder \<Rightarrow> decoder outcome" where
  "start_resampler V track rv d =
     (let s = audio_of d track; f = rv_frame rv in
      if \<not> as_resampler s then
        and_then (check_result V (rv_layout_copy rv) ''copy channel layout''
            (set_audio track (s\<lparr>as_input_rate := fr_rate f, as_input_format := fr_format f\<rparr>) d)) (\<lambda>d1.
        and_then (check_result V (rv_allocate rv) ''allocate audio resampler'' (set_audio track ((audio_of d1 track)\<lparr>as_resampler := True\<rparr>) d1)) (\<lambda>d2.
          check_result V (rv_initialize rv) ''initialize audio resampler'' d2))
      else if as_input_rate s \<noteq> fr_rate f \<or> as_input_format s \<noteq> fr_format f \<or> \<not> rv_same_layout rv
      then (d, Some (Failure UNIMPLEMENTED ''midstream audio format change requires a new stream''))
      else (d, None))"

text \<open>A frame with a time stamp: a jump of more than 2 ms flushes and restarts the resampler, and the output times start
  anew.\<close>

definition frame_end :: "decoder_env \<Rightarrow> audio_state \<Rightarrow> native_frame \<Rightarrow> int \<Rightarrow> int" where
  "frame_end V s f timestamp = dv_sat_add V timestamp (dv_rescale V (fr_count f) (1, as_input_rate s) microseconds)"

definition restart_resampler :: "decoder_env \<Rightarrow> nat \<Rightarrow> native_receive \<Rightarrow> decoder \<Rightarrow> decoder outcome" where
  "restart_resampler V track rv d =
     and_then (flush_resampler V track (rv_flush rv) d) (\<lambda>d1.
     and_then (check_result V (rv_reset rv) ''reset audio resampler'' d1) (\<lambda>d2.
       (set_audio track ((audio_of d2 track)\<lparr>as_discontinuity := True\<rparr>) d2, None)))"

definition place_frame :: "decoder_env \<Rightarrow> nat \<Rightarrow> int \<times> int \<Rightarrow> native_receive \<Rightarrow> decoder \<Rightarrow> decoder outcome" where
  "place_frame V track time_base rv d =
     (let s = audio_of d track; f = rv_frame rv in
      case fr_timestamp f of
        Some best_effort \<Rightarrow>
          let timestamp = dv_rescale V best_effort time_base microseconds;
              discontinuity = (case as_next_input_us s of None \<Rightarrow> False | Some next \<Rightarrow> timestamp - next > 2000 \<or> timestamp - next < -2000) in
          and_then (if discontinuity then restart_resampler V track rv d else (d, None)) (\<lambda>d1.
            let s1 = audio_of d1 track;
                s2 = (if as_origin_us s1 = None \<or> discontinuity then s1\<lparr>as_origin_us := Some timestamp, as_origin_sample := as_samples s1\<rparr> else s1) in
            (set_audio track (s2\<lparr>as_next_input_us := Some (frame_end V s2 f timestamp)\<rparr>) d1, None))
      | None \<Rightarrow> (case as_next_input_us s of
            None \<Rightarrow> (d, None)
          | Some next \<Rightarrow> (set_audio track (s\<lparr>as_next_input_us := Some (frame_end V s f next)\<rparr>) d, None)))"

definition frame_fits :: "native_frame \<Rightarrow> bool" where
  "frame_fits f \<longleftrightarrow> fr_rate f > 0 \<and> fr_rate f \<le> 384000 \<and> fr_channels f > 0 \<and> fr_channels f \<le> 32 \<and> fr_count f \<ge> 0 \<and> fr_count f \<le> 1024 * 1024"

definition resample_frame :: "decoder_env \<Rightarrow> nat \<Rightarrow> native_receive \<Rightarrow> decoder \<Rightarrow> decoder outcome" where
  "resample_frame V track rv d =
     and_then (check_result V (rv_capacity rv) ''size resampled audio'' d) (\<lambda>d1.
     and_then (limit_to (rv_capacity rv \<le> 1024 * 1024) ''resampled audio exceeds limit'' d1) (\<lambda>d2.
     and_then (check_result V (resampled_count (rv_output rv)) ''resample audio'' (note_resampled track (rv_output rv) d2))
       (emit_audio V track (resampled_samples (rv_output rv)))))"

definition convert :: "decoder_env \<Rightarrow> nat \<Rightarrow> int \<times> int \<Rightarrow> native_receive \<Rightarrow> decoder \<Rightarrow> decoder outcome" where
  "convert V track time_base rv d =
     (let f = rv_frame rv; s = audio_of d track in
      and_then (limit_to (frame_fits f) ''decoded audio dimensions exceed limit'' d) (\<lambda>d1.
      and_then (limit_to (as_input_samples s \<le> uint64_max - nat (fr_count f)) ''input sample counter exhausted'' d1) (\<lambda>d2.
      and_then (start_resampler V track rv (set_audio track (s\<lparr>as_input_samples := as_input_samples s + nat (fr_count f)\<rparr>) d2)) (\<lambda>d3.
      and_then (place_frame V track time_base rv d3)
        (resample_frame V track rv)))))"

text \<open>\<open>receive\<close>: after its answers the codec wants more input, or is at its end.\<close>

fun receive_frames :: "decoder_env \<Rightarrow> nat \<Rightarrow> int \<times> int \<Rightarrow> native_receive list \<Rightarrow> decoder \<Rightarrow> decoder outcome" where
  "receive_frames V track time_base [] d = check_cancelled V d"
| "receive_frames V track time_base (rv # rvs) d =
     and_then (check_cancelled V d) (\<lambda>d1.
       if rv_result rv = dv_eagain V \<or> rv_result rv = dv_eof V then (d1, None)
       else and_then (check_result V (rv_result rv) ''decode audio frame'' d1) (\<lambda>d2.
         and_then (convert V track time_base rv d2) (receive_frames V track time_base rvs)))"

section \<open>Packets\<close>

text \<open>\<open>audio\<close>: the state of a track, with its codec opened on first use.\<close>

definition open_codec :: "decoder_env \<Rightarrow> nat \<Rightarrow> native_codec \<Rightarrow> decoder \<Rightarrow> decoder outcome" where
  "open_codec V track nc d =
     (if map_of (de_audio d) track \<noteq> None then (d, None)
      else let d1 = set_audio track audio_state_new d in
        if \<not> nc_found nc then (d1, Some (Failure UNIMPLEMENTED ''audio codec unavailable in this build''))
        else if \<not> nc_allocated nc then (d1, Some Bad_alloc)
        else and_then (check_result V (nc_parameters nc) ''copy audio codec parameters'' d1)
          (check_result V (nc_opened nc) ''open audio decoder''))"

definition decode_packet :: "decoder_env \<Rightarrow> nat \<Rightarrow> int \<times> int \<Rightarrow> native_read \<Rightarrow> decoder \<Rightarrow> decoder outcome" where
  "decode_packet V track time_base r d =
     (if pk_corrupt (rd_packet r) then (d, Some (Failure INVALID_ARGUMENT ''corrupt audio packet''))
      else and_then (open_codec V track (rd_codec r) d) (\<lambda>d1.
        and_then (if rd_sent r = dv_eagain V then receive_frames V track time_base (rd_before r) d1 else (d1, None)) (\<lambda>d2.
        and_then (check_result V (if rd_sent r = dv_eagain V then rd_sent_again r else rd_sent r) ''submit audio packet'' d2)
          (receive_frames V track time_base (rd_frames r)))))"

definition wants_audio :: "decoder_env \<Rightarrow> nat \<Rightarrow> native_track \<Rightarrow> bool" where
  "wants_audio V track t \<longleftrightarrow> do_emit_audio (dv_options V) \<and> nt_type t = AV_AUDIO \<and>
     (do_audio_track_ids (dv_options V) = [] \<or> track \<in> set (do_audio_track_ids (dv_options V)))"

definition process_packet :: "decoder_env \<Rightarrow> native_read \<Rightarrow> decoder \<Rightarrow> decoder outcome" where
  "process_packet V r d =
     (let p = rd_packet r; tracks = nf_tracks (rd_format r) in
      and_then (limit_to (length (pk_data p) \<le> packet_limit) ''native packet exceeds limit'' d) (\<lambda>d1.
      if pk_stream_index p < 0 \<or> pk_stream_index p \<ge> int (length tracks)
      then (d1, Some (Failure INVALID_ARGUMENT ''packet has invalid track index''))
      else let index = nat (pk_stream_index p); t = tracks ! index in
        and_then (describe V (rd_format r) d1) (\<lambda>d2.
        and_then (if do_emit_packets (dv_options V) then emit_packet V (nt_time_base t) p d2 else (d2, None)) (\<lambda>d3.
          if wants_audio V index t then decode_packet V index (nt_time_base t) r d3 else (d3, None)))))"

fun read_packets :: "decoder_env \<Rightarrow> native_callback list \<Rightarrow> native_read list \<Rightarrow> decoder \<Rightarrow> decoder outcome" where
  "read_packets V at_eof [] d =
     and_then (check_cancelled V d) (\<lambda>d1. let d2 = native_callbacks V at_eof d1 in (d2, de_reader_error d2))"
| "read_packets V at_eof (r # rs) d =
     and_then (check_cancelled V d) (\<lambda>d1.
       let d2 = native_callbacks V (rd_callbacks r) d1 in
       case de_reader_error d2 of
         Some e \<Rightarrow> (d2, Some e)
       | None \<Rightarrow>
           if rd_result r = dv_eof V then (d2, None)
           else and_then (check_result V (rd_result r) ''read packet'' d2) (\<lambda>d3.
             and_then (process_packet V r d3) (read_packets V at_eof rs)))"

section \<open>The end of the media\<close>

definition truncated_wav :: "decoder_env \<Rightarrow> native_format \<Rightarrow> nat \<Rightarrow> decoder \<Rightarrow> bool" where
  "truncated_wav V format track d \<longleftrightarrow>
     (let t = nf_tracks format ! track; s = audio_of d track in
      case nt_duration t of
        None \<Rightarrow> False
      | Some duration \<Rightarrow> nf_name format = ''wav'' \<and> duration > 0 \<and> as_input_rate s > 0 \<and> take 4 (nt_codec_name t) = ''pcm_'' \<and>
          (let expected = dv_rescale V duration (nt_time_base t) (1, as_input_rate s) in
           expected > 0 \<and> as_input_samples s < nat expected))"

fun drain_tracks :: "decoder_env \<Rightarrow> native_run \<Rightarrow> nat list \<Rightarrow> decoder \<Rightarrow> decoder outcome" where
  "drain_tracks V R [] d = (d, None)"
| "drain_tracks V R (track # tracks) d =
     (let dr = nr_drains R track; format = nr_final_format R in
      and_then (check_result V (dr_sent dr) ''flush audio decoder'' d) (\<lambda>d1.
      and_then (receive_frames V track (nt_time_base (nf_tracks format ! track)) (dr_frames dr) d1) (\<lambda>d2.
      and_then (flush_resampler V track (dr_flush dr) d2) (\<lambda>d3.
        if truncated_wav V format track d3 then (d3, Some (Failure INVALID_ARGUMENT ''truncated PCM WAV data''))
        else drain_tracks V R tracks d3))))"

definition check_selected :: "decoder_env \<Rightarrow> decoder \<Rightarrow> decoder outcome" where
  "check_selected V d =
     (if list_all (\<lambda>track. map_of (de_audio d) track \<noteq> None) (do_audio_track_ids (dv_options V)) then (d, None)
      else (d, Some (Failure INVALID_ARGUMENT ''selected audio track absent or empty'')))"

section \<open>The run\<close>

definition open_media :: "decoder_env \<Rightarrow> native_run \<Rightarrow> decoder \<Rightarrow> decoder outcome" where
  "open_media V R d =
     (if \<not> nr_io_allocated R \<or> \<not> nr_format_allocated R then (d, Some Bad_alloc)
      else and_then (check_result V (nr_opened R) ''open media'' (native_callbacks V (nr_open_callbacks R) d)) (\<lambda>d1.
        and_then (if nf_name (nr_format R) = ''wav'' then check_result V (nr_wav_option R) ''set WAV packet size'' d1 else (d1, None)) (\<lambda>d2.
          if nr_frame_allocated R then (d2, None) else (d2, Some Bad_alloc))))"

definition decoder_run :: "decoder_env \<Rightarrow> native_run \<Rightarrow> decoder \<Rightarrow> decoder outcome" where
  "decoder_run V R d =
     and_then (open_media V R d) (\<lambda>d1.
     and_then (describe V (nr_format R) d1) (\<lambda>d2.
     and_then (read_packets V (nr_eof_callbacks R) (nr_reads R) d2) (\<lambda>d3.
     and_then (check_cancelled V d3) (\<lambda>d4.
     and_then (drain_tracks V R (map fst (de_audio d4)) d4) (\<lambda>d5.
     and_then (check_selected V d5)
       (describe V (nr_final_format R)))))))"

definition decode_media :: "decoder_env \<Rightarrow> native_run \<Rightarrow> decoder outcome" where
  "decode_media V R = decoder_run V R decoder_new"

text \<open>\<open>decoder_version\<close>, from the version numbers of the four libraries.\<close>

definition av_version :: "nat \<Rightarrow> string" where
  "av_version v = to_string (v div 65536) @ ''.'' @ to_string (v div 256 mod 256) @ ''.'' @ to_string (v mod 256)"

definition decoder_version :: "nat \<Rightarrow> nat \<Rightarrow> nat \<Rightarrow> nat \<Rightarrow> string" where
  "decoder_version avformat avcodec avutil swresample =
     ''libavformat/'' @ av_version avformat @ '' libavcodec/'' @ av_version avcodec @
     '' libavutil/'' @ av_version avutil @ '' libswresample/'' @ av_version swresample"

end
