(* ===== verification/Media_Decoder_Proofs.thy ===== *)
theory Media_Decoder_Proofs
  imports Media_Decoder Pipeline_Worker
begin

text \<open>
  What the decoder gives to its callback. Whatever the libraries answer, and also when it throws, the audio chunks of
  every track have numbers and positions without gaps, 1 to 4096 samples each. When it returns, the chunks of a
  track are exactly what its resampler delivered, and the fragments of every native packet are its bytes.
\<close>

section \<open>Outcomes with an invariant\<close>

text \<open>\<open>kept\<close> holds in any case, \<open>good\<close> when nothing was thrown.\<close>

definition holds :: "('s \<Rightarrow> bool) \<Rightarrow> ('s \<Rightarrow> bool) \<Rightarrow> 's outcome \<Rightarrow> bool" where
  "holds kept good r \<longleftrightarrow> kept (fst r) \<and> (snd r = None \<longrightarrow> good (fst r))"

lemma holds_simps [simp]: "holds kept good (s, None) \<longleftrightarrow> kept s \<and> good s" "holds kept good (s, Some e) \<longleftrightarrow> kept s"
  by (simp_all add: holds_def)

lemma holds_then: "holds kept good r \<Longrightarrow> (\<And>s. good s \<Longrightarrow> holds kept post (k s)) \<Longrightarrow> holds kept post (and_then r k)"
  by (auto simp: holds_def and_then_def split: option.splits)

section \<open>Observers of the decoder\<close>

text \<open>
  Facts that the code between two emissions does not disturb: they do not depend on the cancellation polls and the last
  description, and of the state of a track only on the numbers of its samples and chunks. An observer that does not depend
  on the kept exception of the source either may follow a whole run.
\<close>

locale decoder_observer =
  fixes V :: decoder_env and kept good :: "decoder \<Rightarrow> bool"
  assumes good_kept: "good d \<Longrightarrow> kept d"
    and quiet: "good (d\<lparr>de_polls := n\<rparr>) = good d" "good (d\<lparr>de_last_description := x\<rparr>) = good d"
    and same_counts: "good d \<Longrightarrow> as_samples s = as_samples (audio_of d track) \<Longrightarrow> as_chunks s = as_chunks (audio_of d track) \<Longrightarrow> good (set_audio track s d)"
    and described: "good d \<Longrightarrow> good (d\<lparr>de_events := de_events d @ [Described i]\<rparr>)"
    and delivered: "good d \<Longrightarrow> kept (note_resampled track r d)"
    and emitted: "good d \<Longrightarrow> holds kept good (emit_audio V track (resampled_samples r) (note_resampled track r d))"
begin

lemma cancelled_holds: "good d \<Longrightarrow> holds kept good (check_cancelled V d)"
  using good_kept by (auto simp: check_cancelled_def Let_def holds_def quiet)

lemma check_holds: "good d \<Longrightarrow> holds kept good (check_result V code operation d)"
  using good_kept by (auto simp: check_result_def quiet intro!: holds_then [OF cancelled_holds] split: option.splits)

lemma limit_holds: "good d \<Longrightarrow> holds kept good (limit_to ok message d)"
  using good_kept by (simp add: limit_to_def)

lemma describe_holds: "good d \<Longrightarrow> holds kept good (describe V format d)"
  using good_kept described [of "d\<lparr>de_last_description := x\<rparr>" for x]
  by (auto simp: describe_def decoder_emit_event_def Let_def holds_def quiet split: sum.splits)

text \<open>The samples just delivered are published, or a check throws before that.\<close>

lemma deliver_holds:
  assumes "good d"
  shows "holds kept good (and_then (check_result V code operation (note_resampled track r d)) (emit_audio V track (resampled_samples r)))"
proof -
  let ?d = "note_resampled track r d"
  have polled: "?d\<lparr>de_polls := n\<rparr> = note_resampled track r (d\<lparr>de_polls := n\<rparr>)" for n
    by (simp add: note_resampled_def)
  have kept: "kept ?d" "kept (?d\<lparr>de_polls := n\<rparr>)" for n
    using delivered [OF assms] delivered [of "d\<lparr>de_polls := n\<rparr>" for n] assms by (simp_all add: polled quiet)
  have out: "holds kept good (emit_audio V track (resampled_samples r) (?d\<lparr>de_polls := n\<rparr>))" for n
    using emitted [of "d\<lparr>de_polls := n\<rparr>" track r] assms by (simp add: polled quiet)
  have "holds kept (\<lambda>d1. \<exists>n. d1 = ?d\<lparr>de_polls := n\<rparr>) (check_result V code operation ?d)"
    using kept by (auto simp: check_result_def check_cancelled_def Let_def and_then_def split: option.splits)
  then show ?thesis
    by (rule holds_then) (use out in auto)
qed

lemma flush_outputs_holds: "good d \<Longrightarrow> holds kept good (flush_outputs V track outputs d)"
proof (induction outputs arbitrary: d)
  case Nil
  then show ?case by (simp add: check_holds)
next
  case (Cons r rs)
  have empty: "emit_audio V track (resampled_samples r) = (\<lambda>d. (d, None))" if "resampled_count r = 0"
    using that by (auto simp: resampled_count_def resampled_samples_def emit_audio.simps split: sum.splits)
  have "holds kept good (and_then (check_result V (resampled_count r) ''flush audio resampler'' (note_resampled track r d))
      (emit_audio V track (resampled_samples r)))"
    by (rule deliver_holds [OF Cons.prems])
  from holds_then [OF this, where k = "\<lambda>d. if resampled_count r = 0 then (d, None) else flush_outputs V track rs d" and post = good] Cons.IH good_kept
  have "holds kept good (and_then (and_then (check_result V (resampled_count r) ''flush audio resampler'' (note_resampled track r d))
      (emit_audio V track (resampled_samples r))) (\<lambda>d. if resampled_count r = 0 then (d, None) else flush_outputs V track rs d))"
    by auto
  then show ?case
    using empty by (cases "resampled_count r = 0") (auto simp: and_then_def split: option.splits)
qed

lemma flush_holds: "good d \<Longrightarrow> holds kept good (flush_resampler V track outputs d)"
  using good_kept by (simp add: flush_resampler_def flush_outputs_holds)

lemma start_holds: "good d \<Longrightarrow> holds kept good (start_resampler V track rv d)"
  using good_kept
  by (auto simp: start_resampler_def Let_def intro!: holds_then [OF check_holds] check_holds same_counts)

lemma restart_holds: "good d \<Longrightarrow> holds kept good (restart_resampler V track rv d)"
  unfolding restart_resampler_def
  by (intro holds_then [OF flush_holds] holds_then [OF check_holds]) (auto intro!: same_counts good_kept)

lemma place_holds: "good d \<Longrightarrow> holds kept good (place_frame V track time_base rv d)"
proof -
  assume d: "good d"
  have step: "holds kept good (and_then (if b then restart_resampler V track rv d else (d, None)) (\<lambda>d1.
      (set_audio track (f (audio_of d1 track)) d1, None)))"
    if "\<And>s. as_samples (f s) = as_samples s" "\<And>s. as_chunks (f s) = as_chunks s" for b f
    by (rule holds_then [where good = good]) (use d that in \<open>auto intro!: same_counts restart_holds good_kept\<close>)
  show ?thesis
  proof (cases "fr_timestamp (rv_frame rv)")
    case None
    with d show ?thesis
      by (auto simp: place_frame_def Let_def intro!: same_counts good_kept split: option.splits)
  next
    case (Some best_effort)
    show ?thesis
      unfolding place_frame_def Let_def Some option.case
      by (rule step [of "\<lambda>s1. (if as_origin_us s1 = None \<or> b then s1\<lparr>as_origin_us := Some ts, as_origin_sample := as_samples s1\<rparr> else s1)
          \<lparr>as_next_input_us := Some (frame_end V (if as_origin_us s1 = None \<or> b then s1\<lparr>as_origin_us := Some ts, as_origin_sample := as_samples s1\<rparr> else s1) (rv_frame rv) ts)\<rparr>" b for b ts])
        simp_all
  qed
qed

lemma resample_holds: "good d \<Longrightarrow> holds kept good (resample_frame V track rv d)"
  unfolding resample_frame_def
  by (intro holds_then [OF check_holds] holds_then [OF limit_holds] deliver_holds)

lemma convert_holds: "good d \<Longrightarrow> holds kept good (convert V track time_base rv d)"
  using good_kept
  by (auto simp: convert_def Let_def limit_to_def intro!: holds_then [OF start_holds] holds_then [OF place_holds] resample_holds same_counts)

lemma receive_holds: "good d \<Longrightarrow> holds kept good (receive_frames V track time_base rvs d)"
proof (induction rvs arbitrary: d)
  case Nil
  then show ?case by (simp add: cancelled_holds)
next
  case (Cons rv rvs)
  then show ?case
    using good_kept by (auto intro!: holds_then [OF cancelled_holds] holds_then [OF check_holds] holds_then [OF convert_holds])
qed

lemma open_codec_holds: "good d \<Longrightarrow> holds kept good (open_codec V track nc d)"
proof -
  assume d: "good d"
  have "good (set_audio track audio_state_new d)" if "map_of (de_audio d) track = None"
    using that d by (intro same_counts) (simp_all add: audio_of_def)
  with d good_kept show ?thesis
    by (auto simp: open_codec_def Let_def intro!: holds_then [OF check_holds] check_holds)
qed

lemma decode_packet_holds: "good d \<Longrightarrow> holds kept good (decode_packet V track time_base r d)"
proof -
  assume d: "good d"
  show ?thesis
    using d good_kept unfolding decode_packet_def
    by (cases "rd_sent r = dv_eagain V")
      (auto intro!: holds_then [OF open_codec_holds] holds_then [OF receive_holds] holds_then [OF check_holds] receive_holds)
qed

lemma drain_holds: "good d \<Longrightarrow> holds kept good (drain_tracks V R tracks d)"
proof (induction tracks arbitrary: d)
  case (Cons track tracks)
  then show ?case
    using good_kept by (auto simp: Let_def intro!: holds_then [OF check_holds] holds_then [OF receive_holds] holds_then [OF flush_holds])
qed (simp add: good_kept)

lemma check_selected_holds: "good d \<Longrightarrow> holds kept good (check_selected V d)"
  using good_kept by (simp add: check_selected_def)

lemma process_holds:
  assumes packet: "\<And>time_base p d. good d \<Longrightarrow> holds kept good (emit_packet V time_base p d)" and d: "good d"
  shows "holds kept good (process_packet V r d)"
  using d good_kept
  by (auto simp: process_packet_def Let_def intro!: holds_then [OF limit_holds] holds_then [OF describe_holds] holds_then [OF packet] decode_packet_holds)

end

locale run_observer = decoder_observer +
  assumes source_quiet: "good (d\<lparr>de_reader_error := e\<rparr>) = good d" "good (d\<lparr>de_thrown := h\<rparr>) = good d"
begin

lemma callback_good: "good d \<Longrightarrow> good (note_thrown V c before (fst (read_callback V c d)))"
  by (auto simp: note_thrown_def read_callback_def callback_body_def check_cancelled_def Let_def quiet source_quiet split: option.splits sum.splits)

lemma callbacks_good: "good d \<Longrightarrow> good (native_callbacks V cs d)"
  by (induction cs arbitrary: d) (simp_all add: native_callbacks_def callback_good)

lemma open_holds: "good d \<Longrightarrow> holds kept good (open_media V R d)"
  using good_kept
  by (auto simp: open_media_def intro!: holds_then [OF check_holds] callbacks_good check_holds)

text \<open>The whole run, for facts that packets do not disturb either.\<close>

lemma read_holds:
  assumes packet: "\<And>time_base p d. good d \<Longrightarrow> holds kept good (emit_packet V time_base p d)"
  shows "good d \<Longrightarrow> holds kept good (read_packets V at_eof rs d)"
proof (induction rs arbitrary: d)
  case Nil
  have "holds kept good (d2, de_reader_error d2)" if "good d2" for d2
    using that good_kept by (simp add: holds_def)
  with Nil show ?case
    by (auto simp: Let_def intro!: holds_then [OF cancelled_holds] callbacks_good)
next
  case (Cons r rs)
  note process = process_holds [OF packet]
  have "holds kept good (case de_reader_error d2 of Some e \<Rightarrow> (d2, Some e) | None \<Rightarrow> if rd_result r = dv_eof V then (d2, None)
      else and_then (check_result V (rd_result r) ''read packet'' d2) (\<lambda>d3. and_then (process_packet V r d3) (read_packets V at_eof rs)))" if "good d2" for d2
    using that good_kept Cons.IH by (auto intro!: holds_then [OF check_holds] holds_then [OF process] split: option.splits)
  with Cons.prems show ?case
    by (auto simp: Let_def intro!: holds_then [OF cancelled_holds] callbacks_good)
qed

lemma run_holds:
  assumes "\<And>time_base p d. good d \<Longrightarrow> holds kept good (emit_packet V time_base p d)" "good d"
  shows "holds kept good (decoder_run V R d)"
  unfolding decoder_run_def
  by (intro holds_then [OF open_holds] holds_then [OF describe_holds] holds_then [OF read_holds] holds_then [OF cancelled_holds]
      holds_then [OF drain_holds] holds_then [OF check_selected_holds] describe_holds) (use assms in auto)

end

section \<open>The audio of a track\<close>

fun decoded :: "nat \<Rightarrow> media_event list \<Rightarrow> audio_chunk list" where
  "decoded track [] = []"
| "decoded track (Decoded a # events) = (if ac_track_id a = track then a # decoded track events else decoded track events)"
| "decoded track (_ # events) = decoded track events"

lemma decoded_append [simp]: "decoded track (xs @ ys) = decoded track xs @ decoded track ys"
  by (induction track xs rule: decoded.induct) auto

abbreviation all_samples :: "audio_chunk list \<Rightarrow> f32 list" where
  "all_samples chunks \<equiv> concat (map chunk_samples chunks)"

definition chunk_at :: "nat \<Rightarrow> nat \<Rightarrow> audio_chunk \<Rightarrow> bool" where
  "chunk_at first number a \<longleftrightarrow> ac_sample_rate a = 16000 \<and> ac_channels a = 1 \<and> length (ac_pcm_f32le a) mod 4 = 0 \<and>
     ac_first_sample a = first \<and> ac_chunk_number a = number + 1 \<and> chunk_samples a \<noteq> [] \<and> length (chunk_samples a) \<le> 4096"

fun timeline :: "nat \<Rightarrow> nat \<Rightarrow> audio_chunk list \<Rightarrow> bool" where
  "timeline first number [] = True"
| "timeline first number (a # chunks) = (chunk_at first number a \<and> timeline (first + length (chunk_samples a)) (number + 1) chunks)"

lemma timeline_snoc:
  "timeline first number (chunks @ [a]) \<longleftrightarrow> timeline first number chunks \<and> chunk_at (first + length (all_samples chunks)) (number + length chunks) a"
  by (induction chunks arbitrary: first number) (auto simp: add.assoc)

definition resampled_of :: "nat \<Rightarrow> (nat \<times> f32 list) list \<Rightarrow> f32 list" where
  "resampled_of track history = concat (map snd (filter (\<lambda>p. fst p = track) history))"

definition audio_kept :: "nat \<Rightarrow> decoder \<Rightarrow> bool" where
  "audio_kept t d \<longleftrightarrow> keys_sorted (de_audio d) \<and> timeline 0 0 (decoded t (de_events d)) \<and>
     length (all_samples (decoded t (de_events d))) = as_samples (audio_of d t) \<and> length (decoded t (de_events d)) = as_chunks (audio_of d t)"

text \<open>Delivered but not yet published: \<open>xs\<close>.\<close>

definition audio_good :: "nat \<Rightarrow> f32 list \<Rightarrow> decoder \<Rightarrow> bool" where
  "audio_good t xs d \<longleftrightarrow> audio_kept t d \<and> all_samples (decoded t (de_events d)) @ xs = resampled_of t (de_resampled d)"

lemma audio_of_set [simp]: "keys_sorted (de_audio d) \<Longrightarrow> audio_of (set_audio track s d) t = (if t = track then s else audio_of d t)"
  by (simp add: audio_of_def set_audio_def)

lemma set_audio_fields [simp]: "de_events (set_audio track s d) = de_events d" "de_resampled (set_audio track s d) = de_resampled d"
  "keys_sorted (de_audio d) \<Longrightarrow> keys_sorted (de_audio (set_audio track s d))"
  by (simp_all add: set_audio_def keys_sorted_insert)

lemma audio_of_field [simp]: "audio_of (d\<lparr>de_events := ev\<rparr>) t = audio_of d t" "audio_of (d\<lparr>de_polls := n\<rparr>) t = audio_of d t"
  "audio_of (d\<lparr>de_reader_error := e\<rparr>) t = audio_of d t" "audio_of (d\<lparr>de_last_description := x\<rparr>) t = audio_of d t"
  "audio_of (d\<lparr>de_resampled := h\<rparr>) t = audio_of d t" "audio_of (d\<lparr>de_packets := n\<rparr>) t = audio_of d t"
  "audio_of (d\<lparr>de_thrown := u\<rparr>) t = audio_of d t"
  by (simp_all add: audio_of_def)

lemma audio_message_samples [simp]: "chunk_samples (audio_message V track s part) = part" "ac_track_id (audio_message V track s part) = track"
  by (simp_all add: audio_message_def chunk_samples_def pcm_decode_encode)

lemma audio_message_at: "part \<noteq> [] \<Longrightarrow> length part \<le> 4096 \<Longrightarrow> chunk_at (as_samples s) (as_chunks s) (audio_message V track s part)"
  by (simp add: chunk_at_def) (simp add: audio_message_def output_rate_def)

lemma emit_audio_holds:
  "audio_good t (if track = t then samples else []) d \<Longrightarrow> holds (audio_kept t) (audio_good t []) (emit_audio V track samples d)"
proof (induction V track samples d rule: emit_audio.induct)
  case (1 V track samples d)
  show ?case
  proof (cases "samples = []")
    case True
    with 1(2) show ?thesis
      by (simp add: emit_audio.simps audio_good_def split: if_splits)
  next
    case False
    let ?s = "audio_of d track" and ?part = "take 4096 samples"
    let ?message = "Decoded (audio_message V track ?s ?part)"
    let ?d = "set_audio track (?s\<lparr>as_chunks := as_chunks ?s + 1, as_discontinuity := False, as_samples := as_samples ?s + length ?part\<rparr>) d"
    show ?thesis
    proof (cases "as_samples ?s \<le> 9223372036854775807 - length ?part \<and> as_chunks ?s < uint64_max")
      case True
      have at: "chunk_at (as_samples ?s) (as_chunks ?s) (audio_message V track ?s ?part)"
        using False by (intro audio_message_at) simp_all
      have "audio_good t (if track = t then drop 4096 samples else []) (?d\<lparr>de_events := de_events d @ [?message]\<rparr>)"
        using 1(2) at by (auto simp: audio_good_def audio_kept_def timeline_snoc)
      then have "holds (audio_kept t) (audio_good t (if track = t then drop 4096 samples else [])) (decoder_emit_event V ?message ?d)"
        by (simp add: decoder_emit_event_def Let_def holds_def audio_good_def)
      from holds_then [OF this 1(1) [OF False refl refl True]] show ?thesis
        by (subst emit_audio.simps) (use False True in \<open>simp add: Let_def\<close>)
    next
      case limit: False
      with False 1(2) show ?thesis
        by (subst emit_audio.simps) (auto simp: audio_good_def Let_def)
    qed
  qed
qed

interpretation track_audio: run_observer V "audio_kept t" "audio_good t []" for V t
proof
  fix d track s n e x i r h
  show "audio_good t [] d \<Longrightarrow> audio_kept t d"
    by (simp add: audio_good_def)
  show "audio_good t [] (d\<lparr>de_polls := n\<rparr>) = audio_good t [] d" "audio_good t [] (d\<lparr>de_reader_error := e\<rparr>) = audio_good t [] d"
    "audio_good t [] (d\<lparr>de_last_description := x\<rparr>) = audio_good t [] d" "audio_good t [] (d\<lparr>de_thrown := h\<rparr>) = audio_good t [] d"
    by (simp_all add: audio_good_def audio_kept_def)
  show "audio_good t [] (set_audio track s d)" if "audio_good t [] d" "as_samples s = as_samples (audio_of d track)" "as_chunks s = as_chunks (audio_of d track)"
    using that unfolding audio_good_def audio_kept_def by (cases "t = track") auto
  show "audio_good t [] (d\<lparr>de_events := de_events d @ [Described i]\<rparr>)" if "audio_good t [] d"
    using that by (auto simp: audio_good_def audio_kept_def)
  show "audio_kept t (note_resampled track r d)" if "audio_good t [] d"
    using that by (auto simp: audio_good_def audio_kept_def note_resampled_def)
  show "holds (audio_kept t) (audio_good t []) (emit_audio V track (resampled_samples r) (note_resampled track r d))" if "audio_good t [] d"
    by (rule emit_audio_holds) (use that in \<open>auto simp: audio_good_def audio_kept_def note_resampled_def resampled_of_def\<close>)
qed

lemma emit_packet_audio:
  assumes "audio_good t [] d"
  shows "holds (audio_kept t) (audio_good t []) (emit_packet V time_base p d)"
proof -
  have "holds (audio_kept t) (audio_good t []) (emit_fragments V number time_base p offset d)" if "audio_good t [] d" for number offset d
    using that
  proof (induction V number time_base p offset d rule: emit_fragments.induct)
    case (1 V number time_base p offset d)
    show ?case
    proof (cases "packet_fragment V number time_base p offset")
      case (Inl e)
      with 1(2) show ?thesis
        by (simp add: emit_fragments.simps audio_good_def)
    next
      case (Inr out)
      have "holds (audio_kept t) (audio_good t []) (decoder_emit_event V (Fragment out) d)"
        using 1(2) by (auto simp: decoder_emit_event_def Let_def holds_def audio_good_def audio_kept_def)
      then have "holds (audio_kept t) (audio_good t []) (and_then (decoder_emit_event V (Fragment out) d) (\<lambda>d1.
          let offset1 = offset + min (length (pk_data p) - offset) (event_bytes div 2) in
          if offset1 < length (pk_data p) then emit_fragments V number time_base p offset1 d1 else (d1, None)))"
      proof (rule holds_then)
        fix d1 assume d1: "audio_good t [] d1"
        show "holds (audio_kept t) (audio_good t []) (let offset1 = offset + min (length (pk_data p) - offset) (event_bytes div 2) in
          if offset1 < length (pk_data p) then emit_fragments V number time_base p offset1 d1 else (d1, None))"
          using 1(1) [OF Inr refl _ d1] d1 by (simp add: Let_def) (simp add: audio_good_def)
      qed
      then show ?thesis
        by (subst emit_fragments.simps) (simp add: Inr)
    qed
  qed
  with assms show ?thesis
    by (auto simp: emit_packet_def Let_def audio_good_def audio_kept_def)
qed

lemma decode_media_audio: "holds (audio_kept t) (audio_good t []) (decode_media V R)"
  unfolding decode_media_def
proof (rule track_audio.run_holds [OF emit_packet_audio])
  show "audio_good t [] decoder_new"
    by (simp add: audio_good_def audio_kept_def decoder_new_def resampled_of_def audio_of_def audio_state_new_def)
qed

section \<open>The packets\<close>

fun fragments :: "media_event list \<Rightarrow> media_packet list" where
  "fragments [] = []"
| "fragments (Fragment m # events) = m # fragments events"
| "fragments (_ # events) = fragments events"

lemma fragments_append [simp]: "fragments (xs @ ys) = fragments xs @ fragments ys"
  by (induction xs rule: fragments.induct) auto

definition packets_are :: "media_packet list \<times> nat \<Rightarrow> decoder \<Rightarrow> bool" where
  "packets_are c d \<longleftrightarrow> (fragments (de_events d), de_packets d) = c"

lemma packets_are_fields [simp]:
  "packets_are c (d\<lparr>de_polls := n\<rparr>) = packets_are c d" "packets_are c (d\<lparr>de_reader_error := e\<rparr>) = packets_are c d"
  "packets_are c (d\<lparr>de_last_description := x\<rparr>) = packets_are c d" "packets_are c (set_audio track s d) = packets_are c d"
  "packets_are c (note_resampled track r d) = packets_are c d" "packets_are c (d\<lparr>de_thrown := h\<rparr>) = packets_are c d"
  by (simp_all add: packets_are_def set_audio_def note_resampled_def)

lemma emit_audio_packets: "packets_are c d \<Longrightarrow> packets_are c (fst (emit_audio V track samples d))"
proof (induction V track samples d rule: emit_audio.induct)
  case (1 V track samples d)
  show ?case
    by (subst emit_audio.simps)
      (use 1 in \<open>auto simp: Let_def and_then_def decoder_emit_event_def packets_are_def set_audio_def split: option.splits\<close>)
qed

interpretation packet_frame: run_observer V "packets_are c" "packets_are c" for V c
  by unfold_locales (auto simp: packets_are_def [of _ "_\<lparr>de_events := _\<rparr>"] packets_are_def holds_def emit_audio_packets [unfolded packets_are_def] set_audio_def note_resampled_def)

definition assembled :: "nat \<Rightarrow> media_packet list \<Rightarrow> string" where
  "assembled number ms = concat (map mp_data (filter (\<lambda>m. mp_packet_number m = number) ms))"

definition piece_of :: "media_packet \<Rightarrow> native_packet \<Rightarrow> bool" where
  "piece_of m p \<longleftrightarrow> mp_track_id m = nat (pk_stream_index p) \<and> mp_packet_bytes m = length (pk_data p) \<and> mp_pts m = pk_pts p \<and> mp_dts m = pk_dts p \<and>
     mp_data m = take (length (mp_data m)) (drop (mp_fragment_offset m) (pk_data p)) \<and> length (mp_data m) \<le> 131072"

lemma packet_side_data_keeps: "packet_side_data V sides out = Inr out1 \<Longrightarrow> out1 = out\<lparr>mp_side_data := mp_side_data out1\<rparr>"
  by (induction V sides out rule: packet_side_data.induct) (auto simp: Let_def split: if_splits)

lemma packet_fragment_piece:
  assumes "packet_fragment V number time_base p offset = Inr m"
  shows "mp_packet_number m = number \<and> piece_of m p \<and> mp_data m = take (min (length (pk_data p) - offset) (event_bytes div 2)) (drop offset (pk_data p))"
proof -
  let ?out = "\<lparr>mp_packet_number = number, mp_track_id = nat (pk_stream_index p), mp_fragment_offset = offset, mp_packet_bytes = length (pk_data p),
    mp_pts = pk_pts p, mp_dts = pk_dts p, mp_duration = pk_duration p, mp_time_base = time_base, mp_native_flags = pk_flags p,
    mp_keyframe = pk_key p, mp_source_byte_position = (if pk_position p \<ge> 0 then Some (pk_position p) else None), mp_side_data = [], mp_data = []\<rparr>"
  obtain sides where "m = ?out\<lparr>mp_side_data := sides, mp_data := take (min (length (pk_data p) - offset) (event_bytes div 2)) (drop offset (pk_data p))\<rparr>"
  proof (cases "offset = 0")
    case True
    with assms obtain out1 where "packet_side_data V (pk_side_data p) ?out = Inr out1"
      "m = out1\<lparr>mp_data := take (min (length (pk_data p) - offset) (event_bytes div 2)) (drop offset (pk_data p))\<rparr>"
      by (auto simp: packet_fragment_def Let_def split: sum.splits if_splits)
    with packet_side_data_keeps [OF this(1)] that show ?thesis
      by metis
  next
    case False
    with assms that [of "[]"] show ?thesis
      by (auto simp: packet_fragment_def Let_def)
  qed
  then show ?thesis
    by (auto simp: piece_of_def event_bytes_def min_def)
qed

lemma emit_fragments_ok:
  "emit_fragments V number time_base p offset d = (d', None) \<Longrightarrow>
   \<exists>ms. fragments (de_events d') = fragments (de_events d) @ ms \<and> de_packets d' = de_packets d \<and>
     (\<forall>m \<in> set ms. mp_packet_number m = number \<and> piece_of m p) \<and> concat (map mp_data ms) = drop offset (pk_data p)"
proof (induction V number time_base p offset d rule: emit_fragments.induct)
  case (1 V number time_base p offset d)
  let ?count = "min (length (pk_data p) - offset) (event_bytes div 2)"
  obtain m where m: "packet_fragment V number time_base p offset = Inr m"
    using 1(2) by (cases "packet_fragment V number time_base p offset") (simp_all add: emit_fragments.simps)
  note piece = packet_fragment_piece [OF m]
  let ?d = "d\<lparr>de_events := de_events d @ [Fragment m]\<rparr>"
  have run: "(if offset + ?count < length (pk_data p) then emit_fragments V number time_base p (offset + ?count) ?d else (?d, None)) = (d', None)"
    using 1(2) by (subst (asm) emit_fragments.simps) (auto simp: m decoder_emit_event_def Let_def and_then_None_iff)
  have split: "mp_data m @ drop (offset + ?count) (pk_data p) = drop offset (pk_data p)"
    using piece append_take_drop_id [of ?count "drop offset (pk_data p)"] by (simp add: add.commute)
  show ?case
  proof (cases "offset + ?count < length (pk_data p)")
    case True
    then have "emit_fragments V number time_base p (offset + ?count) ?d = (d', None)"
      using run by (simp only: if_True)
    from 1(1) [OF m refl True this] obtain ms where ms: "fragments (de_events d') = (fragments (de_events d) @ [m]) @ ms"
      "de_packets d' = de_packets d" "\<forall>m \<in> set ms. mp_packet_number m = number \<and> piece_of m p" "concat (map mp_data ms) = drop (offset + ?count) (pk_data p)"
      by auto
    with piece split show ?thesis
      by (intro exI [of _ "m # ms"]) simp
  next
    case False
    then have "d' = ?d"
      using run by (simp only: if_False prod.inject simp_thms)
    with piece split False show ?thesis
      by (intro exI [of _ "[m]"]) simp
  qed
qed

text \<open>The packets \<open>ps\<close> have been published.\<close>

definition packets_told :: "native_packet list \<Rightarrow> decoder \<Rightarrow> bool" where
  "packets_told ps d \<longleftrightarrow> de_packets d = length ps \<and> (\<forall>k < length ps. assembled (Suc k) (fragments (de_events d)) = pk_data (ps ! k)) \<and>
     (\<forall>m \<in> set (fragments (de_events d)). \<exists>k < length ps. mp_packet_number m = Suc k \<and> piece_of m (ps ! k))"

lemma emit_packet_told:
  assumes "packets_told ps d" "emit_packet V time_base p d = (d', None)"
  shows "packets_told (ps @ [p]) d'"
proof -
  have n: "de_packets d = length ps"
    using assms(1) by (simp add: packets_told_def)
  have "emit_fragments V (Suc (length ps)) time_base p 0 (d\<lparr>de_packets := Suc (length ps)\<rparr>) = (d', None)"
    using assms(2) by (auto simp: emit_packet_def Let_def n split: if_splits)
  from emit_fragments_ok [OF this] obtain ms where ms: "fragments (de_events d') = fragments (de_events d) @ ms" "de_packets d' = Suc (length ps)"
    "\<forall>m \<in> set ms. mp_packet_number m = Suc (length ps) \<and> piece_of m p" "concat (map mp_data ms) = pk_data p"
    by auto
  have old: "mp_packet_number m \<noteq> Suc (length ps)" if "m \<in> set (fragments (de_events d))" for m
    using assms(1) that by (fastforce simp: packets_told_def)
  have "filter (\<lambda>m. mp_packet_number m = Suc (length ps)) (fragments (de_events d)) = []"
    using old by (simp add: filter_empty_conv)
  moreover have "filter (\<lambda>m. mp_packet_number m = Suc k) ms = (if k = length ps then ms else [])" for k
    using ms(3) by (auto simp: filter_empty_conv filter_id_conv)
  ultimately have asm: "assembled (Suc k) (fragments (de_events d')) = (if k = length ps then pk_data p else assembled (Suc k) (fragments (de_events d)))" for k
    using ms(1,4) by (simp add: assembled_def)
  have "\<exists>k < length (ps @ [p]). mp_packet_number m = Suc k \<and> piece_of m ((ps @ [p]) ! k)" if "m \<in> set (fragments (de_events d'))" for m
  proof (cases "m \<in> set ms")
    case True
    with ms(3) show ?thesis
      by (intro exI [of _ "length ps"]) simp
  next
    case False
    with that ms(1) assms(1) obtain k where "k < length ps" "mp_packet_number m = Suc k" "piece_of m (ps ! k)"
      by (auto simp: packets_told_def)
    then show ?thesis
      by (intro exI [of _ k]) (simp add: nth_append)
  qed
  moreover have "assembled (Suc k) (fragments (de_events d')) = pk_data ((ps @ [p]) ! k)" if "k < length (ps @ [p])" for k
    using that asm assms(1) by (auto simp: packets_told_def nth_append less_Suc_eq)
  ultimately show ?thesis
    using ms(2) by (simp add: packets_told_def)
qed

lemma told_frame:
  assumes "\<And>c. packets_are c d \<Longrightarrow> holds (packets_are c) (packets_are c) r" "packets_told ps d" "r = (d', x)"
  shows "packets_told ps d'"
proof -
  have "holds (packets_are (fragments (de_events d), de_packets d)) (packets_are (fragments (de_events d), de_packets d)) r"
    by (rule assms(1)) (simp add: packets_are_def)
  then have "packets_are (fragments (de_events d), de_packets d) d'"
    by (simp add: holds_def assms(3))
  with assms(2) show ?thesis
    by (simp add: packets_are_def packets_told_def)
qed

lemma process_packet_told:
  assumes "packets_told ps d" "process_packet V r d = (d', None)" "do_emit_packets (dv_options V)"
  shows "packets_told (ps @ [rd_packet r]) d'"
proof -
  define t where "t = nf_tracks (rd_format r) ! nat (pk_stream_index (rd_packet r))"
  obtain d1 d2 where d1: "describe V (rd_format r) d = (d1, None)" and d2: "emit_packet V (nt_time_base t) (rd_packet r) d1 = (d2, None)"
    and d': "(if wants_audio V (nat (pk_stream_index (rd_packet r))) t then decode_packet V (nat (pk_stream_index (rd_packet r))) (nt_time_base t) r d2 else (d2, None)) = (d', None)"
    using assms(2,3) by (auto simp: process_packet_def Let_def limit_to_def t_def and_then_None_iff split: if_splits)
  have "packets_told ps d1"
    by (rule told_frame [OF packet_frame.describe_holds assms(1) d1])
  from emit_packet_told [OF this d2] have told: "packets_told (ps @ [rd_packet r]) d2" .
  show ?thesis
  proof (cases "wants_audio V (nat (pk_stream_index (rd_packet r))) t")
    case True
    then have "decode_packet V (nat (pk_stream_index (rd_packet r))) (nt_time_base t) r d2 = (d', None)"
      using d' by simp
    from told_frame [OF packet_frame.decode_packet_holds told this] show ?thesis .
  qed (use d' told in simp)
qed

lemma callbacks_told: "packets_told ps d \<Longrightarrow> packets_told ps (native_callbacks V cs d)"
  by (rule told_frame [where r = "(native_callbacks V cs d, None)"]) (auto intro: packet_frame.callbacks_good)

abbreviation consumed_reads :: "decoder_env \<Rightarrow> native_read list \<Rightarrow> native_read list" where
  "consumed_reads V rs \<equiv> takeWhile (\<lambda>r. rd_result r \<noteq> dv_eof V) rs"

lemma read_packets_told:
  assumes "do_emit_packets (dv_options V)"
  shows "packets_told ps d \<Longrightarrow> read_packets V at_eof rs d = (d', None) \<Longrightarrow> packets_told (ps @ map rd_packet (consumed_reads V rs)) d'"
proof (induction rs arbitrary: d ps)
  case Nil
  then obtain d1 where d1: "check_cancelled V d = (d1, None)" and d': "d' = native_callbacks V at_eof d1"
    by (auto simp: Let_def and_then_None_iff)
  from callbacks_told [OF told_frame [OF packet_frame.cancelled_holds Nil(1) d1]] d' show ?case
    by simp
next
  case (Cons r rs)
  from Cons.prems(2) obtain d1 where d1: "check_cancelled V d = (d1, None)"
    and rest: "(case de_reader_error (native_callbacks V (rd_callbacks r) d1) of
       Some e \<Rightarrow> (native_callbacks V (rd_callbacks r) d1, Some e)
     | None \<Rightarrow> if rd_result r = dv_eof V then (native_callbacks V (rd_callbacks r) d1, None)
         else and_then (check_result V (rd_result r) ''read packet'' (native_callbacks V (rd_callbacks r) d1)) (\<lambda>d3.
           and_then (process_packet V r d3) (read_packets V at_eof rs))) = (d', None)"
    by (auto simp: Let_def and_then_None_iff)
  have told: "packets_told ps (native_callbacks V (rd_callbacks r) d1)"
    by (rule callbacks_told [OF told_frame [OF packet_frame.cancelled_holds Cons.prems(1) d1]])
  show ?case
  proof (cases "rd_result r = dv_eof V")
    case True
    with rest told show ?thesis
      by (auto split: option.splits)
  next
    case False
    with rest obtain d3 d4 where d3: "check_result V (rd_result r) ''read packet'' (native_callbacks V (rd_callbacks r) d1) = (d3, None)"
      and d4: "process_packet V r d3 = (d4, None)" and d': "read_packets V at_eof rs d4 = (d', None)"
      by (auto simp: and_then_None_iff split: option.splits)
    have "packets_told (ps @ [rd_packet r]) d4"
      by (rule process_packet_told [OF told_frame [OF packet_frame.check_holds told d3] d4 assms])
    from Cons.IH [OF this d'] False show ?thesis
      by simp
  qed
qed

lemma decode_media_packets:
  assumes "do_emit_packets (dv_options V)" "decode_media V R = (d, None)"
  shows "packets_told (map rd_packet (consumed_reads V (nr_reads R))) d"
proof -
  obtain d1 d2 d3 d4 d5 where run: "open_media V R decoder_new = (d1, None)" "describe V (nr_format R) d1 = (d2, None)"
    "read_packets V (nr_eof_callbacks R) (nr_reads R) d2 = (d3, None)" "check_cancelled V d3 = (d4, None)"
    "drain_tracks V R (map fst (de_audio d4)) d4 = (d5, None)" "check_selected V d5 = (d5, None)" "describe V (nr_final_format R) d5 = (d, None)"
    using assms(2) by (auto simp: decode_media_def decoder_run_def and_then_None_iff check_selected_def split: if_splits)
  have "packets_told [] decoder_new"
    by (simp add: packets_told_def decoder_new_def)
  from told_frame [OF packet_frame.describe_holds told_frame [OF packet_frame.open_holds this run(1)] run(2)]
  have "packets_told [] d2" .
  from read_packets_told [OF assms(1) this run(3)] have "packets_told (map rd_packet (consumed_reads V (nr_reads R))) d3"
    by simp
  from told_frame [OF packet_frame.drain_holds told_frame [OF packet_frame.cancelled_holds this run(4)] run(5)]
  show ?thesis
    using told_frame [OF packet_frame.describe_holds _ run(7)] by blast
qed

section \<open>Exceptions of the source\<close>

text \<open>Nothing was thrown in a read so far; or something was, the last of it is kept, and nothing has been published since.\<close>

definition source_clear :: "decoder \<Rightarrow> bool" where
  "source_clear d \<longleftrightarrow> de_reader_error d = None \<and> de_thrown d = []"

definition source_failed :: "decoder \<Rightarrow> bool" where
  "source_failed d \<longleftrightarrow> de_thrown d \<noteq> [] \<and> de_reader_error d = Some (fst (last (de_thrown d))) \<and> (\<forall>x \<in> set (de_thrown d). snd x = length (de_events d))"

definition rethrown :: "decoder outcome \<Rightarrow> bool" where
  "rethrown r \<longleftrightarrow> source_clear (fst r) \<or> source_failed (fst r) \<and> de_reader_error (fst r) = snd r"

lemma callbacks_failed:
  "source_clear d \<or> source_failed d \<Longrightarrow> source_clear (native_callbacks V cs d) \<or> source_failed (native_callbacks V cs d)"
proof (induction cs arbitrary: d)
  case (Cons c cs)
  have "source_clear (note_thrown V c d (fst (read_callback V c d))) \<or> source_failed (note_thrown V c d (fst (read_callback V c d)))"
    using Cons.prems
    by (auto simp: note_thrown_def read_callback_def callback_body_def check_cancelled_def source_clear_def source_failed_def Let_def
      split: option.splits sum.splits if_splits)
  from Cons.IH [OF this] show ?case
    by (simp add: native_callbacks_def)
qed (simp add: native_callbacks_def)

lemma source_clear_fields [simp]: "source_clear (d\<lparr>de_polls := n\<rparr>) = source_clear d" "source_clear (d\<lparr>de_last_description := x\<rparr>) = source_clear d"
  "source_clear (d\<lparr>de_events := ev\<rparr>) = source_clear d" "source_clear (set_audio track s d) = source_clear d"
  "source_clear (note_resampled track r d) = source_clear d" "source_clear (d\<lparr>de_packets := n\<rparr>) = source_clear d"
  by (simp_all add: source_clear_def set_audio_def note_resampled_def)

lemma emit_audio_clear: "source_clear d \<Longrightarrow> source_clear (fst (emit_audio V track samples d))"
proof (induction V track samples d rule: emit_audio.induct)
  case (1 V track samples d)
  show ?case
    by (subst emit_audio.simps) (use 1 in \<open>auto simp: Let_def and_then_def decoder_emit_event_def split: option.splits\<close>)
qed

interpretation source_frame: decoder_observer V source_clear source_clear for V
  by unfold_locales (simp_all add: holds_def emit_audio_clear)

lemma emit_packet_clear: "source_clear d \<Longrightarrow> holds source_clear source_clear (emit_packet V time_base p d)"
proof -
  have "source_clear d \<Longrightarrow> source_clear (fst (emit_fragments V number time_base p offset d))" for number offset d
  proof (induction V number time_base p offset d rule: emit_fragments.induct)
    case (1 V number time_base p offset d)
    show ?case
      by (subst emit_fragments.simps) (use 1 in \<open>auto simp: Let_def and_then_def decoder_emit_event_def split: option.splits sum.splits\<close>)
  qed
  then show "source_clear d \<Longrightarrow> holds source_clear source_clear (emit_packet V time_base p d)"
    by (auto simp: emit_packet_def Let_def holds_def)
qed

text \<open>Outcomes of the two kinds, composed.\<close>

definition source_ok :: "decoder outcome \<Rightarrow> bool" where
  "source_ok r \<longleftrightarrow> rethrown r \<and> (snd r = None \<longrightarrow> source_clear (fst r))"

lemma source_ok_then: "source_ok r \<Longrightarrow> (\<And>d. source_clear d \<Longrightarrow> source_ok (k d)) \<Longrightarrow> source_ok (and_then r k)"
  by (auto simp: source_ok_def and_then_def split: option.splits)

lemma source_ok_holds: "holds source_clear source_clear r \<Longrightarrow> source_ok r"
  by (auto simp: source_ok_def rethrown_def holds_def)

lemma check_source_ok: "source_clear d \<or> source_failed d \<Longrightarrow> source_ok (check_result V code operation d)"
proof (elim disjE)
  assume "source_clear d"
  then show ?thesis
    by (intro source_ok_holds source_frame.check_holds)
next
  assume "source_failed d"
  then show ?thesis
    by (auto simp: check_result_def source_ok_def rethrown_def source_failed_def)
qed

lemma failed_source_ok: "source_clear d \<or> source_failed d \<Longrightarrow> source_ok (d, de_reader_error d)"
  by (auto simp: source_ok_def rethrown_def source_clear_def source_failed_def)

lemma read_source_ok: "source_clear d \<Longrightarrow> source_ok (read_packets V at_eof rs d)"
proof (induction rs arbitrary: d)
  case Nil
  show ?case
    unfolding read_packets.simps
    by (rule source_ok_then [OF source_ok_holds [OF source_frame.cancelled_holds [OF Nil]]])
      (simp add: Let_def failed_source_ok callbacks_failed)
next
  case (Cons r rs)
  show ?case
    unfolding read_packets.simps
  proof (rule source_ok_then [OF source_ok_holds [OF source_frame.cancelled_holds [OF Cons.prems]]])
    fix d1 :: decoder
    assume d1: "source_clear d1"
    let ?d = "native_callbacks V (rd_callbacks r) d1"
    have either: "source_clear ?d \<or> source_failed ?d"
      using d1 by (intro callbacks_failed) simp
    have "source_ok (and_then (check_result V (rd_result r) ''read packet'' ?d) (\<lambda>d3. and_then (process_packet V r d3) (read_packets V at_eof rs)))"
      by (intro source_ok_then [OF check_source_ok [OF either]] source_ok_then [OF source_ok_holds [OF source_frame.process_holds [OF emit_packet_clear]]] Cons.IH)
    with failed_source_ok [OF either] show "source_ok (let d2 = ?d in case de_reader_error d2 of Some e \<Rightarrow> (d2, Some e) | None \<Rightarrow> if rd_result r = dv_eof V then (d2, None)
        else and_then (check_result V (rd_result r) ''read packet'' d2) (\<lambda>d3. and_then (process_packet V r d3) (read_packets V at_eof rs)))"
      by (auto simp: Let_def split: option.splits)
  qed
qed

lemma run_source_ok: "source_clear d \<Longrightarrow> source_ok (decoder_run V R d)"
proof -
  assume d: "source_clear d"
  have skip: "source_ok (d1, x)" if "source_clear d1" for d1 x
    using that by (simp add: source_ok_def rethrown_def)
  have either: "source_clear (native_callbacks V (nr_open_callbacks R) d) \<or> source_failed (native_callbacks V (nr_open_callbacks R) d)"
    using d by (intro callbacks_failed) simp
  have "source_ok (open_media V R d)"
    using d unfolding open_media_def
    by (auto intro!: skip source_ok_then [OF check_source_ok [OF either]] source_ok_then [OF source_ok_holds] source_frame.check_holds)
  then show ?thesis
    unfolding decoder_run_def
    by (rule source_ok_then)
      (intro source_ok_then [OF source_ok_holds [OF source_frame.describe_holds]] source_ok_then [OF read_source_ok]
        source_ok_then [OF source_ok_holds [OF source_frame.cancelled_holds]] source_ok_then [OF source_ok_holds [OF source_frame.drain_holds]]
        source_ok_then [OF source_ok_holds [OF source_frame.check_selected_holds]] source_ok_holds [OF source_frame.describe_holds])
qed

section \<open>Claims\<close>

text \<open>C11: Whatever the FFmpeg libraries answer, the audio chunks the decoder has published for a track, also when it throws, are mono at
  16 kHz, of 1 to 4096 samples, numbered from 1 without a gap, each starting at the sample after the last of the chunk before. When
  the decoder returns, the samples of a track's chunks, in order, are exactly the samples its resampler delivered.\<close>

theorem decoder_audio_exact:
  "timeline 0 0 (decoded t (de_events (fst (decode_media V R)))) \<and>
   (snd (decode_media V R) = None \<longrightarrow>
      all_samples (decoded t (de_events (fst (decode_media V R)))) = resampled_of t (de_resampled (fst (decode_media V R))))"
  using decode_media_audio [of t V R] by (auto simp: holds_def audio_kept_def audio_good_def)

text \<open>C28: When packets are asked for and the decoder returns, every native packet that was read before the end of the media has been
  published: the fragments with its number, in order, are together its bytes, no fragment is longer than 128 KiB, every fragment belongs
  to one of the packets and carries its track, times and size.\<close>

theorem decoder_packets_exact:
  assumes "do_emit_packets (dv_options V)" "decode_media V R = (d, None)"
    "ps = map rd_packet (takeWhile (\<lambda>r. rd_result r \<noteq> dv_eof V) (nr_reads R))"
  shows "de_packets d = length ps \<and> (\<forall>k < length ps. assembled (Suc k) (fragments (de_events d)) = pk_data (ps ! k)) \<and>
    (\<forall>m \<in> set (fragments (de_events d)). \<exists>k < length ps. mp_packet_number m = Suc k \<and> piece_of m (ps ! k))"
  using decode_media_packets [OF assms(1,2)] by (simp add: packets_told_def assms(3))

text \<open>C29: An exception that is thrown inside FFmpeg's read of the source (by the source, by the cancellation, or for a byte count out
  of range), in whatever call of the library it happens and whatever the library makes of the error code, ends the decoder: no event is
  published after it, and it is what the decoder throws, not the library's own error. Where the library goes on to read within the same
  call and a second exception is thrown, that one replaces it. So a decoder that returns met none.\<close>

theorem decoder_source_errors:
  assumes "decode_media V R = (d, outcome)" "de_thrown d \<noteq> []"
  shows "outcome = Some (fst (last (de_thrown d))) \<and> (\<forall>x \<in> set (de_thrown d). snd x = length (de_events d))"
  using run_source_ok [of decoder_new V R] assms
  by (auto simp: decode_media_def source_ok_def rethrown_def source_clear_def source_failed_def decoder_new_def)

section \<open>A concrete run\<close>

definition demo_decoder :: decoder_env where
  "demo_decoder = \<lparr>dv_options = \<lparr>do_emit_audio = True, do_emit_packets = True, do_audio_track_ids = []\<rparr>, dv_cancelled = \<lambda>_. False, dv_refuses = \<lambda>_. None,
     dv_info_size = \<lambda>_. 0, dv_info_bytes = \<lambda>_. ''info'', dv_packet_size = \<lambda>_. 0, dv_rescale = \<lambda>x a b. x, dv_sat_add = (+),
     dv_strerror = \<lambda>_. [], dv_eof = -2, dv_eagain = -11, dv_enomem = -12, dv_external = -3\<rparr>"

definition demo_native_track :: native_track where
  "demo_native_track = \<lparr>nt_id = 0, nt_type = AV_AUDIO, nt_type_code = 1, nt_codec_id = 1, nt_codec_name = ''opus'', nt_codec_tag = 0, nt_extradata = [],
     nt_time_base = (1, 1000000), nt_start = None, nt_duration = None, nt_metadata = [], nt_sample_rate = 48000, nt_channels = 1, nt_width = 0,
     nt_height = 0, nt_disposition = 0, nt_bit_rate = 0, nt_profile = 0, nt_level = 0, nt_side_data = []\<rparr>"

definition demo_native_format :: native_format where
  "demo_native_format = \<lparr>nf_name = ''ogg'', nf_long_name = None, nf_start_time = None, nf_duration = None, nf_metadata = [],
     nf_tracks = [demo_native_track]\<rparr>"

definition demo_receive :: native_receive where
  "demo_receive = \<lparr>rv_result = 0, rv_frame = \<lparr>fr_rate = 48000, fr_channels = 1, fr_count = 9, fr_format = 0, fr_timestamp = Some 0\<rparr>,
     rv_layout_copy = 0, rv_allocate = 0, rv_initialize = 0, rv_same_layout = True, rv_flush = [], rv_reset = 0, rv_capacity = 4, rv_output = Inr [1, 2]\<rparr>"

definition demo_read :: native_read where
  "demo_read = \<lparr>rd_callbacks = [(4096, Inr 10)], rd_result = 0, rd_format = demo_native_format,
     rd_packet = \<lparr>pk_stream_index = 0, pk_data = ''ab'', pk_pts = None, pk_dts = None, pk_duration = 0, pk_flags = 0, pk_key = True, pk_corrupt = False,
       pk_position = 0, pk_side_data = []\<rparr>,
     rd_codec = \<lparr>nc_found = True, nc_allocated = True, nc_parameters = 0, nc_opened = 0\<rparr>, rd_sent = 0, rd_before = [], rd_sent_again = 0,
     rd_frames = [demo_receive]\<rparr>"

definition demo_native_run :: native_run where
  "demo_native_run = \<lparr>nr_io_allocated = True, nr_format_allocated = True, nr_open_callbacks = [], nr_opened = 0, nr_format = demo_native_format,
     nr_wav_option = 0, nr_frame_allocated = True, nr_reads = [demo_read], nr_eof_callbacks = [(4096, Inr 0)],
     nr_drains = \<lambda>_. \<lparr>dr_sent = 0, dr_frames = [], dr_flush = [Inr [3]]\<rparr>, nr_final_format = demo_native_format\<rparr>"

lemmas demo_decoder_defs = decode_media_def decoder_run_def decoder_new_def open_media_def native_callbacks_def note_thrown_def read_callback_def callback_body_def check_cancelled_def
  check_result_def describe_def media_info_of_def describe_track_def track_side_data_def decoder_emit_event_def process_packet_def limit_to_def
  emit_packet_def emit_fragments.simps packet_fragment_def wants_audio_def decode_packet_def open_codec_def set_audio_def audio_of_def
  audio_state_new_def convert_def frame_fits_def start_resampler_def place_frame_def frame_end_def resample_frame_def resampled_count_def
  resampled_samples_def note_resampled_def flush_resampler_def truncated_wav_def check_selected_def event_bytes_def packet_limit_def
  emit_audio.simps [of V track "x # xs" for V track x xs] emit_audio.simps [of V track "[]" for V track] Let_def
  demo_decoder_def demo_native_run_def demo_read_def demo_receive_def demo_native_format_def demo_native_track_def

lemma and_then_run: "r = r' \<Longrightarrow> and_then r k = and_then r' k"
  by simp

lemma demo_decoder_runs: "snd (decode_media demo_decoder demo_native_run) = None"
  by (simp add: demo_decoder_defs cong: and_then_run)

lemma demo_decoder_events:
  "de_resampled (fst (decode_media demo_decoder demo_native_run)) = [(0, [1, 2]), (0, [3])]"
  "map ac_presentation_time_us (decoded 0 (de_events (fst (decode_media demo_decoder demo_native_run)))) = [Some 0, Some 2]"
  by (simp_all add: demo_decoder_defs audio_message_def microseconds_def output_rate_def cong: and_then_run)

lemma demo_decoded: "all_samples (decoded 0 (de_events (fst (decode_media demo_decoder demo_native_run)))) = [1, 2, 3]"
  using decode_media_audio [of 0 demo_decoder demo_native_run] demo_decoder_runs demo_decoder_events(1)
  by (auto simp: holds_def audio_good_def resampled_of_def)

theorem decoder_audio_exact_witness:
  "snd (decode_media demo_decoder demo_native_run) = None \<and>
   all_samples (decoded 0 (de_events (fst (decode_media demo_decoder demo_native_run)))) = [1, 2, 3]"
  using decoder_audio_exact [of 0 demo_decoder demo_native_run] demo_decoder_runs demo_decoder_events(1) by (simp add: resampled_of_def)

theorem decoder_packets_exact_witness:
  "assembled 1 (fragments (de_events (fst (decode_media demo_decoder demo_native_run)))) = ''ab''"
proof -
  have run: "decode_media demo_decoder demo_native_run = (fst (decode_media demo_decoder demo_native_run), None)"
    using demo_decoder_runs by (metis prod.collapse)
  have options: "do_emit_packets (dv_options demo_decoder)"
    by (simp add: demo_decoder_def)
  have packets: "map rd_packet (takeWhile (\<lambda>r. rd_result r \<noteq> dv_eof demo_decoder) (nr_reads demo_native_run)) = [rd_packet demo_read]"
    by (simp add: demo_decoder_def demo_native_run_def demo_read_def)
  from decoder_packets_exact [OF options run refl] show ?thesis
    unfolding packets by (simp add: demo_read_def)
qed

text \<open>The source fails on the second packet, twice; the first packet has been published, and FFmpeg's own code is \<open>-5\<close>.\<close>

definition failing_native_run :: native_run where
  "failing_native_run = demo_native_run\<lparr>nr_reads := [demo_read,
     demo_read\<lparr>rd_callbacks := [(4096, Inl (Runtime_error ''timeout'')), (4096, Inl (Runtime_error ''reset''))], rd_result := -5\<rparr>]\<rparr>"

theorem decoder_source_errors_witness:
  "snd (decode_media demo_decoder failing_native_run) = Some (Runtime_error ''reset'') \<and>
   de_thrown (fst (decode_media demo_decoder failing_native_run)) = [(Runtime_error ''timeout'', 3), (Runtime_error ''reset'', 3)] \<and>
   length (de_events (fst (decode_media demo_decoder failing_native_run))) = 3"
proof -
  have thrown: "de_thrown (fst (decode_media demo_decoder failing_native_run)) = [(Runtime_error ''timeout'', 3), (Runtime_error ''reset'', 3)]"
    by (simp add: demo_decoder_defs failing_native_run_def cong: and_then_run)
  obtain d outcome where run: "decode_media demo_decoder failing_native_run = (d, outcome)"
    by fastforce
  from decoder_source_errors [OF run] thrown run show ?thesis
    by simp
qed

section \<open>From the decoder to the speech worker\<close>

lemma timeline_audios_ok:
  assumes "\<forall>a \<in> set chunks. (\<forall>x \<in> set (chunk_samples a). f32_isfinite x) \<and>
      (case ac_presentation_time_us a of None \<Rightarrow> True | Some pts \<Rightarrow> - (2 ^ 62) \<le> pts \<and> pts \<le> 2 ^ 62)"
  shows "timeline first number chunks \<Longrightarrow> audios_ok first number chunks"
  using assms by (induction first number chunks rule: timeline.induct) (auto simp: chunk_at_def audio_ok_def)

text \<open>C8: The decoder, a track of the pipeline and a speech worker fit together: for resolved options with fixed windows, reconciled or not,
  and a worker that serves the model, the chunks that any run of the decoder has published for a track (of at most 10^14 samples, all
  finite, with presentation times within the limit of 2^62) are a stream the track accepts. It opens, and then it takes them all and
  finishes without an exception, the worker's session ending with status OK; or its exception is one that the receiver of its events
  threw or, when the transcript is reconciled, a verdict of the reconciler on the content of a hypothesis. No check of the
  decoder's numbering, positions or format fails. Without reconciliation and with a receiver that takes the events it completes.\<close>

theorem decoded_track_completes:
  assumes "resolve_task vad o0 = Inr options" "\<not> speech_aware (policy options)"
    "peer T E wk b" "open_ok E (track_request stream_id track options)" "handshake_worker E wk (so_model_id options)"
    "chunks = decoded track (de_events (fst (decode_media V R)))" "length (all_samples chunks) \<le> 100000000000000"
    "\<forall>a \<in> set chunks. (\<forall>x \<in> set (chunk_samples a). f32_isfinite x) \<and>
      (case ac_presentation_time_us a of None \<Rightarrow> True | Some pts \<Rightarrow> - (2 ^ 62) \<le> pts \<and> pts \<le> 2 ^ 62)"
  shows "\<exists>t st st' r. track_new T stream_id track options vad machine [] = (t, Inr st) \<and> track_run T chunks st = (st', r) \<and>
    (case r of None \<Rightarrow> tr_done (st_track st') | Some x \<Rightarrow> track_failure T (get_or False (so_reconcile_transcript options)) x) \<and>
    (so_reconcile_transcript options = Some False \<and> (\<forall>events. te_refuses T events = None) \<longrightarrow> r = None)"
proof -
  have "timeline 0 0 chunks"
    using decode_media_audio [of track V R] by (simp add: holds_def audio_kept_def assms(6))
  note ends = track_ends [OF assms(1-5) timeline_audios_ok [OF assms(8) this] assms(7), of machine]
  have "\<not> track_failure T (get_or False (so_reconcile_transcript options)) x"
    if "so_reconcile_transcript options = Some False" "\<forall>events. te_refuses T events = None" for x
    using that by (simp add: track_failure_def track_excuse_def get_or_def)
  with ends show ?thesis
    by (fastforce split: option.splits)
qed

theorem decoded_track_completes_witness:
  "\<exists>t st st'. track_new demo_track_env demo_uuid 0 demo_track_options [] [] [] = (t, Inr st) \<and>
     track_run demo_track_env (decoded 0 (de_events (fst (decode_media demo_decoder demo_native_run)))) st = (st', None) \<and> tr_done (st_track st')"
proof -
  let ?chunks = "decoded 0 (de_events (fst (decode_media demo_decoder demo_native_run)))"
  have finite: "f32_isfinite x" if "a \<in> set ?chunks" "x \<in> set (chunk_samples a)" for a x
  proof -
    have "x \<in> set (all_samples ?chunks)"
      using that by auto
    then show ?thesis
      by (auto simp: demo_decoded small_finite)
  qed
  have "case ac_presentation_time_us a of None \<Rightarrow> True | Some pts \<Rightarrow> - (2 ^ 62) \<le> pts \<and> pts \<le> 2 ^ 62" if "a \<in> set ?chunks" for a
  proof -
    have "ac_presentation_time_us a \<in> set (map ac_presentation_time_us ?chunks)"
      using that by simp
    then show ?thesis
      unfolding demo_decoder_events(2) by auto
  qed
  with finite have sound: "\<forall>a \<in> set ?chunks. (\<forall>x \<in> set (chunk_samples a). f32_isfinite x) \<and>
      (case ac_presentation_time_us a of None \<Rightarrow> True | Some pts \<Rightarrow> - (2 ^ 62) \<le> pts \<and> pts \<le> 2 ^ 62)"
    by blast
  have short: "length (all_samples ?chunks) \<le> 100000000000000"
    unfolding demo_decoded by simp
  show ?thesis
    using decoded_track_completes [OF demo_track_resolved(1,2) demo_track_peer refl short sound, of "[]"] demo_track_resolved(3) demo_takes_events
    by (auto split: option.splits)
qed

end
