(* ===== verification/Speech_Models.thy ===== *)
theory Speech_Models
  imports Worker Reconcile Model_Pool
begin

text \<open>
  The speech backends of the worker: the whisper.cpp adapter (src/streaming/src/speech.cpp), the Parakeet adapter
  (src/streaming/src/parakeet_model.cpp) and the backend that borrows states of the collector's pool
  (src/src/engine/stream_backend.cpp). The two libraries are parameters: what they load and what a finished inference holds.
  Of a token the model keeps the fields other code reads (Media_Types).
\<close>

section \<open>What the libraries hold after an inference\<close>

record native_token =
  nk_id :: int
  nk_text :: string
  nk_plog :: "32 word"
  nk_t0 :: int
  nk_t1 :: int
  nk_word_start :: bool

record native_segment =
  ng_t0 :: int
  ng_t1 :: int
  ng_text :: string
  ng_tokens :: "native_token list"

definition window_base :: "speech_window \<Rightarrow> int" where
  "window_base w = int ((win_first_sample w div 16000) * 1000000 + (win_first_sample w mod 16000) * 1000000 div 16000)"

text \<open>The checks both adapters make of a window.\<close>

definition window_refused :: "speech_window \<Rightarrow> exn option" where
  "window_refused w =
     (if win_samples w = [] \<or> length (win_samples w) > 30 * 16000 \<or> win_first_sample w > 100000000000000
      then Some (Failure INVALID_ARGUMENT ''invalid speech inference request'')
      else if \<not> list_all f32_isfinite (win_samples w) then Some (Failure INVALID_ARGUMENT ''nonfinite speech PCM'')
      else None)"

section \<open>Whisper\<close>

record native_params =
  wp_threads :: int
  wp_language :: string
  wp_translate :: bool
  wp_token_timestamps :: bool

text \<open>\<open>wh_full\<close> gives the state after the inference, its result, and the exception a poll of the cancellation threw inside it.\<close>

record ('c, 's) whisper_env =
  wh_init_context :: "string \<Rightarrow> 'c option"
  wh_init_state :: "'c \<Rightarrow> 's option"
  wh_sha256 :: "string \<Rightarrow> string"
  wh_multilingual :: "'c \<Rightarrow> bool"
  wh_lang_id :: "string \<Rightarrow> int"
  wh_full :: "'c \<Rightarrow> 's \<Rightarrow> native_params \<Rightarrow> f32 list \<Rightarrow> 's \<times> int \<times> exn option"
  wh_lang_str :: "'s \<Rightarrow> string option"
  wh_segments :: "'s \<Rightarrow> native_segment list"
  wh_token_eot :: "'c \<Rightarrow> int"
  wh_mean :: "32 word list \<Rightarrow> 64 word"
  wh_uuid :: "nat \<Rightarrow> string"
  wh_version :: string

record ('c, 's) whisper_model =
  wm_context :: 'c
  wm_state :: 's
  wm_hash :: string
  wm_id :: string
  wm_threads :: int
  wm_owns_state :: bool

definition whisper_model_new :: "('c, 's) whisper_env \<Rightarrow> string \<Rightarrow> string \<Rightarrow> int \<Rightarrow> exn + ('c, 's) whisper_model" where
  "whisper_model_new E model model_id thread_count =
     (if model = [] \<or> model_id = [] \<or> thread_count < 1 \<or> thread_count > 64 then Inl (Invalid_argument ''invalid speech model configuration'')
      else (case wh_init_context E model of
          None \<Rightarrow> Inl (Runtime_error ''native Whisper model load failed'')
        | Some context \<Rightarrow> (case wh_init_state E context of
              None \<Rightarrow> Inl (Runtime_error ''native Whisper state allocation failed'')
            | Some state \<Rightarrow> Inr \<lparr>wm_context = context, wm_state = state, wm_hash = wh_sha256 E model, wm_id = model_id, wm_threads = thread_count,
                wm_owns_state = True\<rparr>)))"

definition whisper_model_borrow :: "'c option \<Rightarrow> 's option \<Rightarrow> string \<Rightarrow> string \<Rightarrow> int \<Rightarrow> exn + ('c, 's) whisper_model" where
  "whisper_model_borrow context state model_id hash thread_count =
     (case (context, state) of
        (Some c, Some s) \<Rightarrow>
          if model_id = [] \<or> length hash \<noteq> 32 \<or> thread_count < 1 \<or> thread_count > 256 then Inl (Invalid_argument ''invalid borrowed speech state'')
          else Inr \<lparr>wm_context = c, wm_state = s, wm_hash = hash, wm_id = model_id, wm_threads = thread_count, wm_owns_state = False\<rparr>
      | _ \<Rightarrow> Inl (Invalid_argument ''invalid borrowed speech state''))"

definition multilingual :: "('c, 's) whisper_env \<Rightarrow> ('c, 's) whisper_model \<Rightarrow> bool" where
  "multilingual E m = wh_multilingual E (wm_context m)"

definition library_version :: "('c, 's) whisper_env \<Rightarrow> string" where
  "library_version E = ''whisper.cpp/'' @ wh_version E"

definition known_task :: "speech_task \<Rightarrow> bool" where
  "known_task task \<longleftrightarrow> task = SPEECH_TASK_UNSPECIFIED \<or> task = SPEECH_TASK_TRANSCRIBE \<or> task = SPEECH_TASK_TRANSLATE_TO_ENGLISH"

definition whisper_validate_options :: "('c, 's) whisper_env \<Rightarrow> ('c, 's) whisper_model \<Rightarrow> speech_options \<Rightarrow> exn option" where
  "whisper_validate_options E m options =
     (if so_task options = SPEECH_TASK_TRANSLATE_TO_ENGLISH \<and> \<not> multilingual E m
      then Some (Failure INVALID_ARGUMENT ''translation requires multilingual Whisper weights'')
      else if so_model_id options \<noteq> wm_id m \<or> CHR 0x00 \<in> set (so_language options) \<or>
          (so_language options \<noteq> [] \<and> wh_lang_id E (so_language options) < 0) \<or> \<not> known_task (so_task options) \<or>
          (\<not> multilingual E m \<and> so_language options \<noteq> [] \<and> so_language options \<noteq> ''en'')
      then Some (Failure INVALID_ARGUMENT ''invalid speech model options'')
      else None)"

definition native_params_of :: "('c, 's) whisper_env \<Rightarrow> ('c, 's) whisper_model \<Rightarrow> speech_options \<Rightarrow> native_params" where
  "native_params_of E m options = \<lparr>wp_threads = wm_threads m,
     wp_language = (if \<not> multilingual E m then ''en'' else if so_language options = [] then ''auto'' else so_language options),
     wp_translate = (so_task options = SPEECH_TASK_TRANSLATE_TO_ENGLISH), wp_token_timestamps = so_word_timestamps options\<rparr>"

definition adapter_token :: "('c, 's) whisper_env \<Rightarrow> ('c, 's) whisper_model \<Rightarrow> speech_options \<Rightarrow> int \<Rightarrow> native_token \<Rightarrow> speech_token" where
  "adapter_token E m options base k =
     (let timed = (so_word_timestamps options \<and> nk_t0 k \<ge> 0 \<and> nk_t1 k \<ge> nk_t0 k) in
      \<lparr>tk_text = nk_text k, tk_start_us = (if timed then Some (base + nk_t0 k * 10000) else None),
       tk_end_us = (if timed then Some (base + nk_t1 k * 10000) else None),
       tk_kind = (if nk_id k < wh_token_eot E (wm_context m) then TK_TEXT else TK_CONTROL), tk_whisper = Some (nk_plog k),
       tk_rendered = None, tk_parakeet = None\<rparr>)"

definition adapter_segment ::
  "('c, 's) whisper_env \<Rightarrow> ('c, 's) whisper_model \<Rightarrow> speech_options \<Rightarrow> nat \<Rightarrow> int \<Rightarrow> string \<Rightarrow> nat \<Rightarrow> native_segment \<Rightarrow> transcript_segment" where
  "adapter_segment E m options track base language i g =
     (let translate = (so_task options = SPEECH_TASK_TRANSLATE_TO_ENGLISH) in
      segment_empty\<lparr>ts_segment_id := wh_uuid E i, ts_revision := 1, ts_final := False, ts_track_id := track,
        ts_start_us := base + ng_t0 g * 10000, ts_end_us := base + ng_t1 g * 10000, ts_text := ng_text g, ts_source_language := language,
        ts_output_language := (if translate then ''en'' else language),
        ts_task := (if translate then SPEECH_TASK_TRANSLATE_TO_ENGLISH else SPEECH_TASK_TRANSCRIBE),
        ts_tokens := map (adapter_token E m options base) (ng_tokens g),
        ts_average_log_probability := (if ng_tokens g = [] then None else Some (wh_mean E (map nk_plog (ng_tokens g))))\<rparr>)"

text \<open>The segments of a finished inference.\<close>

definition whisper_output ::
  "('c, 's) whisper_env \<Rightarrow> ('c, 's) whisper_model \<Rightarrow> speech_options \<Rightarrow> speech_window \<Rightarrow> nat \<Rightarrow> transcript_segment list" where
  "whisper_output E m options w track =
     (let language = (case wh_lang_str E (wm_state m) of Some l \<Rightarrow> l | None \<Rightarrow> []) in
      map (\<lambda>(i, g). adapter_segment E m options track (window_base w) language i g) (enumerate 0 (wh_segments E (wm_state m))))"

text \<open>\<open>cancelled\<close> are the answers of the polls before and after the inference.\<close>

definition whisper_infer ::
  "('c, 's) whisper_env \<Rightarrow> bool \<times> bool \<Rightarrow> ('c, 's) whisper_model \<Rightarrow> speech_window \<Rightarrow> nat \<Rightarrow> speech_options \<Rightarrow>
   ('c, 's) whisper_model \<times> (exn + transcript_segment list)" where
  "whisper_infer E cancelled m w track options =
     (case whisper_validate_options E m options of
        Some e \<Rightarrow> (m, Inl e)
      | None \<Rightarrow> (case window_refused w of
            Some e \<Rightarrow> (m, Inl e)
          | None \<Rightarrow>
              if fst cancelled then (m, Inl (Failure CANCELLED ''speech cancelled''))
              else (case wh_full E (wm_context m) (wm_state m) (native_params_of E m options) (win_samples w) of
                  (state, result, thrown) \<Rightarrow>
                    let m1 = m\<lparr>wm_state := state\<rparr> in
                    (case thrown of
                       Some e \<Rightarrow> (m1, Inl e)
                     | None \<Rightarrow>
                         if snd cancelled then (m1, Inl (Failure CANCELLED ''speech cancelled''))
                         else if result \<noteq> 0 then (m1, Inl (Failure INTERNAL ''native Whisper inference failed''))
                         else (m1, Inr (whisper_output E m1 options w track))))))"

section \<open>Parakeet\<close>

record encoder_context =
  ec_analysis_samples :: nat
  ec_frame_hop_samples :: nat
  ec_feature_frames :: nat
  ec_encoder_frames :: nat

record ('c, 's) parakeet_env =
  pq_init_context :: "string \<Rightarrow> 'c option"
  pq_init_state :: "'c \<Rightarrow> 's option"
  pq_sha256 :: "string \<Rightarrow> string"
  pq_full :: "'c \<Rightarrow> 's \<Rightarrow> int \<Rightarrow> nat \<Rightarrow> f32 list \<Rightarrow> 's \<times> int \<times> exn option"
  pq_segments :: "'s \<Rightarrow> native_segment list"
  pq_blank :: "'c \<Rightarrow> int"
  pq_bos :: "'c \<Rightarrow> int"
  pq_length :: "string \<Rightarrow> bool \<Rightarrow> int"
  pq_render :: "string \<Rightarrow> bool \<Rightarrow> nat \<Rightarrow> string \<times> int"
  pq_mean :: "32 word list \<Rightarrow> 64 word"
  pq_uuid :: "nat \<Rightarrow> string"
  pq_version :: string

record ('c, 's) parakeet_model =
  pm_context :: 'c
  pm_state :: 's
  pm_hash :: string
  pm_id :: string
  pm_threads :: int

definition parakeet_model_new :: "('c, 's) parakeet_env \<Rightarrow> string \<Rightarrow> string \<Rightarrow> int \<Rightarrow> exn + ('c, 's) parakeet_model" where
  "parakeet_model_new E model model_id thread_count =
     (if model = [] \<or> model_id = [] \<or> thread_count < 1 \<or> thread_count > 64 then Inl (Invalid_argument ''invalid speech model configuration'')
      else (case pq_init_context E model of
          None \<Rightarrow> Inl (Runtime_error ''native Parakeet model load failed'')
        | Some context \<Rightarrow> (case pq_init_state E context of
              None \<Rightarrow> Inl (Runtime_error ''native Parakeet state allocation failed'')
            | Some state \<Rightarrow> Inr \<lparr>pm_context = context, pm_state = state, pm_hash = pq_sha256 E model, pm_id = model_id, pm_threads = thread_count\<rparr>)))"

definition parakeet_version :: "('c, 's) parakeet_env \<Rightarrow> string" where
  "parakeet_version E = ''whisper.cpp/parakeet/'' @ pq_version E"

text \<open>The frame counts are 32-bit fields.\<close>

definition parakeet_encoder_context :: "nat \<Rightarrow> exn + encoder_context" where
  "parakeet_encoder_context samples =
     (if samples = 0 \<or> samples > 30 * 16000 then Inl (Failure INVALID_ARGUMENT ''invalid encoder input length'')
      else let analysis = u32 (max samples 320); frames = u32 (analysis div 160 + 1) in
        Inr \<lparr>ec_analysis_samples = analysis, ec_frame_hop_samples = 160, ec_feature_frames = frames, ec_encoder_frames = max 400 frames\<rparr>)"

definition parakeet_validate_options :: "('c, 's) parakeet_model \<Rightarrow> speech_options \<Rightarrow> exn option" where
  "parakeet_validate_options m options =
     (if so_model_id options \<noteq> pm_id m \<or> so_language options \<noteq> [] \<or>
         \<not> (so_task options = SPEECH_TASK_UNSPECIFIED \<or> so_task options = SPEECH_TASK_TRANSCRIBE)
      then Some (Failure INVALID_ARGUMENT ''Parakeet accepts transcription without language hints only'') else None)"

text \<open>The window with zeros up to the analysis length.\<close>

definition padded_samples :: "encoder_context \<Rightarrow> f32 list \<Rightarrow> f32 list" where
  "padded_samples c samples = samples @ replicate (ec_analysis_samples c - length samples) f32_zero"

definition parakeet_token :: "('c, 's) parakeet_env \<Rightarrow> ('c, 's) parakeet_model \<Rightarrow> int \<Rightarrow> bool \<Rightarrow> native_token \<Rightarrow> exn + speech_token" where
  "parakeet_token E m base first k =
     (let control = (nk_id k = pq_blank E (pm_context m) \<or> nk_id k = pq_bos E (pm_context m));
          len = (if control then 0 else pq_length E (nk_text k) first);
          timed = (nk_t0 k \<ge> 0 \<and> nk_t1 k \<ge> nk_t0 k) in
      if len < 0 \<or> len > 65535 then Inl (Failure RESOURCE_EXHAUSTED ''native token rendering exceeds limit'')
      else (case (if control then ([], len) else pq_render E (nk_text k) first (nat len + 1)) of (buffer, written) \<Rightarrow>
        if \<not> control \<and> written \<noteq> len then Inl (Failure DATA_LOSS ''native token rendering changed size'')
        else Inr \<lparr>tk_text = nk_text k, tk_start_us = (if timed then Some (base + nk_t0 k * 10000) else None),
          tk_end_us = (if timed then Some (base + nk_t1 k * 10000) else None), tk_kind = (if control then TK_CONTROL else TK_TEXT),
          tk_whisper = None, tk_rendered = Some (take (nat len) buffer), tk_parakeet = Some (nk_word_start k)\<rparr>))"

fun parakeet_tokens :: "('c, 's) parakeet_env \<Rightarrow> ('c, 's) parakeet_model \<Rightarrow> int \<Rightarrow> bool \<Rightarrow> native_token list \<Rightarrow> exn + speech_token list" where
  "parakeet_tokens E m base first [] = Inr []"
| "parakeet_tokens E m base first (k # ks) =
     (case parakeet_token E m base first k of
        Inl e \<Rightarrow> Inl e
      | Inr t \<Rightarrow> (case parakeet_tokens E m base False ks of Inl e \<Rightarrow> Inl e | Inr ts \<Rightarrow> Inr (t # ts)))"

definition parakeet_segment ::
  "('c, 's) parakeet_env \<Rightarrow> ('c, 's) parakeet_model \<Rightarrow> nat \<Rightarrow> int \<Rightarrow> nat \<Rightarrow> native_segment \<Rightarrow> exn + transcript_segment" where
  "parakeet_segment E m track base i g =
     (case parakeet_tokens E m base True (ng_tokens g) of
        Inl e \<Rightarrow> Inl e
      | Inr tokens \<Rightarrow> Inr (segment_empty\<lparr>ts_segment_id := pq_uuid E i, ts_revision := 1, ts_final := False, ts_track_id := track,
          ts_start_us := base + ng_t0 g * 10000, ts_end_us := base + ng_t1 g * 10000, ts_text := ng_text g, ts_task := SPEECH_TASK_TRANSCRIBE,
          ts_tokens := tokens,
          ts_average_log_probability := (if ng_tokens g = [] then None else Some (pq_mean E (map nk_plog (ng_tokens g))))\<rparr>))"

fun parakeet_output ::
  "('c, 's) parakeet_env \<Rightarrow> ('c, 's) parakeet_model \<Rightarrow> nat \<Rightarrow> int \<Rightarrow> nat \<Rightarrow> native_segment list \<Rightarrow> exn + transcript_segment list" where
  "parakeet_output E m track base i [] = Inr []"
| "parakeet_output E m track base i (g # gs) =
     (case parakeet_segment E m track base i g of
        Inl e \<Rightarrow> Inl e
      | Inr s \<Rightarrow> (case parakeet_output E m track base (Suc i) gs of Inl e \<Rightarrow> Inl e | Inr ss \<Rightarrow> Inr (s # ss)))"

definition parakeet_infer ::
  "('c, 's) parakeet_env \<Rightarrow> bool \<times> bool \<Rightarrow> ('c, 's) parakeet_model \<Rightarrow> speech_window \<Rightarrow> nat \<Rightarrow> speech_options \<Rightarrow>
   ('c, 's) parakeet_model \<times> (exn + transcript_segment list)" where
  "parakeet_infer E cancelled m w track options =
     (case parakeet_validate_options m options of
        Some e \<Rightarrow> (m, Inl e)
      | None \<Rightarrow> (case window_refused w of
            Some e \<Rightarrow> (m, Inl e)
          | None \<Rightarrow>
              if fst cancelled then (m, Inl (Failure CANCELLED ''speech cancelled''))
              else (case parakeet_encoder_context (length (win_samples w)) of
                  Inl e \<Rightarrow> (m, Inl e)
                | Inr c \<Rightarrow> (case pq_full E (pm_context m) (pm_state m) (pm_threads m) (ec_encoder_frames c) (padded_samples c (win_samples w)) of
                      (state, result, thrown) \<Rightarrow>
                        let m1 = m\<lparr>pm_state := state\<rparr> in
                        (case thrown of
                           Some e \<Rightarrow> (m1, Inl e)
                         | None \<Rightarrow>
                             if snd cancelled then (m1, Inl (Failure CANCELLED ''speech cancelled''))
                             else if result \<noteq> 0 then (m1, Inl (Failure INTERNAL ''native Parakeet inference failed''))
                             else (m1, parakeet_output E m1 track (window_base w) 0 (pq_segments E state)))))))"

section \<open>What a backend says of itself\<close>

record backend_info =
  bi_threads :: int
  bi_execution_backend :: string
  bi_multilingual_capability :: "bool option"
  bi_supports_translation :: bool
  bi_supports_language_hint :: bool
  bi_reports_language :: bool
  bi_backend_kind :: nat
  bi_engine_version :: string
  bi_minimum_encoder_context_ms :: "nat option"

definition whisper_info :: "('c, 's) whisper_env \<Rightarrow> ('c, 's) whisper_model \<Rightarrow> backend_info" where
  "whisper_info E m = \<lparr>bi_threads = wm_threads m, bi_execution_backend = ''cpu'', bi_multilingual_capability = Some (multilingual E m),
     bi_supports_translation = multilingual E m, bi_supports_language_hint = True, bi_reports_language = True, bi_backend_kind = 1,
     bi_engine_version = library_version E, bi_minimum_encoder_context_ms = None\<rparr>"

definition parakeet_minimum_context_ms :: nat where
  "parakeet_minimum_context_ms = 4000"

definition parakeet_info :: "('c, 's) parakeet_env \<Rightarrow> ('c, 's) parakeet_model \<Rightarrow> backend_info" where
  "parakeet_info E m = \<lparr>bi_threads = pm_threads m, bi_execution_backend = ''cpu'', bi_multilingual_capability = None,
     bi_supports_translation = False, bi_supports_language_hint = False, bi_reports_language = False, bi_backend_kind = 2,
     bi_engine_version = parakeet_version E, bi_minimum_encoder_context_ms = Some parakeet_minimum_context_ms\<rparr>"

section \<open>The pooled backend\<close>

record stream_backend =
  sk_config :: config
  sk_id :: string
  sk_hash :: string
  sk_multilingual :: bool

text \<open>The constructor waits for a state without a deadline (\<open>None\<close> while it waits).\<close>

definition stream_backend_new ::
  "('c, 's) whisper_env \<Rightarrow> config \<Rightarrow> string \<Rightarrow> 'c model_pool \<Rightarrow> ('c model_pool \<times> (exn + stream_backend)) option" where
  "stream_backend_new E cfg model pool =
     (case model_hash pool model of
        Inl e \<Rightarrow> Some (pool, Inl e)
      | Inr hash \<Rightarrow> (case acquire False False model pool of
            None \<Rightarrow> None
          | Some (p1, Inl e) \<Rightarrow> Some (p1, Inl e)
          | Some (p1, Inr l) \<Rightarrow> Some (release l p1,
              Inr \<lparr>sk_config = cfg, sk_id = model, sk_hash = hash, sk_multilingual = wh_multilingual E (le_ctx l)\<rparr>)))"

definition pooled_info :: "('c, 's) whisper_env \<Rightarrow> 'c model_pool \<Rightarrow> stream_backend \<Rightarrow> backend_info" where
  "pooled_info E pool b = \<lparr>bi_threads = int (threads (sk_config b)), bi_execution_backend = mp_backend pool,
     bi_multilingual_capability = Some (sk_multilingual b), bi_supports_translation = sk_multilingual b, bi_supports_language_hint = True,
     bi_reports_language = True, bi_backend_kind = 1, bi_engine_version = library_version E, bi_minimum_encoder_context_ms = None\<rparr>"

definition pooled_validate_options :: "('c, 's) whisper_env \<Rightarrow> stream_backend \<Rightarrow> speech_options \<Rightarrow> exn option" where
  "pooled_validate_options E b options =
     (if so_model_id options \<noteq> sk_id b \<or> CHR 0x00 \<in> set (so_language options) \<or>
         (so_language options \<noteq> [] \<and> wh_lang_id E (so_language options) < 0) \<or> \<not> known_task (so_task options) \<or>
         (\<not> sk_multilingual b \<and> ((so_language options \<noteq> [] \<and> so_language options \<noteq> ''en'') \<or>
           so_task options = SPEECH_TASK_TRANSLATE_TO_ENGLISH))
      then Some (Failure INVALID_ARGUMENT ''invalid pooled speech options'') else None)"

text \<open>
  One turn of the waiting loop, as the other streams and the clock left it: what \<open>cancelled\<close> and the clock (in milliseconds) answer,
  the pool and the contents of its states when the bounded wait of 20 ms ends, the polls around the inference and the pool when the
  inference is over.
\<close>

record ('c, 's) pool_turn =
  pt_cancelled :: bool
  pt_now :: int
  pt_pool :: "'c model_pool"
  pt_store :: "nat \<Rightarrow> 's"
  pt_polls :: "bool \<times> bool"
  pt_after :: "'c model_pool"

text \<open>The adapter borrows the leased state for one inference; the lease ends with it.\<close>

definition pooled_lease ::
  "('c, 's) whisper_env \<Rightarrow> stream_backend \<Rightarrow> ('c, 's) pool_turn \<Rightarrow> 'c lease \<Rightarrow> speech_window \<Rightarrow> nat \<Rightarrow> speech_options \<Rightarrow>
   ('c model_pool \<times> (nat \<Rightarrow> 's)) \<times> (exn + transcript_segment list)" where
  "pooled_lease E b t l w track options =
     (case whisper_model_borrow (Some (le_ctx l)) (Some (pt_store t (le_state l))) (sk_id b) (sk_hash b) (int (threads (sk_config b))) of
        Inl e \<Rightarrow> ((release l (pt_after t), pt_store t), Inl e)
      | Inr adapter \<Rightarrow> (case whisper_infer E (pt_polls t) adapter w track options of
            (adapter1, result) \<Rightarrow> ((release l (pt_after t), (pt_store t)(le_state l := wm_state adapter1)), result)))"

text \<open>The loop: the pool and the states after each lease, and the outcome; \<open>None\<close> when the turns end first.\<close>

fun pooled_turns ::
  "('c, 's) whisper_env \<Rightarrow> stream_backend \<Rightarrow> int option \<Rightarrow> speech_window \<Rightarrow> nat \<Rightarrow> speech_options \<Rightarrow> ('c, 's) pool_turn list \<Rightarrow>
   (('c model_pool \<times> (nat \<Rightarrow> 's)) list \<times> (exn + transcript_segment list)) option" where
  "pooled_turns E b deadline w track options [] = None"
| "pooled_turns E b deadline w track options (t # ts) =
     (if pt_cancelled t then Some ([], Inl (Failure CANCELLED ''speech cancelled while waiting for pool''))
      else if (case deadline of Some d \<Rightarrow> d \<le> pt_now t | None \<Rightarrow> False)
      then Some ([], Inl (Failure RESOURCE_EXHAUSTED ''speech pool queue timeout''))
      else (case acquire False True (sk_id b) (pt_pool t) of
          None \<Rightarrow> None
        | Some (p1, Inl (Queue_timeout e)) \<Rightarrow> pooled_turns E b deadline w track options ts
        | Some (p1, Inl e) \<Rightarrow> Some ([], Inl e)
        | Some (p1, Inr l) \<Rightarrow> (case pooled_lease E b t l w track options of
              (p2, Inl (Queue_timeout e)) \<Rightarrow> map_option (\<lambda>(ps, r). (p2 # ps, r)) (pooled_turns E b deadline w track options ts)
            | (p2, r) \<Rightarrow> Some ([p2], r))))"

definition pooled_deadline :: "stream_backend \<Rightarrow> int \<Rightarrow> int option" where
  "pooled_deadline b now =
     (let timeout = queue_timeout_seconds (sk_config b) in if timeout \<noteq> 0 then Some (now + int timeout * 1000) else None)"

definition pooled_infer ::
  "('c, 's) whisper_env \<Rightarrow> stream_backend \<Rightarrow> int \<Rightarrow> speech_window \<Rightarrow> nat \<Rightarrow> speech_options \<Rightarrow> ('c, 's) pool_turn list \<Rightarrow>
   (('c model_pool \<times> (nat \<Rightarrow> 's)) list \<times> (exn + transcript_segment list)) option" where
  "pooled_infer E b now w track options turns =
     (case pooled_validate_options E b options of
        Some e \<Rightarrow> Some ([], Inl e)
      | None \<Rightarrow> pooled_turns E b (pooled_deadline b now) w track options turns)"

end
