(* ===== verification/Speech_Models_Proofs.thy ===== *)
theory Speech_Models_Proofs
  imports Speech_Models Reconcile_Proofs Pipeline
begin

text \<open>
  What the worker and the reconciler rely on of a speech backend, as a locale: it accepts no options outside the capabilities it
  advertises, and the segments of one inference share track, task and languages. Both adapters are instances; the pooled backend
  validates as the adapter it wraps, gives its lease back on every path and does not wait beyond its queue timeout.
\<close>

section \<open>Hypotheses the reconciler accepts\<close>

text \<open>The tokens that carry text, and what the reconciler asks of them.\<close>

definition text_tokens :: "speech_token list \<Rightarrow> speech_token list" where
  "text_tokens ts = filter (\<lambda>t. tk_kind t \<noteq> TK_CONTROL) ts"

definition token_timed :: "speech_token \<Rightarrow> bool" where
  "token_timed t \<longleftrightarrow> tk_kind t = TK_TEXT \<and> tk_start_us t \<noteq> None \<and> tk_end_us t \<noteq> None \<and> start_us t \<le> end_us t"

definition segment_lexical :: "transcript_segment \<Rightarrow> bool" where
  "segment_lexical s \<longleftrightarrow> list_all token_timed (text_tokens (ts_tokens s)) \<and> concat (map rendered (text_tokens (ts_tokens s))) = ts_text s \<and> utf8 (ts_text s)"

definition spoken_count :: "transcript_segment list \<Rightarrow> nat" where
  "spoken_count ss = sum_list (map (\<lambda>s. length (text_tokens (ts_tokens s))) ss)"

definition spoken_bytes :: "transcript_segment list \<Rightarrow> nat" where
  "spoken_bytes ss = sum_list (map (\<lambda>s. sum_list (map token_bytes (text_tokens (ts_tokens s)))) ss)"

lemma spoken_simps [simp]:
  "text_tokens [] = []"
  "text_tokens (t # ts) = (if tk_kind t = TK_CONTROL then text_tokens ts else t # text_tokens ts)"
  by (simp_all add: text_tokens_def)

lemma lexical_tokens_accept:
  "list_all token_timed (text_tokens ts) \<Longrightarrow> length fresh + length (text_tokens ts) \<le> token_limit \<Longrightarrow>
   bytes + sum_list (map token_bytes (text_tokens ts)) \<le> text_limit \<Longrightarrow>
   \<exists>fresh1 bad1. lexical_tokens lo hi ts (fresh, acc, bytes, bad) =
       Inr (fresh1, acc @ concat (map rendered (text_tokens ts)), bytes + sum_list (map token_bytes (text_tokens ts)), bad1) \<and>
     length fresh1 = length fresh + length (text_tokens ts)"
proof (induction ts arbitrary: fresh acc bytes bad)
  case (Cons t ts)
  show ?case
  proof (cases "tk_kind t = TK_CONTROL")
    case False
    then have "token_timed t" "list_all token_timed (text_tokens ts)"
      using Cons.prems(1) by simp_all
    define out where "out = (start_us t < lo \<or> end_us t > hi)"
    define fresh' where "fresh' = fresh @ [if out then clamp_token lo hi t else t]"
    have "lexical_tokens lo hi (t # ts) (fresh, acc, bytes, bad) =
        lexical_tokens lo hi ts (fresh', acc @ rendered t, bytes + token_bytes t, bad \<or> out)"
      using \<open>token_timed t\<close> Cons.prems(2,3) False by (auto simp: token_timed_def Let_def out_def fresh'_def)
    moreover have "length fresh' + length (text_tokens ts) \<le> token_limit"
        "bytes + token_bytes t + sum_list (map token_bytes (text_tokens ts)) \<le> text_limit"
      using Cons.prems(2,3) False by (simp_all add: fresh'_def)
    ultimately show ?thesis
      using Cons.IH [of fresh' "bytes + token_bytes t" "acc @ rendered t" "bad \<or> out"] \<open>list_all token_timed (text_tokens ts)\<close> False
      by (auto simp: fresh'_def add.assoc)
  qed (use Cons in simp)
qed simp

text \<open>Segments that share their identity with the metadata are taken one after the other.\<close>

lemma lexical_segments_accept:
  "\<forall>s \<in> set ss. ts_track_id s = track \<and> segment_lexical s \<and> (\<forall>m. metadata = Some m \<longrightarrow> same_speech s m) \<and>
     (\<forall>s' \<in> set ss. same_speech s s') \<Longrightarrow>
   length fresh + spoken_count ss \<le> token_limit \<Longrightarrow> bytes + spoken_bytes ss \<le> text_limit \<Longrightarrow>
   \<exists>fresh1 metadata1 bad1. lexical_segments track lo hi ss (fresh, metadata, bytes, bad) = Inr (fresh1, metadata1, bytes + spoken_bytes ss, bad1) \<and>
     length fresh1 = length fresh + spoken_count ss"
proof (induction ss arbitrary: fresh metadata bytes bad)
  case Nil
  then show ?case
    by (simp add: spoken_count_def spoken_bytes_def)
next
  case (Cons s ss)
  let ?m = "case metadata of Some m \<Rightarrow> m | None \<Rightarrow> s"
  have s: "ts_track_id s = track" "segment_lexical s" "\<And>m. metadata = Some m \<Longrightarrow> same_speech s m"
    using Cons.prems(1) by auto
  have count: "spoken_count (s # ss) = length (text_tokens (ts_tokens s)) + spoken_count ss"
    and size: "spoken_bytes (s # ss) = sum_list (map token_bytes (text_tokens (ts_tokens s))) + spoken_bytes ss"
    by (simp_all add: spoken_count_def spoken_bytes_def)
  obtain fresh1 bad1 where tokens: "lexical_tokens lo hi (ts_tokens s) (fresh, [], bytes, bad) =
      Inr (fresh1, concat (map rendered (text_tokens (ts_tokens s))), bytes + sum_list (map token_bytes (text_tokens (ts_tokens s))), bad1)"
      "length fresh1 = length fresh + length (text_tokens (ts_tokens s))"
    using lexical_tokens_accept [of "ts_tokens s" fresh bytes lo hi "[]" bad] s(2) Cons.prems(2,3) count size
    unfolding segment_lexical_def by auto
  have "\<forall>s' \<in> set ss. ts_track_id s' = track \<and> segment_lexical s' \<and> (\<forall>m. Some ?m = Some m \<longrightarrow> same_speech s' m) \<and>
      (\<forall>s'' \<in> set ss. same_speech s' s'')"
    using Cons.prems(1) by (cases metadata) auto
  from Cons.IH [OF this, of fresh1 "bytes + sum_list (map token_bytes (text_tokens (ts_tokens s)))" bad1]
  show ?case
    using tokens s Cons.prems(2,3) count size by (auto simp: segment_lexical_def add.assoc split: option.splits)
qed

text \<open>Whatever the tokens are, segments that share their identity are not refused for it.\<close>

lemma lexical_tokens_error:
  "lexical_tokens lo hi ts acc = Inl e \<Longrightarrow> e \<noteq> Failure INVALID_ARGUMENT msg"
  by (induction lo hi ts acc rule: lexical_tokens.induct) (auto simp: Let_def split: if_splits)

lemma lexical_segments_identity:
  "\<forall>s \<in> set ss. ts_track_id s = track \<and> (\<forall>m. metadata = Some m \<longrightarrow> same_speech s m) \<and> (\<forall>s' \<in> set ss. same_speech s s') \<Longrightarrow>
   lexical_segments track lo hi ss (fresh, metadata, bytes, bad) \<noteq> Inl (Failure INVALID_ARGUMENT msg)"
proof (induction ss arbitrary: fresh metadata bytes bad)
  case (Cons s ss)
  let ?m = "case metadata of Some m \<Rightarrow> m | None \<Rightarrow> s"
  have rest: "\<forall>s' \<in> set ss. ts_track_id s' = track \<and> (\<forall>m. Some ?m = Some m \<longrightarrow> same_speech s' m) \<and> (\<forall>s'' \<in> set ss. same_speech s' s'')"
    using Cons.prems by (cases metadata) auto
  show ?case
    using Cons.prems Cons.IH [OF rest] lexical_tokens_error
    by (auto split: sum.splits option.splits)
qed simp

section \<open>The contract of a backend\<close>

locale speech_backend =
  fixes validate :: "speech_options \<Rightarrow> exn option"
    and infer :: "speech_window \<Rightarrow> nat \<Rightarrow> speech_options \<Rightarrow> 'm \<times> (exn + transcript_segment list)"
    and info :: backend_info
  assumes infer_validates: "infer w track options = (m, Inr segments) \<Longrightarrow> validate options = None \<and> window_refused w = None"
    and translation_advertised: "validate options = None \<Longrightarrow> so_task options = SPEECH_TASK_TRANSLATE_TO_ENGLISH \<Longrightarrow> bi_supports_translation info"
    and hint_advertised: "validate options = None \<Longrightarrow> so_language options \<noteq> [] \<Longrightarrow> bi_supports_language_hint info"
    and task_known: "validate options = None \<Longrightarrow> known_task (so_task options)"
    and shared_identity: "infer w track options = (m, Inr segments) \<Longrightarrow> s \<in> set segments \<Longrightarrow> s' \<in> set segments \<Longrightarrow> same_speech s s'"
    and segment_fields: "infer w track options = (m, Inr segments) \<Longrightarrow> s \<in> set segments \<Longrightarrow>
      ts_track_id s = track \<and> ts_revision s = 1 \<and> \<not> ts_final s \<and>
      ts_task s = (if so_task options = SPEECH_TASK_TRANSLATE_TO_ENGLISH then SPEECH_TASK_TRANSLATE_TO_ENGLISH else SPEECH_TASK_TRANSCRIBE) \<and>
      (\<not> bi_reports_language info \<longrightarrow> ts_source_language s = [])"
begin

lemma never_inconsistent:
  "infer w track options = (m, Inr segments) \<Longrightarrow>
   lexical_segments track lo hi segments ([], None, 0, False) \<noteq> Inl (Failure INVALID_ARGUMENT msg)"
  using segment_fields shared_identity by (intro lexical_segments_identity) blast

lemma lexical_accepted:
  "infer w track options = (m, Inr segments) \<Longrightarrow> list_all segment_lexical segments \<Longrightarrow> spoken_count segments \<le> token_limit \<Longrightarrow>
   spoken_bytes segments \<le> text_limit \<Longrightarrow>
   \<exists>fresh metadata bad. lexical_segments track lo hi segments ([], None, 0, False) = Inr (fresh, metadata, spoken_bytes segments, bad) \<and>
     length fresh = spoken_count segments"
  using lexical_segments_accept [of segments track None "[]" 0 lo hi False] segment_fields shared_identity
  by (fastforce simp: list_all_iff)

lemma translated_only_when_advertised:
  "infer w track options = (m, Inr segments) \<Longrightarrow> s \<in> set segments \<Longrightarrow> ts_task s = SPEECH_TASK_TRANSLATE_TO_ENGLISH \<Longrightarrow>
   bi_supports_translation info"
  using infer_validates segment_fields translation_advertised by (metis speech_task.distinct(7))

end

section \<open>The adapters are backends\<close>

lemma whisper_infer_Inr:
  assumes "whisper_infer E polls m w track options = (m1, Inr segments)"
  shows "whisper_validate_options E m options = None" "window_refused w = None" "wm_context m1 = wm_context m"
    "segments = whisper_output E m1 options w track"
  using assms by (auto simp: whisper_infer_def Let_def split: option.splits prod.splits if_splits)

lemma whisper_output_set:
  assumes "s \<in> set (whisper_output E m options w track)"
  obtains i g where "s = adapter_segment E m options track (window_base w) (case wh_lang_str E (wm_state m) of Some l \<Rightarrow> l | None \<Rightarrow> []) i g"
  using assms by (auto simp: whisper_output_def Let_def)

interpretation whisper: speech_backend "whisper_validate_options E m" "whisper_infer E polls m" "whisper_info E m" for E polls m
proof
  fix w track options m1 segments s s'
  assume run: "whisper_infer E polls m w track options = (m1, Inr segments)"
  then show "whisper_validate_options E m options = None \<and> window_refused w = None"
    using whisper_infer_Inr by blast
  assume s: "s \<in> set segments"
  then show "ts_track_id s = track \<and> ts_revision s = 1 \<and> \<not> ts_final s \<and>
      ts_task s = (if so_task options = SPEECH_TASK_TRANSLATE_TO_ENGLISH then SPEECH_TASK_TRANSLATE_TO_ENGLISH else SPEECH_TASK_TRANSCRIBE) \<and>
      (\<not> bi_reports_language (whisper_info E m) \<longrightarrow> ts_source_language s = [])"
    using whisper_infer_Inr(4) [OF run] by (auto elim!: whisper_output_set simp: adapter_segment_def whisper_info_def Let_def)
  assume "s' \<in> set segments"
  with s show "same_speech s s'"
    using whisper_infer_Inr(4) [OF run] by (auto elim!: whisper_output_set simp: adapter_segment_def same_speech_def Let_def)
qed (auto simp: whisper_validate_options_def whisper_info_def split: if_splits)

lemma parakeet_infer_Inr:
  assumes "parakeet_infer E polls m w track options = (m1, Inr segments)"
  shows "parakeet_validate_options m options = None" "window_refused w = None" "pm_context m1 = pm_context m"
    "parakeet_output E m1 track (window_base w) 0 (pq_segments E (pm_state m1)) = Inr segments"
  using assms by (auto simp: parakeet_infer_def Let_def split: option.splits prod.splits if_splits sum.splits)

lemma parakeet_output_fields:
  "parakeet_output E m track base i gs = Inr segments \<Longrightarrow> s \<in> set segments \<Longrightarrow>
   ts_track_id s = track \<and> ts_revision s = 1 \<and> \<not> ts_final s \<and> ts_task s = SPEECH_TASK_TRANSCRIBE \<and> ts_source_language s = [] \<and>
   ts_output_language s = []"
  by (induction gs arbitrary: i segments) (fastforce simp: parakeet_segment_def segment_empty_def split: sum.splits)+

interpretation parakeet: speech_backend "parakeet_validate_options m" "parakeet_infer E polls m" "parakeet_info E m" for E polls m
proof
  fix w track options m1 segments s s'
  assume run: "parakeet_infer E polls m w track options = (m1, Inr segments)"
  then show "parakeet_validate_options m options = None \<and> window_refused w = None"
    using parakeet_infer_Inr by blast
  assume s: "s \<in> set segments"
  then show "ts_track_id s = track \<and> ts_revision s = 1 \<and> \<not> ts_final s \<and>
      ts_task s = (if so_task options = SPEECH_TASK_TRANSLATE_TO_ENGLISH then SPEECH_TASK_TRANSLATE_TO_ENGLISH else SPEECH_TASK_TRANSCRIBE) \<and>
      (\<not> bi_reports_language (parakeet_info E m) \<longrightarrow> ts_source_language s = [])"
    using parakeet_infer_Inr [OF run] parakeet_output_fields by (fastforce simp: parakeet_validate_options_def split: if_splits)
  assume "s' \<in> set segments"
  with s show "same_speech s s'"
    using parakeet_infer_Inr(4) [OF run] parakeet_output_fields unfolding same_speech_def by metis
qed (auto simp: parakeet_validate_options_def known_task_def split: if_splits)

section \<open>From the library to the reconciler\<close>

text \<open>What whisper.cpp gives with token timestamps: its text tokens are timed and spell the segment.\<close>

definition native_lexical :: "int \<Rightarrow> native_segment \<Rightarrow> bool" where
  "native_lexical eot g \<longleftrightarrow> list_all (\<lambda>k. nk_id k < eot \<longrightarrow> 0 \<le> nk_t0 k \<and> nk_t0 k \<le> nk_t1 k) (ng_tokens g) \<and>
     concat (map nk_text (filter (\<lambda>k. nk_id k < eot) (ng_tokens g))) = ng_text g \<and> utf8 (ng_text g)"

definition native_spoken :: "int \<Rightarrow> native_segment list \<Rightarrow> native_token list" where
  "native_spoken eot gs = filter (\<lambda>k. nk_id k < eot) (concat (map ng_tokens gs))"

lemma whisper_text_tokens:
  "text_tokens (map (adapter_token E m options base) ks) =
   map (adapter_token E m options base) (filter (\<lambda>k. nk_id k < wh_token_eot E (wm_context m)) ks)"
  by (induction ks) (auto simp: adapter_token_def Let_def)

lemma adapter_segment_lexical:
  assumes "so_word_timestamps options" "native_lexical (wh_token_eot E (wm_context m)) g"
  shows "segment_lexical (adapter_segment E m options track base language i g)"
  using assms
  by (auto simp: segment_lexical_def native_lexical_def adapter_segment_def Let_def whisper_text_tokens list_all_iff token_timed_def
      adapter_token_def start_us_def end_us_def rendered_def comp_def)

lemma whisper_output_sizes:
  "spoken_count (whisper_output E m options w track) = length (native_spoken (wh_token_eot E (wm_context m)) (wh_segments E (wm_state m)))"
  "spoken_bytes (whisper_output E m options w track) =
     length (concat (map nk_text (native_spoken (wh_token_eot E (wm_context m)) (wh_segments E (wm_state m)))))"
proof -
  have "sum_list (map (\<lambda>s. length (text_tokens (ts_tokens s))) (map (\<lambda>(i, g). adapter_segment E m options track base l i g) (enumerate n gs))) =
      length (native_spoken (wh_token_eot E (wm_context m)) gs)" for base l n gs
    by (induction gs arbitrary: n)
      (auto simp: adapter_segment_def native_spoken_def Let_def whisper_text_tokens)
  then show "spoken_count (whisper_output E m options w track) = length (native_spoken (wh_token_eot E (wm_context m)) (wh_segments E (wm_state m)))"
    by (simp add: spoken_count_def whisper_output_def Let_def)
  have "sum_list (map (\<lambda>s. sum_list (map token_bytes (text_tokens (ts_tokens s))))
        (map (\<lambda>(i, g). adapter_segment E m options track base l i g) (enumerate n gs))) =
      length (concat (map nk_text (native_spoken (wh_token_eot E (wm_context m)) gs)))" for base l n gs
    by (induction gs arbitrary: n)
      (auto simp: adapter_segment_def native_spoken_def Let_def whisper_text_tokens comp_def length_concat token_bytes_def adapter_token_def)
  then show "spoken_bytes (whisper_output E m options w track) =
      length (concat (map nk_text (native_spoken (wh_token_eot E (wm_context m)) (wh_segments E (wm_state m)))))"
    by (simp add: spoken_bytes_def whisper_output_def Let_def)
qed

section \<open>The pooled backend gives its lease back\<close>

lemma acquire_bounded: "\<exists>r. acquire False True m pool = Some r"
  by (auto simp: acquire_def split: option.splits list.splits)

lemma release_returns:
  assumes "pool_wf n (pool, l # held)"
  shows "pool_wf n (release l pool, held)"
  using pool_step_wf [OF pool_step.give_back [of l "l # held" pool] assms] by simp

lemma pooled_lease_frame:
  assumes "pooled_lease E b t l w track options = ((p, store), r)"
  shows "p = release l (pt_after t)" "i \<noteq> le_state l \<Longrightarrow> store i = pt_store t i"
  using assms by (auto simp: pooled_lease_def split: sum.splits prod.splits)

text \<open>The shape of one turn.\<close>

lemma pooled_turns_cases:
  assumes "pooled_turns E b deadline w track options (t # ts) = Some (visits, r)"
  obtains (ended) "visits = []" "\<And>segments. r \<noteq> Inr segments"
  | (waited) "pooled_turns E b deadline w track options ts = Some (visits, r)"
  | (leased) p1 l p2 rest where "acquire False True (sk_id b) (pt_pool t) = Some (p1, Inr l)" "visits = p2 # rest"
      "p2 = fst (pooled_lease E b t l w track options)"
      "rest = [] \<and> r = snd (pooled_lease E b t l w track options) \<or> pooled_turns E b deadline w track options ts = Some (rest, r)"
  using assms by (auto split: if_splits option.splits sum.splits exn.splits prod.splits)

lemma pooled_turns_visits:
  assumes "pooled_turns E b deadline w track options turns = Some (visits, r)"
    and "\<And>t p l. t \<in> set turns \<Longrightarrow> acquire False True (sk_id b) (pt_pool t) = Some (p, Inr l) \<Longrightarrow> pool_wf n (pt_after t, l # held t)"
    and "(pool, store) \<in> set visits"
  shows "\<exists>t \<in> set turns. \<exists>p l. acquire False True (sk_id b) (pt_pool t) = Some (p, Inr l) \<and> pool_wf n (pool, held t) \<and>
    (\<forall>i. i \<noteq> le_state l \<longrightarrow> store i = pt_store t i)"
  using assms
proof (induction turns arbitrary: visits)
  case (Cons t ts)
  from Cons.prems(1) show ?case
  proof (cases rule: pooled_turns_cases)
    case waited
    from Cons.IH [OF this Cons.prems(2) Cons.prems(3)] show ?thesis
      by auto
  next
    case (leased p1 l p2 rest)
    show ?thesis
    proof (cases "(pool, store) = p2")
      case True
      then have "pool = release l (pt_after t)" "\<forall>i. i \<noteq> le_state l \<longrightarrow> store i = pt_store t i"
        using pooled_lease_frame [of E b t l w track options pool store] leased(3) by (metis prod.collapse)+
      then show ?thesis
        using leased(1) Cons.prems(2) release_returns by (metis list.set_intros(1))
    next
      case False
      then have "(pool, store) \<in> set rest"
        using Cons.prems(3) leased(2) by auto
      with leased(4) have "pooled_turns E b deadline w track options ts = Some (rest, r)"
        by auto
      from Cons.IH [OF this Cons.prems(2)] \<open>(pool, store) \<in> set rest\<close> show ?thesis
        by auto
    qed
  qed (use Cons.prems(3) in simp)
qed simp

text \<open>A turn that finds the stream cancelled or the deadline passed ends the loop.\<close>

lemma pooled_turns_end:
  assumes "t \<in> set turns" "pt_cancelled t \<or> (\<exists>d. deadline = Some d \<and> d \<le> pt_now t)"
  shows "\<exists>r. pooled_turns E b deadline w track options turns = Some r"
  using assms(1)
proof (induction turns)
  case (Cons u turns)
  show ?case
  proof (cases "u = t")
    case True
    with assms(2) show ?thesis
      by auto
  next
    case False
    then have "\<exists>r. pooled_turns E b deadline w track options turns = Some r"
      using Cons by simp
    moreover obtain a where "acquire False True (sk_id b) (pt_pool u) = Some a"
      using acquire_bounded by blast
    ultimately show ?thesis
      by (auto split: prod.splits sum.splits exn.splits)
  qed
qed simp

section \<open>Properties\<close>

text \<open>The pooled backend's check is the check of the adapter it makes for each lease.\<close>

lemma borrowed_adapter:
  assumes "stream_backend_new E cfg model pool = Some (pool1, Inr b)" "config_ok cfg" "model \<noteq> []"
    and "\<And>e. mp_entries pool model = Some e \<Longrightarrow> pe_ctx e = context \<and> length (pe_hash e) = 32"
  obtains m where "whisper_model_borrow (Some context) (Some state) (sk_id b) (sk_hash b) (int (threads (sk_config b))) = Inr m"
    "wm_id m = sk_id b" "multilingual E m = sk_multilingual b" "wm_state m = state"
proof -
  from assms(1) obtain hash l p1 where h: "model_hash pool model = Inr hash" "acquire False False model pool = Some (p1, Inr l)"
    and b: "b = \<lparr>sk_config = cfg, sk_id = model, sk_hash = hash, sk_multilingual = wh_multilingual E (le_ctx l)\<rparr>"
    by (auto simp: stream_backend_new_def split: sum.splits option.splits prod.splits)
  from h obtain e where e: "mp_entries pool model = Some e" "hash = pe_hash e" "le_ctx l = pe_ctx e"
    by (auto simp: model_hash_def acquire_def split: option.splits list.splits if_splits)
  show ?thesis
    using that assms(2,3) assms(4) [OF e(1)] e(2,3)
    by (auto simp: whisper_model_borrow_def b config_ok_def multilingual_def)
qed

text \<open>C31: A pooled backend that was constructed over a loaded model can always build its adapter on a leased state, and its own check of
  the options refuses exactly what that adapter would refuse: an inference is never turned away by the adapter's options check after
  it has waited for a state.\<close>

theorem pooled_options_agree:
  assumes "stream_backend_new E cfg model pool = Some (pool1, Inr b)" "config_ok cfg" "model \<noteq> []"
    and "\<And>e. mp_entries pool model = Some e \<Longrightarrow> pe_ctx e = context \<and> length (pe_hash e) = 32"
  shows "\<exists>m. whisper_model_borrow (Some context) (Some state) (sk_id b) (sk_hash b) (int (threads (sk_config b))) = Inr m \<and>
    (\<forall>options. pooled_validate_options E b options = None \<longleftrightarrow> whisper_validate_options E m options = None)"
proof -
  obtain m where "whisper_model_borrow (Some context) (Some state) (sk_id b) (sk_hash b) (int (threads (sk_config b))) = Inr m"
    "wm_id m = sk_id b" "multilingual E m = sk_multilingual b"
    using borrowed_adapter [OF assms] by metis
  then show ?thesis
    by (auto simp: pooled_validate_options_def whisper_validate_options_def)
qed

text \<open>C22: An inference of the pooled backend does not wait forever: with a queue timeout, a clock that advances by the 20 ms of each
  bounded wait ends the loop after at most 50 turns per second of the timeout, whatever the pool does.\<close>

theorem pooled_infer_returns:
  assumes "queue_timeout_seconds (sk_config b) = timeout" "timeout \<noteq> 0" "50 * timeout < length turns"
    and "\<And>i. i < length turns \<Longrightarrow> now + 20 * int i \<le> pt_now (turns ! i)"
  shows "\<exists>visits r. pooled_infer E b now w track options turns = Some (visits, r)"
proof -
  have deadline: "pooled_deadline b now = Some (now + int timeout * 1000)"
    using assms(1,2) by (simp add: pooled_deadline_def Let_def)
  have "now + int timeout * 1000 \<le> pt_now (turns ! (50 * timeout))"
    using assms(4) [OF assms(3)] by simp
  then have "\<exists>r. pooled_turns E b (pooled_deadline b now) w track options turns = Some r"
    using assms(3) deadline by (intro pooled_turns_end [of "turns ! (50 * timeout)"]) simp_all
  then obtain r where "pooled_turns E b (pooled_deadline b now) w track options turns = Some r" ..
  then show ?thesis
    by (cases r) (auto simp: pooled_infer_def split: option.splits)
qed

text \<open>C16: Whatever an inference of the pooled backend ends with, every state it leased is back in the pool: for the leases the other
  streams hold then, the pool is well formed without one of its own. It changed the contents of no state but the leased one. A
  result with segments comes from a leased state.\<close>

theorem pooled_infer_gives_back:
  assumes "pooled_infer E b now w track options turns = Some (visits, r)"
    and "\<And>t p l. t \<in> set turns \<Longrightarrow> acquire False True (sk_id b) (pt_pool t) = Some (p, Inr l) \<Longrightarrow> pool_wf n (pt_after t, l # held t)"
  shows "(\<forall>pool store. (pool, store) \<in> set visits \<longrightarrow>
      (\<exists>t \<in> set turns. \<exists>p l. acquire False True (sk_id b) (pt_pool t) = Some (p, Inr l) \<and> pool_wf n (pool, held t) \<and>
        (\<forall>i. i \<noteq> le_state l \<longrightarrow> store i = pt_store t i))) \<and>
    (\<forall>segments. r = Inr segments \<longrightarrow> visits \<noteq> [])"
proof (cases "pooled_validate_options E b options")
  case None
  then have turns: "pooled_turns E b (pooled_deadline b now) w track options turns = Some (visits, r)"
    using assms(1) by (simp add: pooled_infer_def)
  moreover have "visits \<noteq> []" if "r = Inr segments" for segments
    using turns that
  proof (induction turns)
    case (Cons t ts)
    from Cons.prems(1) show ?case
      by (cases rule: pooled_turns_cases) (use Cons in auto)
  qed simp
  ultimately show ?thesis
    using pooled_turns_visits [of E b "pooled_deadline b now" w track options turns visits r n held] assms(2) by blast
qed (use assms(1) in \<open>auto simp: pooled_infer_def\<close>)

text \<open>What either adapter returns is one consistent hypothesis: its segments are first revisions, not final, of the track that was
  asked for, in the task that was asked for (a translation only from a model that advertises it), and the reconciler never refuses
  them for their identity.\<close>

theorem adapter_segments_consistent:
  assumes "whisper_infer E polls m w track options = (m1, Inr segments) \<and> info = whisper_info E m \<or>
    parakeet_infer E' polls pm w track options = (pm1, Inr segments) \<and> info = parakeet_info E' pm"
  shows "lexical_segments track lo hi segments ([], None, 0, False) \<noteq> Inl (Failure INVALID_ARGUMENT msg) \<and>
    (\<forall>s \<in> set segments. ts_track_id s = track \<and> ts_revision s = 1 \<and> \<not> ts_final s \<and>
      (ts_task s = SPEECH_TASK_TRANSLATE_TO_ENGLISH \<longleftrightarrow> so_task options = SPEECH_TASK_TRANSLATE_TO_ENGLISH) \<and>
      (ts_task s = SPEECH_TASK_TRANSLATE_TO_ENGLISH \<longrightarrow> bi_supports_translation info))"
  using assms
proof
  assume run: "whisper_infer E polls m w track options = (m1, Inr segments) \<and> info = whisper_info E m"
  then show ?thesis
    using whisper.never_inconsistent [OF conjunct1 [OF run]] whisper.segment_fields [OF conjunct1 [OF run]]
      whisper.translated_only_when_advertised [OF conjunct1 [OF run]] by auto
next
  assume run: "parakeet_infer E' polls pm w track options = (pm1, Inr segments) \<and> info = parakeet_info E' pm"
  then show ?thesis
    using parakeet.never_inconsistent [OF conjunct1 [OF run]] parakeet.segment_fields [OF conjunct1 [OF run]]
      parakeet.translated_only_when_advertised [OF conjunct1 [OF run]] by auto
qed

text \<open>C18: The Whisper adapter's output can be reconciled: for the options the pipeline resolves for a reconciled track, if the library times
  its text tokens and they spell its segments, and the hypothesis is within the reconciler's limits, the reconciler takes every
  token that carries text and counts its bytes exactly.\<close>

theorem whisper_hypothesis_accepted:
  assumes "whisper_infer E polls m w track (resolve_defaults o1) = (m1, Inr segments)" "so_reconcile_transcript o1 \<noteq> Some False"
    and "native = wh_segments E (wm_state m1)" "eot = wh_token_eot E (wm_context m)" "list_all (native_lexical eot) native"
    and "length (native_spoken eot native) \<le> token_limit" "length (concat (map nk_text (native_spoken eot native))) \<le> text_limit"
  shows "\<exists>fresh metadata bad. lexical_segments track lo hi segments ([], None, 0, False) =
      Inr (fresh, metadata, length (concat (map nk_text (native_spoken eot native))), bad) \<and> length fresh = length (native_spoken eot native)"
proof -
  note run = whisper_infer_Inr [OF assms(1)]
  have stamps: "so_word_timestamps (resolve_defaults o1)"
    using assms(2) by (cases "so_reconcile_transcript o1") (auto simp: resolve_defaults_def Let_def get_or_def)
  have "list_all segment_lexical segments"
    using assms(3-5) adapter_segment_lexical [OF stamps, of E m1] run(3,4)
    by (auto simp: list_all_length whisper_output_def Let_def nth_enumerate_eq)
  then show ?thesis
    using whisper.lexical_accepted [OF assms(1)] assms(3,4,6,7) run(3,4)
    by (simp add: whisper_output_sizes)
qed

text \<open>C35: The Parakeet encoder gets what it needs: for every window the adapter admits, the analysis input is the window with zeros after
  it up to at least 320 samples, its frame counts do not wrap at 32 bits, and the encoder context covers the frames, is at least
  the 4000 ms that the backend advertises and at most 3001 frames.\<close>

theorem parakeet_analysis_window:
  assumes "window_refused w = None"
  shows "\<exists>c. parakeet_encoder_context (length (win_samples w)) = Inr c \<and>
    (let input = padded_samples c (win_samples w) in
     length input = ec_analysis_samples c \<and> 320 \<le> length input \<and> length input \<le> 480000 \<and>
     take (length (win_samples w)) input = win_samples w \<and> (\<forall>x \<in> set (drop (length (win_samples w)) input). x = f32_zero) \<and>
     ec_feature_frames c = length input div 160 + 1 \<and> ec_feature_frames c \<le> ec_encoder_frames c \<and> ec_encoder_frames c \<le> 3001 \<and>
     parakeet_minimum_context_ms * 16 \<le> ec_encoder_frames c * ec_frame_hop_samples c)"
proof -
  have "win_samples w \<noteq> []" "length (win_samples w) \<le> 480000"
    using assms by (auto simp: window_refused_def split: if_splits)
  moreover from this(2) have "max (length (win_samples w)) 320 div 160 + 1 \<le> 3001"
    using div_le_mono [of "max (length (win_samples w)) 320" 480000 160] by (simp add: max_def)
  ultimately show ?thesis
    by (auto simp: parakeet_encoder_context_def padded_samples_def parakeet_minimum_context_ms_def Let_def)
qed

section \<open>A backend that runs\<close>

text \<open>A library with one English model, whose inference finds one segment of a text token and a control token.\<close>

definition demo_native :: native_segment where
  "demo_native = \<lparr>ng_t0 = 0, ng_t1 = 50, ng_text = '' hi'',
     ng_tokens = [\<lparr>nk_id = 1, nk_text = '' hi'', nk_plog = 0, nk_t0 = 5, nk_t1 = 45, nk_word_start = True\<rparr>,
       \<lparr>nk_id = 50257, nk_text = ''[_EOT_]'', nk_plog = 0, nk_t0 = -1, nk_t1 = -1, nk_word_start = False\<rparr>]\<rparr>"

definition demo_library :: "(unit, native_segment list) whisper_env" where
  "demo_library = \<lparr>wh_init_context = (\<lambda>_. Some ()), wh_init_state = (\<lambda>_. Some []), wh_sha256 = (\<lambda>_. replicate 32 CHR ''h''),
     wh_multilingual = (\<lambda>_. False), wh_lang_id = (\<lambda>l. if l = ''en'' then 0 else -1), wh_full = (\<lambda>_ _ _ _. ([demo_native], 0, None)),
     wh_lang_str = (\<lambda>_. Some ''en''), wh_segments = (\<lambda>gs. gs), wh_token_eot = (\<lambda>_. 50257), wh_mean = (\<lambda>_. 0),
     wh_uuid = (\<lambda>_. ''s''), wh_version = ''1''\<rparr>"

definition demo_adapter :: "(unit, native_segment list) whisper_model" where
  "demo_adapter = \<lparr>wm_context = (), wm_state = [], wm_hash = replicate 32 CHR ''h'', wm_id = ''base.en'', wm_threads = 4, wm_owns_state = False\<rparr>"

definition demo_speech_request :: speech_options where
  "demo_speech_request = \<lparr>so_model_id = ''base.en'', so_language = ''en'', so_task = SPEECH_TASK_UNSPECIFIED, so_word_timestamps = False,
     so_windowing = None, so_reconcile_transcript = None\<rparr>"

definition demo_window :: speech_window where
  "demo_window = \<lparr>win_number = 1, win_first_sample = 0, win_first_new_sample = 0, win_boundary = End, win_samples = [f32_zero]\<rparr>"

lemmas demo_speech_evals = demo_library_def demo_adapter_def demo_speech_request_def demo_window_def demo_native_def

lemma demo_adapter_runs:
  "\<exists>m1 segments. whisper_infer demo_library (False, False) demo_adapter demo_window 3 (resolve_defaults demo_speech_request) = (m1, Inr segments) \<and>
     wh_segments demo_library (wm_state m1) = [demo_native] \<and> segments \<noteq> []"
  by (simp add: whisper_infer_def whisper_validate_options_def window_refused_def whisper_output_def resolve_defaults_def known_task_def
      multilingual_def demo_speech_evals Let_def get_or_def f32_isfinite_def)

theorem adapter_segments_consistent_witness:
  "\<exists>m1 segments. whisper_infer demo_library (False, False) demo_adapter demo_window 3 (resolve_defaults demo_speech_request) = (m1, Inr segments) \<and>
     segments \<noteq> [] \<and> (\<forall>s \<in> set segments. ts_track_id s = 3 \<and> ts_task s \<noteq> SPEECH_TASK_TRANSLATE_TO_ENGLISH)"
proof -
  obtain m1 segments where run: "whisper_infer demo_library (False, False) demo_adapter demo_window 3 (resolve_defaults demo_speech_request) = (m1, Inr segments)"
      "segments \<noteq> []"
    using demo_adapter_runs by blast
  have "so_task (resolve_defaults demo_speech_request) \<noteq> SPEECH_TASK_TRANSLATE_TO_ENGLISH"
    by (simp add: resolve_defaults_def demo_speech_request_def Let_def)
  then show ?thesis
    using run adapter_segments_consistent [OF disjI1, OF conjI [OF run(1) refl]] by blast
qed

theorem whisper_hypothesis_accepted_witness:
  "\<exists>m1 segments fresh metadata bad.
     whisper_infer demo_library (False, False) demo_adapter demo_window 3 (resolve_defaults demo_speech_request) = (m1, Inr segments) \<and>
     lexical_segments 3 0 30000000 segments ([], None, 0, False) = Inr (fresh, metadata, 3, bad) \<and> length fresh = 1"
proof -
  obtain m1 segments where run: "whisper_infer demo_library (False, False) demo_adapter demo_window 3 (resolve_defaults demo_speech_request) = (m1, Inr segments)"
      "wh_segments demo_library (wm_state m1) = [demo_native]"
    using demo_adapter_runs by blast
  have eot: "50257 = wh_token_eot demo_library (wm_context demo_adapter)"
    by (simp add: demo_library_def)
  have native: "list_all (native_lexical 50257) [demo_native]" "length (native_spoken 50257 [demo_native]) = 1"
      "length (concat (map nk_text (native_spoken 50257 [demo_native]))) = 3"
    by (simp_all add: native_lexical_def native_spoken_def demo_native_def utf8_def)
  have "so_reconcile_transcript demo_speech_request \<noteq> Some False" "1 \<le> token_limit" "3 \<le> text_limit"
    by (simp_all add: demo_speech_request_def token_limit_def text_limit_def)
  with whisper_hypothesis_accepted [OF run(1) _ run(2) [symmetric] eot native(1), of 0 30000000] run(1) show ?thesis
    unfolding native(2,3) by blast
qed

theorem parakeet_analysis_window_witness:
  "window_refused demo_window = None \<and> (\<exists>c. parakeet_encoder_context 1 = Inr c \<and> length (padded_samples c [f32_zero]) \<ge> 320)"
proof -
  have "window_refused demo_window = None"
    by (simp add: window_refused_def demo_window_def f32_isfinite_def)
  with parakeet_analysis_window [OF this] show ?thesis
    by (auto simp: demo_window_def Let_def)
qed

text \<open>A pool of one model with two states, free or both taken.\<close>

definition demo_states :: "nat list \<Rightarrow> unit model_pool" where
  "demo_states free = \<lparr>mp_backend = ''cpu'',
     mp_entries = [''base.en'' \<mapsto> \<lparr>pe_hash = replicate 32 CHR ''h'', pe_ctx = (), pe_free = free, pe_all = [0, 1]\<rparr>]\<rparr>"

definition demo_backend :: "config \<Rightarrow> stream_backend" where
  "demo_backend cfg = \<lparr>sk_config = cfg, sk_id = ''base.en'', sk_hash = replicate 32 CHR ''h'', sk_multilingual = False\<rparr>"

lemma demo_backend_fields [simp]:
  "sk_config (demo_backend cfg) = cfg" "sk_id (demo_backend cfg) = ''base.en''" "sk_hash (demo_backend cfg) = replicate 32 CHR ''h''"
  by (simp_all add: demo_backend_def)

definition demo_turn :: "nat list \<Rightarrow> nat list \<Rightarrow> int \<Rightarrow> (unit, native_segment list) pool_turn" where
  "demo_turn free after now = \<lparr>pt_cancelled = False, pt_now = now, pt_pool = demo_states free, pt_store = (\<lambda>_. []), pt_polls = (False, False),
     pt_after = demo_states after\<rparr>"

theorem pooled_options_agree_witness:
  "\<exists>cfg m. config_ok cfg \<and> whisper_model_borrow (Some ()) (Some []) ''base.en'' (replicate 32 CHR ''h'') (int (threads cfg)) = Inr m \<and>
     (\<forall>options. pooled_validate_options demo_library (demo_backend cfg) options = None \<longleftrightarrow> whisper_validate_options demo_library m options = None)"
proof -
  obtain cfg where cfg: "load_config_from_env 8 Map.empty = Inr cfg"
    by (simp add: load_config_from_env_def configured_size_def configured_string_def configured_bool_def configured_list_def env_set_def)
  then have ok: "config_ok cfg"
    by (rule load_config_ok)
  have "stream_backend_new demo_library cfg ''base.en'' (demo_states [0, 1]) = Some (demo_states [1, 0], Inr (demo_backend cfg))"
    by (simp add: stream_backend_new_def model_hash_def acquire_def release_def demo_states_def demo_backend_def demo_library_def)
  from pooled_options_agree [OF this ok, of "()" "[]"] show ?thesis
    using ok by (fastforce simp: demo_states_def demo_backend_def)
qed

text \<open>A second of queue timeout while both states stay taken.\<close>

theorem pooled_infer_returns_witness:
  "\<exists>cfg visits r. queue_timeout_seconds cfg = 1 \<and>
     pooled_infer demo_library (demo_backend cfg) 0 demo_window 3 demo_speech_request (map (\<lambda>i. demo_turn [] [] (20 * int i)) [0 ..< 51]) = Some (visits, r)"
proof -
  obtain cfg :: config where cfg: "queue_timeout_seconds cfg = 1"
    by (meson config.select_convs)
  then show ?thesis
    using pooled_infer_returns [of "demo_backend cfg" 1 "map (\<lambda>i. demo_turn [] [] (20 * int i)) [0 ..< 51]" 0]
    by (auto simp: demo_backend_def demo_turn_def)
qed

text \<open>The first state is leased and comes back.\<close>

theorem pooled_infer_gives_back_witness:
  "\<exists>cfg visits segments. pooled_infer demo_library (demo_backend cfg) 0 demo_window 3 demo_speech_request [demo_turn [0, 1] [1] 0] =
      Some (visits, Inr segments) \<and> visits \<noteq> [] \<and> (\<forall>pool store. (pool, store) \<in> set visits \<longrightarrow> pool_wf 2 (pool, []))"
proof -
  obtain cfg where cfg: "load_config_from_env 8 Map.empty = Inr cfg"
    by (simp add: load_config_from_env_def configured_size_def configured_string_def configured_bool_def configured_list_def env_set_def)
  then have "config_ok cfg"
    by (rule load_config_ok)
  then have borrow: "whisper_model_borrow (Some ()) (Some []) ''base.en'' (replicate 32 CHR ''h'') (int (threads cfg)) =
      Inr (demo_adapter\<lparr>wm_threads := int (threads cfg)\<rparr>)"
    by (simp add: whisper_model_borrow_def config_ok_def demo_adapter_def)
  obtain m1 segments where infer: "whisper_infer demo_library (False, False) (demo_adapter\<lparr>wm_threads := int (threads cfg)\<rparr>) demo_window 3 demo_speech_request =
      (m1, Inr segments)"
    by (simp add: whisper_infer_def whisper_validate_options_def known_task_def window_refused_def multilingual_def demo_speech_evals Let_def f32_isfinite_def)
  have checked: "pooled_validate_options demo_library (demo_backend cfg) demo_speech_request = None"
    by (simp add: pooled_validate_options_def known_task_def demo_backend_def demo_library_def demo_speech_request_def)
  let ?l = "\<lparr>le_model = ''base.en'', le_ctx = (), le_state = 0\<rparr>"
  have "acquire False True ''base.en'' (demo_states [0, 1]) = Some (demo_states [1], Inr ?l)"
    by (simp add: acquire_def demo_states_def)
  moreover obtain p where "pooled_lease demo_library (demo_backend cfg) (demo_turn [0, 1] [1] 0) ?l demo_window 3 demo_speech_request = (p, Inr segments)"
    using borrow infer by (simp add: pooled_lease_def demo_turn_def)
  moreover have "(case pooled_deadline (demo_backend cfg) 0 of Some d \<Rightarrow> d \<le> 0 | None \<Rightarrow> False) = False"
    by (simp add: pooled_deadline_def Let_def)
  ultimately have run: "pooled_infer demo_library (demo_backend cfg) 0 demo_window 3 demo_speech_request [demo_turn [0, 1] [1] 0] =
      Some ([p], Inr segments)"
    using checked by (simp add: pooled_infer_def demo_turn_def split: option.splits)
  have "pool_wf 2 (pt_after t, l # [])" if "t \<in> set [demo_turn [0, 1] [1] 0]"
      "acquire False True (sk_id (demo_backend cfg)) (pt_pool t) = Some (p, Inr l)" for t p l
    using that by (auto simp: demo_turn_def demo_states_def demo_backend_def acquire_def pool_wf_def split: if_splits)
  then have "\<forall>pool store. (pool, store) \<in> set [p] \<longrightarrow> (\<exists>t \<in> set [demo_turn [0, 1] [1] 0]. \<exists>p l.
      acquire False True (sk_id (demo_backend cfg)) (pt_pool t) = Some (p, Inr l) \<and> pool_wf 2 (pool, []) \<and>
      (\<forall>i. i \<noteq> le_state l \<longrightarrow> store i = pt_store t i))"
    by (rule conjunct1 [OF pooled_infer_gives_back [OF run, of 2 "\<lambda>_. []"]])
  then have "\<forall>pool store. (pool, store) \<in> set [p] \<longrightarrow> pool_wf 2 (pool, [])"
    by blast
  with run show ?thesis
    by blast
qed

end
