(* ===== verification/Streaming_Runtime.thy ===== *)
theory Streaming_Runtime
  imports Speech_Models_Proofs Http_Source Media_Service_Proofs
begin

text \<open>
  The owner of the streaming interfaces (src/src/service/streaming_runtime.cpp): it reads its part of the environment, builds the
  registry, a speech backend, the worker, the pipeline factory and the HTTP policy, and refuses to start with a bad one. The
  environment, the files, the speech libraries, the URL parser and fresh identifiers are parameters.
\<close>

section \<open>Parts\<close>

definition runtime_getenv :: "environment \<Rightarrow> string \<Rightarrow> string \<Rightarrow> string" where
  "runtime_getenv env name fallback = (case env name of Some value \<Rightarrow> if value \<noteq> [] then value else fallback | None \<Rightarrow> fallback)"

text \<open>\<open>rt_length\<close> is the position after opening a file at its end, \<open>None\<close> when it does not open.\<close>

record ('c, 's, 'pc, 'ps, 'v) runtime_env =
  rt_environment :: environment
  rt_length :: "string \<Rightarrow> int option"
  rt_read :: "string \<Rightarrow> string option"
  rt_whisper :: "('c, 's) whisper_env"
  rt_parakeet :: "('pc, 'ps) parakeet_env"
  rt_wire :: wire
  rt_uuid :: "nat \<Rightarrow> string"
  rt_app_version :: string
  rt_build_id :: string
  rt_grpc_version :: string
  rt_vad :: "'v vad_model"
  rt_parse_url :: "string \<Rightarrow> url_parts option"

definition weights :: "('c, 's, 'pc, 'ps, 'v) runtime_env \<Rightarrow> string \<Rightarrow> nat \<Rightarrow> exn + string" where
  "weights E path cap =
     (if path = [] then Inr []
      else (case rt_length E path of
          None \<Rightarrow> Inl (Runtime_error (''invalid streaming model file: '' @ path))
        | Some len \<Rightarrow>
            if len \<le> 0 \<or> len > int cap then Inl (Runtime_error (''invalid streaming model file: '' @ path))
            else (case rt_read E path of
                None \<Rightarrow> Inl (Runtime_error ''cannot read streaming model file'')
              | Some data \<Rightarrow> Inr data)))"

definition limits_default :: limits where
  "limits_default = \<lparr>max_chunk_bytes = 256 * 1024, retention_bytes = 1024 * 1024, subscriber_bytes = 4 * 1024 * 1024,
     max_streams = 64, max_subscribers = 64\<rparr>"

datatype ('pc, 'ps) runtime_backend = Pooled stream_backend | Parakeet "('pc, 'ps) parakeet_model"

text \<open>The backend the environment selects; \<open>None\<close> while it waits for a pooled state.\<close>

definition runtime_backend_new ::
  "('c, 's, 'pc, 'ps, 'v) runtime_env \<Rightarrow> config \<Rightarrow> 'c model_pool \<Rightarrow> ('c model_pool \<times> (exn + ('pc, 'ps) runtime_backend)) option" where
  "runtime_backend_new E cfg pool =
     (let env = runtime_getenv (rt_environment E); kind = env ''GRPC_ASR_STREAM_BACKEND'' ''whisper'' in
      if kind = ''whisper'' then
        let model = env ''GRPC_ASR_STREAM_MODEL'' (hd (model_names pool)) in
        if \<not> has_model pool model then Some (pool, Inl (Invalid_argument ''GRPC_ASR_STREAM_MODEL is not loaded in the pool''))
        else map_option (\<lambda>(p, r). (p, map_sum (\<lambda>e. e) Pooled r)) (stream_backend_new (rt_whisper E) cfg model pool)
      else if kind = ''parakeet'' then
        Some (pool, err_bind (weights E (env ''GRPC_ASR_PARAKEET_MODEL_PATH'' []) 8589934592) (\<lambda>data.
          map_sum (\<lambda>e. e) Parakeet (parakeet_model_new (rt_parakeet E) data (env ''GRPC_ASR_STREAM_MODEL'' ''parakeet'') (int (threads cfg)))))
      else Some (pool, Inl (Invalid_argument ''GRPC_ASR_STREAM_BACKEND must be whisper or parakeet'')))"

text \<open>What the worker reports of its backend.\<close>

definition backend_names :: "('c, 's, 'pc, 'ps, 'v) runtime_env \<Rightarrow> 'c model_pool \<Rightarrow> ('pc, 'ps) runtime_backend \<Rightarrow> producer" where
  "backend_names E pool b =
     (case b of
        Pooled k \<Rightarrow> \<lparr>pr_machine_id = [], pr_service = [], pr_app_version = rt_app_version E, pr_build_id = rt_build_id E,
          pr_library_version = library_version (rt_whisper E), pr_execution_backend = mp_backend pool, pr_model_id = sk_id k,
          pr_model_sha256 = sk_hash k, pr_configuration_sha256 = []\<rparr>
      | Parakeet m \<Rightarrow> \<lparr>pr_machine_id = [], pr_service = [], pr_app_version = rt_app_version E, pr_build_id = rt_build_id E,
          pr_library_version = parakeet_version (rt_parakeet E), pr_execution_backend = ''cpu'', pr_model_id = pm_id m,
          pr_model_sha256 = pm_hash m, pr_configuration_sha256 = []\<rparr>)"

lemma length_tl_dropWhile: "length (tl (dropWhile P (x # xs))) < length (x # xs)"
proof -
  have "length (dropWhile P xs) \<le> length xs" for xs :: "'a list"
    by (induction xs) auto
  from this [of "x # xs"] show ?thesis
    by simp
qed

text \<open>The loop over the comma-separated origins.\<close>

function parse_origins :: "(string \<Rightarrow> url_parts option) \<Rightarrow> string \<Rightarrow> string set \<Rightarrow> exn + string set" where
  "parse_origins parse [] allowed = Inr allowed"
| "parse_origins parse (c # cs) allowed =
     (let origin = takeWhile (\<lambda>x. x \<noteq> CHR '','') (c # cs); rest = dropWhile (\<lambda>x. x \<noteq> CHR '','') (c # cs) in
      (case http_origin parse origin of
         Inl e \<Rightarrow> Inl e
       | Inr canonical \<Rightarrow>
           if origin \<noteq> canonical
           then Inl (Invalid_argument ''GRPC_ASR_HTTP_ORIGINS requires canonical scheme://host:port origins'')
           else if rest = [] then Inr (insert origin allowed)
           else if tl rest = [] then Inl (Invalid_argument ''empty HTTP origin'')
           else parse_origins parse (tl rest) (insert origin allowed)))"
  by pat_completeness auto

termination
  by (relation "measure (\<lambda>(_, s, _). length s)") (simp, simp only: in_measure prod.case length_tl_dropWhile)

section \<open>The runtime\<close>

record ('pc, 'ps) streaming_runtime =
  sr_registry :: registry
  sr_backend :: "('pc, 'ps) runtime_backend"
  sr_worker :: speech_worker
  sr_target :: string
  sr_pipeline :: "string \<times> string"
  sr_http :: http_policy
  sr_connected :: bool

text \<open>The members after the backend.\<close>

definition runtime_assemble ::
  "('c, 's, 'pc, 'ps, 'v) runtime_env \<Rightarrow> 'c model_pool \<Rightarrow> registry \<Rightarrow> ('pc, 'ps) runtime_backend \<Rightarrow> exn + ('pc, 'ps) streaming_runtime" where
  "runtime_assemble E pool reg backend =
     (let env = runtime_getenv (rt_environment E); machine = pr_machine_id (rg_producer reg) in
      err_bind (speech_worker_new (rt_uuid E 2) (backend_names E pool backend) machine 120000) (\<lambda>worker.
      err_bind (weights E (env ''GRPC_ASR_VAD_MODEL_PATH'' []) (4 * 1024 * 1024)) (\<lambda>vad.
      let target = env ''GRPC_ASR_WORKER_TARGET'' [] in
      err_bind (if target = [] then factory_in_process (rt_vad E) True vad machine else factory_new (rt_vad E) (rt_uuid E 3) target vad machine) (\<lambda>pipeline.
      err_bind (parse_origins (rt_parse_url E) (env ''GRPC_ASR_HTTP_ORIGINS'' []) {}) (\<lambda>origins.
      let allow_private = env ''GRPC_ASR_HTTP_ALLOW_PRIVATE'' ''0'' in
      if allow_private \<noteq> ''0'' \<and> allow_private \<noteq> ''1'' then Inl (Invalid_argument ''GRPC_ASR_HTTP_ALLOW_PRIVATE must be 0 or 1'')
      else Inr \<lparr>sr_registry = reg, sr_backend = backend, sr_worker = worker, sr_target = target, sr_pipeline = pipeline,
        sr_http = \<lparr>hp_allowed_origins = origins, hp_allow_private_addresses = (allow_private = ''1'')\<rparr>, sr_connected = False\<rparr>)))))"

definition streaming_runtime_new ::
  "('c, 's, 'pc, 'ps, 'v) runtime_env \<Rightarrow> config \<Rightarrow> 'c model_pool \<Rightarrow> ('c model_pool \<times> (exn + ('pc, 'ps) streaming_runtime)) option" where
  "streaming_runtime_new E cfg pool =
     (case registry_new (rt_wire E) (rt_uuid E 0) (rt_uuid E 1) (rt_app_version E) (rt_build_id E) (rt_grpc_version E) limits_default
         (runtime_getenv (rt_environment E) ''GRPC_ASR_MACHINE_ID'' []) of
        Inl e \<Rightarrow> Some (pool, Inl e)
      | Inr reg \<Rightarrow> map_option (\<lambda>(p, r). (p, err_bind r (runtime_assemble E p reg))) (runtime_backend_new E cfg pool))"

text \<open>\<open>connect\<close> fulfils the promise of the channel; a second call would throw.\<close>

definition runtime_connect :: "('pc, 'ps) streaming_runtime \<Rightarrow> exn + ('pc, 'ps) streaming_runtime" where
  "runtime_connect r = (if sr_connected r then Inl (Logic_error ''Promise already satisfied'') else Inr (r\<lparr>sr_connected := True\<rparr>))"

section \<open>The list of origins\<close>

fun join_commas :: "string list \<Rightarrow> string" where
  "join_commas [] = []"
| "join_commas [x] = x"
| "join_commas (x # y # ys) = x @ CHR '','' # join_commas (y # ys)"

definition canonical_origin :: "(string \<Rightarrow> url_parts option) \<Rightarrow> string \<Rightarrow> bool" where
  "canonical_origin parse x \<longleftrightarrow> CHR '','' \<notin> set x \<and> http_origin parse x = Inr x"

lemma canonical_origin_nonempty: "canonical_origin parse x \<Longrightarrow> x \<noteq> []"
  by (auto simp: canonical_origin_def http_origin_def)

lemma join_commas_Nil: "list_all (canonical_origin parse) xs \<Longrightarrow> join_commas xs = [] \<longleftrightarrow> xs = []"
  using canonical_origin_nonempty by (induction xs rule: join_commas.induct) auto

lemma takeWhile_comma:
  "CHR '','' \<notin> set x \<Longrightarrow> takeWhile (\<lambda>c. c \<noteq> CHR '','') (x @ CHR '','' # rest) = x"
  "CHR '','' \<notin> set x \<Longrightarrow> dropWhile (\<lambda>c. c \<noteq> CHR '','') (x @ CHR '','' # rest) = CHR '','' # rest"
  "CHR '','' \<notin> set x \<Longrightarrow> takeWhile (\<lambda>c. c \<noteq> CHR '','') x = x"
  "CHR '','' \<notin> set x \<Longrightarrow> dropWhile (\<lambda>c. c \<noteq> CHR '','') x = []"
  by (induction x) auto

text \<open>One round of the loop, on text that starts with an origin.\<close>

lemma parse_origins_one:
  assumes "canonical_origin parse x"
  shows "parse_origins parse x allowed = Inr (insert x allowed)"
    "rest \<noteq> [] \<Longrightarrow> parse_origins parse (x @ CHR '','' # rest) allowed = parse_origins parse rest (insert x allowed)"
proof -
  obtain c cs where x: "x = c # cs"
    using canonical_origin_nonempty [OF assms] by (cases x) auto
  show "parse_origins parse x allowed = Inr (insert x allowed)"
    using assms takeWhile_comma(3,4) [of x] unfolding x parse_origins.simps canonical_origin_def by (simp only: Let_def) simp
  show "parse_origins parse (x @ CHR '','' # rest) allowed = parse_origins parse rest (insert x allowed)" if "rest \<noteq> []"
    using assms that takeWhile_comma(1,2) [of x rest] unfolding x append_Cons parse_origins.simps canonical_origin_def
    by (simp only: Let_def) simp
qed

lemma parse_origins_join:
  "list_all (canonical_origin parse) xs \<Longrightarrow> parse_origins parse (join_commas xs) allowed = Inr (allowed \<union> set xs)"
proof (induction xs arbitrary: allowed rule: join_commas.induct)
  case (3 x y ys)
  then have "join_commas (y # ys) \<noteq> []"
    using join_commas_Nil [of parse "y # ys"] by simp
  with 3 show ?case
    by (simp add: parse_origins_one insert_commute)
qed (simp_all add: parse_origins_one)

lemma parse_origins_sound:
  "parse_origins parse s allowed = Inr A \<Longrightarrow> \<exists>xs. s = join_commas xs \<and> A = allowed \<union> set xs \<and> list_all (canonical_origin parse) xs"
proof (induction parse s allowed rule: parse_origins.induct)
  case (1 parse allowed)
  then show ?case
    by (intro exI [of _ "[]"]) simp
next
  case (2 parse c cs allowed)
  define x where "x = takeWhile (\<lambda>x. x \<noteq> CHR '','') (c # cs)"
  define rest where "rest = dropWhile (\<lambda>x. x \<noteq> CHR '','') (c # cs)"
  note round = parse_origins.simps(2) [of parse c cs allowed, folded x_def rest_def]
  have split: "c # cs = x @ rest"
    by (simp only: x_def rest_def takeWhile_dropWhile_id)
  have "CHR '','' \<notin> set x"
    unfolding x_def using set_takeWhileD by fastforce
  moreover have origin: "http_origin parse x = Inr x"
    using "2.prems" unfolding round by (auto simp: Let_def split: sum.splits if_splits)
  ultimately have canonical: "canonical_origin parse x"
    by (simp add: canonical_origin_def)
  show ?case
  proof (cases "rest = []")
    case True
    then show ?thesis
      using "2.prems" split canonical parse_origins_one(1) [OF canonical] by (intro exI [of _ "[x]"]) simp
  next
    case False
    then have "rest = CHR '','' # tl rest"
      using hd_dropWhile [of "\<lambda>x. x \<noteq> CHR '',''" "c # cs"] unfolding rest_def by (metis list.collapse)
    moreover have more: "parse_origins parse (tl rest) (insert x allowed) = Inr A" "tl rest \<noteq> []"
      using "2.prems" origin False unfolding round by (auto simp: Let_def split: if_splits)
    moreover obtain xs where xs: "tl rest = join_commas xs" "A = insert x allowed \<union> set xs" "list_all (canonical_origin parse) xs"
      using "2.IH" [OF x_def rest_def origin _ False more(2) more(1)] by auto
    moreover obtain y ys where "xs = y # ys"
      using more(2) xs(1) by (cases xs) auto
    ultimately show ?thesis
      using split canonical by (intro exI [of _ "x # xs"]) (simp add: insert_commute)
  qed
qed

text \<open>C32: The configured HTTP origins are exactly the items of the list: the text is accepted if and only if it is canonical origins joined
  by commas, no empty item and none at the end included, and then precisely these origins are allowed.\<close>

theorem parse_origins_iff:
  "parse_origins parse s {} = Inr A \<longleftrightarrow> (\<exists>xs. s = join_commas xs \<and> A = set xs \<and> list_all (canonical_origin parse) xs)"
  using parse_origins_sound [of parse s "{}" A] parse_origins_join [of parse _ "{}"] by auto

section \<open>A runtime that starts is complete\<close>

lemma stream_backend_new_wf:
  assumes "stream_backend_new E cfg model pool = Some (pool1, r)" "pool_wf n (pool, held)"
  shows "pool_wf n (pool1, held)"
proof -
  have lease: "pool_wf n (release l p, held)" if "acquire False False model pool = Some (p, Inr l)" for p l
    using pool_step_wf [OF pool_step.lease [OF that] assms(2)] by (rule release_returns)
  moreover have "p = pool" if "acquire False False model pool = Some (p, Inl e)" for p e
    using that by (rule acquire_refused_pool)
  ultimately show ?thesis
    using assms by (auto simp: stream_backend_new_def split: sum.splits option.splits)
qed

text \<open>What the selected backend stands for: weights in the pool, or its own.\<close>

lemma map_sum_Inr: "map_sum f g r = Inr y \<longleftrightarrow> (\<exists>x. r = Inr x \<and> y = g x)"
  by (cases r) auto

definition backend_loaded :: "'c model_pool \<Rightarrow> ('pc, 'ps) runtime_backend \<Rightarrow> bool" where
  "backend_loaded pool b \<longleftrightarrow>
     (case b of
        Pooled k \<Rightarrow> model_hash pool (sk_id k) = Inr (sk_hash k)
      | Parakeet m \<Rightarrow> pm_id m \<noteq> [] \<and> 1 \<le> pm_threads m \<and> pm_threads m \<le> 64)"

lemma stream_backend_new_hash:
  assumes "stream_backend_new E cfg model pool = Some (pool1, Inr b)"
  shows "model_hash pool1 (sk_id b) = Inr (sk_hash b)" "sk_id b = model"
  using assms
  by (auto simp: stream_backend_new_def model_hash_def acquire_def release_def split: sum.splits option.splits list.splits if_splits)

lemma runtime_backend_new_sound:
  assumes "runtime_backend_new E cfg pool = Some (pool1, Inr b)" "pool_wf n (pool, held)"
  shows "pool_wf n (pool1, held)" "backend_loaded pool1 b"
proof -
  show "pool_wf n (pool1, held)"
    using assms stream_backend_new_wf by (fastforce simp: runtime_backend_new_def Let_def split: if_splits)
  have pooled: "backend_loaded pool1 (Pooled k)" if "stream_backend_new (rt_whisper E) cfg model pool = Some (pool1, Inr k)" for model k
    using stream_backend_new_hash(1) [OF that] by (simp add: backend_loaded_def)
  show "backend_loaded pool1 b"
  proof (cases b)
    case (Pooled k)
    then show ?thesis
      using assms(1) pooled by (auto simp: runtime_backend_new_def Let_def err_bind_Inr map_sum_Inr split: if_splits)
  next
    case (Parakeet m)
    then show ?thesis
      using assms(1) by (auto simp: runtime_backend_new_def backend_loaded_def parakeet_model_new_def Let_def err_bind_Inr map_sum_Inr
          split: if_splits option.splits)
  qed
qed

lemma factory_machine:
  "check_weights M vad machine = Inr p \<Longrightarrow> snd p = machine"
  "factory_in_process M v vad machine = Inr p \<Longrightarrow> snd p = machine"
  "machine \<noteq> [] \<Longrightarrow> factory_new M fresh target vad machine = Inr p \<Longrightarrow> snd p = machine"
  by (auto simp: factory_in_process_def factory_new_def check_weights_def Let_def split: if_splits sum.splits)

text \<open>What a runtime relies on: its registry, one machine identity, a loaded backend and canonical origins.\<close>

definition runtime_ok :: "('c, 's, 'pc, 'ps, 'v) runtime_env \<Rightarrow> 'c model_pool \<Rightarrow> ('pc, 'ps) streaming_runtime \<Rightarrow> bool" where
  "runtime_ok E pool r \<longleftrightarrow>
     (let machine = pr_machine_id (rg_producer (sr_registry r)) in
      registry_ok (rt_wire E) (sr_registry r) \<and> valid_uuid machine \<and> pr_machine_id (wk_producer (sr_worker r)) = machine \<and>
      snd (sr_pipeline r) = machine \<and> backend_loaded pool (sr_backend r) \<and>
      pr_model_id (wk_producer (sr_worker r)) = (case sr_backend r of Pooled k \<Rightarrow> sk_id k | Parakeet m \<Rightarrow> pm_id m) \<and>
      (\<forall>x \<in> hp_allowed_origins (sr_http r). http_origin (rt_parse_url E) x = Inr x))"

lemma worker_identity:
  assumes "speech_worker_new fresh names machine timeout = Inr wk" "machine \<noteq> []"
  shows "pr_machine_id (wk_producer wk) = machine" "pr_model_id (wk_producer wk) = pr_model_id names" "valid_uuid machine"
  using assms by (auto simp: speech_worker_new_def Let_def split: if_splits)

lemma runtime_assemble_ok:
  assumes "runtime_assemble E pool1 reg b = Inr r" "registry_ok (rt_wire E) reg" "pr_machine_id (rg_producer reg) \<noteq> []" "backend_loaded pool1 b"
  shows "runtime_ok E pool1 r" "\<not> sr_connected r"
proof -
  let ?machine = "pr_machine_id (rg_producer reg)" and ?env = "runtime_getenv (rt_environment E)"
  obtain worker vad origins pipeline where parts:
      "speech_worker_new (rt_uuid E 2) (backend_names E pool1 b) ?machine 120000 = Inr worker"
      "(if ?env ''GRPC_ASR_WORKER_TARGET'' [] = [] then factory_in_process (rt_vad E) True vad ?machine
        else factory_new (rt_vad E) (rt_uuid E 3) (?env ''GRPC_ASR_WORKER_TARGET'' []) vad ?machine) = Inr pipeline"
      "parse_origins (rt_parse_url E) (?env ''GRPC_ASR_HTTP_ORIGINS'' []) {} = Inr origins"
    and r: "sr_registry r = reg" "sr_backend r = b" "sr_worker r = worker" "sr_pipeline r = pipeline" "hp_allowed_origins (sr_http r) = origins"
      "\<not> sr_connected r"
    using assms(1) unfolding runtime_assemble_def Let_def err_bind_Inr by (auto split: if_splits)
  have "snd pipeline = ?machine"
    using parts(2) factory_machine(2) factory_machine(3) [OF assms(3)] by (simp split: if_splits)
  moreover have "\<forall>x \<in> origins. http_origin (rt_parse_url E) x = Inr x"
    using parse_origins_sound [OF parts(3)] by (auto simp: list_all_iff canonical_origin_def)
  moreover have "pr_model_id (backend_names E pool1 b) = (case b of Pooled k \<Rightarrow> sk_id k | Parakeet m \<Rightarrow> pm_id m)"
    by (simp add: backend_names_def split: runtime_backend.splits)
  ultimately show "runtime_ok E pool1 r"
    using r worker_identity [OF parts(1) assms(3)] assms(2,4) by (simp add: runtime_ok_def Let_def)
  show "\<not> sr_connected r"
    by (rule r)
qed

lemma streaming_runtime_new_ok:
  assumes "streaming_runtime_new E cfg pool = Some (pool1, Inr r)" "pool_wf n (pool, held)" "rt_uuid E 1 \<noteq> []"
  shows "runtime_ok E pool1 r" "pool_wf n (pool1, held)" "\<not> sr_connected r"
proof -
  obtain reg b where reg: "registry_new (rt_wire E) (rt_uuid E 0) (rt_uuid E 1) (rt_app_version E) (rt_build_id E) (rt_grpc_version E)
        limits_default (runtime_getenv (rt_environment E) ''GRPC_ASR_MACHINE_ID'' []) = Inr reg"
    and b: "runtime_backend_new E cfg pool = Some (pool1, Inr b)" "runtime_assemble E pool1 reg b = Inr r"
    using assms(1) by (auto simp: streaming_runtime_new_def err_bind_Inr split: sum.splits)
  have "pr_machine_id (rg_producer reg) \<noteq> []"
    using reg assms(3) by (auto simp: registry_new_def split: if_splits)
  from runtime_assemble_ok [OF b(2) registry_new_ok [OF reg] this runtime_backend_new_sound(2) [OF b(1) assms(2)]]
  show "runtime_ok E pool1 r" "\<not> sr_connected r" .
  show "pool_wf n (pool1, held)"
    using runtime_backend_new_sound(1) [OF b(1) assms(2)] .
qed

end
