(* ===== verification/Server_Main.thy ===== *)
theory Server_Main
  imports Streaming_Runtime Pipeline_Worker
begin

text \<open>
  The process (src/src/main.cpp): start-up, which either ends with exit code 1 or serves with everything loaded, and the shutdown
  protocol of its threads. A signal only writes a byte to a pipe; the shutdown thread reads one and shuts the server down; the main
  thread waits for the server, then for the shutdown thread, then tells the metrics thread to stop. The operating system's and
  gRPC's answers are parameters of start-up and steps of the protocol.
\<close>

section \<open>Start-up\<close>

record ('c, 's, 'pc, 'ps, 'v) main_env =
  mn_pipe :: bool
  mn_cpus :: nat
  mn_pool :: "'c pool_env"
  mn_runtime :: "('c, 's, 'pc, 'ps, 'v) runtime_env"
  mn_listens :: "string \<Rightarrow> bool"

datatype ('c, 'pc, 'ps) main_startup =
    Startup_failed exn | Cannot_listen string | Serving config "'c model_pool" "('pc, 'ps) streaming_runtime"

definition install_shutdown_pipe :: "('c, 's, 'pc, 'ps, 'v) main_env \<Rightarrow> exn option" where
  "install_shutdown_pipe M = (if mn_pipe M then None else Some (Runtime_error ''shutdown pipe creation failed''))"

text \<open>\<open>None\<close> while the construction of the pooled backend waits for a state.\<close>

definition main_start :: "('c, 's, 'pc, 'ps, 'v) main_env \<Rightarrow> ('c, 'pc, 'ps) main_startup option" where
  "main_start M =
     (case install_shutdown_pipe M of
        Some e \<Rightarrow> Some (Startup_failed e)
      | None \<Rightarrow> (case load_config_from_env (mn_cpus M) (rt_environment (mn_runtime M)) of
            Inl e \<Rightarrow> Some (Startup_failed e)
          | Inr cfg \<Rightarrow> (case model_pool_new (mn_pool M) cfg of
                Inl e \<Rightarrow> Some (Startup_failed e)
              | Inr pool \<Rightarrow> (case streaming_runtime_new (mn_runtime M) cfg pool of
                    None \<Rightarrow> None
                  | Some (p1, Inl e) \<Rightarrow> Some (Startup_failed e)
                  | Some (p1, Inr r) \<Rightarrow>
                      if \<not> mn_listens M (listen_address cfg) then Some (Cannot_listen (listen_address cfg))
                      else (case runtime_connect r of Inl e \<Rightarrow> Some (Startup_failed e) | Inr r1 \<Rightarrow> Some (Serving cfg p1 r1))))))"

text \<open>The exit code of a start-up that does not serve.\<close>

definition startup_exit :: "('c, 'pc, 'ps) main_startup \<Rightarrow> nat option" where
  "startup_exit s = (case s of Serving _ _ _ \<Rightarrow> None | _ \<Rightarrow> Some 1)"

section \<open>Shutdown\<close>

datatype main_phase = Main_waiting | Main_joining_shutdown | Main_stopping | Main_joining_metrics | Main_exited

datatype shutdown_phase = Shutdown_reading | Shutdown_calling | Shutdown_done

text \<open>\<open>ps_metrics\<close>: whether the metrics thread runs, \<open>None\<close> when the interval is 0 and there is none.\<close>

record server_process =
  ps_pipe :: nat
  ps_serving :: bool
  ps_shutdown :: shutdown_phase
  ps_main :: main_phase
  ps_stopping :: bool
  ps_metrics :: "bool option"
  ps_lines :: nat

definition process_new :: "config \<Rightarrow> server_process" where
  "process_new cfg = \<lparr>ps_pipe = 0, ps_serving = True, ps_shutdown = Shutdown_reading, ps_main = Main_waiting, ps_stopping = False,
     ps_metrics = (if metrics_interval_seconds cfg > 0 then Some True else None), ps_lines = 0\<rparr>"

definition handle_shutdown :: "server_process \<Rightarrow> server_process" where
  "handle_shutdown s = s\<lparr>ps_pipe := Suc (ps_pipe s)\<rparr>"

text \<open>A step is the process's own, or a signal, the end of the server for another reason, or a metrics interval that elapsed.\<close>

datatype process_label = Own | Signal | Server_ends | Interval

inductive process_step :: "process_label \<Rightarrow> server_process \<Rightarrow> server_process \<Rightarrow> bool" where
  signal: "ps_main s \<noteq> Main_exited \<Longrightarrow> process_step Signal s (handle_shutdown s)"
| server_ends: "ps_serving s \<Longrightarrow> process_step Server_ends s (s\<lparr>ps_serving := False\<rparr>)"
| read_byte: "ps_shutdown s = Shutdown_reading \<Longrightarrow> ps_pipe s = Suc n \<Longrightarrow>
    process_step Own s (s\<lparr>ps_pipe := n, ps_shutdown := Shutdown_calling\<rparr>)"
| shut_down: "ps_shutdown s = Shutdown_calling \<Longrightarrow> process_step Own s (s\<lparr>ps_serving := False, ps_shutdown := Shutdown_done\<rparr>)"
| wait_returns: "ps_main s = Main_waiting \<Longrightarrow> \<not> ps_serving s \<Longrightarrow>
    process_step Own s ((handle_shutdown s)\<lparr>ps_main := Main_joining_shutdown\<rparr>)"
| join_shutdown: "ps_main s = Main_joining_shutdown \<Longrightarrow> ps_shutdown s = Shutdown_done \<Longrightarrow> process_step Own s (s\<lparr>ps_main := Main_stopping\<rparr>)"
| stop_metrics: "ps_main s = Main_stopping \<Longrightarrow> process_step Own s (s\<lparr>ps_stopping := True, ps_main := Main_joining_metrics\<rparr>)"
| metrics_line: "ps_metrics s = Some True \<Longrightarrow> \<not> ps_stopping s \<Longrightarrow> process_step Interval s (s\<lparr>ps_lines := Suc (ps_lines s)\<rparr>)"
| metrics_ends: "ps_metrics s = Some True \<Longrightarrow> ps_stopping s \<Longrightarrow> process_step Own s (s\<lparr>ps_metrics := Some False\<rparr>)"
| join_metrics: "ps_main s = Main_joining_metrics \<Longrightarrow> ps_metrics s \<noteq> Some True \<Longrightarrow> process_step Own s (s\<lparr>ps_main := Main_exited\<rparr>)"

inductive_cases process_stepE: "process_step l s s'"

definition any_step :: "server_process \<Rightarrow> server_process \<Rightarrow> bool" where
  "any_step s s' \<longleftrightarrow> (\<exists>l. process_step l s s')"

section \<open>The protocol\<close>

text \<open>The main thread has written its byte before it waits for the shutdown thread, so a byte is there as long as that thread reads.\<close>

definition process_ok :: "server_process \<Rightarrow> bool" where
  "process_ok s \<longleftrightarrow>
     (ps_main s \<noteq> Main_waiting \<longrightarrow> \<not> ps_serving s \<and> (ps_shutdown s = Shutdown_reading \<longrightarrow> 0 < ps_pipe s)) \<and>
     (ps_shutdown s = Shutdown_done \<longrightarrow> \<not> ps_serving s) \<and>
     (ps_main s \<in> {Main_stopping, Main_joining_metrics, Main_exited} \<longrightarrow> ps_shutdown s = Shutdown_done) \<and>
     (ps_stopping s \<longleftrightarrow> ps_main s \<in> {Main_joining_metrics, Main_exited}) \<and>
     (ps_main s = Main_exited \<longrightarrow> ps_metrics s \<noteq> Some True)"

lemma process_step_ok: "process_step l s s' \<Longrightarrow> process_ok s \<Longrightarrow> process_ok s'"
  by (induction rule: process_step.induct) (auto simp: process_ok_def handle_shutdown_def)

lemma reachable_ok: "any_step\<^sup>*\<^sup>* (process_new cfg) s \<Longrightarrow> process_ok s"
proof (induction rule: rtranclp_induct)
  case base
  then show ?case
    by (simp add: process_ok_def process_new_def)
qed (auto simp: any_step_def intro: process_step_ok)

text \<open>Whether the process has been asked to end, and how many steps of its own are left.\<close>

definition asked_to_end :: "server_process \<Rightarrow> bool" where
  "asked_to_end s \<longleftrightarrow> 0 < ps_pipe s \<or> ps_shutdown s \<noteq> Shutdown_reading \<or> \<not> ps_serving s"

definition steps_left :: "server_process \<Rightarrow> nat" where
  "steps_left s =
     (case ps_main s of Main_waiting \<Rightarrow> 4 | Main_joining_shutdown \<Rightarrow> 3 | Main_stopping \<Rightarrow> 2 | Main_joining_metrics \<Rightarrow> 1 | Main_exited \<Rightarrow> 0) +
     (case ps_shutdown s of Shutdown_reading \<Rightarrow> 2 | Shutdown_calling \<Rightarrow> 1 | Shutdown_done \<Rightarrow> 0) +
     (if ps_metrics s = Some True then 1 else 0)"

lemma steps_left_le: "steps_left s \<le> 7"
  by (simp add: steps_left_def split: main_phase.splits shutdown_phase.splits)

lemma process_step_left:
  "process_step l s s' \<Longrightarrow> (if l = Own then steps_left s = Suc (steps_left s') else steps_left s' = steps_left s)"
  by (induction rule: process_step.induct) (auto simp: steps_left_def handle_shutdown_def split: main_phase.splits shutdown_phase.splits)

lemma asked_stays: "process_step l s s' \<Longrightarrow> asked_to_end s \<Longrightarrow> asked_to_end s'"
  by (induction rule: process_step.induct) (auto simp: asked_to_end_def handle_shutdown_def)

lemma own_step_enabled:
  assumes "process_ok s" "asked_to_end s" "ps_main s \<noteq> Main_exited"
  shows "\<exists>s'. process_step Own s s'"
proof (cases "ps_shutdown s")
  case Shutdown_reading
  show ?thesis
  proof (cases "ps_pipe s")
    case 0
    then have "ps_main s = Main_waiting" "\<not> ps_serving s"
      using assms Shutdown_reading by (auto simp: process_ok_def asked_to_end_def)
    then show ?thesis
      using process_step.wait_returns by blast
  qed (use Shutdown_reading process_step.read_byte in blast)
next
  case Shutdown_done
  show ?thesis
  proof (cases "ps_main s")
    case Main_waiting
    then show ?thesis
      using assms(1) Shutdown_done process_step.wait_returns by (auto simp: process_ok_def)
  next
    case Main_joining_metrics
    then have "ps_stopping s"
      using assms(1) by (simp add: process_ok_def)
    then show ?thesis
      using Main_joining_metrics process_step.metrics_ends process_step.join_metrics by blast
  qed (use Shutdown_done assms(3) process_step.join_shutdown process_step.stop_metrics in blast)+
qed (use process_step.shut_down in blast)

section \<open>Start-up ends\<close>

text \<open>A fresh pool has a free state of every model, so nothing waits during start-up.\<close>

lemma stream_backend_new_returns:
  assumes "pool_wf n (pool, [])" "0 < n" "has_model pool model"
  shows "\<exists>r. stream_backend_new W cfg model pool = Some r"
proof -
  obtain e where e: "mp_entries pool model = Some e"
    using assms(3) by (auto simp: has_model_def)
  with assms(1) have "length (pe_all e) = n" "mset (pe_free e) = mset (pe_all e)"
    by (auto simp: pool_wf_def)
  then have "pe_free e \<noteq> []"
    using assms(2) by (metis length_0_conv mset_zero_iff not_gr_zero)
  then show ?thesis
    using e by (auto simp: stream_backend_new_def acquire_def neq_Nil_conv split: sum.splits)
qed

lemma runtime_new_returns:
  assumes "pool_wf n (pool, [])" "0 < n"
  shows "\<exists>r. streaming_runtime_new E cfg pool = Some r"
  using stream_backend_new_returns [OF assms] by (auto simp: streaming_runtime_new_def runtime_backend_new_def Let_def split: sum.splits)

text \<open>C15: Start-up always ends, and a process that serves has everything: its configuration is within the documented ranges, every state of
  every model is free in a well-formed pool, the registry is well formed, registry, worker and pipeline share one valid machine
  identity, the speech backend holds a loaded model, only canonical origins are allowed, and the channel is connected. Every other
  outcome exits with code 1.\<close>

theorem main_start_complete:
  assumes "rt_uuid (mn_runtime M) 1 \<noteq> []"
  shows "\<exists>s. main_start M = Some s \<and>
    (case s of
       Serving cfg pool r \<Rightarrow> config_ok cfg \<and> pool_wf (concurrency cfg) (pool, []) \<and> runtime_ok (mn_runtime M) pool r \<and> sr_connected r \<and>
         mn_listens M (listen_address cfg) \<and> startup_exit s = None
     | _ \<Rightarrow> startup_exit s = Some 1)"
proof (cases "install_shutdown_pipe M")
  case None
  show ?thesis
  proof (cases "load_config_from_env (mn_cpus M) (rt_environment (mn_runtime M))")
    case (Inr cfg)
    note cfg = this load_config_ok [OF this]
    show ?thesis
    proof (cases "model_pool_new (mn_pool M) cfg")
      case (Inr pool)
      note wf = model_pool_new_wf [OF Inr]
      have "0 < concurrency cfg"
        using cfg(2) by (simp add: config_ok_def)
      then obtain p1 outcome where run: "streaming_runtime_new (mn_runtime M) cfg pool = Some (p1, outcome)"
        using runtime_new_returns [OF wf] by (metis surj_pair)
      show ?thesis
      proof (cases outcome)
        case Inl
        then show ?thesis
          using None cfg Inr run by (simp add: main_start_def startup_exit_def)
      next
        case (Inr r)
        note ok = streaming_runtime_new_ok [OF run [unfolded Inr] wf assms]
        have "runtime_ok (mn_runtime M) p1 (r\<lparr>sr_connected := True\<rparr>)"
          using ok(1) by (simp add: runtime_ok_def)
        then show ?thesis
          using None cfg \<open>model_pool_new (mn_pool M) cfg = _\<close> run Inr ok(2,3) by (simp add: main_start_def startup_exit_def runtime_connect_def)
      qed
    qed (use None cfg in \<open>simp add: main_start_def startup_exit_def\<close>)
  qed (use None in \<open>simp add: main_start_def startup_exit_def\<close>)
qed (simp add: main_start_def startup_exit_def)

text \<open>C23: Shutdown completes: once a signal has arrived or the server has ended, whatever further signals and metrics intervals do in between,
  the process always has a step of its own to take until it has exited, at most seven of them, and it can run to the exit on its
  own. An exited process has shut its server down and both its threads have ended.\<close>

theorem shutdown_completes:
  assumes "any_step\<^sup>*\<^sup>* (process_new cfg) s" "asked_to_end s"
  shows "(\<exists>s'. (process_step Own)\<^sup>*\<^sup>* s s' \<and> ps_main s' = Main_exited) \<and> steps_left s \<le> 7 \<and>
    (ps_main s \<noteq> Main_exited \<longrightarrow> (\<exists>s'. process_step Own s s')) \<and>
    (\<forall>l s'. process_step l s s' \<longrightarrow> asked_to_end s' \<and> (if l = Own then steps_left s = Suc (steps_left s') else steps_left s' = steps_left s)) \<and>
    (ps_main s = Main_exited \<longrightarrow> \<not> ps_serving s \<and> ps_shutdown s = Shutdown_done \<and> ps_metrics s \<noteq> Some True)"
proof -
  have ok: "process_ok s"
    using assms(1) by (rule reachable_ok)
  have "\<exists>s'. (process_step Own)\<^sup>*\<^sup>* s s' \<and> ps_main s' = Main_exited" if "process_ok s" "asked_to_end s" for s
    using that
  proof (induction "steps_left s" arbitrary: s rule: less_induct)
    case less
    show ?case
    proof (cases "ps_main s = Main_exited")
      case False
      then obtain s1 where s1: "process_step Own s s1"
        using own_step_enabled less.prems by blast
      then have "steps_left s1 < steps_left s"
        using process_step_left [OF s1] by simp
      with less s1 show ?thesis
        by (meson asked_stays process_step_ok converse_rtranclp_into_rtranclp)
    qed blast
  qed
  then show ?thesis
    using ok assms(2) own_step_enabled process_step_left asked_stays steps_left_le
    by (auto simp: process_ok_def)
qed

section \<open>A process that starts\<close>

definition demo_main :: "(unit, native_segment list, unit, unit, unit) main_env" where
  "demo_main = \<lparr>mn_pipe = True, mn_cpus = 8, mn_pool = demo_pool_env,
     mn_runtime = \<lparr>rt_environment = [''GRPC_ASR_MODELS'' \<mapsto> ''tiny''], rt_length = (\<lambda>_. None), rt_read = (\<lambda>_. None), rt_whisper = demo_library,
       rt_parakeet = \<lparr>pq_init_context = (\<lambda>_. None), pq_init_state = (\<lambda>_. None), pq_sha256 = (\<lambda>_. []), pq_full = (\<lambda>_ s _ _ _. (s, 1, None)),
         pq_segments = (\<lambda>_. []), pq_blank = (\<lambda>_. 0), pq_bos = (\<lambda>_. 1), pq_length = (\<lambda>_ _. 0), pq_render = (\<lambda>_ _ _. ([], 0)), pq_mean = (\<lambda>_. 0),
         pq_uuid = (\<lambda>_. []), pq_version = []\<rparr>,
       rt_wire = demo_wire, rt_uuid = (\<lambda>_. demo_uuid), rt_app_version = ''1'', rt_build_id = ''b'', rt_grpc_version = ''1'',
       rt_vad = \<lparr>vm_detect = (\<lambda>v _. (v, None)), vm_reset = (\<lambda>v. v), vm_init = (\<lambda>_. None), vm_sha256 = (\<lambda>_. [])\<rparr>, rt_parse_url = (\<lambda>_. None)\<rparr>,
     mn_listens = (\<lambda>_. True)\<rparr>"

lemma demo_main_serves: "\<exists>pool r. main_start demo_main = Some (Serving demo_config pool r)"
proof -
  have cfg: "load_config_from_env 8 [''GRPC_ASR_MODELS'' \<mapsto> ''tiny''] = Inr demo_config"
    unfolding demo_config_def
    by (simp add: load_config_from_env_def configured_size_def configured_string_def configured_bool_def configured_list_def env_set_def
        trim_def is_blank_def)
  have "\<exists>r. streaming_runtime_new (mn_runtime demo_main) demo_config demo_pool = Some (fst r, Inr (snd r)) \<and> \<not> sr_connected (snd r)"
    by (simp add: streaming_runtime_new_def runtime_backend_new_def runtime_assemble_def registry_new_def valid_limits_def limits_default_def
        runtime_getenv_def stream_backend_new_def model_hash_def acquire_def release_def has_model_def model_names_def speech_worker_new_def
        factory_in_process_def check_weights_def weights_def demo_pool_def demo_main_def demo_uuid_valid Let_def)
  then show ?thesis
    using cfg demo_pool_new by (auto simp: main_start_def install_shutdown_pipe_def demo_main_def runtime_connect_def)
qed

theorem main_start_complete_witness:
  "\<exists>pool r. main_start demo_main = Some (Serving demo_config pool r) \<and> config_ok demo_config \<and> sr_connected r \<and>
     runtime_ok (mn_runtime demo_main) pool r"
proof -
  have "rt_uuid (mn_runtime demo_main) 1 \<noteq> []"
    by (simp add: demo_main_def demo_uuid_def)
  then show ?thesis
    using main_start_complete [of demo_main] demo_main_serves by auto
qed

theorem shutdown_completes_witness:
  "\<exists>s'. (process_step Own)\<^sup>*\<^sup>* (handle_shutdown (process_new demo_config)) s' \<and> ps_main s' = Main_exited"
proof -
  have "any_step (process_new demo_config) (handle_shutdown (process_new demo_config))"
    unfolding any_step_def by (intro exI [of _ Signal] process_step.signal) (simp add: process_new_def)
  moreover have "asked_to_end (handle_shutdown (process_new demo_config))"
    by (simp add: asked_to_end_def handle_shutdown_def)
  ultimately show ?thesis
    using shutdown_completes [OF r_into_rtranclp] by blast
qed

end
