(* ===== verification/Media_File.thy ===== *)
theory Media_File
  imports Video_Demux
begin

text \<open>
  The life of a \<open>VideoDemux\<close> (src/src/media/video_demux.cpp): the constructor, which copies the media into a sealed anonymous file that
  the children read, and the audio child, which is opened, read, closed or cancelled in whatever order the caller does it and is
  gone when the demuxer is. The kernel's answers are arguments. \<open>vx_ended\<close> lists the processes whose objects are destroyed.
\<close>

section \<open>The media file\<close>

record memfd =
  mf_bytes :: string
  mf_sealed :: bool

record video_demux =
  vx_media :: memfd
  vx_ffmpeg :: string
  vx_ffprobe :: string
  vx_inactivity :: nat
  vx_audio :: "tool_process demux_audio option"
  vx_ended :: "tool_process list"

text \<open>The write loop, on the bytes still to write; \<open>None\<close> when the kernel's answers end first.\<close>

fun write_media :: "int list \<Rightarrow> string \<Rightarrow> memfd \<Rightarrow> (exn + memfd) option" where
  "write_media ns [] f = Some (Inr f)"
| "write_media [] (c # cs) f = None"
| "write_media (n # ns) (c # cs) f =
     (if n \<le> 0 then Some (Inl (Tool_error ''writing media to memfd failed''))
      else write_media ns (drop (nat n) (c # cs)) (f\<lparr>mf_bytes := mf_bytes f @ take (nat n) (c # cs)\<rparr>))"

definition video_demux_new ::
  "bool \<Rightarrow> int list \<Rightarrow> string option \<Rightarrow> string \<Rightarrow> string \<Rightarrow> string \<Rightarrow> nat \<Rightarrow> (exn + video_demux) option" where
  "video_demux_new created writes seal_error data ffmpeg ffprobe inactivity =
     (if \<not> created then Some (Inl (Tool_error ''memfd_create failed''))
      else (case write_media writes data \<lparr>mf_bytes = [], mf_sealed = False\<rparr> of
          None \<Rightarrow> None
        | Some (Inl e) \<Rightarrow> Some (Inl e)
        | Some (Inr f) \<Rightarrow> (case seal_error of
              Some why \<Rightarrow> Some (Inl (Tool_error (''sealing the media memfd failed: '' @ why)))
            | None \<Rightarrow> Some (Inr \<lparr>vx_media = f\<lparr>mf_sealed := True\<rparr>, vx_ffmpeg = ffmpeg, vx_ffprobe = ffprobe, vx_inactivity = inactivity,
                vx_audio = None, vx_ended = []\<rparr>))))"

section \<open>The audio child\<close>

definition reset_audio :: "video_demux \<Rightarrow> video_demux" where
  "reset_audio v =
     (case vx_audio v of None \<Rightarrow> v | Some d \<Rightarrow> v\<lparr>vx_audio := None, vx_ended := vx_ended v @ [tool_destroy (da_tool d)]\<rparr>)"








section \<open>Properties\<close>


lemma write_media_returns:
  "length data \<le> length ns \<Longrightarrow> \<exists>r. write_media ns data f = Some r"
proof (induction ns data f rule: write_media.induct)
  case (3 n ns c cs f)
  then show ?case
    by (cases "n \<le> 0") auto
qed auto




definition children :: "video_demux \<Rightarrow> nat" where
  "children v = length (vx_ended v) + (case vx_audio v of None \<Rightarrow> 0 | Some _ \<Rightarrow> 1)"



lemma reset_audio_facts [simp]:
  "children (reset_audio v) = children v" "vx_audio (reset_audio v) = None" "length (vx_ended (reset_audio v)) = children v"
  by (auto simp: children_def reset_audio_def split: option.splits)










text \<open>The constructor returns: each write the kernel answers makes progress or fails.\<close>

lemma video_demux_new_returns:
  assumes "length data \<le> length writes"
  shows "\<exists>r. video_demux_new created writes seal_error data ffmpeg ffprobe inactivity = Some r"
proof -
  obtain r where "write_media writes data \<lparr>mf_bytes = [], mf_sealed = False\<rparr> = Some r"
    using write_media_returns [OF assms] by blast
  then show ?thesis
    by (cases r) (auto simp: video_demux_new_def split: option.splits)
qed


end
