(* ===== verification/Spec2Isabelle.thy ===== *)
theory Spec2Isabelle
  imports Prelude Float32 Windowing Window_Cut Transcriber Sniff Byte_Stream Audio_Decoder Tool_Process
    Video_Demux Config Remote_Options Docling_Options Model_Pool Media_Types Ordered_Map Registry Registry_Delivery
    Asr_Types Document_Fold Locked_Writer Sink_Invariant Process_Stream Stream_Protocol Asr_Service
    Utf8 Reconcile Reconcile_Proofs Reconcile_Segments Reconcile_Revisions Reconcile_Progress
    Voice_Activity Worker Windowing_Progress Pipeline Pipeline_Proofs Pipeline_Worker Http_Source
    Media_Service Media_Service_Proofs Ingest_Contract Speech_Processing Media_Decoder Media_Decoder_Proofs
    Speech_Models Speech_Models_Proofs Streaming_Runtime Server_Main Media_File
begin

text \<open>
  Verification of grpc-asr: the ASR collector (src/src) and the media streaming service
  (src/streaming/src).

  \<^bold>\<open>The program.\<close> A client of the collector opens a Transcribe call, names a model and uploads
  media. The call is admitted (Docling_Options, Remote_Options), the upload grows in a buffer
  (Byte_Stream), a worker thread sniffs the container (Sniff), decodes it in process
  (Audio_Decoder) or through ffmpeg children (Tool_Process, Video_Demux), leases a whisper state
  (Model_Pool) and runs the window loop (Transcriber, Window_Cut); segments and stills go to the
  client through one locked writer, which also folds the Document (Document_Fold,
  Locked_Writer, Process_Stream, Asr_Service). The streaming service takes a source
  that a client uploads (Ingest) or names (Pull, over HTTP: Http_Source), keeps it in a registry of
  streams with retained history, derived results and subscriptions (Registry, Media_Service), decodes
  it with FFmpeg (Media_Decoder) and runs the speech pipeline (Pipeline) over each audio track: the
  pipeline cuts the audio into windows (Windowing, with pauses found by Voice_Activity), sends them to
  a speech worker (Worker), whose backend is an adapter to whisper.cpp or Parakeet (Speech_Models), and
  joins the windows' hypotheses into one transcript (Reconcile), which is published to the
  registry again. One process serves both (Streaming_Runtime, Server_Main).

  \<^bold>\<open>Conventions.\<close> A C++ object is a record, its member functions are functions of the record. A
  call that may throw returns an \<open>outcome\<close>, the object after the call with the exception, since
  a C++ call keeps the fields it has assigned before it throws; pure functions that may throw
  return \<open>exn + 'a\<close>. Unsigned integers are naturals with the wrap-around written out where the
  code can reach it (\<open>u32\<close>, \<open>u64\<close>); floats are their bit patterns (Float32). Code that is not in
  the repository (whisper.cpp, miniaudio, ffmpeg, protobuf sizes, SHA-256, clocks, random bytes,
  the operating system) is an argument of the definitions that use it; what is relied on is a
  hypothesis of the theorem, and its witness shows a concrete function that satisfies it. A
  blocking call is enabled by the predicate of its wait; for the upload buffer the condition variable
  behind it is modelled too, with notifications, parked threads and spurious wake-ups. Where two
  threads meet, the order of their steps is an argument or a step relation, so a theorem holds for
  every interleaving. Logs of calls to the kernel (\<open>tp_calls\<close>) and of exceptions (\<open>de_thrown\<close>) are
  history fields: the code has no such state and no definition branches on them.

  \<^bold>\<open>Theories.\<close>
  \<^item> Prelude: integer widths, status codes, exceptions, outcomes, the locale
    \<open>invariant_machine\<close>. Float32: PCM samples and their bytes (pcm_scrub.h, pipeline.cpp).
  \<^item> Windowing (windowing.cpp): the class and its emit callback. No sample is lost or doubled, the
    windows chain by their overlap, the buffer is bounded by the policy along every run that its
    callback lets go on; a caller that goes on after the callback threw loses that bound
    (\<open>windowing_unbounded_after_throw\<close>).
  \<^item> Window_Cut, Transcriber (engine/transcriber.cpp, window_cut.h): the window loop with the
    whisper callbacks. It returns within one iteration per millisecond of the duration cap,
    whisper hears the media sample for sample, each window resuming where the last was cut and only the
    last sliver padded, and segments are numbered without gaps.
  \<^item> Sniff, Byte_Stream, Audio_Decoder (media/): container detection, the upload buffer
    between two threads (no reader sleeps for ever), the decoder as a source of PCM; the locale \<open>pcm_source\<close> is what the
    transcriber needs of a source, and both decoders are interpreted as one.
  \<^item> Tool_Process, Video_Demux, Media_File (media/video_demux.cpp): the child's descriptors, reads
    with an inactivity limit, probe output, PCM and PNG framing, the sealed media file and the
    life of the audio child. Every still that ffmpeg wrote arrives whole; every child is waited for exactly
    once and never signalled after that.
  \<^item> Config, Remote_Options, Docling_Options (config.cpp, engine/): settings and request checks.
  \<^item> Model_Pool (engine/model_pool.cpp): loading, leases, queueing; a state is leased at most once.
  \<^item> Asr_Types, Document_Fold (document/document_fold.cpp): the Document built from the events;
    its references are sound after every event and nothing that was sent is missing.
  \<^item> Locked_Writer, Sink_Invariant, Process_Stream, Stream_Protocol, Asr_Service
    (service/asr_service.cpp): the call. What a client has received when the call returns OK is
    a complete stream with true counts; the worker sends the trailer exactly when its status is
    OK, which the reader's status may override; every call returns and is counted once.
  \<^item> Media_Types, Ordered_Map, Registry, Registry_Delivery (streaming/src/registry.cpp): streams,
    history, cursors, mailboxes. All state is bounded; what a subscription receives has no gap until it
    overflows or is cancelled;
    listeners never affect producers.
  \<^item> Utf8, Reconcile, Reconcile_Proofs, Reconcile_Segments, Reconcile_Revisions, Reconcile_Progress
    (streaming/src/reconcile.cpp): the anchor is a longest common run; no recognised word
    is lost and none invented; emitted segments are well formed and pass the registry's
    revision check; windows in order are refused only for their content or by the receiver.
  \<^item> Worker, Voice_Activity (streaming/src/worker.cpp, vad.cpp): one session of the speech worker
    and what sessions share; however the audio is split over calls, the detector's frames are
    each stretch cut every 512 samples.
  \<^item> Windowing_Progress, Pipeline, Pipeline_Proofs, Pipeline_Worker (streaming/src/pipeline.cpp): a
    track from decoded audio to published hypotheses, and the resolution of a request's options.
    Options that resolve are within their documented ranges; with a worker that serves the model
    a track completes, with reconciliation or without, unless the receiver refuses an event or the
    reconciler a hypothesis, and its hypotheses cover the audio.
  \<^item> Http_Source (streaming/src/http.cpp): which addresses and origins a Pull may reach, and the
    bounded buffer between the transfer and the reader, which loses nothing.
  \<^item> Media_Service, Media_Service_Proofs, Ingest_Contract, Speech_Processing
    (streaming/src/service.cpp): Ingest, Pull, Subscribe and GetServiceInfo over a registry that other
    calls change in between. The locale \<open>processing\<close> is what the service needs of a pipeline, and
    the speech pipeline is interpreted as one; \<open>ingest_source\<close> is what a source of requests has
    to give. A stream that was opened is closed with true counts on every path but
    one: when OpenSSL cannot finish the digest it stays open. A call that returns OK has appended
    the whole source. Here the decoder is the list of callbacks it makes, any list; Media_Decoder
    is the decoder itself.
  \<^item> Media_Decoder, Media_Decoder_Proofs (streaming/src/decoder.cpp): the decoder over the answers
    of the FFmpeg libraries. Published audio is gap-free and is what the resampler gave,
    fragments rebuild the packets, a failed read of the source ends the call with its own exception and
    no event follows it, and
    the decoder, a track and a worker run to the end together.
  \<^item> Speech_Models, Speech_Models_Proofs (streaming/src/speech.cpp, parakeet_model.cpp,
    engine/stream_backend.cpp): the adapters and the backend over the collector's pool. The locale
    \<open>speech_backend\<close> is what worker and reconciler rely on, both adapters are interpreted as one.
    The pooled backend checks options as its adapter does, gives every lease back, and does
    not wait beyond its queue timeout.
  \<^item> Streaming_Runtime, Server_Main (service/streaming_runtime.cpp, main.cpp): a process either exits
    with code 1 or serves with everything loaded, and its shutdown protocol always completes.

  \<^bold>\<open>Fuel.\<close> Only the transcriber's window loop and the collection of a
  tool's output take fuel. For the window loop, one iteration per millisecond of
  \<open>GRPC_ASR_MAX_DURATION_SECONDS\<close> is enough (\<open>transcriber_run_returns\<close>), since every
  iteration advances the base of the window by at least one; for \<open>collect_output\<close>, one read per byte
  of the child's output and one for its end.

  \<^bold>\<open>Not modelled.\<close> The libraries behind the parameters, among them whisper.cpp, Parakeet, FFmpeg,
  libcurl, OpenSSL, gRPC and protobuf, of which only the answers appear; log and metrics lines; the
  watchdog thread of a worker's read (\<open>ReadDeadline\<close>), whose effect is a read that ends the stream; of
  speech tokens the fields that no other code of the repository reads; of the Document the fields that
  the fold never writes and the item labels, which are constants. Failures of \<open>uuid()\<close> and of the hash
  inside \<open>Registry::open\<close>, and of memory allocation, are left out. Media times in \<open>timed_match\<close>
  and \<open>shift_segment\<close> and the code points of a text are unbounded, where the code has int64 and
  int32. Of the model pool between acquire and release only the well-formedness that every pool
  operation keeps is assumed. \<open>Shutdown\<close> of the gRPC server is one step: the handlers it waits for are
  those of the other theories, which return.
\<close>

end
